(* ===== verification/CpeErr.thy ===== *)
theory CpeErr
  imports Prelude
begin

text \<open>
  Package \<^verbatim>\<open>cpeerr\<close> (\<^verbatim>\<open>src/internal/cpeerr/cpeerr.go\<close>): the typed error every other package
  returns.  A Go \<^verbatim>\<open>error\<close> is a term: \<open>Errorf\<close> keeps the format string and the arguments of a
  \<^verbatim>\<open>fmt.Errorf\<close> call, with \<open>ArgW\<close> for the argument of a \<^verbatim>\<open>%w\<close> verb, and \<open>Error\<close> is the struct
  of the package.  \<open>Is_kind\<close> is \<^verbatim>\<open>cpeerr.Is\<close>; \<open>Error_text\<close> is the method \<^verbatim>\<open>Error()\<close>, needed
  because one handler branches on the text of an error.
\<close>

section \<open>Error values\<close>

datatype Kind = KindUnknown | KindInvalidArgument | KindNotFound | KindInternal

fun Kind_String :: "Kind \<Rightarrow> string" where
  "Kind_String KindInvalidArgument = ''invalid_argument''"
| "Kind_String KindNotFound = ''not_found''"
| "Kind_String KindInternal = ''internal''"
| "Kind_String KindUnknown = ''unknown''"

datatype goerr =
    Errorf string "goarg list"
  | Error (Op: string) (kind: Kind) (FaultCode: int) (Err: "goerr option")
and goarg =
    ArgS string
  | ArgI int
  | ArgE goerr
  | ArgW goerr

definition Wrap :: "string \<Rightarrow> Kind \<Rightarrow> goerr option \<Rightarrow> goerr" where
  "Wrap op k cause = Error op k 0 cause"

definition WithFaultCode :: "goerr option \<Rightarrow> int \<Rightarrow> goerr option" where
  "WithFaultCode e code =
     (case e of
        Some (Error op k _ cause) \<Rightarrow> Some (Error op k code cause)
      | _ \<Rightarrow> e)"

fun Unwrap :: "goerr \<Rightarrow> goerr option" where
  "Unwrap (Error _ _ _ cause) = cause"
| "Unwrap (Errorf _ []) = None"
| "Unwrap (Errorf f (ArgW e # as)) = Some e"
| "Unwrap (Errorf f (_ # as)) = Unwrap (Errorf f as)"

lemma Unwrap_size [termination_simp]: "Unwrap e = Some e' \<Longrightarrow> size e' < size e"
  by (induction e rule: Unwrap.induct) auto

text \<open>\<^verbatim>\<open>Is\<close> follows the chain of wrapped errors and answers whether one of them is an
  \<^verbatim>\<open>*Error\<close> of the kind.\<close>

function Is_kind :: "goerr \<Rightarrow> Kind \<Rightarrow> bool" where
  "Is_kind e k =
     ((case e of Error _ k' _ _ \<Rightarrow> k' = k | Errorf _ _ \<Rightarrow> False) \<or>
      (case Unwrap e of None \<Rightarrow> False | Some e' \<Rightarrow> Is_kind e' k))"
  by pat_completeness auto
termination
  by (relation "measure (size o fst)") (auto simp: Unwrap_size)

declare Is_kind.simps [simp del]

section \<open>Texts\<close>

text \<open>The \<^verbatim>\<open>%q\<close> verb on bytes: printable ASCII stands for itself, the quote and the backslash are
  escaped, the named control characters have their letter, every other byte is written in
  hexadecimal.  (Go prints a well-formed multi-byte character as it is; no branch of the program
  depends on such a byte.)\<close>

definition hex_digit :: "nat \<Rightarrow> char" where
  "hex_digit n = (if n < 10 then digit_char n else char_of (n + 87))"

definition quote_char :: "char \<Rightarrow> string" where
  "quote_char c =
     (if c = CHR 0x22 \<or> c = CHR 0x5C then [CHR 0x5C, c]
      else if c = CHR 0x07 then CHR 0x5C # ''a''
      else if c = CHR 0x08 then CHR 0x5C # ''b''
      else if c = CHR 0x0C then CHR 0x5C # ''f''
      else if c = CHR 0x0A then CHR 0x5C # ''n''
      else if c = CHR 0x0D then CHR 0x5C # ''r''
      else if c = CHR 0x09 then CHR 0x5C # ''t''
      else if c = CHR 0x0B then CHR 0x5C # ''v''
      else if CHR '' '' \<le> c \<and> c \<le> CHR ''~'' then [c]
      else [CHR 0x5C, CHR ''x'', hex_digit (of_char c div 16), hex_digit (of_char c mod 16)])"

definition Quote :: "string \<Rightarrow> string" where
  "Quote s = CHR 0x22 # concat (map quote_char s) @ [CHR 0x22]"

fun Sprintf :: "string \<Rightarrow> string list \<Rightarrow> string" where
  "Sprintf (x # v # fs) args =
     (if x = CHR ''%'' then
        (if v = CHR ''%'' then CHR ''%'' # Sprintf fs args
         else (case args of
                 [] \<Rightarrow> Sprintf fs []
               | a # as \<Rightarrow> (if v = CHR ''q'' then Quote a else a) @ Sprintf fs as))
      else x # Sprintf (v # fs) args)"
| "Sprintf [x] args = [x]"
| "Sprintf [] args = []"

fun Error_text :: "goerr \<Rightarrow> string" and arg_text :: "goarg \<Rightarrow> string" where
  "Error_text (Errorf f as) = Sprintf f (map arg_text as)"
| "Error_text (Error op k fc cause) =
     op @ '': '' @ Kind_String k
     @ (if fc \<noteq> 0 then '' [fault='' @ Itoa fc @ '']'' else '''')
     @ (case cause of None \<Rightarrow> '''' | Some e \<Rightarrow> '': '' @ Error_text e)"
| "arg_text (ArgS s) = s"
| "arg_text (ArgI i) = Itoa i"
| "arg_text (ArgE e) = Error_text e"
| "arg_text (ArgW e) = Error_text e"

section \<open>The kind of a wrapped error\<close>

lemma Is_kind_Error [simp]:
  "Is_kind (Error op k' fc cause) k \<longleftrightarrow>
     k' = k \<or> (case cause of None \<Rightarrow> False | Some e \<Rightarrow> Is_kind e k)"
  by (simp add: Is_kind.simps [of "Error op k' fc cause"])

lemma Is_kind_Wrap [simp]:
  "Is_kind (Wrap op k' cause) k \<longleftrightarrow>
     k' = k \<or> (case cause of None \<Rightarrow> False | Some e \<Rightarrow> Is_kind e k)"
  by (simp add: Wrap_def)

lemma Unwrap_no_wrap: "\<forall>e. ArgW e \<notin> set as \<Longrightarrow> Unwrap (Errorf f as) = None"
proof (induction as)
  case (Cons a as)
  then show ?case by (cases a) auto
qed simp

lemma Is_kind_Errorf_plain: "\<forall>e. ArgW e \<notin> set as \<Longrightarrow> \<not> Is_kind (Errorf f as) k"
  by (simp add: Is_kind.simps [of "Errorf f as"] Unwrap_no_wrap)

end
