(* ===== verification/GoTime.thy ===== *)
theory GoTime
  imports Prelude
begin

text \<open>
  The part of Go's \<^verbatim>\<open>time\<close>, \<^verbatim>\<open>unicode/utf8\<close> and \<^verbatim>\<open>encoding/base64\<close> packages the value layer
  uses: \<^verbatim>\<open>time.Parse\<close> and \<^verbatim>\<open>Time.Format\<close> with the layout \<^verbatim>\<open>time.RFC3339Nano\<close>, the
  conversion to UTC, \<^verbatim>\<open>utf8.ValidString\<close> and \<^verbatim>\<open>base64.StdEncoding.DecodeString\<close> as a validity
  test.  Parsing is the layout-driven parser of the library with its tolerances: an hour may
  have one digit, the fraction may follow a comma, more than nine fraction digits are cut.
\<close>

section \<open>Civil dates\<close>

record gotime =
  t_year :: int
  t_month :: int
  t_day :: int
  t_hour :: int
  t_min :: int
  t_sec :: int
  t_nsec :: int

definition is_leap :: "int \<Rightarrow> bool" where
  "is_leap y \<longleftrightarrow> y mod 4 = 0 \<and> (y mod 100 \<noteq> 0 \<or> y mod 400 = 0)"

definition days_in :: "int \<Rightarrow> int \<Rightarrow> int" where
  "days_in m y =
     (if m = 2 then (if is_leap y then 29 else 28)
      else if m \<in> {4, 6, 9, 11} then 30 else 31)"

fun next_day :: "int \<times> int \<times> int \<Rightarrow> int \<times> int \<times> int" where
  "next_day (y, m, d) =
     (if d < days_in m y then (y, m, d + 1)
      else if m < 12 then (y, m + 1, 1) else (y + 1, 1, 1))"

fun prev_day :: "int \<times> int \<times> int \<Rightarrow> int \<times> int \<times> int" where
  "prev_day (y, m, d) =
     (if 1 < d then (y, m, d - 1)
      else if 1 < m then (y, m - 1, days_in (m - 1) y) else (y - 1, 12, 31))"

definition shift_days :: "int \<Rightarrow> int \<times> int \<times> int \<Rightarrow> int \<times> int \<times> int" where
  "shift_days k ymd =
     (if 0 \<le> k then (next_day ^^ nat k) ymd else (prev_day ^^ nat (- k)) ymd)"

section \<open>Parsing the layout RFC3339Nano\<close>

text \<open>\<open>getnum\<close> reads one or two digits; \<open>fixed\<close> insists on two.\<close>

definition getnum :: "bool \<Rightarrow> string \<Rightarrow> (int \<times> string) option" where
  "getnum fixed s =
     (case s of
        [] \<Rightarrow> None
      | c # cs \<Rightarrow>
          if \<not> is_digit c then None
          else (case cs of
                  [] \<Rightarrow> if fixed then None else Some (int (digit_val c), cs)
                | c2 # cs2 \<Rightarrow>
                    if is_digit c2
                    then Some (10 * int (digit_val c) + int (digit_val c2), cs2)
                    else if fixed then None else Some (int (digit_val c), cs)))"

definition skip_char :: "char \<Rightarrow> string \<Rightarrow> string option" where
  "skip_char c s = (case s of [] \<Rightarrow> None | x # xs \<Rightarrow> if x = c then Some xs else None)"

definition get_year :: "string \<Rightarrow> (int \<times> string) option" where
  "get_year s =
     (if 4 \<le> length s \<and> list_all is_digit (take 4 s)
      then map_option (\<lambda>n. (int n, drop 4 s)) (digits_val 0 (take 4 s)) else None)"

text \<open>The optional fraction: a period or comma and at least one digit.  Nine digits count.\<close>

definition get_frac :: "string \<Rightarrow> int \<times> string" where
  "get_frac s =
     (if 2 \<le> length s \<and> hd s \<in> {CHR ''.'', CHR '',''} \<and> is_digit (s ! 1)
      then (let ds = takeWhile is_digit (tl s);
                rest = dropWhile is_digit (tl s);
                kept = take 9 ds
            in (int (the (digits_val 0 kept)) * 10 ^ (9 - length kept), rest))
      else (0, s))"

text \<open>The zone designator: \<^verbatim>\<open>Z\<close>, or a sign and \<^verbatim>\<open>hh:mm\<close> with at most 24 hours and 60 minutes.
  The result is the offset east of UTC in seconds.\<close>

definition get_zone :: "string \<Rightarrow> (int \<times> string) option" where
  "get_zone s =
     (if s \<noteq> [] \<and> hd s = CHR ''Z'' then Some (0, tl s)
      else if length s < 6 \<or> s ! 3 \<noteq> CHR '':'' then None
      else (case (getnum True (take 2 (drop 1 s)), getnum True (take 2 (drop 4 s))) of
              (Some (hr, _), Some (mm, _)) \<Rightarrow>
                (if 24 < hr \<or> 60 < mm then None
                 else if hd s = CHR ''+'' then Some ((hr * 60 + mm) * 60, drop 6 s)
                 else if hd s = CHR ''-'' then Some (- ((hr * 60 + mm) * 60), drop 6 s)
                 else None)
            | _ \<Rightarrow> None))"

definition parse_rfc3339 :: "string \<Rightarrow> (gotime \<times> int) option" where
  "parse_rfc3339 s =
     Option.bind (get_year s) (\<lambda>(y, s).
     Option.bind (skip_char CHR ''-'' s) (\<lambda>s.
     Option.bind (getnum True s) (\<lambda>(mo, s).
     Option.bind (skip_char CHR ''-'' s) (\<lambda>s.
     Option.bind (getnum True s) (\<lambda>(d, s).
     Option.bind (skip_char CHR ''T'' s) (\<lambda>s.
     Option.bind (getnum False s) (\<lambda>(h, s).
     Option.bind (skip_char CHR '':'' s) (\<lambda>s.
     Option.bind (getnum True s) (\<lambda>(mi, s).
     Option.bind (skip_char CHR '':'' s) (\<lambda>s.
     Option.bind (getnum True s) (\<lambda>(sec, s).
     let (ns, s) = get_frac s in
     Option.bind (get_zone s) (\<lambda>(off, s).
       if s = [] \<and> 1 \<le> mo \<and> mo \<le> 12 \<and> h < 24 \<and> mi < 60 \<and> sec < 60
          \<and> 1 \<le> d \<and> d \<le> days_in mo y
       then Some (\<lparr>t_year = y, t_month = mo, t_day = d, t_hour = h, t_min = mi,
                   t_sec = sec, t_nsec = ns\<rparr>, off)
       else None))))))))))))"

section \<open>Conversion to UTC and formatting\<close>

definition to_UTC :: "gotime \<times> int \<Rightarrow> gotime" where
  "to_UTC p =
     (let t = fst p; off = snd p;
          secs = t_hour t * 3600 + t_min t * 60 + t_sec t - off;
          (y, m, d) = shift_days (secs div 86400) (t_year t, t_month t, t_day t);
          r = secs mod 86400
      in t\<lparr>t_year := y, t_month := m, t_day := d,
           t_hour := r div 3600, t_min := (r div 60) mod 60, t_sec := r mod 60\<rparr>)"

definition pad :: "nat \<Rightarrow> string \<Rightarrow> string" where
  "pad w s = replicate (w - length s) CHR ''0'' @ s"

definition append_int :: "nat \<Rightarrow> int \<Rightarrow> string" where
  "append_int w i =
     (if i < 0 then CHR ''-'' # pad w (show_nat (nat (- i))) else pad w (show_nat (nat i)))"

definition format_frac :: "int \<Rightarrow> string" where
  "format_frac ns =
     (let ds = rev (dropWhile (\<lambda>c. c = CHR ''0'') (rev (append_int 9 ns)))
      in if ds = [] then [] else CHR ''.'' # ds)"

definition format_rfc3339 :: "gotime \<Rightarrow> string" where
  "format_rfc3339 t =
     append_int 4 (t_year t) @ ''-'' @ append_int 2 (t_month t) @ ''-'' @ append_int 2 (t_day t)
     @ ''T'' @ append_int 2 (t_hour t) @ '':'' @ append_int 2 (t_min t) @ '':''
     @ append_int 2 (t_sec t) @ format_frac (t_nsec t) @ ''Z''"

section \<open>UTF-8\<close>

definition cont :: "nat \<Rightarrow> bool" where
  "cont b \<longleftrightarrow> 128 \<le> b \<and> b \<le> 191"

fun valid_utf8 :: "nat list \<Rightarrow> bool" where
  "valid_utf8 [] = True"
| "valid_utf8 (b # bs) =
     (if b < 128 then valid_utf8 bs
      else if 194 \<le> b \<and> b \<le> 223 then
        (case bs of c # bs' \<Rightarrow> cont c \<and> valid_utf8 bs' | _ \<Rightarrow> False)
      else if 224 \<le> b \<and> b \<le> 239 then
        (case bs of c # d # bs' \<Rightarrow>
           (if b = 224 then 160 \<le> c \<and> c \<le> 191
            else if b = 237 then 128 \<le> c \<and> c \<le> 159 else cont c)
           \<and> cont d \<and> valid_utf8 bs'
         | _ \<Rightarrow> False)
      else if 240 \<le> b \<and> b \<le> 244 then
        (case bs of c # d # e # bs' \<Rightarrow>
           (if b = 240 then 144 \<le> c \<and> c \<le> 191
            else if b = 244 then 128 \<le> c \<and> c \<le> 143 else cont c)
           \<and> cont d \<and> cont e \<and> valid_utf8 bs'
         | _ \<Rightarrow> False)
      else False)"

definition ValidString :: "string \<Rightarrow> bool" where
  "ValidString s = valid_utf8 (map of_char s)"

lemma valid_utf8_ascii: "\<forall>b \<in> set bs. b < 128 \<Longrightarrow> valid_utf8 bs"
  by (induction bs) auto

section \<open>Base64\<close>

text \<open>Line breaks are skipped; the rest is groups of four alphabet characters, the last of which
  may end in one or two pads.\<close>

definition b64_alpha :: "char \<Rightarrow> bool" where
  "b64_alpha c \<longleftrightarrow>
     CHR ''A'' \<le> c \<and> c \<le> CHR ''Z'' \<or> CHR ''a'' \<le> c \<and> c \<le> CHR ''z'' \<or> is_digit c
     \<or> c = CHR ''+'' \<or> c = CHR ''/''"

fun b64_groups :: "string \<Rightarrow> bool" where
  "b64_groups [] = True"
| "b64_groups (a # b # c # d # rest) =
     (b64_alpha a \<and> b64_alpha b \<and>
      (if b64_alpha c then (if b64_alpha d then b64_groups rest else d = CHR ''='' \<and> rest = [])
       else c = CHR ''='' \<and> d = CHR ''='' \<and> rest = []))"
| "b64_groups _ = False"

definition b64_decodable :: "string \<Rightarrow> bool" where
  "b64_decodable s = b64_groups (filter (\<lambda>c. c \<noteq> CHR 0x0A \<and> c \<noteq> CHR 0x0D) s)"

end
