(* ===== verification/ParamValue.thy ===== *)
theory ParamValue
  imports CpeErr GoTime
begin

text \<open>
  Values and paths of the parameter tree: \<^verbatim>\<open>value.go\<close>, \<^verbatim>\<open>types.go\<close> and \<^verbatim>\<open>path.go\<close> of
  \<^verbatim>\<open>src/internal/paramtree\<close>.  A type identifier is a string, as in the source; \<open>Validate\<close> and
  \<open>Marshal\<close> look it up in the table \<^verbatim>\<open>typeFns\<close>.  \<open>parsePath\<close> is the only way a path enters the
  tree, and the last section shows that it and \<open>joinPath\<close> are inverse on canonical paths.
\<close>

section \<open>Values\<close>

type_synonym Type = string

abbreviation TypeString :: Type where "TypeString \<equiv> ''xsd:string''"
abbreviation TypeInt :: Type where "TypeInt \<equiv> ''xsd:int''"
abbreviation TypeUnsignedInt :: Type where "TypeUnsignedInt \<equiv> ''xsd:unsignedInt''"
abbreviation TypeBoolean :: Type where "TypeBoolean \<equiv> ''xsd:boolean''"
abbreviation TypeDateTime :: Type where "TypeDateTime \<equiv> ''xsd:dateTime''"
abbreviation TypeBase64 :: Type where "TypeBase64 \<equiv> ''xsd:base64''"

record Value =
  VType :: Type
  Raw :: string
  Writable :: bool

definition zero_Value :: Value where
  "zero_Value = \<lparr>VType = '''', Raw = '''', Writable = False\<rparr>"

text \<open>\<^verbatim>\<open>AccessList\<close> distinguishes a nil slice (\<^const>\<open>None\<close>) from an empty one.\<close>

record Attributes =
  Notification :: int
  AccessList :: "string list option"

definition zero_Attributes :: Attributes where
  "zero_Attributes = \<lparr>Notification = 0, AccessList = None\<rparr>"

section \<open>Validation and canonical form\<close>

definition validateString :: "string \<Rightarrow> bool" where
  "validateString raw = ValidString raw"

definition validateInt32 :: "string \<Rightarrow> bool" where
  "validateInt32 raw = (ParseInt 32 raw \<noteq> None)"

definition validateUint32 :: "string \<Rightarrow> bool" where
  "validateUint32 raw = (ParseUint 32 raw \<noteq> None)"

definition validateBoolean :: "string \<Rightarrow> bool" where
  "validateBoolean raw = (raw \<in> set [''0'', ''1'', ''true'', ''false''])"

definition hasTimezone :: "string \<Rightarrow> bool" where
  "hasTimezone raw =
     (if HasSuffix raw ''Z'' then True
      else if length raw < 6 then False
      else (let tail = drop (length raw - 6) raw in
        if (tail ! 0 \<noteq> CHR ''+'' \<and> tail ! 0 \<noteq> CHR ''-'') \<or> tail ! 3 \<noteq> CHR '':'' then False
        else list_all (\<lambda>i. is_digit (tail ! i)) [1, 2, 4, 5]))"

definition validateDateTime :: "string \<Rightarrow> bool" where
  "validateDateTime raw = (if \<not> hasTimezone raw then False else parse_rfc3339 raw \<noteq> None)"

definition validateBase64 :: "string \<Rightarrow> bool" where
  "validateBase64 raw = b64_decodable raw"

definition marshalIdentity :: "string \<Rightarrow> string option" where
  "marshalIdentity raw = Some raw"

definition marshalBoolean :: "string \<Rightarrow> string option" where
  "marshalBoolean raw =
     (if raw \<in> set [''1'', ''true''] then Some ''true''
      else if raw \<in> set [''0'', ''false''] then Some ''false''
      else None)"

definition marshalDateTime :: "string \<Rightarrow> string option" where
  "marshalDateTime raw =
     (if \<not> hasTimezone raw then None
      else (case parse_rfc3339 raw of
              None \<Rightarrow> None
            | Some t \<Rightarrow> Some (format_rfc3339 (to_UTC t))))"

definition typeFns :: "Type \<Rightarrow> ((string \<Rightarrow> bool) \<times> (string \<Rightarrow> string option)) option" where
  "typeFns =
     map_of [(TypeString, (validateString, marshalIdentity)),
             (TypeInt, (validateInt32, marshalIdentity)),
             (TypeUnsignedInt, (validateUint32, marshalIdentity)),
             (TypeBoolean, (validateBoolean, marshalBoolean)),
             (TypeDateTime, (validateDateTime, marshalDateTime)),
             (TypeBase64, (validateBase64, marshalIdentity))]"

definition Validate :: "Type \<Rightarrow> string \<Rightarrow> goerr + unit" where
  "Validate typ raw =
     (case typeFns typ of
        None \<Rightarrow> Inl (Wrap ''paramtree.Validate'' KindInvalidArgument
                      (Some (Errorf ''unknown type %q'' [ArgS typ])))
      | Some (validate, _) \<Rightarrow>
          (if \<not> validate raw
           then Inl (Wrap ''paramtree.Validate'' KindInvalidArgument
                      (Some (Errorf ''invalid %s value %q'' [ArgS typ, ArgS raw])))
           else Inr ()))"

definition Marshal :: "Type \<Rightarrow> string \<Rightarrow> goerr + string" where
  "Marshal typ raw =
     (case typeFns typ of
        None \<Rightarrow> Inl (Wrap ''paramtree.Marshal'' KindInvalidArgument
                      (Some (Errorf ''unknown type %q'' [ArgS typ])))
      | Some (_, marshal) \<Rightarrow>
          (case marshal raw of
             None \<Rightarrow> Inl (Wrap ''paramtree.Marshal'' KindInvalidArgument
                      (Some (Errorf ''cannot marshal %s value %q'' [ArgS typ, ArgS raw])))
           | Some canonical \<Rightarrow> Inr canonical))"

section \<open>Paths\<close>

definition isSegmentChar :: "char \<Rightarrow> bool" where
  "isSegmentChar r \<longleftrightarrow>
     CHR ''a'' \<le> r \<and> r \<le> CHR ''z'' \<or> CHR ''A'' \<le> r \<and> r \<le> CHR ''Z''
     \<or> CHR ''0'' \<le> r \<and> r \<le> CHR ''9'' \<or> r = CHR ''_'' \<or> r = CHR ''-''"

fun check_segments :: "string \<Rightarrow> string list \<Rightarrow> goerr + unit" where
  "check_segments path [] = Inr ()"
| "check_segments path (s # ss) =
     (if s = [] then
        Inl (Wrap ''paramtree.parsePath'' KindInvalidArgument
              (Some (Errorf ''empty segment in %q'' [ArgS path])))
      else (case find (\<lambda>r. \<not> isSegmentChar r) s of
              Some r \<Rightarrow>
                Inl (Wrap ''paramtree.parsePath'' KindInvalidArgument
                      (Some (Errorf ''invalid character %q in segment %q'' [ArgS [r], ArgS s])))
            | None \<Rightarrow> check_segments path ss))"

definition parsePath :: "string \<Rightarrow> goerr + string list" where
  "parsePath p =
     (let path = TrimSuffix p ''.'' in
      if path = [] then Inr []
      else (let segments = split_on CHR ''.'' path in
            case check_segments path segments of
              Inl e \<Rightarrow> Inl e
            | Inr _ \<Rightarrow> Inr segments))"

definition joinPath :: "string list \<Rightarrow> string" where
  "joinPath segments = join ''.'' segments"

text \<open>A segment list \<open>parsePath\<close> can return.\<close>

definition valid_segs :: "string list \<Rightarrow> bool" where
  "valid_segs segs \<longleftrightarrow> list_all (\<lambda>s. s \<noteq> [] \<and> list_all isSegmentChar s) segs"

lemma valid_segs_simps [simp]:
  "valid_segs []"
  "valid_segs (s # ss) \<longleftrightarrow> s \<noteq> [] \<and> list_all isSegmentChar s \<and> valid_segs ss"
  "valid_segs (xs @ ys) \<longleftrightarrow> valid_segs xs \<and> valid_segs ys"
  by (auto simp: valid_segs_def)

lemma isSegmentChar_not_dot: "isSegmentChar c \<Longrightarrow> c \<noteq> CHR ''.''"
  by (auto simp: isSegmentChar_def less_eq_char_def)

lemma is_digit_isSegmentChar: "is_digit c \<Longrightarrow> isSegmentChar c"
  by (simp add: is_digit_def isSegmentChar_def)

lemma show_nat_segment: "list_all isSegmentChar (show_nat n)"
  by (auto simp: list_all_iff intro: is_digit_isSegmentChar show_nat_digits)

lemma check_segments_ok: "check_segments path ss = Inr () \<longleftrightarrow> valid_segs ss"
proof (induction ss)
  case (Cons s ss)
  show ?case
  proof (cases "find (\<lambda>r. \<not> isSegmentChar r) s")
    case None
    then have "list_all isSegmentChar s"
      by (auto simp: find_None_iff list_all_iff)
    with None Cons show ?thesis by simp
  next
    case (Some r)
    then have "\<not> list_all isSegmentChar s"
      by (auto simp: find_Some_iff list_all_iff)
    with Some show ?thesis by simp
  qed
qed simp

lemma check_segments_kind: "check_segments path ss = Inl e \<Longrightarrow> kind e = KindInvalidArgument"
  by (induction ss) (auto simp: Wrap_def split: if_splits option.splits)

lemma parsePath_valid: "parsePath p = Inr segs \<Longrightarrow> valid_segs segs"
  by (auto simp: parsePath_def Let_def check_segments_ok split: if_splits sum.splits)

lemma parsePath_error_kind: "parsePath p = Inl e \<Longrightarrow> kind e = KindInvalidArgument"
  by (auto simp: parsePath_def Let_def split: if_splits sum.splits dest: check_segments_kind)

lemma valid_segs_no_dot: "valid_segs segs \<Longrightarrow> \<forall>s \<in> set segs. CHR ''.'' \<notin> set s"
  by (auto simp: valid_segs_def list_all_iff dest: isSegmentChar_not_dot)

lemma joinPath_eq_Nil [simp]: "valid_segs segs \<Longrightarrow> joinPath segs = [] \<longleftrightarrow> segs = []"
  unfolding joinPath_def
  by (rule join_eq_Nil_iff) (auto simp: valid_segs_def list_all_iff)

lemma last_join_not_dot:
  "valid_segs segs \<Longrightarrow> segs \<noteq> [] \<Longrightarrow> last (joinPath segs) \<noteq> CHR ''.''"
proof (induction segs rule: rev_induct)
  case (snoc s segs)
  then have s: "s \<noteq> []" "CHR ''.'' \<notin> set s"
    using valid_segs_no_dot [of "[s]"] by simp_all
  then have "last s \<noteq> CHR ''.''"
    by (metis last_in_set)
  then show ?case
    using s by (cases "segs = []") (simp_all add: joinPath_def join_snoc)
qed simp

lemma TrimSuffix_joinPath:
  assumes "valid_segs segs"
  shows "TrimSuffix (joinPath segs) ''.'' = joinPath segs"
proof (cases "segs = []")
  case False
  then have "\<not> suffix ''.'' (joinPath segs)"
    using last_join_not_dot [OF assms False] by (auto simp: suffix_def)
  then show ?thesis
    by (simp add: TrimSuffix_def HasSuffix_iff_suffix)
qed (simp add: joinPath_def TrimSuffix_def)

lemma split_on_joinPath: "valid_segs segs \<Longrightarrow> segs \<noteq> [] \<Longrightarrow> split_on CHR ''.'' (joinPath segs) = segs"
  unfolding joinPath_def by (rule split_on_join) (simp_all add: valid_segs_no_dot)

lemma parsePath_joinPath:
  assumes "valid_segs segs"
  shows "parsePath (joinPath segs) = Inr segs"
proof (cases "segs = []")
  case False
  have "check_segments (joinPath segs) segs = Inr ()"
    using assms by (simp add: check_segments_ok)
  with assms False show ?thesis
    by (simp add: parsePath_def TrimSuffix_joinPath split_on_joinPath)
qed (simp add: parsePath_def joinPath_def TrimSuffix_def)

lemma parsePath_joinPath_dot: "valid_segs segs \<Longrightarrow> parsePath (joinPath segs @ ''.'') = Inr segs"
  using parsePath_joinPath [of segs]
  by (simp add: parsePath_def TrimSuffix_joinPath)

lemma joinPath_parsePath: "parsePath p = Inr segs \<Longrightarrow> joinPath segs = TrimSuffix p ''.''"
  by (auto simp: parsePath_def Let_def joinPath_def join_split_on split: if_splits sum.splits)

lemma joinPath_inject:
  "valid_segs xs \<Longrightarrow> valid_segs ys \<Longrightarrow> joinPath xs = joinPath ys \<longleftrightarrow> xs = ys"
  by (metis parsePath_joinPath sum.inject(2))

section \<open>Evaluation\<close>

text \<open>The definitions the simplifier unfolds to evaluate paths and values at concrete inputs.\<close>

lemmas value_eval =
  parsePath_def TrimSuffix_def HasSuffix_def Let_def isSegmentChar_def less_eq_char_def joinPath_def
  Validate_def typeFns_def validateString_def validateInt32_def validateUint32_def validateBoolean_def
  ValidString_def ParseUint_def ParseInt_def parse_nat_def is_digit_def digit_val_def

end
