(* ===== verification/ParamNode.thy ===== *)
theory ParamNode
  imports ParamValue
begin

text \<open>
  Nodes of the parameter tree: \<^verbatim>\<open>node.go\<close> of \<^verbatim>\<open>src/internal/paramtree\<close> and the path lookup of
  \<^verbatim>\<open>paramtree.go\<close>.  A \<^verbatim>\<open>*Node\<close> is owned by one tree (the source forbids callers to touch a node
  after mounting it), so a node is a value and a write through a node pointer is
  \<open>update_at\<close> on the path that leads to it.  The Go map \<^verbatim>\<open>children\<close> is an association list;
  \<open>wf_node\<close> is the invariant that makes it one map and keeps leaves free of children.

  The locale \<open>cell_store\<close> states what the tree promises about its cells: a write to a cell is
  read back, other cells keep their contents, a write to a missing cell does nothing.  It is
  interpreted for the values of the leaves and for their attributes, and the facts about
  sequences of writes proved in it carry the batch operations.
\<close>

section \<open>Nodes\<close>

datatype Node =
  Node (children: "(string \<times> Node) list") (leaf: "Value option") (attrs: "Attributes option")
    (table: "Node option")

definition NewBranch :: Node where
  "NewBranch = Node [] None None None"

definition NewLeaf :: "Value \<Rightarrow> Node" where
  "NewLeaf v = Node [] (Some v) None None"

definition NewTable :: "Node \<Rightarrow> Node" where
  "NewTable template = Node [] None None (Some template)"

definition isLeaf :: "Node \<Rightarrow> bool" where
  "isLeaf n \<longleftrightarrow> leaf n \<noteq> None"

fun set_children :: "(string \<times> Node) list \<Rightarrow> Node \<Rightarrow> Node" where
  "set_children cs (Node _ l a t) = Node cs l a t"

fun set_leaf :: "Value option \<Rightarrow> Node \<Rightarrow> Node" where
  "set_leaf l (Node cs _ a t) = Node cs l a t"

fun set_attrs :: "Attributes option \<Rightarrow> Node \<Rightarrow> Node" where
  "set_attrs a (Node cs l _ t) = Node cs l a t"

fun set_table :: "Node option \<Rightarrow> Node \<Rightarrow> Node" where
  "set_table t (Node cs l a _) = Node cs l a t"

definition Attach :: "string \<Rightarrow> Node \<Rightarrow> Node \<Rightarrow> (goerr + unit) \<times> Node" where
  "Attach segment child n =
     (if leaf n \<noteq> None then
        (Inl (Wrap ''paramtree.Node.Attach'' KindInvalidArgument
               (Some (Errorf ''cannot attach %q under a leaf node'' [ArgS segment]))), n)
      else if map_of (children n) segment \<noteq> None then
        (Inl (Wrap ''paramtree.Node.Attach'' KindInvalidArgument
               (Some (Errorf ''segment %q already attached'' [ArgS segment]))), n)
      else (Inr (), set_children (AList.update segment child (children n)) n))"

text \<open>\<^verbatim>\<open>append([]string(nil), xs...)\<close>: with no elements to append, Go returns the nil slice, so an
  empty list does not survive the copy.\<close>

definition append_nil :: "string list \<Rightarrow> string list option" where
  "append_nil xs = (if xs = [] then None else Some xs)"

definition copy_access :: "Attributes \<Rightarrow> Attributes" where
  "copy_access a = (case AccessList a of None \<Rightarrow> a | Some xs \<Rightarrow> a\<lparr>AccessList := append_nil xs\<rparr>)"

fun clone :: "Node \<Rightarrow> Node" where
  "clone (Node cs l a t) =
     Node (map (\<lambda>(k, c). (k, clone c)) cs) l (map_option copy_access a) (map_option clone t)"

section \<open>Lookup\<close>

text \<open>\<open>lookup_at\<close> is the loop of \<^verbatim>\<open>Tree.lookup\<close>: \<open>walked\<close> is the part of the path already walked,
  which the error text quotes.\<close>

fun lookup_at :: "string list \<Rightarrow> string list \<Rightarrow> string list \<Rightarrow> Node \<Rightarrow> goerr + Node" where
  "lookup_at segments walked [] n = Inr n"
| "lookup_at segments walked (seg # rest) n =
     (if isLeaf n then
        Inl (Errorf ''path %q traverses a leaf at %q''
              [ArgS (joinPath segments), ArgS (joinPath walked)])
      else (case map_of (children n) seg of
              None \<Rightarrow> Inl (Errorf ''path %q not found'' [ArgS (joinPath segments)])
            | Some child \<Rightarrow> lookup_at segments (walked @ [seg]) rest child))"

definition lookup :: "string list \<Rightarrow> Node \<Rightarrow> goerr + Node" where
  "lookup segments n = lookup_at segments [] segments n"

text \<open>The node a path leads to, and a write through the pointer \<open>lookup\<close> returns.\<close>

fun node_at :: "string list \<Rightarrow> Node \<Rightarrow> Node option" where
  "node_at [] n = Some n"
| "node_at (s # ss) n =
     (if isLeaf n then None
      else (case map_of (children n) s of None \<Rightarrow> None | Some c \<Rightarrow> node_at ss c))"

fun update_at :: "string list \<Rightarrow> (Node \<Rightarrow> Node) \<Rightarrow> Node \<Rightarrow> Node" where
  "update_at [] f n = f n"
| "update_at (s # ss) f n =
     (if isLeaf n then n
      else (case map_of (children n) s of
              None \<Rightarrow> n
            | Some c \<Rightarrow> set_children (AList.update s (update_at ss f c) (children n)) n))"

text \<open>What a path reads: the value of the leaf it names, and the attributes stored there.\<close>

definition leaf_at :: "Node \<Rightarrow> string list \<Rightarrow> Value option" where
  "leaf_at n segs = (case node_at segs n of None \<Rightarrow> None | Some m \<Rightarrow> leaf m)"

definition attrs_at :: "Node \<Rightarrow> string list \<Rightarrow> Attributes option option" where
  "attrs_at n segs =
     (case node_at segs n of
        None \<Rightarrow> None
      | Some m \<Rightarrow> if isLeaf m then Some (attrs m) else None)"

definition put_leaf :: "string list \<Rightarrow> Value \<Rightarrow> Node \<Rightarrow> Node" where
  "put_leaf segs v n = (if leaf_at n segs = None then n else update_at segs (set_leaf (Some v)) n)"

definition put_attrs :: "string list \<Rightarrow> Attributes option \<Rightarrow> Node \<Rightarrow> Node" where
  "put_attrs segs a n = (if attrs_at n segs = None then n else update_at segs (set_attrs a) n)"

section \<open>The invariant of a node\<close>

fun wf_node :: "Node \<Rightarrow> bool" where
  "wf_node (Node cs l a t) \<longleftrightarrow>
     distinct (map fst cs) \<and> (l \<noteq> None \<longrightarrow> cs = [] \<and> t = None)
     \<and> (\<forall>(k, c) \<in> set cs. valid_segs [k] \<and> wf_node c)
     \<and> (case t of None \<Rightarrow> True | Some tn \<Rightarrow> wf_node tn)"

text \<open>Every leaf, also those of the table templates, holds a value of its declared type.\<close>

definition valid_Value :: "Value \<Rightarrow> bool" where
  "valid_Value v \<longleftrightarrow> \<not> is_err (Validate (VType v) (Raw v))"

fun typed_node :: "Node \<Rightarrow> bool" where
  "typed_node (Node cs l a t) \<longleftrightarrow>
     (case l of None \<Rightarrow> True | Some v \<Rightarrow> valid_Value v)
     \<and> (\<forall>(k, c) \<in> set cs. typed_node c)
     \<and> (case t of None \<Rightarrow> True | Some tn \<Rightarrow> typed_node tn)"

section \<open>Selectors\<close>

lemma set_node_sel [simp]:
  "children (set_children cs n) = cs" "leaf (set_children cs n) = leaf n"
  "attrs (set_children cs n) = attrs n" "table (set_children cs n) = table n"
  "children (set_leaf l n) = children n" "leaf (set_leaf l n) = l"
  "attrs (set_leaf l n) = attrs n" "table (set_leaf l n) = table n"
  "children (set_attrs a n) = children n" "leaf (set_attrs a n) = leaf n"
  "attrs (set_attrs a n) = a" "table (set_attrs a n) = table n"
  "children (set_table t n) = children n" "leaf (set_table t n) = leaf n"
  "attrs (set_table t n) = attrs n" "table (set_table t n) = t"
  by (cases n; simp)+

lemma isLeaf_set [simp]:
  "isLeaf (set_children cs n) = isLeaf n" "isLeaf (set_attrs a n) = isLeaf n"
  "isLeaf (set_table t n) = isLeaf n" "isLeaf (set_leaf (Some v) n)"
  by (simp_all add: isLeaf_def)

lemma NewBranch_sel [simp]:
  "children NewBranch = []" "leaf NewBranch = None" "attrs NewBranch = None"
  "table NewBranch = None" "\<not> isLeaf NewBranch"
  by (simp_all add: NewBranch_def isLeaf_def)

lemma wf_node_iff:
  "wf_node n \<longleftrightarrow>
     distinct (map fst (children n)) \<and> (isLeaf n \<longrightarrow> children n = [] \<and> table n = None)
     \<and> (\<forall>(k, c) \<in> set (children n). valid_segs [k] \<and> wf_node c)
     \<and> (case table n of None \<Rightarrow> True | Some tn \<Rightarrow> wf_node tn)"
  by (cases n) (simp add: isLeaf_def)

lemma typed_node_iff:
  "typed_node n \<longleftrightarrow>
     (case leaf n of None \<Rightarrow> True | Some v \<Rightarrow> valid_Value v)
     \<and> (\<forall>(k, c) \<in> set (children n). typed_node c)
     \<and> (case table n of None \<Rightarrow> True | Some tn \<Rightarrow> typed_node tn)"
  by (cases n) simp

section \<open>Lookup and update\<close>

lemma lookup_at_node_at:
  "lookup_at segs walked ss n =
     (case node_at ss n of Some m \<Rightarrow> Inr m | None \<Rightarrow> lookup_at segs walked ss n)"
  by (induction segs walked ss n rule: lookup_at.induct) (auto split: option.splits)

lemma lookup_at_Inr: "lookup_at segs walked ss n = Inr m \<longleftrightarrow> node_at ss n = Some m"
  by (induction segs walked ss n rule: lookup_at.induct) (auto split: option.splits)

lemma lookup_Inr: "lookup segs n = Inr m \<longleftrightarrow> node_at segs n = Some m"
  by (simp add: lookup_def lookup_at_Inr)

lemma lookup_Some [simp]: "node_at segs n = Some m \<Longrightarrow> lookup segs n = Inr m"
  by (simp add: lookup_Inr)

lemma lookup_cases:
  obtains m where "node_at segs n = Some m" "lookup segs n = Inr m"
  | e where "node_at segs n = None" "lookup segs n = Inl e"
  by (cases "lookup segs n") (metis lookup_Inr not_Some_eq sum.simps(4))+

lemma node_at_append:
  "node_at (xs @ ys) n = (case node_at xs n of None \<Rightarrow> None | Some m \<Rightarrow> node_at ys m)"
  by (induction xs n rule: node_at.induct) (auto split: option.splits)

lemma node_at_update_at: "node_at p n = Some m \<Longrightarrow> node_at p (update_at p f n) = Some (f m)"
  by (induction p f n rule: update_at.induct) (auto split: option.splits if_splits)

lemma set_children_same [simp]: "set_children (children n) n = n"
  by (cases n) simp

lemma update_at_missing: "node_at p n = None \<Longrightarrow> update_at p f n = n"
  by (induction p f n rule: update_at.induct)
    (auto split: option.splits if_splits simp: update_same)

lemma update_at_append:
  "node_at xs n = Some m \<Longrightarrow> update_at (xs @ ys) f n = update_at xs (update_at ys f) n"
  by (induction xs f n rule: update_at.induct) (auto split: option.splits if_splits)

text \<open>A node's own data, which a write below it does not change.\<close>

definition obs_at :: "string list \<Rightarrow> Node \<Rightarrow> (Value option \<times> Attributes option \<times> Node option) option" where
  "obs_at q n = map_option (\<lambda>m. (leaf m, attrs m, table m)) (node_at q n)"

lemma leaf_at_obs: "leaf_at n q = (case obs_at q n of None \<Rightarrow> None | Some (l, a, t) \<Rightarrow> l)"
  by (simp add: leaf_at_def obs_at_def split: option.splits)

lemma attrs_at_obs:
  "attrs_at n q = (case obs_at q n of None \<Rightarrow> None
     | Some (l, a, t) \<Rightarrow> if l \<noteq> None then Some a else None)"
  by (simp add: attrs_at_def obs_at_def isLeaf_def split: option.splits)

lemma node_at_below:
  "node_at p n = Some m \<Longrightarrow> node_at (p @ r) (update_at p f n) = node_at r (f m)"
  by (simp add: node_at_append node_at_update_at)

lemma obs_at_outside: "\<not> prefix p q \<Longrightarrow> obs_at q (update_at p f n) = obs_at q n"
proof (induction p f n arbitrary: q rule: update_at.induct)
  case (2 s ss f n)
  show ?case
  proof (cases q)
    case Nil
    then show ?thesis by (simp add: obs_at_def split: option.split)
  next
    case (Cons x xs)
    show ?thesis
    proof (cases "isLeaf n \<or> map_of (children n) s = None")
      case True
      then show ?thesis by (auto split: option.split)
    next
      case False
      then obtain c where c: "map_of (children n) s = Some c" and nl: "\<not> isLeaf n" by auto
      with 2 Cons have "x = s \<Longrightarrow> obs_at xs (update_at ss f c) = obs_at xs c" by simp
      with c nl Cons show ?thesis by (auto simp: obs_at_def split: option.split)
    qed
  qed
qed simp

lemma obs_at_leaf_write:
  assumes "node_at p n = Some m" and "isLeaf (f m)" and "isLeaf m" and "q \<noteq> p"
  shows "obs_at q (update_at p f n) = obs_at q n"
proof (cases "prefix p q")
  case True
  with assms(4) obtain r rs where "q = p @ r # rs"
    by (metis append_Nil2 prefixE neq_Nil_conv)
  with assms show ?thesis
    by (simp add: obs_at_def node_at_append node_at_update_at)
qed (rule obs_at_outside)

section \<open>Cells\<close>

locale cell_store =
  fixes get :: "'s \<Rightarrow> 'k \<Rightarrow> 'v option"
    and put :: "'k \<Rightarrow> 'v \<Rightarrow> 's \<Rightarrow> 's"
  assumes get_put: "get s k \<noteq> None \<Longrightarrow> get (put k v s) k = Some v"
    and get_put_other: "k' \<noteq> k \<Longrightarrow> get (put k v s) k' = get s k'"
    and put_missing: "get s k = None \<Longrightarrow> put k v s = s"
begin

lemma get_put_conv: "get (put k v s) = (if get s k = None then get s else (get s)(k \<mapsto> v))"
  by (rule ext) (auto simp: get_put get_put_other put_missing)

lemma dom_put: "dom (get (put k v s)) = dom (get s)"
  by (auto simp: get_put_conv)

lemma dom_puts: "dom (get (fold (\<lambda>(k, v). put k v) kvs s)) = dom (get s)"
  by (induction kvs arbitrary: s) (simp_all add: dom_put split_beta)

lemma get_puts_other:
  "k \<notin> fst ` set kvs \<Longrightarrow> get (fold (\<lambda>(k, v). put k v) kvs s) k = get s k"
  by (induction kvs arbitrary: s) (auto simp: get_put_other)

lemma get_puts:
  "distinct (map fst kvs) \<Longrightarrow> (k, v) \<in> set kvs \<Longrightarrow> get s k \<noteq> None \<Longrightarrow>
     get (fold (\<lambda>(k, v). put k v) kvs s) k = Some v"
proof (induction kvs arbitrary: s)
  case (Cons kv kvs)
  obtain k' v' where kv: "kv = (k', v')" by (cases kv)
  show ?case
  proof (cases "(k, v) = kv")
    case True
    with Cons.prems kv have "k \<notin> fst ` set kvs" by auto
    with True kv Cons.prems(3) show ?thesis by (simp add: get_puts_other get_put)
  next
    case False
    with Cons.prems kv have "(k, v) \<in> set kvs" "distinct (map fst kvs)" by auto
    moreover have "get (put k' v' s) k \<noteq> None"
      using Cons.prems(3) by (metis dom_put domIff)
    ultimately show ?thesis using kv Cons.IH by simp
  qed
qed simp

end

text \<open>The tree provides two stores over the same paths: the values of its leaves and the
  attributes of its leaves.\<close>

lemma leaf_at_node: "leaf_at n p = Some v \<longleftrightarrow> (\<exists>m. node_at p n = Some m \<and> leaf m = Some v)"
  by (auto simp: leaf_at_def split: option.splits)

lemma leaf_at_append: "node_at p n = Some m \<Longrightarrow> leaf_at n (p @ q) = leaf_at m q"
  by (simp add: leaf_at_def node_at_append)

lemma leaf_at_put_leaf: "leaf_at n p \<noteq> None \<Longrightarrow> leaf_at (put_leaf p v n) p = Some v"
  by (auto simp: put_leaf_def leaf_at_def node_at_update_at split: option.splits)

lemma obs_at_put_leaf: "q \<noteq> p \<Longrightarrow> obs_at q (put_leaf p v n) = obs_at q n"
  by (auto simp: put_leaf_def leaf_at_node isLeaf_def intro!: obs_at_leaf_write)

lemma obs_at_put_attrs: "q \<noteq> p \<Longrightarrow> obs_at q (put_attrs p a n) = obs_at q n"
  by (auto simp: put_attrs_def attrs_at_def isLeaf_def split: option.splits if_splits
      intro!: obs_at_leaf_write)

lemma attrs_at_put_attrs: "attrs_at n p \<noteq> None \<Longrightarrow> attrs_at (put_attrs p a n) p = Some a"
  by (auto simp: put_attrs_def attrs_at_def node_at_update_at split: option.splits if_splits)

lemma leaf_at_put_leaf_other: "q \<noteq> p \<Longrightarrow> leaf_at (put_leaf p v n) q = leaf_at n q"
  by (simp add: leaf_at_obs obs_at_put_leaf)

lemma attrs_at_put_attrs_other: "q \<noteq> p \<Longrightarrow> attrs_at (put_attrs p a n) q = attrs_at n q"
  by (simp add: attrs_at_obs obs_at_put_attrs)

lemma leaf_at_put_attrs: "leaf_at (put_attrs p a n) q = leaf_at n q"
proof (cases "q = p")
  case True
  then show ?thesis
    by (auto simp: put_attrs_def leaf_at_def attrs_at_def node_at_update_at split: option.splits if_splits)
qed (simp add: leaf_at_obs obs_at_put_attrs)

interpretation leaves: cell_store leaf_at put_leaf
proof (unfold_locales, goal_cases)
  case (3 s k v)
  then show ?case by (simp add: put_leaf_def)
qed (rule leaf_at_put_leaf leaf_at_put_leaf_other; assumption)+

interpretation attributes: cell_store attrs_at put_attrs
proof (unfold_locales, goal_cases)
  case (3 s k v)
  then show ?case by (simp add: put_attrs_def)
qed (rule attrs_at_put_attrs attrs_at_put_attrs_other; assumption)+

section \<open>Writes keep the invariants\<close>

lemma wf_update_at:
  assumes "wf_node n" and "\<And>m. node_at p n = Some m \<Longrightarrow> wf_node m \<Longrightarrow> wf_node (f m)"
  shows "wf_node (update_at p f n)"
  using assms
proof (induction p f n rule: update_at.induct)
  case (2 s ss f n)
  show ?case
  proof (cases "isLeaf n \<or> map_of (children n) s = None")
    case True
    with 2 show ?thesis by (auto split: option.split)
  next
    case False
    then obtain c where c: "map_of (children n) s = Some c" and nl: "\<not> isLeaf n" by auto
    then have mem: "(s, c) \<in> set (children n)" by (simp add: map_of_in_set)
    with 2(2) have wfc: "wf_node c" "valid_segs [s]"
      by (auto simp: wf_node_iff [of n])
    have "wf_node (update_at ss f c)"
      using 2(1) [OF nl c wfc(1)] 2(3) c nl by simp
    then show ?thesis
      using 2(2) c nl wfc set_update_subset [of s "update_at ss f c" "children n"]
      by (simp add: wf_node_iff [of "set_children _ _"] wf_node_iff [of n] distinct_update) blast
  qed
qed simp

lemma typed_update_at:
  assumes "typed_node n" and "\<And>m. node_at p n = Some m \<Longrightarrow> typed_node m \<Longrightarrow> typed_node (f m)"
  shows "typed_node (update_at p f n)"
  using assms
proof (induction p f n rule: update_at.induct)
  case (2 s ss f n)
  show ?case
  proof (cases "isLeaf n \<or> map_of (children n) s = None")
    case True
    with 2 show ?thesis by (auto split: option.split)
  next
    case False
    then obtain c where c: "map_of (children n) s = Some c" and nl: "\<not> isLeaf n" by auto
    then have mem: "(s, c) \<in> set (children n)" by (simp add: map_of_in_set)
    with 2(2) have "typed_node c"
      by (auto simp: typed_node_iff [of n])
    then have "typed_node (update_at ss f c)"
      using 2(1) [OF nl c] 2(3) c nl by simp
    then show ?thesis
      using 2(2) c nl set_update_subset [of s "update_at ss f c" "children n"]
      by (simp add: typed_node_iff [of "set_children _ _"] typed_node_iff [of n]) blast
  qed
qed simp

lemma wf_node_at: "wf_node n \<Longrightarrow> node_at p n = Some m \<Longrightarrow> wf_node m"
proof (induction p n rule: node_at.induct)
  case (2 s ss n)
  then show ?case
    by (auto simp: wf_node_iff [of n] split: if_splits option.splits dest!: map_of_in_set)
qed simp

lemma typed_node_at: "typed_node n \<Longrightarrow> node_at p n = Some m \<Longrightarrow> typed_node m"
proof (induction p n rule: node_at.induct)
  case (2 s ss n)
  then show ?case
    by (auto simp: typed_node_iff [of n] split: if_splits option.splits dest!: map_of_in_set)
qed simp

lemma wf_set_leaf: "wf_node m \<Longrightarrow> isLeaf m \<Longrightarrow> wf_node (set_leaf (Some v) m)"
  by (cases m) (simp add: isLeaf_def)

lemma wf_set_attrs [simp]: "wf_node (set_attrs a m) = wf_node m"
  by (cases m) simp

lemma typed_set_leaf: "typed_node m \<Longrightarrow> valid_Value v \<Longrightarrow> typed_node (set_leaf (Some v) m)"
  by (cases m) simp

lemma typed_set_attrs [simp]: "typed_node (set_attrs a m) = typed_node m"
  by (cases m) simp

lemma wf_put_leaf: "wf_node n \<Longrightarrow> wf_node (put_leaf p v n)"
  by (auto simp: put_leaf_def leaf_at_def isLeaf_def split: option.splits
      intro!: wf_update_at wf_set_leaf)

lemma wf_put_attrs: "wf_node n \<Longrightarrow> wf_node (put_attrs p a n)"
  by (auto simp: put_attrs_def intro!: wf_update_at)

lemma typed_put_leaf: "typed_node n \<Longrightarrow> valid_Value v \<Longrightarrow> typed_node (put_leaf p v n)"
  by (auto simp: put_leaf_def intro!: typed_update_at typed_set_leaf)

lemma typed_put_attrs: "typed_node n \<Longrightarrow> typed_node (put_attrs p a n)"
  by (auto simp: put_attrs_def intro!: typed_update_at)

end
