(* ===== verification/ParamTree.thy ===== *)
theory ParamTree
  imports ParamNode
begin

text \<open>
  The parameter tree of one simulated CPE: \<^verbatim>\<open>paramtree.go\<close> and \<^verbatim>\<open>observe.go\<close> of
  \<^verbatim>\<open>src/internal/paramtree\<close>, without the table operations (theory \<open>ParamTables\<close>).

  Every operation takes the tree and returns the result together with the tree after the call,
  also when the call fails, so that "a failing call changes nothing" is a theorem and not a
  consequence of the types.  The lock \<^verbatim>\<open>mu\<close> makes each operation one atomic step.  Observers are
  closures of other packages; the tree keeps their identifiers and the trace \<open>delivered\<close> of the
  changes handed to them, in order.
\<close>

section \<open>State\<close>

datatype ChangeKind = ChangeValue | ChangeObjectCreated | ChangeObjectDeleted

record Change =
  ch_Path :: string
  ch_Old :: Value
  ch_New :: Value
  ch_Kind :: ChangeKind

record Tree =
  root :: Node
  obs_next :: nat
  obs_fns :: "nat list"
  delivered :: "(nat \<times> Change) list"

definition New :: Tree where
  "New = \<lparr>root = NewBranch, obs_next = 0, obs_fns = [], delivered = []\<rparr>"

section \<open>Observers\<close>

text \<open>\<^verbatim>\<open>Observe(nil)\<close> registers nothing (\<open>is_nil\<close>); otherwise the identifier is what the returned
  cancel function deletes.\<close>

definition Observe :: "bool \<Rightarrow> Tree \<Rightarrow> nat option \<times> Tree" where
  "Observe is_nil t =
     (if is_nil then (None, t)
      else (Some (obs_next t),
            t\<lparr>obs_next := Suc (obs_next t), obs_fns := obs_fns t @ [obs_next t]\<rparr>))"

definition Unobserve :: "nat option \<Rightarrow> Tree \<Rightarrow> Tree" where
  "Unobserve cancel t =
     (case cancel of
        None \<Rightarrow> t
      | Some oid \<Rightarrow> t\<lparr>obs_fns := filter (\<lambda>i. i \<noteq> oid) (obs_fns t)\<rparr>)"

definition hasObservers :: "Tree \<Rightarrow> bool" where
  "hasObservers t \<longleftrightarrow> 0 < length (obs_fns t)"

definition notify :: "Change \<Rightarrow> Tree \<Rightarrow> Tree" where
  "notify c t =
     (if length (obs_fns t) = 0 then t
      else t\<lparr>delivered := delivered t @ map (\<lambda>oid. (oid, c)) (obs_fns t)\<rparr>)"

fun notify_opt :: "Change option \<Rightarrow> Tree \<Rightarrow> Tree" where
  "notify_opt None t = t"
| "notify_opt (Some c) t = notify c t"

section \<open>Mount and reset\<close>

fun mount_at :: "string \<Rightarrow> string list \<Rightarrow> Node \<Rightarrow> Node \<Rightarrow> (goerr + unit) \<times> Node" where
  "mount_at path [] n parent = (Inr (), parent)"
| "mount_at path [seg] n parent =
     (if isLeaf parent then
        (Inl (Wrap ''paramtree.Mount'' KindInvalidArgument
               (Some (Errorf ''path %q traverses a leaf'' [ArgS path]))), parent)
      else if map_of (children parent) seg \<noteq> None then
        (Inl (Wrap ''paramtree.Mount'' KindInvalidArgument
               (Some (Errorf ''path %q already occupied'' [ArgS path]))), parent)
      else (Inr (), set_children (AList.update seg n (children parent)) parent))"
| "mount_at path (seg # seg2 # rest) n parent =
     (if isLeaf parent then
        (Inl (Wrap ''paramtree.Mount'' KindInvalidArgument
               (Some (Errorf ''path %q traverses a leaf at %q'' [ArgS path, ArgS seg]))), parent)
      else (let child = (case map_of (children parent) seg of None \<Rightarrow> NewBranch | Some c \<Rightarrow> c);
                (r, child') = mount_at path (seg2 # rest) n child
            in (r, set_children (AList.update seg child' (children parent)) parent)))"

definition Mount :: "string \<Rightarrow> Node \<Rightarrow> Tree \<Rightarrow> (goerr + unit) \<times> Tree" where
  "Mount path n t =
     (case parsePath path of
        Inl e \<Rightarrow> (Inl e, t)
      | Inr segments \<Rightarrow>
          if length segments = 0 then
            (Inl (Wrap ''paramtree.Mount'' KindInvalidArgument
                   (Some (Errorf ''cannot mount onto root'' []))), t)
          else (let (r, root') = mount_at path segments n (root t) in (r, t\<lparr>root := root'\<rparr>)))"

text \<open>\<^verbatim>\<open>Reset\<close> takes over the root of the other tree and keeps the receiver's observers.\<close>

definition Reset :: "Tree option \<Rightarrow> Tree \<Rightarrow> (goerr + unit) \<times> Tree" where
  "Reset other t =
     (case other of
        None \<Rightarrow> (Inl (Wrap ''paramtree.Reset'' KindInvalidArgument
                        (Some (Errorf ''other tree is nil'' []))), t)
      | Some o' \<Rightarrow> (Inr (), t\<lparr>root := root o'\<rparr>))"

definition Clone :: "Tree \<Rightarrow> Tree" where
  "Clone t = \<lparr>root = clone (root t), obs_next = 0, obs_fns = [], delivered = []\<rparr>"

section \<open>Reading and writing a leaf\<close>

definition Get :: "string \<Rightarrow> Tree \<Rightarrow> goerr + Value" where
  "Get path t =
     (case parsePath path of
        Inl e \<Rightarrow> Inl e
      | Inr segments \<Rightarrow>
          (case lookup segments (root t) of
             Inl e \<Rightarrow> Inl (Wrap ''paramtree.Get'' KindNotFound (Some e))
           | Inr n \<Rightarrow>
               (case leaf n of
                  None \<Rightarrow> Inl (Wrap ''paramtree.Get'' KindNotFound
                     (Some (Errorf ''path %q is an interior node, not a leaf'' [ArgS path])))
                | Some v \<Rightarrow> Inr v)))"

definition Tree_Set :: "string \<Rightarrow> Value \<Rightarrow> Tree \<Rightarrow> (goerr + unit) \<times> Tree" where
  "Tree_Set path v t =
     (case parsePath path of
        Inl e \<Rightarrow> (Inl e, t)
      | Inr segments \<Rightarrow>
          (case lookup segments (root t) of
             Inl e \<Rightarrow> (Inl (Wrap ''paramtree.Set'' KindNotFound (Some e)), t)
           | Inr n \<Rightarrow>
               (case leaf n of
                  None \<Rightarrow> (Inl (Wrap ''paramtree.Set'' KindNotFound
                     (Some (Errorf ''path %q is an interior node, not a leaf'' [ArgS path]))), t)
                | Some old \<Rightarrow>
                    if \<not> Writable old then
                      (Inl (Wrap ''paramtree.Set'' KindInvalidArgument
                         (Some (Errorf ''path %q is read-only'' [ArgS path]))), t)
                    else if VType old \<noteq> VType v then
                      (Inl (Wrap ''paramtree.Set'' KindInvalidArgument
                         (Some (Errorf ''type mismatch at %q: have %s, got %s''
                            [ArgS path, ArgS (VType old), ArgS (VType v)]))), t)
                    else (case Validate (VType v) (Raw v) of
                            Inl e \<Rightarrow> (Inl e, t)
                          | Inr _ \<Rightarrow>
                              (let t' = t\<lparr>root := update_at segments (set_leaf (Some v)) (root t)\<rparr>;
                                   change =
                                     (if hasObservers t' \<and> Raw old \<noteq> Raw v
                                      then Some \<lparr>ch_Path = path, ch_Old = old, ch_New = v,
                                                 ch_Kind = ChangeValue\<rparr>
                                      else None)
                               in (Inr (), notify_opt change t'))))))"

definition SetSystem :: "string \<Rightarrow> string \<Rightarrow> Tree \<Rightarrow> (goerr + unit) \<times> Tree" where
  "SetSystem path raw t =
     (case parsePath path of
        Inl e \<Rightarrow> (Inl e, t)
      | Inr segments \<Rightarrow>
          (case lookup segments (root t) of
             Inl e \<Rightarrow> (Inl (Wrap ''paramtree.SetSystem'' KindNotFound (Some e)), t)
           | Inr n \<Rightarrow>
               (case leaf n of
                  None \<Rightarrow> (Inl (Wrap ''paramtree.SetSystem'' KindNotFound
                     (Some (Errorf ''path %q is an interior node, not a leaf'' [ArgS path]))), t)
                | Some old \<Rightarrow>
                    (case Validate (VType old) raw of
                       Inl e \<Rightarrow> (Inl e, t)
                     | Inr _ \<Rightarrow>
                         (let new = old\<lparr>Raw := raw\<rparr>;
                              t' = t\<lparr>root := update_at segments (set_leaf (Some new)) (root t)\<rparr>;
                              change =
                                (if hasObservers t' \<and> Raw old \<noteq> raw
                                 then Some \<lparr>ch_Path = path, ch_Old = old, ch_New = new,
                                            ch_Kind = ChangeValue\<rparr>
                                 else None)
                          in (Inr (), notify_opt change t'))))))"

section \<open>Attributes\<close>

definition GetAttributes :: "string \<Rightarrow> Tree \<Rightarrow> goerr + Attributes" where
  "GetAttributes path t =
     (case parsePath path of
        Inl e \<Rightarrow> Inl e
      | Inr segments \<Rightarrow>
          (case lookup segments (root t) of
             Inl e \<Rightarrow> Inl (Wrap ''paramtree.GetAttributes'' KindNotFound (Some e))
           | Inr n \<Rightarrow>
               if \<not> isLeaf n then
                 Inl (Wrap ''paramtree.GetAttributes'' KindNotFound
                   (Some (Errorf ''path %q is an interior node, not a leaf'' [ArgS path])))
               else (case attrs n of
                       None \<Rightarrow> Inr zero_Attributes
                     | Some a \<Rightarrow> Inr (copy_access a))))"

definition SetAttributes :: "string \<Rightarrow> Attributes \<Rightarrow> Tree \<Rightarrow> (goerr + unit) \<times> Tree" where
  "SetAttributes path a t =
     (case parsePath path of
        Inl e \<Rightarrow> (Inl e, t)
      | Inr segments \<Rightarrow>
          (case lookup segments (root t) of
             Inl e \<Rightarrow> (Inl (Wrap ''paramtree.SetAttributes'' KindNotFound (Some e)), t)
           | Inr n \<Rightarrow>
               if \<not> isLeaf n then
                 (Inl (Wrap ''paramtree.SetAttributes'' KindNotFound
                   (Some (Errorf ''path %q is an interior node, not a leaf'' [ArgS path]))), t)
               else (let stored = copy_access a in
                     (Inr (), t\<lparr>root := update_at segments (set_attrs (Some stored)) (root t)\<rparr>))))"

section \<open>Batches\<close>

record Setter =
  st_Path :: string
  st_Value :: Value

record BatchResult =
  br_Path :: string
  OldValue :: Value
  NewValue :: Value
  Changed :: bool

datatype SetBatchFailure =
    FailureUnknown
  | FailureNotFound
  | FailureNotWritable
  | FailureTypeMismatch
  | FailureInvalidValue
  | FailureDuplicatePath

record EntryFault =
  ef_Path :: string
  ef_Code :: SetBatchFailure
  ef_Err :: goerr

record SetBatchError =
  sb_Path :: string
  sb_Code :: SetBatchFailure
  sb_Err :: goerr
  sb_All :: "EntryFault list"

text \<open>The pointer \<^verbatim>\<open>node\<close> of a resolved entry is the segment path that leads to it.\<close>

record batchEntry =
  be_node :: "string list"
  be_old :: Value
  be_new :: Value

fun codeString :: "SetBatchFailure \<Rightarrow> string" where
  "codeString FailureNotFound = ''not found''"
| "codeString FailureNotWritable = ''not writable''"
| "codeString FailureTypeMismatch = ''type mismatch''"
| "codeString FailureInvalidValue = ''invalid value''"
| "codeString FailureDuplicatePath = ''duplicate path''"
| "codeString FailureUnknown = ''unknown''"

definition preflight_entry ::
  "Node \<Rightarrow> string list \<Rightarrow> Setter \<Rightarrow> (EntryFault + batchEntry) \<times> string list" where
  "preflight_entry r seen s =
     (let path = st_Path s; v = st_Value s;
          fault = (\<lambda>code err. Inl \<lparr>ef_Path = path, ef_Code = code, ef_Err = err\<rparr>)
      in case parsePath path of
           Inl err \<Rightarrow> (fault FailureNotFound err, seen)
         | Inr segments \<Rightarrow>
             (let canonical = joinPath segments in
              if canonical \<in> set seen then
                (fault FailureDuplicatePath
                   (Errorf ''path %q appears twice in batch'' [ArgS path]), seen)
              else
                (case lookup segments r of
                   Inl err \<Rightarrow> fault FailureNotFound err
                 | Inr n \<Rightarrow>
                     (case leaf n of
                        None \<Rightarrow> fault FailureNotFound
                          (Errorf ''path %q is an interior node, not a leaf'' [ArgS path])
                      | Some old \<Rightarrow>
                          if \<not> Writable old then
                            fault FailureNotWritable (Errorf ''path %q is read-only'' [ArgS path])
                          else if VType old \<noteq> VType v then
                            fault FailureTypeMismatch
                              (Errorf ''type mismatch at %q: have %s, got %s''
                                 [ArgS path, ArgS (VType old), ArgS (VType v)])
                          else (case Validate (VType v) (Raw v) of
                                  Inl err \<Rightarrow> fault FailureInvalidValue err
                                | Inr _ \<Rightarrow>
                                    Inr \<lparr>be_node = segments, be_old = old, be_new = v\<rparr>)),
                 canonical # seen)))"

fun preflight_loop ::
  "Node \<Rightarrow> string list \<Rightarrow> Setter list \<Rightarrow> batchEntry list \<times> EntryFault list" where
  "preflight_loop r seen [] = ([], [])"
| "preflight_loop r seen (s # ss) =
     (let (res, seen') = preflight_entry r seen s;
          (resolved, faults) = preflight_loop r seen' ss
      in case res of
           Inl f \<Rightarrow> (resolved, f # faults)
         | Inr e \<Rightarrow> (e # resolved, faults))"

definition preflight :: "Setter list \<Rightarrow> Tree \<Rightarrow> SetBatchError + batchEntry list" where
  "preflight setters t =
     (let (resolved, faults) = preflight_loop (root t) [] setters in
      case faults of
        first # _ \<Rightarrow> Inl \<lparr>sb_Path = ef_Path first, sb_Code = ef_Code first, sb_Err = ef_Err first,
                          sb_All = faults\<rparr>
      | [] \<Rightarrow> Inr resolved)"

fun apply_entries :: "Setter list \<Rightarrow> batchEntry list \<Rightarrow> Node \<Rightarrow> BatchResult list \<times> Node" where
  "apply_entries (s # ss) (e # es) r =
     (let r' = update_at (be_node e) (set_leaf (Some (be_new e))) r;
          (results, r'') = apply_entries ss es r'
      in (\<lparr>br_Path = st_Path s, OldValue = be_old e, NewValue = be_new e,
           Changed = (Raw (be_old e) \<noteq> Raw (be_new e))\<rparr> # results, r''))"
| "apply_entries _ _ r = ([], r)"

definition SetBatch :: "Setter list \<Rightarrow> Tree \<Rightarrow> (SetBatchError + BatchResult list) \<times> Tree" where
  "SetBatch setters t =
     (if length setters = 0 then (Inr [], t)
      else (case preflight setters t of
              Inl e \<Rightarrow> (Inl e, t)
            | Inr resolved \<Rightarrow>
                (let (results, root') = apply_entries setters resolved (root t)
                 in (Inr results, t\<lparr>root := root'\<rparr>))))"

definition CheckBatch :: "Setter list \<Rightarrow> Tree \<Rightarrow> SetBatchError option" where
  "CheckBatch setters t =
     (case preflight setters t of Inl e \<Rightarrow> Some e | Inr _ \<Rightarrow> None)"

section \<open>Reading the state\<close>

lemma notify_sel [simp]:
  "root (notify c t) = root t" "obs_fns (notify c t) = obs_fns t" "obs_next (notify c t) = obs_next t"
  "delivered (notify c t) = delivered t @ map (\<lambda>oid. (oid, c)) (obs_fns t)"
  by (simp_all add: notify_def)

lemma notify_opt_sel [simp]:
  "root (notify_opt c t) = root t" "obs_fns (notify_opt c t) = obs_fns t"
  "obs_next (notify_opt c t) = obs_next t"
  by (cases c; simp)+

lemma hasObservers_iff [simp]: "hasObservers t \<longleftrightarrow> obs_fns t \<noteq> []"
  by (simp add: hasObservers_def)

lemma valid_Value_Validate: "valid_Value v \<longleftrightarrow> Validate (VType v) (Raw v) = Inr ()"
  by (cases "Validate (VType v) (Raw v)") (simp_all add: valid_Value_def)

lemma put_leaf_present: "leaf_at n p = Some w \<Longrightarrow> put_leaf p v n = update_at p (set_leaf (Some v)) n"
  by (simp add: put_leaf_def)

lemma Get_Inr:
  "Get p t = Inr v \<longleftrightarrow> (\<exists>segs. parsePath p = Inr segs \<and> leaf_at (root t) segs = Some v)"
proof (cases "parsePath p")
  case (Inr segs)
  then show ?thesis
    by (cases rule: lookup_cases [of segs "root t"])
      (auto simp: Get_def leaf_at_def split: option.splits)
qed (simp add: Get_def)

lemma Tree_Set_Inr:
  "Tree_Set p v t = (Inr (), t') \<longleftrightarrow>
     (\<exists>segs old. parsePath p = Inr segs \<and> leaf_at (root t) segs = Some old
        \<and> Writable old \<and> VType old = VType v \<and> valid_Value v
        \<and> t' = notify_opt (if obs_fns t \<noteq> [] \<and> Raw old \<noteq> Raw v
                then Some \<lparr>ch_Path = p, ch_Old = old, ch_New = v, ch_Kind = ChangeValue\<rparr> else None)
              (t\<lparr>root := put_leaf segs v (root t)\<rparr>))"
proof (cases "parsePath p")
  case (Inr segs)
  then show ?thesis
    by (cases rule: lookup_cases [of segs "root t"])
      (auto simp: Tree_Set_def leaf_at_def put_leaf_def valid_Value_Validate Let_def
        split: option.splits sum.splits)
qed (simp add: Tree_Set_def)

lemma SetSystem_Inr:
  "SetSystem p raw t = (Inr (), t') \<longleftrightarrow>
     (\<exists>segs old. parsePath p = Inr segs \<and> leaf_at (root t) segs = Some old
        \<and> valid_Value (old\<lparr>Raw := raw\<rparr>)
        \<and> t' = notify_opt (if obs_fns t \<noteq> [] \<and> Raw old \<noteq> raw
                then Some \<lparr>ch_Path = p, ch_Old = old, ch_New = old\<lparr>Raw := raw\<rparr>,
                           ch_Kind = ChangeValue\<rparr> else None)
              (t\<lparr>root := put_leaf segs (old\<lparr>Raw := raw\<rparr>) (root t)\<rparr>))"
proof (cases "parsePath p")
  case (Inr segs)
  then show ?thesis
    by (cases rule: lookup_cases [of segs "root t"])
      (auto simp: SetSystem_def leaf_at_def put_leaf_def valid_Value_Validate Let_def
        split: option.splits sum.splits)
qed (simp add: SetSystem_def)

lemma SetAttributes_Inr:
  "SetAttributes p a t = (Inr (), t') \<longleftrightarrow>
     (\<exists>segs. parsePath p = Inr segs \<and> attrs_at (root t) segs \<noteq> None
        \<and> t' = t\<lparr>root := put_attrs segs (Some (copy_access a)) (root t)\<rparr>)"
proof (cases "parsePath p")
  case (Inr segs)
  then show ?thesis
    by (cases rule: lookup_cases [of segs "root t"])
      (auto simp: SetAttributes_def attrs_at_def put_attrs_def Let_def)
qed (simp add: SetAttributes_def)

lemma GetAttributes_Inr:
  "GetAttributes p t = Inr a \<longleftrightarrow>
     (\<exists>segs at. parsePath p = Inr segs \<and> attrs_at (root t) segs = Some at
        \<and> a = (case at of None \<Rightarrow> zero_Attributes | Some a' \<Rightarrow> copy_access a'))"
proof (cases "parsePath p")
  case (Inr segs)
  then show ?thesis
    by (cases rule: lookup_cases [of segs "root t"])
      (auto simp: GetAttributes_def attrs_at_def split: option.splits)
qed (simp add: GetAttributes_def)

lemma write_fails_same:
  "Tree_Set p v t = (Inl e, t') \<Longrightarrow> t' = t"
  "SetSystem p raw t = (Inl e, t') \<Longrightarrow> t' = t"
  "SetAttributes p a t = (Inl e, t') \<Longrightarrow> t' = t"
  "SetBatch ss t = (Inl e', t') \<Longrightarrow> t' = t"
  by (auto simp: Tree_Set_def SetSystem_def SetAttributes_def SetBatch_def Let_def
      split: sum.splits option.splits if_splits prod.splits)

section \<open>Mount\<close>

lemma mount_at_branch: "segs \<noteq> [] \<Longrightarrow> fst (mount_at path segs n NewBranch) = Inr ()"
  by (induction path segs n NewBranch rule: mount_at.induct) (auto simp: Let_def split: prod.splits)

lemma mount_at_fails_same: "mount_at path segs n parent = (Inl e, parent') \<Longrightarrow> parent' = parent"
proof (induction path segs n parent arbitrary: parent' rule: mount_at.induct)
  case (3 path seg seg2 rest n parent)
  show ?case
  proof (cases "isLeaf parent")
    case False
    define child where "child = (case map_of (children parent) seg of None \<Rightarrow> NewBranch | Some c \<Rightarrow> c)"
    obtain r child' where m: "mount_at path (seg2 # rest) n child = (r, child')"
      by (cases "mount_at path (seg2 # rest) n child")
    with 3(2) False have r: "r = Inl e"
      and p': "parent' = set_children (AList.update seg child' (children parent)) parent"
      by (simp_all add: child_def [symmetric] Let_def)
    from 3(1) [OF False child_def] m r have "child' = child" by simp
    moreover have "map_of (children parent) seg \<noteq> None"
      using mount_at_branch [of "seg2 # rest" path n] m r by (auto simp: child_def split: option.splits)
    ultimately show ?thesis
      using p' by (auto simp: child_def update_same)
  qed (use 3(2) in simp)
qed (auto split: if_splits)

lemma mount_at_node:
  "mount_at path segs n parent = (Inr (), parent') \<Longrightarrow> segs \<noteq> [] \<Longrightarrow> node_at segs parent' = Some n"
  by (induction path segs n parent arbitrary: parent' rule: mount_at.induct)
    (auto simp: Let_def isLeaf_def split: if_splits prod.splits)

section \<open>Batches\<close>

text \<open>What one entry of a batch needs, on its own: the conditions of \<open>Tree_Set\<close>.\<close>

definition entry_ok :: "Node \<Rightarrow> Setter \<Rightarrow> batchEntry \<Rightarrow> bool" where
  "entry_ok r s e \<longleftrightarrow>
     parsePath (st_Path s) = Inr (be_node e) \<and> leaf_at r (be_node e) = Some (be_old e)
     \<and> Writable (be_old e) \<and> VType (be_old e) = VType (st_Value s) \<and> valid_Value (st_Value s)
     \<and> be_new e = st_Value s"

lemma preflight_entry_Inr:
  "fst (preflight_entry r seen s) = Inr e \<longleftrightarrow>
     entry_ok r s e \<and> joinPath (be_node e) \<notin> set seen"
proof (cases "parsePath (st_Path s)")
  case (Inr segs)
  then show ?thesis
    by (cases rule: lookup_cases [of segs r])
      (auto simp: preflight_entry_def entry_ok_def Let_def leaf_at_def valid_Value_Validate
        split: option.splits sum.splits)
qed (auto simp: preflight_entry_def entry_ok_def Let_def)

lemma preflight_entry_seen:
  "snd (preflight_entry r seen s) =
     (case parsePath (st_Path s) of
        Inl _ \<Rightarrow> seen
      | Inr segs \<Rightarrow> if joinPath segs \<in> set seen then seen else joinPath segs # seen)"
  by (auto simp: preflight_entry_def Let_def split: sum.splits)

lemma preflight_loop_Cons:
  "preflight_loop r seen (s # ss) =
     (case fst (preflight_entry r seen s) of
        Inl f \<Rightarrow> (fst (preflight_loop r (snd (preflight_entry r seen s)) ss),
                   f # snd (preflight_loop r (snd (preflight_entry r seen s)) ss))
      | Inr e \<Rightarrow> (e # fst (preflight_loop r (snd (preflight_entry r seen s)) ss),
                   snd (preflight_loop r (snd (preflight_entry r seen s)) ss)))"
  by (simp add: Let_def split: prod.splits sum.splits)

declare preflight_loop.simps(2) [simp del]

lemma preflight_loop_ok:
  assumes "snd (preflight_loop r seen ss) = []"
  shows "list_all2 (entry_ok r) ss (fst (preflight_loop r seen ss))"
    and "distinct (map be_node (fst (preflight_loop r seen ss)))"
    and "\<forall>e \<in> set (fst (preflight_loop r seen ss)). joinPath (be_node e) \<notin> set seen"
proof -
  have "list_all2 (entry_ok r) ss (fst (preflight_loop r seen ss))
    \<and> distinct (map be_node (fst (preflight_loop r seen ss)))
    \<and> (\<forall>e \<in> set (fst (preflight_loop r seen ss)). joinPath (be_node e) \<notin> set seen)"
    using assms
  proof (induction ss arbitrary: seen)
    case (Cons s ss)
    then obtain e where e: "fst (preflight_entry r seen s) = Inr e"
      by (cases "fst (preflight_entry r seen s)") (auto simp: preflight_loop_Cons)
    then have ok: "entry_ok r s e" "joinPath (be_node e) \<notin> set seen"
      by (simp_all add: preflight_entry_Inr)
    then have seen': "snd (preflight_entry r seen s) = joinPath (be_node e) # seen"
      by (simp add: preflight_entry_seen entry_ok_def)
    from Cons.prems e seen' have "snd (preflight_loop r (joinPath (be_node e) # seen) ss) = []"
      by (simp add: preflight_loop_Cons)
    note IH = Cons.IH [OF this]
    from IH have "be_node e \<notin> be_node ` set (fst (preflight_loop r (joinPath (be_node e) # seen) ss))"
      by auto
    with IH e ok seen' show ?case by (auto simp: preflight_loop_Cons)
  qed simp
  then show "list_all2 (entry_ok r) ss (fst (preflight_loop r seen ss))"
    and "distinct (map be_node (fst (preflight_loop r seen ss)))"
    and "\<forall>e \<in> set (fst (preflight_loop r seen ss)). joinPath (be_node e) \<notin> set seen"
    by blast+
qed

lemma preflight_loop_complete:
  assumes "list_all2 (entry_ok r) ss es" and "distinct (map be_node es)"
    and "\<forall>e \<in> set es. joinPath (be_node e) \<notin> set seen"
  shows "preflight_loop r seen ss = (es, [])"
  using assms
proof (induction ss es arbitrary: seen rule: list_all2_induct)
  case (Cons s ss e es)
  then have e: "fst (preflight_entry r seen s) = Inr e"
    by (simp add: preflight_entry_Inr)
  with Cons have seen': "snd (preflight_entry r seen s) = joinPath (be_node e) # seen"
    by (simp add: preflight_entry_seen entry_ok_def)
  have "joinPath (be_node e') \<noteq> joinPath (be_node e)" if e': "e' \<in> set es" for e'
  proof -
    from Cons(2) e' obtain s' where "entry_ok r s' e'"
      by (auto simp: list_all2_conv_all_nth in_set_conv_nth)
    with Cons(1) have "valid_segs (be_node e')" "valid_segs (be_node e)"
      by (auto simp: entry_ok_def dest: parsePath_valid)
    with Cons(4) e' show ?thesis by (metis imageI joinPath_inject list.set_map list.simps(9) distinct.simps(2))
  qed
  with Cons have "preflight_loop r (joinPath (be_node e) # seen) ss = (es, [])"
    by simp
  with e seen' show ?case by (simp add: preflight_loop_Cons)
qed simp

lemma preflight_Inr:
  "preflight ss t = Inr es \<longleftrightarrow> list_all2 (entry_ok (root t)) ss es \<and> distinct (map be_node es)"
proof
  assume "preflight ss t = Inr es"
  then have "preflight_loop (root t) [] ss = (es, [])"
    by (auto simp: preflight_def Let_def split: prod.splits list.splits)
  then show "list_all2 (entry_ok (root t)) ss es \<and> distinct (map be_node es)"
    using preflight_loop_ok [of "root t" "[]" ss] by simp
next
  assume "list_all2 (entry_ok (root t)) ss es \<and> distinct (map be_node es)"
  then show "preflight ss t = Inr es"
    using preflight_loop_complete [of "root t" ss es "[]"] by (simp add: preflight_def)
qed

lemma entry_ok_put:
  "entry_ok r s e \<Longrightarrow> be_node e \<noteq> p \<Longrightarrow> entry_ok (put_leaf p v r) s e"
  by (simp add: entry_ok_def leaf_at_put_leaf_other)

lemma entries_ok_put:
  "list_all2 (entry_ok r) ss es \<Longrightarrow> p \<notin> be_node ` set es \<Longrightarrow>
     list_all2 (entry_ok (put_leaf p v r)) ss es"
  by (induction ss es rule: list_all2_induct) (auto intro: entry_ok_put)

lemma apply_entries_fold:
  assumes "list_all2 (entry_ok r) ss es" and "distinct (map be_node es)"
  shows "apply_entries ss es r =
           (map2 (\<lambda>s e. \<lparr>br_Path = st_Path s, OldValue = be_old e, NewValue = be_new e,
                         Changed = (Raw (be_old e) \<noteq> Raw (be_new e))\<rparr>) ss es,
            fold (\<lambda>(k, v). put_leaf k v) (map (\<lambda>e. (be_node e, be_new e)) es) r)"
  using assms
proof (induction ss arbitrary: es r)
  case (Cons s ss)
  then obtain e es' where es: "es = e # es'" and e: "entry_ok r s e"
    and rest: "list_all2 (entry_ok r) ss es'" and d: "be_node e \<notin> be_node ` set es'"
    and d': "distinct (map be_node es')"
    by (auto simp: list_all2_Cons1)
  have put: "update_at (be_node e) (set_leaf (Some (be_new e))) r = put_leaf (be_node e) (be_new e) r"
    using e by (simp add: entry_ok_def put_leaf_def)
  from entries_ok_put [OF rest d] d' Cons.IH [of "put_leaf (be_node e) (be_new e) r" es'] es put
  show ?case by (simp add: split_beta Let_def)
qed simp

lemma SetBatch_Inr:
  "SetBatch ss t = (Inr rs, t') \<longleftrightarrow>
     (\<exists>es. list_all2 (entry_ok (root t)) ss es \<and> distinct (map be_node es)
        \<and> rs = map2 (\<lambda>s e. \<lparr>br_Path = st_Path s, OldValue = be_old e, NewValue = be_new e,
                           Changed = (Raw (be_old e) \<noteq> Raw (be_new e))\<rparr>) ss es
        \<and> t' = t\<lparr>root := fold (\<lambda>(k, v). put_leaf k v) (map (\<lambda>e. (be_node e, be_new e)) es) (root t)\<rparr>)"
  (is "?L = ?R")
proof (cases "ss = []")
  case False
  show ?thesis
  proof (cases "preflight ss t")
    case (Inl e)
    then have "\<not> (\<exists>es. list_all2 (entry_ok (root t)) ss es \<and> distinct (map be_node es))"
      using preflight_Inr [of ss t] by (metis Inl_Inr_False)
    with Inl False show ?thesis by (auto simp: SetBatch_def)
  next
    case (Inr es)
    note ok = Inr [unfolded preflight_Inr]
    have "es' = es" if "list_all2 (entry_ok (root t)) ss es'" "distinct (map be_node es')" for es'
      using that Inr by (metis preflight_Inr sum.inject(2))
    with ok Inr False apply_entries_fold [of "root t" ss es] show ?thesis
      by (auto simp: SetBatch_def split_beta Let_def)
  qed
qed (auto simp: SetBatch_def)

lemma entries_unique: "list_all2 (entry_ok r) ss es \<Longrightarrow> map (parsePath \<circ> st_Path) ss = map (Inr \<circ> be_node) es"
  by (induction ss es rule: list_all2_induct) (auto simp: entry_ok_def)

lemma entry_ok_Set:
  "(\<exists>e. entry_ok (root t) s e) \<longleftrightarrow> (\<exists>t'. Tree_Set (st_Path s) (st_Value s) t = (Inr (), t'))"
proof
  assume "\<exists>e. entry_ok (root t) s e"
  then show "\<exists>t'. Tree_Set (st_Path s) (st_Value s) t = (Inr (), t')"
    unfolding Tree_Set_Inr entry_ok_def by blast
next
  assume "\<exists>t'. Tree_Set (st_Path s) (st_Value s) t = (Inr (), t')"
  then obtain segs old where "parsePath (st_Path s) = Inr segs" "leaf_at (root t) segs = Some old"
    "Writable old" "VType old = VType (st_Value s)" "valid_Value (st_Value s)"
    unfolding Tree_Set_Inr by blast
  then have "entry_ok (root t) s \<lparr>be_node = segs, be_old = old, be_new = st_Value s\<rparr>"
    by (simp add: entry_ok_def)
  then show "\<exists>e. entry_ok (root t) s e" by blast
qed

lemma entries_exist:
  "(\<forall>s \<in> set ss. \<exists>e. entry_ok r s e) \<longleftrightarrow> (\<exists>es. list_all2 (entry_ok r) ss es)"
proof (induction ss)
  case (Cons s ss)
  then show ?case by (fastforce simp: list_all2_Cons1)
qed simp

lemma distinct_entries:
  assumes "list_all2 (entry_ok r) ss es"
  shows "distinct (map be_node es) \<longleftrightarrow> distinct (map (parsePath \<circ> st_Path) ss)"
proof -
  have "map (parsePath \<circ> st_Path) ss = map Inr (map be_node es)"
    using entries_unique [OF assms] by simp
  then show ?thesis
    by (simp only: distinct_map [of Inr]) (simp add: inj_on_def)
qed

text \<open>The same writes one at a time, stopping at the first failure: the reference a batch is
  compared with.\<close>

fun set_each :: "Setter list \<Rightarrow> Tree \<Rightarrow> (goerr + unit) \<times> Tree" where
  "set_each [] t = (Inr (), t)"
| "set_each (s # ss) t =
     (case Tree_Set (st_Path s) (st_Value s) t of
        (Inl e, t') \<Rightarrow> (Inl e, t')
      | (Inr _, t') \<Rightarrow> set_each ss t')"

lemma Tree_Set_entry_ok:
  assumes "entry_ok (root t) s e"
  obtains t' where "Tree_Set (st_Path s) (st_Value s) t = (Inr (), t')"
    and "root t' = put_leaf (be_node e) (be_new e) (root t)"
proof -
  from assms obtain t' where t': "Tree_Set (st_Path s) (st_Value s) t = (Inr (), t')"
    using entry_ok_Set by blast
  with assms have "root t' = put_leaf (be_node e) (be_new e) (root t)"
    by (auto simp: Tree_Set_Inr entry_ok_def)
  with t' show thesis by (rule that)
qed

lemma set_each_entries:
  assumes "list_all2 (entry_ok (root t)) ss es" and "distinct (map be_node es)"
  shows "\<exists>t'. set_each ss t = (Inr (), t') \<and>
     root t' = fold (\<lambda>(k, v). put_leaf k v) (map (\<lambda>e. (be_node e, be_new e)) es) (root t)"
  using assms
proof (induction ss arbitrary: es t)
  case (Cons s ss)
  then obtain e es' where es: "es = e # es'" and e: "entry_ok (root t) s e"
    and rest: "list_all2 (entry_ok (root t)) ss es'" and d: "be_node e \<notin> be_node ` set es'"
    and d': "distinct (map be_node es')"
    by (auto simp: list_all2_Cons1)
  obtain t1 where t1: "Tree_Set (st_Path s) (st_Value s) t = (Inr (), t1)"
    and r1: "root t1 = put_leaf (be_node e) (be_new e) (root t)"
    using Tree_Set_entry_ok [OF e] .
  from entries_ok_put [OF rest d, of "be_new e"] r1 d' Cons.IH [of t1 es'] t1 es
  show ?case by simp
qed simp

section \<open>Properties\<close>

text \<open>A successful \<^verbatim>\<open>Set\<close> is read back by \<^verbatim>\<open>Get\<close> on the same parameter, and every path that names
  another parameter reads what it read before.\<close>

theorem Set_then_Get:
  assumes "Tree_Set p v t = (Inr (), t')"
  shows "Get p t' = Inr v
    \<and> (\<forall>q w. parsePath q \<noteq> parsePath p \<longrightarrow> (Get q t' = Inr w \<longleftrightarrow> Get q t = Inr w))"
proof -
  from assms obtain segs old where p: "parsePath p = Inr segs" and old: "leaf_at (root t) segs = Some old"
    and r: "root t' = put_leaf segs v (root t)"
    by (auto simp: Tree_Set_Inr)
  from p old r have "Get p t' = Inr v"
    by (simp add: Get_Inr leaves.get_put)
  moreover have "Get q t' = Inr w \<longleftrightarrow> Get q t = Inr w" if "parsePath q \<noteq> parsePath p" for q w
    using that p r leaves.get_put_other by (auto simp: Get_Inr)
  ultimately show ?thesis by blast
qed

text \<open>\<^verbatim>\<open>SetBatch\<close> succeeds exactly when every entry would be accepted by \<^verbatim>\<open>Set\<close> on the tree as it
  is and no two entries name the same parameter; otherwise the tree is unchanged.\<close>

theorem SetBatch_all_or_nothing:
  "(\<exists>rs t'. SetBatch ss t = (Inr rs, t')) =
     ((\<forall>s \<in> set ss. \<exists>t'. Tree_Set (st_Path s) (st_Value s) t = (Inr (), t'))
      \<and> distinct (map (parsePath \<circ> st_Path) ss))
   \<and> (is_err (fst (SetBatch ss t)) \<longrightarrow> snd (SetBatch ss t) = t)"
proof
  have "(\<exists>rs t'. SetBatch ss t = (Inr rs, t')) =
      (\<exists>es. list_all2 (entry_ok (root t)) ss es \<and> distinct (map be_node es))"
    unfolding SetBatch_Inr by blast
  also have "\<dots> = ((\<exists>es. list_all2 (entry_ok (root t)) ss es)
      \<and> distinct (map (parsePath \<circ> st_Path) ss))"
    using distinct_entries by blast
  finally show "(\<exists>rs t'. SetBatch ss t = (Inr rs, t')) =
     ((\<forall>s \<in> set ss. \<exists>t'. Tree_Set (st_Path s) (st_Value s) t = (Inr (), t'))
      \<and> distinct (map (parsePath \<circ> st_Path) ss))"
    by (simp add: entries_exist [symmetric] entry_ok_Set)
  show "is_err (fst (SetBatch ss t)) \<longrightarrow> snd (SetBatch ss t) = t"
  proof
    assume err: "is_err (fst (SetBatch ss t))"
    then obtain e where "SetBatch ss t = (Inl e, snd (SetBatch ss t))"
      by (metis is_err_simps(2) old.sum.exhaust prod.collapse)
    then show "snd (SetBatch ss t) = t" by (rule write_fails_same(4))
  qed
qed

text \<open>C8: A successful batch leaves the tree as the same writes done one at a time with \<^verbatim>\<open>Set\<close> would;
  each of those writes succeeds too.\<close>

theorem SetBatch_is_sequence_of_Sets:
  assumes "SetBatch ss t = (Inr rs, t')"
  shows "\<exists>t''. set_each ss t = (Inr (), t'') \<and> root t'' = root t'"
  using assms set_each_entries [of t ss] by (auto simp: SetBatch_Inr)

text \<open>After a successful batch every entry reads back its new value, the result at its position
  carries the value read before, \<^verbatim>\<open>Changed\<close> says whether the raw texts differ, and parameters the batch
  does not name are untouched.\<close>

theorem SetBatch_reads_back:
  assumes "SetBatch ss t = (Inr rs, t')"
  shows "length rs = length ss
    \<and> (\<forall>i < length ss. br_Path (rs ! i) = st_Path (ss ! i)
         \<and> Get (st_Path (ss ! i)) t = Inr (OldValue (rs ! i))
         \<and> Get (st_Path (ss ! i)) t' = Inr (st_Value (ss ! i))
         \<and> Changed (rs ! i) = (Raw (OldValue (rs ! i)) \<noteq> Raw (st_Value (ss ! i))))
    \<and> (\<forall>q w. parsePath q \<notin> parsePath ` st_Path ` set ss \<longrightarrow> (Get q t' = Inr w \<longleftrightarrow> Get q t = Inr w))"
proof -
  from assms obtain es where ok: "list_all2 (entry_ok (root t)) ss es" and d: "distinct (map be_node es)"
    and rs: "rs = map2 (\<lambda>s e. \<lparr>br_Path = st_Path s, OldValue = be_old e, NewValue = be_new e,
                           Changed = (Raw (be_old e) \<noteq> Raw (be_new e))\<rparr>) ss es"
    and r: "root t' = fold (\<lambda>(k, v). put_leaf k v) (map (\<lambda>e. (be_node e, be_new e)) es) (root t)"
    by (auto simp: SetBatch_Inr)
  from ok have len: "length ss = length es" by (rule list_all2_lengthD)
  have entry: "entry_ok (root t) (ss ! i) (es ! i)" if "i < length ss" for i
    using ok that by (rule list_all2_nthD)
  have keys: "distinct (map fst (map (\<lambda>e. (be_node e, be_new e)) es))"
    using d by (simp add: comp_def)
  have new: "leaf_at (root t') (be_node (es ! i)) = Some (st_Value (ss ! i))" if i: "i < length ss" for i
  proof -
    have "(be_node (es ! i), st_Value (ss ! i)) \<in> set (map (\<lambda>e. (be_node e, be_new e)) es)"
      using entry [OF i] i len by (auto simp: entry_ok_def image_iff intro!: bexI [of _ "es ! i"])
    moreover have "leaf_at (root t) (be_node (es ! i)) \<noteq> None"
      using entry [OF i] by (simp add: entry_ok_def)
    ultimately show ?thesis
      unfolding r by (rule leaves.get_puts [OF keys])
  qed
  have other: "leaf_at (root t') segs = leaf_at (root t) segs"
    if "Inr segs \<notin> parsePath ` st_Path ` set ss" for segs
  proof -
    have "segs \<notin> fst ` set (map (\<lambda>e. (be_node e, be_new e)) es)"
      using that entry len by (force simp: entry_ok_def in_set_conv_nth image_iff)
    then show ?thesis unfolding r by (rule leaves.get_puts_other)
  qed
  show ?thesis
    using rs len entry new other by (auto simp: Get_Inr entry_ok_def)
qed

text \<open>A \<^verbatim>\<open>Mount\<close> that fails leaves the tree as it was, although the loop creates missing interior
  nodes on its way down; one that succeeds puts the node at the path.\<close>

theorem Mount_atomic:
  "(fst (Mount p n t) = Inr () \<longrightarrow>
      (\<exists>segs. parsePath p = Inr segs \<and> node_at segs (root (snd (Mount p n t))) = Some n))
   \<and> (is_err (fst (Mount p n t)) \<longrightarrow> snd (Mount p n t) = t)"
proof (cases "parsePath p")
  case (Inr segs)
  obtain r root' where m: "mount_at p segs n (root t) = (r, root')"
    by (cases "mount_at p segs n (root t)")
  show ?thesis
  proof (cases r)
    case (Inl e)
    with m have "root' = root t" by (simp add: mount_at_fails_same)
    with m Inl Inr show ?thesis by (simp add: Mount_def)
  next
    case r: (Inr u)
    with m have "segs \<noteq> [] \<Longrightarrow> node_at segs root' = Some n"
      using mount_at_node [of p segs n "root t" root'] by simp
    with m r Inr show ?thesis by (simp add: Mount_def)
  qed
qed (simp add: Mount_def)

text \<open>\<^verbatim>\<open>SetBatch\<close>, the write path of SetParameterValues, never hands a change to the observers of
  the tree, whatever values it changed.\<close>

theorem SetBatch_notifies_nobody: "delivered (snd (SetBatch ss t)) = delivered t"
  by (auto simp: SetBatch_def Let_def split: sum.splits prod.splits)

text \<open>With an observer registered, the same change made through \<^verbatim>\<open>Set\<close> is delivered once to each
  observer, with the old and the new value, exactly when the raw text differs.\<close>

theorem Set_notifies:
  assumes "Tree_Set p v t = (Inr (), t')" and "Get p t = Inr old"
  shows "delivered t' = delivered t @
    (if Raw old \<noteq> Raw v
     then map (\<lambda>oid. (oid, \<lparr>ch_Path = p, ch_Old = old, ch_New = v, ch_Kind = ChangeValue\<rparr>)) (obs_fns t)
     else [])"
  using assms by (auto simp: Tree_Set_Inr Get_Inr)

text \<open>\<^verbatim>\<open>GetAttributes\<close> after \<^verbatim>\<open>SetAttributes\<close> returns what was stored, except that an empty access
  list comes back as nil, which the wire format renders as the default entry.\<close>

theorem Attributes_round_trip:
  assumes "SetAttributes p a t = (Inr (), t')"
  shows "GetAttributes p t' = Inr (if AccessList a = Some [] then a\<lparr>AccessList := None\<rparr> else a)
    \<and> (\<forall>q w. Get q t' = Inr w \<longleftrightarrow> Get q t = Inr w)"
proof -
  from assms obtain segs where p: "parsePath p = Inr segs" and some: "attrs_at (root t) segs \<noteq> None"
    and t': "root t' = put_attrs segs (Some (copy_access a)) (root t)"
    by (auto simp: SetAttributes_Inr)
  have idem: "copy_access (copy_access a) = (if AccessList a = Some [] then a\<lparr>AccessList := None\<rparr> else a)"
    by (cases "AccessList a") (auto simp: copy_access_def append_nil_def)
  have "leaf_at (root t') q = leaf_at (root t) q" for q
    using t' by (simp add: leaf_at_put_attrs)
  moreover have "GetAttributes p t' = Inr (copy_access (copy_access a))"
    using p t' some attributes.get_put [OF some] by (simp add: GetAttributes_Inr)
  ultimately show ?thesis
    by (simp add: idem Get_Inr)
qed


section \<open>Witnesses\<close>

definition demo_root :: Node where
  "demo_root =
     Node [(''Device'', Node
       [(''Name'', Node [] (Some \<lparr>VType = TypeString, Raw = ''cpe'', Writable = True\<rparr>) None None),
        (''Port'', Node [] (Some \<lparr>VType = TypeUnsignedInt, Raw = ''80'', Writable = True\<rparr>) None None),
        (''Serial'', Node [] (Some \<lparr>VType = TypeString, Raw = ''S1'', Writable = False\<rparr>) None None)]
       None None None)] None None None"

definition demo_tree :: Tree where
  "demo_tree = \<lparr>root = demo_root, obs_next = 1, obs_fns = [0], delivered = []\<rparr>"

abbreviation "port_8080 \<equiv> \<lparr>VType = TypeUnsignedInt, Raw = ''8080'', Writable = True\<rparr>"

lemmas tree_eval = value_eval
  Tree_Set_def Get_def SetSystem_def SetBatch_def preflight_def preflight_entry_def preflight_loop.simps(2)
  GetAttributes_def SetAttributes_def copy_access_def append_nil_def
  lookup_def isLeaf_def demo_tree_def demo_root_def notify_def

theorem Set_then_Get_witness:
  "Tree_Set ''Device.Port'' port_8080 demo_tree =
     (Inr (), snd (Tree_Set ''Device.Port'' port_8080 demo_tree))
   \<and> Get ''Device.Port'' (snd (Tree_Set ''Device.Port'' port_8080 demo_tree)) = Inr port_8080"
proof -
  have h: "Tree_Set ''Device.Port'' port_8080 demo_tree =
     (Inr (), snd (Tree_Set ''Device.Port'' port_8080 demo_tree))"
    by (simp add: tree_eval)
  show ?thesis using h Set_then_Get [OF h] by blast
qed

definition demo_batch :: "Setter list" where
  "demo_batch =
     [\<lparr>st_Path = ''Device.Port'', st_Value = port_8080\<rparr>,
      \<lparr>st_Path = ''Device.Name'', st_Value = \<lparr>VType = TypeString, Raw = ''gw'', Writable = True\<rparr>\<rparr>]"

lemma demo_batch_ok:
  "SetBatch demo_batch demo_tree =
     (Inr (case fst (SetBatch demo_batch demo_tree) of Inr rs \<Rightarrow> rs | Inl _ \<Rightarrow> []),
      snd (SetBatch demo_batch demo_tree))"
  by (simp add: tree_eval demo_batch_def)

theorem SetBatch_all_or_nothing_witness:
  "(\<exists>rs t'. SetBatch demo_batch demo_tree = (Inr rs, t'))
   \<and> distinct (map (parsePath \<circ> st_Path) demo_batch)
   \<and> snd (SetBatch (demo_batch @ demo_batch) demo_tree) = demo_tree"
proof -
  have ok: "\<exists>rs t'. SetBatch demo_batch demo_tree = (Inr rs, t')"
    using demo_batch_ok by blast
  have err: "is_err (fst (SetBatch (demo_batch @ demo_batch) demo_tree))"
    by (simp add: tree_eval demo_batch_def)
  from ok err show ?thesis
    using SetBatch_all_or_nothing [of demo_batch demo_tree]
      SetBatch_all_or_nothing [of "demo_batch @ demo_batch" demo_tree] by blast
qed

theorem SetBatch_is_sequence_of_Sets_witness:
  "\<exists>t''. set_each demo_batch demo_tree = (Inr (), t'')
     \<and> root t'' = root (snd (SetBatch demo_batch demo_tree))"
  by (rule SetBatch_is_sequence_of_Sets [OF demo_batch_ok])

theorem SetBatch_reads_back_witness:
  "Get ''Device.Port'' (snd (SetBatch demo_batch demo_tree)) = Inr port_8080"
  using SetBatch_reads_back [OF demo_batch_ok] by (force simp: demo_batch_def)

theorem Mount_atomic_witness:
  "fst (Mount ''Device.A.B'' (NewLeaf port_8080) demo_tree) = Inr ()
   \<and> (\<exists>segs. parsePath ''Device.A.B'' = Inr segs
        \<and> node_at segs (root (snd (Mount ''Device.A.B'' (NewLeaf port_8080) demo_tree)))
            = Some (NewLeaf port_8080))
   \<and> snd (Mount ''Device.Port.B'' (NewLeaf port_8080) demo_tree) = demo_tree"
proof -
  have "fst (Mount ''Device.A.B'' (NewLeaf port_8080) demo_tree) = Inr ()"
    by (simp add: Mount_def tree_eval)
  moreover have "is_err (fst (Mount ''Device.Port.B'' (NewLeaf port_8080) demo_tree))"
    by (simp add: Mount_def tree_eval)
  ultimately show ?thesis
    using Mount_atomic [of "''Device.A.B''" "NewLeaf port_8080" demo_tree]
      Mount_atomic [of "''Device.Port.B''" "NewLeaf port_8080" demo_tree] by blast
qed

theorem Set_notifies_witness:
  "map fst (delivered (snd (Tree_Set ''Device.Port'' port_8080 demo_tree))) = [0]"
proof -
  have h: "Tree_Set ''Device.Port'' port_8080 demo_tree =
     (Inr (), snd (Tree_Set ''Device.Port'' port_8080 demo_tree))"
    by (simp add: tree_eval)
  have g: "Get ''Device.Port'' demo_tree = Inr (port_8080\<lparr>Raw := ''80''\<rparr>)"
    by (simp add: tree_eval)
  show ?thesis using Set_notifies [OF h g] by (simp add: demo_tree_def)
qed

theorem Attributes_round_trip_witness:
  "GetAttributes ''Device.Port''
     (snd (SetAttributes ''Device.Port'' \<lparr>Notification = 2, AccessList = Some []\<rparr> demo_tree))
   = Inr \<lparr>Notification = 2, AccessList = None\<rparr>"
proof -
  have h: "SetAttributes ''Device.Port'' \<lparr>Notification = 2, AccessList = Some []\<rparr> demo_tree =
     (Inr (), snd (SetAttributes ''Device.Port'' \<lparr>Notification = 2, AccessList = Some []\<rparr> demo_tree))"
    by (simp add: tree_eval)
  show ?thesis using Attributes_round_trip [OF h] by simp
qed

end
