(* ===== verification/ParamWalk.thy ===== *)
theory ParamWalk
  imports ParamTree "HOL-Library.Multiset"
begin

text \<open>
  Enumerating the tree: \<^verbatim>\<open>Names\<close>, \<^verbatim>\<open>Children\<close> and \<^verbatim>\<open>Walk\<close> of
  \<^verbatim>\<open>src/internal/paramtree/paramtree.go\<close>.  A walk calls its callback on one leaf after another
  and stops at the first error, so \<open>walk\<close> computes the calls it makes, in order, and
  \<open>Walk\<close> runs the callback over them.  The enumerations are compared with \<open>leaf_paths\<close>, the leaves
  by their segment paths.
\<close>

section \<open>Operations\<close>

definition sortedKeys :: "(string \<times> Node) list \<Rightarrow> (string \<times> Node) list" where
  "sortedKeys m = sort_key fst m"

lemma set_sortedKeys [simp]: "set (sortedKeys m) = set m"
  by (simp add: sortedKeys_def)

lemma size_child: "(k, c) \<in> set cs \<Longrightarrow> size c < Suc (size_list (size_prod (\<lambda>_. 0) size) cs)"
  by (induction cs) auto

lemma size_sorted_child [termination_simp]:
  "(k, c) \<in> set (sortedKeys cs) \<Longrightarrow> size c < Suc (size_list (size_prod (\<lambda>_. 0) size) cs + m)"
  using size_child [of k c cs] by simp

fun collectLeaves :: "Node \<Rightarrow> string list \<Rightarrow> string list" where
  "collectLeaves (Node cs l a t) pre =
     (if l \<noteq> None then [joinPath pre]
      else concat (map (\<lambda>(seg, child). collectLeaves child (pre @ [seg])) cs))"

fun walk :: "Node \<Rightarrow> string list \<Rightarrow> int \<Rightarrow> (string \<times> Value) list" where
  "walk (Node cs l a t) pre depth =
     (case l of
        Some v \<Rightarrow> [(joinPath pre, v)]
      | None \<Rightarrow>
          if depth = 1 then
            concat (map (\<lambda>(seg, child).
              case leaf child of
                Some v \<Rightarrow> [(joinPath (pre @ [seg]), v)]
              | None \<Rightarrow> []) (sortedKeys cs))
          else (let next = (if 1 < depth then depth - 1 else depth) in
                concat (map (\<lambda>(seg, child). walk child (pre @ [seg]) next) (sortedKeys cs))))"

definition Names :: "string \<Rightarrow> bool \<Rightarrow> Tree \<Rightarrow> goerr + string list" where
  "Names pre partial t =
     (case parsePath pre of
        Inl e \<Rightarrow> Inl e
      | Inr segments \<Rightarrow>
          (case lookup segments (root t) of
             Inl e \<Rightarrow> Inl (Wrap ''paramtree.Names'' KindNotFound (Some e))
           | Inr n \<Rightarrow>
               if partial then Inr (sort (collectLeaves n segments))
               else if isLeaf n then Inr [joinPath segments]
               else Inr (sort (map (\<lambda>(seg, _). joinPath (segments @ [seg])) (children n)))))"

record ChildInfo =
  ci_Name :: string
  ci_Writable :: bool

definition Children :: "string \<Rightarrow> Tree \<Rightarrow> goerr + ChildInfo list" where
  "Children pre t =
     (case parsePath pre of
        Inl e \<Rightarrow> Inl e
      | Inr segments \<Rightarrow>
          (case lookup segments (root t) of
             Inl e \<Rightarrow> Inl (Wrap ''paramtree.Children'' KindNotFound (Some e))
           | Inr n \<Rightarrow>
               if isLeaf n then
                 Inl (Wrap ''paramtree.Children'' KindNotFound
                   (Some (Errorf ''path %q is a leaf, has no children'' [ArgS pre])))
               else Inr (map (\<lambda>(seg, child).
                       let fullPath = joinPath (segments @ [seg]) in
                       case leaf child of
                         Some v \<Rightarrow> \<lparr>ci_Name = fullPath, ci_Writable = Writable v\<rparr>
                       | None \<Rightarrow> \<lparr>ci_Name = fullPath @ ''.'', ci_Writable = False\<rparr>)
                     (sortedKeys (children n)))))"

text \<open>The callback of a walk threads a state of the caller and may fail; the walk returns the first
  failure.\<close>

fun run_visits ::
  "(string \<Rightarrow> Value \<Rightarrow> 's \<Rightarrow> (goerr + unit) \<times> 's) \<Rightarrow> (string \<times> Value) list \<Rightarrow> 's \<Rightarrow> (goerr + unit) \<times> 's"
where
  "run_visits fn [] st = (Inr (), st)"
| "run_visits fn ((path, v) # vs) st =
     (case fn path v st of
        (Inl e, st') \<Rightarrow> (Inl e, st')
      | (Inr _, st') \<Rightarrow> run_visits fn vs st')"

definition Walk ::
  "string \<Rightarrow> int \<Rightarrow> (string \<Rightarrow> Value \<Rightarrow> 's \<Rightarrow> (goerr + unit) \<times> 's) \<Rightarrow> Tree \<Rightarrow> 's \<Rightarrow> (goerr + unit) \<times> 's"
where
  "Walk pre depth fn t st =
     (case parsePath pre of
        Inl e \<Rightarrow> (Inl e, st)
      | Inr segments \<Rightarrow>
          (case lookup segments (root t) of
             Inl e \<Rightarrow> (Inl (Wrap ''paramtree.Walk'' KindNotFound (Some e)), st)
           | Inr n \<Rightarrow> run_visits fn (walk n segments depth) st))"

text \<open>The callers' most common callback appends what it is given and never fails.\<close>

definition collect_fn :: "string \<Rightarrow> Value \<Rightarrow> (string \<times> Value) list \<Rightarrow> (goerr + unit) \<times> (string \<times> Value) list" where
  "collect_fn path v acc = (Inr (), acc @ [(path, v)])"

lemma run_visits_collect: "run_visits collect_fn vs acc = (Inr (), acc @ vs)"
  by (induction collect_fn vs acc rule: run_visits.induct) (simp_all add: collect_fn_def)

section \<open>The leaves by segment path\<close>

fun leaf_paths :: "Node \<Rightarrow> (string list \<times> Value) list" where
  "leaf_paths (Node cs l a t) =
     (case l of
        Some v \<Rightarrow> [([], v)]
      | None \<Rightarrow> concat (map (\<lambda>(seg, c). map (\<lambda>(p, v). (seg # p, v)) (leaf_paths c)) (sortedKeys cs)))"

lemma leaf_paths_iff: "wf_node n \<Longrightarrow> (p, v) \<in> set (leaf_paths n) \<longleftrightarrow> leaf_at n p = Some v"
proof (induction n arbitrary: p v rule: leaf_paths.induct)
  case (1 cs l a t)
  show ?case
  proof (cases l)
    case (Some w)
    then show ?thesis by (cases p) (auto simp: leaf_at_def isLeaf_def)
  next
    case None
    have child: "(q, v) \<in> set (leaf_paths c) \<longleftrightarrow> leaf_at c q = Some v" if "(k, c) \<in> set cs" for k c q
    proof -
      from 1(2) that have "wf_node c" by auto
      with 1(1) [OF None, of "(k, c)" k c] that show ?thesis by simp
    qed
    show ?thesis
    proof (cases p)
      case Nil
      with None show ?thesis by (auto simp: leaf_at_def)
    next
      case (Cons k q)
      have "(p, v) \<in> set (leaf_paths (Node cs l a t)) \<longleftrightarrow>
          (\<exists>c. (k, c) \<in> set cs \<and> (q, v) \<in> set (leaf_paths c))"
        using None Cons by force
      also have "\<dots> \<longleftrightarrow> (\<exists>c. map_of cs k = Some c \<and> leaf_at c q = Some v)"
        using 1(2) child by (auto simp: map_of_eq_Some_iff)
      also have "\<dots> \<longleftrightarrow> leaf_at (Node cs l a t) p = Some v"
        using None Cons by (simp add: leaf_at_def isLeaf_def split: option.splits)
      finally show ?thesis .
    qed
  qed
qed

lemma walk_leaf_paths:
  "depth < 1 \<Longrightarrow> walk n pre depth = map (\<lambda>(p, v). (joinPath (pre @ p), v)) (leaf_paths n)"
proof (induction n pre depth rule: walk.induct)
  case (1 cs l a t pre depth)
  show ?case
  proof (cases l)
    case None
    have "walk c (pre @ [seg]) depth = map (\<lambda>(p, v). (joinPath (pre @ seg # p), v)) (leaf_paths c)"
      if "(seg, c) \<in> set (sortedKeys cs)" for seg c
      using 1(1) [OF None _ refl that refl] 1(2) by simp
    note child = this
    have "walk (Node cs l a t) pre depth =
        concat (map (\<lambda>(seg, c). walk c (pre @ [seg]) depth) (sortedKeys cs))"
      using None 1(2) by simp
    also have "\<dots> = concat (map (\<lambda>(seg, c).
        map (\<lambda>(p, v). (joinPath (pre @ seg # p), v)) (leaf_paths c)) (sortedKeys cs))"
      using child by (intro arg_cong [where f = concat] map_cong) auto
    also have "\<dots> = map (\<lambda>(p, v). (joinPath (pre @ p), v)) (leaf_paths (Node cs l a t))"
      using None by (simp add: map_concat comp_def case_prod_unfold)
    finally show ?thesis .
  qed simp
qed

lemma collectLeaves_leaf_paths:
  "mset (collectLeaves n pre) = mset (map (\<lambda>(p, v). joinPath (pre @ p)) (leaf_paths n))"
proof (induction n pre rule: collectLeaves.induct)
  case (1 cs l a t pre)
  show ?case
  proof (cases l)
    case None
    have eq: "mset (collectLeaves c (pre @ [seg])) =
        mset (map (\<lambda>(p, v). joinPath (pre @ seg # p)) (leaf_paths c))" if "(seg, c) \<in> set cs" for seg c
      using 1 [OF _ that refl] None by simp
    have "mset (concat (map (\<lambda>(seg, c). collectLeaves c (pre @ [seg])) cs)) =
        (\<Sum>(seg, c) \<in># mset cs. mset (collectLeaves c (pre @ [seg])))"
      by (simp add: mset_concat comp_def case_prod_unfold sum_mset_sum_list [symmetric])
    also have "\<dots> = (\<Sum>(seg, c) \<in># mset cs. mset (map (\<lambda>(p, v). joinPath (pre @ seg # p)) (leaf_paths c)))"
      using eq by (auto intro!: arg_cong [where f = sum_mset] image_mset_cong)
    also have "\<dots> = (\<Sum>(seg, c) \<in># mset (sortedKeys cs).
        mset (map (\<lambda>(p, v). joinPath (pre @ seg # p)) (leaf_paths c)))"
      by (simp add: sortedKeys_def)
    finally show ?thesis
      using None
      by (simp add: map_concat mset_concat comp_def case_prod_unfold sum_mset_sum_list [symmetric])
  qed simp
qed

section \<open>Order\<close>

lemma sortedKeys_strict: "distinct (map fst cs) \<Longrightarrow> sorted_wrt (<) (map fst (sortedKeys cs))"
proof -
  assume "distinct (map fst cs)"
  moreover have "mset (map fst (sortedKeys cs)) = mset (map fst cs)"
    by (simp add: sortedKeys_def)
  ultimately have "distinct (map fst (sortedKeys cs))"
    by (metis mset_eq_imp_distinct_iff)
  moreover have "sorted (map fst (sortedKeys cs))"
    by (simp add: sortedKeys_def)
  ultimately show ?thesis
    by (simp add: strict_sorted_iff)
qed

lemma append_less_append [simp]:
  fixes ys :: "'a::order list"
  shows "xs @ ys < xs @ zs \<longleftrightarrow> ys < zs"
  by (induction xs) simp_all

lemma sorted_blocks:
  fixes f :: "'a \<Rightarrow> string list list"
  assumes "sorted_wrt (<) (map fst ks)"
    and "\<And>k c. (k, c) \<in> set ks \<Longrightarrow> sorted_wrt (<) (f c)"
  shows "sorted_wrt (<) (concat (map (\<lambda>(k, c). map ((#) k) (f c)) ks))"
  using assms
proof (induction ks)
  case (Cons kc ks)
  obtain k c where kc: "kc = (k, c)" by (cases kc)
  have "sorted_wrt (<) (map ((#) k) (f c))"
    using Cons.prems(2) [of k c] kc by (simp add: sorted_wrt_map)
  moreover have "sorted_wrt (<) (concat (map (\<lambda>(k, c). map ((#) k) (f c)) ks))"
    using Cons.IH Cons.prems by simp blast
  moreover have "k < k'" if "(k', c') \<in> set ks" for k' c'
    using Cons.prems(1) kc that by force
  ultimately show ?case
    using kc by (auto simp: sorted_wrt_append)
qed simp

lemma leaf_paths_sorted: "wf_node n \<Longrightarrow> sorted_wrt (<) (map fst (leaf_paths n))"
proof (induction n rule: leaf_paths.induct)
  case (1 cs l a t)
  show ?case
  proof (cases l)
    case None
    have "map fst (leaf_paths (Node cs l a t)) =
        concat (map (\<lambda>(k, c). map ((#) k) (map fst (leaf_paths c))) (sortedKeys cs))"
      using None by (simp add: map_concat comp_def case_prod_unfold)
    moreover have "sorted_wrt (<) (map fst (leaf_paths c))" if "(k, c) \<in> set (sortedKeys cs)" for k c
      using 1(1) [OF None _ refl] 1(2) that by force
    moreover have "sorted_wrt (<) (map fst (sortedKeys cs))"
      using 1(2) by (simp add: sortedKeys_strict)
    ultimately show ?thesis
      using sorted_blocks [of "sortedKeys cs" "\<lambda>c. map fst (leaf_paths c)"] by simp
  qed simp
qed

lemma Walk_collect:
  assumes "parsePath pre = Inr segs" and "node_at segs (root t) = Some n" and "depth < 1"
  shows "Walk pre depth collect_fn t [] =
    (Inr (), map (\<lambda>(p, v). (joinPath (segs @ p), v)) (leaf_paths n))"
  using assms by (simp add: Walk_def run_visits_collect walk_leaf_paths)

lemma Names_Inr:
  "Names pre True t = Inr ns \<longleftrightarrow>
     (\<exists>segs n. parsePath pre = Inr segs \<and> node_at segs (root t) = Some n
        \<and> ns = sort (collectLeaves n segs))"
  by (auto simp: Names_def lookup_Inr split: sum.splits)

definition child_name :: "string list \<Rightarrow> string \<times> Node \<Rightarrow> string" where
  "child_name segs kc = joinPath (segs @ [fst kc]) @ (if isLeaf (snd kc) then '''' else ''.'')"

lemma Children_ok:
  assumes "parsePath p = Inr segs" and "node_at segs (root t) = Some n" and "\<not> isLeaf n"
  shows "\<exists>cs. Children p t = Inr cs \<and> map ci_Name cs = map (child_name segs) (sortedKeys (children n))"
  using assms
  by (auto simp: Children_def lookup_Some child_name_def isLeaf_def Let_def split: option.splits)

lemma Children_Inr:
  assumes "Children p t = Inr cs"
  obtains segs n where "parsePath p = Inr segs" "node_at segs (root t) = Some n" "\<not> isLeaf n"
    "map ci_Name cs = map (child_name segs) (sortedKeys (children n))"
proof -
  from assms obtain segs n where "parsePath p = Inr segs" "node_at segs (root t) = Some n" "\<not> isLeaf n"
    by (auto simp: Children_def lookup_Inr split: sum.splits if_splits)
  with Children_ok [OF this] assms that show thesis by auto
qed

lemma Children_Inl:
  assumes "Children p t = Inl e" and "parsePath p = Inr segs" and "node_at segs (root t) = Some n"
  shows "isLeaf n"
  using Children_ok [OF assms(2,3)] assms(1) by auto

section \<open>What an enumeration returns\<close>

text \<open>On a well-formed tree an unlimited \<^verbatim>\<open>Walk\<close> below a prefix visits exactly the leaves at or
  below it, each once and with its current value, in the order of their segment lists.\<close>

theorem Walk_visits_leaves:
  assumes "wf_node (root t)" and "parsePath pre = Inr segs"
    and "node_at segs (root t) = Some n" and "depth \<le> 0"
  shows "\<exists>vs. Walk pre depth collect_fn t [] = (Inr (), map (\<lambda>(p, v). (joinPath p, v)) vs)
    \<and> sorted_wrt (<) (map fst vs)
    \<and> set vs = {(p, v). prefix segs p \<and> leaf_at (root t) p = Some v}"
proof -
  define vs where "vs = map (\<lambda>(p, v). (segs @ p, v)) (leaf_paths n)"
  have wfn: "wf_node n" using assms by (blast intro: wf_node_at)
  have "Walk pre depth collect_fn t [] = (Inr (), map (\<lambda>(p, v). (joinPath p, v)) vs)"
    using assms by (simp add: Walk_collect vs_def comp_def case_prod_unfold)
  moreover have "map fst vs = map ((@) segs) (map fst (leaf_paths n))"
    by (simp add: vs_def comp_def case_prod_unfold)
  then have "sorted_wrt (<) (map fst vs)"
    using leaf_paths_sorted [OF wfn] by (simp only: sorted_wrt_map append_less_append)
  moreover have "set vs = {(p, v). prefix segs p \<and> leaf_at (root t) p = Some v}"
    using leaf_paths_iff [OF wfn] leaf_at_append [OF assms(3)]
    by (auto simp: vs_def prefix_def image_iff)
  ultimately show ?thesis by blast
qed

text \<open>\<^verbatim>\<open>Names(prefix, true)\<close> lists, in sorted order, exactly the paths that \<^verbatim>\<open>Walk\<close> visits below the
  prefix, with the same multiplicity.\<close>

theorem Names_partial_sorted_walk:
  assumes "Names pre True t = Inr ns"
  shows "sorted ns \<and> mset ns = mset (map fst (snd (Walk pre 0 collect_fn t [])))"
proof -
  from assms obtain segs n where "parsePath pre = Inr segs" "node_at segs (root t) = Some n"
    and ns: "ns = sort (collectLeaves n segs)"
    by (auto simp: Names_Inr)
  then have "Walk pre 0 collect_fn t [] =
      (Inr (), map (\<lambda>(p, v). (joinPath (segs @ p), v)) (leaf_paths n))"
    by (simp add: Walk_collect)
  with ns show ?thesis
    by (simp add: collectLeaves_leaf_paths comp_def case_prod_unfold)
qed

definition dash_tree :: Tree where
  "dash_tree = New\<lparr>root :=
     Node [(''A-B'', NewLeaf port_8080),
           (''A'', Node [(''x'', NewLeaf port_8080)] None None None)] None None None\<rparr>"

lemmas walk_eval = tree_eval Walk_def Names_def collect_fn_def sortedKeys_def NewLeaf_def

text \<open>The order of a walk is not the lexicographic order of the paths, as the comment on
  \<^verbatim>\<open>Walk\<close> has it: a dash sorts before the dot that separates segments, so a sibling
  \<^verbatim>\<open>A-B\<close> is visited after \<^verbatim>\<open>A.x\<close> although its path is smaller.\<close>

theorem Walk_not_lexicographic:
  "wf_node (root dash_tree)
   \<and> map fst (snd (Walk '''' 0 collect_fn dash_tree [])) = [''A.x'', ''A-B'']
   \<and> Names '''' True dash_tree = Inr [''A-B'', ''A.x'']"
proof (intro conjI)
  show "wf_node (root dash_tree)"
    by (simp add: dash_tree_def NewLeaf_def isSegmentChar_def less_eq_char_def)
  show "map fst (snd (Walk '''' 0 collect_fn dash_tree [])) = [''A.x'', ''A-B'']"
    by (simp add: walk_eval dash_tree_def New_def less_char_def)
  show "Names '''' True dash_tree = Inr [''A-B'', ''A.x'']"
    by (simp add: walk_eval dash_tree_def New_def less_char_def)
qed

section \<open>Witnesses\<close>

theorem Walk_visits_leaves_witness:
  "\<exists>vs. Walk ''Device.'' 0 collect_fn demo_tree [] = (Inr (), map (\<lambda>(p, v). (joinPath p, v)) vs)
     \<and> sorted_wrt (<) (map fst vs)
     \<and> set vs = {(p, v). prefix [''Device''] p \<and> leaf_at (root demo_tree) p = Some v}"
  by (rule Walk_visits_leaves [where n = "the (node_at [''Device''] (root demo_tree))"])
    (simp_all add: tree_eval isSegmentChar_def less_eq_char_def)

theorem Names_partial_sorted_walk_witness:
  "mset (map fst (snd (Walk ''Device.'' 0 collect_fn demo_tree []))) =
     mset [''Device.Name'', ''Device.Port'', ''Device.Serial'']"
proof -
  have "Names ''Device.'' True demo_tree =
      Inr [''Device.Name'', ''Device.Port'', ''Device.Serial'']"
    by (simp add: walk_eval less_char_def)
  from Names_partial_sorted_walk [OF this] show ?thesis by simp
qed

end
