(* ===== verification/ParamTables.thy ===== *)
theory ParamTables
  imports ParamTree
begin

text \<open>
  Tables: \<^verbatim>\<open>AddTable\<close>, \<^verbatim>\<open>AddObject\<close>, \<^verbatim>\<open>DeleteObject\<close> and the entry counter
  \<^verbatim>\<open>syncEntryCount\<close> of \<^verbatim>\<open>src/internal/paramtree/paramtree.go\<close>.  The search for the next
  instance number is a loop in the source; \<open>next_free\<close> is that loop, with the proof that it ends.
\<close>

section \<open>Operations\<close>

definition set_child :: "string \<Rightarrow> Node \<Rightarrow> Node \<Rightarrow> Node" where
  "set_child k c n = set_children (AList.update k c (children n)) n"

definition del_child :: "string \<Rightarrow> Node \<Rightarrow> Node" where
  "del_child k n = set_children (AList.delete k (children n)) n"

fun add_table_at :: "string \<Rightarrow> Node \<Rightarrow> string list \<Rightarrow> Node \<Rightarrow> (goerr + unit) \<times> Node" where
  "add_table_at parentPath template [] parent =
     (if isLeaf parent then
        (Inl (Wrap ''paramtree.AddTable'' KindInvalidArgument
               (Some (Errorf ''path %q is a leaf'' [ArgS parentPath]))), parent)
      else if table parent \<noteq> None then
        (Inl (Wrap ''paramtree.AddTable'' KindInvalidArgument
               (Some (Errorf ''path %q is already a table'' [ArgS parentPath]))), parent)
      else (Inr (), set_table (Some template) parent))"
| "add_table_at parentPath template (seg # rest) parent =
     (if isLeaf parent then
        (Inl (Wrap ''paramtree.AddTable'' KindInvalidArgument
               (Some (Errorf ''path %q traverses a leaf'' [ArgS parentPath]))), parent)
      else (let child = (case map_of (children parent) seg of None \<Rightarrow> NewBranch | Some c \<Rightarrow> c);
                (r, child') = add_table_at parentPath template rest child
            in (r, set_child seg child' parent)))"

definition AddTable :: "string \<Rightarrow> Node option \<Rightarrow> Tree \<Rightarrow> (goerr + unit) \<times> Tree" where
  "AddTable parentPath template t =
     (case parsePath parentPath of
        Inl e \<Rightarrow> (Inl e, t)
      | Inr segments \<Rightarrow>
          if length segments = 0 then
            (Inl (Wrap ''paramtree.AddTable'' KindInvalidArgument
                   (Some (Errorf ''cannot mark root as a table'' []))), t)
          else (case template of
                  None \<Rightarrow> (Inl (Wrap ''paramtree.AddTable'' KindInvalidArgument
                             (Some (Errorf ''template is nil'' []))), t)
                | Some tmpl \<Rightarrow>
                    (let (r, root') = add_table_at parentPath tmpl segments (root t)
                     in (r, t\<lparr>root := root'\<rparr>))))"

text \<open>The child names that count as instances.\<close>

definition instance_of :: "string \<Rightarrow> int option" where
  "instance_of k = (case Atoi k of Some i \<Rightarrow> if 0 < i then Some i else None | None \<Rightarrow> None)"

definition used_instances :: "Node \<Rightarrow> int list" where
  "used_instances n = List.map_filter (\<lambda>(k, _). instance_of k) (children n)"

function next_free :: "int list \<Rightarrow> int \<Rightarrow> int" where
  "next_free used inst = (if inst \<notin> set used then inst else next_free used (inst + 1))"
  by pat_completeness auto
termination
proof (relation "measure (\<lambda>(used, i). card {u \<in> set used. i \<le> u})", goal_cases)
  case (2 used i)
  then have "i \<in> {u \<in> set used. i \<le> u} - {u \<in> set used. i + 1 \<le> u}" by simp
  then have "{u \<in> set used. i + 1 \<le> u} \<subset> {u \<in> set used. i \<le> u}" by force
  then show ?case by (auto intro: psubset_card_mono)
qed simp

declare next_free.simps [simp del]

definition syncEntryCount :: "string list \<Rightarrow> Node \<Rightarrow> Tree \<Rightarrow> Change option \<times> Tree" where
  "syncEntryCount tableSegs tab t =
     (if length tableSegs = 0 then (None, t)
      else
        (case lookup (butlast tableSegs) (root t) of
           Inl _ \<Rightarrow> (None, t)
         | Inr parent \<Rightarrow>
             (let name = last tableSegs @ ''NumberOfEntries'' in
              case map_of (children parent) name of
                None \<Rightarrow> (None, t)
              | Some c \<Rightarrow>
                  (case leaf c of
                     None \<Rightarrow> (None, t)
                   | Some old \<Rightarrow>
                       (let raw = Itoa (int (length (used_instances tab))) in
                        if Raw old = raw then (None, t)
                        else
                          (let new = old\<lparr>Raw := raw\<rparr>;
                               t' = t\<lparr>root := update_at (butlast tableSegs @ [name])
                                             (set_leaf (Some new)) (root t)\<rparr>;
                               path = joinPath (butlast tableSegs);
                               path' = (if path \<noteq> '''' then path @ ''.'' else path)
                           in (if \<not> hasObservers t' then None
                               else Some \<lparr>ch_Path = path' @ name, ch_Old = old, ch_New = new,
                                          ch_Kind = ChangeValue\<rparr>, t')))))))"

definition AddObject :: "string \<Rightarrow> Tree \<Rightarrow> (goerr + int) \<times> Tree" where
  "AddObject parentPath t =
     (case parsePath parentPath of
        Inl e \<Rightarrow> (Inl e, t)
      | Inr segments \<Rightarrow>
          (case lookup segments (root t) of
             Inl e \<Rightarrow> (Inl (Wrap ''paramtree.AddObject'' KindNotFound (Some e)), t)
           | Inr n \<Rightarrow>
               (case table n of
                  None \<Rightarrow> (Inl (Wrap ''paramtree.AddObject'' KindInvalidArgument
                             (Some (Errorf ''path %q is not a table'' [ArgS parentPath]))), t)
                | Some template \<Rightarrow>
                    (let inst = next_free (used_instances n) 1;
                         n' = set_child (Itoa inst) (clone template) n;
                         t1 = t\<lparr>root := update_at segments (\<lambda>_. n') (root t)\<rparr>;
                         (counter, t2) = syncEntryCount segments n' t1;
                         created =
                           (if hasObservers t2
                            then Some \<lparr>ch_Path = TrimSuffix parentPath ''.'' @ ''.'' @ Itoa inst @ ''.'',
                                       ch_Old = zero_Value, ch_New = zero_Value,
                                       ch_Kind = ChangeObjectCreated\<rparr>
                            else None)
                     in (Inr inst, notify_opt counter (notify_opt created t2))))))"

definition DeleteObject :: "string \<Rightarrow> Tree \<Rightarrow> (goerr + unit) \<times> Tree" where
  "DeleteObject path t =
     (case parsePath path of
        Inl e \<Rightarrow> (Inl e, t)
      | Inr segments \<Rightarrow>
          if length segments = 0 then
            (Inl (Wrap ''paramtree.DeleteObject'' KindInvalidArgument
                   (Some (Errorf ''cannot delete root'' []))), t)
          else if instance_of (last segments) = None then
            (Inl (Wrap ''paramtree.DeleteObject'' KindInvalidArgument
                   (Some (Errorf ''path %q does not name a table instance (last segment must be a positive integer)''
                      [ArgS path]))), t)
          else
            (let parentSegs = butlast segments in
             case lookup parentSegs (root t) of
               Inl e \<Rightarrow> (Inl (Wrap ''paramtree.DeleteObject'' KindNotFound (Some e)), t)
             | Inr parent \<Rightarrow>
                 if table parent = None then
                   (Inl (Wrap ''paramtree.DeleteObject'' KindInvalidArgument
                      (Some (Errorf ''path %q does not name a table instance (parent is not a table)''
                         [ArgS path]))), t)
                 else if map_of (children parent) (last segments) = None then
                   (Inl (Wrap ''paramtree.DeleteObject'' KindNotFound
                      (Some (Errorf ''instance %s of %s not found''
                         [ArgS (last segments), ArgS (joinPath parentSegs)]))), t)
                 else
                   (let parent' = del_child (last segments) parent;
                        t1 = t\<lparr>root := update_at parentSegs (\<lambda>_. parent') (root t)\<rparr>;
                        (counter, t2) = syncEntryCount parentSegs parent' t1;
                        deleted =
                          (if hasObservers t2
                           then Some \<lparr>ch_Path = path, ch_Old = zero_Value, ch_New = zero_Value,
                                      ch_Kind = ChangeObjectDeleted\<rparr>
                           else None)
                    in (Inr (), notify_opt counter (notify_opt deleted t2)))))"

section \<open>The search for an instance number\<close>

lemma next_free_props:
  "next_free used i \<notin> set used \<and> i \<le> next_free used i
   \<and> (\<forall>j. i \<le> j \<and> j < next_free used i \<longrightarrow> j \<in> set used)"
proof (induction used i rule: next_free.induct)
  case (1 used i)
  show ?case
  proof (cases "i \<in> set used")
    case True
    with 1 show ?thesis
      by (simp add: next_free.simps [of used i]) (metis le_less zless_imp_add1_zle)
  next
    case False
    then show ?thesis by (auto simp: next_free.simps [of used i])
  qed
qed

lemma instance_of_show [simp]: "0 < n \<Longrightarrow> n < 2 ^ 63 \<Longrightarrow> instance_of (show_nat n) = Some (int n)"
  by (simp add: instance_of_def Atoi_show_nat)

lemma used_instances_iff:
  "i \<in> set (used_instances n) \<longleftrightarrow> (\<exists>k \<in> fst ` set (children n). instance_of k = Some i)"
  by (force simp: used_instances_def map_filter_def)

lemma length_used_instances: "length (used_instances n) \<le> length (children n)"
  unfolding used_instances_def
  by (induction "children n" arbitrary: n)
    (metis (no_types, lifting) length_filter_le length_map map_filter_def)+

lemma next_free_bound: "next_free used 1 \<le> int (length used) + 1"
proof -
  have "{1..<next_free used 1} \<subseteq> set used"
    using next_free_props [of used 1] by auto
  then have "card {1..<next_free used 1} \<le> card (set used)"
    by (intro card_mono) auto
  also have "\<dots> \<le> length used" by (rule card_length)
  finally show ?thesis by simp
qed


section \<open>Writes at two places\<close>

lemma update_present_commute:
  "k \<noteq> k' \<Longrightarrow> k \<in> fst ` set xs \<Longrightarrow>
     AList.update k v (AList.update k' v' xs) = AList.update k' v' (AList.update k v xs)"
  by (induction xs) auto

lemma delete_update_commute:
  "k \<noteq> k' \<Longrightarrow> AList.delete k (AList.update k' v xs) = AList.update k' v (AList.delete k xs)"
  by (induction xs) auto

lemma set_children_set_children [simp]: "set_children cs (set_children cs' n) = set_children cs n"
  by (cases n) simp

lemma update_at_commute:
  "\<not> prefix p q \<Longrightarrow> \<not> prefix q p \<Longrightarrow>
     update_at p f (update_at q g n) = update_at q g (update_at p f n)"
proof (induction p arbitrary: q n)
  case (Cons s ps)
  then obtain s' qs where q: "q = s' # qs" by (cases q) auto
  show ?case
  proof (cases "s = s'")
    case True
    with Cons q show ?thesis by (auto split: option.split)
  next
    case False
    have "s \<in> fst ` set (children n)" if "map_of (children n) s = Some c" for c
      using map_of_in_set [OF that] by force
    with False q show ?thesis
      by (auto split: option.split simp: update_present_commute)
  qed
qed simp

lemma update_at_update_at: "update_at p f (update_at p g n) = update_at p (f \<circ> g) n"
  by (induction p arbitrary: n) (auto split: option.split)

lemma update_at_id: "node_at p n = Some m \<Longrightarrow> f m = m \<Longrightarrow> update_at p f n = n"
  by (induction p f n rule: update_at.induct)
    (auto split: option.splits if_splits simp: update_same)

lemma update_at_const: "node_at p n = Some m \<Longrightarrow> update_at p (\<lambda>_. f m) n = update_at p f n"
  by (induction p f n rule: update_at.induct) (auto split: option.splits if_splits)


section \<open>The entry counter\<close>

definition counter_path :: "string list \<Rightarrow> string list" where
  "counter_path segs = butlast segs @ [last segs @ ''NumberOfEntries'']"

lemma counter_path_apart:
  assumes "segs \<noteq> []"
  shows "\<not> prefix (counter_path segs) segs" and "\<not> prefix segs (counter_path segs)"
proof -
  have "length (counter_path segs) = length segs" and "counter_path segs \<noteq> segs"
    using assms by (auto simp: counter_path_def snoc_eq_iff_butlast)
  then show "\<not> prefix (counter_path segs) segs" and "\<not> prefix segs (counter_path segs)"
    by (metis append_eq_conv_conj prefix_def take_all_iff order_refl)+
qed

definition write_counter :: "string list \<Rightarrow> nat \<Rightarrow> Node \<Rightarrow> Node" where
  "write_counter segs count r =
     (case leaf_at r (counter_path segs) of
        None \<Rightarrow> r
      | Some old \<Rightarrow> put_leaf (counter_path segs) (old\<lparr>Raw := Itoa (int count)\<rparr>) r)"

lemma set_leaf_id: "leaf m = l \<Longrightarrow> set_leaf l m = m"
  by (cases m) simp

lemma put_leaf_same: "leaf_at n p = Some v \<Longrightarrow> put_leaf p v n = n"
proof -
  assume "leaf_at n p = Some v"
  then obtain m where "node_at p n = Some m" "leaf m = Some v" by (auto simp: leaf_at_node)
  then have "update_at p (set_leaf (Some v)) n = n"
    by (auto intro: update_at_id simp: set_leaf_id)
  then show ?thesis by (simp add: put_leaf_def)
qed

lemma Raw_update_same: "Raw v = r \<Longrightarrow> v\<lparr>Raw := r\<rparr> = v"
  by (cases v) simp

lemma sync_root:
  assumes "segs \<noteq> []" and "node_at segs (root t) \<noteq> None"
  shows "root (snd (syncEntryCount segs tab t)) = write_counter segs (length (used_instances tab)) (root t)"
proof -
  from assms(1) have segs: "segs = butlast segs @ [last segs]" by simp
  obtain parent where parent: "node_at (butlast segs) (root t) = Some parent" "\<not> isLeaf parent"
    using assms(2) by (subst (asm) (1) segs) (auto simp: node_at_append split: option.splits if_splits)
  then have at: "leaf_at (root t) (counter_path segs) =
      (case map_of (children parent) (last segs @ ''NumberOfEntries'') of None \<Rightarrow> None | Some c \<Rightarrow> leaf c)"
    by (simp add: counter_path_def leaf_at_def node_at_append split: option.split)
  show ?thesis
  proof (cases "leaf_at (root t) (counter_path segs)")
    case None
    with at parent show ?thesis
      by (auto simp: syncEntryCount_def write_counter_def Let_def split: option.splits)
  next
    case (Some old)
    with at obtain c where c: "map_of (children parent) (last segs @ ''NumberOfEntries'') = Some c"
      "leaf c = Some old" by (auto split: option.splits)
    show ?thesis
      using parent c Some assms(1) put_leaf_same [OF Some]
      by (auto simp: syncEntryCount_def write_counter_def Let_def Raw_update_same put_leaf_def
          counter_path_def)
  qed
qed

lemma sync_observers [simp]:
  "obs_fns (snd (syncEntryCount segs tab t)) = obs_fns t"
  "obs_next (snd (syncEntryCount segs tab t)) = obs_next t"
  "delivered (snd (syncEntryCount segs tab t)) = delivered t"
  by (auto simp: syncEntryCount_def Let_def split: sum.split option.split)

lemma sync_root_Nil [simp]: "syncEntryCount [] tab t = (None, t)"
  by (simp add: syncEntryCount_def)

definition counter_honest :: "string list \<Rightarrow> Node \<Rightarrow> bool" where
  "counter_honest segs r \<longleftrightarrow>
     (case (leaf_at r (counter_path segs), node_at segs r) of
        (Some v, Some tab) \<Rightarrow> Raw v = Itoa (int (length (used_instances tab)))
      | _ \<Rightarrow> True)"

lemma node_at_update_apart:
  "\<not> prefix p q \<Longrightarrow> \<not> prefix q p \<Longrightarrow> node_at q (update_at p f n) = node_at q n"
proof (induction p f n arbitrary: q rule: update_at.induct)
  case (2 s ss f n)
  then obtain x xs where "q = x # xs" by (cases q) auto
  with 2 show ?case by (auto split: option.split)
qed simp

lemma write_counter_node:
  "segs \<noteq> [] \<Longrightarrow> node_at segs (write_counter segs k r) = node_at segs r"
  using counter_path_apart [of segs]
  by (auto simp: write_counter_def put_leaf_def node_at_update_apart split: option.split)

lemma write_counter_honest:
  assumes "segs \<noteq> []" and "node_at segs r = Some tab"
  shows "counter_honest segs (write_counter segs (length (used_instances tab)) r)"
  using assms write_counter_node [OF assms(1)]
  by (auto simp: counter_honest_def write_counter_def leaves.get_put split: option.split)

lemma write_counter_other:
  "q \<noteq> counter_path segs \<Longrightarrow> leaf_at (write_counter segs k r) q = leaf_at r q"
  by (simp add: write_counter_def leaves.get_put_other split: option.split)

section \<open>The effect of the table operations\<close>

definition table_root :: "string list \<Rightarrow> Node \<Rightarrow> Node \<Rightarrow> Node" where
  "table_root segs n' r =
     (let r' = update_at segs (\<lambda>_. n') r
      in if segs = [] then r' else write_counter segs (length (used_instances n')) r')"

lemma notify_opt_root [simp]: "root (notify_opt c t) = root t"
  by (cases c) (simp_all add: notify_def)

lemma AddObject_Inr:
  "AddObject p t = (Inr i, t') \<Longrightarrow>
     \<exists>segs n template. parsePath p = Inr segs \<and> node_at segs (root t) = Some n
       \<and> table n = Some template \<and> i = next_free (used_instances n) 1
       \<and> root t' = table_root segs (set_child (Itoa i) (clone template) n) (root t)"
  by (auto simp: AddObject_def lookup_Inr Let_def table_root_def sync_root node_at_update_at
      split: sum.splits option.splits prod.splits
      dest!: arg_cong [where f = "\<lambda>x. root (snd x)"])

lemma DeleteObject_Inr:
  "DeleteObject p t = (Inr (), t') \<Longrightarrow>
     \<exists>segs k n. parsePath p = Inr (segs @ [k]) \<and> instance_of k \<noteq> None
       \<and> node_at segs (root t) = Some n \<and> table n \<noteq> None \<and> map_of (children n) k \<noteq> None
       \<and> root t' = table_root segs (del_child k n) (root t)"
proof -
  assume del: "DeleteObject p t = (Inr (), t')"
  then obtain ss where ss: "parsePath p = Inr ss" "ss \<noteq> []"
    by (cases "parsePath p") (auto simp: DeleteObject_def split: if_splits)
  then obtain segs k where sk: "ss = segs @ [k]" by (metis rev_exhaust)
  from del ss sk show ?thesis
    by (auto simp: DeleteObject_def lookup_Inr Let_def table_root_def sync_root node_at_update_at
        case_prod_unfold notify_def split: sum.splits option.splits if_splits)
qed

lemma DeleteObject_ok:
  assumes "parsePath p = Inr (segs @ [k])" and "instance_of k \<noteq> None"
    and "node_at segs (root t) = Some n" and "table n \<noteq> None" and "map_of (children n) k \<noteq> None"
  shows "fst (DeleteObject p t) = Inr ()"
  using assms by (simp add: DeleteObject_def Let_def split: prod.split)

lemma children_set_child [simp]: "children (set_child k c n) = AList.update k c (children n)"
  and leaf_set_child [simp]: "leaf (set_child k c n) = leaf n"
  and table_set_child [simp]: "table (set_child k c n) = table n"
  and isLeaf_set_child [simp]: "isLeaf (set_child k c n) = isLeaf n"
  by (simp_all add: set_child_def)

lemma children_del_child [simp]: "children (del_child k n) = AList.delete k (children n)"
  and leaf_del_child [simp]: "leaf (del_child k n) = leaf n"
  and table_del_child [simp]: "table (del_child k n) = table n"
  and isLeaf_del_child [simp]: "isLeaf (del_child k n) = isLeaf n"
  by (simp_all add: del_child_def)

lemma del_set_child: "map_of (children n) k = None \<Longrightarrow> del_child k (set_child k c n) = n"
  by (simp add: del_child_def set_child_def delete_update_fresh map_of_eq_None_iff)

lemma fresh_instance_free:
  assumes "length (children n) < 2 ^ 62"
  shows "map_of (children n) (Itoa (next_free (used_instances n) 1)) = None"
    and "instance_of (Itoa (next_free (used_instances n) 1)) = Some (next_free (used_instances n) 1)"
proof -
  define i where "i = next_free (used_instances n) 1"
  have i: "1 \<le> i" "i \<notin> set (used_instances n)"
    using next_free_props [of "used_instances n" 1] by (simp_all add: i_def)
  have "i \<le> int (length (children n)) + 1"
    using next_free_bound [of "used_instances n"] length_used_instances [of n]
    unfolding i_def by linarith
  then have "nat i < 2 ^ 63" using assms i by simp
  moreover have "Itoa i = show_nat (nat i)" using i by (simp add: Itoa_def)
  ultimately have inst: "instance_of (Itoa i) = Some i" using i by simp
  then show "instance_of (Itoa (next_free (used_instances n) 1)) = Some (next_free (used_instances n) 1)"
    by (simp add: i_def)
  show "map_of (children n) (Itoa (next_free (used_instances n) 1)) = None"
    using inst i(2) unfolding i_def map_of_eq_None_iff by (auto simp: used_instances_iff)
qed

lemma table_root_node:
  "node_at segs r = Some n \<Longrightarrow> node_at segs (table_root segs n' r) = Some n'"
  by (simp add: table_root_def Let_def write_counter_node node_at_update_at)

lemma table_root_other:
  assumes "node_at segs r = Some n" and "\<not> prefix segs q" and "q \<noteq> counter_path segs"
  shows "leaf_at (table_root segs n' r) q = leaf_at r q"
proof -
  have "leaf_at (update_at segs (\<lambda>_. n') r) q = leaf_at r q"
    using assms(2) by (simp add: leaf_at_obs obs_at_outside)
  with assms show ?thesis by (auto simp: table_root_def Let_def write_counter_other)
qed

lemma counter_below: "q = counter_path segs \<Longrightarrow> prefix segs q \<Longrightarrow> segs = []"
  using counter_path_apart(2) by blast

lemma table_root_below:
  assumes "node_at segs r = Some n"
  shows "leaf_at (table_root segs n' r) (segs @ q) = leaf_at n' q"
  using table_root_node [OF assms, of n'] by (simp add: leaf_at_def node_at_append)

lemma leaf_at_set_child:
  "\<not> isLeaf n \<Longrightarrow> leaf_at (set_child k c n) (x # xs) = (if x = k then leaf_at c xs else leaf_at n (x # xs))"
  by (simp add: leaf_at_def split: option.split)

lemma leaf_at_del_child:
  "\<not> isLeaf n \<Longrightarrow> leaf_at (del_child k n) (x # xs) = (if x = k then None else leaf_at n (x # xs))"
  by (simp add: leaf_at_def split: option.split)

lemma leaf_at_Nil [simp]: "leaf_at n [] = leaf n"
  by (simp add: leaf_at_def)

lemma update_at_write_counter:
  assumes "segs \<noteq> []"
  shows "update_at segs f (write_counter segs k r) = write_counter segs k (update_at segs f r)"
proof -
  have "leaf_at (update_at segs f r) (counter_path segs) = leaf_at r (counter_path segs)"
    using counter_path_apart [OF assms] by (simp add: leaf_at_obs obs_at_outside)
  then show ?thesis
    using counter_path_apart [OF assms]
    by (auto simp: write_counter_def put_leaf_def update_at_commute split: option.split)
qed

lemma put_leaf_put_leaf: "put_leaf p v (put_leaf p w n) = put_leaf p v n"
proof (cases "leaf_at n p")
  case (Some x)
  have "set_leaf (Some v) \<circ> set_leaf (Some w) = set_leaf (Some v)"
    by (rule ext, rename_tac m, case_tac m) simp
  with Some leaves.get_put [of n p w] show ?thesis
    by (simp add: put_leaf_def update_at_update_at)
qed (simp add: put_leaf_def)

lemma write_counter_write_counter:
  "write_counter segs k (write_counter segs k' r) = write_counter segs k r"
  by (auto simp: write_counter_def leaves.get_put put_leaf_put_leaf split: option.split)

lemma write_counter_same:
  "counter_honest segs r \<Longrightarrow> node_at segs r = Some n \<Longrightarrow>
     write_counter segs (length (used_instances n)) r = r"
  by (auto simp: counter_honest_def write_counter_def Raw_update_same put_leaf_same split: option.splits)

lemma update_at_restore:
  "node_at p r = Some n \<Longrightarrow> update_at p (\<lambda>_. n) (update_at p (\<lambda>_. n') r) = r"
  by (simp add: update_at_update_at comp_def update_at_id)

section \<open>The table operations keep the invariant of the nodes\<close>

lemma fst_clone_children [simp]: "fst \<circ> (\<lambda>(k, c). (k, f c)) = fst"
  by auto

lemma wf_clone [simp]: "wf_node (clone n) = wf_node n"
  by (induction n rule: clone.induct) (auto split: option.splits)

lemma typed_clone [simp]: "typed_node (clone n) = typed_node n"
  by (induction n rule: clone.induct) (auto split: option.splits)

lemma leaf_clone [simp]: "leaf (clone n) = leaf n"
  by (cases n) simp

lemma isLeaf_clone [simp]: "isLeaf (clone n) = isLeaf n"
  by (simp add: isLeaf_def)

lemma map_of_map_snd: "map_of (map (\<lambda>(k, c). (k, f c)) cs) k = map_option f (map_of cs k)"
  by (induction cs) auto

lemma children_clone: "map_of (children (clone n)) k = map_option clone (map_of (children n) k)"
  by (cases n) (simp add: map_of_map_snd)

lemma node_at_clone: "node_at p (clone n) = map_option clone (node_at p n)"
  by (induction p n rule: node_at.induct) (auto simp: children_clone split: option.split)

lemma leaf_at_clone [simp]: "leaf_at (clone n) p = leaf_at n p"
  by (simp add: leaf_at_def node_at_clone split: option.split)

lemma wf_set_child:
  assumes "wf_node n" and "\<not> isLeaf n" and "valid_segs [k]" and "wf_node c"
  shows "wf_node (set_child k c n)"
  using assms set_update_subset [of k c "children n"]
  by (auto simp: wf_node_iff [of "set_child k c n"] wf_node_iff [of n] distinct_update)

lemma wf_del_child: "wf_node n \<Longrightarrow> wf_node (del_child k n)"
  using set_delete_subset [of k "children n"]
  by (auto simp: wf_node_iff [of "del_child k n"] wf_node_iff [of n] distinct_delete)

lemma typed_set_child: "typed_node n \<Longrightarrow> typed_node c \<Longrightarrow> typed_node (set_child k c n)"
  using set_update_subset [of k c "children n"]
  by (auto simp: typed_node_iff [of "set_child k c n"] typed_node_iff [of n])

lemma typed_del_child: "typed_node n \<Longrightarrow> typed_node (del_child k n)"
  using set_delete_subset [of k "children n"]
  by (auto simp: typed_node_iff [of "del_child k n"] typed_node_iff [of n])

lemma wf_write_counter: "wf_node r \<Longrightarrow> wf_node (write_counter segs k r)"
  by (simp add: write_counter_def wf_put_leaf split: option.split)

lemma wf_table_root: "wf_node r \<Longrightarrow> wf_node n' \<Longrightarrow> wf_node (table_root segs n' r)"
  by (simp add: table_root_def Let_def wf_write_counter wf_update_at)

lemma wf_table: "wf_node n \<Longrightarrow> table n = Some tn \<Longrightarrow> wf_node tn \<and> \<not> isLeaf n"
  by (auto simp: wf_node_iff [of n])

lemma wf_AddObject: "wf_node (root t) \<Longrightarrow> wf_node (root (snd (AddObject p t)))"
proof (cases "AddObject p t")
  case (Pair r t')
  assume wf: "wf_node (root t)"
  show ?thesis
  proof (cases r)
    case (Inl e)
    with Pair show ?thesis
      using wf by (auto simp: AddObject_def Let_def split: sum.splits option.splits prod.splits)
  next
    case (Inr i)
    from AddObject_Inr [of p t i t'] Pair Inr obtain segs n template
      where n: "node_at segs (root t) = Some n" "table n = Some template"
        and i: "i = next_free (used_instances n) 1"
        and t': "root t' = table_root segs (set_child (Itoa i) (clone template) n) (root t)"
      by auto
    have wfn: "wf_node n" using wf n by (blast intro: wf_node_at)
    have "0 < i" using i next_free_props [of "used_instances n" 1] by simp
    then have "valid_segs [Itoa i]" by (simp add: Itoa_def show_nat_segment)
    then show ?thesis
      using Pair t' wf wfn wf_table [OF wfn n(2)] by (simp add: wf_table_root wf_set_child)
  qed
qed

lemma wf_DeleteObject: "wf_node (root t) \<Longrightarrow> wf_node (root (snd (DeleteObject p t)))"
proof (cases "DeleteObject p t")
  case (Pair r t')
  assume wf: "wf_node (root t)"
  show ?thesis
  proof (cases r)
    case (Inl e)
    with Pair show ?thesis
      using wf by (auto simp: DeleteObject_def Let_def split: sum.splits option.splits prod.splits if_splits)
  next
    case (Inr u)
    with DeleteObject_Inr [of p t t'] Pair wf show ?thesis
      by (auto intro!: wf_table_root wf_del_child intro: wf_node_at)
  qed
qed

section \<open>Properties\<close>

text \<open>C11: \<^verbatim>\<open>AddObject\<close> on a table allocates the smallest positive instance number no child has,
  never overwrites an existing child, puts a copy of the template there, and changes no leaf
  elsewhere except the entry counter of that table.\<close>

theorem AddObject_allocates:
  assumes "AddObject p t = (Inr i, t')" and "parsePath p = Inr segs"
    and "node_at segs (root t) = Some n" and "wf_node (root t)" and "length (children n) < 2 ^ 62"
  shows "0 < i \<and> (\<forall>j. 0 < j \<and> j < i \<longrightarrow> j \<in> set (used_instances n))
    \<and> node_at (segs @ [Itoa i]) (root t) = None
    \<and> (\<exists>template. table n = Some template
         \<and> node_at (segs @ [Itoa i]) (root t') = Some (clone template))
    \<and> (\<forall>q. \<not> prefix (segs @ [Itoa i]) q \<and> q \<noteq> counter_path segs
         \<longrightarrow> leaf_at (root t') q = leaf_at (root t) q)"
proof -
  from AddObject_Inr [OF assms(1)] assms(2,3) obtain template
    where tab: "table n = Some template" and i: "i = next_free (used_instances n) 1"
      and t': "root t' = table_root segs (set_child (Itoa i) (clone template) n) (root t)"
    by auto
  have nl: "\<not> isLeaf n"
    using wf_node_at [OF assms(4,3)] tab by (auto simp: wf_node_iff [of n])
  have free: "map_of (children n) (Itoa i) = None"
    using fresh_instance_free(1) [OF assms(5)] i by simp
  have "leaf_at (root t') q = leaf_at (root t) q"
    if q: "\<not> prefix (segs @ [Itoa i]) q" "q \<noteq> counter_path segs" for q
  proof (cases "prefix segs q")
    case True
    then obtain r where r: "q = segs @ r" by (auto simp: prefix_def)
    have "leaf_at (set_child (Itoa i) (clone template) n) r = leaf_at n r"
      using q(1) nl r by (cases r) (auto simp: leaf_at_set_child)
    with r t' show ?thesis
      by (simp add: table_root_below [OF assms(3)] leaf_at_append [OF assms(3)])
  next
    case False
    with q t' assms(3) show ?thesis by (simp add: table_root_other)
  qed
  then show ?thesis
    using next_free_props [of "used_instances n" 1] i tab free nl t' assms(3)
    by (auto simp: node_at_append table_root_node)
qed

text \<open>After every successful \<^verbatim>\<open>AddObject\<close> the table's \<^verbatim>\<open>NumberOfEntries\<close> leaf, when the
  profile declares one, holds the number of instances of the table.\<close>

theorem AddObject_counter_honest:
  assumes "AddObject p t = (Inr i, t')" and "parsePath p = Inr segs" and "segs \<noteq> []"
  shows "counter_honest segs (root t')"
  using AddObject_Inr [OF assms(1)] assms(2,3)
  by (auto simp: table_root_def Let_def node_at_update_at intro!: write_counter_honest)

lemma DeleteObject_frame:
  assumes "DeleteObject p t = (Inr (), t')" and "parsePath p = Inr (segs @ [k])" and "wf_node (root t)"
    and q: "\<not> prefix (segs @ [k]) q" "q \<noteq> counter_path segs"
  shows "leaf_at (root t') q = leaf_at (root t) q"
proof -
  from DeleteObject_Inr [OF assms(1)] assms(2) obtain n
    where n: "node_at segs (root t) = Some n" "table n \<noteq> None"
      and t': "root t' = table_root segs (del_child k n) (root t)"
    by auto
  have nl: "\<not> isLeaf n"
    using wf_node_at [OF assms(3) n(1)] n(2) by (auto simp: wf_node_iff [of n])
  show ?thesis
  proof (cases "prefix segs q")
    case True
    then obtain r where r: "q = segs @ r" by (auto simp: prefix_def)
    have "leaf_at (del_child k n) r = leaf_at n r"
      using q(1) nl r by (cases r) (auto simp: leaf_at_del_child)
    with r t' n show ?thesis
      by (simp add: table_root_below [OF n(1)] leaf_at_append [OF n(1)])
  next
    case False
    with q t' n show ?thesis by (simp add: table_root_other)
  qed
qed

text \<open>After every successful \<^verbatim>\<open>DeleteObject\<close> the instance is gone, the counter of its table is
  honest, and no leaf outside the instance and the counter has changed.\<close>

theorem DeleteObject_removes:
  assumes "DeleteObject p t = (Inr (), t')" and "parsePath p = Inr (segs @ [k])"
    and "wf_node (root t)" and "segs \<noteq> []"
  shows "counter_honest segs (root t') \<and> node_at (segs @ [k]) (root t') = None
    \<and> (\<forall>q. \<not> prefix (segs @ [k]) q \<and> q \<noteq> counter_path segs
         \<longrightarrow> leaf_at (root t') q = leaf_at (root t) q)"
proof -
  from DeleteObject_Inr [OF assms(1)] assms(2) obtain n
    where n: "node_at segs (root t) = Some n" and t': "root t' = table_root segs (del_child k n) (root t)"
    by auto
  have "counter_honest segs (root t')"
    using t' n assms(4) by (auto simp: table_root_def Let_def node_at_update_at intro!: write_counter_honest)
  moreover have "node_at (segs @ [k]) (root t') = None"
    using t' n by (simp add: node_at_append table_root_node)
  ultimately show ?thesis using DeleteObject_frame [OF assms(1-3)] by blast
qed


lemma add_table_at_fresh: "fst (add_table_at path tmpl segs NewBranch) = Inr ()"
  by (induction segs) (auto simp: Let_def case_prod_unfold)

lemma add_table_at_fails_same:
  "add_table_at path tmpl segs n = (Inl e, n') \<Longrightarrow> n' = n"
proof (induction path tmpl segs n arbitrary: n' rule: add_table_at.induct)
  case (2 path tmpl seg rest parent)
  show ?case
  proof (cases "isLeaf parent \<or> map_of (children parent) seg = None")
    case True
    then show ?thesis
      using 2(2) add_table_at_fresh [of path tmpl rest]
      by (auto simp: Let_def case_prod_unfold split: if_splits)
  next
    case False
    then obtain c where "map_of (children parent) seg = Some c" "\<not> isLeaf parent" by auto
    with 2 show ?thesis
      by (auto simp: Let_def set_child_def update_same split: prod.splits)
  qed
qed (auto split: if_splits)

lemma AddTable_fails_same: "is_err (fst (AddTable p tmpl t)) \<Longrightarrow> snd (AddTable p tmpl t) = t"
  by (auto simp: AddTable_def is_err_def split: sum.splits option.splits prod.splits if_splits
      dest!: add_table_at_fails_same)

text \<open>A failing \<^verbatim>\<open>AddObject\<close>, \<^verbatim>\<open>DeleteObject\<close> or \<^verbatim>\<open>AddTable\<close> leaves the tree as it was,
  although \<^verbatim>\<open>AddTable\<close> creates missing interior nodes on its way down.\<close>

theorem table_operations_atomic:
  "(is_err (fst (AddObject p t)) \<longrightarrow> snd (AddObject p t) = t)
   \<and> (is_err (fst (DeleteObject p t)) \<longrightarrow> snd (DeleteObject p t) = t)
   \<and> (is_err (fst (AddTable p tmpl t)) \<longrightarrow> snd (AddTable p tmpl t) = t)"
  by (auto simp: AddObject_def DeleteObject_def Let_def AddTable_fails_same
      split: sum.split option.split prod.split)

section \<open>Witnesses\<close>

definition pool_tree :: Tree where
  "pool_tree = New\<lparr>root :=
     Node [(''Host'', Node [(''1'', Node [(''Name'', NewLeaf port_8080)] None None None)] None None
                        (Some (Node [(''Name'', NewLeaf port_8080)] None None None))),
           (''HostNumberOfEntries'', NewLeaf \<lparr>VType = TypeUnsignedInt, Raw = ''1'', Writable = False\<rparr>)]
       None None None\<rparr>"

lemmas table_eval = tree_eval AddObject_def DeleteObject_def syncEntryCount_def used_instances_def
  instance_of_def Atoi_def ParseInt_def map_filter_simps NewLeaf_def New_def set_child_def del_child_def
  pool_tree_def next_free.simps show_nat.simps digit_char_def

lemma Itoa_small: "Itoa 0 = ''0''" "Itoa 1 = ''1''" "Itoa 2 = ''2''"
  by code_simp+

definition pool_added :: Tree where
  "pool_added = snd (AddObject ''Host.'' pool_tree)"

lemma pool_add: "AddObject ''Host.'' pool_tree = (Inr 2, pool_added)"
  unfolding pool_added_def by (simp add: table_eval Itoa_def)

lemma pool_facts:
  "parsePath ''Host.'' = Inr [''Host'']"
  "node_at [''Host''] (root pool_tree) =
     Some (Node [(''1'', Node [(''Name'', NewLeaf port_8080)] None None None)] None None
            (Some (Node [(''Name'', NewLeaf port_8080)] None None None)))"
  "wf_node (root pool_tree)"
  by (simp_all add: table_eval isSegmentChar_def less_eq_char_def)

lemma pool_honest: "counter_honest [''Host''] (root pool_tree)"
  by (simp add: table_eval counter_honest_def counter_path_def leaf_at_def Itoa_small [simplified])

theorem AddObject_allocates_witness:
  "node_at [''Host'', ''2''] (root pool_added) = Some (Node [(''Name'', NewLeaf port_8080)] None None None)
   \<and> node_at [''Host'', ''2''] (root pool_tree) = None"
  using AddObject_allocates [OF pool_add pool_facts]
  by (simp del: node_at.simps add: Itoa_small NewLeaf_def)

theorem AddObject_counter_honest_witness: "counter_honest [''Host''] (root pool_added)"
  using AddObject_counter_honest [OF pool_add pool_facts(1)] by simp

lemma pool_delete: "DeleteObject ''Host.1.'' pool_tree = (Inr (), snd (DeleteObject ''Host.1.'' pool_tree))"
  by (simp add: table_eval Itoa_def)

theorem DeleteObject_removes_witness:
  "counter_honest [''Host''] (root (snd (DeleteObject ''Host.1.'' pool_tree)))"
  using DeleteObject_removes [OF pool_delete, of "[''Host'']" "''1''"] pool_facts(3)
  by (simp add: table_eval)


theorem table_operations_atomic_witness:
  "is_err (fst (AddObject ''Host.1'' pool_tree)) \<and> snd (AddObject ''Host.1'' pool_tree) = pool_tree
   \<and> snd (DeleteObject ''Host.7'' pool_tree) = pool_tree
   \<and> snd (AddTable ''Host.1.Name.X'' (Some NewBranch) pool_tree) = pool_tree"
proof -
  have a: "is_err (fst (AddObject ''Host.1'' pool_tree))" by (simp add: table_eval)
  have b: "is_err (fst (DeleteObject ''Host.7'' pool_tree))" by (simp add: table_eval)
  have c: "is_err (fst (AddTable ''Host.1.Name.X'' (Some NewBranch) pool_tree))"
    by (simp add: table_eval AddTable_def)
  from a b c show ?thesis
    using table_operations_atomic [of "''Host.1''" pool_tree]
      table_operations_atomic [of "''Host.7''" pool_tree]
      table_operations_atomic [of "''Host.1.Name.X''" pool_tree "Some NewBranch"] by blast
qed

end
