(* ===== verification/ParamGraft.thy ===== *)
theory ParamGraft
  imports ParamTables "HOL-Library.Multiset"
begin

text \<open>
  Joining a software module's data model to a running tree and taking it out again:
  \<^verbatim>\<open>Graft\<close> and \<^verbatim>\<open>Unmount\<close> of \<^verbatim>\<open>src/internal/paramtree/graft.go\<close>.  A graft point keeps the
  segment path of the new node; the parent pointer the source keeps is the path without its
  last segment.
\<close>

section \<open>Operations\<close>

type_synonym graftPoint = "string list \<times> Node"

fun collect :: "Node \<Rightarrow> Node \<Rightarrow> string list \<Rightarrow> goerr + graftPoint list"
  and collect_children ::
    "Node \<Rightarrow> (string \<times> Node) list \<Rightarrow> string list \<Rightarrow> goerr + graftPoint list" where
  "collect dst (Node cs l a t) pre = collect_children dst cs pre"
| "collect_children dst [] pre = Inr []"
| "collect_children dst ((name, child) # cs) pre =
     (let path = pre @ [name];
          here = (case map_of (children dst) name of
                    None \<Rightarrow> Inr [(path, child)]
                  | Some existing \<Rightarrow>
                      if isLeaf existing \<or> isLeaf child then
                        Inl (Errorf ''path %q already exists'' [ArgS (joinPath path)])
                      else collect existing child path)
      in case here of
           Inl e \<Rightarrow> Inl e
         | Inr ps \<Rightarrow>
             (case collect_children dst cs pre of Inl e \<Rightarrow> Inl e | Inr qs \<Rightarrow> Inr (ps @ qs)))"

definition attach :: "graftPoint \<Rightarrow> Node \<Rightarrow> Node" where
  "attach pt r = update_at (butlast (fst pt)) (set_child (last (fst pt)) (clone (snd pt))) r"

definition graft_root :: "graftPoint \<Rightarrow> string" where
  "graft_root pt =
     (if isLeaf (clone (snd pt)) then joinPath (fst pt) else joinPath (fst pt) @ ''.'')"

definition graft_change :: "graftPoint \<Rightarrow> Change" where
  "graft_change pt =
     (case leaf (clone (snd pt)) of
        Some v \<Rightarrow> \<lparr>ch_Path = joinPath (fst pt), ch_Old = zero_Value, ch_New = v, ch_Kind = ChangeValue\<rparr>
      | None \<Rightarrow> \<lparr>ch_Path = joinPath (fst pt) @ ''.'', ch_Old = zero_Value, ch_New = zero_Value,
                ch_Kind = ChangeObjectCreated\<rparr>)"

definition Graft :: "Tree option \<Rightarrow> Tree \<Rightarrow> (goerr + string list) \<times> Tree" where
  "Graft other t =
     (case other of
        None \<Rightarrow> (Inl (Wrap ''paramtree.Graft'' KindInvalidArgument (Some (Errorf ''nil tree'' []))), t)
      | Some o' \<Rightarrow>
          (case collect (root t) (root o') [] of
             Inl e \<Rightarrow> (Inl (Wrap ''paramtree.Graft'' KindInvalidArgument (Some e)), t)
           | Inr ps \<Rightarrow>
               (let points = sort_key (joinPath \<circ> fst) ps;
                    t' = t\<lparr>root := fold attach points (root t)\<rparr>;
                    t'' = (if hasObservers t' then fold notify (map graft_change points) t' else t')
                in (Inr (map graft_root points), t''))))"

definition Unmount :: "string \<Rightarrow> Tree \<Rightarrow> (goerr + unit) \<times> Tree" where
  "Unmount path t =
     (case parsePath path of
        Inl e \<Rightarrow> (Inl e, t)
      | Inr segments \<Rightarrow>
          if length segments = 0 then
            (Inl (Wrap ''paramtree.Unmount'' KindInvalidArgument
                   (Some (Errorf ''cannot unmount root'' []))), t)
          else
            (case lookup (butlast segments) (root t) of
               Inl e \<Rightarrow> (Inl (Wrap ''paramtree.Unmount'' KindNotFound (Some e)), t)
             | Inr parent \<Rightarrow>
                 if isLeaf parent then
                   (Inl (Wrap ''paramtree.Unmount'' KindInvalidArgument
                      (Some (Errorf ''path %q traverses a leaf'' [ArgS path]))), t)
                 else
                   (case map_of (children parent) (last segments) of
                      None \<Rightarrow> (Inl (Wrap ''paramtree.Unmount'' KindNotFound
                                 (Some (Errorf ''path %q not found'' [ArgS path]))), t)
                    | Some n \<Rightarrow>
                        if table parent \<noteq> None \<and> instance_of (last segments) \<noteq> None then
                          (Inl (Wrap ''paramtree.Unmount'' KindInvalidArgument
                             (Some (Errorf ''path %q is a table instance; use DeleteObject''
                                [ArgS path]))), t)
                        else
                          (let t' = t\<lparr>root := update_at (butlast segments)
                                         (\<lambda>_. del_child (last segments) parent) (root t)\<rparr>;
                               deleted =
                                 (if \<not> isLeaf n \<and> hasObservers t'
                                  then Some \<lparr>ch_Path = joinPath segments @ ''.'',
                                             ch_Old = zero_Value, ch_New = zero_Value,
                                             ch_Kind = ChangeObjectDeleted\<rparr>
                                  else None)
                           in (Inr (), notify_opt deleted t')))))"

text \<open>Unmounting a list of paths one after the other, as the software module manager does with the
  paths a graft returned.\<close>

fun unmount_each :: "string list \<Rightarrow> Tree \<Rightarrow> (goerr + unit) list \<times> Tree" where
  "unmount_each [] t = ([], t)"
| "unmount_each (r # rs) t =
     (let (res, t') = Unmount r t; (ress, t'') = unmount_each rs t' in (res # ress, t''))"

section \<open>Graft points\<close>

definition graft_point :: "Node \<Rightarrow> Node \<Rightarrow> string list \<Rightarrow> Node \<Rightarrow> bool" where
  "graft_point dst src p c \<longleftrightarrow>
     p \<noteq> [] \<and> node_at p src = Some c \<and> node_at p dst = None \<and> node_at (butlast p) dst \<noteq> None"

text \<open>A path at which the two trees cannot be merged: both have a node there and one is a leaf.\<close>

definition conflict_at :: "Node \<Rightarrow> Node \<Rightarrow> string list \<Rightarrow> bool" where
  "conflict_at dst src p \<longleftrightarrow>
     p \<noteq> [] \<and> (\<exists>a b. node_at p dst = Some a \<and> node_at p src = Some b \<and> (isLeaf a \<or> isLeaf b))"

lemma graft_point_Cons:
  assumes "\<not> isLeaf dst" and "\<not> isLeaf src"
  shows "graft_point dst src (name # rest) c \<longleftrightarrow>
    (\<exists>child. map_of (children src) name = Some child \<and>
      (case map_of (children dst) name of
         None \<Rightarrow> rest = [] \<and> c = child
       | Some ex \<Rightarrow> graft_point ex child rest c))"
  using assms by (cases rest) (auto simp: graft_point_def split: option.splits)

lemma graft_point_Nil [simp]: "\<not> graft_point dst src [] c"
  by (simp add: graft_point_def)

lemma conflict_at_Cons:
  assumes "\<not> isLeaf dst" and "\<not> isLeaf src"
  shows "conflict_at dst src (name # rest) \<longleftrightarrow>
    (\<exists>child ex. map_of (children src) name = Some child \<and> map_of (children dst) name = Some ex \<and>
       (rest = [] \<and> (isLeaf child \<or> isLeaf ex) \<or> conflict_at ex child rest))"
  using assms by (cases "rest = []") (auto simp: conflict_at_def split: option.splits)

lemma conflict_at_Nil [simp]: "\<not> conflict_at dst src []"
  by (simp add: conflict_at_def)

text \<open>The points and conflicts below one list of children, the unit of the recursion.\<close>

definition child_point ::
  "Node \<Rightarrow> (string \<times> Node) list \<Rightarrow> string list \<Rightarrow> Node \<Rightarrow> bool" where
  "child_point dst cs p c \<longleftrightarrow>
     (\<exists>name rest child. p = name # rest \<and> (name, child) \<in> set cs \<and>
      (case map_of (children dst) name of
         None \<Rightarrow> rest = [] \<and> c = child
       | Some ex \<Rightarrow> graft_point ex child rest c))"

definition child_conflict :: "Node \<Rightarrow> (string \<times> Node) list \<Rightarrow> string list \<Rightarrow> bool" where
  "child_conflict dst cs p \<longleftrightarrow>
     (\<exists>name rest child ex. p = name # rest \<and> (name, child) \<in> set cs
        \<and> map_of (children dst) name = Some ex
        \<and> (rest = [] \<and> (isLeaf child \<or> isLeaf ex) \<or> conflict_at ex child rest))"

lemma wf_child: "wf_node n \<Longrightarrow> (k, c) \<in> set (children n) \<Longrightarrow> wf_node c"
  by (auto simp: wf_node_iff [of n])

lemma graft_point_child_point:
  assumes "\<not> isLeaf dst" and "\<not> isLeaf src" and "wf_node src"
  shows "graft_point dst src p c \<longleftrightarrow> child_point dst (children src) p c"
proof -
  have "distinct (map fst (children src))" using assms(3) by (simp add: wf_node_iff [of src])
  then show ?thesis
    using assms(1,2) by (cases p) (auto simp: graft_point_Cons child_point_def map_of_eq_Some_iff)
qed

lemma conflict_child_conflict:
  assumes "\<not> isLeaf dst" and "\<not> isLeaf src" and "wf_node src"
  shows "conflict_at dst src p \<longleftrightarrow> child_conflict dst (children src) p"
proof -
  have "distinct (map fst (children src))" using assms(3) by (simp add: wf_node_iff [of src])
  then show ?thesis
    using assms(1,2) by (cases p) (auto simp: conflict_at_Cons child_conflict_def map_of_eq_Some_iff)
qed

lemma child_point_Cons:
  "child_point dst ((name, child) # cs) p c \<longleftrightarrow>
     child_point dst [(name, child)] p c \<or> child_point dst cs p c"
  by (auto simp: child_point_def)

lemma child_conflict_Cons:
  "child_conflict dst ((name, child) # cs) p \<longleftrightarrow>
     child_conflict dst [(name, child)] p \<or> child_conflict dst cs p"
  by (auto simp: child_conflict_def)

lemma child_point_head: "child_point dst cs p c \<Longrightarrow> p \<noteq> [] \<and> hd p \<in> fst ` set cs"
  by (force simp: child_point_def)

lemma collect_ok:
  "\<not> isLeaf dst \<Longrightarrow> \<not> isLeaf src \<Longrightarrow> wf_node src \<Longrightarrow>
     (case collect dst src pre of
        Inl e \<Rightarrow> \<exists>p. conflict_at dst src p
      | Inr ps \<Rightarrow> (\<forall>p. \<not> conflict_at dst src p)
          \<and> set ps = {(pre @ p, c) | p c. graft_point dst src p c} \<and> distinct (map fst ps))"
  "\<not> isLeaf dst \<Longrightarrow> distinct (map fst cs) \<Longrightarrow> \<forall>(k, c) \<in> set cs. wf_node c \<Longrightarrow>
     (case collect_children dst cs pre of
        Inl e \<Rightarrow> \<exists>p. child_conflict dst cs p
      | Inr ps \<Rightarrow> (\<forall>p. \<not> child_conflict dst cs p)
          \<and> set ps = {(pre @ p, c) | p c. child_point dst cs p c} \<and> distinct (map fst ps))"
proof (induction dst src pre and dst cs pre rule: collect_collect_children.induct)
  case (1 dst cs l a t pre)
  have "distinct (map fst cs)" "\<forall>(k, c) \<in> set cs. wf_node c" using 1(4) by auto
  with 1 show ?case
    using graft_point_child_point [OF 1(2,3,4)] conflict_child_conflict [OF 1(2,3,4)]
    by (simp split: sum.splits)
next
  case (2 dst pre)
  then show ?case by (simp add: child_conflict_def child_point_def)
next
  case (3 dst name child cs pre)
  define here where "here =
    (case map_of (children dst) name of
       None \<Rightarrow> Inr [(pre @ [name], child)]
     | Some existing \<Rightarrow>
         if isLeaf existing \<or> isLeaf child then
           Inl (Errorf ''path %q already exists'' [ArgS (joinPath (pre @ [name]))])
         else collect existing child (pre @ [name]))"
  have head: "case here of
      Inl e \<Rightarrow> \<exists>p. child_conflict dst [(name, child)] p
    | Inr ps \<Rightarrow> (\<forall>p. \<not> child_conflict dst [(name, child)] p)
        \<and> set ps = {(pre @ p, c) | p c. child_point dst [(name, child)] p c} \<and> distinct (map fst ps)"
  proof (cases "map_of (children dst) name")
    case None
    then show ?thesis by (auto simp: here_def child_conflict_def child_point_def)
  next
    case (Some ex)
    show ?thesis
    proof (cases "isLeaf ex \<or> isLeaf child")
      case True
      with Some have "child_conflict dst [(name, child)] [name]" by (auto simp: child_conflict_def)
      with Some True show ?thesis by (auto simp: here_def)
    next
      case False
      with 3(1) [OF refl Some] 3(5) have "case collect ex child (pre @ [name]) of
          Inl e \<Rightarrow> \<exists>p. conflict_at ex child p
        | Inr ps \<Rightarrow> (\<forall>p. \<not> conflict_at ex child p)
            \<and> set ps = {((pre @ [name]) @ p, c) | p c. graft_point ex child p c}
            \<and> distinct (map fst ps)" by simp
      with Some False show ?thesis
        by (auto simp: here_def child_conflict_def child_point_def split: sum.splits)
    qed
  qed
  show ?case
  proof (cases here)
    case (Inl e)
    with head show ?thesis
      by (auto simp: here_def [symmetric] Let_def child_conflict_Cons [of dst name child cs])
  next
    case (Inr ps)
    have tail: "case collect_children dst cs pre of
        Inl e \<Rightarrow> \<exists>p. child_conflict dst cs p
      | Inr ps \<Rightarrow> (\<forall>p. \<not> child_conflict dst cs p)
          \<and> set ps = {(pre @ p, c) | p c. child_point dst cs p c} \<and> distinct (map fst ps)"
      using 3(2) [OF refl here_def Inr] 3(3,4,5) by simp
    have apart: "p \<noteq> q" if "child_point dst [(name, child)] p c" "child_point dst cs q c'" for p q c c'
      using child_point_head [OF that(1)] child_point_head [OF that(2)] 3(4) by auto
    show ?thesis
    proof (cases "collect_children dst cs pre")
      case Inl': (Inl e)
      with tail Inr show ?thesis
        by (auto simp: here_def [symmetric] Let_def child_conflict_Cons [of dst name child cs])
    next
      case Inr': (Inr qs)
      have "fst ` set ps \<inter> fst ` set qs = {}"
        using head tail Inr Inr' apart by auto
      moreover have "set (ps @ qs) = {(pre @ p, c) | p c. child_point dst ((name, child) # cs) p c}"
        using head tail Inr Inr' by (auto simp: child_point_Cons [of dst name child cs])
      ultimately show ?thesis
        using head tail Inr Inr'
        by (auto simp: here_def [symmetric] Let_def child_conflict_Cons [of dst name child cs])
    qed
  qed
qed


section \<open>Attaching the points\<close>

lemma obs_at_append: "node_at p n = Some m \<Longrightarrow> obs_at (p @ q) n = obs_at q m"
  by (simp add: obs_at_def node_at_append)

lemma obs_at_set_child:
  "\<not> isLeaf m \<Longrightarrow> obs_at r (set_child k c m) =
     (case r of x # xs \<Rightarrow> if x = k then obs_at xs c else obs_at r m | [] \<Rightarrow> obs_at r m)"
  by (cases r) (auto simp: obs_at_def set_child_def split: option.split)

lemma snoc_butlast: "p \<noteq> [] \<Longrightarrow> butlast p @ [last p] = p"
  by simp

lemma obs_at_attach:
  assumes "p \<noteq> []" and "node_at (butlast p) n = Some m" and "\<not> isLeaf m"
  shows "obs_at q (attach (p, c) n) = (if prefix p q then obs_at (drop (length p) q) (clone c) else obs_at q n)"
proof (cases "prefix (butlast p) q")
  case True
  then obtain r where r: "q = butlast p @ r" by (auto simp: prefix_def)
  have at: "node_at (butlast p) (attach (p, c) n) = Some (set_child (last p) (clone c) m)"
    using assms by (simp add: attach_def node_at_update_at)
  have p: "p = butlast p @ [last p]" using assms(1) by simp
  have pre: "prefix p q \<longleftrightarrow> r \<noteq> [] \<and> hd r = last p"
    by (subst p) (auto simp: r prefix_def neq_Nil_conv)
  have len: "length p = Suc (length (butlast p))" using assms(1) by simp
  have "obs_at q (attach (p, c) n) = obs_at r (set_child (last p) (clone c) m)"
    using at by (simp add: r obs_at_append)
  also have "\<dots> = (if prefix p q then obs_at (drop (length p) q) (clone c) else obs_at q n)"
    using assms(2,3) pre len r obs_at_append [OF assms(2), of r]
    by (cases r) (auto simp: obs_at_set_child)
  finally show ?thesis .
next
  case False
  then have "\<not> prefix p q" by (metis prefix_order.trans prefixeq_butlast)
  with False show ?thesis by (simp add: attach_def obs_at_outside)
qed

text \<open>What makes a list of points safe to attach in any order: every parent is an object of the
  tree, no point is occupied, and no two points share a path.\<close>

definition attachable :: "Node \<Rightarrow> graftPoint list \<Rightarrow> bool" where
  "attachable n ps \<longleftrightarrow>
     distinct (map fst ps) \<and> (\<forall>(p, c) \<in> set ps. p \<noteq> [] \<and> obs_at p n = None
        \<and> (\<exists>a t. obs_at (butlast p) n = Some (None, a, t)))"

lemma obs_at_prefix_None: "prefix p q \<Longrightarrow> obs_at p n = None \<Longrightarrow> obs_at q n = None"
  by (auto simp: prefix_def obs_at_def node_at_append)

lemma attachable_apart:
  assumes "attachable n ps" and "(p, c) \<in> set ps" and "(q, d) \<in> set ps"
  shows "\<not> prefix p (butlast q)"
  using assms obs_at_prefix_None [of p "butlast q" n] by (fastforce simp: attachable_def)

lemma prefix_not_butlast: "prefix p q \<Longrightarrow> \<not> prefix p (butlast q) \<Longrightarrow> p = q"
  by (metis butlast.simps(1) butlast_append butlast_snoc prefix_def prefix_order.refl
      append_Nil2 append_butlast_last_id prefix_snoc)

lemma obs_at_branch:
  "obs_at p n = Some (None, a, t) \<longleftrightarrow>
     (\<exists>m. node_at p n = Some m \<and> \<not> isLeaf m \<and> attrs m = a \<and> table m = t)"
  by (auto simp: obs_at_def isLeaf_def)

lemma attachable_Cons:
  assumes "attachable n ((p, c) # ps)"
  shows "attachable (attach (p, c) n) ps"
    and "obs_at q (attach (p, c) n) = (if prefix p q then obs_at (drop (length p) q) (clone c) else obs_at q n)"
proof -
  from assms obtain m where "p \<noteq> []" "node_at (butlast p) n = Some m" "\<not> isLeaf m"
    by (auto simp: attachable_def obs_at_branch)
  note obs = obs_at_attach [OF this, of _ c]
  then show "obs_at q (attach (p, c) n) =
      (if prefix p q then obs_at (drop (length p) q) (clone c) else obs_at q n)" .
  have "\<not> prefix p q \<and> \<not> prefix p (butlast q)" if "(q, d) \<in> set ps" for q d
  proof -
    have "\<not> prefix p (butlast q)"
      using attachable_apart [OF assms, of p c q d] that by simp
    moreover have "p \<noteq> q" using assms that by (force simp: attachable_def)
    ultimately show ?thesis using prefix_not_butlast by blast
  qed
  then show "attachable (attach (p, c) n) ps"
    using assms by (fastforce simp: attachable_def obs)
qed

lemma obs_at_attach_all:
  "attachable n ps \<Longrightarrow>
     obs_at q (fold attach ps n) =
       (case find (\<lambda>(p, c). prefix p q) ps of
          Some (p, c) \<Rightarrow> obs_at (drop (length p) q) (clone c)
        | None \<Rightarrow> obs_at q n)"
proof (induction ps arbitrary: n)
  case (Cons pc ps)
  obtain p c where pc: "pc = (p, c)" by (cases pc)
  note att = attachable_Cons [OF Cons.prems [unfolded pc]]
  have "find (\<lambda>(p, c). prefix p q) ps = None" if "prefix p q"
  proof -
    have False if "(p', c') \<in> set ps" "prefix p' q" for p' c'
    proof -
      have "p \<noteq> p'" using Cons.prems pc that by (force simp: attachable_def)
      moreover have "prefix p p' \<or> prefix p' p"
        using \<open>prefix p q\<close> that(2) by (metis prefix_same_cases)
      moreover have "\<not> prefix p (butlast p')" "\<not> prefix p' (butlast p)"
        using attachable_apart [OF Cons.prems] pc that(1) by auto
      ultimately show False using prefix_not_butlast by blast
    qed
    then show ?thesis by (auto simp: find_None_iff)
  qed
  with Cons.IH [OF att(1)] show ?case
    by (cases "prefix p q") (auto simp: pc att(2) split: option.split)
qed simp


lemma find_SomeD: "find P xs = Some x \<Longrightarrow> x \<in> set xs \<and> P x"
  by (auto simp: find_Some_iff)

lemma collect_attachable:
  assumes "collect dst src [] = Inr ps" and "\<not> isLeaf dst" and "\<not> isLeaf src" and "wf_node src"
  shows "attachable dst (sort_key f ps)"
    and "set ps = {(p, c). graft_point dst src p c}"
    and "\<not> conflict_at dst src p"
proof -
  have ok: "set ps = {(p, c). graft_point dst src p c}" "distinct (map fst ps)"
    "\<forall>p. \<not> conflict_at dst src p"
    using collect_ok(1) [OF assms(2-4), of "[]"] assms(1) by auto
  have branch: "\<exists>a t. obs_at (butlast p) dst = Some (None, a, t)"
    if g: "graft_point dst src p c" for p c
  proof -
    from g obtain m where m: "node_at (butlast p) dst = Some m" by (auto simp: graft_point_def)
    from g have "node_at (butlast p @ [last p]) src = Some c" by (simp add: graft_point_def)
    then obtain b where b: "node_at (butlast p) src = Some b" "\<not> isLeaf b"
      by (auto simp: node_at_append split: option.splits if_splits)
    have "\<not> isLeaf m"
    proof (cases "butlast p = []")
      case True
      with m assms(2) show ?thesis by simp
    next
      case False
      then show ?thesis using ok(3) m b by (auto simp: conflict_at_def)
    qed
    with m show ?thesis by (simp add: obs_at_branch)
  qed
  have "distinct (map fst (sort_key f ps))"
    using ok(2) by (metis mset_map mset_sort mset_eq_imp_distinct_iff)
  then show "attachable dst (sort_key f ps)"
    using ok(1) branch by (auto simp: attachable_def graft_point_def obs_at_def)
  show "set ps = {(p, c). graft_point dst src p c}" by (fact ok(1))
  show "\<not> conflict_at dst src p" using ok(3) by blast
qed

lemma notify_all_root [simp]: "root (fold notify cs t) = root t"
  by (induction cs arbitrary: t) (simp_all add: notify_def)

lemma notify_all_obs [simp]: "obs_fns (fold notify cs t) = obs_fns t"
  by (induction cs arbitrary: t) (simp_all add: notify_def)

lemma Graft_Inr:
  "Graft (Some other) t = (Inr roots, t') \<Longrightarrow>
     \<exists>ps. collect (root t) (root other) [] = Inr ps
       \<and> roots = map graft_root (sort_key (joinPath \<circ> fst) ps)
       \<and> root t' = fold attach (sort_key (joinPath \<circ> fst) ps) (root t)"
  by (auto simp: Graft_def Let_def split: sum.splits)

lemma node_at_least_missing:
  "node_at q src = Some c \<Longrightarrow> node_at q dst = None \<Longrightarrow>
     \<exists>p d. prefix p q \<and> graft_point dst src p d"
proof (induction q arbitrary: c rule: rev_induct)
  case (snoc x q)
  show ?case
  proof (cases "node_at q dst")
    case None
    from snoc.prems(1) obtain d where "node_at q src = Some d"
      by (auto simp: node_at_append split: option.splits)
    from snoc.IH [OF this None] show ?thesis by (meson prefix_order.trans prefix_snoc prefix_order.refl)
  next
    case (Some m)
    with snoc.prems show ?thesis by (auto simp: graft_point_def intro!: exI [of _ "q @ [x]"])
  qed
qed simp

lemma leaf_at_graft:
  assumes "graft_point dst src p c" and "prefix p q"
  shows "leaf_at src q = leaf_at c (drop (length p) q)" and "leaf_at dst q = None"
proof -
  from assms(2) obtain r where "q = p @ r" by (auto simp: prefix_def)
  with assms(1) show "leaf_at src q = leaf_at c (drop (length p) q)" "leaf_at dst q = None"
    by (auto simp: graft_point_def leaf_at_append leaf_at_def node_at_append)
qed

section \<open>Taking points out again\<close>

definition detach :: "string list \<Rightarrow> Node \<Rightarrow> Node" where
  "detach p r = update_at (butlast p) (del_child (last p)) r"

lemma del_set_child_other:
  "k \<noteq> k' \<Longrightarrow> del_child k (set_child k' c n) = set_child k' c (del_child k n)"
  by (simp add: del_child_def set_child_def delete_update_commute)

lemma set_child_commute_present:
  assumes "k \<noteq> k'" and "map_of (children n) k = Some d"
  shows "set_child k c (set_child k' c' n) = set_child k' c' (set_child k c n)"
proof -
  have "k \<in> fst ` set (children n)" using map_of_SomeD [OF assms(2)] by force
  from update_present_commute [OF assms(1) this] show ?thesis by (simp add: set_child_def)
qed

lemma update_at_Cons_child:
  "update_at (s # ss) f n =
     (if isLeaf n then n
      else case map_of (children n) s of None \<Rightarrow> n | Some c \<Rightarrow> set_child s (update_at ss f c) n)"
  by (simp add: set_child_def split: option.split)

lemma detach_attach_other:
  assumes "\<not> prefix (a @ [k]) b" and "\<not> prefix (b @ [k']) a" and "(a, k) \<noteq> (b, k')"
  shows "update_at a (del_child k) (update_at b (set_child k' c) n) =
    update_at b (set_child k' c) (update_at a (del_child k) n)"
  using assms
proof (induction a arbitrary: b n)
  case Nil
  show ?case
  proof (cases b)
    case Nil': Nil
    with Nil show ?thesis by (simp add: del_set_child_other)
  next
    case (Cons s ss)
    with Nil show ?thesis
      by (auto simp: update_at_Cons_child del_set_child_other simp del: update_at.simps(2) split: option.split)
  qed
next
  case (Cons s ss)
  show ?case
  proof (cases b)
    case Nil
    with Cons.prems have "s \<noteq> k'" by auto
    with Nil show ?thesis
      by (auto simp: update_at_Cons_child set_child_commute_present simp del: update_at.simps(2)
          split: option.split)
  next
    case b: (Cons s' bs)
    show ?thesis
    proof (cases "s = s'")
      case True
      with Cons b show ?thesis by (auto split: option.split)
    next
      case False
      then show ?thesis using b by (intro update_at_commute) auto
    qed
  qed
qed

lemma detach_attach_same:
  assumes "p \<noteq> []" and "obs_at p n = None" and "obs_at (butlast p) n = Some (None, a, t)"
  shows "detach p (attach (p, c) n) = n"
proof -
  from assms(3) obtain m where m: "node_at (butlast p) n = Some m" "\<not> isLeaf m"
    by (auto simp: obs_at_branch)
  have "obs_at (butlast p @ [last p]) n = None" using assms(1,2) by simp
  with m have "map_of (children m) (last p) = None"
    by (auto simp: obs_at_def node_at_append split: option.splits)
  with m show ?thesis
    by (simp add: detach_def attach_def update_at_update_at update_at_id del_set_child)
qed

lemma detach_attach_all:
  assumes "attachable n ((p, c) # ps)"
  shows "detach p (fold attach ((p, c) # ps) n) = fold attach ps n"
proof -
  have apart: "detach p (attach (q, d) n') = attach (q, d) (detach p n')" if "(q, d) \<in> set ps" for q d n'
  proof -
    have "p \<noteq> []" "q \<noteq> []" "p \<noteq> q" using assms that by (force simp: attachable_def)+
    then have "(butlast p, last p) \<noteq> (butlast q, last q)"
      by (metis append_butlast_last_id Pair_inject)
    moreover have "\<not> prefix p (butlast q)" "\<not> prefix q (butlast p)"
      using attachable_apart [OF assms, of p c q d] attachable_apart [OF assms, of q d p c] that by auto
    ultimately show ?thesis
      using \<open>p \<noteq> []\<close> \<open>q \<noteq> []\<close>
      by (simp add: detach_def attach_def detach_attach_other snoc_butlast)
  qed
  have "detach p (fold attach qs m) = fold attach qs (detach p m)" if "set qs \<subseteq> set ps" for qs m
    using that by (induction qs arbitrary: m) (auto simp: apart)
  moreover obtain a t where "p \<noteq> []" "obs_at p n = None" "obs_at (butlast p) n = Some (None, a, t)"
    using assms by (auto simp: attachable_def)
  ultimately show ?thesis by (simp add: detach_attach_same)
qed

text \<open>A point the source would refuse to unmount: an instance of a table of the running tree.\<close>

definition instance_point :: "Node \<Rightarrow> string list \<Rightarrow> bool" where
  "instance_point r p \<longleftrightarrow>
     instance_of (last p) \<noteq> None \<and> (\<exists>m. node_at (butlast p) r = Some m \<and> table m \<noteq> None)"

lemma Unmount_ok:
  assumes "parsePath path = Inr p" and "p \<noteq> []"
    and "obs_at (butlast p) (root t) = Some (None, a, tb)" and "obs_at p (root t) \<noteq> None"
    and "tb = None \<or> instance_of (last p) = None"
  shows "\<exists>t'. Unmount path t = (Inr (), t') \<and> root t' = detach p (root t)"
proof -
  from assms(3) obtain m where m: "node_at (butlast p) (root t) = Some m" "\<not> isLeaf m" "table m = tb"
    by (auto simp: obs_at_branch)
  have "obs_at (butlast p @ [last p]) (root t) \<noteq> None" using assms(2,4) by simp
  with m obtain d where "map_of (children m) (last p) = Some d"
    by (auto simp: obs_at_def node_at_append split: option.splits)
  with m assms show ?thesis
    by (auto simp: Unmount_def Let_def detach_def update_at_const)
qed

lemma parse_graft_root: "valid_segs (fst pt) \<Longrightarrow> parsePath (graft_root pt) = Inr (fst pt)"
  by (simp add: graft_root_def parsePath_joinPath parsePath_joinPath_dot)

lemma unmount_each_points:
  assumes "attachable n ps" and "root t = fold attach ps n"
    and "\<forall>(p, c) \<in> set ps. valid_segs p \<and> \<not> instance_point n p"
  shows "\<exists>t'. unmount_each (map graft_root ps) t = (map (\<lambda>_. Inr ()) ps, t') \<and> root t' = n"
  using assms
proof (induction ps arbitrary: t)
  case (Cons pc ps)
  obtain p c where pc: "pc = (p, c)" by (cases pc)
  note att = Cons.prems(1) [unfolded pc]
  have tail: "attachable n ps" using att by (simp add: attachable_def)
  from att obtain a tb where p: "p \<noteq> []" "obs_at (butlast p) n = Some (None, a, tb)"
    by (auto simp: attachable_def)
  have none: "find (\<lambda>(p', c'). prefix p' (butlast p)) (pc # ps) = None"
    using attachable_apart [OF att, of _ _ p c] pc by (auto simp: find_None_iff)
  have parent: "obs_at (butlast p) (root t) = Some (None, a, tb)"
    using obs_at_attach_all [OF Cons.prems(1), of "butlast p"] none Cons.prems(2) p by simp
  have here: "obs_at p (root t) \<noteq> None"
    using obs_at_attach_all [OF Cons.prems(1), of p] Cons.prems(2) pc by (auto simp: obs_at_def)
  have "tb = None \<or> instance_of (last p) = None"
    using Cons.prems(3) pc p by (auto simp: instance_point_def obs_at_branch)
  moreover have "parsePath (graft_root pc) = Inr p"
    using Cons.prems(3) pc parse_graft_root [of pc] by simp
  ultimately obtain t1 where t1: "Unmount (graft_root pc) t = (Inr (), t1)" "root t1 = detach p (root t)"
    using Unmount_ok p(1) parent here by blast
  have "root t1 = fold attach ps n"
    using t1(2) Cons.prems(2) detach_attach_all [OF att] pc by simp
  with Cons.IH [OF tail this] Cons.prems(3) obtain t2
    where "unmount_each (map graft_root ps) t1 = (map (\<lambda>_. Inr ()) ps, t2)" "root t2 = n" by auto
  with t1(1) show ?case by simp
qed simp

lemma graft_point_valid:
  assumes "wf_node src" and "node_at p src = Some c"
  shows "valid_segs p"
  using assms
proof (induction p src rule: node_at.induct)
  case (2 s ss n)
  then show ?case
    by (auto simp: wf_node_iff [of n] split: if_splits option.splits dest!: map_of_in_set)
qed simp

lemma unmount_grafted:
  assumes "Graft (Some other) t = (Inr roots, t')"
    and "\<not> isLeaf (root t)" and "\<not> isLeaf (root other)" and "wf_node (root other)"
    and "\<forall>p c. graft_point (root t) (root other) p c \<longrightarrow> \<not> instance_point (root t) p" and "root t1 = root t'"
  shows "\<exists>t''. unmount_each roots t1 = (map (\<lambda>_. Inr ()) roots, t'') \<and> root t'' = root t"
proof -
  from Graft_Inr [OF assms(1)] obtain ps where c: "collect (root t) (root other) [] = Inr ps"
    and roots: "roots = map graft_root (sort_key (joinPath \<circ> fst) ps)"
    and t': "root t1 = fold attach (sort_key (joinPath \<circ> fst) ps) (root t)" using assms(6) by auto
  note ok = collect_attachable [OF c assms(2-4)]
  have "\<forall>(p, c) \<in> set (sort_key (joinPath \<circ> fst) ps). valid_segs p \<and> \<not> instance_point (root t) p"
    using ok(2) assms(5) graft_point_valid [OF assms(4)] by (auto simp: graft_point_def)
  from unmount_each_points [OF ok(1) t' this] show ?thesis
    by (simp add: roots comp_def)
qed

section \<open>Properties\<close>

text \<open>A successful \<^verbatim>\<open>Graft\<close> merges the two data models: every leaf of the running tree keeps its
  value, every leaf of the fragment becomes readable, and there is no other leaf.\<close>

theorem Graft_merges:
  assumes "Graft (Some other) t = (Inr roots, t')"
    and "\<not> isLeaf (root t)" and "\<not> isLeaf (root other)" and "wf_node (root other)"
  shows "leaf_at (root t') q =
    (case leaf_at (root t) q of Some v \<Rightarrow> Some v | None \<Rightarrow> leaf_at (root other) q)"
proof -
  from Graft_Inr [OF assms(1)] obtain ps where c: "collect (root t) (root other) [] = Inr ps"
    and t': "root t' = fold attach (sort_key (joinPath \<circ> fst) ps) (root t)" by blast
  note ok = collect_attachable [OF c assms(2-4)]
  show ?thesis
  proof (cases "find (\<lambda>(p, c). prefix p q) (sort_key (joinPath \<circ> fst) ps)")
    case (Some pc)
    obtain p d where pc: "pc = (p, d)" by (cases pc)
    with Some have "(p, d) \<in> set (sort_key (joinPath \<circ> fst) ps)" and pq: "prefix p q"
      using find_SomeD [OF Some] by auto
    with ok(2) have g: "graft_point (root t) (root other) p d" by auto
    have "obs_at q (root t') = obs_at (drop (length p) q) (clone d)"
      using obs_at_attach_all [OF ok(1), of q "joinPath \<circ> fst"] Some pc t' by simp
    then have "leaf_at (root t') q = leaf_at (clone d) (drop (length p) q)"
      by (simp only: leaf_at_obs)
    then show ?thesis
      using leaf_at_graft [OF g pq] by simp
  next
    case None
    have "leaf_at (root t') q = leaf_at (root t) q"
      using obs_at_attach_all [OF ok(1), of q "joinPath \<circ> fst"] None t' by (simp add: leaf_at_obs)
    moreover have "leaf_at (root t) q \<noteq> None \<or> leaf_at (root other) q = None"
    proof (rule ccontr)
      assume "\<not> ?thesis"
      then obtain m where m: "node_at q (root other) = Some m" "isLeaf m" "leaf_at (root t) q = None"
        by (auto simp: leaf_at_def isLeaf_def split: option.splits)
      show False
      proof (cases "node_at q (root t)")
        case None': None
        from node_at_least_missing [OF m(1) None'] ok(2) None show False
          by (auto simp: find_None_iff)
      next
        case (Some n)
        moreover have "q \<noteq> []" using m(1,2) assms(3) by auto
        ultimately have "conflict_at (root t) (root other) q" using m by (auto simp: conflict_at_def)
        with ok(3) show False by blast
      qed
    qed
    ultimately show ?thesis by (auto split: option.split)
  qed
qed

text \<open>C14: \<^verbatim>\<open>Graft\<close> is all or nothing: it fails exactly when some path exists in both trees and is a
  leaf in one of them, and then nothing has been attached.\<close>

theorem Graft_fails_iff_conflict:
  assumes "\<not> isLeaf (root t)" and "\<not> isLeaf (root other)" and "wf_node (root other)"
  shows "(is_err (fst (Graft (Some other) t)) \<longleftrightarrow> (\<exists>p. conflict_at (root t) (root other) p))
    \<and> (is_err (fst (Graft (Some other) t)) \<longrightarrow> snd (Graft (Some other) t) = t)"
  using collect_ok(1) [OF assms, of "[]"]
  by (auto simp: Graft_def Let_def split: sum.splits)


text \<open>An instance that a graft added to an existing table cannot be unmounted by the path the
  graft returned: \<^verbatim>\<open>Unmount\<close> refuses it and the instance stays in the data model.\<close>

theorem Unmount_refuses_instance:
  assumes "parsePath path = Inr p" and "p \<noteq> []" and "instance_point (root t) p"
  shows "is_err (fst (Unmount path t)) \<and> snd (Unmount path t) = t"
  using assms
  by (auto simp: Unmount_def instance_point_def split: option.split)

section \<open>Witnesses\<close>

definition module_tree :: Tree where
  "module_tree = New\<lparr>root :=
     Node [(''Vendor'', Node [(''On'', NewLeaf port_8080)] None None None)] None None None\<rparr>"

definition grafted :: "string list \<times> Tree" where
  "grafted = (case Graft (Some module_tree) pool_tree of (Inr rs, t) \<Rightarrow> (rs, t) | (_, t) \<Rightarrow> ([], t))"

lemmas graft_eval = table_eval Graft_def module_tree_def graft_root_def graft_change_def attach_def

lemma module_graft: "Graft (Some module_tree) pool_tree = (Inr (fst grafted), snd grafted)"
  unfolding grafted_def by (simp add: graft_eval)

lemma module_facts:
  "\<not> isLeaf (root pool_tree)" "\<not> isLeaf (root module_tree)" "wf_node (root module_tree)"
  by (simp_all add: graft_eval isSegmentChar_def less_eq_char_def)

theorem Graft_merges_witness:
  "leaf_at (root (snd grafted)) [''Vendor'', ''On''] = Some port_8080
   \<and> leaf_at (root (snd grafted)) [''Host'', ''1'', ''Name''] = Some port_8080"
  using Graft_merges [OF module_graft module_facts, of "[''Vendor'', ''On'']"]
    Graft_merges [OF module_graft module_facts, of "[''Host'', ''1'', ''Name'']"]
  by (simp add: leaf_at_def graft_eval)

lemma module_conflict: "conflict_at (root pool_tree) (root pool_tree) [''Host'', ''1'', ''Name'']"
  by (simp add: conflict_at_def graft_eval)

theorem Graft_fails_iff_conflict_witness:
  "is_err (fst (Graft (Some pool_tree) pool_tree)) \<and> snd (Graft (Some pool_tree) pool_tree) = pool_tree"
  using Graft_fails_iff_conflict [OF module_facts(1) module_facts(1) pool_facts(3)] module_conflict
  by blast


theorem Unmount_refuses_instance_witness:
  "is_err (fst (Unmount ''Host.1.'' pool_tree)) \<and> snd (Unmount ''Host.1.'' pool_tree) = pool_tree"
  by (rule Unmount_refuses_instance [of _ "[''Host'', ''1'']"])
    (simp_all add: instance_point_def graft_eval)

end
