(* ===== verification/ParamReach.thy ===== *)
theory ParamReach
  imports ParamGraft
begin

text \<open>
  The life of a tree: every operation of \<^verbatim>\<open>src/internal/paramtree\<close> as a step, and what holds in
  every state those steps can reach.  The locale \<open>node_invariant\<close> says when a property of nodes
  is kept by the elementary writes; that every operation keeps it is proved once, in the
  locale, and used for the shape of the tree (\<open>wf_node\<close>) and for the types of its values
  (\<open>typed_node\<close>).
\<close>

section \<open>Invariants of nodes\<close>

locale node_invariant =
  fixes I :: "Node \<Rightarrow> bool"
  assumes upd: "I n \<Longrightarrow> (\<And>m. node_at p n = Some m \<Longrightarrow> I m \<Longrightarrow> I (f m)) \<Longrightarrow> I (update_at p f n)"
    and sub: "I n \<Longrightarrow> node_at p n = Some m \<Longrightarrow> I m"
    and tmpl: "I n \<Longrightarrow> table n = Some tn \<Longrightarrow> I tn \<and> \<not> isLeaf n"
    and branch: "I NewBranch"
    and cloned: "I n \<Longrightarrow> I (clone n)"
    and leaf_write: "I n \<Longrightarrow> isLeaf n \<Longrightarrow> valid_Value v \<Longrightarrow> I (set_leaf (Some v) n)"
    and attrs_write: "I n \<Longrightarrow> I (set_attrs a n)"
    and table_write: "I n \<Longrightarrow> \<not> isLeaf n \<Longrightarrow> I tn \<Longrightarrow> I (set_table (Some tn) n)"
    and child_write: "I n \<Longrightarrow> \<not> isLeaf n \<Longrightarrow> valid_segs [k] \<Longrightarrow> I c \<Longrightarrow> I (set_child k c n)"
    and child_delete: "I n \<Longrightarrow> I (del_child k n)"
begin

lemma put_leaf_keeps: "I n \<Longrightarrow> valid_Value v \<Longrightarrow> I (put_leaf p v n)"
  by (auto simp: put_leaf_def leaf_at_def isLeaf_def split: option.splits intro!: upd leaf_write)

lemma put_leaves_keep:
  "I n \<Longrightarrow> \<forall>(p, v) \<in> set kvs. valid_Value v \<Longrightarrow> I (fold (\<lambda>(k, v). put_leaf k v) kvs n)"
  by (induction kvs arbitrary: n) (auto intro: put_leaf_keeps)

lemma put_attrs_keeps: "I n \<Longrightarrow> I (put_attrs p a n)"
  by (auto simp: put_attrs_def intro!: upd attrs_write)

lemma child_keeps: "I n \<Longrightarrow> \<not> isLeaf n \<Longrightarrow> map_of (children n) k = Some c \<Longrightarrow> I c"
  using sub [of n "[k]" c] by simp

lemma mount_at_keeps:
  "I parent \<Longrightarrow> I n \<Longrightarrow> valid_segs segs \<Longrightarrow> I (snd (mount_at path segs n parent))"
proof (induction path segs n parent rule: mount_at.induct)
  case (2 path seg n parent)
  then show ?case using child_write [of parent seg n] by (simp add: set_child_def)
next
  case (3 path seg seg2 rest n parent)
  show ?case
  proof (cases "isLeaf parent")
    case False
    define child where "child = (case map_of (children parent) seg of None \<Rightarrow> NewBranch | Some c \<Rightarrow> c)"
    have "I child"
      using 3(2) False child_keeps [of parent seg] by (auto simp: child_def branch split: option.split)
    then have "I (snd (mount_at path (seg2 # rest) n child))"
      using 3(1) [OF False child_def] 3(3,4) by simp
    then have "I (set_child seg (snd (mount_at path (seg2 # rest) n child)) parent)"
      using 3(2,4) False by (simp add: child_write)
    with False show ?thesis by (simp add: Let_def child_def case_prod_unfold set_child_def)
  qed (simp add: 3)
qed simp

lemma add_table_at_keeps:
  "I parent \<Longrightarrow> I tn \<Longrightarrow> valid_segs segs \<Longrightarrow> I (snd (add_table_at path tn segs parent))"
proof (induction path tn segs parent rule: add_table_at.induct)
  case (1 path tn parent)
  then show ?case by (simp add: table_write)
next
  case (2 path tn seg rest parent)
  show ?case
  proof (cases "isLeaf parent")
    case False
    define child where "child = (case map_of (children parent) seg of None \<Rightarrow> NewBranch | Some c \<Rightarrow> c)"
    have "I child"
      using 2(2) False child_keeps [of parent seg] by (auto simp: child_def branch split: option.split)
    then have "I (snd (add_table_at path tn rest child))"
      using 2(1) [OF False child_def] 2(3,4) by simp
    then show ?thesis
      using 2(2,4) False by (simp add: Let_def child_def case_prod_unfold child_write)
  qed (simp add: 2)
qed

lemma attach_all_keep:
  "I n \<Longrightarrow> attachable n ps \<Longrightarrow> \<forall>(p, c) \<in> set ps. valid_segs p \<and> I c \<Longrightarrow> I (fold attach ps n)"
proof (induction ps arbitrary: n)
  case (Cons pc ps)
  obtain p c where pc: "pc = (p, c)" by (cases pc)
  from Cons.prems pc have p: "p \<noteq> []" "valid_segs p" "I c" by (auto simp: attachable_def)
  then have last: "valid_segs [last p]" by (metis append_butlast_last_id valid_segs_simps(3))
  obtain m where "node_at (butlast p) n = Some m" "\<not> isLeaf m"
    using Cons.prems(2) pc by (auto simp: attachable_def obs_at_branch)
  then have "I (attach pc n)"
    using Cons.prems(1) p last pc by (auto simp: attach_def intro!: upd child_write cloned)
  with Cons attachable_Cons(1) [of n p c ps] pc show ?case by simp
qed simp

lemma table_root_keeps:
  assumes "I r" and "I n'"
    and "\<And>v. segs \<noteq> [] \<Longrightarrow> leaf_at r (counter_path segs) = Some v \<Longrightarrow>
           valid_Value (v\<lparr>Raw := Itoa (int (length (used_instances n')))\<rparr>)"
  shows "I (table_root segs n' r)"
proof -
  have "leaf_at (update_at segs (\<lambda>_. n') r) (counter_path segs) = leaf_at r (counter_path segs)"
    if "segs \<noteq> []"
    using counter_path_apart [OF that] by (simp add: leaf_at_obs obs_at_outside)
  with assms show ?thesis
    by (auto simp: table_root_def Let_def write_counter_def intro!: upd put_leaf_keeps split: option.split)
qed

end

lemma typed_table: "typed_node n \<Longrightarrow> table n = Some tn \<Longrightarrow> typed_node tn"
  by (simp add: typed_node_iff [of n])

lemma wf_set_table: "wf_node n \<Longrightarrow> \<not> isLeaf n \<Longrightarrow> wf_node tn \<Longrightarrow> wf_node (set_table (Some tn) n)"
  by (cases n) (auto simp: isLeaf_def)

lemma typed_set_table: "typed_node n \<Longrightarrow> typed_node tn \<Longrightarrow> typed_node (set_table (Some tn) n)"
  by (cases n) auto

lemma wf_NewBranch: "wf_node NewBranch"
  by (simp add: NewBranch_def)

lemma typed_NewBranch: "typed_node NewBranch"
  by (simp add: NewBranch_def)

text \<open>The types alone are not an invariant of the writes, because a table node could be a leaf; the
  conjunction with the shape is.\<close>

definition good_node :: "Node \<Rightarrow> bool" where
  "good_node n \<longleftrightarrow> wf_node n \<and> typed_node n"

interpretation good: node_invariant good_node
proof (unfold_locales, goal_cases)
  case (1 n p f)
  then show ?case
    unfolding good_node_def
    by (meson wf_update_at typed_update_at wf_node_at typed_node_at)
qed (auto simp: good_node_def wf_NewBranch typed_NewBranch
    intro: wf_node_at typed_node_at wf_set_leaf typed_set_leaf wf_set_table typed_set_table
      wf_set_child typed_set_child wf_del_child typed_del_child
    dest: wf_table typed_table)


section \<open>Steps\<close>

text \<open>The counter a table operation rewrites is declared as a number (or a string) and the table
  is small enough for it.  The source relies on this: it writes the decimal count into the leaf
  without validating it.\<close>

definition numeric_counter :: "string list \<Rightarrow> Node \<Rightarrow> bool" where
  "numeric_counter segs r \<longleftrightarrow>
     (\<forall>v. leaf_at r (counter_path segs) = Some v \<longrightarrow>
        VType v \<in> {TypeUnsignedInt, TypeInt, TypeString})
     \<and> (\<forall>n. node_at segs r = Some n \<longrightarrow> length (children n) < 2 ^ 30)"

definition good_tree :: "Tree \<Rightarrow> bool" where
  "good_tree t \<longleftrightarrow> good_node (root t) \<and> \<not> isLeaf (root t) \<and> table (root t) = None"

inductive tree_step :: "Tree \<Rightarrow> Tree \<Rightarrow> bool" where
  step_Mount: "good_node n \<Longrightarrow> tree_step t (snd (Mount path n t))"
| step_Reset: "good_tree other \<Longrightarrow> tree_step t (snd (Reset (Some other) t))"
| step_Set: "tree_step t (snd (Tree_Set path v t))"
| step_SetSystem: "tree_step t (snd (SetSystem path raw t))"
| step_SetAttributes: "tree_step t (snd (SetAttributes path a t))"
| step_SetBatch: "tree_step t (snd (SetBatch ss t))"
| step_AddTable: "good_node tn \<Longrightarrow> tree_step t (snd (AddTable path (Some tn) t))"
| step_AddObject:
    "(\<And>segs. parsePath path = Inr segs \<Longrightarrow> numeric_counter segs (root t)) \<Longrightarrow>
     tree_step t (snd (AddObject path t))"
| step_DeleteObject:
    "(\<And>segs. parsePath path = Inr segs \<Longrightarrow> numeric_counter (butlast segs) (root t)) \<Longrightarrow>
     tree_step t (snd (DeleteObject path t))"
| step_Graft: "good_tree other \<Longrightarrow> tree_step t (snd (Graft (Some other) t))"
| step_Unmount: "tree_step t (snd (Unmount path t))"
| step_Observe: "tree_step t (snd (Observe is_nil t))"
| step_Unobserve: "tree_step t (Unobserve c t)"

inductive_cases tree_step_cases: "tree_step t t'"

section \<open>Every step keeps the invariant\<close>

lemma valid_counter:
  assumes "k < 2 ^ 31" and "VType v \<in> {TypeUnsignedInt, TypeInt, TypeString}"
  shows "valid_Value (v\<lparr>Raw := Itoa (int k)\<rparr>)"
proof -
  have "validateString (show_nat k)"
    by (auto simp: validateString_def ValidString_def is_digit_def less_eq_char_def
        intro!: valid_utf8_ascii dest!: show_nat_digits)
  moreover have "validateUint32 (show_nat k)"
    using assms(1) ParseUint_show_nat [of k 32] by (simp add: validateUint32_def)
  moreover have "validateInt32 (show_nat k)"
    using assms(1) ParseInt_show_nat [of k 32] by (simp add: validateInt32_def)
  ultimately show ?thesis
    using assms(2) by (auto simp: valid_Value_def Validate_def typeFns_def)
qed


lemma good_tree_root: "good_tree (t\<lparr>root := r\<rparr>) \<longleftrightarrow> good_node r \<and> \<not> isLeaf r \<and> table r = None"
  by (simp add: good_tree_def)

lemma good_tree_cong: "root t' = root t \<Longrightarrow> good_tree t' = good_tree t"
  by (simp add: good_tree_def)

text \<open>The root is neither turned into a leaf nor into a table, because every write is at a longer
  path or only concerns children.\<close>

lemma root_obs: "obs_at [] n = Some (leaf n, attrs n, table n)"
  by (simp add: obs_at_def)

lemma root_kept:
  assumes "obs_at [] r' = obs_at [] r" and "\<not> isLeaf r" and "table r = None"
  shows "\<not> isLeaf r' \<and> table r' = None"
  using assms by (simp add: root_obs isLeaf_def)

lemma root_kept_put_leaf:
  assumes "\<not> isLeaf r"
  shows "obs_at [] (put_leaf p v r) = obs_at [] r"
proof (cases "p = []")
  case True
  with assms show ?thesis by (simp add: put_leaf_def isLeaf_def)
qed (simp add: obs_at_put_leaf)

lemma root_kept_put_leaves:
  "\<not> isLeaf r \<Longrightarrow> obs_at [] (fold (\<lambda>(k, v). put_leaf k v) kvs r) = obs_at [] r"
proof (induction kvs arbitrary: r)
  case (Cons kv kvs)
  then have "obs_at [] (put_leaf (fst kv) (snd kv) r) = obs_at [] r" by (simp add: root_kept_put_leaf)
  moreover from this have "\<not> isLeaf (put_leaf (fst kv) (snd kv) r)"
    using Cons.prems by (simp add: root_obs isLeaf_def)
  ultimately show ?case using Cons.IH by (simp add: case_prod_unfold)
qed simp

lemma good_put_leaves:
  assumes "good_tree t" and "\<forall>(p, v) \<in> set kvs. valid_Value v"
    and "root t' = fold (\<lambda>(k, v). put_leaf k v) kvs (root t)"
  shows "good_tree t'"
  using assms root_kept [OF root_kept_put_leaves [of "root t" kvs]]
  by (auto simp: good_tree_def good.put_leaves_keep)

lemma op_keeps:
  assumes "P t" and "\<And>e t'. op = (Inl e, t') \<Longrightarrow> t' = t" and "\<And>x t'. op = (Inr x, t') \<Longrightarrow> P t'"
  shows "P (snd op)"
  using assms by (cases op; cases "fst op") auto

lemma good_Set: "good_tree t \<Longrightarrow> good_tree (snd (Tree_Set p v t))"
  by (rule op_keeps [where P = good_tree and t = t])
    (auto simp: write_fails_same Tree_Set_Inr intro: good_put_leaves [of t "[(segs, v)]" for segs])

lemma good_SetSystem: "good_tree t \<Longrightarrow> good_tree (snd (SetSystem p raw t))"
  by (rule op_keeps [where P = good_tree and t = t])
    (auto simp: write_fails_same SetSystem_Inr
      intro: good_put_leaves [of t "[(segs, old\<lparr>Raw := raw\<rparr>)]" for segs old])

lemma good_SetAttributes: "good_tree t \<Longrightarrow> good_tree (snd (SetAttributes p a t))"
proof (rule op_keeps [where P = good_tree and t = t])
  fix u t' assume good: "good_tree t" and set: "SetAttributes p a t = (Inr u, t')"
  from set have "\<exists>segs. attrs_at (root t) segs \<noteq> None
      \<and> root t' = put_attrs segs (Some (copy_access a)) (root t)"
    by (auto simp: SetAttributes_Inr)
  then obtain segs where a: "attrs_at (root t) segs \<noteq> None"
    and t': "root t' = put_attrs segs (Some (copy_access a)) (root t)" by blast
  have "segs \<noteq> []" using a good by (auto simp: attrs_at_def good_tree_def)
  then have "obs_at [] (root t') = obs_at [] (root t)" by (simp add: t' obs_at_put_attrs)
  with good root_kept show "good_tree t'"
    using t' by (auto simp: good_tree_def good.put_attrs_keeps)
qed (auto simp: write_fails_same)

lemma entry_ok_valid: "list_all2 (entry_ok r) ss es \<Longrightarrow> e \<in> set es \<Longrightarrow> valid_Value (be_new e)"
  by (induction ss es rule: list_all2_induct) (auto simp: entry_ok_def)

lemma good_SetBatch: "good_tree t \<Longrightarrow> good_tree (snd (SetBatch ss t))"
proof (rule op_keeps [where P = good_tree and t = t])
  fix rs t' assume good: "good_tree t" and "SetBatch ss t = (Inr rs, t')"
  then obtain es where es: "list_all2 (entry_ok (root t)) ss es"
    and t': "root t' = fold (\<lambda>(k, v). put_leaf k v) (map (\<lambda>e. (be_node e, be_new e)) es) (root t)"
    by (auto simp: SetBatch_Inr)
  have "\<forall>(p, v) \<in> set (map (\<lambda>e. (be_node e, be_new e)) es). valid_Value v"
    using entry_ok_valid [OF es] by auto
  from good_put_leaves [OF good this t'] show "good_tree t'" .
qed (auto simp: write_fails_same)

lemma root_kept_mount: "segs \<noteq> [] \<Longrightarrow> obs_at [] (snd (mount_at path segs n r)) = obs_at [] r"
  by (cases "(path, segs, n, r)" rule: mount_at.cases) (auto simp: root_obs Let_def case_prod_unfold)

lemma good_Mount: "good_tree t \<Longrightarrow> good_node n \<Longrightarrow> good_tree (snd (Mount path n t))"
proof (cases "parsePath path")
  case (Inr segs)
  assume "good_tree t" "good_node n"
  with Inr root_kept [OF root_kept_mount [of segs path n "root t"]]
  show ?thesis
    by (auto simp: Mount_def Let_def case_prod_unfold good_tree_root good_tree_def
        intro!: good.mount_at_keeps parsePath_valid)
qed (simp add: Mount_def)

lemma root_kept_add_table: "segs \<noteq> [] \<Longrightarrow> obs_at [] (snd (add_table_at path tn segs r)) = obs_at [] r"
  by (cases segs) (auto simp: root_obs Let_def case_prod_unfold set_child_def)

lemma good_AddTable: "good_tree t \<Longrightarrow> good_node tn \<Longrightarrow> good_tree (snd (AddTable path (Some tn) t))"
proof (cases "parsePath path")
  case (Inr segs)
  assume "good_tree t" "good_node tn"
  with Inr root_kept [OF root_kept_add_table [of segs path tn "root t"]]
  show ?thesis
    by (auto simp: AddTable_def Let_def case_prod_unfold good_tree_root good_tree_def
        intro!: good.add_table_at_keeps parsePath_valid)
qed (simp add: AddTable_def)

lemma root_kept_table_root:
  assumes "segs \<noteq> []" and "\<not> isLeaf r"
  shows "obs_at [] (table_root segs n' r) = obs_at [] r"
proof -
  have "\<not> prefix segs []" using assms(1) by simp
  then have upd: "obs_at [] (update_at segs (\<lambda>_. n') r) = obs_at [] r" by (rule obs_at_outside)
  moreover have "\<not> isLeaf (update_at segs (\<lambda>_. n') r)"
    using upd assms(2) by (simp add: root_obs isLeaf_def)
  ultimately show ?thesis
    using assms(1)
    by (auto simp: table_root_def Let_def write_counter_def root_kept_put_leaf split: option.split)
qed

lemma good_table_root:
  assumes "good_tree t" and "numeric_counter segs (root t)" and "node_at segs (root t) = Some n"
    and "table n \<noteq> None" and "good_node n'" and "length (children n') \<le> Suc (length (children n))"
    and "root t' = table_root segs n' (root t)"
  shows "good_tree t'"
proof -
  have segs: "segs \<noteq> []" using assms(1,3,4) by (auto simp: good_tree_def)
  have "length (used_instances n') < 2 ^ 31"
    using length_used_instances [of n'] assms(2,3,6) by (auto simp: numeric_counter_def)
  then have "valid_Value (v\<lparr>Raw := Itoa (int (length (used_instances n')))\<rparr>)"
    if "leaf_at (root t) (counter_path segs) = Some v" for v
    using that assms(2) by (intro valid_counter) (auto simp: numeric_counter_def)
  then have "good_node (root t')"
    using assms(1,5,7) by (auto simp: good_tree_def intro!: good.table_root_keeps)
  with root_kept [OF root_kept_table_root [OF segs, of "root t" n']] assms(1,7) show ?thesis
    by (auto simp: good_tree_def)
qed

lemma length_update_le: "length (AList.update k v xs) \<le> Suc (length xs)"
  by (induction xs) auto

lemma length_delete_le: "length (AList.delete k xs) \<le> length xs"
  by (simp add: AList.delete_eq)

lemma AddObject_fails_same: "AddObject p t = (Inl e, t') \<Longrightarrow> t' = t"
  by (auto simp: AddObject_def Let_def split: sum.splits option.splits prod.splits)

lemma DeleteObject_fails_same: "DeleteObject p t = (Inl e, t') \<Longrightarrow> t' = t"
  by (auto simp: DeleteObject_def Let_def split: sum.splits option.splits prod.splits if_splits)

lemma good_AddObject:
  assumes "good_tree t" and "\<And>segs. parsePath path = Inr segs \<Longrightarrow> numeric_counter segs (root t)"
  shows "good_tree (snd (AddObject path t))"
proof (rule op_keeps [where P = good_tree and t = t])
  fix i t' assume "AddObject path t = (Inr i, t')"
  from AddObject_Inr [OF this] obtain segs n template
    where p: "parsePath path = Inr segs" and n: "node_at segs (root t) = Some n" "table n = Some template"
      and i: "i = next_free (used_instances n) 1"
      and t': "root t' = table_root segs (set_child (Itoa i) (clone template) n) (root t)" by auto
  have gn: "good_node n" using assms(1) n(1) by (auto simp: good_tree_def intro: good.sub)
  have "0 < i" using i next_free_props [of "used_instances n" 1] by simp
  then have "valid_segs [Itoa i]" by (simp add: Itoa_def show_nat_segment)
  then have "good_node (set_child (Itoa i) (clone template) n)"
    using good.tmpl [OF gn n(2)] gn by (intro good.child_write good.cloned) auto
  then show "good_tree t'"
    using good_table_root [OF assms(1) assms(2) [OF p] n(1) _ _ _ t'] n(2)
    by (simp add: length_update_le)
qed (auto intro: assms AddObject_fails_same)


lemma good_DeleteObject:
  assumes "good_tree t" and "\<And>segs. parsePath path = Inr segs \<Longrightarrow> numeric_counter (butlast segs) (root t)"
  shows "good_tree (snd (DeleteObject path t))"
proof (rule op_keeps [where P = good_tree and t = t])
  fix u t' assume "DeleteObject path t = (Inr u, t')"
  then have "DeleteObject path t = (Inr (), t')" by simp
  from DeleteObject_Inr [OF this] obtain segs k n
    where p: "parsePath path = Inr (segs @ [k])" and n: "node_at segs (root t) = Some n" "table n \<noteq> None"
      and t': "root t' = table_root segs (del_child k n) (root t)" by auto
  have "good_node (del_child k n)"
    using assms(1) n(1) by (auto simp: good_tree_def intro: good.sub good.child_delete)
  then show "good_tree t'"
    using good_table_root [OF assms(1) _ n(1,2) _ _ t'] assms(2) [OF p] length_delete_le [of k "children n"]
    by simp
qed (auto intro: assms DeleteObject_fails_same)

lemma good_Graft: "good_tree t \<Longrightarrow> good_tree other \<Longrightarrow> good_tree (snd (Graft (Some other) t))"
proof (rule op_keeps [where P = good_tree and t = t])
  fix roots t' assume good: "good_tree t" "good_tree other" and g: "Graft (Some other) t = (Inr roots, t')"
  from Graft_Inr [OF g] obtain ps where c: "collect (root t) (root other) [] = Inr ps"
    and t': "root t' = fold attach (sort_key (joinPath \<circ> fst) ps) (root t)" by blast
  have wf: "\<not> isLeaf (root t)" "\<not> isLeaf (root other)" "wf_node (root other)"
    using good by (simp_all add: good_tree_def good_node_def)
  note ok = collect_attachable [OF c wf]
  have "\<forall>(p, c) \<in> set (sort_key (joinPath \<circ> fst) ps). valid_segs p \<and> good_node c"
    using ok(2) good(2) graft_point_valid [OF wf(3)]
    by (auto simp: graft_point_def good_tree_def intro: good.sub)
  with good ok(1) have node: "good_node (root t')"
    by (auto simp: good_tree_def t' intro!: good.attach_all_keep)
  have "find (\<lambda>(p, c). prefix p []) (sort_key (joinPath \<circ> fst) ps) = None"
    using ok(1) [of "joinPath \<circ> fst"] by (auto simp: find_None_iff attachable_def)
  then have "obs_at [] (root t') = obs_at [] (root t)"
    using obs_at_attach_all [OF ok(1), of "[]" "joinPath \<circ> fst"] t' by simp
  from root_kept [OF this] good node show "good_tree t'" by (simp add: good_tree_def)
qed (auto simp: Graft_def Let_def split: sum.splits)

lemma good_Unmount: "good_tree t \<Longrightarrow> good_tree (snd (Unmount path t))"
proof (rule op_keeps [where P = good_tree and t = t])
  fix u t' assume good: "good_tree t" and "Unmount path t = (Inr u, t')"
  then obtain p m where m: "node_at (butlast p) (root t) = Some m"
    and t': "root t' = update_at (butlast p) (\<lambda>_. del_child (last p) m) (root t)"
    by (auto simp: Unmount_def Let_def lookup_Inr split: sum.splits option.splits if_splits)
  have "good_node m" using good m by (auto simp: good_tree_def intro: good.sub)
  then have "good_node (root t')"
    using good by (auto simp: t' good_tree_def intro!: good.upd good.child_delete)
  moreover have "obs_at [] (root t') = obs_at [] (root t)"
  proof (cases "butlast p = []")
    case True
    with m t' show ?thesis by (simp add: obs_at_def del_child_def)
  qed (simp add: t' obs_at_outside)
  ultimately show "good_tree t'" using root_kept good by (auto simp: good_tree_def)
qed (auto simp: Unmount_def Let_def split: sum.splits option.splits if_splits)

text \<open>The shape alone is an invariant too.\<close>

interpretation node_shape: node_invariant wf_node
  by unfold_locales (auto simp: wf_NewBranch wf_clone intro: wf_update_at wf_node_at wf_set_leaf wf_set_table
      wf_set_child wf_del_child dest: wf_table)

lemma wf_Mount: "wf_node (root t) \<Longrightarrow> wf_node n \<Longrightarrow> wf_node (root (snd (Mount p n t)))"
  using node_shape.mount_at_keeps [of "root t" n _ p] parsePath_valid [of p]
  by (auto simp: Mount_def case_prod_unfold Let_def split: sum.split)

lemma wf_AddTable: "wf_node (root t) \<Longrightarrow> wf_node n \<Longrightarrow> wf_node (root (snd (AddTable p (Some n) t)))"
  using node_shape.add_table_at_keeps [of "root t" n _ p] parsePath_valid [of p]
  by (auto simp: AddTable_def case_prod_unfold Let_def split: sum.split)

lemma wf_Tree_Set: "wf_node (root t) \<Longrightarrow> wf_node (root (snd (Tree_Set p v t)))"
  by (rule op_keeps [where P = "\<lambda>t. wf_node (root t)" and t = t])
    (auto simp: write_fails_same Tree_Set_Inr wf_put_leaf)

lemma wf_SetSystem: "wf_node (root t) \<Longrightarrow> wf_node (root (snd (SetSystem p r t)))"
  by (rule op_keeps [where P = "\<lambda>t. wf_node (root t)" and t = t])
    (auto simp: write_fails_same SetSystem_Inr wf_put_leaf)

lemma good_step: "tree_step t t' \<Longrightarrow> good_tree t \<Longrightarrow> good_tree t'"
proof (induction rule: tree_step.induct)
  case (step_Reset other t)
  then show ?case by (simp add: Reset_def good_tree_def)
next
  case (step_Observe t is_nil)
  then show ?case by (simp add: Observe_def good_tree_def)
next
  case (step_Unobserve t c)
  then show ?case by (simp add: Unobserve_def good_tree_def split: option.split)
qed (simp_all add: good_Mount good_Set good_SetSystem good_SetAttributes good_SetBatch good_AddTable
    good_AddObject good_DeleteObject good_Graft good_Unmount)

section \<open>Properties\<close>


text \<open>Whatever happened to a tree before, a value that \<^verbatim>\<open>Get\<close> returns passes validation for its
  type, so that writing it back to the tree never fails on its value.\<close>

theorem reachable_Get_valid:
  assumes "tree_step\<^sup>*\<^sup>* New t" and "Get p t = Inr v"
  shows "Validate (VType v) (Raw v) = Inr ()"
proof -
  have good: "good_node (root t)"
    using rtranclp_induct [OF assms(1), of good_tree] good_step
    by (simp add: good_tree_def good_node_def New_def wf_NewBranch typed_NewBranch)
  from assms(2) obtain segs where "leaf_at (root t) segs = Some v" by (auto simp: Get_Inr)
  then obtain m where m: "node_at segs (root t) = Some m" "leaf m = Some v" by (auto simp: leaf_at_node)
  then have "typed_node m" using good by (auto simp: good_node_def intro: typed_node_at)
  with m(2) show ?thesis by (simp add: typed_node_iff [of m] valid_Value_Validate)
qed

section \<open>Witnesses\<close>

definition mounted :: Tree where
  "mounted = snd (Mount ''Device.Port'' (NewLeaf port_8080) New)"

lemma mounted_reachable: "tree_step\<^sup>*\<^sup>* New mounted"
  unfolding mounted_def
  by (rule r_into_rtranclp, rule step_Mount)
    (simp add: good_node_def NewLeaf_def valid_Value_def tree_eval)


theorem reachable_Get_valid_witness:
  "Get ''Device.Port'' mounted = Inr port_8080 \<and> Validate TypeUnsignedInt ''8080'' = Inr ()"
proof -
  have "Get ''Device.Port'' mounted = Inr port_8080"
    by (simp add: mounted_def tree_eval Mount_def New_def NewBranch_def NewLeaf_def)
  with reachable_Get_valid [OF mounted_reachable this] show ?thesis by simp
qed

end
