(* ===== verification/Wire.thy ===== *)
theory Wire
  imports CpeErr GoTime
begin

text \<open>
  What the CPE writes: the SOAP envelopes of \<^verbatim>\<open>src/internal/cwmp/soap/encoder.go\<close> and the bodies
  of the two RPCs a CPE starts itself, TransferComplete (\<^verbatim>\<open>src/internal/cwmp/transfer\<close>) and
  DUStateChangeComplete (\<^verbatim>\<open>src/internal/cwmp/dustate\<close>).  A writer is the string written so far;
  the buffers the program writes to never fail.  Every text from outside goes through \<open>escape\<close>,
  which is undone by reading the five predefined entities back.
\<close>

abbreviation NL :: string where "NL \<equiv> [CHR 0x0A]"
abbreviation DQ :: string where "DQ \<equiv> [CHR 0x22]"

section \<open>Escaping\<close>

definition escape_char :: "char \<Rightarrow> string" where
  "escape_char c =
     (if c = CHR ''&'' then ''&amp;''
      else if c = CHR ''<'' then ''&lt;''
      else if c = CHR ''>'' then ''&gt;''
      else if c = CHR 0x22 then ''&quot;''
      else if c = CHR 0x27 then ''&apos;''
      else [c])"

definition escape :: "string \<Rightarrow> string" where
  "escape s = concat (map escape_char s)"

text \<open>The copies in \<^verbatim>\<open>transfer\<close> and \<^verbatim>\<open>dustate\<close> return early when there is nothing to escape.\<close>

definition escape_leaf :: "string \<Rightarrow> string" where
  "escape_leaf s =
     (if \<not> list_ex (\<lambda>c. c \<in> set [CHR ''&'', CHR ''<'', CHR ''>'', CHR 0x22, CHR 0x27]) s then s
      else concat (map escape_char s))"

text \<open>Reading character data: the five predefined entities stand for one character each.\<close>

fun unescape :: "string \<Rightarrow> string" where
  "unescape [] = []"
| "unescape (c # cs) =
     (if c \<noteq> CHR ''&'' then c # unescape cs
      else if take 4 cs = ''amp;'' then CHR ''&'' # unescape (drop 4 cs)
      else if take 3 cs = ''lt;'' then CHR ''<'' # unescape (drop 3 cs)
      else if take 3 cs = ''gt;'' then CHR ''>'' # unescape (drop 3 cs)
      else if take 5 cs = ''quot;'' then CHR 0x22 # unescape (drop 5 cs)
      else if take 5 cs = ''apos;'' then CHR 0x27 # unescape (drop 5 cs)
      else c # unescape cs)"

section \<open>Envelopes\<close>

record EncoderOptions =
  eo_Version :: string
  SOAPPrefix :: string
  CWMPPrefix :: string
  XSIPrefix :: string

definition withDefaults :: "EncoderOptions \<Rightarrow> EncoderOptions" where
  "withDefaults opts =
     (let o1 = (if eo_Version opts = '''' then opts\<lparr>eo_Version := ''urn:dslforum-org:cwmp-1-1''\<rparr> else opts);
          o2 = (if SOAPPrefix o1 = '''' then o1\<lparr>SOAPPrefix := ''soapenv''\<rparr> else o1);
          o3 = (if CWMPPrefix o2 = '''' then o2\<lparr>CWMPPrefix := ''cwmp''\<rparr> else o2)
      in (if XSIPrefix o3 = '''' then o3\<lparr>XSIPrefix := ''xsi''\<rparr> else o3))"

record Header =
  hd_ID :: string
  HoldRequests :: bool

definition Header_IsZero :: "Header \<Rightarrow> bool" where
  "Header_IsZero h \<longleftrightarrow> hd_ID h = '''' \<and> \<not> HoldRequests h"

record SetParameterValuesFault =
  sf_ParameterName :: string
  sf_FaultCode :: int
  sf_FaultString :: string

record Fault =
  ft_FaultCode :: int
  ft_FaultString :: string
  ft_SetFaults :: "SetParameterValuesFault list"

definition xmlns :: "string \<Rightarrow> string \<Rightarrow> string" where
  "xmlns pre uri = '' xmlns:'' @ pre @ ''='' @ DQ @ uri @ DQ"

definition writeEnvelopeStart :: "EncoderOptions \<Rightarrow> string" where
  "writeEnvelopeStart opts =
     ''<?xml version='' @ DQ @ ''1.0'' @ DQ @ '' encoding='' @ DQ @ ''UTF-8'' @ DQ @ ''?>'' @ NL
     @ ''<'' @ SOAPPrefix opts @ '':Envelope''
     @ xmlns (SOAPPrefix opts) ''http://schemas.xmlsoap.org/soap/envelope/''
     @ xmlns ''soap-enc'' ''http://schemas.xmlsoap.org/soap/encoding/''
     @ xmlns (CWMPPrefix opts) (eo_Version opts)
     @ xmlns (XSIPrefix opts) ''http://www.w3.org/2001/XMLSchema-instance''
     @ xmlns ''xsd'' ''http://www.w3.org/2001/XMLSchema'' @ ''>'' @ NL"

definition must_understand :: "EncoderOptions \<Rightarrow> string \<Rightarrow> string \<Rightarrow> string" where
  "must_understand opts name text =
     ''    <'' @ CWMPPrefix opts @ '':'' @ name @ '' '' @ SOAPPrefix opts @ '':mustUnderstand=''
     @ DQ @ ''1'' @ DQ @ ''>'' @ text @ ''</'' @ CWMPPrefix opts @ '':'' @ name @ ''>'' @ NL"

definition writeHeader :: "EncoderOptions \<Rightarrow> Header \<Rightarrow> string" where
  "writeHeader opts h =
     (if Header_IsZero h then ''''
      else ''  <'' @ SOAPPrefix opts @ '':Header>'' @ NL
           @ (if hd_ID h \<noteq> '''' then must_understand opts ''ID'' (escape (hd_ID h)) else '''')
           @ (if HoldRequests h then must_understand opts ''HoldRequests'' ''1'' else '''')
           @ ''  </'' @ SOAPPrefix opts @ '':Header>'' @ NL)"

definition WriteRequest :: "EncoderOptions \<Rightarrow> Header \<Rightarrow> string \<Rightarrow> goerr + string" where
  "WriteRequest opts h methodName =
     (if methodName = '''' then
        Inl (Wrap ''soap.Encoder.WriteRequest'' KindInvalidArgument
               (Some (Errorf ''method name is empty'' [])))
      else Inr (writeEnvelopeStart opts @ writeHeader opts h
             @ ''  <'' @ SOAPPrefix opts @ '':Body>'' @ NL
             @ ''    <'' @ CWMPPrefix opts @ '':'' @ methodName @ ''>'' @ NL))"

definition MethodWriter_Close :: "EncoderOptions \<Rightarrow> string \<Rightarrow> string" where
  "MethodWriter_Close opts methodName =
     NL @ ''    </'' @ CWMPPrefix opts @ '':'' @ methodName @ ''>'' @ NL
     @ ''  </'' @ SOAPPrefix opts @ '':Body>'' @ NL
     @ ''</'' @ SOAPPrefix opts @ '':Envelope>'' @ NL"

definition fault_entry :: "SetParameterValuesFault \<Rightarrow> string" where
  "fault_entry pf =
     ''          <SetParameterValuesFault>'' @ NL
     @ ''            <ParameterName>'' @ escape (sf_ParameterName pf) @ ''</ParameterName>'' @ NL
     @ ''            <FaultCode>'' @ Itoa (sf_FaultCode pf) @ ''</FaultCode>'' @ NL
     @ ''            <FaultString>'' @ escape (sf_FaultString pf) @ ''</FaultString>'' @ NL
     @ ''          </SetParameterValuesFault>'' @ NL"

definition WriteFault :: "EncoderOptions \<Rightarrow> Header \<Rightarrow> Fault \<Rightarrow> string" where
  "WriteFault opts h f =
     writeEnvelopeStart opts @ writeHeader opts h
     @ ''  <'' @ SOAPPrefix opts @ '':Body>'' @ NL
     @ ''    <'' @ SOAPPrefix opts @ '':Fault>'' @ NL
     @ ''      <faultcode>Client</faultcode>'' @ NL
     @ ''      <faultstring>CWMP fault</faultstring>'' @ NL
     @ ''      <detail>'' @ NL
     @ ''        <'' @ CWMPPrefix opts @ '':Fault>'' @ NL
     @ ''          <FaultCode>'' @ Itoa (ft_FaultCode f) @ ''</FaultCode>'' @ NL
     @ ''          <FaultString>'' @ escape (ft_FaultString f) @ ''</FaultString>'' @ NL
     @ concat (map fault_entry (ft_SetFaults f))
     @ ''        </'' @ CWMPPrefix opts @ '':Fault>'' @ NL
     @ ''      </detail>'' @ NL
     @ ''    </'' @ SOAPPrefix opts @ '':Fault>'' @ NL
     @ ''  </'' @ SOAPPrefix opts @ '':Body>'' @ NL
     @ ''</'' @ SOAPPrefix opts @ '':Envelope>'' @ NL"

section \<open>Bodies of the RPCs the CPE starts\<close>

text \<open>A \<^verbatim>\<open>time.Time\<close> is a wall clock reading with its offset from UTC.\<close>

type_synonym Time = "gotime \<times> int"

record TransferComplete =
  tc_CommandKey :: string
  tc_FaultCode :: int
  tc_FaultString :: string
  tc_StartTime :: Time
  tc_CompleteTime :: Time

definition tag :: "string \<Rightarrow> string \<Rightarrow> string \<Rightarrow> string" where
  "tag indent name text = indent @ ''<'' @ name @ ''>'' @ text @ ''</'' @ name @ ''>'' @ NL"

definition transfer_Render :: "TransferComplete \<Rightarrow> string" where
  "transfer_Render c =
     tag ''      '' ''CommandKey'' (escape_leaf (tc_CommandKey c))
     @ ''      <FaultStruct>'' @ NL
     @ tag ''        '' ''FaultCode'' (Itoa (tc_FaultCode c))
     @ tag ''        '' ''FaultString'' (escape_leaf (tc_FaultString c))
     @ ''      </FaultStruct>'' @ NL
     @ tag ''      '' ''StartTime'' (format_rfc3339 (to_UTC (tc_StartTime c)))
     @ tag ''      '' ''CompleteTime'' (format_rfc3339 (to_UTC (tc_CompleteTime c)))"

record OpResult =
  or_UUID :: string
  or_DeploymentUnitRef :: string
  or_Version :: string
  or_CurrentState :: string
  or_Resolved :: bool
  or_ExecutionUnitRefList :: string
  or_StartTime :: Time
  or_CompleteTime :: Time
  or_FaultCode :: int
  or_FaultString :: string

record DUStateComplete =
  du_CommandKey :: string
  du_Results :: "OpResult list"

definition render_OpResult :: "OpResult \<Rightarrow> string" where
  "render_OpResult r =
     ''        <OpResultStruct>'' @ NL
     @ tag ''          '' ''UUID'' (escape_leaf (or_UUID r))
     @ tag ''          '' ''DeploymentUnitRef'' (escape_leaf (or_DeploymentUnitRef r))
     @ tag ''          '' ''Version'' (escape_leaf (or_Version r))
     @ tag ''          '' ''CurrentState'' (escape_leaf (or_CurrentState r))
     @ tag ''          '' ''Resolved'' (if or_Resolved r then ''1'' else ''0'')
     @ tag ''          '' ''ExecutionUnitRefList'' (escape_leaf (or_ExecutionUnitRefList r))
     @ tag ''          '' ''StartTime'' (format_rfc3339 (to_UTC (or_StartTime r)))
     @ tag ''          '' ''CompleteTime'' (format_rfc3339 (to_UTC (or_CompleteTime r)))
     @ ''          <Fault>'' @ NL
     @ ''            <FaultStruct>'' @ NL
     @ tag ''              '' ''FaultCode'' (Itoa (or_FaultCode r))
     @ tag ''              '' ''FaultString'' (escape_leaf (or_FaultString r))
     @ ''            </FaultStruct>'' @ NL
     @ ''          </Fault>'' @ NL
     @ ''        </OpResultStruct>'' @ NL"

definition dustate_Render :: "DUStateComplete \<Rightarrow> string" where
  "dustate_Render c =
     ''      <Results soap-enc:arrayType='' @ DQ @ ''cwmp:OpResultStruct[''
     @ show_nat (length (du_Results c)) @ '']'' @ DQ @ ''>'' @ NL
     @ concat (map render_OpResult (du_Results c))
     @ ''      </Results>'' @ NL
     @ tag ''      '' ''CommandKey'' (escape_leaf (du_CommandKey c))"

section \<open>Escaping loses nothing\<close>

lemma escape_simps [simp]:
  "escape [] = []" "escape (c # cs) = escape_char c @ escape cs"
  by (simp_all add: escape_def)

lemma unescape_escape_char: "unescape (escape_char c @ rest) = c # unescape rest"
  by (simp add: escape_char_def)

lemma unescape_escape: "unescape (escape s) = s"
  by (induction s) (simp_all add: unescape_escape_char)

lemma escape_leaf_eq: "escape_leaf s = escape s"
proof -
  have "concat (map escape_char s) = s"
    if "\<not> list_ex (\<lambda>c. c \<in> set [CHR ''&'', CHR ''<'', CHR ''>'', CHR 0x22, CHR 0x27]) s"
    using that by (induction s) (auto simp: escape_char_def)
  then show ?thesis by (auto simp: escape_leaf_def escape_def)
qed

lemma escape_char_clean: "x \<in> set (escape_char c) \<Longrightarrow> x \<notin> {CHR ''<'', CHR ''>'', CHR 0x22, CHR 0x27}"
  by (auto simp: escape_char_def split: if_splits)

text \<open>The five copies of the escaping routine agree, the escaped text contains none of the
  characters that end element text or attribute values, and reading the predefined entities
  back gives the original text.\<close>

theorem escape_faithful:
  "escape_leaf s = escape s \<and> unescape (escape s) = s
   \<and> set (escape s) \<inter> {CHR ''<'', CHR ''>'', CHR 0x22, CHR 0x27} = {}"
proof -
  have "x \<notin> {CHR ''<'', CHR ''>'', CHR 0x22, CHR 0x27}" if "x \<in> set (escape s)" for x
    using that by (induction s) (use escape_char_clean in \<open>auto\<close>)
  then show ?thesis by (auto simp: unescape_escape escape_leaf_eq)
qed

end
