(* ===== verification/SoapDecoder.thy ===== *)
theory SoapDecoder
  imports Wire
begin

text \<open>
  What the CPE reads: the token stream of \<^verbatim>\<open>encoding/xml\<close> and the envelope decoder of
  \<^verbatim>\<open>src/internal/cwmp/soap/decoder.go\<close>.  A message from the ACS is the list of tokens the XML
  decoder returns for it together with the error it returns after the last one (\<open>io_EOF\<close> for a
  complete document, a syntax error otherwise), which every further read repeats.  A reader
  returns its result and the tokens it has not consumed.
\<close>

section \<open>Tokens\<close>

record xml_name =
  Space :: string
  Local :: string

datatype token =
    StartElement (el_name: xml_name) (el_attr: "(xml_name \<times> string) list")
  | EndElement (el_name: xml_name)
  | CharData string
  | OtherToken

definition io_EOF :: goerr where
  "io_EOF = Errorf ''EOF'' []"

text \<open>\<^verbatim>\<open>Decoder.Skip\<close>: read to the end element that matches the start element already consumed.\<close>

fun skip_element :: "goerr \<Rightarrow> nat \<Rightarrow> token list \<Rightarrow> (goerr + unit) \<times> token list" where
  "skip_element fin depth [] = (Inl fin, [])"
| "skip_element fin depth (StartElement n a # ts) = skip_element fin (Suc depth) ts"
| "skip_element fin depth (EndElement n # ts) =
     (case depth of 0 \<Rightarrow> (Inr (), ts) | Suc d \<Rightarrow> skip_element fin d ts)"
| "skip_element fin depth (CharData s # ts) = skip_element fin depth ts"
| "skip_element fin depth (OtherToken # ts) = skip_element fin depth ts"

text \<open>\<^verbatim>\<open>Decoder.DecodeElement\<close> into a string: the character data directly inside the element; nested
  elements are skipped (\<open>depth\<close> counts them).\<close>

fun element_string :: "goerr \<Rightarrow> nat \<Rightarrow> string \<Rightarrow> token list \<Rightarrow> (goerr + string) \<times> token list" where
  "element_string fin depth acc [] = (Inl fin, [])"
| "element_string fin depth acc (StartElement n a # ts) = element_string fin (Suc depth) acc ts"
| "element_string fin depth acc (EndElement n # ts) =
     (case depth of 0 \<Rightarrow> (Inr acc, ts) | Suc d \<Rightarrow> element_string fin d acc ts)"
| "element_string fin depth acc (CharData s # ts) =
     element_string fin depth (if depth = 0 then acc @ s else acc) ts"
| "element_string fin depth acc (OtherToken # ts) = element_string fin depth acc ts"

definition DecodeElement :: "goerr \<Rightarrow> token list \<Rightarrow> (goerr + string) \<times> token list" where
  "DecodeElement fin ts = element_string fin 0 '''' ts"

definition Skip :: "goerr \<Rightarrow> token list \<Rightarrow> (goerr + unit) \<times> token list" where
  "Skip fin ts = skip_element fin 0 ts"

lemma skip_element_length: "length (snd (skip_element fin d ts)) \<le> length ts"
  by (induction fin d ts rule: skip_element.induct) (auto split: nat.split)

lemma element_string_length: "length (snd (element_string fin d acc ts)) \<le> length ts"
  by (induction fin d acc ts rule: element_string.induct) (auto split: nat.split)

lemma Skip_rest [termination_simp]: "(r, rest) = Skip fin ts \<Longrightarrow> length rest < Suc (length ts)"
  using skip_element_length [of fin 0 ts] by (simp add: Skip_def) (metis snd_conv le_imp_less_Suc)

lemma DecodeElement_rest [termination_simp]:
  "(r, rest) = DecodeElement fin ts \<Longrightarrow> length rest < Suc (length ts)"
  using element_string_length [of fin 0 "''''" ts]
  by (simp add: DecodeElement_def) (metis snd_conv le_imp_less_Suc)

section \<open>The envelope\<close>

abbreviation envelopeNS :: string where "envelopeNS \<equiv> ''http://schemas.xmlsoap.org/soap/envelope/''"

definition IsKnownVersion :: "string \<Rightarrow> bool" where
  "IsKnownVersion v \<longleftrightarrow>
     v \<in> set [''urn:dslforum-org:cwmp-1-0'', ''urn:dslforum-org:cwmp-1-1'', ''urn:dslforum-org:cwmp-1-2'']"

record Envelope =
  env_Header :: Header
  env_Method :: string
  IsFault :: bool
  env_Version :: string

definition zero_Header :: Header where
  "zero_Header = \<lparr>hd_ID = '''', HoldRequests = False\<rparr>"

fun expectStart :: "goerr \<Rightarrow> string \<Rightarrow> string \<Rightarrow> token list \<Rightarrow> (goerr + (xml_name \<times> string) list) \<times> token list" where
  "expectStart fin loc ns [] = (Inl fin, [])"
| "expectStart fin loc ns (t # ts) =
     (case t of
        StartElement n a \<Rightarrow>
          if Local n \<noteq> loc \<or> Space n \<noteq> ns then
            (Inl (Errorf ''expected <%s xmlns=%q>, got <%s xmlns=%q>''
                    [ArgS loc, ArgS ns, ArgS (Local n), ArgS (Space n)]), ts)
          else (Inr a, ts)
      | _ \<Rightarrow> expectStart fin loc ns ts)"

fun peekStart :: "goerr \<Rightarrow> token list \<Rightarrow> (goerr + xml_name) \<times> token list" where
  "peekStart fin [] = (Inl fin, [])"
| "peekStart fin (t # ts) =
     (case t of
        StartElement n a \<Rightarrow> (Inr n, ts)
      | EndElement n \<Rightarrow>
          (Inl (Errorf ''unexpected end element %q while expecting start'' [ArgS (Local n)]), ts)
      | _ \<Rightarrow> peekStart fin ts)"

definition versionAccepted :: "string list \<Rightarrow> string \<Rightarrow> bool" where
  "versionAccepted accept v \<longleftrightarrow> accept = [] \<or> v \<in> set accept"

fun detectCWMPVersion :: "string list \<Rightarrow> (xml_name \<times> string) list \<Rightarrow> goerr + string" where
  "detectCWMPVersion accept [] =
     Inl (Errorf ''no recognized CWMP namespace declared on Envelope'' [])"
| "detectCWMPVersion accept ((n, v) # as) =
     (if Space n = ''xmlns'' \<and> IsKnownVersion v then
        (if versionAccepted accept v then Inr v
         else Inl (Errorf ''CWMP version %q not in AcceptVersions'' [ArgS v]))
      else detectCWMPVersion accept as)"

text \<open>\<^verbatim>\<open>readElementString\<close> of the decoder: all character data up to an end element of the same local
  name, also the data inside nested elements.\<close>

fun readElementString :: "goerr \<Rightarrow> string \<Rightarrow> string \<Rightarrow> token list \<Rightarrow> (goerr + string) \<times> token list" where
  "readElementString fin loc acc [] = (Inl fin, [])"
| "readElementString fin loc acc (t # ts) =
     (case t of
        CharData s \<Rightarrow> readElementString fin loc (acc @ s) ts
      | EndElement n \<Rightarrow> if Local n = loc then (Inr acc, ts) else readElementString fin loc acc ts
      | _ \<Rightarrow> readElementString fin loc acc ts)"

lemma readElementString_length: "length (snd (readElementString fin loc acc ts)) \<le> length ts"
  by (induction fin loc acc ts rule: readElementString.induct) (auto split: token.split)

lemma readElementString_rest [termination_simp]:
  "(r, rest) = readElementString fin loc acc ts \<Longrightarrow> length rest < Suc (length ts)"
  using readElementString_length [of fin loc acc ts] by (metis snd_conv le_imp_less_Suc)

fun readHeader :: "goerr \<Rightarrow> string \<Rightarrow> Header \<Rightarrow> token list \<Rightarrow> (goerr + Header) \<times> token list" where
  "readHeader fin cwmpURI h [] = (Inl fin, [])"
| "readHeader fin cwmpURI h (t # ts) =
     (case t of
        StartElement n a \<Rightarrow>
          if Space n \<noteq> cwmpURI then
            (case Skip fin ts of
               (Inl e, rest) \<Rightarrow> (Inl e, rest)
             | (Inr _, rest) \<Rightarrow> readHeader fin cwmpURI h rest)
          else if Local n = ''ID'' then
            (case readElementString fin (Local n) '''' ts of
               (Inl e, rest) \<Rightarrow> (Inl e, rest)
             | (Inr s, rest) \<Rightarrow> readHeader fin cwmpURI (h\<lparr>hd_ID := s\<rparr>) rest)
          else if Local n = ''HoldRequests'' then
            (case readElementString fin (Local n) '''' ts of
               (Inl e, rest) \<Rightarrow> (Inl e, rest)
             | (Inr s, rest) \<Rightarrow>
                 readHeader fin cwmpURI (h\<lparr>HoldRequests := (s = ''1'' \<or> s = ''true'')\<rparr>) rest)
          else
            (case Skip fin ts of
               (Inl e, rest) \<Rightarrow> (Inl e, rest)
             | (Inr _, rest) \<Rightarrow> readHeader fin cwmpURI h rest)
      | EndElement n \<Rightarrow>
          if Space n = envelopeNS \<and> Local n = ''Header'' then (Inr h, ts)
          else readHeader fin cwmpURI h ts
      | _ \<Rightarrow> readHeader fin cwmpURI h ts)"

definition dec_wrap :: "string \<Rightarrow> goerr \<Rightarrow> goerr" where
  "dec_wrap op cause = Wrap (''soap.Decoder.'' @ op) KindInvalidArgument (Some cause)"

text \<open>A header, when there is one, and the start element after it.\<close>

definition read_optional_header ::
  "goerr \<Rightarrow> string \<Rightarrow> xml_name \<Rightarrow> token list \<Rightarrow> (goerr + Header \<times> xml_name) \<times> token list" where
  "read_optional_header fin cwmpURI next ts =
     (if Space next = envelopeNS \<and> Local next = ''Header'' then
        (case readHeader fin cwmpURI zero_Header ts of
           (Inl e, rest) \<Rightarrow> (Inl e, rest)
         | (Inr h, rest) \<Rightarrow>
             (case peekStart fin rest of
                (Inl e, rest') \<Rightarrow> (Inl e, rest')
              | (Inr next', rest') \<Rightarrow> (Inr (h, next'), rest')))
      else (Inr (zero_Header, next), ts))"

definition ReadEnvelope :: "string list \<Rightarrow> goerr \<Rightarrow> token list \<Rightarrow> (goerr + Envelope) \<times> token list" where
  "ReadEnvelope accept fin ts =
     (case expectStart fin ''Envelope'' envelopeNS ts of
        (Inl e, ts1) \<Rightarrow> (Inl (dec_wrap ''ReadEnvelope'' e), ts1)
      | (Inr attr, ts1) \<Rightarrow>
          (case detectCWMPVersion accept attr of
             Inl e \<Rightarrow> (Inl (dec_wrap ''ReadEnvelope'' e), ts1)
           | Inr uri \<Rightarrow>
               (case peekStart fin ts1 of
                  (Inl e, ts2) \<Rightarrow> (Inl (dec_wrap ''ReadEnvelope'' e), ts2)
                | (Inr next, ts2) \<Rightarrow>
                    (case read_optional_header fin uri next ts2 of
                       (Inl e, ts3) \<Rightarrow> (Inl (dec_wrap ''ReadEnvelope'' e), ts3)
                     | (Inr (hdr, body), ts3) \<Rightarrow>
                         if Space body \<noteq> envelopeNS \<or> Local body \<noteq> ''Body'' then
                           (Inl (dec_wrap ''ReadEnvelope''
                              (Errorf ''expected Body, got %q in namespace %q''
                                 [ArgS (Local body), ArgS (Space body)])), ts3)
                         else
                           (case peekStart fin ts3 of
                              (Inl e, ts4) \<Rightarrow> (Inl (dec_wrap ''ReadEnvelope'' e), ts4)
                            | (Inr child, ts4) \<Rightarrow>
                                (Inr \<lparr>env_Header = hdr, env_Method = Local child,
                                      IsFault = (Space child = envelopeNS \<and> Local child = ''Fault''),
                                      env_Version = uri\<rparr>, ts4))))))"

text \<open>The method's own tokens: everything up to its end element, which is swallowed.  After that
  the reader yields \<open>io_EOF\<close>; when the document breaks off first it yields the document's error.\<close>

fun methodTokens :: "goerr \<Rightarrow> nat \<Rightarrow> token list \<Rightarrow> token list \<times> goerr" where
  "methodTokens fin depth [] = ([], fin)"
| "methodTokens fin depth (t # ts) =
     (case t of
        StartElement n a \<Rightarrow> (case methodTokens fin (Suc depth) ts of (out, e) \<Rightarrow> (t # out, e))
      | EndElement n \<Rightarrow>
          if depth \<le> 1 then ([], io_EOF)
          else (case methodTokens fin (depth - 1) ts of (out, e) \<Rightarrow> (t # out, e))
      | _ \<Rightarrow> (case methodTokens fin depth ts of (out, e) \<Rightarrow> (t # out, e)))"

section \<open>Balanced token lists\<close>

fun nesting :: "nat \<Rightarrow> token list \<Rightarrow> nat option" where
  "nesting d [] = Some d"
| "nesting d (StartElement n a # ts) = nesting (Suc d) ts"
| "nesting d (EndElement n # ts) = (case d of 0 \<Rightarrow> None | Suc d' \<Rightarrow> nesting d' ts)"
| "nesting d (CharData s # ts) = nesting d ts"
| "nesting d (OtherToken # ts) = nesting d ts"

text \<open>The content of an element: what the XML decoder returns between a start and its end.\<close>

definition balanced :: "token list \<Rightarrow> bool" where
  "balanced ts \<longleftrightarrow> nesting 0 ts = Some 0"

lemma Skip_balanced_aux:
  "nesting d ts = Some 0 \<Longrightarrow> skip_element fin d (ts @ EndElement n # rest) = (Inr (), rest)"
  by (induction d ts rule: nesting.induct) (auto split: nat.splits)

lemma Skip_balanced: "balanced ts \<Longrightarrow> Skip fin (ts @ EndElement n # rest) = (Inr (), rest)"
  by (simp add: balanced_def Skip_def Skip_balanced_aux)

lemma methodTokens_balanced_aux:
  "nesting d ts = Some 0 \<Longrightarrow> methodTokens fin (Suc d) (ts @ EndElement n # rest) = (ts, io_EOF)"
proof (induction d ts rule: nesting.induct)
  case (3 d n' ts)
  then show ?case by (cases d) auto
qed auto

lemma methodTokens_balanced:
  "balanced ts \<Longrightarrow> methodTokens fin 1 (ts @ EndElement n # rest) = (ts, io_EOF)"
  using methodTokens_balanced_aux [of 0 ts] by (simp add: balanced_def)

lemma DecodeElement_text: "DecodeElement fin (CharData s # EndElement n # rest) = (Inr s, rest)"
  by (simp add: DecodeElement_def)

section \<open>Properties\<close>

text \<open>The tokens of a request as an ACS sends it: an envelope that declares the CWMP namespace, a
  header with the message identifier, and one method element.\<close>

definition acs_request :: "string \<Rightarrow> string \<Rightarrow> string \<Rightarrow> token list \<Rightarrow> token list" where
  "acs_request version ident meth content =
     (let env = (\<lambda>l. \<lparr>Space = envelopeNS, Local = l\<rparr>); cwmp = (\<lambda>l. \<lparr>Space = version, Local = l\<rparr>)
      in [OtherToken,
          StartElement (env ''Envelope'')
            [(\<lparr>Space = ''xmlns'', Local = ''soapenv''\<rparr>, envelopeNS),
             (\<lparr>Space = ''xmlns'', Local = ''cwmp''\<rparr>, version)],
          CharData NL,
          StartElement (env ''Header'') [],
          StartElement (cwmp ''ID'') [(env ''mustUnderstand'', ''1'')], CharData ident,
          EndElement (cwmp ''ID''),
          EndElement (env ''Header''),
          StartElement (env ''Body'') [],
          StartElement (cwmp meth) []]
         @ content
         @ [EndElement (cwmp meth), EndElement (env ''Body''), EndElement (env ''Envelope'')])"

text \<open>Decoding a well-formed request of a known CWMP version yields its identifier and method, is
  no fault, and hands the method's handler exactly the tokens inside the method element.\<close>

theorem ReadEnvelope_request:
  assumes "IsKnownVersion version" and "versionAccepted accept version" and "balanced content"
  shows "\<exists>env rest. ReadEnvelope accept fin (acs_request version ident meth content) = (Inr env, rest)
    \<and> hd_ID (env_Header env) = ident \<and> env_Method env = meth \<and> \<not> IsFault env
    \<and> env_Version env = version \<and> methodTokens fin 1 rest = (content, io_EOF)"
proof -
  have "\<not> IsKnownVersion envelopeNS" by (simp add: IsKnownVersion_def)
  moreover have "version \<noteq> envelopeNS" using assms(1) by (auto simp: IsKnownVersion_def)
  ultimately show ?thesis
    using assms methodTokens_balanced [OF assms(3)]
    by (simp add: ReadEnvelope_def acs_request_def Let_def read_optional_header_def zero_Header_def)
qed

theorem ReadEnvelope_request_witness:
  "\<exists>env rest. ReadEnvelope [] io_EOF
      (acs_request ''urn:dslforum-org:cwmp-1-1'' ''7'' ''Reboot''
         [StartElement \<lparr>Space = '''', Local = ''CommandKey''\<rparr> [], CharData ''k'',
          EndElement \<lparr>Space = '''', Local = ''CommandKey''\<rparr>]) = (Inr env, rest)
     \<and> hd_ID (env_Header env) = ''7'' \<and> env_Method env = ''Reboot''"
  using ReadEnvelope_request [of "''urn:dslforum-org:cwmp-1-1''" "[]"
      "[StartElement \<lparr>Space = '''', Local = ''CommandKey''\<rparr> [], CharData ''k'',
        EndElement \<lparr>Space = '''', Local = ''CommandKey''\<rparr>]" io_EOF "''7''" "''Reboot''"]
  by (auto simp: IsKnownVersion_def versionAccepted_def balanced_def)

end
