(* ===== verification/Inform.thy ===== *)
theory Inform
  imports Wire ParamTree
begin

text \<open>
  Package \<^verbatim>\<open>inform\<close> (\<^verbatim>\<open>src/internal/cwmp/inform\<close>): the builder that turns the tree, the event list
  and the retry count into an Inform, and the renderer of its body.  A builder holds a pointer
  to the tree; here the tree is an argument, the state at the moment of the call.  The clock is
  the time it returns.
\<close>

section \<open>Types\<close>

abbreviation EventBootstrap :: string where "EventBootstrap \<equiv> ''0 BOOTSTRAP''"
abbreviation EventBoot :: string where "EventBoot \<equiv> ''1 BOOT''"
abbreviation EventPeriodic :: string where "EventPeriodic \<equiv> ''2 PERIODIC''"
abbreviation EventValueChange :: string where "EventValueChange \<equiv> ''4 VALUE CHANGE''"
abbreviation EventConnectionRequest :: string where "EventConnectionRequest \<equiv> ''6 CONNECTION REQUEST''"
abbreviation EventTransferComplete :: string where "EventTransferComplete \<equiv> ''7 TRANSFER COMPLETE''"
abbreviation EventDUStateChange :: string where "EventDUStateChange \<equiv> ''11 DU STATE CHANGE COMPLETE''"
abbreviation EventMethodReboot :: string where "EventMethodReboot \<equiv> ''M Reboot''"
abbreviation EventMethodScheduleInform :: string where "EventMethodScheduleInform \<equiv> ''M ScheduleInform''"
abbreviation EventMethodDownload :: string where "EventMethodDownload \<equiv> ''M Download''"
abbreviation EventMethodUpload :: string where "EventMethodUpload \<equiv> ''M Upload''"
abbreviation EventMethodChangeDUState :: string where "EventMethodChangeDUState \<equiv> ''M ChangeDUState''"

record Event =
  EventCode :: string
  CommandKey :: string

definition event :: "string \<Rightarrow> Event" where
  "event code = \<lparr>EventCode = code, CommandKey = ''''\<rparr>"

record DeviceID =
  Manufacturer :: string
  OUI :: string
  ProductClass :: string
  SerialNumber :: string

record Parameter =
  pm_Name :: string
  pm_Value :: Value

record Inform =
  in_DeviceID :: DeviceID
  in_Events :: "Event list"
  in_MaxEnvelopes :: nat
  in_CurrentTime :: Time
  in_RetryCount :: nat
  in_Parameters :: "Parameter list"

type_synonym ParameterLists = "(string \<times> string list) list"

text \<open>The paths of the DeviceId block have the same four fields.\<close>

record Builder =
  deviceIDPaths :: DeviceID
  parameterLists :: ParameterLists
  maxEnvelopes_opt :: nat

definition maxEnvelopes :: "nat \<Rightarrow> nat" where
  "maxEnvelopes v = (if v = 0 then 1 else v)"

section \<open>Building\<close>

fun check_paths :: "Tree \<Rightarrow> (string \<times> string) list \<Rightarrow> goerr + unit" where
  "check_paths t [] = Inr ()"
| "check_paths t ((field, path) # es) =
     (if path = '''' then
        Inl (Wrap ''inform.NewBuilder'' KindInvalidArgument
          (Some (Errorf ''DeviceIDPaths.%s is required (no TR-181 default; declare deviceIdPaths in the vendor profile)''
             [ArgS field])))
      else (case Get path t of
              Inl e \<Rightarrow> Inl (Wrap ''inform.NewBuilder'' KindInvalidArgument
                        (Some (Errorf ''DeviceIDPaths.%s path %q: %w'' [ArgS field, ArgS path, ArgW e])))
            | Inr _ \<Rightarrow> check_paths t es))"

definition NewBuilder :: "Tree \<Rightarrow> DeviceID \<Rightarrow> ParameterLists \<Rightarrow> nat \<Rightarrow> goerr + Builder" where
  "NewBuilder t paths plists maxEnv =
     (case check_paths t [(''Manufacturer'', Manufacturer paths), (''OUI'', OUI paths),
                          (''ProductClass'', ProductClass paths), (''SerialNumber'', SerialNumber paths)] of
        Inl e \<Rightarrow> Inl e
      | Inr _ \<Rightarrow> Inr \<lparr>deviceIDPaths = paths, parameterLists = plists, maxEnvelopes_opt = maxEnv\<rparr>)"

definition read_id :: "Tree \<Rightarrow> string \<Rightarrow> goerr + string" where
  "read_id t path =
     (case Get path t of
        Inl e \<Rightarrow> Inl (Wrap ''inform.Build'' KindInvalidArgument
                  (Some (Errorf ''read %s: %w'' [ArgS path, ArgW e])))
      | Inr v \<Rightarrow> Inr (Raw v))"

definition readDeviceID :: "Builder \<Rightarrow> Tree \<Rightarrow> goerr + DeviceID" where
  "readDeviceID b t =
     (case read_id t (Manufacturer (deviceIDPaths b)) of Inl e \<Rightarrow> Inl e | Inr m \<Rightarrow>
     (case read_id t (OUI (deviceIDPaths b)) of Inl e \<Rightarrow> Inl e | Inr oui \<Rightarrow>
     (case read_id t (ProductClass (deviceIDPaths b)) of Inl e \<Rightarrow> Inl e | Inr pc \<Rightarrow>
     (case read_id t (SerialNumber (deviceIDPaths b)) of Inl e \<Rightarrow> Inl e | Inr sn \<Rightarrow>
       Inr \<lparr>Manufacturer = m, OUI = oui, ProductClass = pc, SerialNumber = sn\<rparr>))))"

text \<open>The two nested loops that gather the paths: \<open>seen\<close> is the set, \<open>paths\<close> the result so far.\<close>

fun add_paths :: "string list \<Rightarrow> string list \<Rightarrow> string list" where
  "add_paths paths [] = paths"
| "add_paths paths (p # ps) = (if p \<in> set paths then add_paths paths ps else add_paths (paths @ [p]) ps)"

definition lists_of :: "ParameterLists \<Rightarrow> string \<Rightarrow> string list" where
  "lists_of plists code = (case map_of plists code of None \<Rightarrow> [] | Some ps \<Rightarrow> ps)"

fun gather_paths :: "ParameterLists \<Rightarrow> string list \<Rightarrow> Event list \<Rightarrow> string list" where
  "gather_paths plists paths [] = paths"
| "gather_paths plists paths (e # es) =
     gather_paths plists (add_paths paths (lists_of plists (EventCode e))) es"

fun read_parameters :: "Tree \<Rightarrow> string list \<Rightarrow> goerr + Parameter list" where
  "read_parameters t [] = Inr []"
| "read_parameters t (p # ps) =
     (case Get p t of
        Inl e \<Rightarrow> Inl (Wrap ''inform.Build'' KindInvalidArgument
                  (Some (Errorf ''read parameter %s: %w'' [ArgS p, ArgW e])))
      | Inr v \<Rightarrow>
          (case read_parameters t ps of
             Inl e \<Rightarrow> Inl e
           | Inr out \<Rightarrow> Inr (\<lparr>pm_Name = p, pm_Value = v\<rparr> # out)))"

definition collectParameters :: "Builder \<Rightarrow> Tree \<Rightarrow> Event list \<Rightarrow> goerr + Parameter list" where
  "collectParameters b t events = read_parameters t (gather_paths (parameterLists b) [] events)"

definition Build :: "Builder \<Rightarrow> Time \<Rightarrow> Event list \<Rightarrow> nat \<Rightarrow> Tree \<Rightarrow> goerr + Inform" where
  "Build b now events retryCount t =
     (if length events = 0 then
        Inl (Wrap ''inform.Build'' KindInvalidArgument (Some (Errorf ''events is empty'' [])))
      else (case readDeviceID b t of
              Inl e \<Rightarrow> Inl e
            | Inr deviceID \<Rightarrow>
                (case collectParameters b t events of
                   Inl e \<Rightarrow> Inl e
                 | Inr params \<Rightarrow>
                     Inr \<lparr>in_DeviceID = deviceID, in_Events = events,
                          in_MaxEnvelopes = maxEnvelopes (maxEnvelopes_opt b),
                          in_CurrentTime = now, in_RetryCount = retryCount,
                          in_Parameters = params\<rparr>)))"

section \<open>Rendering\<close>

definition writeDeviceID :: "DeviceID \<Rightarrow> string" where
  "writeDeviceID d =
     ''      <DeviceId>'' @ NL
     @ tag ''        '' ''Manufacturer'' (escape (Manufacturer d))
     @ tag ''        '' ''OUI'' (escape (OUI d))
     @ tag ''        '' ''ProductClass'' (escape (ProductClass d))
     @ tag ''        '' ''SerialNumber'' (escape (SerialNumber d))
     @ ''      </DeviceId>'' @ NL"

definition write_event :: "Event \<Rightarrow> string" where
  "write_event e =
     ''        <EventStruct>'' @ NL
     @ tag ''          '' ''EventCode'' (escape (EventCode e))
     @ tag ''          '' ''CommandKey'' (escape (CommandKey e))
     @ ''        </EventStruct>'' @ NL"

definition writeEvents :: "Event list \<Rightarrow> string" where
  "writeEvents events =
     (if events = [] then ''      <Event></Event>'' @ NL
      else ''      <Event>'' @ NL @ concat (map write_event events) @ ''      </Event>'' @ NL)"

fun write_params :: "Parameter list \<Rightarrow> goerr + string" where
  "write_params [] = Inr ''''"
| "write_params (p # ps) =
     (case Marshal (VType (pm_Value p)) (Raw (pm_Value p)) of
        Inl e \<Rightarrow> Inl (Wrap ''inform.Render'' KindInvalidArgument
                  (Some (Errorf ''parameter %s: %w'' [ArgS (pm_Name p), ArgW e])))
      | Inr canon \<Rightarrow>
          (case write_params ps of
             Inl e \<Rightarrow> Inl e
           | Inr rest \<Rightarrow>
               Inr (''        <ParameterValueStruct>'' @ NL
                 @ tag ''          '' ''Name'' (escape (pm_Name p))
                 @ ''          <Value xsi:type='' @ DQ @ VType (pm_Value p) @ DQ @ ''>''
                 @ escape canon @ ''</Value>'' @ NL
                 @ ''        </ParameterValueStruct>'' @ NL @ rest)))"

definition writeParameters :: "Parameter list \<Rightarrow> goerr + string" where
  "writeParameters params =
     (if params = [] then Inr (''      <ParameterList></ParameterList>'' @ NL)
      else (case write_params params of
              Inl e \<Rightarrow> Inl e
            | Inr s \<Rightarrow> Inr (''      <ParameterList>'' @ NL @ s @ ''      </ParameterList>'' @ NL)))"

text \<open>\<^verbatim>\<open>time.RFC3339\<close> has no fraction.\<close>

definition format_seconds :: "gotime \<Rightarrow> string" where
  "format_seconds t = format_rfc3339 (t\<lparr>t_nsec := 0\<rparr>)"

definition Render :: "Inform \<Rightarrow> goerr + string" where
  "Render im =
     (case writeParameters (in_Parameters im) of
        Inl e \<Rightarrow> Inl e
      | Inr params \<Rightarrow>
          Inr (writeDeviceID (in_DeviceID im) @ writeEvents (in_Events im)
            @ tag ''      '' ''MaxEnvelopes'' (show_nat (maxEnvelopes (in_MaxEnvelopes im)))
            @ tag ''      '' ''CurrentTime'' (format_seconds (to_UTC (in_CurrentTime im)))
            @ tag ''      '' ''RetryCount'' (show_nat (in_RetryCount im))
            @ params))"

section \<open>The parameter list\<close>


lemma add_paths_set: "set (add_paths paths ps) = set paths \<union> set ps"
  by (induction paths ps rule: add_paths.induct) auto

lemma add_paths_distinct: "distinct paths \<Longrightarrow> distinct (add_paths paths ps)"
  by (induction paths ps rule: add_paths.induct) auto

lemma add_paths_prefix: "prefix paths (add_paths paths ps)"
  by (induction paths ps rule: add_paths.induct) (auto dest: append_prefixD)

lemma gather_paths_set:
  "set (gather_paths plists paths es) = set paths \<union> (\<Union>e \<in> set es. set (lists_of plists (EventCode e)))"
  by (induction plists paths es rule: gather_paths.induct) (auto simp: add_paths_set)

lemma gather_paths_distinct: "distinct paths \<Longrightarrow> distinct (gather_paths plists paths es)"
  by (induction plists paths es rule: gather_paths.induct) (auto simp: add_paths_distinct)

lemma gather_paths_prefix: "prefix paths (gather_paths plists paths es)"
  by (induction plists paths es rule: gather_paths.induct)
    (auto intro: prefix_order.trans add_paths_prefix)

lemma Parameter_eq:
  fixes q :: Parameter
  shows "\<lparr>pm_Name = p, pm_Value = v\<rparr> = q \<longleftrightarrow> pm_Name q = p \<and> pm_Value q = v"
  by (cases q) auto

lemma read_parameters_Inr:
  "read_parameters t ps = Inr out \<longleftrightarrow>
     list_all2 (\<lambda>p q. pm_Name q = p \<and> Get p t = Inr (pm_Value q)) ps out"
proof (induction ps arbitrary: out)
  case (Cons p ps)
  show ?case
  proof (cases "read_parameters t ps")
    case (Inl e)
    then have "\<not> list_all2 (\<lambda>p q. pm_Name q = p \<and> Get p t = Inr (pm_Value q)) ps out'" for out' :: "Parameter list"
      using Cons.IH [of out'] by simp
    with Inl show ?thesis by (auto simp: list_all2_Cons1 split: sum.split)
  next
    case (Inr rest)
    then have "list_all2 (\<lambda>p q. pm_Name q = p \<and> Get p t = Inr (pm_Value q)) ps out' \<longleftrightarrow> out' = rest" for out' :: "Parameter list"
      using Cons.IH [of out'] by auto
    with Inr show ?thesis
      by (cases "Get p t"; cases out) (simp_all add: Parameter_eq, blast)
  qed
qed auto

lemma Build_Inr:
  "Build b now events rc t = Inr im \<longleftrightarrow>
     events \<noteq> [] \<and> readDeviceID b t = Inr (in_DeviceID im)
     \<and> collectParameters b t events = Inr (in_Parameters im)
     \<and> in_Events im = events \<and> in_MaxEnvelopes im = maxEnvelopes (maxEnvelopes_opt b)
     \<and> in_CurrentTime im = now \<and> in_RetryCount im = rc"
  by (cases im) (auto simp: Build_def split: sum.splits)

section \<open>Properties\<close>

text \<open>An Inform reports, once each, exactly the paths configured for one of its events, with their
  current values, and the paths of the first event come first in their configured order.\<close>

theorem Build_parameters:
  assumes "Build b now (e # es) rc t = Inr im"
  shows "distinct (map pm_Name (in_Parameters im))
    \<and> set (map pm_Name (in_Parameters im)) =
        (\<Union>e' \<in> set (e # es). set (lists_of (parameterLists b) (EventCode e')))
    \<and> (\<forall>p \<in> set (in_Parameters im). Get (pm_Name p) t = Inr (pm_Value p))
    \<and> prefix (add_paths [] (lists_of (parameterLists b) (EventCode e))) (map pm_Name (in_Parameters im))"
proof -
  let ?paths = "gather_paths (parameterLists b) [] (e # es)"
  have all2: "list_all2 (\<lambda>p q. pm_Name q = p \<and> Get p t = Inr (pm_Value q)) ?paths (in_Parameters im)"
    using assms by (simp add: Build_Inr collectParameters_def read_parameters_Inr)
  have names: "map pm_Name (in_Parameters im) = ?paths"
    using all2 by (induction rule: list_all2_induct) simp_all
  moreover have "\<forall>p \<in> set (in_Parameters im). Get (pm_Name p) t = Inr (pm_Value p)"
    using all2 by (induction rule: list_all2_induct) auto
  ultimately show ?thesis
    using gather_paths_distinct [of "[]" "parameterLists b" "e # es"]
      gather_paths_set [of "parameterLists b" "[]" "e # es"]
      gather_paths_prefix [of "add_paths [] (lists_of (parameterLists b) (EventCode e))" "parameterLists b" es]
    by simp
qed

text \<open>With the four DeviceId paths resolving when the builder is made, the only way \<^verbatim>\<open>Build\<close> can
  fail on the same tree is an empty event list or a configured path that is no leaf.\<close>

theorem Build_succeeds:
  assumes "NewBuilder t paths plists maxEnv = Inr b" and "events \<noteq> []"
    and "\<forall>e \<in> set events. \<forall>p \<in> set (lists_of plists (EventCode e)). \<not> is_err (Get p t)"
  shows "\<exists>im. Build b now events rc t = Inr im"
proof -
  have b: "b = \<lparr>deviceIDPaths = paths, parameterLists = plists, maxEnvelopes_opt = maxEnv\<rparr>"
    using assms(1) by (auto simp: NewBuilder_def split: sum.splits)
  have "\<exists>d. readDeviceID b t = Inr d"
    using assms(1)
    by (auto simp: b NewBuilder_def readDeviceID_def read_id_def split: sum.splits if_splits)
  moreover have "\<exists>out. read_parameters t ps = Inr out" if "\<forall>p \<in> set ps. \<not> is_err (Get p t)" for ps
    using that by (induction ps) (auto simp: not_is_err_conv)
  then have "\<exists>out. collectParameters b t events = Inr out"
    using assms(3) by (simp add: collectParameters_def b gather_paths_set)
  ultimately show ?thesis using assms(2) by (auto simp: Build_def)
qed

section \<open>Witnesses\<close>

definition demo_paths :: DeviceID where
  "demo_paths = \<lparr>Manufacturer = ''Device.Name'', OUI = ''Device.Serial'',
     ProductClass = ''Device.Name'', SerialNumber = ''Device.Serial''\<rparr>"

definition demo_lists :: ParameterLists where
  "demo_lists = [(EventBoot, [''Device.Name'', ''Device.Port'']), (EventBootstrap, [''Device.Port'', ''Device.Serial''])]"

definition demo_builder :: Builder where
  "demo_builder = \<lparr>deviceIDPaths = demo_paths, parameterLists = demo_lists, maxEnvelopes_opt = 0\<rparr>"

definition demo_time :: Time where
  "demo_time = (\<lparr>t_year = 2024, t_month = 1, t_day = 1, t_hour = 0, t_min = 0, t_sec = 0, t_nsec = 0\<rparr>, 0)"

lemma demo_NewBuilder: "NewBuilder demo_tree demo_paths demo_lists 0 = Inr demo_builder"
  by (simp add: NewBuilder_def demo_builder_def demo_paths_def tree_eval)

lemma demo_lists_readable:
  "\<forall>e \<in> set [event EventBoot, event EventBootstrap].
     \<forall>p \<in> set (lists_of demo_lists (EventCode e)). \<not> is_err (Get p demo_tree)"
  by (simp add: event_def demo_lists_def lists_of_def tree_eval)

theorem Build_succeeds_witness:
  "\<exists>im. Build demo_builder demo_time [event EventBoot, event EventBootstrap] 0 demo_tree = Inr im"
  by (rule Build_succeeds [OF demo_NewBuilder _ demo_lists_readable]) simp

definition demo_inform :: Inform where
  "demo_inform = (case Build demo_builder demo_time [event EventBoot, event EventBootstrap] 0 demo_tree of
     Inr im \<Rightarrow> im)"

lemma demo_Build:
  "Build demo_builder demo_time [event EventBoot, event EventBootstrap] 0 demo_tree = Inr demo_inform"
  by (simp add: demo_inform_def Build_def demo_builder_def demo_paths_def demo_lists_def readDeviceID_def
      read_id_def collectParameters_def lists_of_def event_def tree_eval)

theorem Build_parameters_witness:
  "set (map pm_Name (in_Parameters demo_inform)) = {''Device.Name'', ''Device.Port'', ''Device.Serial''}"
  using Build_parameters [OF demo_Build]
  by (auto simp: demo_builder_def demo_lists_def event_def lists_of_def)

end
