(* ===== verification/Session.thy ===== *)
theory Session
  imports SoapDecoder Inform
begin

text \<open>
  One CWMP session (\<^verbatim>\<open>src/internal/cwmp/session.go\<close>, \<^verbatim>\<open>src/internal/cwmp/handler.go\<close>).  The ACS and
  the HTTP transport are the environment: a script of replies, one for each POST of the CPE,
  over which every statement quantifies; a script that ends is a transport that fails from then
  on, as it does when the session's deadline passes.  The handlers act on a state of their own
  type, which the session only threads through.  \<open>sent\<close> collects what the CPE posts.
\<close>

section \<open>Types\<close>

datatype herr = FaultError Fault | PlainError goerr

type_synonym request = "token list \<times> goerr"

type_synonym 's handler = "request \<Rightarrow> 's \<Rightarrow> (herr + string) \<times> 's"

text \<open>What \<^verbatim>\<open>transport.Send\<close> returns: an error, the status 204, or a body, of which the session
  needs to know whether it is blank and which tokens it holds.\<close>

datatype reply =
    SendError goerr
  | Status204
  | Message bool "token list" goerr

record 's Session =
  handlers :: "(string \<times> 's handler) list"
  encOpts :: EncoderOptions
  acceptVersions :: "string list"

type_synonym rpc = "string \<times> string"

abbreviation faultMethodNotSupported :: int where "faultMethodNotSupported \<equiv> 9000"
abbreviation faultInternalError :: int where "faultInternalError \<equiv> 9002"

text \<open>The state of a running session: the handlers' state, the replies to come, the posts so far
  and the counter of the identifier generator.\<close>

record 's run =
  world :: 's
  script :: "reply list"
  sent :: "string option list"
  next_id :: nat

section \<open>Sending\<close>

definition run_err :: "Kind \<Rightarrow> goerr \<Rightarrow> goerr" where
  "run_err k e = Wrap ''cwmp.Session.Run'' k (Some e)"

definition deadline_exceeded :: goerr where
  "deadline_exceeded = Errorf ''context deadline exceeded'' []"

text \<open>\<^verbatim>\<open>send\<close>: \<^const>\<open>None\<close> is the empty body, also for status 204.\<close>

definition send :: "string option \<Rightarrow> 's run \<Rightarrow> (goerr + request option) \<times> 's run" where
  "send body r =
     (let r' = r\<lparr>script := tl (script r), sent := sent r @ [body]\<rparr>
      in case script r of
           [] \<Rightarrow> (Inl (run_err KindInternal deadline_exceeded), r')
         | SendError e # _ \<Rightarrow> (Inl (run_err KindInternal e), r')
         | Status204 # _ \<Rightarrow> (Inr None, r')
         | Message blank ts fin # _ \<Rightarrow> (Inr (if blank then None else Some (ts, fin)), r'))"

definition encodeRequest :: "EncoderOptions \<Rightarrow> string \<Rightarrow> string \<Rightarrow> goerr + string \<Rightarrow> goerr + string" where
  "encodeRequest opts ident method body =
     (let o' = withDefaults opts in
      case WriteRequest o' \<lparr>hd_ID = ident, HoldRequests = False\<rparr> method of
        Inl e \<Rightarrow> Inl (Wrap ''cwmp.Session.encode'' KindInternal (Some e))
      | Inr start \<Rightarrow>
          (case body of
             Inl e \<Rightarrow> Inl (Wrap ''cwmp.Session.encode'' KindInternal (Some e))
           | Inr b \<Rightarrow> Inr (start @ b @ MethodWriter_Close o' method)))"

definition encodeFault :: "EncoderOptions \<Rightarrow> string \<Rightarrow> Fault \<Rightarrow> string" where
  "encodeFault opts ident f = WriteFault (withDefaults opts) \<lparr>hd_ID = ident, HoldRequests = False\<rparr> f"

text \<open>The default identifier generator counts from one.\<close>

definition nextID :: "'s run \<Rightarrow> string \<times> 's run" where
  "nextID r = (show_nat (Suc (next_id r) mod 2 ^ 64), r\<lparr>next_id := Suc (next_id r) mod 2 ^ 64\<rparr>)"

section \<open>Responses of the ACS\<close>

definition validateMethodResponse :: "'s Session \<Rightarrow> request \<Rightarrow> string \<Rightarrow> goerr + unit" where
  "validateMethodResponse s msg expectedMethod =
     (case ReadEnvelope (acceptVersions s) (snd msg) (fst msg) of
        (Inl e, _) \<Rightarrow> Inl (run_err KindInvalidArgument e)
      | (Inr env, _) \<Rightarrow>
          if IsFault env then
            Inl (run_err KindInvalidArgument (Errorf ''ACS returned fault on %s'' [ArgS expectedMethod]))
          else if env_Method env \<noteq> expectedMethod then
            Inl (run_err KindInvalidArgument
              (Errorf ''expected %s, got %q'' [ArgS expectedMethod, ArgS (env_Method env)]))
          else Inr ())"

definition validateInformResponse :: "'s Session \<Rightarrow> request \<Rightarrow> goerr + unit" where
  "validateInformResponse s msg =
     (case ReadEnvelope (acceptVersions s) (snd msg) (fst msg) of
        (Inl e, _) \<Rightarrow> Inl (run_err KindInvalidArgument e)
      | (Inr env, _) \<Rightarrow>
          if IsFault env then
            Inl (run_err KindInvalidArgument (Errorf ''ACS returned fault on Inform'' []))
          else if env_Method env \<noteq> ''InformResponse'' then
            Inl (run_err KindInvalidArgument
              (Errorf ''expected InformResponse, got %q'' [ArgS (env_Method env)]))
          else Inr ())"

section \<open>Dispatch\<close>

definition dispatch :: "'s Session \<Rightarrow> string \<Rightarrow> string \<Rightarrow> request \<Rightarrow> 's \<Rightarrow> (goerr + string) \<times> 's" where
  "dispatch s method requestID req w =
     (case map_of (handlers s) method of
        None \<Rightarrow>
          (Inr (encodeFault (encOpts s) requestID
             \<lparr>ft_FaultCode = faultMethodNotSupported, ft_FaultString = ''Method not supported'',
              ft_SetFaults = []\<rparr>), w)
      | Some h \<Rightarrow>
          (case h req w of
             (Inl (FaultError f), w') \<Rightarrow> (Inr (encodeFault (encOpts s) requestID f), w')
           | (Inl (PlainError e), w') \<Rightarrow>
               (Inr (encodeFault (encOpts s) requestID
                  \<lparr>ft_FaultCode = faultInternalError, ft_FaultString = Error_text e, ft_SetFaults = []\<rparr>), w')
           | (Inr body, w') \<Rightarrow>
               (encodeRequest (encOpts s) requestID (method @ ''Response'') (Inr body), w')))"

definition handleACSMessage :: "'s Session \<Rightarrow> request \<Rightarrow> 's \<Rightarrow> (goerr + string) \<times> 's" where
  "handleACSMessage s msg w =
     (case ReadEnvelope (acceptVersions s) (snd msg) (fst msg) of
        (Inl e, _) \<Rightarrow> (Inl (run_err KindInvalidArgument e), w)
      | (Inr env, rest) \<Rightarrow>
          if IsFault env then
            (Inl (run_err KindInvalidArgument (Errorf ''ACS returned fault during drain'' [])), w)
          else dispatch s (env_Method env) (hd_ID (env_Header env)) (methodTokens (snd msg) 1 rest) w)"

section \<open>The session\<close>

definition sendInform ::
  "'s Session \<Rightarrow> ('s \<Rightarrow> goerr + Inform) \<Rightarrow> 's run \<Rightarrow> (goerr + unit) \<times> 's run" where
  "sendInform s build r =
     (case build (world r) of
        Inl e \<Rightarrow> (Inl (run_err KindInvalidArgument e), r)
      | Inr im \<Rightarrow>
          (let (ident, r1) = nextID r in
           case encodeRequest (encOpts s) ident ''Inform'' (Render im) of
             Inl e \<Rightarrow> (Inl e, r1)
           | Inr envelope \<Rightarrow>
               (case send (Some envelope) r1 of
                  (Inl e, r2) \<Rightarrow> (Inl e, r2)
                | (Inr None, r2) \<Rightarrow>
                    (Inl (run_err KindInvalidArgument
                       (Errorf ''ACS closed session before InformResponse'' [])), r2)
                | (Inr (Some msg), r2) \<Rightarrow> (validateInformResponse s msg, r2))))"

definition sendCPEInitiated :: "'s Session \<Rightarrow> rpc \<Rightarrow> 's run \<Rightarrow> (goerr + unit) \<times> 's run" where
  "sendCPEInitiated s rpc r =
     (let (ident, r1) = nextID r in
      case encodeRequest (encOpts s) ident (fst rpc) (Inr (snd rpc)) of
        Inl e \<Rightarrow> (Inl e, r1)
      | Inr envelope \<Rightarrow>
          (case send (Some envelope) r1 of
             (Inl e, r2) \<Rightarrow> (Inl e, r2)
           | (Inr None, r2) \<Rightarrow>
               (Inl (run_err KindInvalidArgument
                  (Errorf ''ACS closed session before %sResponse'' [ArgS (fst rpc)])), r2)
           | (Inr (Some msg), r2) \<Rightarrow> (validateMethodResponse s msg (fst rpc @ ''Response''), r2)))"

fun send_rpcs :: "'s Session \<Rightarrow> rpc list \<Rightarrow> 's run \<Rightarrow> (goerr + unit) \<times> 's run" where
  "send_rpcs s [] r = (Inr (), r)"
| "send_rpcs s (rpc # rpcs) r =
     (case sendCPEInitiated s rpc r of
        (Inl e, r') \<Rightarrow> (Inl e, r')
      | (Inr _, r') \<Rightarrow> send_rpcs s rpcs r')"

lemma send_script: "send body r = (x, r') \<Longrightarrow> script r' = tl (script r)"
  by (auto simp: send_def Let_def split: list.splits reply.splits)

lemma send_Inr_script: "send body r = (Inr x, r') \<Longrightarrow> length (script r') < length (script r)"
  by (auto simp: send_def Let_def split: list.splits reply.splits)

text \<open>The drain loop ends because each round takes one reply of the script.\<close>

function drain_loop :: "'s Session \<Rightarrow> string option \<Rightarrow> 's run \<Rightarrow> (goerr + unit) \<times> 's run" where
  "drain_loop s outbound r =
     (case send outbound r of
        (Inl e, r1) \<Rightarrow> (Inl e, r1)
      | (Inr None, r1) \<Rightarrow> (Inr (), r1)
      | (Inr (Some msg), r1) \<Rightarrow>
          (case handleACSMessage s msg (world r1) of
             (Inl e, w) \<Rightarrow> (Inl e, r1\<lparr>world := w\<rparr>)
           | (Inr out, w) \<Rightarrow> drain_loop s (Some out) (r1\<lparr>world := w\<rparr>)))"
  by pat_completeness auto
termination
  by (relation "measure (\<lambda>(s, outbound, r). length (script r))") (auto dest!: send_Inr_script [OF sym])

declare drain_loop.simps [simp del]

definition Run ::
  "'s Session \<Rightarrow> ('s \<Rightarrow> goerr + Inform) \<Rightarrow> rpc list \<Rightarrow> 's run \<Rightarrow> (goerr + unit) \<times> 's run" where
  "Run s build pendingCPERPCs r =
     (case sendInform s build r of
        (Inl e, r1) \<Rightarrow> (Inl e, r1)
      | (Inr _, r1) \<Rightarrow>
          (case send_rpcs s pendingCPERPCs r1 of
             (Inl e, r2) \<Rightarrow> (Inl e, r2)
           | (Inr _, r2) \<Rightarrow> drain_loop s None r2))"

text \<open>\<^verbatim>\<open>NewSession\<close>: the handler table has one entry per method name, and no empty name.  The checks for
  a missing transport, builder or logger concern nil pointers, which have no counterpart here.\<close>

fun register_handlers ::
  "(string \<times> 's handler) list \<Rightarrow> (string \<times> 's handler) list \<Rightarrow> goerr + (string \<times> 's handler) list" where
  "register_handlers tab [] = Inr tab"
| "register_handlers tab ((method, h) # hs) =
     (if method = '''' then
        Inl (Wrap ''cwmp.NewSession'' KindInvalidArgument
               (Some (Errorf ''handler returned empty Method()'' [])))
      else if map_of tab method \<noteq> None then
        Inl (Wrap ''cwmp.NewSession'' KindInvalidArgument
               (Some (Errorf ''duplicate handler for method %q'' [ArgS method])))
      else register_handlers (AList.update method h tab) hs)"

definition NewSession ::
  "(string \<times> 's handler) list \<Rightarrow> EncoderOptions \<Rightarrow> string list \<Rightarrow> goerr + 's Session" where
  "NewSession hs opts accept =
     (case register_handlers [] hs of
        Inl e \<Rightarrow> Inl e
      | Inr tab \<Rightarrow> Inr \<lparr>handlers = tab, encOpts = opts, acceptVersions = accept\<rparr>)"

section \<open>What a reply means\<close>

definition acks :: "'s Session \<Rightarrow> reply \<Rightarrow> string \<Rightarrow> bool" where
  "acks s m method \<longleftrightarrow>
     (\<exists>ts fin. m = Message False ts fin \<and> validateMethodResponse s (ts, fin) method = Inr ())"

definition closes :: "reply \<Rightarrow> bool" where
  "closes m \<longleftrightarrow> m = Status204 \<or> (\<exists>ts fin. m = Message True ts fin)"

lemma validateInformResponse_iff:
  "validateInformResponse s msg = Inr () \<longleftrightarrow> validateMethodResponse s msg ''InformResponse'' = Inr ()"
  by (auto simp: validateInformResponse_def validateMethodResponse_def split: prod.split sum.split)

lemma send_Inr:
  assumes "send body r = (Inr x, r')"
  shows "\<exists>m rest. script r = m # rest \<and> script r' = rest \<and> sent r' = sent r @ [body]
    \<and> world r' = world r \<and> next_id r' = next_id r
    \<and> (case x of None \<Rightarrow> closes m | Some (ts, fin) \<Rightarrow> m = Message False ts fin)"
  using assms by (auto simp: send_def Let_def closes_def split: list.splits reply.splits if_splits)

lemma nextID_run [simp]:
  "script (snd (nextID r)) = script r" "sent (snd (nextID r)) = sent r" "world (snd (nextID r)) = world r"
  by (simp_all add: nextID_def)

lemma sendInform_ok:
  assumes "sendInform s build r = (Inr (), r')"
  shows "\<exists>m. script r = m # script r' \<and> acks s m ''InformResponse''
    \<and> (\<exists>im ident. build (world r) = Inr im \<and>
        (\<exists>envelope. encodeRequest (encOpts s) ident ''Inform'' (Render im) = Inr envelope
           \<and> sent r' = sent r @ [Some envelope])) \<and> world r' = world r"
proof -
  from assms obtain im where im: "build (world r) = Inr im"
    by (auto simp: sendInform_def split: sum.splits)
  obtain ident r1 where r1: "nextID r = (ident, r1)" by (cases "nextID r")
  from assms im r1 obtain envelope where env: "encodeRequest (encOpts s) ident ''Inform'' (Render im) = Inr envelope"
    by (auto simp: sendInform_def split: sum.splits)
  obtain x r2 where x: "send (Some envelope) r1 = (x, r2)" by (cases "send (Some envelope) r1")
  from assms im r1 env x obtain msg where msg: "x = Inr (Some msg)" "validateInformResponse s msg = Inr ()" "r' = r2"
    by (auto simp: sendInform_def split: sum.splits option.splits)
  have same: "script r1 = script r" "sent r1 = sent r" "world r1 = world r"
    using nextID_run [of r] r1 by simp_all
  obtain ts fin where "msg = (ts, fin)" by (cases msg)
  with send_Inr [OF x [unfolded msg(1)]] msg same im env show ?thesis
    by (auto simp: acks_def validateInformResponse_iff)
qed

lemma sendCPEInitiated_ok:
  assumes "sendCPEInitiated s rpc r = (Inr (), r')"
  shows "\<exists>m. script r = m # script r' \<and> acks s m (fst rpc @ ''Response'')
    \<and> (\<exists>envelope. sent r' = sent r @ [envelope]) \<and> world r' = world r"
proof -
  obtain ident r1 where r1: "nextID r = (ident, r1)" by (cases "nextID r")
  from assms r1 obtain envelope where env: "encodeRequest (encOpts s) ident (fst rpc) (Inr (snd rpc)) = Inr envelope"
    by (auto simp: sendCPEInitiated_def split: sum.splits)
  obtain x r2 where x: "send (Some envelope) r1 = (x, r2)" by (cases "send (Some envelope) r1")
  from assms r1 env x obtain msg where msg: "x = Inr (Some msg)"
      "validateMethodResponse s msg (fst rpc @ ''Response'') = Inr ()" "r' = r2"
    by (auto simp: sendCPEInitiated_def split: sum.splits option.splits)
  have same: "script r1 = script r" "sent r1 = sent r" "world r1 = world r"
    using nextID_run [of r] r1 by simp_all
  obtain ts fin where "msg = (ts, fin)" by (cases msg)
  with send_Inr [OF x [unfolded msg(1)]] msg same show ?thesis
    by (auto simp: acks_def)
qed

lemma send_rpcs_ok:
  "send_rpcs s rpcs r = (Inr (), r') \<Longrightarrow>
     \<exists>ms. script r = ms @ script r' \<and> list_all2 (acks s) ms (map (\<lambda>rpc. fst rpc @ ''Response'') rpcs)
       \<and> (\<exists>envs. length envs = length rpcs \<and> sent r' = sent r @ envs) \<and> world r' = world r"
proof (induction rpcs arbitrary: r)
  case (Cons rpc rpcs)
  from Cons.prems obtain r1 where r1: "sendCPEInitiated s rpc r = (Inr (), r1)"
    and rest: "send_rpcs s rpcs r1 = (Inr (), r')"
    by (auto split: prod.splits sum.splits)
  from sendCPEInitiated_ok [OF r1] obtain m where m: "script r = m # script r1"
    "acks s m (fst rpc @ ''Response'')" "world r1 = world r"
    and e: "\<exists>envelope. sent r1 = sent r @ [envelope]" by blast
  from Cons.IH [OF rest] obtain ms where "script r1 = ms @ script r'"
    "list_all2 (acks s) ms (map (\<lambda>rpc. fst rpc @ ''Response'') rpcs)" "world r' = world r1"
    and es: "\<exists>envs. length envs = length rpcs \<and> sent r' = sent r1 @ envs" by blast
  moreover from e es have "\<exists>envs. length envs = length (rpc # rpcs) \<and> sent r' = sent r @ envs"
    by (metis append.assoc append_Cons append_Nil length_Cons)
  ultimately show ?case using m by (intro exI [of _ "m # ms"]) simp
qed simp

lemma drain_loop_ok:
  "drain_loop s outbound r = (Inr (), r') \<Longrightarrow>
     \<exists>ms c. script r = ms @ c # script r' \<and> closes c \<and> (\<forall>m \<in> set ms. \<exists>ts fin. m = Message False ts fin)
       \<and> length (sent r') = length (sent r) + length ms + 1
       \<and> (\<exists>outs. sent r' = sent r @ outbound # outs)"
proof (induction s outbound r arbitrary: r' rule: drain_loop.induct)
  case (1 s outbound r)
  obtain x r1 where x: "send outbound r = (x, r1)" by (cases "send outbound r")
  from 1(2) x obtain y where y: "x = Inr y" by (subst (asm) drain_loop.simps) (auto split: sum.splits)
  note sent1 = send_Inr [OF x [unfolded y]]
  show ?case
  proof (cases y)
    case None
    with 1(2) x y have "r' = r1" by (subst (asm) drain_loop.simps) simp
    with sent1 None show ?thesis by (intro exI [of _ "[]"]) auto
  next
    case (Some msg)
    obtain z w where z: "handleACSMessage s msg (world r1) = (z, w)" by (cases "handleACSMessage s msg (world r1)")
    from 1(2) x y Some z obtain out where out: "z = Inr out"
      and rest: "drain_loop s (Some out) (r1\<lparr>world := w\<rparr>) = (Inr (), r')"
      by (subst (asm) drain_loop.simps) (auto split: sum.splits)
    from 1(1) [OF x [symmetric] y Some z [symmetric] out rest]
    obtain ms c outs where ih: "script r1 = ms @ c # script r'" "closes c"
      "\<forall>m \<in> set ms. \<exists>ts fin. m = Message False ts fin" "length (sent r') = length (sent r1) + length ms + 1"
      "sent r' = sent r1 @ Some out # outs" by auto
    from sent1 Some obtain m ts fin where m: "script r = m # script r1" "sent r1 = sent r @ [outbound]"
      "m = Message False ts fin" by (cases msg) auto
    show ?thesis
      using ih m by (intro exI [of _ "m # ms"] exI [of _ c]) auto
  qed
qed

section \<open>Properties\<close>

text \<open>C5: A session succeeds only when the ACS acknowledged the Inform with an InformResponse, then each
  RPC the CPE started with the response of that method, in order, then only sent requests, and
  finally closed with an empty answer; the CPE made exactly one POST for each of these replies,
  the first carrying the Inform.\<close>

theorem Run_acknowledged:
  assumes "Run s build rpcs r = (Inr (), r')"
  shows "\<exists>m acked asked c. script r = m # acked @ asked @ c # script r'
    \<and> acks s m ''InformResponse''
    \<and> list_all2 (acks s) acked (map (\<lambda>rpc. fst rpc @ ''Response'') rpcs)
    \<and> (\<forall>q \<in> set asked. \<exists>ts fin. q = Message False ts fin) \<and> closes c
    \<and> length (sent r') = length (sent r) + 2 + length acked + length asked
    \<and> (\<exists>im envelope ident. build (world r) = Inr im
         \<and> encodeRequest (encOpts s) ident ''Inform'' (Render im) = Inr envelope
         \<and> sent r' ! length (sent r) = Some envelope)"
proof -
  from assms obtain r1 where r1: "sendInform s build r = (Inr (), r1)"
    by (auto simp: Run_def split: prod.splits sum.splits)
  with assms obtain r2 where r2: "send_rpcs s rpcs r1 = (Inr (), r2)" and d: "drain_loop s None r2 = (Inr (), r')"
    by (auto simp: Run_def split: prod.splits sum.splits)
  from sendInform_ok [OF r1] obtain m im ident envelope
    where m: "script r = m # script r1" "acks s m ''InformResponse''" "build (world r) = Inr im"
      "encodeRequest (encOpts s) ident ''Inform'' (Render im) = Inr envelope" "sent r1 = sent r @ [Some envelope]"
    by blast
  from send_rpcs_ok [OF r2] obtain acked envs where acked: "script r1 = acked @ script r2"
    "list_all2 (acks s) acked (map (\<lambda>rpc. fst rpc @ ''Response'') rpcs)"
    "length envs = length rpcs" "sent r2 = sent r1 @ envs" by blast
  from drain_loop_ok [OF d] obtain asked c outs where asked: "script r2 = asked @ c # script r'" "closes c"
    "\<forall>q \<in> set asked. \<exists>ts fin. q = Message False ts fin" "length (sent r') = length (sent r2) + length asked + 1"
    "sent r' = sent r2 @ None # outs" by blast
  have "length acked = length rpcs" using list_all2_lengthD [OF acked(2)] by simp
  then have "length (sent r') = length (sent r) + 2 + length acked + length asked"
    using m(5) acked(3,4) asked(4) by simp
  moreover have "sent r' ! length (sent r) = Some envelope"
    using m(5) acked(4) asked(5) by simp
  ultimately show ?thesis
    using m acked(1,2) asked(1-3) by (intro exI [of _ m] exI [of _ acked] exI [of _ asked] exI [of _ c]) auto
qed


section \<open>Witnesses\<close>

definition demo_session :: "unit Session" where
  "demo_session = \<lparr>handlers = [(''Reboot'', \<lambda>req w. (Inr '''', w))],
     encOpts = \<lparr>eo_Version = '''', SOAPPrefix = '''', CWMPPrefix = '''', XSIPrefix = ''''\<rparr>, acceptVersions = []\<rparr>"

abbreviation "cwmp11 \<equiv> ''urn:dslforum-org:cwmp-1-1''"

definition demo_run :: "unit run" where
  "demo_run = \<lparr>world = (), script =
     [Message False (acs_request cwmp11 ''1'' ''InformResponse'' []) io_EOF,
      Message False (acs_request cwmp11 ''2'' ''TransferCompleteResponse'' []) io_EOF,
      Message False (acs_request cwmp11 ''3'' ''Reboot'' []) io_EOF,
      Status204], sent = [], next_id = 0\<rparr>"

definition demo_build :: "unit \<Rightarrow> goerr + Inform" where
  "demo_build w = Inr \<lparr>in_DeviceID = demo_paths, in_Events = [event EventBoot], in_MaxEnvelopes = 1,
     in_CurrentTime = demo_time, in_RetryCount = 0, in_Parameters = []\<rparr>"

lemma read_demo:
  "ReadEnvelope [] io_EOF (acs_request cwmp11 ident meth []) =
     (Inr \<lparr>env_Header = \<lparr>hd_ID = ident, HoldRequests = False\<rparr>, env_Method = meth, IsFault = False,
           env_Version = cwmp11\<rparr>,
      [EndElement \<lparr>Space = cwmp11, Local = meth\<rparr>, EndElement \<lparr>Space = envelopeNS, Local = ''Body''\<rparr>,
       EndElement \<lparr>Space = envelopeNS, Local = ''Envelope''\<rparr>])"
  by (simp add: ReadEnvelope_def acs_request_def Let_def read_optional_header_def zero_Header_def
      IsKnownVersion_def versionAccepted_def)

lemma demo_Run:
  "Run demo_session demo_build [(''TransferComplete'', '''')] demo_run =
     (Inr (), snd (Run demo_session demo_build [(''TransferComplete'', '''')] demo_run))"
  by (simp add: Run_def sendInform_def demo_build_def demo_run_def nextID_def encodeRequest_def
      WriteRequest_def Render_def writeParameters_def send_def Let_def validateInformResponse_def
      demo_session_def read_demo sendCPEInitiated_def validateMethodResponse_def drain_loop.simps
      handleACSMessage_def dispatch_def)

theorem Run_acknowledged_witness:
  "\<exists>m acked asked c.
     script demo_run = m # acked @ asked @ c #
       script (snd (Run demo_session demo_build [(''TransferComplete'', '''')] demo_run))
     \<and> acks demo_session m ''InformResponse''"
  using Run_acknowledged [OF demo_Run] by blast


end
