(* ===== verification/Requests.thy ===== *)
theory Requests
  imports SoapDecoder
begin

text \<open>
  The request bodies of \<^verbatim>\<open>src/internal/cwmp/handlers\<close>: one decoder per RPC, over the tokens inside
  the method element.  Each loop of the source is a recursive function that ends because every
  round consumes a token; a decoder returns its result and the tokens left.  \<open>fin\<close> is what the
  reader yields after the last token.  The streams come from \<open>methodTokens\<close>, so that the end of the
  stream is \<open>io_EOF\<close> exactly when the method element was complete.
\<close>

section \<open>Lists of strings\<close>

text \<open>A Go slice that was never appended to is nil; \<open>out\<close> is \<^const>\<open>None\<close> then.\<close>

definition snoc_slice :: "'a list option \<Rightarrow> 'a \<Rightarrow> 'a list option" where
  "snoc_slice xs x = Some ((case xs of None \<Rightarrow> [] | Some ys \<Rightarrow> ys) @ [x])"

definition slice :: "'a list option \<Rightarrow> 'a list" where
  "slice xs = (case xs of None \<Rightarrow> [] | Some ys \<Rightarrow> ys)"

fun readStringListFromStart ::
  "goerr \<Rightarrow> string \<Rightarrow> string list option \<Rightarrow> token list \<Rightarrow> (goerr + string list option) \<times> token list" where
  "readStringListFromStart fin start out [] = (Inl fin, [])"
| "readStringListFromStart fin start out (t # ts) =
     (case t of
        StartElement n a \<Rightarrow>
          if Local n = ''string'' then
            (case DecodeElement fin ts of
               (Inl e, rest) \<Rightarrow> (Inl e, rest)
             | (Inr s, rest) \<Rightarrow> readStringListFromStart fin start (snoc_slice out s) rest)
          else
            (case Skip fin ts of
               (Inl e, rest) \<Rightarrow> (Inl e, rest)
             | (Inr _, rest) \<Rightarrow> readStringListFromStart fin start out rest)
      | EndElement n \<Rightarrow>
          if Local n = start then (Inr out, ts) else readStringListFromStart fin start out ts
      | _ \<Rightarrow> readStringListFromStart fin start out ts)"

fun readStringList :: "goerr \<Rightarrow> string \<Rightarrow> token list \<Rightarrow> (goerr + string list) \<times> token list" where
  "readStringList fin listName [] =
     (Inl (Errorf ''looking for <%s>: %w'' [ArgS listName, ArgW fin]), [])"
| "readStringList fin listName (t # ts) =
     (case t of
        StartElement n a \<Rightarrow>
          if Local n = listName then
            (case readStringListFromStart fin listName None ts of
               (Inl e, rest) \<Rightarrow> (Inl e, rest)
             | (Inr out, rest) \<Rightarrow> (Inr (slice out), rest))
          else
            (case Skip fin ts of
               (Inl e, rest) \<Rightarrow> (Inl e, rest)
             | (Inr _, rest) \<Rightarrow> readStringList fin listName rest)
      | _ \<Rightarrow> readStringList fin listName ts)"

lemma Skip_length: "length (snd (Skip fin ts)) \<le> length ts"
  by (simp add: Skip_def skip_element_length)

lemma DecodeElement_length: "length (snd (DecodeElement fin ts)) \<le> length ts"
  by (simp add: DecodeElement_def element_string_length)

lemma readStringListFromStart_length:
  "length (snd (readStringListFromStart fin start out ts)) \<le> length ts"
proof (induction fin start out ts rule: readStringListFromStart.induct)
  case (2 fin start out t ts)
  have "length (snd (Skip fin ts)) \<le> length ts" "length (snd (DecodeElement fin ts)) \<le> length ts"
    by (rule Skip_length DecodeElement_length)+
  with 2 show ?case
    by (auto split: token.split prod.split sum.split) (meson le_SucI le_trans)+
qed simp

lemma readStringListFromStart_rest [termination_simp]:
  "(r, rest) = readStringListFromStart fin start out ts \<Longrightarrow> length rest < Suc (length ts)"
  using readStringListFromStart_length [of fin start out ts] by (metis snd_conv le_imp_less_Suc)

section \<open>Object name and command key\<close>

text \<open>At the end of the method element the loop returns what it has.\<close>

fun decodeObjectNameAndKey :: "goerr \<Rightarrow> string \<times> string \<Rightarrow> token list \<Rightarrow> goerr + string \<times> string" where
  "decodeObjectNameAndKey fin acc [] = (if fin = io_EOF then Inr acc else Inl fin)"
| "decodeObjectNameAndKey fin (objectName, paramKey) (t # ts) =
     (case t of
        StartElement n a \<Rightarrow>
          if Local n = ''ObjectName'' then
            (case DecodeElement fin ts of
               (Inl e, rest) \<Rightarrow> Inl e
             | (Inr s, rest) \<Rightarrow> decodeObjectNameAndKey fin (s, paramKey) rest)
          else if Local n = ''ParameterKey'' then
            (case DecodeElement fin ts of
               (Inl e, rest) \<Rightarrow> Inl e
             | (Inr s, rest) \<Rightarrow> decodeObjectNameAndKey fin (objectName, s) rest)
          else
            (case Skip fin ts of
               (Inl e, rest) \<Rightarrow> Inl e
             | (Inr _, rest) \<Rightarrow> decodeObjectNameAndKey fin (objectName, paramKey) rest)
      | _ \<Rightarrow> decodeObjectNameAndKey fin (objectName, paramKey) ts)"

fun decodeCommandKey :: "goerr \<Rightarrow> string \<Rightarrow> token list \<Rightarrow> goerr + string" where
  "decodeCommandKey fin commandKey [] = (if fin = io_EOF then Inr commandKey else Inl fin)"
| "decodeCommandKey fin commandKey (t # ts) =
     (case t of
        StartElement n a \<Rightarrow>
          if Local n = ''CommandKey'' then
            (case DecodeElement fin ts of
               (Inl e, rest) \<Rightarrow> Inl e
             | (Inr s, rest) \<Rightarrow> decodeCommandKey fin s rest)
          else
            (case Skip fin ts of
               (Inl e, rest) \<Rightarrow> Inl e
             | (Inr _, rest) \<Rightarrow> decodeCommandKey fin commandKey rest)
      | _ \<Rightarrow> decodeCommandKey fin commandKey ts)"

section \<open>SetParameterValues\<close>

record spvEntry =
  se_Name :: string
  se_Raw :: string

fun decodeOneParameterValueStruct ::
  "goerr \<Rightarrow> string \<Rightarrow> spvEntry \<Rightarrow> token list \<Rightarrow> (goerr + spvEntry) \<times> token list" where
  "decodeOneParameterValueStruct fin start entry [] = (Inl fin, [])"
| "decodeOneParameterValueStruct fin start entry (t # ts) =
     (case t of
        StartElement n a \<Rightarrow>
          if Local n = ''Name'' then
            (case DecodeElement fin ts of
               (Inl e, rest) \<Rightarrow> (Inl e, rest)
             | (Inr s, rest) \<Rightarrow> decodeOneParameterValueStruct fin start (entry\<lparr>se_Name := s\<rparr>) rest)
          else if Local n = ''Value'' then
            (case DecodeElement fin ts of
               (Inl e, rest) \<Rightarrow> (Inl e, rest)
             | (Inr s, rest) \<Rightarrow> decodeOneParameterValueStruct fin start (entry\<lparr>se_Raw := s\<rparr>) rest)
          else
            (case Skip fin ts of
               (Inl e, rest) \<Rightarrow> (Inl e, rest)
             | (Inr _, rest) \<Rightarrow> decodeOneParameterValueStruct fin start entry rest)
      | EndElement n \<Rightarrow>
          if Local n = start then (Inr entry, ts)
          else decodeOneParameterValueStruct fin start entry ts
      | _ \<Rightarrow> decodeOneParameterValueStruct fin start entry ts)"

lemma decodeOneParameterValueStruct_length:
  "length (snd (decodeOneParameterValueStruct fin start entry ts)) \<le> length ts"
proof (induction fin start entry ts rule: decodeOneParameterValueStruct.induct)
  case (2 fin start entry t ts)
  have "length (snd (Skip fin ts)) \<le> length ts" "length (snd (DecodeElement fin ts)) \<le> length ts"
    by (rule Skip_length DecodeElement_length)+
  with 2 show ?case
    by (auto split: token.split prod.split sum.split) (meson le_SucI le_trans)+
qed simp

lemma decodeOneParameterValueStruct_rest [termination_simp]:
  "(r, rest) = decodeOneParameterValueStruct fin start entry ts \<Longrightarrow> length rest < Suc (length ts)"
  using decodeOneParameterValueStruct_length [of fin start entry ts] by (metis snd_conv le_imp_less_Suc)

definition empty_spvEntry :: spvEntry where
  "empty_spvEntry = \<lparr>se_Name = '''', se_Raw = ''''\<rparr>"

fun decodeParameterValueStructs ::
  "goerr \<Rightarrow> string \<Rightarrow> spvEntry list \<Rightarrow> token list \<Rightarrow> (goerr + spvEntry list) \<times> token list" where
  "decodeParameterValueStructs fin lst out [] = (Inl fin, [])"
| "decodeParameterValueStructs fin lst out (t # ts) =
     (case t of
        StartElement n a \<Rightarrow>
          if Local n \<noteq> ''ParameterValueStruct'' then
            (case Skip fin ts of
               (Inl e, rest) \<Rightarrow> (Inl e, rest)
             | (Inr _, rest) \<Rightarrow> decodeParameterValueStructs fin lst out rest)
          else
            (case decodeOneParameterValueStruct fin (Local n) empty_spvEntry ts of
               (Inl e, rest) \<Rightarrow> (Inl e, rest)
             | (Inr entry, rest) \<Rightarrow> decodeParameterValueStructs fin lst (out @ [entry]) rest)
      | EndElement n \<Rightarrow>
          if Local n = lst then (Inr out, ts) else decodeParameterValueStructs fin lst out ts
      | _ \<Rightarrow> decodeParameterValueStructs fin lst out ts)"

lemma decodeParameterValueStructs_length:
  "length (snd (decodeParameterValueStructs fin lst out ts)) \<le> length ts"
proof (induction fin lst out ts rule: decodeParameterValueStructs.induct)
  case (2 fin lst out t ts)
  have "length (snd (Skip fin ts)) \<le> length ts"
    "length (snd (decodeOneParameterValueStruct fin start entry ts)) \<le> length ts" for start entry
    by (rule Skip_length decodeOneParameterValueStruct_length)+
  with 2 show ?case
    by (auto split: token.split prod.split sum.split) (metis le_SucI le_trans snd_conv)+
qed simp

lemma decodeParameterValueStructs_rest [termination_simp]:
  "(r, rest) = decodeParameterValueStructs fin lst out ts \<Longrightarrow> length rest < Suc (length ts)"
  using decodeParameterValueStructs_length [of fin lst out ts] by (metis snd_conv le_imp_less_Suc)

text \<open>A later \<^verbatim>\<open>ParameterList\<close> replaces the entries of an earlier one.\<close>

fun decodeSPVRequest ::
  "goerr \<Rightarrow> spvEntry list \<times> string \<Rightarrow> token list \<Rightarrow> goerr + spvEntry list \<times> string" where
  "decodeSPVRequest fin acc [] = (if fin = io_EOF then Inr acc else Inl fin)"
| "decodeSPVRequest fin (entries, paramKey) (t # ts) =
     (case t of
        StartElement n a \<Rightarrow>
          if Local n = ''ParameterList'' then
            (case decodeParameterValueStructs fin (Local n) [] ts of
               (Inl e, rest) \<Rightarrow> Inl e
             | (Inr es, rest) \<Rightarrow> decodeSPVRequest fin (es, paramKey) rest)
          else if Local n = ''ParameterKey'' then
            (case DecodeElement fin ts of
               (Inl e, rest) \<Rightarrow> Inl e
             | (Inr s, rest) \<Rightarrow> decodeSPVRequest fin (entries, s) rest)
          else
            (case Skip fin ts of
               (Inl e, rest) \<Rightarrow> Inl e
             | (Inr _, rest) \<Rightarrow> decodeSPVRequest fin (entries, paramKey) rest)
      | _ \<Rightarrow> decodeSPVRequest fin (entries, paramKey) ts)"

section \<open>SetParameterAttributes\<close>

record spaEntry =
  sa_Name :: string
  NotificationChange :: bool
  sa_Notification :: int
  AccessListChange :: bool
  sa_AccessList :: "string list option"

definition empty_spaEntry :: spaEntry where
  "empty_spaEntry = \<lparr>sa_Name = '''', NotificationChange = False, sa_Notification = 0,
     AccessListChange = False, sa_AccessList = None\<rparr>"

definition is_true :: "string \<Rightarrow> bool" where
  "is_true s \<longleftrightarrow> s = ''true'' \<or> s = ''1''"

definition atoi_error :: "string \<Rightarrow> goerr" where
  "atoi_error s = Errorf ''strconv.Atoi: parsing %q: invalid'' [ArgS s]"

fun decodeOneSPAStruct ::
  "goerr \<Rightarrow> string \<Rightarrow> spaEntry \<Rightarrow> token list \<Rightarrow> (goerr + spaEntry) \<times> token list" where
  "decodeOneSPAStruct fin start entry [] = (Inl fin, [])"
| "decodeOneSPAStruct fin start entry (t # ts) =
     (case t of
        StartElement n a \<Rightarrow>
          if Local n = ''Name'' then
            (case DecodeElement fin ts of
               (Inl e, rest) \<Rightarrow> (Inl e, rest)
             | (Inr s, rest) \<Rightarrow> decodeOneSPAStruct fin start (entry\<lparr>sa_Name := s\<rparr>) rest)
          else if Local n = ''NotificationChange'' then
            (case DecodeElement fin ts of
               (Inl e, rest) \<Rightarrow> (Inl e, rest)
             | (Inr s, rest) \<Rightarrow> decodeOneSPAStruct fin start (entry\<lparr>NotificationChange := is_true s\<rparr>) rest)
          else if Local n = ''Notification'' then
            (case DecodeElement fin ts of
               (Inl e, rest) \<Rightarrow> (Inl e, rest)
             | (Inr s, rest) \<Rightarrow>
                 (case Atoi (TrimSpace s) of
                    None \<Rightarrow> (Inl (Errorf ''notification %q: %w'' [ArgS s, ArgW (atoi_error (TrimSpace s))]), rest)
                  | Some i \<Rightarrow> decodeOneSPAStruct fin start (entry\<lparr>sa_Notification := i\<rparr>) rest))
          else if Local n = ''AccessListChange'' then
            (case DecodeElement fin ts of
               (Inl e, rest) \<Rightarrow> (Inl e, rest)
             | (Inr s, rest) \<Rightarrow> decodeOneSPAStruct fin start (entry\<lparr>AccessListChange := is_true s\<rparr>) rest)
          else if Local n = ''AccessList'' then
            (case readStringListFromStart fin (Local n) None ts of
               (Inl e, rest) \<Rightarrow> (Inl e, rest)
             | (Inr xs, rest) \<Rightarrow>
                 decodeOneSPAStruct fin start (entry\<lparr>sa_AccessList := Some (slice xs)\<rparr>) rest)
          else
            (case Skip fin ts of
               (Inl e, rest) \<Rightarrow> (Inl e, rest)
             | (Inr _, rest) \<Rightarrow> decodeOneSPAStruct fin start entry rest)
      | EndElement n \<Rightarrow>
          if Local n = start then (Inr entry, ts) else decodeOneSPAStruct fin start entry ts
      | _ \<Rightarrow> decodeOneSPAStruct fin start entry ts)"

lemma decodeOneSPAStruct_length: "length (snd (decodeOneSPAStruct fin start entry ts)) \<le> length ts"
proof (induction fin start entry ts rule: decodeOneSPAStruct.induct)
  case (2 fin start entry t ts)
  obtain r1 rest1 where d: "DecodeElement fin ts = (r1, rest1)" by (cases "DecodeElement fin ts")
  obtain r2 rest2 where s: "Skip fin ts = (r2, rest2)" by (cases "Skip fin ts")
  have len: "length rest1 \<le> length ts" "length rest2 \<le> length ts"
    using DecodeElement_length [of fin ts] Skip_length [of fin ts] d s by simp_all
  show ?case
  proof (cases t)
    case (StartElement n a)
    obtain r3 rest3 where l: "readStringListFromStart fin (Local n) None ts = (r3, rest3)"
      by (cases "readStringListFromStart fin (Local n) None ts")
    have len3: "length rest3 \<le> length ts"
      using readStringListFromStart_length [of fin "Local n" None ts] l by simp
    consider "Local n = ''Name''" | "Local n = ''NotificationChange''" | "Local n = ''Notification''"
      | "Local n = ''AccessListChange''" | "Local n = ''AccessList''"
      | "Local n \<notin> {''Name'', ''NotificationChange'', ''Notification'', ''AccessListChange'', ''AccessList''}"
      by blast
    then show ?thesis
    proof cases
      case 1
      with StartElement d len 2(1) [OF StartElement] show ?thesis by (cases r1) auto
    next
      case nc: 2
      with StartElement d len 2(2) [OF StartElement] show ?thesis by (cases r1) auto
    next
      case 3
      show ?thesis
      proof (cases r1)
        case (Inr x)
        with 3 StartElement d len 2(3) [OF StartElement] show ?thesis
          by (cases "Atoi (TrimSpace x)") (simp_all, meson le_SucI le_trans)
      qed (use 3 StartElement d len in simp)
    next
      case 4
      with StartElement d len 2(4) [OF StartElement] show ?thesis by (cases r1) auto
    next
      case 5
      with StartElement l len3 2(5) [OF StartElement] show ?thesis by (cases r3) auto
    next
      case 6
      with StartElement s len 2(6) [OF StartElement] show ?thesis by (cases r2) auto
    qed
  next
    case (EndElement n)
    with 2(7) [OF EndElement] show ?thesis by auto
  next
    case (CharData x)
    with 2(8) [OF CharData] show ?thesis by simp
  next
    case OtherToken
    with 2(9) [OF OtherToken] show ?thesis by simp
  qed
qed simp

lemma decodeOneSPAStruct_rest [termination_simp]:
  "(r, rest) = decodeOneSPAStruct fin start entry ts \<Longrightarrow> length rest < Suc (length ts)"
  using decodeOneSPAStruct_length [of fin start entry ts] by (metis snd_conv le_imp_less_Suc)

fun decodeSPAStructs ::
  "goerr \<Rightarrow> string \<Rightarrow> spaEntry list \<Rightarrow> token list \<Rightarrow> (goerr + spaEntry list) \<times> token list" where
  "decodeSPAStructs fin lst out [] = (Inl fin, [])"
| "decodeSPAStructs fin lst out (t # ts) =
     (case t of
        StartElement n a \<Rightarrow>
          if Local n \<noteq> ''SetParameterAttributesStruct'' then
            (case Skip fin ts of
               (Inl e, rest) \<Rightarrow> (Inl e, rest)
             | (Inr _, rest) \<Rightarrow> decodeSPAStructs fin lst out rest)
          else
            (case decodeOneSPAStruct fin (Local n) empty_spaEntry ts of
               (Inl e, rest) \<Rightarrow> (Inl e, rest)
             | (Inr entry, rest) \<Rightarrow> decodeSPAStructs fin lst (out @ [entry]) rest)
      | EndElement n \<Rightarrow> if Local n = lst then (Inr out, ts) else decodeSPAStructs fin lst out ts
      | _ \<Rightarrow> decodeSPAStructs fin lst out ts)"

lemma decodeSPAStructs_length: "length (snd (decodeSPAStructs fin lst out ts)) \<le> length ts"
proof (induction fin lst out ts rule: decodeSPAStructs.induct)
  case (2 fin lst out t ts)
  have "length (snd (Skip fin ts)) \<le> length ts"
    "length (snd (decodeOneSPAStruct fin start entry ts)) \<le> length ts" for start entry
    by (rule Skip_length decodeOneSPAStruct_length)+
  with 2 show ?case
    by (auto split: token.split prod.split sum.split) (metis le_SucI le_trans snd_conv)+
qed simp

lemma decodeSPAStructs_rest [termination_simp]:
  "(r, rest) = decodeSPAStructs fin lst out ts \<Longrightarrow> length rest < Suc (length ts)"
  using decodeSPAStructs_length [of fin lst out ts] by (metis snd_conv le_imp_less_Suc)

fun decodeSPARequest :: "goerr \<Rightarrow> spaEntry list \<Rightarrow> token list \<Rightarrow> goerr + spaEntry list" where
  "decodeSPARequest fin entries [] = (if fin = io_EOF then Inr entries else Inl fin)"
| "decodeSPARequest fin entries (t # ts) =
     (case t of
        StartElement n a \<Rightarrow>
          if Local n = ''ParameterList'' then
            (case decodeSPAStructs fin (Local n) [] ts of
               (Inl e, rest) \<Rightarrow> Inl e
             | (Inr es, rest) \<Rightarrow> decodeSPARequest fin es rest)
          else
            (case Skip fin ts of
               (Inl e, rest) \<Rightarrow> Inl e
             | (Inr _, rest) \<Rightarrow> decodeSPARequest fin entries rest)
      | _ \<Rightarrow> decodeSPARequest fin entries ts)"

section \<open>GetParameterNames\<close>

text \<open>The loop reads two start elements, whatever their names; it stops quietly when the reader
  fails.  The first component is the error of a decode, with the element's name.\<close>

fun decodeGPN :: "goerr \<Rightarrow> nat \<Rightarrow> string \<times> string \<Rightarrow> token list \<Rightarrow> (string \<times> goerr) + string \<times> string" where
  "decodeGPN fin k acc [] = Inr acc"
| "decodeGPN fin k (path, nextLevel) (t # ts) =
     (if k = 0 then Inr (path, nextLevel)
      else
        (case t of
           StartElement n a \<Rightarrow>
             (case DecodeElement fin ts of
                (Inl e, rest) \<Rightarrow> Inl (Local n, e)
              | (Inr s, rest) \<Rightarrow>
                  decodeGPN fin (k - 1)
                    (if Local n = ''ParameterPath'' then s else path,
                     if Local n = ''NextLevel'' then s else nextLevel) rest)
         | _ \<Rightarrow> decodeGPN fin k (path, nextLevel) ts))"

section \<open>Download and Upload\<close>

record transferEntry =
  te_CommandKey :: string
  te_FileType :: string
  te_URL :: string
  te_DelaySeconds :: nat

definition empty_transferEntry :: transferEntry where
  "empty_transferEntry = \<lparr>te_CommandKey = '''', te_FileType = '''', te_URL = '''', te_DelaySeconds = 0\<rparr>"

fun decodeTransferRequest :: "goerr \<Rightarrow> transferEntry \<Rightarrow> token list \<Rightarrow> goerr + transferEntry" where
  "decodeTransferRequest fin entry [] = (if fin = io_EOF then Inr entry else Inl fin)"
| "decodeTransferRequest fin entry (t # ts) =
     (case t of
        StartElement n a \<Rightarrow>
          if Local n = ''CommandKey'' then
            (case DecodeElement fin ts of
               (Inl e, rest) \<Rightarrow> Inl e
             | (Inr s, rest) \<Rightarrow> decodeTransferRequest fin (entry\<lparr>te_CommandKey := s\<rparr>) rest)
          else if Local n = ''FileType'' then
            (case DecodeElement fin ts of
               (Inl e, rest) \<Rightarrow> Inl e
             | (Inr s, rest) \<Rightarrow> decodeTransferRequest fin (entry\<lparr>te_FileType := s\<rparr>) rest)
          else if Local n = ''URL'' then
            (case DecodeElement fin ts of
               (Inl e, rest) \<Rightarrow> Inl e
             | (Inr s, rest) \<Rightarrow> decodeTransferRequest fin (entry\<lparr>te_URL := s\<rparr>) rest)
          else if Local n = ''DelaySeconds'' then
            (case DecodeElement fin ts of
               (Inl e, rest) \<Rightarrow> Inl e
             | (Inr s, rest) \<Rightarrow>
                 (let s' = TrimSpace s in
                  if s' = '''' then decodeTransferRequest fin (entry\<lparr>te_DelaySeconds := 0\<rparr>) rest
                  else (case ParseUint 32 s' of
                          None \<Rightarrow> Inl (Errorf ''DelaySeconds %q: %w'' [ArgS s', ArgW (atoi_error s')])
                        | Some k \<Rightarrow> decodeTransferRequest fin (entry\<lparr>te_DelaySeconds := k\<rparr>) rest)))
          else
            (case Skip fin ts of
               (Inl e, rest) \<Rightarrow> Inl e
             | (Inr _, rest) \<Rightarrow> decodeTransferRequest fin entry rest)
      | _ \<Rightarrow> decodeTransferRequest fin entry ts)"

section \<open>ChangeDUState\<close>

record DUStateOperation =
  dop_Kind :: string
  dop_URL :: string
  dop_UUID :: string
  dop_Version :: string
  dop_ExecutionEnvRef :: string

record DUStateRequest =
  dr_CommandKey :: string
  dr_Operations :: "DUStateOperation list"

definition new_operation :: "string \<Rightarrow> DUStateOperation" where
  "new_operation k =
     \<lparr>dop_Kind = k, dop_URL = '''', dop_UUID = '''', dop_Version = '''', dop_ExecutionEnvRef = ''''\<rparr>"

text \<open>The pointer \<^verbatim>\<open>current\<close> is nil or points to the last operation, so a flag replaces it.\<close>

definition map_last :: "('a \<Rightarrow> 'a) \<Rightarrow> 'a list \<Rightarrow> 'a list" where
  "map_last f xs = (if xs = [] then [] else butlast xs @ [f (last xs)])"

definition add_operation :: "string \<Rightarrow> DUStateRequest \<Rightarrow> DUStateRequest" where
  "add_operation k out = out\<lparr>dr_Operations := dr_Operations out @ [new_operation k]\<rparr>"

definition set_field :: "string \<Rightarrow> string \<Rightarrow> DUStateRequest \<Rightarrow> DUStateRequest" where
  "set_field name s out =
     out\<lparr>dr_Operations := map_last (\<lambda>op.
        if name = ''URL'' then op\<lparr>dop_URL := s\<rparr>
        else if name = ''UUID'' then op\<lparr>dop_UUID := s\<rparr>
        else if name = ''Version'' then op\<lparr>dop_Version := s\<rparr>
        else op\<lparr>dop_ExecutionEnvRef := s\<rparr>) (dr_Operations out)\<rparr>"

fun decodeChangeDUState :: "goerr \<Rightarrow> bool \<Rightarrow> DUStateRequest \<Rightarrow> token list \<Rightarrow> goerr + DUStateRequest" where
  "decodeChangeDUState fin cur out [] = (if fin = io_EOF then Inr out else Inl fin)"
| "decodeChangeDUState fin cur out (t # ts) =
     (case t of
        StartElement n a \<Rightarrow>
          if Local n = ''InstallOpStruct'' then decodeChangeDUState fin True (add_operation ''install'' out) ts
          else if Local n = ''UpdateOpStruct'' then decodeChangeDUState fin True (add_operation ''update'' out) ts
          else if Local n = ''UninstallOpStruct'' then
            decodeChangeDUState fin True (add_operation ''uninstall'' out) ts
          else if Local n = ''CommandKey'' \<and> \<not> cur then
            (case DecodeElement fin ts of
               (Inl e, rest) \<Rightarrow> Inl e
             | (Inr s, rest) \<Rightarrow> decodeChangeDUState fin cur (out\<lparr>dr_CommandKey := s\<rparr>) rest)
          else if Local n \<in> set [''URL'', ''UUID'', ''Version'', ''ExecutionEnvRef''] \<and> cur then
            (case DecodeElement fin ts of
               (Inl e, rest) \<Rightarrow> Inl e
             | (Inr s, rest) \<Rightarrow> decodeChangeDUState fin cur (set_field (Local n) s out) rest)
          else decodeChangeDUState fin cur out ts
      | EndElement n \<Rightarrow>
          if Local n \<in> set [''InstallOpStruct'', ''UpdateOpStruct'', ''UninstallOpStruct'']
          then decodeChangeDUState fin False out ts
          else decodeChangeDUState fin cur out ts
      | _ \<Rightarrow> decodeChangeDUState fin cur out ts)"

end
