(* ===== verification/EventTracker.thy ===== *)
theory EventTracker
  imports Inform
begin

text \<open>
  \<^verbatim>\<open>EventTracker\<close> (\<^verbatim>\<open>src/internal/cwmp/eventtracker.go\<close>): which events the next Inform carries, and
  what is still owed to the ACS.  The mutex makes each method one step.  The two queues of
  completion records offer the same interface, the locale \<open>record_queue\<close>: records are kept in
  order, a drain takes them all, and re-queueing what was drained restores the queue.
\<close>

section \<open>State and operations\<close>

datatype Trigger =
    TriggerStartup
  | TriggerPeriodic
  | TriggerConnectionRequest
  | TriggerValueChange
  | TriggerTransferComplete
  | TriggerRetry
  | TriggerDUStateChangeComplete

record EventTracker =
  bootstrapDone :: bool
  bootstrapPending :: bool
  pendingEvents :: "Event list"
  pendingValueChanges :: "string list"
  pendingTransferCompletes :: "TransferComplete list"
  pendingDUStateCompletes :: "DUStateComplete list"
  baseParameterLists :: ParameterLists

definition NewEventTracker :: "ParameterLists \<Rightarrow> EventTracker" where
  "NewEventTracker base =
     \<lparr>bootstrapDone = False, bootstrapPending = False, pendingEvents = [], pendingValueChanges = [],
      pendingTransferCompletes = [], pendingDUStateCompletes = [], baseParameterLists = base\<rparr>"

text \<open>The loop of \<^verbatim>\<open>dedupeEvents\<close>: \<open>seen\<close> is the map of the events already kept.\<close>

fun dedupe_loop :: "Event list \<Rightarrow> Event list \<Rightarrow> Event list" where
  "dedupe_loop seen [] = []"
| "dedupe_loop seen (e # es) =
     (if e \<in> set seen then dedupe_loop seen es else e # dedupe_loop (e # seen) es)"

definition dedupeEvents :: "Event list \<Rightarrow> Event list" where
  "dedupeEvents events = (if length events < 2 then events else dedupe_loop [] events)"

definition primary_events :: "Trigger \<Rightarrow> EventTracker \<Rightarrow> Event list \<times> EventTracker" where
  "primary_events trigger t =
     (case trigger of
        TriggerStartup \<Rightarrow> ([event EventBoot], t)
      | TriggerPeriodic \<Rightarrow> ([event EventPeriodic], t)
      | TriggerConnectionRequest \<Rightarrow> ([event EventConnectionRequest], t)
      | TriggerValueChange \<Rightarrow> ([event EventValueChange], t)
      | TriggerTransferComplete \<Rightarrow> ([event EventTransferComplete], t)
      | TriggerDUStateChangeComplete \<Rightarrow> ([event EventDUStateChange], t)
      | TriggerRetry \<Rightarrow> (pendingEvents t, t\<lparr>pendingEvents := []\<rparr>))"

definition NextSessionEvents :: "Trigger \<Rightarrow> EventTracker \<Rightarrow> Event list \<times> EventTracker" where
  "NextSessionEvents trigger t =
     (let (ev1, t1) = primary_events trigger t;
          (ev2, t2) =
            (if \<not> bootstrapDone t1
             then (ev1 @ [event EventBootstrap], t1\<lparr>bootstrapPending := True\<rparr>) else (ev1, t1));
          (ev3, t3) =
            (if trigger \<noteq> TriggerRetry \<and> 0 < length (pendingEvents t2)
             then (ev2 @ pendingEvents t2, t2\<lparr>pendingEvents := []\<rparr>) else (ev2, t2));
          ev4 =
            (if 0 < length (pendingTransferCompletes t3)
             then ev3 @ [event EventTransferComplete] else ev3)
      in (dedupeEvents ev4, t3))"

definition SessionParameterLists :: "EventTracker \<Rightarrow> ParameterLists" where
  "SessionParameterLists t =
     (if 0 < length (pendingValueChanges t)
      then AList.update EventValueChange (pendingValueChanges t) (baseParameterLists t)
      else baseParameterLists t)"

definition Acknowledge :: "EventTracker \<Rightarrow> EventTracker" where
  "Acknowledge t =
     (let t1 = t\<lparr>pendingValueChanges := []\<rparr>
      in if bootstrapPending t1 then t1\<lparr>bootstrapDone := True, bootstrapPending := False\<rparr> else t1)"

definition ResetBootstrap :: "EventTracker \<Rightarrow> EventTracker" where
  "ResetBootstrap t = t\<lparr>bootstrapDone := False, bootstrapPending := False\<rparr>"

definition queueMethod :: "string \<Rightarrow> string \<Rightarrow> EventTracker \<Rightarrow> EventTracker" where
  "queueMethod eventCode commandKey t =
     t\<lparr>pendingEvents := pendingEvents t @ [\<lparr>EventCode = eventCode, CommandKey = commandKey\<rparr>]\<rparr>"

definition QueueMethodReboot :: "string \<Rightarrow> EventTracker \<Rightarrow> EventTracker" where
  "QueueMethodReboot = queueMethod EventMethodReboot"

definition QueueMethodScheduleInform :: "string \<Rightarrow> EventTracker \<Rightarrow> EventTracker" where
  "QueueMethodScheduleInform = queueMethod EventMethodScheduleInform"

definition QueueMethodDownload :: "string \<Rightarrow> EventTracker \<Rightarrow> EventTracker" where
  "QueueMethodDownload = queueMethod EventMethodDownload"

definition QueueMethodChangeDUState :: "string \<Rightarrow> EventTracker \<Rightarrow> EventTracker" where
  "QueueMethodChangeDUState = queueMethod EventMethodChangeDUState"

definition QueueMethodUpload :: "string \<Rightarrow> EventTracker \<Rightarrow> EventTracker" where
  "QueueMethodUpload = queueMethod EventMethodUpload"

definition requeueEvent :: "Event \<Rightarrow> EventTracker \<Rightarrow> EventTracker" where
  "requeueEvent e t = t\<lparr>pendingEvents := pendingEvents t @ [e]\<rparr>"

definition QueuePeriodic :: "EventTracker \<Rightarrow> EventTracker" where
  "QueuePeriodic t = requeueEvent (event EventPeriodic) t"

definition RecordValueChange :: "string \<Rightarrow> EventTracker \<Rightarrow> EventTracker" where
  "RecordValueChange path t =
     (if path = '''' then t
      else if path \<in> set (pendingValueChanges t) then t
      else t\<lparr>pendingValueChanges := pendingValueChanges t @ [path]\<rparr>)"

definition QueueTransferComplete :: "TransferComplete \<Rightarrow> EventTracker \<Rightarrow> EventTracker" where
  "QueueTransferComplete rec t = t\<lparr>pendingTransferCompletes := pendingTransferCompletes t @ [rec]\<rparr>"

definition DrainTransferCompletes :: "EventTracker \<Rightarrow> TransferComplete list \<times> EventTracker" where
  "DrainTransferCompletes t =
     (if length (pendingTransferCompletes t) = 0 then ([], t)
      else (pendingTransferCompletes t, t\<lparr>pendingTransferCompletes := []\<rparr>))"

definition HasPendingTransferCompletes :: "EventTracker \<Rightarrow> bool" where
  "HasPendingTransferCompletes t \<longleftrightarrow> 0 < length (pendingTransferCompletes t)"

definition QueueDUStateChangeComplete :: "DUStateComplete \<Rightarrow> EventTracker \<Rightarrow> EventTracker" where
  "QueueDUStateChangeComplete rec t = t\<lparr>pendingDUStateCompletes := pendingDUStateCompletes t @ [rec]\<rparr>"

definition DrainDUStateChangeCompletes :: "EventTracker \<Rightarrow> DUStateComplete list \<times> EventTracker" where
  "DrainDUStateChangeCompletes t =
     (if length (pendingDUStateCompletes t) = 0 then ([], t)
      else (pendingDUStateCompletes t, t\<lparr>pendingDUStateCompletes := []\<rparr>))"

definition HasPendingDUStateChangeCompletes :: "EventTracker \<Rightarrow> bool" where
  "HasPendingDUStateChangeCompletes t \<longleftrightarrow> 0 < length (pendingDUStateCompletes t)"

definition HasPendingValueChanges :: "EventTracker \<Rightarrow> bool" where
  "HasPendingValueChanges t \<longleftrightarrow> 0 < length (pendingValueChanges t)"

section \<open>The queues of completion records\<close>

locale record_queue =
  fixes queue :: "'s \<Rightarrow> 'a list" and rest :: "'s \<Rightarrow> 'r"
    and enq :: "'a \<Rightarrow> 's \<Rightarrow> 's" and drain :: "'s \<Rightarrow> 'a list \<times> 's"
  assumes enq_queue: "queue (enq x s) = queue s @ [x]"
    and enq_rest: "rest (enq x s) = rest s"
    and drain_all: "fst (drain s) = queue s"
    and drain_empties: "queue (snd (drain s)) = []"
    and drain_rest: "rest (snd (drain s)) = rest s"
    and determined: "queue s = queue s' \<Longrightarrow> rest s = rest s' \<Longrightarrow> s = s'"
begin

lemma fold_enq_queue: "queue (fold enq xs s) = queue s @ xs"
  by (induction xs arbitrary: s) (simp_all add: enq_queue)

lemma fold_enq_rest: "rest (fold enq xs s) = rest s"
  by (induction xs arbitrary: s) (simp_all add: enq_rest)

text \<open>Re-queueing what a drain returned undoes the drain.\<close>

lemma requeue_drained: "fold enq (fst (drain s)) (snd (drain s)) = s"
  by (rule determined) (simp_all add: fold_enq_queue fold_enq_rest drain_all drain_empties drain_rest)

end

definition rest_tc :: "EventTracker \<Rightarrow> EventTracker" where
  "rest_tc t = t\<lparr>pendingTransferCompletes := []\<rparr>"

definition rest_du :: "EventTracker \<Rightarrow> EventTracker" where
  "rest_du t = t\<lparr>pendingDUStateCompletes := []\<rparr>"

lemma rest_determines:
  fixes t t' :: EventTracker
  shows "pendingTransferCompletes t = pendingTransferCompletes t' \<Longrightarrow> rest_tc t = rest_tc t' \<Longrightarrow> t = t'"
    and "pendingDUStateCompletes t = pendingDUStateCompletes t' \<Longrightarrow> rest_du t = rest_du t' \<Longrightarrow> t = t'"
  by (cases t; cases t'; simp add: rest_tc_def rest_du_def)+

interpretation transfers: record_queue
  pendingTransferCompletes rest_tc QueueTransferComplete DrainTransferCompletes
  by unfold_locales (auto simp: rest_tc_def QueueTransferComplete_def DrainTransferCompletes_def
      intro: rest_determines [unfolded rest_tc_def])

interpretation dustates: record_queue
  pendingDUStateCompletes rest_du QueueDUStateChangeComplete DrainDUStateChangeCompletes
  by unfold_locales (auto simp: rest_du_def QueueDUStateChangeComplete_def DrainDUStateChangeCompletes_def
      intro: rest_determines [unfolded rest_du_def])

section \<open>The event list of a session\<close>

lemma dedupe_loop_set: "set (dedupe_loop seen es) = set es - set seen"
  by (induction seen es rule: dedupe_loop.induct) auto

lemma dedupe_loop_distinct: "distinct (dedupe_loop seen es)"
  by (induction seen es rule: dedupe_loop.induct) (auto simp: dedupe_loop_set)

lemma dedupe_set [simp]: "set (dedupeEvents es) = set es"
  by (simp add: dedupeEvents_def dedupe_loop_set)

lemma dedupe_distinct [simp]: "distinct (dedupeEvents es)"
proof (cases es)
  case (Cons e es')
  then show ?thesis by (cases es') (simp_all add: dedupeEvents_def dedupe_loop_distinct del: dedupe_loop.simps)
qed (simp add: dedupeEvents_def)

lemma dedupe_Cons: "\<exists>es'. dedupeEvents (e # es) = e # es'"
  by (simp add: dedupeEvents_def)

definition session_events :: "Trigger \<Rightarrow> EventTracker \<Rightarrow> Event list" where
  "session_events trigger t =
     (let lead = (if trigger = TriggerRetry then pendingEvents t
                  else fst (primary_events trigger t));
          queued = (if trigger = TriggerRetry then [] else pendingEvents t)
      in lead @ (if bootstrapDone t then [] else [event EventBootstrap]) @ queued
         @ (if pendingTransferCompletes t = [] then [] else [event EventTransferComplete]))"

definition drained :: "EventTracker \<Rightarrow> EventTracker" where
  "drained t = t\<lparr>bootstrapPending := bootstrapPending t \<or> \<not> bootstrapDone t, pendingEvents := []\<rparr>"

lemma NextSessionEvents_eq:
  "NextSessionEvents trigger t = (dedupeEvents (session_events trigger t), drained t)"
  by (cases trigger; cases "bootstrapDone t"; cases "pendingEvents t")
    (simp_all add: NextSessionEvents_def session_events_def drained_def primary_events_def Let_def)


section \<open>Redelivery\<close>

text \<open>\<^verbatim>\<open>requeueUndelivered\<close> of \<^verbatim>\<open>src/internal/cwmp/runsession.go\<close>, with the exclusions of its table.\<close>

definition not_requeued :: "string \<Rightarrow> bool" where
  "not_requeued code \<longleftrightarrow> code \<in> set [EventConnectionRequest, EventBootstrap, EventTransferComplete]"

fun requeueUndelivered :: "Event list \<Rightarrow> EventTracker \<Rightarrow> EventTracker" where
  "requeueUndelivered [] t = t"
| "requeueUndelivered (e # es) t =
     (if not_requeued (EventCode e) then requeueUndelivered es t
      else requeueUndelivered es (requeueEvent e t))"

lemma requeueUndelivered_eq:
  "requeueUndelivered es t =
     t\<lparr>pendingEvents := pendingEvents t @ filter (\<lambda>e. \<not> not_requeued (EventCode e)) es\<rparr>"
  by (induction es t rule: requeueUndelivered.induct) (simp_all add: requeueEvent_def)

section \<open>Traces\<close>

datatype tracker_op =
    OpNext Trigger
  | OpAcknowledge
  | OpResetBootstrap
  | OpMethod string string
  | OpPeriodic
  | OpRequeue "Event list"
  | OpValueChange string
  | OpTransfer TransferComplete
  | OpDrainTransfers
  | OpDUState DUStateComplete
  | OpDrainDUStates

definition method_codes :: "string list" where
  "method_codes = [EventMethodReboot, EventMethodScheduleInform, EventMethodDownload, EventMethodUpload,
     EventMethodChangeDUState]"

text \<open>One operation: the event list it hands to a session, if any, and the tracker after it.  The
  exported \<^verbatim>\<open>QueueMethod...\<close> functions queue the five method events only.\<close>

fun tracker_exec :: "tracker_op \<Rightarrow> EventTracker \<Rightarrow> Event list option \<times> EventTracker" where
  "tracker_exec (OpNext trigger) t = (case NextSessionEvents trigger t of (es, t') \<Rightarrow> (Some es, t'))"
| "tracker_exec OpAcknowledge t = (None, Acknowledge t)"
| "tracker_exec OpResetBootstrap t = (None, ResetBootstrap t)"
| "tracker_exec (OpMethod code key) t =
     (None, if code \<in> set method_codes then queueMethod code key t else t)"
| "tracker_exec OpPeriodic t = (None, QueuePeriodic t)"
| "tracker_exec (OpRequeue es) t = (None, requeueUndelivered es t)"
| "tracker_exec (OpValueChange p) t = (None, RecordValueChange p t)"
| "tracker_exec (OpTransfer r) t = (None, QueueTransferComplete r t)"
| "tracker_exec OpDrainTransfers t = (None, snd (DrainTransferCompletes t))"
| "tracker_exec (OpDUState r) t = (None, QueueDUStateChangeComplete r t)"
| "tracker_exec OpDrainDUStates t = (None, snd (DrainDUStateChangeCompletes t))"

fun tracker_run :: "tracker_op list \<Rightarrow> EventTracker \<Rightarrow> Event list list \<times> EventTracker" where
  "tracker_run [] t = ([], t)"
| "tracker_run (op # ops) t =
     (let (r, t') = tracker_exec op t; (rs, t'') = tracker_run ops t'
      in (case r of None \<Rightarrow> rs | Some es \<Rightarrow> es # rs, t''))"

lemma session_events_bootstrap: "\<not> bootstrapDone t \<Longrightarrow> event EventBootstrap \<in> set (session_events trigger t)"
  by (simp add: session_events_def Let_def)

lemma exec_keeps_undone:
  "op \<noteq> OpAcknowledge \<Longrightarrow> \<not> bootstrapDone t \<Longrightarrow> \<not> bootstrapDone (snd (tracker_exec op t))"
  by (cases op) (auto simp: NextSessionEvents_eq drained_def ResetBootstrap_def queueMethod_def
      QueuePeriodic_def requeueEvent_def requeueUndelivered_eq RecordValueChange_def
      QueueTransferComplete_def DrainTransferCompletes_def QueueDUStateChangeComplete_def
      DrainDUStateChangeCompletes_def)

lemma exec_keeps_done:
  "op \<noteq> OpResetBootstrap \<Longrightarrow> bootstrapDone t \<Longrightarrow> bootstrapDone (snd (tracker_exec op t))"
  by (cases op) (auto simp: NextSessionEvents_eq drained_def Acknowledge_def Let_def queueMethod_def
      QueuePeriodic_def requeueEvent_def requeueUndelivered_eq RecordValueChange_def
      QueueTransferComplete_def DrainTransferCompletes_def QueueDUStateChangeComplete_def
      DrainDUStateChangeCompletes_def)

definition no_queued_bootstrap :: "EventTracker \<Rightarrow> bool" where
  "no_queued_bootstrap t \<longleftrightarrow> (\<forall>e \<in> set (pendingEvents t). EventCode e \<noteq> EventBootstrap)"

lemma exec_no_queued_bootstrap:
  "no_queued_bootstrap t \<Longrightarrow> no_queued_bootstrap (snd (tracker_exec op t))"
  by (cases op) (auto simp: no_queued_bootstrap_def NextSessionEvents_eq drained_def Acknowledge_def
      ResetBootstrap_def queueMethod_def method_codes_def event_def not_requeued_def Let_def
      QueuePeriodic_def requeueEvent_def requeueUndelivered_eq RecordValueChange_def
      QueueTransferComplete_def DrainTransferCompletes_def QueueDUStateChangeComplete_def
      DrainDUStateChangeCompletes_def)

lemma session_events_no_bootstrap:
  "bootstrapDone t \<Longrightarrow> no_queued_bootstrap t \<Longrightarrow> e \<in> set (session_events trigger t) \<Longrightarrow>
     EventCode e \<noteq> EventBootstrap"
  by (cases trigger) (auto simp: session_events_def Let_def no_queued_bootstrap_def event_def
      primary_events_def split: if_splits)

section \<open>Properties\<close>


text \<open>C16: BOOTSTRAP is announced until it is delivered: from a state where it is owed, every session
  announces it, whatever triggers, failures, re-queues and factory resets happen, as long as no
  session is acknowledged.\<close>

theorem bootstrap_persists:
  assumes "\<not> bootstrapDone t" and "OpAcknowledge \<notin> set ops"
  shows "\<forall>es \<in> set (fst (tracker_run ops t)). event EventBootstrap \<in> set es"
  using assms
proof (induction ops arbitrary: t)
  case (Cons op ops)
  have "\<forall>es \<in> set (fst (tracker_run ops (snd (tracker_exec op t)))). event EventBootstrap \<in> set es"
    using Cons exec_keeps_undone [of op t] by (auto simp: eq_commute [of OpAcknowledge])
  moreover have "event EventBootstrap \<in> set es" if "fst (tracker_exec op t) = Some es" for es
    using that Cons.prems session_events_bootstrap by (cases op) (auto simp: NextSessionEvents_eq)
  ultimately show ?case
    by (auto simp: Let_def case_prod_unfold split: option.splits)
qed simp

text \<open>Once delivered, BOOTSTRAP is never announced again before a factory reset, through any sequence
  of operations, and a factory reset inside the session that delivers it is not swallowed by
  that session's acknowledgement.\<close>

theorem bootstrap_once:
  assumes "bootstrapDone t" and "no_queued_bootstrap t" and "OpResetBootstrap \<notin> set ops"
  shows "(\<forall>es \<in> set (fst (tracker_run ops t)). \<forall>e \<in> set es. EventCode e \<noteq> EventBootstrap)
    \<and> \<not> bootstrapDone (Acknowledge (ResetBootstrap (snd (tracker_run ops t))))"
proof -
  have "\<forall>es \<in> set (fst (tracker_run ops t)). \<forall>e \<in> set es. EventCode e \<noteq> EventBootstrap"
    using assms
  proof (induction ops arbitrary: t)
    case (Cons op ops)
    have "\<forall>es \<in> set (fst (tracker_run ops (snd (tracker_exec op t)))). \<forall>e \<in> set es.
        EventCode e \<noteq> EventBootstrap"
      using Cons exec_keeps_done [of op t] exec_no_queued_bootstrap [of t op]
      by (auto simp: eq_commute [of OpResetBootstrap])
    moreover have "\<forall>e \<in> set es. EventCode e \<noteq> EventBootstrap" if "fst (tracker_exec op t) = Some es" for es
      using that Cons.prems session_events_no_bootstrap by (cases op) (auto simp: NextSessionEvents_eq)
    ultimately show ?case
      by (auto simp: Let_def case_prod_unfold split: option.splits)
  qed simp
  then show ?thesis by (simp add: Acknowledge_def ResetBootstrap_def Let_def)
qed

section \<open>Witnesses\<close>


theorem bootstrap_persists_witness:
  "list_all (\<lambda>es. event EventBootstrap \<in> set es)
     (fst (tracker_run [OpNext TriggerStartup, OpRequeue [event EventBoot], OpNext TriggerRetry]
       (NewEventTracker [])))"
  unfolding list_all_iff by (rule bootstrap_persists) (simp_all add: NewEventTracker_def)

definition delivered_tracker :: EventTracker where
  "delivered_tracker = Acknowledge (snd (NextSessionEvents TriggerStartup (NewEventTracker [])))"

theorem bootstrap_once_witness:
  "list_all (list_all (\<lambda>e. EventCode e \<noteq> EventBootstrap))
     (fst (tracker_run [OpNext TriggerPeriodic, OpAcknowledge, OpNext TriggerStartup] delivered_tracker))"
  unfolding list_all_iff
  using bootstrap_once [of delivered_tracker "[OpNext TriggerPeriodic, OpAcknowledge, OpNext TriggerStartup]"]
  by (simp add: delivered_tracker_def NextSessionEvents_eq drained_def Acknowledge_def NewEventTracker_def
      no_queued_bootstrap_def Let_def)

end
