(* ===== verification/Handlers.thy ===== *)
theory Handlers
  imports GoStrings Session Requests EventTracker ParamWalk ParamTables
begin

text \<open>
  The RPC handlers (\<^verbatim>\<open>src/internal/cwmp/handlers\<close>) on the state of one CPE, with the callbacks that
  \<^verbatim>\<open>cmd/cpe-sim/main.go\<close> gives them.  The state holds the parameter tree, the event tracker and the
  batches waiting for the end of the session; calls into the diagnostics runner, the scheduler
  and the transfer machinery are recorded in the order they are made.
\<close>

section \<open>The CPE\<close>

record Pending =
  IsDownload :: bool
  pd_CommandKey :: string
  pd_FileType :: string
  pd_URL :: string
  pd_DelaySeconds :: nat

datatype scheduled =
    ScheduledReboot string
  | ScheduledFactoryReset
  | ScheduledTransfer Pending
  | ScheduledDUState DUStateRequest
  | RequestedSession Trigger

record Cpe =
  c_tree :: Tree
  c_tracker :: EventTracker
  c_after :: "Setter list list"
  c_onset :: "string list"
  c_rearm :: nat
  c_scheduled :: "scheduled list"

text \<open>What the profile and the command line fix for the life of the CPE.\<close>

record CpeConfig =
  deferredParameters :: "string list"
  hasScheduler :: bool
  cwmpObserver :: nat
  pip_Interval :: string
  pip_Enable :: string
  pip_Time :: string
  factoryTemplate :: Tree
  serialPath :: string
  serialNumber :: string
  rebootScheduled :: bool
  resetScheduled :: bool

text \<open>The closure \<^verbatim>\<open>valueChange\<close>: record the path and, for one of the periodic inform parameters, have
  the scheduler read its settings again.\<close>

definition valueChange :: "CpeConfig \<Rightarrow> string \<Rightarrow> Cpe \<Rightarrow> Cpe" where
  "valueChange cfg path c =
     (let c1 = c\<lparr>c_tracker := RecordValueChange path (c_tracker c)\<rparr>
      in if hasScheduler cfg \<and>
            (path = pip_Interval cfg \<or> path = pip_Enable cfg \<or> (pip_Time cfg \<noteq> '''' \<and> path = pip_Time cfg))
         then c1\<lparr>c_rearm := Suc (c_rearm c1)\<rparr> else c1)"

text \<open>The observer registered on the tree: a value that changed under a notification attribute is
  recorded, and active notification asks for a session.  \<open>deliver\<close> runs it on the changes an
  operation handed out, those after the first \<open>n\<close> of the trace.\<close>

definition observer :: "CpeConfig \<Rightarrow> Change \<Rightarrow> Cpe \<Rightarrow> Cpe" where
  "observer cfg ch c =
     (if ch_Kind ch \<noteq> ChangeValue then c
      else (case GetAttributes (ch_Path ch) (c_tree c) of
              Inl _ \<Rightarrow> c
            | Inr a \<Rightarrow>
                if Notification a = 0 then c
                else (let c1 = valueChange cfg (ch_Path ch) c
                      in if Notification a = 2
                         then c1\<lparr>c_scheduled := c_scheduled c1 @ [RequestedSession TriggerValueChange]\<rparr>
                         else c1)))"

definition deliver :: "CpeConfig \<Rightarrow> nat \<Rightarrow> Cpe \<Rightarrow> Cpe" where
  "deliver cfg n c =
     fold (\<lambda>(oid, ch) c'. if oid = cwmpObserver cfg then observer cfg ch c' else c')
       (drop n (delivered (c_tree c))) c"

definition with_tree :: "CpeConfig \<Rightarrow> Tree \<Rightarrow> Cpe \<Rightarrow> Cpe" where
  "with_tree cfg t c = deliver cfg (length (delivered (c_tree c))) (c\<lparr>c_tree := t\<rparr>)"

text \<open>The closure \<^verbatim>\<open>factoryReset\<close>.\<close>

definition factoryReset :: "CpeConfig \<Rightarrow> Cpe \<Rightarrow> (goerr + unit) \<times> Cpe" where
  "factoryReset cfg c =
     (case Reset (Some (Clone (factoryTemplate cfg))) (c_tree c) of
        (Inl e, t) \<Rightarrow> (Inl (Errorf ''tree reset: %w'' [ArgW e]), c\<lparr>c_tree := t\<rparr>)
      | (Inr _, t) \<Rightarrow>
          (case SetSystem (serialPath cfg) (serialNumber cfg) t of
             (Inl e, t') \<Rightarrow> (Inl (Errorf ''re-stamp serial: %w'' [ArgW e]), c\<lparr>c_tree := t'\<rparr>)
           | (Inr _, t') \<Rightarrow>
               (let c1 = with_tree cfg t' c
                in (Inr (), c1\<lparr>c_tracker := ResetBootstrap (c_tracker c1)\<rparr>))))"

text \<open>At startup the leaves of the periodic inform get the notification attribute that makes
  SetParameterValues call \<^verbatim>\<open>valueChange\<close> for them.\<close>

definition periodicLeaves :: "CpeConfig \<Rightarrow> string list" where
  "periodicLeaves cfg =
     [pip_Interval cfg, pip_Enable cfg] @ (if pip_Time cfg \<noteq> '''' then [pip_Time cfg] else [])"

fun arm_leaves :: "string list \<Rightarrow> Tree \<Rightarrow> (goerr + unit) \<times> Tree" where
  "arm_leaves [] t = (Inr (), t)"
| "arm_leaves (p # ps) t =
     (case GetAttributes p t of
        Inl e \<Rightarrow> (Inl (Errorf ''get attributes %q: %w'' [ArgS p, ArgW e]), t)
      | Inr a \<Rightarrow>
          (case SetAttributes p (a\<lparr>Notification := 1\<rparr>) t of
             (Inl e, t') \<Rightarrow> (Inl (Errorf ''set notification on %q: %w'' [ArgS p, ArgW e]), t')
           | (Inr _, t') \<Rightarrow> arm_leaves ps t'))"

section \<open>Faults\<close>

definition fault :: "int \<Rightarrow> string \<Rightarrow> herr" where
  "fault code text = FaultError \<lparr>ft_FaultCode = code, ft_FaultString = text, ft_SetFaults = []\<rparr>"

definition faultInvalidParameterName :: "string \<Rightarrow> herr" where
  "faultInvalidParameterName path = fault 9005 (''Invalid parameter name: '' @ path)"

definition faultInvalidArgs :: "string \<Rightarrow> herr" where
  "faultInvalidArgs detail = fault 9003 (''Invalid arguments: '' @ detail)"

definition decode_fault :: "string \<Rightarrow> goerr \<Rightarrow> herr" where
  "decode_fault what e = faultInvalidArgs (''decode '' @ what @ '': '' @ Error_text e)"

section \<open>GetParameterValues\<close>

text \<open>A path with a trailing dot stands for all leaves below it.\<close>

fun collect_entries :: "Tree \<Rightarrow> string list \<Rightarrow> herr + (string \<times> Value) list" where
  "collect_entries t [] = Inr []"
| "collect_entries t (p # ps) =
     (let here =
        (if HasSuffix p ''.'' then
           (case Walk p 0 collect_fn t [] of
              (Inl _, _) \<Rightarrow> Inl (faultInvalidParameterName p)
            | (Inr _, vs) \<Rightarrow> Inr vs)
         else
           (case Get p t of
              Inl _ \<Rightarrow> Inl (faultInvalidParameterName p)
            | Inr v \<Rightarrow> Inr [(p, v)]))
      in case here of
           Inl f \<Rightarrow> Inl f
         | Inr vs \<Rightarrow> (case collect_entries t ps of Inl f \<Rightarrow> Inl f | Inr ws \<Rightarrow> Inr (vs @ ws)))"

fun write_values :: "(string \<times> Value) list \<Rightarrow> herr + string" where
  "write_values [] = Inr ''''"
| "write_values ((name, v) # es) =
     (case Marshal (VType v) (Raw v) of
        Inl e \<Rightarrow> Inl (fault 9002 (''marshal '' @ name @ '': '' @ Error_text e))
      | Inr canon \<Rightarrow>
          (case write_values es of
             Inl f \<Rightarrow> Inl f
           | Inr rest \<Rightarrow>
               Inr (''        <ParameterValueStruct>'' @ NL
                 @ tag ''          '' ''Name'' (escape name)
                 @ ''          <Value xsi:type='' @ DQ @ VType v @ DQ @ ''>'' @ escape canon @ ''</Value>'' @ NL
                 @ ''        </ParameterValueStruct>'' @ NL @ rest)))"

definition list_body :: "string \<Rightarrow> string" where
  "list_body inner = ''      <ParameterList>'' @ NL @ inner @ ''      </ParameterList>'' @ NL"

definition gpv_Handle :: "request \<Rightarrow> Tree \<Rightarrow> herr + string" where
  "gpv_Handle req t =
     (case readStringList (snd req) ''ParameterNames'' (fst req) of
        (Inl e, _) \<Rightarrow> Inl (decode_fault ''ParameterNames'' e)
      | (Inr paths, _) \<Rightarrow>
          if length paths = 0 then Inl (faultInvalidArgs ''ParameterNames is empty'')
          else (case collect_entries t paths of
                  Inl f \<Rightarrow> Inl f
                | Inr entries \<Rightarrow>
                    (case write_values entries of Inl f \<Rightarrow> Inl f | Inr s \<Rightarrow> Inr (list_body s))))"

section \<open>GetParameterNames\<close>

definition writeParameterInfoStruct :: "string \<Rightarrow> bool \<Rightarrow> string" where
  "writeParameterInfoStruct name wr =
     ''        <ParameterInfoStruct>'' @ NL
     @ tag ''          '' ''Name'' (escape name)
     @ tag ''          '' ''Writable'' (if wr then ''true'' else ''false'')
     @ ''        </ParameterInfoStruct>'' @ NL"

definition gpn_Handle :: "request \<Rightarrow> Tree \<Rightarrow> herr + string" where
  "gpn_Handle req t =
     (case decodeGPN (snd req) 2 ('''', '''') (fst req) of
        Inl (name, e) \<Rightarrow> Inl (decode_fault name e)
      | Inr (path, nextLevelStr) \<Rightarrow>
          if is_true nextLevelStr then
            (case Children path t of
               Inl _ \<Rightarrow> Inl (faultInvalidParameterName path)
             | Inr cs \<Rightarrow>
                 Inr (list_body (concat (map (\<lambda>c. writeParameterInfoStruct (ci_Name c) (ci_Writable c)) cs))))
          else
            (case Walk path 0 collect_fn t [] of
               (Inl e, _) \<Rightarrow>
                 if Contains (Error_text e) ''not found'' then Inl (faultInvalidParameterName path)
                 else Inl (PlainError e)
             | (Inr _, vs) \<Rightarrow>
                 Inr (list_body (concat (map (\<lambda>(n, v). writeParameterInfoStruct n (Writable v)) vs)))))"

section \<open>GetParameterAttributes\<close>

definition writeAttributeStruct :: "string \<Rightarrow> Attributes \<Rightarrow> string" where
  "writeAttributeStruct name a =
     ''        <ParameterAttributeStruct>'' @ NL
     @ tag ''          '' ''Name'' (escape name)
     @ tag ''          '' ''Notification'' (Itoa (Notification a))
     @ (case AccessList a of
          None \<Rightarrow> ''          <AccessList>'' @ NL @ tag ''            '' ''string'' ''Subscriber''
                  @ ''          </AccessList>'' @ NL
        | Some xs \<Rightarrow>
            if xs = [] then ''          <AccessList></AccessList>'' @ NL
            else ''          <AccessList>'' @ NL
                 @ concat (map (\<lambda>x. tag ''            '' ''string'' (escape x)) xs)
                 @ ''          </AccessList>'' @ NL)
     @ ''        </ParameterAttributeStruct>'' @ NL"

fun write_attributes :: "Tree \<Rightarrow> string list \<Rightarrow> herr + string" where
  "write_attributes t [] = Inr ''''"
| "write_attributes t (name # ns) =
     (case GetAttributes name t of
        Inl _ \<Rightarrow> Inl (faultInvalidParameterName name)
      | Inr a \<Rightarrow>
          (case write_attributes t ns of
             Inl f \<Rightarrow> Inl f
           | Inr rest \<Rightarrow> Inr (writeAttributeStruct name a @ rest)))"

definition gpa_Handle :: "request \<Rightarrow> Tree \<Rightarrow> herr + string" where
  "gpa_Handle req t =
     (case readStringList (snd req) ''ParameterNames'' (fst req) of
        (Inl e, _) \<Rightarrow> Inl (decode_fault ''ParameterNames'' e)
      | (Inr paths, _) \<Rightarrow>
          if length paths = 0 then Inl (faultInvalidArgs ''ParameterNames is empty'')
          else (case collect_entries t paths of
                  Inl f \<Rightarrow> Inl f
                | Inr entries \<Rightarrow>
                    (case write_attributes t (map fst entries) of
                       Inl f \<Rightarrow> Inl f
                     | Inr s \<Rightarrow> Inr (list_body s))))"

section \<open>GetRPCMethods\<close>

definition grm_Handle :: "string list \<Rightarrow> string" where
  "grm_Handle methods =
     ''      <MethodList soap-enc:arrayType='' @ DQ @ ''xsd:string['' @ show_nat (length methods) @ '']''
     @ DQ @ ''>'' @ NL
     @ concat (map (\<lambda>m. tag ''        '' ''string'' m) methods)
     @ ''      </MethodList>'' @ NL"

section \<open>SetParameterValues\<close>

text \<open>The unknown names and, when there are none, the setters with each leaf's own type and
  writability.\<close>

fun prepare_loop :: "Tree \<Rightarrow> spvEntry list \<Rightarrow> Setter list \<times> SetParameterValuesFault list" where
  "prepare_loop t [] = ([], [])"
| "prepare_loop t (e # es) =
     (let (out, unknown) = prepare_loop t es in
      case Get (se_Name e) t of
        Inl _ \<Rightarrow>
          (out, \<lparr>sf_ParameterName = se_Name e, sf_FaultCode = 9005,
                 sf_FaultString = ''Invalid parameter name''\<rparr> # unknown)
      | Inr cur \<Rightarrow>
          (\<lparr>st_Path = se_Name e,
            st_Value = \<lparr>VType = VType cur, Raw = se_Raw e, Writable = Writable cur\<rparr>\<rparr> # out, unknown))"

definition spvBatchFault :: "SetParameterValuesFault list \<Rightarrow> herr" where
  "spvBatchFault perParam =
     FaultError \<lparr>ft_FaultCode = 9003, ft_FaultString = ''Invalid arguments'', ft_SetFaults = perParam\<rparr>"

definition prepareSetters :: "Tree \<Rightarrow> spvEntry list \<Rightarrow> herr + Setter list" where
  "prepareSetters t entries =
     (let (out, unknown) = prepare_loop t entries
      in if 0 < length unknown then Inl (spvBatchFault unknown) else Inr out)"

definition entryFaultWire :: "EntryFault \<Rightarrow> SetParameterValuesFault" where
  "entryFaultWire f =
     (let mk = (\<lambda>code text. \<lparr>sf_ParameterName = ef_Path f, sf_FaultCode = code, sf_FaultString = text\<rparr>)
      in case ef_Code f of
           FailureNotFound \<Rightarrow> mk 9005 ''Invalid parameter name''
         | FailureNotWritable \<Rightarrow> mk 9008 ''Attempt to set a non-writable parameter''
         | FailureTypeMismatch \<Rightarrow> mk 9006 ''Invalid parameter type''
         | FailureInvalidValue \<Rightarrow> mk 9007 ''Invalid parameter value''
         | FailureDuplicatePath \<Rightarrow> mk 9003 ''Invalid arguments''
         | FailureUnknown \<Rightarrow> mk 9002 ''Internal error'')"

definition mapSetBatchError :: "SetBatchError \<Rightarrow> herr" where
  "mapSetBatchError sbe =
     (let faults = (if length (sb_All sbe) = 0
                    then [\<lparr>ef_Path = sb_Path sbe, ef_Code = sb_Code sbe, ef_Err = sb_Err sbe\<rparr>]
                    else sb_All sbe)
      in spvBatchFault (map entryFaultWire faults))"

fun fire_onSet :: "BatchResult list \<Rightarrow> Cpe \<Rightarrow> Cpe" where
  "fire_onSet [] c = c"
| "fire_onSet (r # rs) c =
     fire_onSet rs (if Changed r then c\<lparr>c_onset := c_onset c @ [br_Path r]\<rparr> else c)"

fun fire_valueChange :: "CpeConfig \<Rightarrow> BatchResult list \<Rightarrow> Cpe \<Rightarrow> Cpe" where
  "fire_valueChange cfg [] c = c"
| "fire_valueChange cfg (r # rs) c =
     fire_valueChange cfg rs
       (if \<not> Changed r then c
        else (case GetAttributes (br_Path r) (c_tree c) of
                Inl _ \<Rightarrow> c
              | Inr a \<Rightarrow> if 0 < Notification a then valueChange cfg (br_Path r) c else c))"

definition spv_apply :: "CpeConfig \<Rightarrow> Setter list \<Rightarrow> Cpe \<Rightarrow> (SetBatchError + unit) \<times> Cpe" where
  "spv_apply cfg setters c =
     (case SetBatch setters (c_tree c) of
        (Inl e, t) \<Rightarrow> (Inl e, c\<lparr>c_tree := t\<rparr>)
      | (Inr results, t) \<Rightarrow>
          (Inr (), fire_valueChange cfg results (fire_onSet results (c\<lparr>c_tree := t\<rparr>))))"

definition defers :: "CpeConfig \<Rightarrow> Setter list \<Rightarrow> bool" where
  "defers cfg setters \<longleftrightarrow> list_ex (\<lambda>s. st_Path s \<in> set (deferredParameters cfg)) setters"

definition status :: "string \<Rightarrow> string" where
  "status s = tag ''      '' ''Status'' s"

definition spv_Handle :: "CpeConfig \<Rightarrow> Cpe handler" where
  "spv_Handle cfg req c =
     (case decodeSPVRequest (snd req) ([], '''') (fst req) of
        Inl e \<Rightarrow> (Inl (decode_fault ''SetParameterValues'' e), c)
      | Inr (entries, _) \<Rightarrow>
          (case prepareSetters (c_tree c) entries of
             Inl f \<Rightarrow> (Inl f, c)
           | Inr prepared \<Rightarrow>
               if defers cfg prepared then
                 (case CheckBatch prepared (c_tree c) of
                    Some e \<Rightarrow> (Inl (mapSetBatchError e), c)
                  | None \<Rightarrow> (Inr (status ''1''), c\<lparr>c_after := c_after c @ [prepared]\<rparr>))
               else
                 (case spv_apply cfg prepared c of
                    (Inl e, c') \<Rightarrow> (Inl (mapSetBatchError e), c')
                  | (Inr _, c') \<Rightarrow> (Inr (status ''0''), c'))))"
section \<open>SetParameterAttributes\<close>

definition resolveLeaves :: "Tree \<Rightarrow> string \<Rightarrow> goerr + string list" where
  "resolveLeaves t name =
     (if name = '''' \<or> HasSuffix name ''.'' then
        (case Walk name 0 collect_fn t [] of
           (Inl e, _) \<Rightarrow> Inl e
         | (Inr _, vs) \<Rightarrow> Inr (map fst vs))
      else (case Get name t of Inl e \<Rightarrow> Inl e | Inr _ \<Rightarrow> Inr [name]))"

fun spa_pending :: "Tree \<Rightarrow> spaEntry list \<Rightarrow> herr + (string \<times> spaEntry) list" where
  "spa_pending t [] = Inr []"
| "spa_pending t (e # es) =
     (if NotificationChange e \<and> (sa_Notification e < 0 \<or> 2 < sa_Notification e) then
        Inl (fault 9009 (''Notification request rejected: value '' @ Itoa (sa_Notification e)
                           @ '' out of range [0,2]''))
      else (case resolveLeaves t (sa_Name e) of
              Inl _ \<Rightarrow> Inl (faultInvalidParameterName (sa_Name e))
            | Inr leaves \<Rightarrow>
                (case spa_pending t es of
                   Inl f \<Rightarrow> Inl f
                 | Inr rest \<Rightarrow> Inr (map (\<lambda>p. (p, e)) leaves @ rest))))"

definition layer :: "spaEntry \<Rightarrow> Attributes \<Rightarrow> Attributes" where
  "layer e cur =
     (let a1 = (if NotificationChange e then cur\<lparr>Notification := sa_Notification e\<rparr> else cur)
      in if AccessListChange e
         then a1\<lparr>AccessList := (case sa_AccessList e of None \<Rightarrow> Some [] | Some xs \<Rightarrow> append_nil xs)\<rparr>
         else a1)"

fun spa_apply :: "(string \<times> spaEntry) list \<Rightarrow> Tree \<Rightarrow> (herr + unit) \<times> Tree" where
  "spa_apply [] t = (Inr (), t)"
| "spa_apply ((path, e) # pcs) t =
     (case GetAttributes path t of
        Inl err \<Rightarrow> (Inl (fault 9002 (''internal: GetAttributes '' @ path @ '': '' @ Error_text err)), t)
      | Inr cur \<Rightarrow>
          (case SetAttributes path (layer e cur) t of
             (Inl err, t') \<Rightarrow> (Inl (fault 9002 (''internal: SetAttributes '' @ path @ '': '' @ Error_text err)), t')
           | (Inr _, t') \<Rightarrow> spa_apply pcs t'))"

definition spa_entries :: "spaEntry list \<Rightarrow> Tree \<Rightarrow> (herr + unit) \<times> Tree" where
  "spa_entries es t =
     (case spa_pending t es of Inl f \<Rightarrow> (Inl f, t) | Inr pcs \<Rightarrow> spa_apply pcs t)"

definition spa_Handle :: "CpeConfig \<Rightarrow> Cpe handler" where
  "spa_Handle cfg req c =
     (case decodeSPARequest (snd req) [] (fst req) of
        Inl e \<Rightarrow> (Inl (decode_fault ''SetParameterAttributes'' e), c)
      | Inr entries \<Rightarrow>
          (case spa_entries entries (c_tree c) of
             (Inl f, t) \<Rightarrow> (Inl f, with_tree cfg t c)
           | (Inr _, t) \<Rightarrow> (Inr '''', with_tree cfg t c)))"

section \<open>AddObject and DeleteObject\<close>

definition mapAddObjectError :: "string \<Rightarrow> goerr \<Rightarrow> herr" where
  "mapAddObjectError path e =
     (if Is_kind e KindNotFound then faultInvalidParameterName path
      else if Is_kind e KindInvalidArgument then
        fault 9001 (''Request denied: '' @ path @ '' is not a mutable table'')
      else fault 9002 (Error_text e))"

definition ao_Handle :: "CpeConfig \<Rightarrow> Cpe handler" where
  "ao_Handle cfg req c =
     (case decodeObjectNameAndKey (snd req) ('''', '''') (fst req) of
        Inl e \<Rightarrow> (Inl (decode_fault ''AddObject'' e), c)
      | Inr (objectName, _) \<Rightarrow>
          if objectName = '''' then (Inl (faultInvalidArgs ''ObjectName is empty''), c)
          else (case AddObject objectName (c_tree c) of
                  (Inl e, t) \<Rightarrow> (Inl (mapAddObjectError objectName e), with_tree cfg t c)
                | (Inr inst, t) \<Rightarrow>
                    (Inr (tag ''      '' ''InstanceNumber'' (Itoa inst) @ status ''0''), with_tree cfg t c)))"

definition mapDeleteObjectError :: "string \<Rightarrow> goerr \<Rightarrow> herr" where
  "mapDeleteObjectError path e =
     (if Is_kind e KindNotFound \<or> Is_kind e KindInvalidArgument then
        fault 9005 (''Invalid parameter name: '' @ Error_text e)
      else fault 9002 (Error_text e))"

definition do_Handle :: "CpeConfig \<Rightarrow> Cpe handler" where
  "do_Handle cfg req c =
     (case decodeObjectNameAndKey (snd req) ('''', '''') (fst req) of
        Inl e \<Rightarrow> (Inl (decode_fault ''DeleteObject'' e), c)
      | Inr (objectName, _) \<Rightarrow>
          if objectName = '''' then (Inl (faultInvalidArgs ''ObjectName is empty''), c)
          else (case DeleteObject objectName (c_tree c) of
                  (Inl e, t) \<Rightarrow> (Inl (mapDeleteObjectError objectName e), with_tree cfg t c)
                | (Inr _, t) \<Rightarrow> (Inr (status ''0''), with_tree cfg t c)))"

section \<open>Reboot and FactoryReset\<close>

definition schedule :: "scheduled \<Rightarrow> Cpe \<Rightarrow> Cpe" where
  "schedule x c = c\<lparr>c_scheduled := c_scheduled c @ [x]\<rparr>"

definition reboot_Handle :: "CpeConfig \<Rightarrow> Cpe handler" where
  "reboot_Handle cfg req c =
     (case decodeCommandKey (snd req) '''' (fst req) of
        Inl e \<Rightarrow> (Inl (decode_fault ''Reboot'' e), c)
      | Inr commandKey \<Rightarrow>
          (Inr '''',
           if rebootScheduled cfg then schedule (ScheduledReboot commandKey) c
           else c\<lparr>c_tracker := QueueMethodReboot commandKey (c_tracker c)\<rparr>))"

definition fr_Handle :: "CpeConfig \<Rightarrow> Cpe handler" where
  "fr_Handle cfg req c =
     (if resetScheduled cfg then (Inr '''', schedule ScheduledFactoryReset c)
      else (case factoryReset cfg c of
              (Inl e, c') \<Rightarrow> (Inl (fault 9002 (''FactoryReset failed: '' @ Error_text e)), c')
            | (Inr _, c') \<Rightarrow> (Inr '''', c')))"

section \<open>Download and Upload\<close>

definition writeTransferResponse :: string where
  "writeTransferResponse =
     status ''1'' @ tag ''      '' ''StartTime'' ''0001-01-01T00:00:00Z''
     @ tag ''      '' ''CompleteTime'' ''0001-01-01T00:00:00Z''"

definition transfer_Handle :: "bool \<Rightarrow> string \<Rightarrow> Cpe handler" where
  "transfer_Handle isDownload name req c =
     (case decodeTransferRequest (snd req) empty_transferEntry (fst req) of
        Inl e \<Rightarrow> (Inl (decode_fault name e), c)
      | Inr entry \<Rightarrow>
          if te_FileType entry = '''' then (Inl (faultInvalidArgs ''FileType is required''), c)
          else if te_URL entry = '''' then (Inl (faultInvalidArgs ''URL is required''), c)
          else (Inr writeTransferResponse,
                schedule (ScheduledTransfer
                  \<lparr>IsDownload = isDownload, pd_CommandKey = te_CommandKey entry,
                   pd_FileType = te_FileType entry, pd_URL = te_URL entry,
                   pd_DelaySeconds = te_DelaySeconds entry\<rparr>) c))"

definition dl_Handle :: "Cpe handler" where
  "dl_Handle = transfer_Handle True ''Download''"

definition up_Handle :: "Cpe handler" where
  "up_Handle = transfer_Handle False ''Upload''"

section \<open>ChangeDUState\<close>

fun check_operations :: "nat \<Rightarrow> DUStateOperation list \<Rightarrow> herr option" where
  "check_operations i [] = None"
| "check_operations i (op # ops) =
     (let bad = (\<lambda>text. Some (faultInvalidArgs (''operation '' @ show_nat i @ '': '' @ text))) in
      if dop_Kind op = ''install'' \<and> dop_URL op = '''' then bad ''InstallOpStruct needs a URL''
      else if dop_Kind op = ''update'' \<and> dop_UUID op = '''' \<and> dop_URL op = '''' then
        bad ''UpdateOpStruct needs a UUID or a URL''
      else if dop_Kind op = ''uninstall'' \<and> dop_UUID op = '''' then bad ''UninstallOpStruct needs a UUID''
      else check_operations (Suc i) ops)"

definition changeDUState_Handle :: "Cpe handler" where
  "changeDUState_Handle req c =
     (case decodeChangeDUState (snd req) False \<lparr>dr_CommandKey = '''', dr_Operations = []\<rparr> (fst req) of
        Inl e \<Rightarrow> (Inl (decode_fault ''ChangeDUState'' e), c)
      | Inr parsed \<Rightarrow>
          if length (dr_Operations parsed) = 0 then (Inl (faultInvalidArgs ''Operations is empty''), c)
          else (case check_operations 0 (dr_Operations parsed) of
                  Some f \<Rightarrow> (Inl f, c)
                | None \<Rightarrow> (Inr '''', schedule (ScheduledDUState parsed) c)))"

section \<open>The handler table\<close>

text \<open>The list given to \<^verbatim>\<open>NewSession\<close>; ChangeDUState is there when the profile declares software
  modules.  A handler that only reads keeps the state.\<close>

definition reading :: "(request \<Rightarrow> Tree \<Rightarrow> herr + string) \<Rightarrow> Cpe handler" where
  "reading h req c = (h req (c_tree c), c)"

definition rpcMethods :: "bool \<Rightarrow> string list" where
  "rpcMethods hasModules =
     [''GetRPCMethods'', ''GetParameterValues'', ''GetParameterNames'', ''GetParameterAttributes'',
      ''SetParameterValues'', ''SetParameterAttributes'', ''AddObject'', ''DeleteObject'', ''Reboot'',
      ''FactoryReset'', ''Download'', ''Upload''] @ (if hasModules then [''ChangeDUState''] else [])"

definition cpe_handlers :: "CpeConfig \<Rightarrow> bool \<Rightarrow> (string \<times> Cpe handler) list" where
  "cpe_handlers cfg hasModules =
     [(''GetRPCMethods'', reading (\<lambda>_ _. Inr (grm_Handle (rpcMethods hasModules)))),
      (''GetParameterValues'', reading gpv_Handle),
      (''GetParameterNames'', reading gpn_Handle),
      (''GetParameterAttributes'', reading gpa_Handle),
      (''SetParameterValues'', spv_Handle cfg),
      (''SetParameterAttributes'', spa_Handle cfg),
      (''AddObject'', ao_Handle cfg),
      (''DeleteObject'', do_Handle cfg),
      (''Reboot'', reboot_Handle cfg),
      (''FactoryReset'', fr_Handle cfg),
      (''Download'', dl_Handle),
      (''Upload'', up_Handle)]
     @ (if hasModules then [(''ChangeDUState'', changeDUState_Handle)] else [])"

end
