(* ===== verification/HandlerProps.thy ===== *)
theory HandlerProps
  imports Handlers ParamReach
begin

text \<open>
  What the RPC handlers promise.  A request that is refused leaves the whole CPE as it was; a
  SetParameterValues is all or nothing and reports every offending parameter; a deferred one is
  checked now and applied after the session; attributes, objects and the factory reset behave as
  the operations of the tree say.
\<close>

section \<open>Batches prepared from a request\<close>

definition setter_of :: "Tree \<Rightarrow> spvEntry \<Rightarrow> Setter" where
  "setter_of t e =
     \<lparr>st_Path = se_Name e,
      st_Value = (case Get (se_Name e) t of Inl _ \<Rightarrow> zero_Value | Inr v \<Rightarrow> v\<lparr>Raw := se_Raw e\<rparr>)\<rparr>"

definition known :: "Tree \<Rightarrow> spvEntry \<Rightarrow> bool" where
  "known t e \<longleftrightarrow> \<not> is_err (Get (se_Name e) t)"

definition unknown_fault :: "spvEntry \<Rightarrow> SetParameterValuesFault" where
  "unknown_fault e =
     \<lparr>sf_ParameterName = se_Name e, sf_FaultCode = 9005, sf_FaultString = ''Invalid parameter name''\<rparr>"

lemma Raw_update: "v\<lparr>Raw := x\<rparr> = \<lparr>VType = VType v, Raw = x, Writable = Writable v\<rparr>"
  by (cases v) simp

lemma prepare_loop_eq:
  "prepare_loop t es = (map (setter_of t) (filter (known t) es), map unknown_fault (filter (\<lambda>e. \<not> known t e) es))"
  by (induction t es rule: prepare_loop.induct)
    (auto simp: setter_of_def known_def unknown_fault_def Raw_update split: sum.splits)

lemma prepareSetters_eq:
  "prepareSetters t es =
     (if list_all (known t) es then Inr (map (setter_of t) es)
      else Inl (spvBatchFault (map unknown_fault (filter (\<lambda>e. \<not> known t e) es))))"
proof (cases "list_all (known t) es")
  case True
  then have "filter (known t) es = es" "filter (\<lambda>e. \<not> known t e) es = []"
    by (auto simp: list_all_iff filter_empty_conv)
  with True show ?thesis by (simp add: prepareSetters_def prepare_loop_eq)
next
  case False
  then have "filter (\<lambda>e. \<not> known t e) es \<noteq> []"
    by (auto simp: list_all_iff filter_empty_conv)
  with False show ?thesis by (simp add: prepareSetters_def prepare_loop_eq)
qed

text \<open>When a request is accepted: every name is a writable parameter, the new text is valid for the
  type the parameter already has, and no parameter is named twice.\<close>

definition entry_accepted :: "Tree \<Rightarrow> spvEntry \<Rightarrow> bool" where
  "entry_accepted t e =
     (case Get (se_Name e) t of
        Inl _ \<Rightarrow> False
      | Inr v \<Rightarrow> Writable v \<and> valid_Value (v\<lparr>Raw := se_Raw e\<rparr>))"

definition spv_accepted :: "Tree \<Rightarrow> spvEntry list \<Rightarrow> bool" where
  "spv_accepted t es \<longleftrightarrow> list_all (entry_accepted t) es \<and> distinct (map (parsePath \<circ> se_Name) es)"

definition spv_deferred :: "CpeConfig \<Rightarrow> spvEntry list \<Rightarrow> bool" where
  "spv_deferred cfg es \<longleftrightarrow> list_ex (\<lambda>e. se_Name e \<in> set (deferredParameters cfg)) es"

lemma entry_ok_setter:
  "known t e \<Longrightarrow> (\<exists>b. entry_ok (root t) (setter_of t e) b) \<longleftrightarrow> entry_accepted t e"
proof (cases "Get (se_Name e) t")
  case (Inr v)
  then obtain segs where s: "parsePath (se_Name e) = Inr segs" "leaf_at (root t) segs = Some v"
    by (auto simp: Get_Inr)
  have "(\<exists>b. entry_ok (root t) (setter_of t e) b) \<longleftrightarrow> Writable v \<and> valid_Value (v\<lparr>Raw := se_Raw e\<rparr>)"
  proof
    assume "Writable v \<and> valid_Value (v\<lparr>Raw := se_Raw e\<rparr>)"
    then have "entry_ok (root t) (setter_of t e) \<lparr>be_node = segs, be_old = v, be_new = v\<lparr>Raw := se_Raw e\<rparr>\<rparr>"
      using s Inr by (simp add: entry_ok_def setter_of_def)
    then show "\<exists>b. entry_ok (root t) (setter_of t e) b" by blast
  qed (use s Inr in \<open>auto simp: entry_ok_def setter_of_def\<close>)
  with Inr show ?thesis by (simp add: entry_accepted_def)
qed (simp add: known_def)

lemma entry_accepted_known: "entry_accepted t e \<Longrightarrow> known t e"
  by (auto simp: entry_accepted_def known_def split: sum.splits)

lemma setter_paths: "map (parsePath \<circ> st_Path) (map (setter_of t) es) = map (parsePath \<circ> se_Name) es"
  by (simp add: setter_of_def)

lemma batch_ok_iff:
  "(\<exists>bs. list_all2 (entry_ok r) ss bs \<and> distinct (map be_node bs)) \<longleftrightarrow>
     (\<forall>s \<in> set ss. \<exists>b. entry_ok r s b) \<and> distinct (map (parsePath \<circ> st_Path) ss)"
  using entries_exist [of ss r] distinct_entries [of r ss] by blast

lemma prepared_ok_iff:
  assumes "list_all (known t) es"
  shows "(\<exists>bs. preflight (map (setter_of t) es) t = Inr bs) \<longleftrightarrow> spv_accepted t es"
proof -
  have "(\<forall>s \<in> set (map (setter_of t) es). \<exists>b. entry_ok (root t) s b) \<longleftrightarrow> list_all (entry_accepted t) es"
    using assms entry_ok_setter [of t] by (fastforce simp: list_all_iff)
  then show ?thesis
    by (simp add: preflight_Inr batch_ok_iff spv_accepted_def setter_paths del: set_map map_map)
qed

lemma SetBatch_result: "\<not> is_err (fst (SetBatch ss t)) \<longleftrightarrow> (\<exists>bs. preflight ss t = Inr bs)"
  by (cases "ss = []") (auto simp: SetBatch_def preflight_def Let_def split: sum.splits prod.splits)

lemma CheckBatch_None: "CheckBatch ss t = None \<longleftrightarrow> (\<exists>bs. preflight ss t = Inr bs)"
  by (auto simp: CheckBatch_def split: sum.splits)

lemma defers_prepared: "defers cfg (map (setter_of t) es) \<longleftrightarrow> spv_deferred cfg es"
  by (simp add: defers_def spv_deferred_def list_ex_iff setter_of_def)

section \<open>The handler by cases\<close>

lemma spv_apply_Inl:
  assumes "spv_apply cfg ss c = (Inl e, c')"
  shows "c' = c \<and> preflight ss (c_tree c) = Inl e"
  using assms
  by (auto simp: spv_apply_def SetBatch_def Let_def split: prod.splits sum.splits if_splits)

lemma spv_Handle_cases:
  fixes c :: Cpe
  assumes dec: "decodeSPVRequest (snd req) ([], '''') (fst req) = Inr (es, key)"
  defines "t \<equiv> c_tree c" and "ss \<equiv> map (setter_of (c_tree c)) es"
  shows "spv_Handle cfg req c =
    (if \<not> list_all (known t) es then (Inl (spvBatchFault (map unknown_fault (filter (\<lambda>e. \<not> known t e) es))), c)
     else (case preflight ss t of
             Inl e \<Rightarrow> (Inl (mapSetBatchError e), c)
           | Inr _ \<Rightarrow>
               if spv_deferred cfg es then (Inr (status ''1''), c\<lparr>c_after := c_after c @ [ss]\<rparr>)
               else (Inr (status ''0''), snd (spv_apply cfg ss c))))"
proof (cases "list_all (known t) es")
  case True
  then have p: "prepareSetters (c_tree c) es = Inr ss" by (simp add: prepareSetters_eq t_def ss_def)
  show ?thesis
  proof (cases "preflight ss t")
    case (Inl e)
    then have "CheckBatch ss t = Some e" by (simp add: CheckBatch_def)
    moreover have "SetBatch ss t = (Inl e, t)"
      using Inl by (cases "ss = []") (simp_all add: SetBatch_def preflight_def)
    then have "spv_apply cfg ss c = (Inl e, c)" by (simp add: spv_apply_def t_def)
    ultimately show ?thesis using True Inl dec p by (simp add: spv_Handle_def t_def)
  next
    case (Inr bs)
    then have "CheckBatch ss t = None" by (simp add: CheckBatch_def)
    moreover obtain rs t' where "SetBatch ss t = (Inr rs, t')"
      using Inr SetBatch_result [of ss t] by (cases "SetBatch ss t") (auto simp: not_is_err_conv)
    then have "spv_apply cfg ss c = (Inr (), snd (spv_apply cfg ss c))"
      by (simp add: spv_apply_def t_def)
    ultimately show ?thesis
      using True Inr dec p defers_prepared [of cfg "c_tree c" es]
      by (cases "spv_apply cfg ss c") (auto simp: spv_Handle_def t_def ss_def)
  qed
qed (use dec in \<open>simp add: spv_Handle_def prepareSetters_eq t_def\<close>)

section \<open>An accepted batch\<close>

definition old_of :: "Tree \<Rightarrow> spvEntry \<Rightarrow> Value" where
  "old_of t e = (case Get (se_Name e) t of Inl _ \<Rightarrow> zero_Value | Inr v \<Rightarrow> v)"

definition segs_of :: "spvEntry \<Rightarrow> string list" where
  "segs_of e = (case parsePath (se_Name e) of Inl _ \<Rightarrow> [] | Inr segs \<Rightarrow> segs)"

definition entry_of :: "Tree \<Rightarrow> spvEntry \<Rightarrow> batchEntry" where
  "entry_of t e = \<lparr>be_node = segs_of e, be_old = old_of t e, be_new = (old_of t e)\<lparr>Raw := se_Raw e\<rparr>\<rparr>"

definition result_of :: "Tree \<Rightarrow> spvEntry \<Rightarrow> BatchResult" where
  "result_of t e = \<lparr>br_Path = se_Name e, OldValue = old_of t e, NewValue = (old_of t e)\<lparr>Raw := se_Raw e\<rparr>,
     Changed = (Raw (old_of t e) \<noteq> se_Raw e)\<rparr>"

definition changes_of :: "Tree \<Rightarrow> spvEntry list \<Rightarrow> (string list \<times> Value) list" where
  "changes_of t es = map (\<lambda>e. (segs_of e, (old_of t e)\<lparr>Raw := se_Raw e\<rparr>)) es"

lemma entry_accepted_facts:
  assumes "entry_accepted t e"
  shows "parsePath (se_Name e) = Inr (segs_of e)" and "leaf_at (root t) (segs_of e) = Some (old_of t e)"
    and "Get (se_Name e) t = Inr (old_of t e)" and "entry_ok (root t) (setter_of t e) (entry_of t e)"
proof -
  from assms obtain v where v: "Get (se_Name e) t = Inr v" "Writable v" "valid_Value (v\<lparr>Raw := se_Raw e\<rparr>)"
    by (auto simp: entry_accepted_def split: sum.splits)
  then obtain segs where "parsePath (se_Name e) = Inr segs" "leaf_at (root t) segs = Some v"
    by (auto simp: Get_Inr)
  with v show "parsePath (se_Name e) = Inr (segs_of e)" "leaf_at (root t) (segs_of e) = Some (old_of t e)"
    "Get (se_Name e) t = Inr (old_of t e)" "entry_ok (root t) (setter_of t e) (entry_of t e)"
    by (simp_all add: segs_of_def old_of_def entry_of_def entry_ok_def setter_of_def)
qed

lemma accepted_batch:
  assumes "spv_accepted t es"
  shows "SetBatch (map (setter_of t) es) t =
     (Inr (map (result_of t) es), t\<lparr>root := fold (\<lambda>(k, v). put_leaf k v) (changes_of t es) (root t)\<rparr>)"
    and "distinct (map fst (changes_of t es))"
proof -
  have acc: "\<And>e. e \<in> set es \<Longrightarrow> entry_accepted t e" and d: "distinct (map (parsePath \<circ> se_Name) es)"
    using assms by (auto simp: spv_accepted_def list_all_iff)
  have ok: "list_all2 (entry_ok (root t)) (map (setter_of t) es) (map (entry_of t) es)"
    using entry_accepted_facts(4) [OF acc] by (simp add: list_all2_conv_all_nth)
  have dn: "distinct (map be_node (map (entry_of t) es))"
    using distinct_entries [OF ok] d by (simp only: setter_paths)
  have "map2 (\<lambda>s e. \<lparr>br_Path = st_Path s, OldValue = be_old e, NewValue = be_new e,
      Changed = (Raw (be_old e) \<noteq> Raw (be_new e))\<rparr>) (map (setter_of t) es) (map (entry_of t) es) =
      map (result_of t) es"
    by (simp add: zip_map_map zip_same_conv_map setter_of_def entry_of_def result_of_def)
  with ok dn show "SetBatch (map (setter_of t) es) t =
     (Inr (map (result_of t) es), t\<lparr>root := fold (\<lambda>(k, v). put_leaf k v) (changes_of t es) (root t)\<rparr>)"
    unfolding SetBatch_Inr
    by (intro exI [of _ "map (entry_of t) es"]) (simp add: changes_of_def entry_of_def comp_def)
  show "distinct (map fst (changes_of t es))"
    using dn by (simp add: changes_of_def entry_of_def comp_def)
qed

lemma attrs_at_put_leaf: "attrs_at (put_leaf p v n) q = attrs_at n q"
proof (cases "q = p")
  case True
  then show ?thesis
    by (auto simp: put_leaf_def attrs_at_def leaf_at_def node_at_update_at isLeaf_def split: option.splits)
qed (simp add: attrs_at_obs obs_at_put_leaf)

lemma GetAttributes_puts:
  "GetAttributes p (t\<lparr>root := fold (\<lambda>(k, v). put_leaf k v) kvs (root t)\<rparr>) = Inr a \<longleftrightarrow> GetAttributes p t = Inr a"
proof -
  have "attrs_at (fold (\<lambda>(k, v). put_leaf k v) kvs n) q = attrs_at n q" for n q
    by (induction kvs arbitrary: n) (simp_all add: attrs_at_put_leaf split_beta)
  then show ?thesis by (simp add: GetAttributes_Inr)
qed

definition watched :: "Tree \<Rightarrow> string \<Rightarrow> bool" where
  "watched t p = (case GetAttributes p t of Inl _ \<Rightarrow> False | Inr a \<Rightarrow> 0 < Notification a)"

lemma watched_puts: "watched (t\<lparr>root := fold (\<lambda>(k, v). put_leaf k v) kvs (root t)\<rparr>) p = watched t p"
proof -
  have iff: "watched t' p \<longleftrightarrow> (\<exists>a. GetAttributes p t' = Inr a \<and> 0 < Notification a)" for t'
    by (auto simp: watched_def split: sum.splits)
  show ?thesis by (simp add: iff GetAttributes_puts)
qed

section \<open>The callbacks of a write\<close>

lemma valueChange_sel [simp]:
  "c_tree (valueChange cfg p c) = c_tree c" "c_after (valueChange cfg p c) = c_after c"
  "c_onset (valueChange cfg p c) = c_onset c" "c_scheduled (valueChange cfg p c) = c_scheduled c"
  "c_tracker (valueChange cfg p c) = RecordValueChange p (c_tracker c)"
  by (simp_all add: valueChange_def Let_def)

lemma fire_onSet_eq: "fire_onSet rs c = c\<lparr>c_onset := c_onset c @ map br_Path (filter Changed rs)\<rparr>"
  by (induction rs c rule: fire_onSet.induct) simp_all

lemma fire_valueChange_eq:
  "fire_valueChange cfg rs c =
     fold (valueChange cfg) (map br_Path (filter (\<lambda>r. Changed r \<and> watched (c_tree c) (br_Path r)) rs)) c"
  by (induction cfg rs c rule: fire_valueChange.induct) (auto simp: watched_def split: sum.splits)

lemma fold_valueChange_sel:
  "c_tree (fold (valueChange cfg) ps c) = c_tree c" "c_after (fold (valueChange cfg) ps c) = c_after c"
  "c_onset (fold (valueChange cfg) ps c) = c_onset c"
  "c_tracker (fold (valueChange cfg) ps c) = fold RecordValueChange ps (c_tracker c)"
  by (induction ps arbitrary: c) simp_all

lemma fold_RecordValueChange:
  "set (pendingValueChanges (fold RecordValueChange ps t)) =
     set (pendingValueChanges t) \<union> (set ps - {''''})"
  by (induction ps arbitrary: t) (auto simp: RecordValueChange_def)

definition entry_changes :: "Tree \<Rightarrow> spvEntry \<Rightarrow> bool" where
  "entry_changes t e \<longleftrightarrow> Raw (old_of t e) \<noteq> se_Raw e"

lemma spv_apply_accepted:
  assumes "spv_accepted (c_tree c) es"
  defines "t \<equiv> c_tree c"
  shows "spv_apply cfg (map (setter_of t) es) c =
    (Inr (), fold (valueChange cfg)
       (map se_Name (filter (\<lambda>e. entry_changes t e \<and> watched t (se_Name e)) es))
       (c\<lparr>c_tree := t\<lparr>root := fold (\<lambda>(k, v). put_leaf k v) (changes_of t es) (root t)\<rparr>,
          c_onset := c_onset c @ map se_Name (filter (entry_changes t) es)\<rparr>))"
proof -
  have "entry_changes t = (\<lambda>e. Raw (old_of t e) \<noteq> se_Raw e)"
    by (simp add: fun_eq_iff entry_changes_def)
  then have sel: "map br_Path (filter Changed (map (result_of t) es)) = map se_Name (filter (entry_changes t) es)"
    by (simp add: filter_map comp_def result_of_def)
  have "map br_Path (filter (\<lambda>r. Changed r \<and> watched t (br_Path r)) (map (result_of t) es)) =
      map se_Name (filter (\<lambda>e. entry_changes t e \<and> watched t (se_Name e)) es)"
    by (simp add: filter_map comp_def result_of_def entry_changes_def)
  with sel show ?thesis
    using accepted_batch(1) [OF assms(1)]
    by (simp add: spv_apply_def t_def fire_onSet_eq fire_valueChange_eq watched_puts)
qed

section \<open>Which faults a refused batch carries\<close>

lemma preflight_setter:
  assumes "known t e" and "joinPath (segs_of e) \<notin> set seen"
  shows "fst (preflight_entry (root t) seen (setter_of t e)) =
     (if entry_accepted t e then Inr (entry_of t e)
      else Inl \<lparr>ef_Path = se_Name e,
                ef_Code = (if Writable (old_of t e) then FailureInvalidValue else FailureNotWritable),
                ef_Err = ef_Err (projl (fst (preflight_entry (root t) seen (setter_of t e))))\<rparr>)"
proof -
  from assms(1) obtain v where v: "Get (se_Name e) t = Inr v" by (auto simp: known_def not_is_err_conv)
  then obtain segs where s: "parsePath (se_Name e) = Inr segs" "leaf_at (root t) segs = Some v"
    by (auto simp: Get_Inr)
  from s(2) obtain m where m: "node_at segs (root t) = Some m" "leaf m = Some v"
    by (auto simp: leaf_at_node)
  from v s(1) have segs: "segs_of e = segs" "old_of t e = v" by (simp_all add: segs_of_def old_of_def)
  show ?thesis
    using assms(2) v s m segs
    by (auto simp: preflight_entry_def setter_of_def Let_def entry_accepted_def entry_of_def
        valid_Value_Validate split: sum.splits)
qed

definition reject_code :: "Tree \<Rightarrow> spvEntry \<Rightarrow> int" where
  "reject_code t e = (if Writable (old_of t e) then 9007 else 9008)"

lemma entryFaultWire_name [simp]: "sf_ParameterName (entryFaultWire f) = ef_Path f"
  by (simp add: entryFaultWire_def Let_def split: SetBatchFailure.split)

lemma preflight_faults:
  assumes "list_all (known t) es" and "distinct (map (parsePath \<circ> se_Name) es)"
    and "\<forall>e \<in> set es. joinPath (segs_of e) \<notin> set seen"
  shows "map (\<lambda>f. (ef_Path f, sf_FaultCode (entryFaultWire f)))
      (snd (preflight_loop (root t) seen (map (setter_of t) es))) =
    map (\<lambda>e. (se_Name e, reject_code t e)) (filter (\<lambda>e. \<not> entry_accepted t e) es)"
  using assms
proof (induction es arbitrary: seen)
  case (Cons e es)
  have parsed: "parsePath (se_Name e') = Inr (segs_of e')" if "known t e'" for e'
    using that by (auto simp: known_def not_is_err_conv Get_Inr segs_of_def)
  then have seen': "snd (preflight_entry (root t) seen (setter_of t e)) = joinPath (segs_of e) # seen"
    using Cons.prems by (simp add: preflight_entry_seen setter_of_def)
  have "joinPath (segs_of e') \<noteq> joinPath (segs_of e)" if e': "e' \<in> set es" for e'
  proof -
    have p: "parsePath (se_Name e') = Inr (segs_of e')" "parsePath (se_Name e) = Inr (segs_of e)"
      using Cons.prems(1) e' parsed by (auto simp: list_all_iff)
    moreover have "parsePath (se_Name e') \<noteq> parsePath (se_Name e)"
      using Cons.prems(2) e' by (auto simp: image_iff)
    ultimately show ?thesis by (metis parsePath_valid joinPath_inject)
  qed
  then have "\<forall>e' \<in> set es. joinPath (segs_of e') \<notin> set (joinPath (segs_of e) # seen)"
    using Cons.prems(3) by auto
  then have ih: "map (\<lambda>f. (ef_Path f, sf_FaultCode (entryFaultWire f)))
      (snd (preflight_loop (root t) (joinPath (segs_of e) # seen) (map (setter_of t) es))) =
    map (\<lambda>e. (se_Name e, reject_code t e)) (filter (\<lambda>e. \<not> entry_accepted t e) es)"
    using Cons.prems by (intro Cons.IH) simp_all
  have first: "fst (preflight_entry (root t) seen (setter_of t e)) =
     (if entry_accepted t e then Inr (entry_of t e)
      else Inl \<lparr>ef_Path = se_Name e,
                ef_Code = (if Writable (old_of t e) then FailureInvalidValue else FailureNotWritable),
                ef_Err = ef_Err (projl (fst (preflight_entry (root t) seen (setter_of t e))))\<rparr>)"
    using Cons.prems(1,3) by (intro preflight_setter) auto
  show ?case
  proof (cases "entry_accepted t e")
    case True
    with first have "fst (preflight_entry (root t) seen (setter_of t e)) = Inr (entry_of t e)" by simp
    with ih True seen' show ?thesis by (simp add: preflight_loop_Cons)
  next
    case False
    with first obtain err where "fst (preflight_entry (root t) seen (setter_of t e)) =
        Inl \<lparr>ef_Path = se_Name e,
             ef_Code = (if Writable (old_of t e) then FailureInvalidValue else FailureNotWritable), ef_Err = err\<rparr>"
      by metis
    with ih False seen' show ?thesis
      by (simp add: preflight_loop_Cons entryFaultWire_def reject_code_def Let_def)
  qed
qed simp

lemma preflight_Inl_All:
  "preflight ss t = Inl e \<Longrightarrow> sb_All e = snd (preflight_loop (root t) [] ss) \<and> sb_All e \<noteq> []"
  by (auto simp: preflight_def Let_def split: prod.splits list.splits)

lemma mapSetBatchError_eq:
  "preflight ss t = Inl e \<Longrightarrow>
     mapSetBatchError e = spvBatchFault (map entryFaultWire (snd (preflight_loop (root t) [] ss)))
     \<and> snd (preflight_loop (root t) [] ss) \<noteq> []"
  using preflight_Inl_All [of ss t e] by (auto simp: mapSetBatchError_def)

lemma preflight_fault_paths:
  "ef_Path ` set (snd (preflight_loop r seen ss)) \<subseteq> st_Path ` set ss"
proof (induction ss arbitrary: seen)
  case (Cons s ss)
  have "ef_Path f = st_Path s" if "fst (preflight_entry r seen s) = Inl f" for f
    using that by (auto simp: preflight_entry_def Let_def split: sum.splits option.splits if_splits)
  with Cons.IH [of "snd (preflight_entry r seen s)"] show ?case
    by (auto simp: preflight_loop_Cons split: sum.splits)
qed simp

section \<open>Properties of SetParameterValues\<close>

text \<open>C2: A SetParameterValues request is all or nothing.  It is accepted exactly when every name is
  a writable parameter, every text is valid for the type the parameter already has, and no
  parameter is named twice; a refused request changes nothing of the CPE and is answered with
  fault 9003 and at least one fault for a parameter of the request.\<close>

theorem SPV_all_or_nothing:
  assumes "decodeSPVRequest (snd req) ([], '''') (fst req) = Inr (es, key)"
  shows "let (r, c') = spv_Handle cfg req c in
    (\<not> is_err r \<longleftrightarrow> spv_accepted (c_tree c) es)
    \<and> (is_err r \<longrightarrow> c' = c \<and> (\<exists>fs. r = Inl (spvBatchFault fs) \<and> fs \<noteq> []
         \<and> sf_ParameterName ` set fs \<subseteq> se_Name ` set es))"
proof (cases "list_all (known (c_tree c)) es")
  case True
  show ?thesis
  proof (cases "preflight (map (setter_of (c_tree c)) es) (c_tree c)")
    case (Inl e)
    define fs where "fs = map entryFaultWire
      (snd (preflight_loop (root (c_tree c)) [] (map (setter_of (c_tree c)) es)))"
    have "sf_ParameterName ` set fs \<subseteq> se_Name ` set es"
      using preflight_fault_paths [of "root (c_tree c)" "[]" "map (setter_of (c_tree c)) es"]
      by (simp add: image_image setter_of_def fs_def)
    moreover have "mapSetBatchError e = spvBatchFault fs \<and> fs \<noteq> []"
      using mapSetBatchError_eq [OF Inl] by (simp add: fs_def)
    moreover have "\<not> spv_accepted (c_tree c) es" using prepared_ok_iff [OF True] Inl by simp
    ultimately show ?thesis
      using True Inl by (auto simp: spv_Handle_cases [OF assms])
  next
    case (Inr bs)
    with prepared_ok_iff [OF True] True show ?thesis
      by (simp add: spv_Handle_cases [OF assms] Let_def)
  qed
next
  case False
  then have "\<not> spv_accepted (c_tree c) es"
    by (auto simp: spv_accepted_def list_all_iff dest: entry_accepted_known)
  moreover have "filter (\<lambda>e. \<not> known (c_tree c) e) es \<noteq> []"
    using False by (auto simp: list_all_iff filter_empty_conv)
  ultimately show ?thesis
    using False
    by (auto simp: spv_Handle_cases [OF assms] unknown_fault_def
        intro!: exI [of _ "map unknown_fault (filter (\<lambda>e. \<not> known (c_tree c) e) es)"])
qed

text \<open>A refused request that names no parameter twice is answered with exactly one fault for each
  offending parameter, in the order of the request: when some names are unknown, 9005 for each of
  those; otherwise 9008 for each read-only parameter and 9007 for each text that is not valid.\<close>

theorem SPV_fault_report:
  assumes "decodeSPVRequest (snd req) ([], '''') (fst req) = Inr (es, key)"
    and "distinct (map (parsePath \<circ> se_Name) es)" and "is_err (fst (spv_Handle cfg req c))"
  shows "\<exists>fs. fst (spv_Handle cfg req c) = Inl (spvBatchFault fs)
    \<and> map (\<lambda>f. (sf_ParameterName f, sf_FaultCode f)) fs =
        (if list_all (known (c_tree c)) es
         then map (\<lambda>e. (se_Name e, reject_code (c_tree c) e)) (filter (\<lambda>e. \<not> entry_accepted (c_tree c) e) es)
         else map (\<lambda>e. (se_Name e, 9005)) (filter (\<lambda>e. \<not> known (c_tree c) e) es))"
proof (cases "list_all (known (c_tree c)) es")
  case True
  with assms(3) obtain e where e: "preflight (map (setter_of (c_tree c)) es) (c_tree c) = Inl e"
    by (auto simp: spv_Handle_cases [OF assms(1)] split: sum.splits if_splits)
  define fs where "fs = map entryFaultWire
    (snd (preflight_loop (root (c_tree c)) [] (map (setter_of (c_tree c)) es)))"
  have "fst (spv_Handle cfg req c) = Inl (spvBatchFault fs)"
    using True e mapSetBatchError_eq [OF e] by (simp add: spv_Handle_cases [OF assms(1)] fs_def)
  moreover have "map (\<lambda>f. (sf_ParameterName f, sf_FaultCode f)) fs =
      map (\<lambda>e. (se_Name e, reject_code (c_tree c) e)) (filter (\<lambda>e. \<not> entry_accepted (c_tree c) e) es)"
    using preflight_faults [OF True assms(2), of "[]"] by (simp add: fs_def comp_def)
  ultimately show ?thesis using True by auto
qed (auto simp: spv_Handle_cases [OF assms(1)] unknown_fault_def comp_def
    intro!: exI [of _ "map unknown_fault (filter (\<lambda>e. \<not> known (c_tree c) e) es)"])

text \<open>An accepted request that touches no deferred parameter is answered with status 0: each
  parameter then reads the new text with the type and the access it had before, whatever type the
  request claimed, and every other parameter reads what it read before.\<close>

theorem SPV_writes:
  assumes "decodeSPVRequest (snd req) ([], '''') (fst req) = Inr (es, key)"
    and "spv_accepted (c_tree c) es" and "\<not> spv_deferred cfg es"
  shows "let (r, c') = spv_Handle cfg req c in r = Inr (status ''0'')
    \<and> (\<forall>e \<in> set es. \<exists>v. Get (se_Name e) (c_tree c) = Inr v
         \<and> Get (se_Name e) (c_tree c') = Inr (v\<lparr>Raw := se_Raw e\<rparr>))
    \<and> (\<forall>q w. parsePath q \<notin> parsePath ` se_Name ` set es \<longrightarrow>
         (Get q (c_tree c') = Inr w \<longleftrightarrow> Get q (c_tree c) = Inr w))"
proof -
  let ?t = "c_tree c"
  have acc: "\<And>e. e \<in> set es \<Longrightarrow> entry_accepted ?t e"
    using assms(2) by (auto simp: spv_accepted_def list_all_iff)
  then have k: "list_all (known ?t) es" by (auto simp: list_all_iff intro: entry_accepted_known)
  define r' where "r' = fold (\<lambda>(k, v). put_leaf k v) (changes_of ?t es) (root ?t)"
  obtain bs where bs: "preflight (map (setter_of ?t) es) ?t = Inr bs"
    using prepared_ok_iff [OF k] assms(2) by blast
  then have h: "fst (spv_Handle cfg req c) = Inr (status ''0'')"
      "root (c_tree (snd (spv_Handle cfg req c))) = r'"
    using k assms spv_apply_accepted [OF assms(2), of cfg]
    by (simp_all add: spv_Handle_cases [OF assms(1)] fold_valueChange_sel r'_def)
  have new: "Get (se_Name e) ?t = Inr (old_of ?t e) \<and>
      Get (se_Name e) (c_tree (snd (spv_Handle cfg req c))) = Inr ((old_of ?t e)\<lparr>Raw := se_Raw e\<rparr>)"
    if e: "e \<in> set es" for e
  proof -
    note f = entry_accepted_facts [OF acc [OF e]]
    have "(segs_of e, (old_of ?t e)\<lparr>Raw := se_Raw e\<rparr>) \<in> set (changes_of ?t es)"
      using e by (auto simp: changes_of_def)
    then have "leaf_at r' (segs_of e) = Some ((old_of ?t e)\<lparr>Raw := se_Raw e\<rparr>)"
      unfolding r'_def using f(2) by (intro leaves.get_puts [OF accepted_batch(2) [OF assms(2)]]) simp_all
    with f(1,3) h(2) show ?thesis by (simp add: Get_Inr)
  qed
  have other: "Get q (c_tree (snd (spv_Handle cfg req c))) = Inr w \<longleftrightarrow> Get q ?t = Inr w"
    if q: "parsePath q \<notin> parsePath ` se_Name ` set es" for q w
  proof -
    have "leaf_at r' segs = leaf_at (root ?t) segs" if "parsePath q = Inr segs" for segs
      unfolding r'_def
    proof (rule leaves.get_puts_other)
      show "segs \<notin> fst ` set (changes_of ?t es)"
        using q that entry_accepted_facts(1) [OF acc] by (fastforce simp: changes_of_def image_iff)
    qed
    with h(2) show ?thesis by (auto simp: Get_Inr)
  qed
  show ?thesis
    using h new other by (cases "spv_Handle cfg req c") auto
qed

text \<open>After such a request the diagnostics hook has seen every parameter whose text changed, in
  order, and the paths waiting for a VALUE CHANGE inform are those from before and the changed
  parameters with a notification attribute; nothing else of the tracker and nothing of the
  scheduled work changed.\<close>

theorem SPV_reports_changes:
  assumes "decodeSPVRequest (snd req) ([], '''') (fst req) = Inr (es, key)"
    and "spv_accepted (c_tree c) es" and "\<not> spv_deferred cfg es"
  shows "let c' = snd (spv_Handle cfg req c); changed = filter (entry_changes (c_tree c)) es in
    c_onset c' = c_onset c @ map se_Name changed
    \<and> set (pendingValueChanges (c_tracker c')) =
        set (pendingValueChanges (c_tracker c))
        \<union> (se_Name ` {e \<in> set changed. watched (c_tree c) (se_Name e)} - {''''})
    \<and> c_after c' = c_after c"
proof -
  let ?t = "c_tree c"
  have k: "list_all (known ?t) es"
    using assms(2) by (auto simp: spv_accepted_def list_all_iff intro: entry_accepted_known)
  obtain bs where "preflight (map (setter_of ?t) es) ?t = Inr bs"
    using prepared_ok_iff [OF k] assms(2) by blast
  then show ?thesis
    using k assms spv_apply_accepted [OF assms(2), of cfg]
    by (auto simp: spv_Handle_cases [OF assms(1)] fold_valueChange_sel fold_RecordValueChange Let_def)
qed

text \<open>An accepted request that touches a deferred parameter is answered with status 1 and changes
  neither the tree nor the tracker; it waits as one batch, and that batch is one the tree, as it
  is, accepts.\<close>

theorem SPV_deferred:
  assumes "decodeSPVRequest (snd req) ([], '''') (fst req) = Inr (es, key)"
    and "spv_accepted (c_tree c) es" and "spv_deferred cfg es"
  shows "\<exists>batch. spv_Handle cfg req c = (Inr (status ''1''), c\<lparr>c_after := c_after c @ [batch]\<rparr>)
    \<and> map st_Path batch = map se_Name es \<and> \<not> is_err (fst (spv_apply cfg batch c))"
proof -
  let ?t = "c_tree c" and ?ss = "map (setter_of (c_tree c)) es"
  have k: "list_all (known ?t) es"
    using assms(2) by (auto simp: spv_accepted_def list_all_iff intro: entry_accepted_known)
  obtain bs where "preflight ?ss ?t = Inr bs"
    using prepared_ok_iff [OF k] assms(2) by blast
  then have "spv_Handle cfg req c = (Inr (status ''1''), c\<lparr>c_after := c_after c @ [?ss]\<rparr>)"
    using k assms(3) by (simp add: spv_Handle_cases [OF assms(1)])
  moreover have "\<not> is_err (fst (spv_apply cfg ?ss c))"
    using spv_apply_accepted [OF assms(2), of cfg] by simp
  ultimately show ?thesis by (intro exI [of _ ?ss]) (simp add: setter_of_def)
qed

section \<open>SetParameterAttributes\<close>

text \<open>Every path an entry expands to names a leaf, and writing attributes keeps it one.\<close>

lemma Walk_error:
  assumes "Walk pre 0 collect_fn t [] = (Inr u, vs)"
  obtains segs n where "parsePath pre = Inr segs" "node_at segs (root t) = Some n"
    "vs = map (\<lambda>(p, v). (joinPath (segs @ p), v)) (leaf_paths n)"
proof -
  from assms obtain segs n where "parsePath pre = Inr segs" "node_at segs (root t) = Some n"
    by (auto simp: Walk_def lookup_Inr split: sum.splits)
  with assms Walk_collect [of pre segs t n 0] show thesis by (intro that) auto
qed

lemma resolveLeaves_attrs:
  assumes "wf_node (root t)" and "resolveLeaves t name = Inr ps" and "p \<in> set ps"
  shows "\<exists>segs. parsePath p = Inr segs \<and> attrs_at (root t) segs \<noteq> None"
proof (cases "name = '''' \<or> HasSuffix name ''.''")
  case True
  with assms(2) obtain vs where vs: "Walk name 0 collect_fn t [] = (Inr (), vs)" "ps = map fst vs"
    by (auto simp: resolveLeaves_def split: prod.splits sum.splits)
  from vs(1) obtain segs n where n: "parsePath name = Inr segs" "node_at segs (root t) = Some n"
    "vs = map (\<lambda>(p, v). (joinPath (segs @ p), v)) (leaf_paths n)" by (rule Walk_error)
  with vs(2) assms(3) obtain q v where q: "(q, v) \<in> set (leaf_paths n)" "p = joinPath (segs @ q)" by auto
  have wfn: "wf_node n" using assms(1) n(2) by (rule wf_node_at)
  then have leaf: "leaf_at (root t) (segs @ q) = Some v"
    using q(1) n(2) by (simp add: leaf_paths_iff leaf_at_append)
  then obtain m where m: "node_at (segs @ q) (root t) = Some m" "leaf m = Some v"
    by (auto simp: leaf_at_node)
  have "valid_segs (segs @ q)" using assms(1) m(1) by (rule graft_point_valid)
  with q(2) m show ?thesis by (auto simp: parsePath_joinPath attrs_at_def isLeaf_def)
next
  case False
  with assms(2) have g: "\<exists>v. Get name t = Inr v" "ps = [name]"
    by (auto simp: resolveLeaves_def split: sum.splits)
  then obtain segs v where "parsePath name = Inr segs" "leaf_at (root t) segs = Some v"
    by (auto simp: Get_Inr)
  with g(2) assms(3) show ?thesis by (auto simp: leaf_at_node attrs_at_def isLeaf_def)
qed

lemma spa_pending_attrs:
  assumes "wf_node (root t)" and "spa_pending t es = Inr pcs" and "(p, e) \<in> set pcs"
  shows "\<exists>segs. parsePath p = Inr segs \<and> attrs_at (root t) segs \<noteq> None"
  using assms(2,3)
proof (induction es arbitrary: pcs)
  case (Cons e' es)
  then obtain ps rest where "resolveLeaves t (sa_Name e') = Inr ps" "spa_pending t es = Inr rest"
    "pcs = map (\<lambda>p. (p, e')) ps @ rest"
    by (auto split: if_splits sum.splits)
  moreover from this(1) have "p \<in> set ps \<Longrightarrow> ?thesis" using resolveLeaves_attrs [OF assms(1)] by blast
  ultimately show ?case using Cons.IH [of rest] Cons.prems(2) by auto
qed simp

lemma spa_apply_ok:
  assumes "\<forall>(p, e) \<in> set pcs. \<exists>segs. parsePath p = Inr segs \<and> attrs_at (root t) segs \<noteq> None"
  shows "\<exists>t'. spa_apply pcs t = (Inr (), t')"
  using assms
proof (induction pcs arbitrary: t)
  case (Cons pc pcs)
  obtain p e where pc: "pc = (p, e)" by (cases pc)
  with Cons.prems obtain segs where s: "parsePath p = Inr segs" "attrs_at (root t) segs \<noteq> None" by auto
  then obtain cur where cur: "GetAttributes p t = Inr cur" by (auto simp: GetAttributes_Inr)
  define t1 where "t1 = t\<lparr>root := put_attrs segs (Some (copy_access (layer e cur))) (root t)\<rparr>"
  have set: "SetAttributes p (layer e cur) t = (Inr (), t1)"
    using s by (simp add: SetAttributes_Inr t1_def)
  have "attrs_at (root t1) q \<noteq> None \<longleftrightarrow> attrs_at (root t) q \<noteq> None" for q
    using s(2) by (cases "q = segs") (simp_all add: t1_def attrs_at_put_attrs attrs_at_put_attrs_other)
  then have "\<forall>(p, e) \<in> set pcs. \<exists>segs. parsePath p = Inr segs \<and> attrs_at (root t1) segs \<noteq> None"
    using Cons.prems by auto
  from Cons.IH [OF this] show ?case by (simp add: pc cur set)
qed simp

text \<open>SetParameterAttributes is all or nothing too: on a well-formed tree the two internal
  errors of its write loop cannot occur, so a refused request leaves every attribute as it was, and
  it is accepted exactly when every notification value is in range and every name resolves.\<close>

theorem SPA_all_or_nothing:
  assumes "wf_node (root t)"
  shows "(\<not> is_err (fst (spa_entries es t)) \<longleftrightarrow>
      list_all (\<lambda>e. (NotificationChange e \<longrightarrow> 0 \<le> sa_Notification e \<and> sa_Notification e \<le> 2)
                  \<and> \<not> is_err (resolveLeaves t (sa_Name e))) es)
    \<and> (is_err (fst (spa_entries es t)) \<longrightarrow> snd (spa_entries es t) = t
         \<and> (\<exists>code text. fst (spa_entries es t) = Inl (fault code text) \<and> code \<in> {9005, 9009}))"
proof -
  have pend: "\<not> is_err (spa_pending t es) \<longleftrightarrow>
      list_all (\<lambda>e. (NotificationChange e \<longrightarrow> 0 \<le> sa_Notification e \<and> sa_Notification e \<le> 2)
                  \<and> \<not> is_err (resolveLeaves t (sa_Name e))) es"
    by (induction es) (auto split: sum.splits)
  have codes: "\<exists>code text. f = fault code text \<and> code \<in> {9005, 9009}" if "spa_pending t es = Inl f" for f
    using that by (induction es) (auto simp: faultInvalidParameterName_def split: if_splits sum.splits)
  show ?thesis
  proof (cases "spa_pending t es")
    case (Inl f)
    with pend codes show ?thesis by (simp add: spa_entries_def)
  next
    case (Inr pcs)
    then obtain t' where "spa_apply pcs t = (Inr (), t')"
      using spa_apply_ok [of pcs t] spa_pending_attrs [OF assms Inr] by blast
    with Inr pend show ?thesis by (simp add: spa_entries_def)
  qed
qed

section \<open>GetParameterValues\<close>

lemma marshal_total:
  assumes "(typ, f, g) \<in> set [(TypeString, (validateString, marshalIdentity)),
             (TypeInt, (validateInt32, marshalIdentity)),
             (TypeUnsignedInt, (validateUint32, marshalIdentity)),
             (TypeBoolean, (validateBoolean, marshalBoolean)),
             (TypeDateTime, (validateDateTime, marshalDateTime)),
             (TypeBase64, (validateBase64, marshalIdentity))]" and "f raw"
  shows "g raw \<noteq> None"
proof -
  have "validateBoolean raw \<Longrightarrow> marshalBoolean raw \<noteq> None"
    by (auto simp: validateBoolean_def marshalBoolean_def)
  moreover have "validateDateTime raw \<Longrightarrow> marshalDateTime raw \<noteq> None"
    by (auto simp: validateDateTime_def marshalDateTime_def split: if_splits)
  moreover have "marshalIdentity raw \<noteq> None" by (simp add: marshalIdentity_def)
  ultimately show ?thesis using assms by auto
qed

lemma Marshal_valid:
  assumes "valid_Value v"
  shows "\<exists>canon. Marshal (VType v) (Raw v) = Inr canon"
proof -
  from assms obtain f g where fg: "typeFns (VType v) = Some (f, g)" "f (Raw v)"
    by (auto simp: valid_Value_def Validate_def split: option.splits if_splits)
  have "g (Raw v) \<noteq> None"
    using fg by (intro marshal_total [of "VType v" f]) (auto simp only: typeFns_def dest: map_of_SomeD)
  with fg(1) show ?thesis by (auto simp: Marshal_def)
qed

definition value_struct :: "string \<times> Value \<Rightarrow> string" where
  "value_struct nv =
     ''        <ParameterValueStruct>'' @ NL
     @ tag ''          '' ''Name'' (escape (fst nv))
     @ ''          <Value xsi:type='' @ DQ @ VType (snd nv) @ DQ @ ''>''
     @ escape (projr (Marshal (VType (snd nv)) (Raw (snd nv)))) @ ''</Value>'' @ NL
     @ ''        </ParameterValueStruct>'' @ NL"

lemma write_values_ok:
  assumes "\<forall>(n, v) \<in> set es. valid_Value v"
  shows "write_values es = Inr (concat (map value_struct es))"
  using assms
proof (induction es)
  case (Cons nv es)
  obtain n v where nv: "nv = (n, v)" by (cases nv)
  with Cons.prems Marshal_valid [of v] obtain canon where "Marshal (VType v) (Raw v) = Inr canon" by auto
  with nv Cons show ?case by (simp add: value_struct_def)
qed simp

definition resolves :: "Tree \<Rightarrow> string \<Rightarrow> bool" where
  "resolves t p \<longleftrightarrow>
     \<not> (if HasSuffix p ''.'' then is_err (fst (Walk p 0 collect_fn t [])) else is_err (Get p t))"

text \<open>The leaves a requested path stands for.\<close>

definition covers :: "Tree \<Rightarrow> string \<Rightarrow> (string \<times> Value) set" where
  "covers t p =
     (if HasSuffix p ''.''
      then {(joinPath q, v) |q v segs. parsePath p = Inr segs \<and> prefix segs q \<and> leaf_at (root t) q = Some v}
      else {(p, v) |v. Get p t = Inr v})"

lemma covers_Walk:
  assumes "wf_node (root t)" and "HasSuffix p ''.''" and "Walk p 0 collect_fn t [] = (Inr u, vs)"
  shows "set vs = covers t p"
proof -
  from assms(3) obtain segs n where n: "parsePath p = Inr segs" "node_at segs (root t) = Some n"
    "vs = map (\<lambda>(q, v). (joinPath (segs @ q), v)) (leaf_paths n)" by (rule Walk_error)
  have "wf_node n" using assms(1) n(2) by (rule wf_node_at)
  then have "set vs = {(joinPath (segs @ q), v) |q v. leaf_at (root t) (segs @ q) = Some v}"
    using n leaf_at_append [OF n(2)] by (auto simp: leaf_paths_iff image_iff)
  with assms(2) n(1) show ?thesis by (auto simp: covers_def prefix_def)
qed

lemma covers_Get:
  assumes "wf_node (root t)" and "(n, v) \<in> covers t p"
  shows "Get n t = Inr v"
proof (cases "HasSuffix p ''.''")
  case True
  with assms(2) obtain q where q: "n = joinPath q" "leaf_at (root t) q = Some v"
    by (auto simp: covers_def)
  then obtain m where m: "node_at q (root t) = Some m" by (auto simp: leaf_at_node)
  with assms(1) have "valid_segs q" by (rule graft_point_valid)
  with q show ?thesis by (simp add: Get_Inr parsePath_joinPath)
qed (use assms(2) in \<open>auto simp: covers_def\<close>)

lemma collect_entries_Inr:
  assumes "wf_node (root t)"
  shows "(\<forall>p \<in> set ps. resolves t p) \<Longrightarrow>
    \<exists>es. collect_entries t ps = Inr es \<and> set es = (\<Union>p \<in> set ps. covers t p)"
proof (induction ps)
  case (Cons p ps)
  then obtain es where es: "collect_entries t ps = Inr es" "set es = (\<Union>p \<in> set ps. covers t p)" by auto
  show ?case
  proof (cases "HasSuffix p ''.''")
    case True
    with Cons.prems obtain vs where vs: "Walk p 0 collect_fn t [] = (Inr (), vs)"
      by (cases "Walk p 0 collect_fn t []") (auto simp: resolves_def not_is_err_conv)
    with True es covers_Walk [OF assms True vs] show ?thesis by simp
  next
    case False
    with Cons.prems obtain v where "Get p t = Inr v" by (auto simp: resolves_def not_is_err_conv)
    with False es show ?thesis by (simp add: covers_def)
  qed
qed simp

lemma collect_entries_Inl:
  "\<exists>p \<in> set ps. \<not> resolves t p \<Longrightarrow>
     \<exists>p \<in> set ps. \<not> resolves t p \<and> collect_entries t ps = Inl (faultInvalidParameterName p)"
proof (induction ps)
  case (Cons p ps)
  show ?case
  proof (cases "resolves t p")
    case True
    with Cons obtain p' where "p' \<in> set ps" "\<not> resolves t p'"
      "collect_entries t ps = Inl (faultInvalidParameterName p')" by auto
    with True show ?thesis
      by (cases "Walk p 0 collect_fn t []"; cases "Get p t") (auto simp: resolves_def not_is_err_conv split: if_splits)
  next
    case False
    then have "collect_entries t (p # ps) = Inl (faultInvalidParameterName p)"
      by (cases "Walk p 0 collect_fn t []"; cases "fst (Walk p 0 collect_fn t [])"; cases "Get p t")
        (auto simp: resolves_def split: if_splits)
    with False show ?thesis by (metis list.set_intros(1))
  qed
qed simp

text \<open>On a tree with well-typed values, GetParameterValues answers a request whose paths all
  resolve with exactly the leaves those paths stand for, each with its declared type and its value
  in canonical form; if a path does not resolve the answer is fault 9005 for such a path.  The
  internal error of the writer never occurs.\<close>

theorem GPV_answers:
  assumes "good_node (root t)"
    and "readStringList (snd req) ''ParameterNames'' (fst req) = (Inr paths, rest)" and "paths \<noteq> []"
  shows "((\<forall>p \<in> set paths. resolves t p) \<longrightarrow>
      (\<exists>es. gpv_Handle req t = Inr (list_body (concat (map value_struct es)))
         \<and> set es = (\<Union>p \<in> set paths. covers t p) \<and> (\<forall>(n, v) \<in> set es. Get n t = Inr v)))
    \<and> (\<not> (\<forall>p \<in> set paths. resolves t p) \<longrightarrow>
      (\<exists>p \<in> set paths. \<not> resolves t p \<and> gpv_Handle req t = Inl (faultInvalidParameterName p)))"
proof (intro conjI impI)
  have wf: "wf_node (root t)" and typed: "typed_node (root t)" using assms(1) by (simp_all add: good_node_def)
  {
    assume "\<forall>p \<in> set paths. resolves t p"
    from collect_entries_Inr [OF wf this] obtain es where es: "collect_entries t paths = Inr es"
      "set es = (\<Union>p \<in> set paths. covers t p)" by blast
    then have g: "\<forall>(n, v) \<in> set es. Get n t = Inr v" using covers_Get [OF wf] by auto
    moreover have "valid_Value v" if "Get n t = Inr v" for n v
    proof -
      from that obtain segs m where "node_at segs (root t) = Some m" "leaf m = Some v"
        by (auto simp: Get_Inr leaf_at_node)
      with typed_node_at [OF typed] show ?thesis by (metis typed_node_iff option.simps(5))
    qed
    ultimately have "write_values es = Inr (concat (map value_struct es))"
      by (intro write_values_ok) auto
    with es g assms(2,3) show "\<exists>es. gpv_Handle req t = Inr (list_body (concat (map value_struct es)))
         \<and> set es = (\<Union>p \<in> set paths. covers t p) \<and> (\<forall>(n, v) \<in> set es. Get n t = Inr v)"
      by (intro exI [of _ es]) (simp add: gpv_Handle_def)
  }
  assume "\<not> (\<forall>p \<in> set paths. resolves t p)"
  then have "\<exists>p \<in> set paths. \<not> resolves t p" by blast
  from collect_entries_Inl [OF this] assms(2,3)
  show "\<exists>p \<in> set paths. \<not> resolves t p \<and> gpv_Handle req t = Inl (faultInvalidParameterName p)"
    by (auto simp: gpv_Handle_def)
qed

section \<open>Witnesses\<close>

definition demo_cfg :: CpeConfig where
  "demo_cfg = \<lparr>deferredParameters = [''Device.Name''], hasScheduler = True, cwmpObserver = 0,
     pip_Interval = ''Device.Port'', pip_Enable = ''Device.Enable'', pip_Time = '''',
     factoryTemplate = demo_tree, serialPath = ''Device.Serial'', serialNumber = ''S7'',
     rebootScheduled = False, resetScheduled = False\<rparr>"

definition demo_cpe :: Cpe where
  "demo_cpe = \<lparr>c_tree = demo_tree, c_tracker = NewEventTracker [], c_after = [], c_onset = [],
     c_rearm = 0, c_scheduled = []\<rparr>"

definition element :: "string \<Rightarrow> token list \<Rightarrow> token list" where
  "element name ts =
     StartElement \<lparr>Space = '''', Local = name\<rparr> [] # ts @ [EndElement \<lparr>Space = '''', Local = name\<rparr>]"

definition spv_request :: "string \<Rightarrow> string \<Rightarrow> request" where
  "spv_request name raw =
     (element ''ParameterList'' (element ''ParameterValueStruct''
        (element ''Name'' [CharData name] @ element ''Value'' [CharData raw])), io_EOF)"

lemma decode_demo:
  "decodeSPVRequest (snd (spv_request n x)) ([], '''') (fst (spv_request n x)) =
     Inr ([\<lparr>se_Name = n, se_Raw = x\<rparr>], '''')"
  by (simp add: spv_request_def element_def DecodeElement_def empty_spvEntry_def)

lemma demo_accepts:
  "spv_accepted (c_tree demo_cpe) [\<lparr>se_Name = ''Device.Port'', se_Raw = ''8080''\<rparr>]"
  "spv_accepted (c_tree demo_cpe) [\<lparr>se_Name = ''Device.Name'', se_Raw = ''gw''\<rparr>]"
  "\<not> spv_accepted (c_tree demo_cpe) [\<lparr>se_Name = ''Device.Serial'', se_Raw = ''S2''\<rparr>]"
  by (simp_all add: spv_accepted_def entry_accepted_def demo_cpe_def valid_Value_def tree_eval)

theorem SPV_all_or_nothing_witness:
  "snd (spv_Handle demo_cfg (spv_request ''Device.Serial'' ''S2'') demo_cpe) = demo_cpe"
  using SPV_all_or_nothing [OF decode_demo, of demo_cfg "''Device.Serial''" "''S2''" demo_cpe] demo_accepts(3)
  by (simp add: split_beta Let_def)

theorem SPV_fault_report_witness:
  "\<exists>fs. fst (spv_Handle demo_cfg (spv_request ''Device.Serial'' ''S2'') demo_cpe) = Inl (spvBatchFault fs)
     \<and> map (\<lambda>f. (sf_ParameterName f, sf_FaultCode f)) fs = [(''Device.Serial'', 9008)]"
proof -
  let ?e = "\<lparr>se_Name = ''Device.Serial'', se_Raw = ''S2''\<rparr>"
  have d: "distinct (map (parsePath \<circ> se_Name) [?e])" by simp
  have k: "known (c_tree demo_cpe) ?e" "\<not> entry_accepted (c_tree demo_cpe) ?e"
    "reject_code (c_tree demo_cpe) ?e = 9008"
    by (simp_all add: known_def entry_accepted_def reject_code_def old_of_def demo_cpe_def tree_eval)
  have "is_err (fst (spv_Handle demo_cfg (spv_request ''Device.Serial'' ''S2'') demo_cpe))"
    using k by (auto simp: spv_Handle_cases [OF decode_demo] demo_cpe_def setter_of_def tree_eval)
  from SPV_fault_report [OF decode_demo d this] k show ?thesis by simp
qed

theorem SPV_writes_witness:
  "fst (spv_Handle demo_cfg (spv_request ''Device.Port'' ''8080'') demo_cpe) = Inr (status ''0'')"
  using SPV_writes [OF decode_demo demo_accepts(1), of demo_cfg]
  by (simp add: spv_deferred_def demo_cfg_def split_beta Let_def)

theorem SPV_reports_changes_witness:
  "c_onset (snd (spv_Handle demo_cfg (spv_request ''Device.Port'' ''8080'') demo_cpe)) = [''Device.Port'']"
  using SPV_reports_changes [OF decode_demo demo_accepts(1), of demo_cfg]
  by (simp add: spv_deferred_def demo_cfg_def Let_def entry_changes_def old_of_def demo_cpe_def tree_eval)

theorem SPV_deferred_witness:
  "fst (spv_Handle demo_cfg (spv_request ''Device.Name'' ''gw'') demo_cpe) = Inr (status ''1'')"
  using SPV_deferred [OF decode_demo demo_accepts(2), of demo_cfg]
  by (auto simp: spv_deferred_def demo_cfg_def)

theorem SPA_all_or_nothing_witness:
  "snd (spa_entries [\<lparr>sa_Name = ''Device.'', NotificationChange = True, sa_Notification = 3,
      AccessListChange = False, sa_AccessList = None\<rparr>] demo_tree) = demo_tree"
proof -
  have "wf_node (root demo_tree)"
    by (simp add: demo_tree_def demo_root_def isSegmentChar_def less_eq_char_def)
  from SPA_all_or_nothing [OF this, of "[\<lparr>sa_Name = ''Device.'', NotificationChange = True,
      sa_Notification = 3, AccessListChange = False, sa_AccessList = None\<rparr>]"]
  show ?thesis by simp
qed

theorem GPV_answers_witness:
  "gpv_Handle (element ''ParameterNames'' (element ''string'' [CharData ''Device.Nope'']), io_EOF) demo_tree =
     Inl (faultInvalidParameterName ''Device.Nope'')"
proof -
  let ?req = "(element ''ParameterNames'' (element ''string'' [CharData ''Device.Nope'']), io_EOF)"
  have g: "good_node (root demo_tree)"
    by (simp add: good_node_def demo_tree_def demo_root_def isSegmentChar_def less_eq_char_def
        valid_Value_def value_eval)
  have r: "readStringList (snd ?req) ''ParameterNames'' (fst ?req) = (Inr [''Device.Nope''], [])"
    by (simp add: element_def DecodeElement_def snoc_slice_def slice_def)
  have "\<not> resolves demo_tree ''Device.Nope''" by (simp add: resolves_def tree_eval)
  with GPV_answers [OF g r] show ?thesis by auto
qed

end
