(* ===== verification/SessionInvariant.thy ===== *)
theory SessionInvariant
  imports Session
begin

text \<open>
  What a session relies on from its handlers.  The locale \<open>session_invariant\<close> is the contract: a
  property of the handlers' state that every handler of the table keeps.  A session then keeps
  it, whatever the ACS sends and wherever the session fails.
\<close>

lemma send_world: "send body r = (x, r') \<Longrightarrow> world r' = world r"
  by (auto simp: send_def Let_def split: list.splits reply.splits)

lemma sendInform_world: "world (snd (sendInform s build r)) = world r"
  by (auto simp: sendInform_def nextID_def Let_def split: sum.split prod.split option.split dest!: send_world)

lemma sendCPEInitiated_world: "world (snd (sendCPEInitiated s rpc r)) = world r"
  by (auto simp: sendCPEInitiated_def nextID_def Let_def split: sum.split prod.split option.split
      dest!: send_world)

lemma send_rpcs_world: "world (snd (send_rpcs s rpcs r)) = world r"
proof (induction rpcs arbitrary: r)
  case (Cons rpc rpcs)
  then show ?case using sendCPEInitiated_world [of s rpc r]
    by (auto split: prod.split sum.split)
qed simp

locale session_invariant =
  fixes s :: "'s Session" and I :: "'s \<Rightarrow> bool"
  assumes handler_keeps: "map_of (handlers s) method = Some h \<Longrightarrow> I w \<Longrightarrow> I (snd (h req w))"
begin

lemma dispatch_keeps: "I w \<Longrightarrow> I (snd (dispatch s method ident req w))"
proof (cases "map_of (handlers s) method")
  case (Some h)
  assume "I w"
  with Some have "I (snd (h req w))" by (rule handler_keeps)
  with Some show ?thesis
    by (cases "h req w") (simp add: dispatch_def split: sum.split herr.split)
qed (simp add: dispatch_def)

lemma handleACSMessage_keeps: "I w \<Longrightarrow> I (snd (handleACSMessage s msg w))"
  by (auto simp: handleACSMessage_def dispatch_keeps split: prod.split sum.split)

lemma drain_loop_keeps: "I (world r) \<Longrightarrow> I (world (snd (drain_loop s outbound r)))"
proof (induction "length (script r)" arbitrary: outbound r rule: less_induct)
  case less
  obtain x r1 where x: "send outbound r = (x, r1)" by (cases "send outbound r")
  then have w1: "world r1 = world r" by (rule send_world)
  show ?case
  proof (cases "\<exists>msg. x = Inr (Some msg)")
    case True
    then obtain msg where msg: "x = Inr (Some msg)" by blast
    have k: "I (snd (handleACSMessage s msg (world r1)))"
      using less.prems w1 by (simp add: handleACSMessage_keeps)
    have "length (script r1) < length (script r)" using x msg by (auto dest: send_Inr_script)
    with less.hyps [of "r1\<lparr>world := snd (handleACSMessage s msg (world r1))\<rparr>"] k x msg show ?thesis
      by (subst drain_loop.simps)
        (cases "handleACSMessage s msg (world r1)", auto split: sum.split)
  next
    case False
    with x w1 less.prems show ?thesis
      by (subst drain_loop.simps) (auto split: sum.split option.split)
  qed
qed

lemma Run_keeps: "I (world r) \<Longrightarrow> I (world (snd (Run s build rpcs r)))"
proof -
  assume I: "I (world r)"
  obtain x1 r1 where r1: "sendInform s build r = (x1, r1)" by (cases "sendInform s build r")
  obtain x2 r2 where r2: "send_rpcs s rpcs r1 = (x2, r2)" by (cases "send_rpcs s rpcs r1")
  have "world r1 = world r" "world r2 = world r"
    using sendInform_world [of s build r] send_rpcs_world [of s rpcs r1] r1 r2 by simp_all
  with I r1 r2 drain_loop_keeps [of r2 None] show ?thesis
    by (simp add: Run_def split: sum.split)
qed

end

end
