(* ===== verification/CpeSession.thy ===== *)
theory CpeSession
  imports HandlerProps SessionInvariant
begin

text \<open>
  The handlers of \<^verbatim>\<open>cmd/cpe-sim/main.go\<close> as the table of a session.  A refused request changes
  nothing; no request can damage the tree, lose a record that waits for the ACS or make the CPE
  believe that its BOOTSTRAP was delivered, whatever the ACS sends.
\<close>

section \<open>What the callbacks touch\<close>

definition frame_tracker :: "EventTracker \<Rightarrow> EventTracker" where
  "frame_tracker t = t\<lparr>bootstrapDone := False, bootstrapPending := False, pendingEvents := [], pendingValueChanges := []\<rparr>"

lemma frame_tracker_sel:
  assumes "frame_tracker t = frame_tracker t'"
  shows "pendingTransferCompletes t = pendingTransferCompletes t'"
    and "pendingDUStateCompletes t = pendingDUStateCompletes t'"
    and "baseParameterLists t = baseParameterLists t'"
  using assms by (cases t; cases t'; simp add: frame_tracker_def)+

lemma RecordValueChange_sel [simp]:
  "bootstrapDone (RecordValueChange p t) = bootstrapDone t"
  "frame_tracker (RecordValueChange p t) = frame_tracker t"
  by (simp_all add: RecordValueChange_def frame_tracker_def)

lemma tracker_frame [simp]:
  "frame_tracker (ResetBootstrap t) = frame_tracker t" "\<not> bootstrapDone (ResetBootstrap t)"
  "frame_tracker (QueueMethodReboot key t) = frame_tracker t"
  "bootstrapDone (QueueMethodReboot key t) = bootstrapDone t"
  by (simp_all add: frame_tracker_def ResetBootstrap_def QueueMethodReboot_def queueMethod_def)

lemma observer_sel [simp]:
  "c_tree (observer cfg ch c) = c_tree c" "c_after (observer cfg ch c) = c_after c"
  "bootstrapDone (c_tracker (observer cfg ch c)) = bootstrapDone (c_tracker c)"
  "frame_tracker (c_tracker (observer cfg ch c)) = frame_tracker (c_tracker c)"
  by (simp_all add: observer_def Let_def split: sum.split)

lemma deliver_sel [simp]:
  "c_tree (deliver cfg n c) = c_tree c" "c_after (deliver cfg n c) = c_after c"
  "bootstrapDone (c_tracker (deliver cfg n c)) = bootstrapDone (c_tracker c)"
  "frame_tracker (c_tracker (deliver cfg n c)) = frame_tracker (c_tracker c)"
proof -
  have "c_tree (fold (\<lambda>(oid, ch) c'. if oid = cwmpObserver cfg then observer cfg ch c' else c') ds c) = c_tree c
    \<and> c_after (fold (\<lambda>(oid, ch) c'. if oid = cwmpObserver cfg then observer cfg ch c' else c') ds c) = c_after c
    \<and> bootstrapDone (c_tracker (fold (\<lambda>(oid, ch) c'. if oid = cwmpObserver cfg then observer cfg ch c' else c') ds c))
        = bootstrapDone (c_tracker c)
    \<and> frame_tracker (c_tracker (fold (\<lambda>(oid, ch) c'. if oid = cwmpObserver cfg then observer cfg ch c' else c') ds c))
        = frame_tracker (c_tracker c)" for ds
    by (induction ds arbitrary: c) (simp_all add: split_beta)
  then show "c_tree (deliver cfg n c) = c_tree c" "c_after (deliver cfg n c) = c_after c"
    "bootstrapDone (c_tracker (deliver cfg n c)) = bootstrapDone (c_tracker c)"
    "frame_tracker (c_tracker (deliver cfg n c)) = frame_tracker (c_tracker c)"
    by (simp_all add: deliver_def)
qed

lemma with_tree_sel [simp]:
  "c_tree (with_tree cfg t c) = t" "c_after (with_tree cfg t c) = c_after c"
  "bootstrapDone (c_tracker (with_tree cfg t c)) = bootstrapDone (c_tracker c)"
  "frame_tracker (c_tracker (with_tree cfg t c)) = frame_tracker (c_tracker c)"
  by (simp_all add: with_tree_def)

lemma with_tree_same [simp]: "with_tree cfg (c_tree c) c = c"
  by (simp add: with_tree_def deliver_def)

lemma fire_sel [simp]:
  "c_tree (fire_valueChange cfg rs (fire_onSet rs c)) = c_tree c"
  "bootstrapDone (c_tracker (fire_valueChange cfg rs (fire_onSet rs c))) = bootstrapDone (c_tracker c)"
  "frame_tracker (c_tracker (fire_valueChange cfg rs (fire_onSet rs c))) = frame_tracker (c_tracker c)"
proof -
  have "bootstrapDone (fold RecordValueChange ps t) = bootstrapDone t
    \<and> frame_tracker (fold RecordValueChange ps t) = frame_tracker t" for ps t
    by (induction ps arbitrary: t) simp_all
  then show "c_tree (fire_valueChange cfg rs (fire_onSet rs c)) = c_tree c"
    "bootstrapDone (c_tracker (fire_valueChange cfg rs (fire_onSet rs c))) = bootstrapDone (c_tracker c)"
    "frame_tracker (c_tracker (fire_valueChange cfg rs (fire_onSet rs c))) = frame_tracker (c_tracker c)"
    by (simp_all add: fire_onSet_eq fire_valueChange_eq fold_valueChange_sel)
qed

text \<open>The paths waiting for a VALUE CHANGE inform only grow.\<close>

abbreviation changes :: "Cpe \<Rightarrow> string set" where
  "changes c \<equiv> set (pendingValueChanges (c_tracker c))"

lemma observer_changes: "changes c \<subseteq> changes (observer cfg ch c)"
  by (auto simp: observer_def RecordValueChange_def Let_def split: sum.split)

lemma with_tree_changes: "changes c \<subseteq> changes (with_tree cfg t c)"
proof -
  have "changes c \<subseteq> changes (fold (\<lambda>(oid, ch) c'. if oid = cwmpObserver cfg then observer cfg ch c' else c') ds c)" for ds c
    using observer_changes by (induction ds arbitrary: c) (auto, blast+)
  from this [of "c\<lparr>c_tree := t\<rparr>"] show ?thesis by (simp add: with_tree_def deliver_def)
qed

lemma fire_changes: "changes c \<subseteq> changes (fire_valueChange cfg rs (fire_onSet rs c))"
  by (auto simp: fire_onSet_eq fire_valueChange_eq fold_valueChange_sel fold_RecordValueChange)

lemma tracker_changes [simp]:
  "pendingValueChanges (ResetBootstrap t) = pendingValueChanges t"
  "pendingValueChanges (QueueMethodReboot key t) = pendingValueChanges t"
  by (simp_all add: ResetBootstrap_def QueueMethodReboot_def queueMethod_def)

section \<open>One handler\<close>

text \<open>What a handler does to the tree: one of the tree's operations, or nothing.\<close>

definition tree_after :: "CpeConfig \<Rightarrow> Tree \<Rightarrow> Tree \<Rightarrow> bool" where
  "tree_after cfg t t' \<longleftrightarrow>
     t' = t \<or> (\<exists>ss. t' = snd (SetBatch ss t)) \<or> (\<exists>es. t' = snd (spa_entries es t))
     \<or> (\<exists>p. t' = snd (AddObject p t)) \<or> (\<exists>p. t' = snd (DeleteObject p t))
     \<or> (\<exists>raw. t' = snd (SetSystem (serialPath cfg) raw (t\<lparr>root := clone (root (factoryTemplate cfg))\<rparr>)))"

definition harmless :: "CpeConfig \<Rightarrow> Cpe \<Rightarrow> Cpe \<Rightarrow> bool" where
  "harmless cfg c c' \<longleftrightarrow>
     tree_after cfg (c_tree c) (c_tree c')
     \<and> (bootstrapDone (c_tracker c') \<longrightarrow> bootstrapDone (c_tracker c))
     \<and> frame_tracker (c_tracker c') = frame_tracker (c_tracker c)
     \<and> changes c \<subseteq> changes c'"

lemma harmless_refl [simp]: "harmless cfg c c"
  by (simp add: harmless_def tree_after_def)

lemma spv_apply_harmless: "harmless cfg c (snd (spv_apply cfg ss c))"
proof (cases "SetBatch ss (c_tree c)")
  case (Pair r t)
  have "tree_after cfg (c_tree c) t" using Pair by (auto simp: tree_after_def intro: exI [of _ ss])
  then show ?thesis
    using Pair fire_changes [of "c\<lparr>c_tree := t\<rparr>"] by (cases r) (simp_all add: harmless_def spv_apply_def)
qed

lemma after_harmless: "harmless cfg c c' \<Longrightarrow> harmless cfg c (c'\<lparr>c_after := x\<rparr>)"
  by (simp add: harmless_def)

lemma spv_harmless: "harmless cfg c (snd (spv_Handle cfg req c))"
proof -
  have "harmless cfg c (snd (case spv_apply cfg ss c of
      (Inl e, c') \<Rightarrow> (Inl (mapSetBatchError e), c') | (Inr _, c') \<Rightarrow> (Inr (status ''0''), c')))" for ss
    using spv_apply_harmless [of cfg c ss] by (cases "spv_apply cfg ss c") (simp split: sum.split)
  then show ?thesis
    by (simp add: spv_Handle_def after_harmless split: sum.split option.split)
qed

lemma with_tree_harmless: "tree_after cfg (c_tree c) t \<Longrightarrow> harmless cfg c (with_tree cfg t c)"
  using with_tree_changes by (simp add: harmless_def)

lemma spa_harmless: "harmless cfg c (snd (spa_Handle cfg req c))"
proof (cases "decodeSPARequest (snd req) [] (fst req)")
  case (Inr es)
  have "tree_after cfg (c_tree c) (snd (spa_entries es (c_tree c)))" by (auto simp: tree_after_def)
  from with_tree_harmless [OF this] Inr show ?thesis
    by (cases "spa_entries es (c_tree c)") (simp add: spa_Handle_def split: sum.split)
qed (simp add: spa_Handle_def)

lemma ao_harmless: "harmless cfg c (snd (ao_Handle cfg req c))"
proof (cases "decodeObjectNameAndKey (snd req) ('''', '''') (fst req)")
  case (Inr nk)
  have "tree_after cfg (c_tree c) (snd (AddObject (fst nk) (c_tree c)))" by (auto simp: tree_after_def)
  from with_tree_harmless [OF this] Inr show ?thesis
    by (cases nk; cases "AddObject (fst nk) (c_tree c)") (simp add: ao_Handle_def split: sum.split)
qed (simp add: ao_Handle_def)

lemma do_harmless: "harmless cfg c (snd (do_Handle cfg req c))"
proof (cases "decodeObjectNameAndKey (snd req) ('''', '''') (fst req)")
  case (Inr nk)
  have "tree_after cfg (c_tree c) (snd (DeleteObject (fst nk) (c_tree c)))" by (auto simp: tree_after_def)
  from with_tree_harmless [OF this] Inr show ?thesis
    by (cases nk; cases "DeleteObject (fst nk) (c_tree c)") (simp add: do_Handle_def split: sum.split)
qed (simp add: do_Handle_def)

lemma factoryReset_harmless: "harmless cfg c (snd (factoryReset cfg c))"
proof -
  let ?t = "(c_tree c)\<lparr>root := clone (root (factoryTemplate cfg))\<rparr>"
  have "tree_after cfg (c_tree c) (snd (SetSystem (serialPath cfg) (serialNumber cfg) ?t))"
    by (auto simp: tree_after_def)
  then show ?thesis
    using with_tree_changes
    by (cases "SetSystem (serialPath cfg) (serialNumber cfg) ?t")
      (auto simp: factoryReset_def Reset_def Clone_def harmless_def Let_def split: sum.split)
qed

lemma schedule_harmless [simp]: "harmless cfg c (schedule x c)"
  by (simp add: harmless_def schedule_def tree_after_def)

lemma fr_harmless: "harmless cfg c (snd (fr_Handle cfg req c))"
  using factoryReset_harmless [of cfg c]
  by (cases "factoryReset cfg c") (auto simp: fr_Handle_def split: sum.split)

lemma reboot_harmless: "harmless cfg c (snd (reboot_Handle cfg req c))"
  by (auto simp: reboot_Handle_def split: sum.split) (simp add: harmless_def tree_after_def)

lemma transfer_harmless: "harmless cfg c (snd (transfer_Handle d name req c))"
  by (auto simp: transfer_Handle_def Let_def split: sum.split)

lemma changeDUState_harmless: "harmless cfg c (snd (changeDUState_Handle req c))"
  by (auto simp: changeDUState_Handle_def split: sum.split option.split)

lemma reading_harmless: "harmless cfg c (snd (reading h req c))"
  by (simp add: reading_def)

lemma table_cases:
  assumes "(mth, h) \<in> set (cpe_handlers cfg hasModules)"
  obtains g where "h = reading g" | "h = spv_Handle cfg" | "h = spa_Handle cfg" | "h = ao_Handle cfg"
    | "h = do_Handle cfg" | "h = reboot_Handle cfg" | "h = fr_Handle cfg" "mth = ''FactoryReset''"
    | d name where "h = transfer_Handle d name" | "h = changeDUState_Handle"
  using assms unfolding cpe_handlers_def dl_Handle_def up_Handle_def by (auto split: if_splits)

lemma table_harmless:
  assumes "(mth, h) \<in> set (cpe_handlers cfg hasModules)"
  shows "harmless cfg c (snd (h req c))"
  by (rule table_cases [OF assms])
    (simp_all add: reading_harmless spv_harmless spa_harmless ao_harmless do_harmless fr_harmless
      reboot_harmless transfer_harmless changeDUState_harmless)

lemma wf_spa_apply: "wf_node (root t) \<Longrightarrow> wf_node (root (snd (spa_apply pcs t)))"
proof (induction pcs t rule: spa_apply.induct)
  case (2 path e pcs t)
  have "wf_node (root t')" if "SetAttributes path a t = (r, t')" for a r t'
  proof (cases r)
    case (Inl err)
    with that 2(2) show ?thesis by (auto dest: write_fails_same(3))
  next
    case (Inr u)
    with that 2(2) show ?thesis by (auto simp: SetAttributes_Inr wf_put_attrs)
  qed
  with 2 show ?case by (auto split: sum.split prod.split)
qed simp

lemma wf_tree_after:
  assumes "tree_after cfg t t'" and "wf_node (root t)" and "wf_node (root (factoryTemplate cfg))"
  shows "wf_node (root t')"
proof -
  have batch: "wf_node (root (snd (SetBatch ss t)))" for ss
  proof (cases "fst (SetBatch ss t)")
    case (Inr rs)
    then have ok: "SetBatch ss t = (Inr rs, snd (SetBatch ss t))" by (simp add: prod_eq_iff)
    have "wf_node (fold (\<lambda>(k, v). put_leaf k v) kvs n)" if "wf_node n" for kvs n
      using that by (induction kvs arbitrary: n) (simp_all add: wf_put_leaf split_beta)
    with ok assms(2) show ?thesis unfolding SetBatch_Inr by fastforce
  next
    case (Inl e)
    then have "snd (SetBatch ss t) = t" by (metis prod.collapse write_fails_same(4))
    with assms(2) show ?thesis by simp
  qed
  have "wf_node (root (snd (spa_entries es t)))" for es
    using assms(2) by (auto simp: spa_entries_def wf_spa_apply split: sum.split)
  moreover have "wf_node (root (snd (SetSystem p raw u)))" if "wf_node (root u)" for p raw u
  proof (cases "fst (SetSystem p raw u)")
    case (Inl e)
    then have "snd (SetSystem p raw u) = u" by (metis prod.collapse write_fails_same(2))
    with that show ?thesis by simp
  next
    case (Inr x)
    then have "SetSystem p raw u = (Inr (), snd (SetSystem p raw u))" by (simp add: prod_eq_iff)
    then show ?thesis unfolding SetSystem_Inr using that by (auto simp: wf_put_leaf)
  qed
  ultimately show ?thesis
    using assms batch wf_AddObject wf_DeleteObject by (auto simp: tree_after_def)
qed

section \<open>The session\<close>

definition cpe_session :: "CpeConfig \<Rightarrow> bool \<Rightarrow> EncoderOptions \<Rightarrow> string list \<Rightarrow> Cpe Session" where
  "cpe_session cfg hasModules opts accept =
     \<lparr>handlers = cpe_handlers cfg hasModules, encOpts = opts, acceptVersions = accept\<rparr>"

lemma table_map_of: "map_of (handlers (cpe_session cfg m opts accept)) mth = Some h \<Longrightarrow>
    (mth, h) \<in> set (cpe_handlers cfg m)"
  by (auto simp: cpe_session_def dest: map_of_SomeD)

interpretation shape: session_invariant "cpe_session cfg m opts accept"
  "\<lambda>c. wf_node (root (factoryTemplate cfg)) \<longrightarrow> wf_node (root (c_tree c))" for cfg m opts accept
proof
  fix mth h req and w :: Cpe
  assume h: "map_of (handlers (cpe_session cfg m opts accept)) mth = Some h"
    and w: "wf_node (root (factoryTemplate cfg)) \<longrightarrow> wf_node (root (c_tree w))"
  show "wf_node (root (factoryTemplate cfg)) \<longrightarrow> wf_node (root (c_tree (snd (h req w))))"
    using table_harmless [OF table_map_of [OF h], of w req] w wf_tree_after
    by (auto simp: harmless_def)
qed

interpretation records: session_invariant "cpe_session cfg m opts accept"
  "\<lambda>c. frame_tracker (c_tracker c) = f" for cfg m opts accept f
  by unfold_locales (use table_harmless [OF table_map_of] in \<open>simp add: harmless_def\<close>)

interpretation owed: session_invariant "cpe_session cfg m opts accept"
  "\<lambda>c. \<not> bootstrapDone (c_tracker c)" for cfg m opts accept
  by unfold_locales (use table_harmless [OF table_map_of] in \<open>auto simp: harmless_def\<close>)

interpretation reported: session_invariant "cpe_session cfg m opts accept"
  "\<lambda>c. V \<subseteq> changes c" for cfg m opts accept V
proof
  fix mth h req and w :: Cpe
  assume h: "map_of (handlers (cpe_session cfg m opts accept)) mth = Some h" and w: "V \<subseteq> changes w"
  show "V \<subseteq> changes (snd (h req w))"
    using table_harmless [OF table_map_of [OF h], of w req] w unfolding harmless_def by blast
qed

section \<open>Properties\<close>

lemma ao_refused: "is_err (fst (ao_Handle cfg req c)) \<Longrightarrow> snd (ao_Handle cfg req c) = c"
proof (cases "decodeObjectNameAndKey (snd req) ('''', '''') (fst req)")
  case (Inr nk)
  obtain r t where "AddObject (fst nk) (c_tree c) = (r, t)" by (cases "AddObject (fst nk) (c_tree c)")
  moreover assume "is_err (fst (ao_Handle cfg req c))"
  ultimately show ?thesis
    using Inr by (cases nk; cases r) (auto simp: ao_Handle_def dest: AddObject_fails_same)
qed (simp add: ao_Handle_def)

lemma do_refused: "is_err (fst (do_Handle cfg req c)) \<Longrightarrow> snd (do_Handle cfg req c) = c"
proof (cases "decodeObjectNameAndKey (snd req) ('''', '''') (fst req)")
  case (Inr nk)
  obtain r t where "DeleteObject (fst nk) (c_tree c) = (r, t)" by (cases "DeleteObject (fst nk) (c_tree c)")
  moreover assume "is_err (fst (do_Handle cfg req c))"
  ultimately show ?thesis
    using Inr by (cases nk; cases r) (auto simp: do_Handle_def dest: DeleteObject_fails_same)
qed (simp add: do_Handle_def)

lemma spv_refused: "is_err (fst (spv_Handle cfg req c)) \<Longrightarrow> snd (spv_Handle cfg req c) = c"
  by (auto simp: spv_Handle_def split: sum.splits prod.splits option.splits if_splits dest: spv_apply_Inl)

lemma spa_refused:
  assumes "wf_node (root (c_tree c))" and "is_err (fst (spa_Handle cfg req c))"
  shows "snd (spa_Handle cfg req c) = c"
proof (cases "decodeSPARequest (snd req) [] (fst req)")
  case (Inr es)
  show ?thesis
  proof (cases "spa_pending (c_tree c) es")
    case (Inr pcs)
    then obtain t' where "spa_apply pcs (c_tree c) = (Inr (), t')"
      using spa_apply_ok [of pcs "c_tree c"] spa_pending_attrs [OF assms(1) Inr] by blast
    with Inr assms(2) \<open>decodeSPARequest (snd req) [] (fst req) = Inr es\<close> show ?thesis
      by (simp add: spa_Handle_def spa_entries_def)
  qed (use Inr in \<open>simp add: spa_Handle_def spa_entries_def\<close>)
qed (simp add: spa_Handle_def)

text \<open>C9: A request that is answered with a fault has changed nothing of the CPE: not the tree, not
  the tracker, not the work scheduled for later.  The one exception is FactoryReset, which has
  replaced the tree by then when the serial number cannot be written back.\<close>

theorem refused_rpc_changes_nothing:
  assumes "(mth, h) \<in> set (cpe_handlers cfg hasModules)" and "mth \<noteq> ''FactoryReset''"
    and "wf_node (root (c_tree c))" and "is_err (fst (h req c))"
  shows "snd (h req c) = c"
proof -
  have reboot: "snd (reboot_Handle cfg req c) = c" if "is_err (fst (reboot_Handle cfg req c))"
    using that by (auto simp: reboot_Handle_def split: sum.splits)
  have transfer: "snd (transfer_Handle d name req c) = c" if "is_err (fst (transfer_Handle d name req c))" for d name
    using that by (auto simp: transfer_Handle_def split: sum.splits if_splits)
  have modules: "snd (changeDUState_Handle req c) = c" if "is_err (fst (changeDUState_Handle req c))"
    using that by (auto simp: changeDUState_Handle_def split: sum.splits option.splits if_splits)
  from assms(1) show ?thesis
    by (rule table_cases)
      (use assms(2-4) ao_refused do_refused spv_refused spa_refused reboot transfer modules in
        \<open>simp_all add: reading_def\<close>)
qed

text \<open>C10: Whatever an ACS sends during a session, and wherever the session fails, the parameter tree
  is well-formed afterwards if it was before: names stay unique and legal, and leaves have no
  children.\<close>

theorem session_keeps_tree:
  assumes "wf_node (root (factoryTemplate cfg))" and "wf_node (root (c_tree (world r)))"
  shows "wf_node (root (c_tree (world (snd (Run (cpe_session cfg m opts accept) build rpcs r)))))"
  using shape.Run_keeps [of cfg r m opts accept build rpcs] assms by blast

text \<open>Nothing an ACS sends during a session makes the CPE believe that its BOOTSTRAP was
  delivered, and no record waiting to be reported is lost or added by a request.\<close>

theorem session_keeps_records:
  "let c = world r; c' = world (snd (Run (cpe_session cfg m opts accept) build rpcs r)) in
   (bootstrapDone (c_tracker c') \<longrightarrow> bootstrapDone (c_tracker c))
   \<and> pendingTransferCompletes (c_tracker c') = pendingTransferCompletes (c_tracker c)
   \<and> pendingDUStateCompletes (c_tracker c') = pendingDUStateCompletes (c_tracker c)
   \<and> baseParameterLists (c_tracker c') = baseParameterLists (c_tracker c)"
proof -
  let ?c' = "world (snd (Run (cpe_session cfg m opts accept) build rpcs r))"
  have "frame_tracker (c_tracker ?c') = frame_tracker (c_tracker (world r))"
    using records.Run_keeps [of r "frame_tracker (c_tracker (world r))" cfg m opts accept build rpcs] by simp
  then have "pendingTransferCompletes (c_tracker ?c') = pendingTransferCompletes (c_tracker (world r))"
    "pendingDUStateCompletes (c_tracker ?c') = pendingDUStateCompletes (c_tracker (world r))"
    "baseParameterLists (c_tracker ?c') = baseParameterLists (c_tracker (world r))"
    by (rule frame_tracker_sel)+
  with owed.Run_keeps [of r cfg m opts accept build rpcs] show ?thesis by (auto simp: Let_def)
qed

lemma register_distinct:
  "distinct (map fst (tab @ hs)) \<Longrightarrow> '''' \<notin> fst ` set hs \<Longrightarrow> register_handlers tab hs = Inr (tab @ hs)"
proof (induction hs arbitrary: tab)
  case (Cons h hs)
  obtain mth f where h: "h = (mth, f)" by (cases h)
  with Cons.prems have "mth \<notin> fst ` set tab" "mth \<noteq> ''''" by auto
  with h Cons show ?case by (simp add: map_of_eq_None_iff update_fresh)
qed simp

lemma rpcMethods_table: "map fst (cpe_handlers cfg m) = rpcMethods m"
  by (cases m) (simp_all add: cpe_handlers_def rpcMethods_def)

lemma rpcMethods_distinct: "distinct (rpcMethods m) \<and> '''' \<notin> set (rpcMethods m)"
  by (cases m) (simp_all add: rpcMethods_def)

text \<open>The list GetRPCMethods answers with names exactly the methods that have a handler, and the
  session can be built from the table: no method is registered twice.\<close>

theorem advertised_methods:
  "NewSession (cpe_handlers cfg m) opts accept = Inr (cpe_session cfg m opts accept)
   \<and> rpcMethods m = map fst (handlers (cpe_session cfg m opts accept))"
proof -
  have "distinct (map fst (cpe_handlers cfg m))" "'''' \<notin> fst ` set (cpe_handlers cfg m)"
    using rpcMethods_distinct [of m] rpcMethods_table [of cfg m] by (simp_all flip: set_map)
  then have "register_handlers [] (cpe_handlers cfg m) = Inr (cpe_handlers cfg m)"
    using register_distinct [of "[]" "cpe_handlers cfg m"] by simp
  then show ?thesis by (simp add: NewSession_def cpe_session_def rpcMethods_table)
qed

text \<open>A FactoryReset that is not deferred and succeeds gives the CPE the factory tree with its own
  serial number, and the very next session announces a BOOTSTRAP again, whatever its trigger.\<close>

theorem FactoryReset_restores:
  assumes "\<not> resetScheduled cfg" and "fst (fr_Handle cfg req c) = Inr ''''"
  shows "let c' = snd (fr_Handle cfg req c) in
    (\<exists>segs v. parsePath (serialPath cfg) = Inr segs
       \<and> leaf_at (root (factoryTemplate cfg)) segs = Some v
       \<and> root (c_tree c') = put_leaf segs (v\<lparr>Raw := serialNumber cfg\<rparr>) (clone (root (factoryTemplate cfg))))
    \<and> event EventBootstrap \<in> set (fst (NextSessionEvents trigger (c_tracker c')))"
proof -
  let ?t = "(c_tree c)\<lparr>root := clone (root (factoryTemplate cfg))\<rparr>"
  obtain x t' where x: "SetSystem (serialPath cfg) (serialNumber cfg) ?t = (x, t')"
    by (cases "SetSystem (serialPath cfg) (serialNumber cfg) ?t")
  with assms have ok: "x = Inr ()"
    by (auto simp: fr_Handle_def factoryReset_def Reset_def Clone_def Let_def split: sum.splits)
  with assms(1) x have c': "c_tree (snd (fr_Handle cfg req c)) = t'"
    "\<not> bootstrapDone (c_tracker (snd (fr_Handle cfg req c)))"
    by (simp_all add: fr_Handle_def factoryReset_def Reset_def Clone_def Let_def)
  from x ok obtain segs v where "parsePath (serialPath cfg) = Inr segs" "leaf_at (root ?t) segs = Some v"
    "root t' = put_leaf segs (v\<lparr>Raw := serialNumber cfg\<rparr>) (root ?t)"
    by (auto simp: SetSystem_Inr)
  with c' show ?thesis
    by (auto simp: Let_def NextSessionEvents_eq session_events_bootstrap)
qed

section \<open>Re-arming the scheduler\<close>

definition periodic :: "CpeConfig \<Rightarrow> string \<Rightarrow> bool" where
  "periodic cfg p \<longleftrightarrow> hasScheduler cfg \<and> p \<in> set (periodicLeaves cfg)"

lemma valueChange_rearm: "c_rearm (valueChange cfg p c) = c_rearm c + (if periodic cfg p then 1 else 0)"
  by (auto simp: valueChange_def Let_def periodic_def periodicLeaves_def)

lemma fold_valueChange_rearm:
  "c_rearm (fold (valueChange cfg) ps c) = c_rearm c + length (filter (periodic cfg) ps)"
  by (induction ps arbitrary: c) (simp_all add: valueChange_rearm)

lemma SPV_rearm_count:
  assumes "decodeSPVRequest (snd req) ([], '''') (fst req) = Inr (es, key)"
    and "spv_accepted (c_tree c) es" and "\<not> spv_deferred cfg es"
  shows "c_rearm (snd (spv_Handle cfg req c)) =
    c_rearm c + length (filter (periodic cfg)
      (map se_Name (filter (\<lambda>e. entry_changes (c_tree c) e \<and> watched (c_tree c) (se_Name e)) es)))"
proof -
  have k: "list_all (known (c_tree c)) es"
    using assms(2) by (auto simp: spv_accepted_def list_all_iff intro: entry_accepted_known)
  obtain bs where "preflight (map (setter_of (c_tree c)) es) (c_tree c) = Inr bs"
    using prepared_ok_iff [OF k] assms(2) by blast
  then show ?thesis
    using k assms spv_apply_accepted [OF assms(2), of cfg]
    by (simp add: spv_Handle_cases [OF assms(1)] fold_valueChange_rearm)
qed

lemma attrs_at_clone: "attrs_at (clone n) q = map_option (map_option copy_access) (attrs_at n q)"
proof -
  have "attrs (clone m) = map_option copy_access (attrs m)" for m by (cases m) simp
  then show ?thesis by (auto simp: attrs_at_def node_at_clone split: option.split)
qed

lemma copy_access_Notification [simp]: "Notification (copy_access a) = Notification a"
  by (simp add: copy_access_def split: option.split)

lemma watched_iff:
  "watched t p \<longleftrightarrow> (\<exists>segs a. parsePath p = Inr segs \<and> attrs_at (root t) segs = Some (Some a) \<and> 0 < Notification a)"
proof
  assume "watched t p"
  then obtain a where "GetAttributes p t = Inr a" "0 < Notification a"
    by (auto simp: watched_def split: sum.splits)
  then show "\<exists>segs a. parsePath p = Inr segs \<and> attrs_at (root t) segs = Some (Some a) \<and> 0 < Notification a"
    by (auto simp: GetAttributes_Inr zero_Attributes_def split: option.splits)
next
  assume "\<exists>segs a. parsePath p = Inr segs \<and> attrs_at (root t) segs = Some (Some a) \<and> 0 < Notification a"
  then obtain segs a where "GetAttributes p t = Inr (copy_access a)" "0 < Notification a"
    by (auto simp: GetAttributes_Inr)
  then show "watched t p" by (simp add: watched_def)
qed

lemma watched_after_reset:
  assumes "factoryReset cfg c = (Inr (), c')"
  shows "watched (c_tree c') p \<longleftrightarrow> watched (factoryTemplate cfg) p"
proof -
  let ?t = "(c_tree c)\<lparr>root := clone (root (factoryTemplate cfg))\<rparr>"
  from assms obtain t' where t': "SetSystem (serialPath cfg) (serialNumber cfg) ?t = (Inr (), t')" "c_tree c' = t'"
    by (cases "SetSystem (serialPath cfg) (serialNumber cfg) ?t")
      (auto simp: factoryReset_def Reset_def Clone_def Let_def split: sum.splits)
  then have "attrs_at (root t') q = map_option (map_option copy_access) (attrs_at (root (factoryTemplate cfg)) q)" for q
    by (auto simp: SetSystem_Inr attrs_at_put_leaf attrs_at_clone)
  then show ?thesis unfolding t'(2) by (auto simp: watched_iff)
qed

text \<open>At startup the periodic inform leaves get a notification attribute so that a
  SetParameterValues on them re-arms the scheduler; the factory template does not have it.  After a
  factory reset such a request, though accepted and applied, no longer re-arms the scheduler.\<close>

theorem FactoryReset_disarms_periodic:
  assumes "factoryReset cfg c = (Inr (), c1)"
    and "\<forall>p \<in> set (periodicLeaves cfg). \<not> watched (factoryTemplate cfg) p"
    and "decodeSPVRequest (snd req) ([], '''') (fst req) = Inr (es, key)"
    and "spv_accepted (c_tree c1) es" and "\<not> spv_deferred cfg es"
  shows "c_rearm (snd (spv_Handle cfg req c1)) = c_rearm c1"
proof -
  have "\<not> periodic cfg (se_Name e)" if "watched (c_tree c1) (se_Name e)" for e
    using that assms(2) watched_after_reset [OF assms(1)] by (auto simp: periodic_def)
  then show ?thesis by (auto simp: SPV_rearm_count [OF assms(3-5)] filter_empty_conv)
qed

text \<open>With the notification attributes of startup in place, an accepted request that changes a
  periodic inform parameter has the scheduler read its settings again.\<close>

theorem SPV_rearms_periodic:
  assumes "arm_leaves (periodicLeaves cfg) start = (Inr (), c_tree c)" and "hasScheduler cfg"
    and "decodeSPVRequest (snd req) ([], '''') (fst req) = Inr (es, key)"
    and "spv_accepted (c_tree c) es" and "\<not> spv_deferred cfg es"
    and "e \<in> set es" and "se_Name e \<in> set (periodicLeaves cfg)" and "entry_changes (c_tree c) e"
  shows "c_rearm c < c_rearm (snd (spv_Handle cfg req c))"
proof -
  have arm: "watched t' p" if "arm_leaves ps t = (Inr (), t')" "p \<in> set ps \<or> watched t p" for ps t t' p
    using that
  proof (induction ps arbitrary: t)
    case (Cons q ps)
    then obtain a t1 where a: "GetAttributes q t = Inr a"
      and t1: "SetAttributes q (a\<lparr>Notification := 1\<rparr>) t = (Inr (), t1)" "arm_leaves ps t1 = (Inr (), t')"
      by (auto split: sum.splits prod.splits)
    then obtain segs where s: "parsePath q = Inr segs" "attrs_at (root t) segs \<noteq> None"
      "root t1 = put_attrs segs (Some (copy_access (a\<lparr>Notification := 1\<rparr>))) (root t)"
      by (auto simp: SetAttributes_Inr)
    have "watched t1 q" using s by (auto simp: watched_iff attrs_at_put_attrs)
    moreover have "watched t1 p" if "watched t p" "p \<noteq> q"
      using that s \<open>watched t1 q\<close> by (auto simp: watched_iff) (metis attrs_at_put_attrs attrs_at_put_attrs_other option.inject)
    ultimately show ?case using Cons.IH [OF t1(2)] Cons.prems(2) by auto
  qed simp
  have "watched (c_tree c) (se_Name e)" using arm [OF assms(1)] assms(7) by blast
  then have "se_Name e \<in> set (filter (periodic cfg)
      (map se_Name (filter (\<lambda>e. entry_changes (c_tree c) e \<and> watched (c_tree c) (se_Name e)) es)))"
    using assms(2,6-8) by (auto simp: periodic_def)
  then show ?thesis
    unfolding SPV_rearm_count [OF assms(3-5)] by (metis length_pos_if_in_set less_add_same_cancel1)
qed

text \<open>GetParameterNames tells an unknown path by the words "not found" in the error text.  A
  path that goes on below a leaf is refused with other words, so that it is answered with the
  internal error 9002, where GetParameterValues answers 9005 for the same path.\<close>

theorem GPN_leaf_path_internal:
  "(\<exists>text. fst (dispatch (cpe_session demo_cfg False opts accept) ''GetParameterNames'' ident
        (element ''ParameterPath'' [CharData ''Device.Port.x.''], io_EOF) demo_cpe) =
      Inr (encodeFault opts ident \<lparr>ft_FaultCode = 9002, ft_FaultString = text, ft_SetFaults = []\<rparr>))
   \<and> gpv_Handle (element ''ParameterNames'' (element ''string'' [CharData ''Device.Port.x.'']), io_EOF) demo_tree =
       Inl (faultInvalidParameterName ''Device.Port.x.'')"
proof
  let ?req = "(element ''ParameterPath'' [CharData ''Device.Port.x.''], io_EOF)"
  have d: "decodeGPN (snd ?req) 2 ('''', '''') (fst ?req) = Inr (''Device.Port.x.'', '''')"
    by (simp add: element_def DecodeElement_def)
  obtain e vs where v: "Walk ''Device.Port.x.'' 0 collect_fn demo_tree [] = (Inl e, vs)"
    and c: "\<not> Contains (Error_text e) ''not found''"
    by (simp add: walk_eval Wrap_def HasPrefix_def Quote_def quote_char_def less_eq_char_def)
  have "gpn_Handle ?req demo_tree = Inl (PlainError e)"
    by (simp add: gpn_Handle_def d [simplified] v c is_true_def)
  then show "\<exists>text. fst (dispatch (cpe_session demo_cfg False opts accept) ''GetParameterNames'' ident ?req demo_cpe) =
      Inr (encodeFault opts ident \<lparr>ft_FaultCode = 9002, ft_FaultString = text, ft_SetFaults = []\<rparr>)"
    by (simp add: dispatch_def cpe_session_def cpe_handlers_def reading_def demo_cpe_def) blast
  show "gpv_Handle (element ''ParameterNames'' (element ''string'' [CharData ''Device.Port.x.'']), io_EOF) demo_tree =
       Inl (faultInvalidParameterName ''Device.Port.x.'')"
    by (simp add: gpv_Handle_def element_def DecodeElement_def snoc_slice_def slice_def walk_eval HasSuffix_def)
qed

section \<open>Witnesses\<close>

lemma demo_wf: "wf_node (root demo_tree)"
  by (simp add: demo_tree_def demo_root_def isSegmentChar_def less_eq_char_def)

theorem refused_rpc_changes_nothing_witness:
  "snd (ao_Handle demo_cfg (element ''ObjectName'' [CharData ''Device.''], io_EOF) demo_cpe) = demo_cpe"
proof -
  let ?req = "(element ''ObjectName'' [CharData ''Device.''], io_EOF)"
  have t: "(''AddObject'', ao_Handle demo_cfg) \<in> set (cpe_handlers demo_cfg False)"
    by (simp add: cpe_handlers_def)
  have e: "is_err (fst (ao_Handle demo_cfg ?req demo_cpe))"
    by (simp add: ao_Handle_def element_def DecodeElement_def demo_cpe_def AddObject_def tree_eval)
  have w: "wf_node (root (c_tree demo_cpe))" using demo_wf by (simp add: demo_cpe_def)
  show ?thesis using refused_rpc_changes_nothing [OF t _ w e] by simp
qed

theorem session_keeps_tree_witness:
  "wf_node (root (c_tree (world (snd (Run (cpe_session demo_cfg True (encOpts demo_session) []) (\<lambda>_. demo_build ()) [(''TransferComplete'', '''')]
     \<lparr>world = demo_cpe, script = [Status204], sent = [], next_id = 0\<rparr>)))))"
  by (rule session_keeps_tree) (use demo_wf in \<open>simp_all add: demo_cfg_def demo_cpe_def\<close>)

theorem session_keeps_records_witness:
  "\<not> bootstrapDone (c_tracker (world (snd (Run (cpe_session demo_cfg True (encOpts demo_session) []) (\<lambda>_. demo_build ()) []
     \<lparr>world = demo_cpe, script = [Status204], sent = [], next_id = 0\<rparr>))))"
  using session_keeps_records [of "\<lparr>world = demo_cpe, script = [Status204], sent = [], next_id = 0\<rparr>"
      demo_cfg True "encOpts demo_session" "[]" "\<lambda>_. demo_build ()" "[]"]
  by (auto simp: demo_cpe_def NewEventTracker_def Let_def)

lemma demo_reset: "factoryReset demo_cfg demo_cpe = (Inr (), snd (factoryReset demo_cfg demo_cpe))"
  by (simp add: factoryReset_def Reset_def Clone_def demo_cfg_def demo_cpe_def Let_def tree_eval)

theorem FactoryReset_restores_witness:
  "event EventBootstrap \<in>
     set (fst (NextSessionEvents TriggerPeriodic (c_tracker (snd (fr_Handle demo_cfg ([], io_EOF) demo_cpe)))))"
proof -
  have "fst (fr_Handle demo_cfg ([], io_EOF) demo_cpe) = Inr ''''"
    using demo_reset by (cases "factoryReset demo_cfg demo_cpe") (simp add: fr_Handle_def demo_cfg_def)
  with FactoryReset_restores [of demo_cfg "([], io_EOF)" demo_cpe TriggerPeriodic] show ?thesis
    by (simp add: demo_cfg_def Let_def)
qed

lemma demo_reset_tree:
  "c_tree (snd (factoryReset demo_cfg demo_cpe)) =
     snd (SetSystem ''Device.Serial'' ''S7'' (demo_tree\<lparr>root := clone demo_root\<rparr>))"
proof -
  obtain t' where t': "SetSystem ''Device.Serial'' ''S7'' (demo_tree\<lparr>root := clone demo_root\<rparr>) = (Inr (), t')"
    by (simp add: tree_eval)
  have r: "root demo_tree = demo_root" by (simp add: demo_tree_def)
  show ?thesis
    using t' r by (simp add: factoryReset_def Reset_def Clone_def demo_cfg_def demo_cpe_def Let_def)
qed

theorem FactoryReset_disarms_periodic_witness:
  "c_rearm (snd (spv_Handle demo_cfg (spv_request ''Device.Port'' ''8080'')
     (snd (factoryReset demo_cfg demo_cpe)))) = c_rearm (snd (factoryReset demo_cfg demo_cpe))"
proof (rule FactoryReset_disarms_periodic [OF demo_reset _ decode_demo])
  show "\<forall>p \<in> set (periodicLeaves demo_cfg). \<not> watched (factoryTemplate demo_cfg) p"
    by (simp add: periodicLeaves_def demo_cfg_def watched_def zero_Attributes_def tree_eval)
  show "spv_accepted (c_tree (snd (factoryReset demo_cfg demo_cpe)))
      [\<lparr>se_Name = ''Device.Port'', se_Raw = ''8080''\<rparr>]"
    unfolding demo_reset_tree
    by (simp add: spv_accepted_def entry_accepted_def valid_Value_def tree_eval)
qed (simp add: spv_deferred_def demo_cfg_def)

definition armed_cfg :: CpeConfig where
  "armed_cfg = demo_cfg\<lparr>pip_Enable := ''Device.Name'', deferredParameters := []\<rparr>"

definition armed_cpe :: Cpe where
  "armed_cpe = demo_cpe\<lparr>c_tree := snd (arm_leaves [''Device.Port'', ''Device.Name''] demo_tree)\<rparr>"

theorem SPV_rearms_periodic_witness:
  "c_rearm armed_cpe < c_rearm (snd (spv_Handle armed_cfg (spv_request ''Device.Port'' ''8080'') armed_cpe))"
proof (rule SPV_rearms_periodic [where start = demo_tree and e = "\<lparr>se_Name = ''Device.Port'', se_Raw = ''8080''\<rparr>",
      OF _ _ decode_demo])
  show "arm_leaves (periodicLeaves armed_cfg) demo_tree = (Inr (), c_tree armed_cpe)"
    by (simp add: periodicLeaves_def armed_cfg_def demo_cfg_def armed_cpe_def demo_cpe_def
        zero_Attributes_def tree_eval)
  show "spv_accepted (c_tree armed_cpe) [\<lparr>se_Name = ''Device.Port'', se_Raw = ''8080''\<rparr>]"
    by (simp add: spv_accepted_def entry_accepted_def valid_Value_def armed_cpe_def demo_cpe_def
        zero_Attributes_def tree_eval)
  show "entry_changes (c_tree armed_cpe) \<lparr>se_Name = ''Device.Port'', se_Raw = ''8080''\<rparr>"
    by (simp add: entry_changes_def old_of_def armed_cpe_def demo_cpe_def zero_Attributes_def tree_eval)
qed (simp_all add: armed_cfg_def demo_cfg_def spv_deferred_def periodicLeaves_def)

end
