(* ===== verification/Retry.thy ===== *)
theory Retry
  imports Prelude
begin

text \<open>
  The retry policy of \<^verbatim>\<open>src/internal/cwmp/retry.go\<close> and the queue of work that waits for the end of
  a session, \<^verbatim>\<open>src/internal/cwmp/aftersession.go\<close>.  Durations are nanoseconds.  The waits are
  computed in floating point in the source; they are at most five seconds times two to the
  tenth, far below two to the 53rd, so every value is exact.  The random source is a
  parameter: \<^const>\<open>None\<close> for a nil source, otherwise the function \<^verbatim>\<open>Int63n\<close>.
\<close>

section \<open>Retry state\<close>

abbreviation Second :: int where "Second \<equiv> 1000000000"
abbreviation retryMinimumWait :: int where "retryMinimumWait \<equiv> 5 * Second"
abbreviation retryMultiplier :: int where "retryMultiplier \<equiv> 2"
abbreviation retryAttemptCap :: nat where "retryAttemptCap \<equiv> 10"

record RetryState =
  rs_count :: nat

definition Count :: "RetryState \<Rightarrow> nat" where
  "Count r = rs_count r"

text \<open>The loop \<^verbatim>\<open>for i := 1; i < attempt; i++\<close>, \<open>n\<close> times.\<close>

fun grow :: "nat \<Rightarrow> int \<Rightarrow> int" where
  "grow 0 w = w"
| "grow (Suc n) w = grow n (w * retryMultiplier)"

definition OnFailure :: "(int \<Rightarrow> int) option \<Rightarrow> RetryState \<Rightarrow> (nat \<times> int) \<times> RetryState" where
  "OnFailure rng r =
     (let count = (rs_count r + 1) mod 2 ^ 64;
          attempt = (if retryAttemptCap < count then retryAttemptCap else count);
          minWait = grow (attempt - 1) retryMinimumWait;
          maxWait = minWait * retryMultiplier;
          wait = (case rng of None \<Rightarrow> minWait | Some int63n \<Rightarrow> minWait + int63n (maxWait - minWait))
      in ((count, wait), r\<lparr>rs_count := count\<rparr>))"

definition Retry_Reset :: "RetryState \<Rightarrow> RetryState" where
  "Retry_Reset r = r\<lparr>rs_count := 0\<rparr>"

section \<open>Work after the session\<close>

text \<open>A queued function changes the state of the CPE; \<^verbatim>\<open>Run\<close> takes the whole queue first and then
  runs it in order.\<close>

definition AfterSession_Add :: "('w \<Rightarrow> 'w) \<Rightarrow> ('w \<Rightarrow> 'w) list \<Rightarrow> ('w \<Rightarrow> 'w) list" where
  "AfterSession_Add fn queue = queue @ [fn]"

definition AfterSession_Run :: "('w \<Rightarrow> 'w) list \<Rightarrow> 'w \<Rightarrow> ('w \<Rightarrow> 'w) list \<times> 'w" where
  "AfterSession_Run queue w = ([], fold (\<lambda>fn. fn) queue w)"

section \<open>Properties\<close>

lemma grow_eq: "grow n w = w * 2 ^ n"
  by (induction n arbitrary: w) simp_all

text \<open>What the policy relies on: \<^verbatim>\<open>Int63n(n)\<close> returns a number below \<open>n\<close>.\<close>

definition int63n_ok :: "(int \<Rightarrow> int) option \<Rightarrow> bool" where
  "int63n_ok rng \<longleftrightarrow> (\<forall>f. rng = Some f \<longrightarrow> (\<forall>n > 0. 0 \<le> f n \<and> f n < n))"

text \<open>The state and the last result after \<open>n\<close> failures in a row.\<close>

fun failures :: "(int \<Rightarrow> int) option \<Rightarrow> nat \<Rightarrow> RetryState \<Rightarrow> RetryState" where
  "failures rng 0 r = r"
| "failures rng (Suc n) r = snd (OnFailure rng (failures rng n r))"

lemma failures_count: "rs_count r + n < 2 ^ 64 \<Longrightarrow> rs_count (failures rng n r) = rs_count r + n"
  by (induction n) (auto simp: OnFailure_def Let_def)

text \<open>After a success and \<open>n\<close> failures in a row, the next failure is counted as number \<open>n + 1\<close>, and its
  wait lies in the band of that attempt: at least five seconds doubled \<open>n\<close> times and less than
  twice that, with the band of the tenth attempt for every later one.\<close>

theorem retry_band:
  assumes "int63n_ok rng" and "n + 1 < 2 ^ 64"
  shows "let ((count, wait), r') = OnFailure rng (failures rng n (Retry_Reset r)); k = min (n + 1) 10 in
    count = n + 1 \<and> rs_count r' = n + 1
    \<and> 5 * Second * 2 ^ (k - 1) \<le> wait \<and> wait < 5 * Second * 2 ^ k"
proof -
  let ?r = "failures rng n (Retry_Reset r)"
  have c: "rs_count ?r = n"
    using assms(2) failures_count [of "Retry_Reset r" n rng] by (simp add: Retry_Reset_def)
  define k where "k = min (n + 1) 10"
  have k: "1 \<le> k" "(if 10 < n + 1 then 10 else n + 1) = k" by (auto simp: k_def)
  define w where "w = 5 * Second * 2 ^ (k - 1)"
  have w2: "5 * Second * 2 ^ k = 2 * w"
    using k(1) by (cases k) (simp_all add: w_def)
  have pos: "0 < w" by (simp add: w_def)
  have wait: "snd (fst (OnFailure rng ?r)) = (case rng of None \<Rightarrow> w | Some f \<Rightarrow> w + f (w * 2 - w))"
    using c assms(2) k(2) by (cases "9 < n") (auto simp: OnFailure_def Let_def grow_eq w_def split: option.split)
  have "w \<le> snd (fst (OnFailure rng ?r)) \<and> snd (fst (OnFailure rng ?r)) < 2 * w"
    using assms(1) pos by (auto simp: wait int63n_ok_def split: option.split)
  moreover have "fst (fst (OnFailure rng ?r)) = n + 1" "rs_count (snd (OnFailure rng ?r)) = n + 1"
    using c assms(2) by (simp_all add: OnFailure_def Let_def)
  moreover have "k - Suc 0 = min n 9" by (simp add: k_def min_def)
  ultimately show ?thesis
    by (simp add: Let_def case_prod_unfold k_def [symmetric] w2 w_def)
qed

theorem retry_band_witness:
  "snd (fst (OnFailure None (failures None 11 (Retry_Reset \<lparr>rs_count = 3\<rparr>)))) < 5120 * Second"
  using retry_band [of None 11 "\<lparr>rs_count = 3\<rparr>"]
  by (simp add: int63n_ok_def Let_def case_prod_unfold)

end
