(* ===== verification/RunSession.thy ===== *)
theory RunSession
  imports CpeSession Retry
begin

text \<open>
  \<^verbatim>\<open>RunSession\<close> of \<^verbatim>\<open>src/internal/cwmp/runsession.go\<close> on the state of a CPE: take what is owed to the ACS
  from the tracker, run a session that reports it, run the writes that waited for its end, and
  then either acknowledge or put everything back.  The function is the sequence of three steps,
  \<open>begin_session\<close>, \<open>Run\<close> and \<open>end_session\<close>, because other goroutines may use the tracker between
  the first and the last.
\<close>

section \<open>Definitions\<close>

record RunSessionOptions =
  ro_Session :: "Cpe Session"
  ro_DeviceIDPaths :: DeviceID
  ro_MaxEnvelopes :: nat

text \<open>The state: the CPE with the transport, and the retry counter.\<close>

record cwmp_state =
  cs_run :: "Cpe run"
  cs_retry :: RetryState

definition map_tracker :: "(EventTracker \<Rightarrow> EventTracker) \<Rightarrow> Cpe run \<Rightarrow> Cpe run" where
  "map_tracker f r = r\<lparr>world := (world r)\<lparr>c_tracker := f (c_tracker (world r))\<rparr>\<rparr>"

record session_plan =
  sp_events :: "Event list"
  sp_transfers :: "TransferComplete list"
  sp_dustates :: "DUStateComplete list"
  sp_builder :: Builder

definition adaptTransferCompletes :: "TransferComplete list \<Rightarrow> rpc list" where
  "adaptTransferCompletes recs = map (\<lambda>r. (''TransferComplete'', transfer_Render r)) recs"

definition adaptDUStateCompletes :: "DUStateComplete list \<Rightarrow> rpc list" where
  "adaptDUStateCompletes recs = map (\<lambda>r. (''DUStateChangeComplete'', dustate_Render r)) recs"

definition requeueTransferCompletes :: "TransferComplete list \<Rightarrow> EventTracker \<Rightarrow> EventTracker" where
  "requeueTransferCompletes recs t = fold QueueTransferComplete recs t"

definition requeueDUStateCompletes :: "DUStateComplete list \<Rightarrow> EventTracker \<Rightarrow> EventTracker" where
  "requeueDUStateCompletes recs t = fold QueueDUStateChangeComplete recs t"

definition requeue_all ::
  "Event list \<Rightarrow> TransferComplete list \<Rightarrow> DUStateComplete list \<Rightarrow> EventTracker \<Rightarrow> EventTracker" where
  "requeue_all events tcs dus t =
     requeueDUStateCompletes dus (requeueTransferCompletes tcs (requeueUndelivered events t))"

definition trigger_number :: "Trigger \<Rightarrow> int" where
  "trigger_number trigger =
     (case trigger of TriggerStartup \<Rightarrow> 0 | TriggerPeriodic \<Rightarrow> 1 | TriggerConnectionRequest \<Rightarrow> 2
      | TriggerValueChange \<Rightarrow> 3 | TriggerTransferComplete \<Rightarrow> 4 | TriggerRetry \<Rightarrow> 5
      | TriggerDUStateChangeComplete \<Rightarrow> 6)"

text \<open>Up to the construction of the builder.\<close>

definition begin_session ::
  "RunSessionOptions \<Rightarrow> Trigger \<Rightarrow> Cpe \<Rightarrow> (goerr + session_plan) \<times> Cpe" where
  "begin_session opts trigger c =
     (let (events, t1) = NextSessionEvents trigger (c_tracker c) in
      if length events = 0 then
        (Inl (Wrap ''cwmp.RunSession'' KindInvalidArgument
                (Some (Errorf ''tracker produced no events for trigger %d'' [ArgI (trigger_number trigger)]))),
         c\<lparr>c_tracker := t1\<rparr>)
      else
        (let (tcs, t2) = DrainTransferCompletes t1;
             (dus, t3) = DrainDUStateChangeCompletes t2
         in case NewBuilder (c_tree c) (ro_DeviceIDPaths opts) (SessionParameterLists t3)
                   (ro_MaxEnvelopes opts) of
              Inl e \<Rightarrow> (Inl e, c\<lparr>c_tracker := requeue_all events tcs dus t3\<rparr>)
            | Inr builder \<Rightarrow>
                (Inr \<lparr>sp_events = events, sp_transfers = tcs, sp_dustates = dus, sp_builder = builder\<rparr>,
                 c\<lparr>c_tracker := t3\<rparr>)))"

definition run_after :: "CpeConfig \<Rightarrow> Cpe \<Rightarrow> Cpe" where
  "run_after cfg c =
     snd (AfterSession_Run (map (\<lambda>ss c. snd (spv_apply cfg ss c)) (c_after c)) (c\<lparr>c_after := []\<rparr>))"

definition end_session ::
  "CpeConfig \<Rightarrow> session_plan \<Rightarrow> goerr + unit \<Rightarrow> cwmp_state \<Rightarrow> cwmp_state" where
  "end_session cfg plan res s =
     (let r = (cs_run s)\<lparr>world := run_after cfg (world (cs_run s))\<rparr> in
      case res of
        Inl e \<Rightarrow>
          s\<lparr>cs_run := map_tracker (requeue_all (sp_events plan) (sp_transfers plan) (sp_dustates plan)) r\<rparr>
      | Inr _ \<Rightarrow> s\<lparr>cs_run := map_tracker Acknowledge r, cs_retry := Retry_Reset (cs_retry s)\<rparr>)"

definition run_plan ::
  "RunSessionOptions \<Rightarrow> Time \<Rightarrow> session_plan \<Rightarrow> cwmp_state \<Rightarrow> (goerr + unit) \<times> cwmp_state" where
  "run_plan opts now plan s =
     (let build = (\<lambda>c. Build (sp_builder plan) now (sp_events plan) (Count (cs_retry s)) (c_tree c));
          rpcs = adaptTransferCompletes (sp_transfers plan) @ adaptDUStateCompletes (sp_dustates plan);
          (res, r) = Run (ro_Session opts) build rpcs (cs_run s)
      in (res, s\<lparr>cs_run := r\<rparr>))"

definition RunSession ::
  "CpeConfig \<Rightarrow> RunSessionOptions \<Rightarrow> Time \<Rightarrow> Trigger \<Rightarrow> cwmp_state \<Rightarrow> (goerr + unit) \<times> cwmp_state" where
  "RunSession cfg opts now trigger s =
     (let (p, c1) = begin_session opts trigger (world (cs_run s));
          s1 = s\<lparr>cs_run := (cs_run s)\<lparr>world := c1\<rparr>\<rparr>
      in case p of
           Inl e \<Rightarrow> (Inl e, s1)
         | Inr plan \<Rightarrow>
             (let (res, s2) = run_plan opts now plan s1
              in (res, end_session cfg plan res s2)))"

section \<open>The steps\<close>

lemma begin_session_eq:
  "begin_session opts trigger c =
     (let t = c_tracker c; events = dedupeEvents (session_events trigger t);
          t3 = (drained t)\<lparr>pendingTransferCompletes := [], pendingDUStateCompletes := []\<rparr> in
      if events = [] then
        (Inl (Wrap ''cwmp.RunSession'' KindInvalidArgument
                (Some (Errorf ''tracker produced no events for trigger %d'' [ArgI (trigger_number trigger)]))),
         c\<lparr>c_tracker := drained t\<rparr>)
      else
        (case NewBuilder (c_tree c) (ro_DeviceIDPaths opts) (SessionParameterLists t) (ro_MaxEnvelopes opts) of
           Inl e \<Rightarrow> (Inl e, c\<lparr>c_tracker := requeue_all events (pendingTransferCompletes t)
                                     (pendingDUStateCompletes t) t3\<rparr>)
         | Inr b \<Rightarrow>
             (Inr \<lparr>sp_events = events, sp_transfers = pendingTransferCompletes t,
                   sp_dustates = pendingDUStateCompletes t, sp_builder = b\<rparr>, c\<lparr>c_tracker := t3\<rparr>)))"
proof -
  have tc: "DrainTransferCompletes t = (pendingTransferCompletes t, t\<lparr>pendingTransferCompletes := []\<rparr>)" for t
    by (auto simp: DrainTransferCompletes_def)
  have du: "DrainDUStateChangeCompletes t = (pendingDUStateCompletes t, t\<lparr>pendingDUStateCompletes := []\<rparr>)" for t
    by (auto simp: DrainDUStateChangeCompletes_def)
  have sel: "pendingTransferCompletes (drained t) = pendingTransferCompletes t"
    "pendingDUStateCompletes (drained t) = pendingDUStateCompletes t"
    "SessionParameterLists ((drained t)\<lparr>pendingTransferCompletes := x, pendingDUStateCompletes := y\<rparr>) =
      SessionParameterLists t" for t x y
    by (simp_all add: drained_def SessionParameterLists_def)
  show ?thesis
    by (simp add: begin_session_def NextSessionEvents_eq Let_def tc du sel split: sum.split)
qed

lemma requeue_all_eq:
  "requeue_all events tcs dus t =
     t\<lparr>pendingEvents := pendingEvents t @ filter (\<lambda>e. \<not> not_requeued (EventCode e)) events,
       pendingTransferCompletes := pendingTransferCompletes t @ tcs,
       pendingDUStateCompletes := pendingDUStateCompletes t @ dus\<rparr>"
proof -
  have "requeueTransferCompletes tcs t = t\<lparr>pendingTransferCompletes := pendingTransferCompletes t @ tcs\<rparr>" for t
    unfolding requeueTransferCompletes_def
    by (induction tcs arbitrary: t) (simp_all add: QueueTransferComplete_def)
  moreover have "requeueDUStateCompletes dus t = t\<lparr>pendingDUStateCompletes := pendingDUStateCompletes t @ dus\<rparr>" for t
    unfolding requeueDUStateCompletes_def
    by (induction dus arbitrary: t) (simp_all add: QueueDUStateChangeComplete_def)
  ultimately show ?thesis by (simp add: requeue_all_def requeueUndelivered_eq)
qed

lemma spv_apply_after: "c_after (snd (spv_apply cfg ss c)) = c_after c"
  by (auto simp: spv_apply_def fire_onSet_eq fire_valueChange_eq fold_valueChange_sel
      split: prod.split sum.split)

lemma run_after_eq: "run_after cfg c = fold (\<lambda>ss c. snd (spv_apply cfg ss c)) (c_after c) (c\<lparr>c_after := []\<rparr>)"
  by (simp add: run_after_def AfterSession_Run_def fold_map comp_def)

lemma run_after_sel:
  "c_after (run_after cfg c) = []"
  "frame_tracker (c_tracker (run_after cfg c)) = frame_tracker (c_tracker c)"
  "bootstrapDone (c_tracker (run_after cfg c)) \<Longrightarrow> bootstrapDone (c_tracker c)"
  "changes c \<subseteq> changes (run_after cfg c)"
proof -
  have "c_after (fold (\<lambda>ss c. snd (spv_apply cfg ss c)) sss c) = c_after c
    \<and> frame_tracker (c_tracker (fold (\<lambda>ss c. snd (spv_apply cfg ss c)) sss c)) = frame_tracker (c_tracker c)
    \<and> (bootstrapDone (c_tracker (fold (\<lambda>ss c. snd (spv_apply cfg ss c)) sss c)) \<longrightarrow> bootstrapDone (c_tracker c))
    \<and> changes c \<subseteq> changes (fold (\<lambda>ss c. snd (spv_apply cfg ss c)) sss c)" for sss c
  proof (induction sss arbitrary: c)
    case (Cons ss sss)
    show ?case
      using Cons.IH [of "snd (spv_apply cfg ss c)"] spv_apply_harmless [of cfg c ss] spv_apply_after [of cfg ss c]
      unfolding harmless_def by (simp, blast)
  qed simp
  from this [of "c_after c" "c\<lparr>c_after := []\<rparr>"]
  show "c_after (run_after cfg c) = []"
    "frame_tracker (c_tracker (run_after cfg c)) = frame_tracker (c_tracker c)"
    "bootstrapDone (c_tracker (run_after cfg c)) \<Longrightarrow> bootstrapDone (c_tracker c)"
    "changes c \<subseteq> changes (run_after cfg c)"
    by (auto simp: run_after_eq)
qed

text \<open>What the session in the middle leaves of the tracker.\<close>

lemma run_plan_world:
  fixes s :: cwmp_state and opts :: RunSessionOptions and now :: Time and plan :: session_plan
  assumes "ro_Session opts = cpe_session cfg m eo accept"
  defines "c \<equiv> world (cs_run s)" and "c' \<equiv> world (cs_run (snd (run_plan opts now plan s)))"
  shows "frame_tracker (c_tracker c') = frame_tracker (c_tracker c)"
    and "bootstrapDone (c_tracker c') \<Longrightarrow> bootstrapDone (c_tracker c)" and "changes c \<subseteq> changes c'"
proof -
  let ?build = "\<lambda>c. Build (sp_builder plan) now (sp_events plan) (Count (cs_retry s)) (c_tree c)"
  let ?rpcs = "adaptTransferCompletes (sp_transfers plan) @ adaptDUStateCompletes (sp_dustates plan)"
  have c': "c' = world (snd (Run (cpe_session cfg m eo accept) ?build ?rpcs (cs_run s)))"
    using assms(1) by (simp add: c'_def run_plan_def Let_def split_beta)
  show "frame_tracker (c_tracker c') = frame_tracker (c_tracker c)"
    unfolding c' c_def by (rule records.Run_keeps) simp
  show "changes c \<subseteq> changes c'"
    unfolding c' c_def by (rule reported.Run_keeps) simp
  show "bootstrapDone (c_tracker c') \<Longrightarrow> bootstrapDone (c_tracker c)"
    unfolding c' c_def using owed.Run_keeps by blast
qed

lemma RunSession_cases:
  fixes s :: cwmp_state
  defines "c \<equiv> world (cs_run s)"
  obtains (refused) e c1 where "begin_session opts trigger c = (Inl e, c1)"
      "RunSession cfg opts now trigger s = (Inl e, s\<lparr>cs_run := (cs_run s)\<lparr>world := c1\<rparr>\<rparr>)"
  | (ran) plan c1 res s2 where "begin_session opts trigger c = (Inr plan, c1)"
      "run_plan opts now plan (s\<lparr>cs_run := (cs_run s)\<lparr>world := c1\<rparr>\<rparr>) = (res, s2)"
      "RunSession cfg opts now trigger s = (res, end_session cfg plan res s2)"
proof -
  obtain p c1 where p: "begin_session opts trigger c = (p, c1)" by (cases "begin_session opts trigger c")
  show thesis
  proof (cases p)
    case (Inl e)
    with p refused show thesis by (simp add: RunSession_def c_def)
  next
    case (Inr plan)
    obtain res s2 where "run_plan opts now plan (s\<lparr>cs_run := (cs_run s)\<lparr>world := c1\<rparr>\<rparr>) = (res, s2)"
      by (cases "run_plan opts now plan (s\<lparr>cs_run := (cs_run s)\<lparr>world := c1\<rparr>\<rparr>)")
    with p Inr ran show thesis by (simp add: RunSession_def c_def)
  qed
qed

section \<open>Properties\<close>

lemma frame_tracker_queues:
  "frame_tracker t = frame_tracker (u\<lparr>pendingTransferCompletes := [], pendingDUStateCompletes := []\<rparr>) \<Longrightarrow>
     pendingTransferCompletes t = [] \<and> pendingDUStateCompletes t = []"
  by (cases t; cases u) (simp add: frame_tracker_def)

text \<open>The state when the session proper is over: the records are in the plan and nowhere else.\<close>

lemma middle:
  assumes "ro_Session opts = cpe_session cfg m eo accept"
    and "begin_session opts trigger c = (Inr plan, c1)"
    and "run_plan opts now plan (s\<lparr>cs_run := (cs_run s)\<lparr>world := c1\<rparr>\<rparr>) = (res, s2)"
  defines "c2 \<equiv> run_after cfg (world (cs_run s2))"
  shows "sp_events plan = dedupeEvents (session_events trigger (c_tracker c))"
    and "sp_transfers plan = pendingTransferCompletes (c_tracker c)"
    and "sp_dustates plan = pendingDUStateCompletes (c_tracker c)"
    and "pendingTransferCompletes (c_tracker c2) = []" and "pendingDUStateCompletes (c_tracker c2) = []"
    and "changes c \<subseteq> changes c2" and "bootstrapDone (c_tracker c2) \<Longrightarrow> bootstrapDone (c_tracker c)"
    and "c_after c2 = []"
proof -
  define t3 where "t3 = (drained (c_tracker c))\<lparr>pendingTransferCompletes := [], pendingDUStateCompletes := []\<rparr>"
  from assms(2) have plan: "sp_events plan = dedupeEvents (session_events trigger (c_tracker c))"
    "sp_transfers plan = pendingTransferCompletes (c_tracker c)"
    "sp_dustates plan = pendingDUStateCompletes (c_tracker c)" and c1: "c1 = c\<lparr>c_tracker := t3\<rparr>"
    by (auto simp: begin_session_eq Let_def t3_def split: if_splits sum.splits)
  then show "sp_events plan = dedupeEvents (session_events trigger (c_tracker c))"
    "sp_transfers plan = pendingTransferCompletes (c_tracker c)"
    "sp_dustates plan = pendingDUStateCompletes (c_tracker c)" by simp_all
  note w = run_plan_world [OF assms(1), where s = "s\<lparr>cs_run := (cs_run s)\<lparr>world := c1\<rparr>\<rparr>" and now = now
      and plan = plan, unfolded assms(3)]
  have "frame_tracker (c_tracker c2) = frame_tracker t3"
    using w(1) run_after_sel(2) [of cfg "world (cs_run s2)"] c1 by (simp add: c2_def)
  then show "pendingTransferCompletes (c_tracker c2) = []" "pendingDUStateCompletes (c_tracker c2) = []"
    using frame_tracker_queues by (auto simp: t3_def)
  show "changes c \<subseteq> changes c2"
    using w(3) run_after_sel(4) [of "world (cs_run s2)" cfg] c1 by (auto simp: c2_def t3_def drained_def)
  show "bootstrapDone (c_tracker c2) \<Longrightarrow> bootstrapDone (c_tracker c)"
    using w(2) run_after_sel(3) [of cfg "world (cs_run s2)"] c1 by (simp add: c2_def t3_def drained_def)
  show "c_after c2 = []" by (simp add: c2_def run_after_sel)
qed

text \<open>C3: A session that fails, for whatever reason and at whatever point, loses nothing the CPE owes
  the ACS: the records of finished transfers and software module operations are queued as before,
  every event the session carried is queued again unless it is one that must not be or that is
  tracked elsewhere, the changed parameters still wait, and an undelivered BOOTSTRAP stays
  undelivered.\<close>

theorem RunSession_failure_loses_nothing:
  assumes "ro_Session opts = cpe_session cfg m eo accept"
    and "RunSession cfg opts now trigger s = (Inl e, s')"
  shows "let t = c_tracker (world (cs_run s)); t' = c_tracker (world (cs_run s')) in
    pendingTransferCompletes t' = pendingTransferCompletes t
    \<and> pendingDUStateCompletes t' = pendingDUStateCompletes t
    \<and> (\<forall>ev \<in> set (fst (NextSessionEvents trigger t)). \<not> not_requeued (EventCode ev) \<longrightarrow> ev \<in> set (pendingEvents t'))
    \<and> set (pendingValueChanges t) \<subseteq> set (pendingValueChanges t')
    \<and> (bootstrapDone t' \<longrightarrow> bootstrapDone t) \<and> cs_retry s' = cs_retry s"
proof (cases rule: RunSession_cases [of opts trigger s cfg now])
  case (refused e' c1)
  let ?t = "c_tracker (world (cs_run s))"
  from refused(2) assms(2) have s': "s' = s\<lparr>cs_run := (cs_run s)\<lparr>world := c1\<rparr>\<rparr>" by simp
  show ?thesis
  proof (cases "dedupeEvents (session_events trigger ?t) = []")
    case True
    with refused(1) have "c1 = (world (cs_run s))\<lparr>c_tracker := drained ?t\<rparr>" by (simp add: begin_session_eq Let_def)
    moreover from True have "session_events trigger ?t = []" by (metis dedupe_set set_empty)
    ultimately show ?thesis using s' True by (simp add: Let_def NextSessionEvents_eq drained_def)
  next
    case False
    with refused(1) have "c_tracker c1 = requeue_all (dedupeEvents (session_events trigger ?t))
        (pendingTransferCompletes ?t) (pendingDUStateCompletes ?t)
        ((drained ?t)\<lparr>pendingTransferCompletes := [], pendingDUStateCompletes := []\<rparr>)"
      by (auto simp: begin_session_eq Let_def split: sum.splits)
    with s' show ?thesis by (simp add: Let_def NextSessionEvents_eq requeue_all_eq drained_def)
  qed
next
  case (ran plan c1 res s2)
  note mid = middle [OF assms(1) ran(1,2)]
  from ran(3) assms(2) have r: "res = Inl e" and s': "s' = end_session cfg plan res s2" by simp_all
  have "cs_retry s2 = cs_retry s"
    using arg_cong [OF ran(2), of "\<lambda>x. cs_retry (snd x)"] by (simp add: run_plan_def Let_def split_beta)
  with mid s' r show ?thesis
    by (auto simp: Let_def end_session_def map_tracker_def requeue_all_eq NextSessionEvents_eq)
qed


text \<open>A retry of a session that had nothing to redeliver (a failed answer to a connection
  request, whose event is not queued again) never reaches the ACS: it sends nothing and fails, and
  leaves the CPE in a state where the next retry does the same.\<close>

theorem retry_without_events_fails:
  assumes "bootstrapDone (c_tracker (world (cs_run s)))"
    and "pendingEvents (c_tracker (world (cs_run s))) = []"
    and "pendingTransferCompletes (c_tracker (world (cs_run s))) = []"
  shows "\<exists>e. RunSession cfg opts now TriggerRetry s = (Inl e, s)"
proof -
  have "dedupeEvents (session_events TriggerRetry (c_tracker (world (cs_run s)))) = []"
    using assms by (simp add: session_events_def dedupeEvents_def)
  moreover have "drained (c_tracker (world (cs_run s))) = c_tracker (world (cs_run s))"
    using assms by (cases "c_tracker (world (cs_run s))") (simp add: drained_def)
  ultimately show ?thesis
    by (simp add: RunSession_def begin_session_eq Let_def)
qed

section \<open>Witnesses\<close>

definition demo_opts :: RunSessionOptions where
  "demo_opts = \<lparr>ro_Session = cpe_session demo_cfg False (encOpts demo_session) [],
     ro_DeviceIDPaths = \<lparr>Manufacturer = ''Device.Name'', OUI = ''Device.Name'', ProductClass = ''Device.Name'',
       SerialNumber = ''Device.Serial''\<rparr>, ro_MaxEnvelopes = 1\<rparr>"

definition demo_record :: TransferComplete where
  "demo_record = \<lparr>tc_CommandKey = ''k'', tc_FaultCode = 0, tc_FaultString = '''',
     tc_StartTime = demo_time, tc_CompleteTime = demo_time\<rparr>"

definition demo_state :: "reply list \<Rightarrow> cwmp_state" where
  "demo_state replies =
     \<lparr>cs_run = \<lparr>world = demo_cpe\<lparr>c_tracker := QueueTransferComplete demo_record (c_tracker demo_cpe)\<rparr>,
        script = replies, sent = [], next_id = 0\<rparr>, cs_retry = \<lparr>rs_count = 2\<rparr>\<rparr>"

lemma RunSession_unanswered:
  assumes "script (cs_run s) = []"
  shows "is_err (fst (RunSession cfg opts now trigger s))"
proof (cases rule: RunSession_cases [of opts trigger s cfg now])
  case (ran plan c1 res s2)
  have "res \<noteq> Inr ()"
  proof
    assume "res = Inr ()"
    with ran(2) obtain build rpcs r2 where "Run (ro_Session opts) build rpcs ((cs_run s)\<lparr>world := c1\<rparr>) = (Inr (), r2)"
      by (auto simp: run_plan_def Let_def split: prod.splits)
    then obtain r1 where "sendInform (ro_Session opts) build ((cs_run s)\<lparr>world := c1\<rparr>) = (Inr (), r1)"
      by (auto simp: Run_def split: prod.splits sum.splits)
    from sendInform_ok [OF this] assms show False by auto
  qed
  with ran(3) show ?thesis by (cases res) simp_all
qed simp

theorem RunSession_failure_loses_nothing_witness:
  "pendingTransferCompletes (c_tracker (world (cs_run
     (snd (RunSession demo_cfg demo_opts demo_time TriggerPeriodic (demo_state [])))))) = [demo_record]"
proof -
  have o: "ro_Session demo_opts = cpe_session demo_cfg False (encOpts demo_session) []"
    by (simp add: demo_opts_def)
  have "is_err (fst (RunSession demo_cfg demo_opts demo_time TriggerPeriodic (demo_state [])))"
    by (rule RunSession_unanswered) (simp add: demo_state_def)
  then obtain e where "RunSession demo_cfg demo_opts demo_time TriggerPeriodic (demo_state []) =
      (Inl e, snd (RunSession demo_cfg demo_opts demo_time TriggerPeriodic (demo_state [])))"
    by (metis is_err_simps(2) old.sum.exhaust prod.collapse)
  from RunSession_failure_loses_nothing [OF o this] show ?thesis
    by (simp add: Let_def demo_state_def demo_cpe_def NewEventTracker_def QueueTransferComplete_def)
qed

definition demo_replies :: "reply list" where
  "demo_replies =
     [Message False (acs_request cwmp11 ''1'' ''InformResponse'' []) io_EOF,
      Message False (acs_request cwmp11 ''2'' ''TransferCompleteResponse'' []) io_EOF, Status204]"

lemma demo_begin:
  "begin_session demo_opts TriggerPeriodic (world (cs_run (demo_state rs))) =
     (Inr \<lparr>sp_events = [event EventPeriodic, event EventBootstrap, event EventTransferComplete],
           sp_transfers = [demo_record], sp_dustates = [],
           sp_builder = \<lparr>deviceIDPaths = ro_DeviceIDPaths demo_opts, parameterLists = [], maxEnvelopes_opt = 1\<rparr>\<rparr>,
      demo_cpe\<lparr>c_tracker := (c_tracker demo_cpe)\<lparr>bootstrapPending := True\<rparr>\<rparr>)"
  by (simp add: begin_session_eq Let_def demo_state_def demo_cpe_def NewEventTracker_def
      QueueTransferComplete_def session_events_def primary_events_def event_def dedupeEvents_def drained_def
      NewBuilder_def demo_opts_def SessionParameterLists_def tree_eval)

lemma demo_Run_ok:
  assumes "acceptVersions s = []" and "build (world r) = Inr im" and "Render im = Inr rendered"
    and "script r = demo_replies"
  shows "fst (Run s build [(''TransferComplete'', body)] r) = Inr ()"
  using assms
  by (simp add: Run_def sendInform_def nextID_def encodeRequest_def WriteRequest_def send_def Let_def
      validateInformResponse_def read_demo sendCPEInitiated_def validateMethodResponse_def
      drain_loop.simps demo_replies_def)

lemma demo_inform_ok:
  "\<exists>im text. Build \<lparr>deviceIDPaths = ro_DeviceIDPaths demo_opts, parameterLists = [], maxEnvelopes_opt = 1\<rparr> demo_time
     [event EventPeriodic, event EventBootstrap, event EventTransferComplete] n demo_tree = Inr im
     \<and> Render im = Inr text"
  by (simp add: Build_def demo_opts_def readDeviceID_def read_id_def collectParameters_def gather_paths.simps
      lists_of_def event_def Render_def writeParameters_def tree_eval)

lemma demo_run_session:
  "fst (RunSession demo_cfg demo_opts demo_time TriggerPeriodic (demo_state demo_replies)) = Inr ()"
proof -
  let ?b = "\<lparr>deviceIDPaths = ro_DeviceIDPaths demo_opts, parameterLists = [], maxEnvelopes_opt = 1\<rparr>"
  let ?es = "[event EventPeriodic, event EventBootstrap, event EventTransferComplete]"
  let ?build = "\<lambda>c. Build ?b demo_time ?es (Count (cs_retry (demo_state demo_replies))) (c_tree c)"
  let ?r = "(cs_run (demo_state demo_replies))\<lparr>world :=
      demo_cpe\<lparr>c_tracker := (c_tracker demo_cpe)\<lparr>bootstrapPending := True\<rparr>\<rparr>\<rparr>"
  obtain im body where "?build (world ?r) = Inr im" "Render im = Inr body"
    using demo_inform_ok [of "Count (cs_retry (demo_state demo_replies))"] by (auto simp: demo_cpe_def)
  then have "fst (Run (ro_Session demo_opts) ?build [(''TransferComplete'', transfer_Render demo_record)] ?r) = Inr ()"
    by (intro demo_Run_ok) (simp_all add: demo_opts_def cpe_session_def demo_state_def)
  then show ?thesis
    by (simp add: RunSession_def demo_begin run_plan_def Let_def split_beta
        adaptTransferCompletes_def adaptDUStateCompletes_def)
qed


theorem retry_without_events_fails_witness:
  "let s = \<lparr>cs_run = \<lparr>world = demo_cpe\<lparr>c_tracker := (NewEventTracker [])\<lparr>bootstrapDone := True\<rparr>\<rparr>,
        script = [Status204], sent = [], next_id = 0\<rparr>, cs_retry = \<lparr>rs_count = 1\<rparr>\<rparr>
   in \<exists>e. RunSession demo_cfg demo_opts demo_time TriggerRetry s = (Inl e, s)"
  unfolding Let_def by (rule retry_without_events_fails) (simp_all add: NewEventTracker_def)

end
