(* ===== verification/SessionRunner.thy ===== *)
theory SessionRunner
  imports RunSession
begin

text \<open>
  The session orchestrator of one CPE, \<^verbatim>\<open>sessionRunner\<close> of \<^verbatim>\<open>cmd/cpe-sim/main.go\<close>.  Every trigger
  source calls \<^verbatim>\<open>request\<close> on a goroutine of its own.  A goroutine that passes the busy check is a
  worker; it is at the start of \<^verbatim>\<open>runOne\<close>, inside a session, or at the head of the loop that drains
  the latch.  The state is shared; each section of code that holds \<^verbatim>\<open>mu\<close>, and each call into
  \<^verbatim>\<open>RunSession\<close>'s three parts, is one step, and steps of different goroutines interleave freely.
  The retry timer of the scheduler is the flag \<open>r_armed\<close>.
\<close>

section \<open>State\<close>

datatype worker = AtRunOne Trigger | InSession session_plan | AtDrain

record runner =
  r_busy :: bool
  r_offline :: bool
  r_deferred :: Trigger
  r_hasDeferred :: bool
  r_armed :: bool
  r_workers :: "worker list"
  r_state :: cwmp_state

section \<open>Operations\<close>

definition triggerPriority :: "Trigger \<Rightarrow> nat" where
  "triggerPriority t =
     (case t of
        TriggerStartup \<Rightarrow> 5
      | TriggerConnectionRequest \<Rightarrow> 4
      | TriggerTransferComplete \<Rightarrow> 3
      | TriggerRetry \<Rightarrow> 2
      | TriggerPeriodic \<Rightarrow> 1
      | _ \<Rightarrow> 0)"

definition setOffline :: "runner \<Rightarrow> runner" where
  "setOffline r = r\<lparr>r_offline := True\<rparr>"

definition setOnline :: "runner \<Rightarrow> runner" where
  "setOnline r = r\<lparr>r_offline := False\<rparr>"

definition tracker_of :: "runner \<Rightarrow> EventTracker" where
  "tracker_of r = c_tracker (world (cs_run (r_state r)))"

definition queue_periodic :: "runner \<Rightarrow> runner" where
  "queue_periodic r = r\<lparr>r_state := (r_state r)\<lparr>cs_run := map_tracker QueuePeriodic (cs_run (r_state r))\<rparr>\<rparr>"

text \<open>The first critical section of \<^verbatim>\<open>request\<close>: latch, or become a worker.\<close>

definition latch :: "Trigger \<Rightarrow> runner \<Rightarrow> runner" where
  "latch trigger r =
     (let higher = triggerPriority (r_deferred r) < triggerPriority trigger;
          loser = (if higher then r_deferred r else trigger);
          r1 = (if r_hasDeferred r \<and> loser = TriggerPeriodic then queue_periodic r else r);
          r2 = (if \<not> r_hasDeferred r \<or> higher then r1\<lparr>r_deferred := trigger\<rparr> else r1)
      in r2\<lparr>r_hasDeferred := True\<rparr>)"

definition request :: "Trigger \<Rightarrow> runner \<Rightarrow> runner" where
  "request trigger r =
     (if r_busy r \<or> r_offline r then latch trigger r
      else r\<lparr>r_busy := True, r_workers := r_workers r @ [AtRunOne trigger]\<rparr>)"

definition cancelPendingRetry :: "runner \<Rightarrow> runner" where
  "cancelPendingRetry r = r\<lparr>r_armed := False\<rparr>"

text \<open>After a failed session: count it and arm the retry timer.\<close>

definition arm_retry :: "(int \<Rightarrow> int) option \<Rightarrow> runner \<Rightarrow> runner" where
  "arm_retry rng r =
     r\<lparr>r_armed := True, r_state := (r_state r)\<lparr>cs_retry := snd (OnFailure rng (cs_retry (r_state r)))\<rparr>\<rparr>"

definition with_cpe :: "Cpe \<Rightarrow> cwmp_state \<Rightarrow> cwmp_state" where
  "with_cpe c s = s\<lparr>cs_run := (cs_run s)\<lparr>world := c\<rparr>\<rparr>"

text \<open>\<^verbatim>\<open>runOne\<close> up to the call of \<^verbatim>\<open>Session.Run\<close>, and from there to its end.\<close>

definition runOne_begin ::
  "RunSessionOptions \<Rightarrow> (int \<Rightarrow> int) option \<Rightarrow> Trigger \<Rightarrow> runner \<Rightarrow> worker \<times> runner" where
  "runOne_begin opts rng trigger r =
     (if trigger = TriggerRetry \<and> Count (cs_retry (r_state r)) = 0 then (AtDrain, r)
      else
        (let r1 = cancelPendingRetry r;
             (p, c) = begin_session opts trigger (world (cs_run (r_state r1)));
             r2 = r1\<lparr>r_state := with_cpe c (r_state r1)\<rparr>
         in case p of
              Inl e \<Rightarrow> (AtDrain, arm_retry rng r2)
            | Inr plan \<Rightarrow> (InSession plan, r2)))"

definition runOne_end ::
  "CpeConfig \<Rightarrow> RunSessionOptions \<Rightarrow> Time \<Rightarrow> (int \<Rightarrow> int) option \<Rightarrow> session_plan \<Rightarrow> runner \<Rightarrow> worker \<times> runner" where
  "runOne_end cfg opts now rng plan r =
     (let (res, s) = run_plan opts now plan (r_state r);
          r1 = r\<lparr>r_state := end_session cfg plan res s\<rparr>
      in (AtDrain, if is_err res then arm_retry rng r1 else r1))"

text \<open>The head of the loop: leave, or take the latched trigger.\<close>

definition drain :: "runner \<Rightarrow> worker option \<times> runner" where
  "drain r =
     (if \<not> r_hasDeferred r \<or> r_offline r then (None, r\<lparr>r_busy := False\<rparr>)
      else (Some (AtRunOne (r_deferred r)), r\<lparr>r_hasDeferred := False\<rparr>))"

definition put_worker :: "worker list \<Rightarrow> worker option \<Rightarrow> worker list \<Rightarrow> runner \<Rightarrow> runner" where
  "put_worker before w after r =
     r\<lparr>r_workers := before @ (case w of None \<Rightarrow> [] | Some w' \<Rightarrow> [w']) @ after\<rparr>"

section \<open>Steps\<close>

inductive runner_step :: "CpeConfig \<Rightarrow> RunSessionOptions \<Rightarrow> runner \<Rightarrow> runner \<Rightarrow> bool" for cfg opts where
  step_request: "runner_step cfg opts r (request trigger r)"
| step_timer: "r_armed r \<Longrightarrow> runner_step cfg opts r (request TriggerRetry (cancelPendingRetry r))"
| step_offline: "runner_step cfg opts r (setOffline r)"
| step_online: "runner_step cfg opts r (setOnline r)"
| step_begin:
    "r_workers r = before @ AtRunOne trigger # after \<Longrightarrow> runOne_begin opts rng trigger r = (w, r') \<Longrightarrow>
     runner_step cfg opts r (put_worker before (Some w) after r')"
| step_end:
    "r_workers r = before @ InSession plan # after \<Longrightarrow> runOne_end cfg opts now rng plan r = (w, r') \<Longrightarrow>
     runner_step cfg opts r (put_worker before (Some w) after r')"
| step_drain:
    "r_workers r = before @ AtDrain # after \<Longrightarrow> drain r = (w, r') \<Longrightarrow>
     runner_step cfg opts r (put_worker before w after r')"

inductive_cases runner_step_cases: "runner_step cfg opts r r'"

definition initial :: "cwmp_state \<Rightarrow> runner" where
  "initial s = \<lparr>r_busy = False, r_offline = False, r_deferred = TriggerStartup, r_hasDeferred = False,
     r_armed = False, r_workers = [], r_state = s\<rparr>"

section \<open>Invariants\<close>

definition serial :: "runner \<Rightarrow> bool" where
  "serial r \<longleftrightarrow> length (r_workers r) \<le> 1 \<and> (r_busy r \<longleftrightarrow> r_workers r \<noteq> [])"

definition retry_kept :: "runner \<Rightarrow> bool" where
  "retry_kept r \<longleftrightarrow>
     (0 < Count (cs_retry (r_state r)) \<longrightarrow>
        r_armed r \<or> r_hasDeferred r \<or> (\<exists>t. AtRunOne t \<in> set (r_workers r)) \<or> (\<exists>p. InSession p \<in> set (r_workers r)))"

lemma latch_sel [simp]:
  "r_busy (latch t r) = r_busy r" "r_workers (latch t r) = r_workers r" "r_offline (latch t r) = r_offline r"
  "r_armed (latch t r) = r_armed r" "r_hasDeferred (latch t r)" "cs_retry (r_state (latch t r)) = cs_retry (r_state r)"
  by (simp_all add: latch_def queue_periodic_def Let_def)

lemma request_serial: "serial r \<Longrightarrow> serial (request t r)"
  by (auto simp: serial_def request_def)

lemma request_retry: "retry_kept r \<Longrightarrow> retry_kept (request t r)"
  by (auto simp: retry_kept_def request_def)

lemma runOne_begin_sel:
  assumes "runOne_begin opts rng t r = (w, r')"
  shows "r_busy r' = r_busy r" "r_hasDeferred r' = r_hasDeferred r" "r_deferred r' = r_deferred r"
    "\<exists>t'. w = AtRunOne t' \<Longrightarrow> False"
    "w = AtDrain \<Longrightarrow> r_armed r' \<or> Count (cs_retry (r_state r')) = 0"
  using assms
  by (auto simp: runOne_begin_def cancelPendingRetry_def arm_retry_def Let_def split: if_splits prod.splits sum.splits)

lemma runOne_end_sel:
  assumes "runOne_end cfg opts now rng plan r = (w, r')"
  shows "r_busy r' = r_busy r" "r_hasDeferred r' = r_hasDeferred r" "r_deferred r' = r_deferred r" "w = AtDrain"
    "r_armed r' \<or> Count (cs_retry (r_state r')) = 0"
  using assms
  by (auto simp: runOne_end_def arm_retry_def end_session_def Count_def Retry_Reset_def Let_def
      split: prod.splits sum.splits if_splits)

lemma step_serial: "runner_step cfg opts r r' \<Longrightarrow> serial r \<Longrightarrow> serial r'"
proof (induction rule: runner_step.induct)
  case (step_timer r)
  then have "serial (cancelPendingRetry r)" by (simp add: serial_def cancelPendingRetry_def)
  then show ?case by (rule request_serial)
next
  case (step_begin r before trigger after rng w r')
  with runOne_begin_sel(1) [OF step_begin(2)] show ?case by (auto simp: serial_def put_worker_def)
next
  case (step_end r before plan after now rng w r')
  with runOne_end_sel(1) [OF step_end(2)] show ?case by (auto simp: serial_def put_worker_def)
next
  case (step_drain r before after w r')
  then show ?case by (auto simp: serial_def put_worker_def drain_def split: if_splits)
qed (auto simp: request_serial, auto simp: serial_def setOffline_def setOnline_def)

lemma step_retry: "runner_step cfg opts r r' \<Longrightarrow> retry_kept r \<Longrightarrow> retry_kept r'"
proof (induction rule: runner_step.induct)
  case (step_timer r)
  then show ?case
    by (cases "r_busy r \<or> r_offline r") (auto simp: retry_kept_def request_def cancelPendingRetry_def)
next
  case (step_begin r before trigger after rng w r')
  with runOne_begin_sel [OF step_begin(2)] show ?case
    by (cases w) (auto simp: retry_kept_def put_worker_def)
next
  case (step_end r before plan after now rng w r')
  with runOne_end_sel [OF step_end(2)] show ?case by (auto simp: retry_kept_def put_worker_def)
next
  case (step_drain r before after w r')
  then show ?case by (auto simp: retry_kept_def put_worker_def drain_def split: if_splits)
qed (auto simp: request_retry, auto simp: retry_kept_def setOffline_def setOnline_def)

lemma reachable_serial: "(runner_step cfg opts)\<^sup>*\<^sup>* r r' \<Longrightarrow> serial r \<Longrightarrow> serial r'"
  by (induction rule: rtranclp_induct) (auto intro: step_serial)

lemma reachable_retry: "(runner_step cfg opts)\<^sup>*\<^sup>* r r' \<Longrightarrow> retry_kept r \<Longrightarrow> retry_kept r'"
  by (induction rule: rtranclp_induct) (auto intro: step_retry)

lemma latch_deferred:
  "r_deferred (latch t r) =
     (if r_hasDeferred r \<and> triggerPriority t \<le> triggerPriority (r_deferred r) then r_deferred r else t)"
  by (auto simp: latch_def queue_periodic_def Let_def)

lemma latch_tracker:
  "tracker_of (latch t r) =
     (if r_hasDeferred r
         \<and> (if triggerPriority (r_deferred r) < triggerPriority t then r_deferred r else t) = TriggerPeriodic
      then QueuePeriodic (tracker_of r) else tracker_of r)"
  by (auto simp: latch_def queue_periodic_def map_tracker_def tracker_of_def Let_def)

section \<open>Properties\<close>

text \<open>C1: However the triggers, the retry timer, the dark window and the steps of the goroutines
  interleave, at most one goroutine is past the busy check, so that a CPE never runs two sessions
  at once; and the runner is marked busy exactly while there is such a goroutine.\<close>

theorem one_session_at_a_time:
  assumes "(runner_step cfg opts)\<^sup>*\<^sup>* (initial s) r"
  shows "length (r_workers r) \<le> 1 \<and> (r_busy r \<longleftrightarrow> r_workers r \<noteq> [])"
  using reachable_serial [OF assms] by (simp add: serial_def initial_def)

text \<open>C18: A failed session is never forgotten: in every reachable state with a retry count above zero
  and no session on its way, the retry timer is armed or a trigger waits in the latch.\<close>

theorem failed_session_is_retried:
  assumes "(runner_step cfg opts)\<^sup>*\<^sup>* (initial s) r" and "Count (cs_retry s) = 0"
    and "0 < Count (cs_retry (r_state r))" and "r_workers r = []"
  shows "r_armed r \<or> r_hasDeferred r"
  using reachable_retry [OF assms(1)] assms(2-4) by (simp add: retry_kept_def initial_def)

text \<open>Triggers that arrive during a session coalesce to one of the highest priority, whatever
  their order, and every periodic tick among them that does not win is queued as an event.\<close>

theorem latch_coalesces:
  assumes "ts \<noteq> []" and "\<not> r_hasDeferred r"
  shows "let r' = fold latch ts r in
    r_hasDeferred r' \<and> r_deferred r' \<in> set ts
    \<and> (\<forall>t \<in> set ts. triggerPriority t \<le> triggerPriority (r_deferred r'))
    \<and> (TriggerPeriodic \<in> set ts \<longrightarrow>
         r_deferred r' = TriggerPeriodic \<or> event EventPeriodic \<in> set (pendingEvents (tracker_of r')))"
proof -
  have step: "r_hasDeferred r' \<and> r_deferred r' \<in> insert (r_deferred r) (set ts)
      \<and> (\<forall>t \<in> insert (r_deferred r) (set ts). triggerPriority t \<le> triggerPriority (r_deferred r'))
      \<and> (TriggerPeriodic \<in> insert (r_deferred r) (set ts) \<longrightarrow>
           r_deferred r' = TriggerPeriodic \<or> event EventPeriodic \<in> set (pendingEvents (tracker_of r')))
      \<and> set (pendingEvents (tracker_of r)) \<subseteq> set (pendingEvents (tracker_of r'))"
    if "r_hasDeferred r" "r' = fold latch ts r" for ts r r'
    using that
  proof (induction ts arbitrary: r)
    case (Cons t ts)
    have q: "set (pendingEvents (tracker_of r)) \<subseteq> set (pendingEvents (tracker_of (latch t r)))"
      by (auto simp: latch_tracker QueuePeriodic_def requeueEvent_def)
    have p: "TriggerPeriodic \<in> {t, r_deferred r} \<Longrightarrow> r_deferred (latch t r) = TriggerPeriodic
        \<or> event EventPeriodic \<in> set (pendingEvents (tracker_of (latch t r)))"
      using Cons.prems(1)
      by (auto simp: latch_tracker latch_deferred QueuePeriodic_def requeueEvent_def)
    have d: "r_deferred (latch t r) \<in> {t, r_deferred r}"
      "triggerPriority t \<le> triggerPriority (r_deferred (latch t r))"
      "triggerPriority (r_deferred r) \<le> triggerPriority (r_deferred (latch t r))"
      using Cons.prems(1) by (auto simp: latch_deferred)
    have "r' = fold latch ts (latch t r)" using Cons.prems(2) by simp
    note ih = Cons.IH [OF latch_sel(5) this]
    then have h: "r_hasDeferred r'" "r_deferred r' \<in> insert (r_deferred (latch t r)) (set ts)"
      "triggerPriority (r_deferred (latch t r)) \<le> triggerPriority (r_deferred r')"
      "\<forall>t \<in> set ts. triggerPriority t \<le> triggerPriority (r_deferred r')"
      "set (pendingEvents (tracker_of (latch t r))) \<subseteq> set (pendingEvents (tracker_of r'))" by simp_all
    have "r_deferred r' = TriggerPeriodic \<or> event EventPeriodic \<in> set (pendingEvents (tracker_of r'))"
      if "TriggerPeriodic \<in> insert (r_deferred r) (set (t # ts))"
    proof (cases "TriggerPeriodic \<in> set ts")
      case False
      with that have "TriggerPeriodic \<in> {t, r_deferred r}" by auto
      from p [OF this] show ?thesis
      proof
        assume "r_deferred (latch t r) = TriggerPeriodic"
        with ih show ?thesis by simp
      next
        assume "event EventPeriodic \<in> set (pendingEvents (tracker_of (latch t r)))"
        with h(5) show ?thesis by blast
      qed
    qed (use ih in simp)
    moreover have "r_deferred r' \<in> insert (r_deferred r) (set (t # ts))" using h(2) d(1) by auto
    moreover have "\<forall>t' \<in> insert (r_deferred r) (set (t # ts)). triggerPriority t' \<le> triggerPriority (r_deferred r')"
      using h(3,4) d(2,3) by (auto intro: le_trans)
    ultimately show ?case using h(1,5) q by blast
  qed simp
  obtain t ts' where ts: "ts = t # ts'" using assms(1) by (cases ts) auto
  have "r_deferred (latch t r) = t" using assms(2) by (simp add: latch_deferred)
  with step [of "latch t r" "fold latch ts r" ts'] ts show ?thesis by (simp add: Let_def)
qed

text \<open>The same does not hold for the other triggers of low priority.  A VALUE CHANGE trigger (or
  that of a finished software module operation) displaced by a connection request leaves no event
  behind: the session that follows announces the connection request alone, and its success
  forgets the changed parameters.\<close>

theorem displaced_trigger_lost:
  assumes "r_busy r" and "\<not> r_hasDeferred r"
    and "trigger \<in> {TriggerValueChange, TriggerDUStateChangeComplete}"
    and "bootstrapDone (tracker_of r)" and "pendingEvents (tracker_of r) = []"
    and "pendingTransferCompletes (tracker_of r) = []"
  shows "let r' = request TriggerConnectionRequest (request trigger r);
             (events, t) = NextSessionEvents (r_deferred r') (tracker_of r') in
    r_hasDeferred r' \<and> events = [event EventConnectionRequest] \<and> pendingEvents t = []
    \<and> pendingValueChanges (Acknowledge t) = []"
proof -
  let ?r = "latch TriggerConnectionRequest (latch trigger r)"
  have b: "request TriggerConnectionRequest (request trigger r) = ?r"
    using assms(1) by (simp add: request_def)
  have "tracker_of ?r = tracker_of r" "r_deferred ?r = TriggerConnectionRequest"
    using assms(2,3) by (auto simp: latch_tracker latch_deferred triggerPriority_def)
  then show ?thesis
    using assms(4-6)
    by (simp add: b Let_def NextSessionEvents_eq session_events_def primary_events_def dedupeEvents_def
        drained_def Acknowledge_def split_beta)
qed

section \<open>A retry with nothing to redeliver\<close>

definition idle_failed :: "runner \<Rightarrow> bool" where
  "idle_failed r \<longleftrightarrow> r_armed r \<and> \<not> r_busy r \<and> \<not> r_offline r \<and> \<not> r_hasDeferred r \<and> r_workers r = []
     \<and> 0 < Count (cs_retry (r_state r)) \<and> bootstrapDone (tracker_of r)
     \<and> pendingEvents (tracker_of r) = [] \<and> pendingTransferCompletes (tracker_of r) = []"

lemma empty_retry_cycle:
  assumes "idle_failed r" and "Count (cs_retry (r_state r)) + 1 < 2 ^ 64"
  shows "\<exists>r'. (runner_step cfg opts)\<^sup>*\<^sup>* r r' \<and> idle_failed r' \<and> cs_run (r_state r') = cs_run (r_state r)
    \<and> Count (cs_retry (r_state r')) = Count (cs_retry (r_state r)) + 1"
proof -
  define r1 where "r1 = r\<lparr>r_armed := False, r_busy := True, r_workers := [AtRunOne TriggerRetry]\<rparr>"
  define s2 where "s2 = (r_state r)\<lparr>cs_retry := snd (OnFailure None (cs_retry (r_state r)))\<rparr>"
  define r2 where "r2 = r1\<lparr>r_armed := True, r_state := s2, r_workers := [AtDrain]\<rparr>"
  define r3 where "r3 = r2\<lparr>r_busy := False, r_workers := []\<rparr>"
  have "r1 = request TriggerRetry (cancelPendingRetry r)"
    using assms(1) by (simp add: idle_failed_def request_def cancelPendingRetry_def r1_def)
  then have s1: "runner_step cfg opts r r1"
    using assms(1) step_timer [of r cfg opts] by (simp add: idle_failed_def)
  let ?c = "world (cs_run (r_state r))"
  have "dedupeEvents (session_events TriggerRetry (c_tracker ?c)) = []"
    using assms(1) by (simp add: idle_failed_def tracker_of_def session_events_def dedupeEvents_def)
  moreover have "drained (c_tracker ?c) = c_tracker ?c"
    using assms(1) by (cases "c_tracker ?c") (simp add: idle_failed_def tracker_of_def drained_def)
  ultimately have "\<exists>e. begin_session opts TriggerRetry ?c = (Inl e, ?c)"
    by (simp add: begin_session_eq Let_def)
  then have "runOne_begin opts None TriggerRetry r1 = (AtDrain, r1\<lparr>r_armed := True, r_state := s2\<rparr>)"
    using assms(1)
    by (auto simp: runOne_begin_def r1_def cancelPendingRetry_def arm_retry_def with_cpe_def s2_def idle_failed_def)
  from step_begin [of r1 "[]" TriggerRetry "[]", OF _ this, of cfg]
  have "runner_step cfg opts r1 r2" by (simp add: r1_def r2_def put_worker_def)
  moreover have "runner_step cfg opts r2 r3"
    using step_drain [of r2 "[]" "[]" None "r2\<lparr>r_busy := False\<rparr>" cfg opts] assms(1)
    by (simp add: r2_def r3_def r1_def drain_def put_worker_def idle_failed_def)
  ultimately have "(runner_step cfg opts)\<^sup>*\<^sup>* r r3"
    using s1 by (meson rtranclp.rtrancl_into_rtrancl rtranclp.rtrancl_refl)
  moreover have "Count (cs_retry s2) = Count (cs_retry (r_state r)) + 1"
    using assms(2) by (simp add: s2_def Count_def OnFailure_def Let_def)
  ultimately show ?thesis
    using assms(1)
    by (intro exI [of _ r3]) (auto simp: idle_failed_def r3_def r2_def r1_def s2_def tracker_of_def)
qed

text \<open>When the failed session was the answer to a connection request and nothing else is owed, the
  retries go on without end and without contact: after any number of them the CPE has sent nothing,
  the retry count has grown by that number and the timer is armed again.\<close>

theorem empty_retries_never_end:
  assumes "idle_failed r" and "Count (cs_retry (r_state r)) + n < 2 ^ 64"
  shows "\<exists>r'. (runner_step cfg opts)\<^sup>*\<^sup>* r r' \<and> r_armed r' \<and> cs_run (r_state r') = cs_run (r_state r)
    \<and> Count (cs_retry (r_state r')) = Count (cs_retry (r_state r)) + n"
proof -
  have "\<exists>r'. (runner_step cfg opts)\<^sup>*\<^sup>* r r' \<and> idle_failed r' \<and> cs_run (r_state r') = cs_run (r_state r)
    \<and> Count (cs_retry (r_state r')) = Count (cs_retry (r_state r)) + n"
    using assms(2)
  proof (induction n)
    case 0
    show ?case using assms(1) by (intro exI [of _ r]) simp
  next
    case (Suc n)
    then obtain r1 where r1: "(runner_step cfg opts)\<^sup>*\<^sup>* r r1" "idle_failed r1" "cs_run (r_state r1) = cs_run (r_state r)"
      "Count (cs_retry (r_state r1)) = Count (cs_retry (r_state r)) + n" by auto
    then have "Count (cs_retry (r_state r1)) + 1 < 2 ^ 64" using Suc.prems by simp
    from empty_retry_cycle [OF r1(2) this, of cfg opts] r1 show ?case
      by (metis add_Suc_right Suc_eq_plus1 rtranclp_trans)
  qed
  then show ?thesis by (auto simp: idle_failed_def)
qed

section \<open>Witnesses\<close>

definition demo_runner :: runner where
  "demo_runner = (initial (demo_state []))\<lparr>r_busy := True, r_workers := [AtRunOne TriggerPeriodic]\<rparr>"

lemma demo_runner_reachable: "(runner_step demo_cfg demo_opts)\<^sup>*\<^sup>* (initial (demo_state [])) demo_runner"
proof -
  have "request TriggerPeriodic (initial (demo_state [])) = demo_runner"
    by (simp add: request_def initial_def demo_runner_def)
  then show ?thesis using step_request [of demo_cfg demo_opts "initial (demo_state [])" TriggerPeriodic] by auto
qed

theorem one_session_at_a_time_witness: "length (r_workers demo_runner) \<le> 1"
  using one_session_at_a_time [OF demo_runner_reachable] by blast

definition fresh_state :: cwmp_state where
  "fresh_state = (demo_state [])\<lparr>cs_retry := \<lparr>rs_count = 0\<rparr>\<rparr>"

text \<open>A session nobody answers: the three steps from the request to the end.\<close>

lemma demo_failed:
  "\<exists>r. (runner_step demo_cfg demo_opts)\<^sup>*\<^sup>* (initial fresh_state) r
     \<and> 0 < Count (cs_retry (r_state r)) \<and> r_workers r = []"
proof -
  define r1 where "r1 = (initial fresh_state)\<lparr>r_busy := True, r_workers := [AtRunOne TriggerPeriodic]\<rparr>"
  have a: "runner_step demo_cfg demo_opts (initial fresh_state) r1"
    using step_request [of demo_cfg demo_opts "initial fresh_state" TriggerPeriodic]
    by (simp add: request_def initial_def r1_def)
  have w: "world (cs_run fresh_state) = world (cs_run (demo_state []))" by (simp add: fresh_state_def)
  obtain plan c where b: "begin_session demo_opts TriggerPeriodic (world (cs_run fresh_state)) = (Inr plan, c)"
    unfolding w demo_begin by blast
  define r2 where "r2 = r1\<lparr>r_armed := False, r_state := with_cpe c fresh_state, r_workers := [InSession plan]\<rparr>"
  have "runOne_begin demo_opts None TriggerPeriodic r1 =
      (InSession plan, r1\<lparr>r_armed := False, r_state := with_cpe c fresh_state\<rparr>)"
    using b by (simp add: runOne_begin_def r1_def cancelPendingRetry_def initial_def)
  from step_begin [of r1 "[]" TriggerPeriodic "[]", OF _ this, of demo_cfg]
  have b2: "runner_step demo_cfg demo_opts r1 r2" by (simp add: r1_def r2_def put_worker_def)
  obtain res s3 where run: "run_plan demo_opts demo_time plan (r_state r2) = (res, s3)"
    by (cases "run_plan demo_opts demo_time plan (r_state r2)")
  have "is_err res"
    using RunSession_unanswered [of fresh_state demo_cfg demo_opts demo_time TriggerPeriodic] b run
    by (simp add: RunSession_def fresh_state_def demo_state_def r2_def with_cpe_def)
  then obtain e where e: "res = Inl e" by (cases res) auto
  have s3: "cs_retry s3 = \<lparr>rs_count = 0\<rparr>"
    using arg_cong [OF run, of "\<lambda>x. cs_retry (snd x)"]
    by (simp add: run_plan_def Let_def split_beta r2_def with_cpe_def fresh_state_def)
  define r3 where "r3 = snd (runOne_end demo_cfg demo_opts demo_time None plan r2)"
  have x: "runOne_end demo_cfg demo_opts demo_time None plan r2 = (AtDrain, r3)"
    by (simp add: runOne_end_def run e r3_def Let_def)
  have r3: "Count (cs_retry (r_state r3)) = 1" "r_hasDeferred r3 = False" "r_offline r3 = False"
    unfolding r3_def runOne_end_def run
    by (simp_all add: e arm_retry_def end_session_def s3 Count_def OnFailure_def Let_def r2_def r1_def initial_def)
  from step_end [of r2 "[]" plan "[]", OF _ x]
  have c3: "runner_step demo_cfg demo_opts r2 (put_worker [] (Some AtDrain) [] r3)"
    by (simp add: r2_def)
  define r4 where "r4 = put_worker [] None [] (r3\<lparr>r_workers := [AtDrain], r_busy := False\<rparr>)"
  have d: "runner_step demo_cfg demo_opts (put_worker [] (Some AtDrain) [] r3) r4"
    using step_drain [of "put_worker [] (Some AtDrain) [] r3" "[]" "[]" None
        "(put_worker [] (Some AtDrain) [] r3)\<lparr>r_busy := False\<rparr>" demo_cfg demo_opts] r3
    by (simp add: put_worker_def drain_def r4_def)
  have "(runner_step demo_cfg demo_opts)\<^sup>*\<^sup>* (initial fresh_state) r4"
    using a b2 c3 d by (meson rtranclp.rtrancl_into_rtrancl rtranclp.rtrancl_refl)
  moreover have "0 < Count (cs_retry (r_state r4))" "r_workers r4 = []"
    using r3 by (simp_all add: r4_def put_worker_def)
  ultimately show ?thesis by blast
qed

theorem failed_session_is_retried_witness:
  "\<exists>r. (runner_step demo_cfg demo_opts)\<^sup>*\<^sup>* (initial fresh_state) r
     \<and> 0 < Count (cs_retry (r_state r)) \<and> (r_armed r \<or> r_hasDeferred r)"
proof -
  obtain r where r: "(runner_step demo_cfg demo_opts)\<^sup>*\<^sup>* (initial fresh_state) r"
    "0 < Count (cs_retry (r_state r))" "r_workers r = []" using demo_failed by blast
  have "Count (cs_retry fresh_state) = 0" by (simp add: fresh_state_def Count_def)
  from failed_session_is_retried [OF r(1) this r(2,3)] r show ?thesis by blast
qed

theorem latch_coalesces_witness:
  "event EventPeriodic \<in> set (pendingEvents (tracker_of
     (fold latch [TriggerPeriodic, TriggerConnectionRequest] demo_runner)))"
  using latch_coalesces [of "[TriggerPeriodic, TriggerConnectionRequest]" demo_runner]
  by (simp add: Let_def demo_runner_def initial_def latch_deferred triggerPriority_def)

definition quiet_runner :: runner where
  "quiet_runner = demo_runner\<lparr>r_state := \<lparr>cs_run = \<lparr>world = demo_cpe\<lparr>c_tracker :=
     (NewEventTracker [])\<lparr>bootstrapDone := True, pendingValueChanges := [''Device.Port'']\<rparr>\<rparr>,
     script = [Status204], sent = [], next_id = 0\<rparr>, cs_retry = \<lparr>rs_count = 1\<rparr>\<rparr>\<rparr>"

theorem displaced_trigger_lost_witness:
  "fst (NextSessionEvents (r_deferred (request TriggerConnectionRequest (request TriggerValueChange quiet_runner)))
      (tracker_of (request TriggerConnectionRequest (request TriggerValueChange quiet_runner)))) =
     [event EventConnectionRequest]"
  using displaced_trigger_lost [of quiet_runner TriggerValueChange]
  by (simp add: quiet_runner_def demo_runner_def initial_def tracker_of_def NewEventTracker_def Let_def split_beta)

theorem empty_retries_never_end_witness:
  "\<exists>r'. (runner_step demo_cfg demo_opts)\<^sup>*\<^sup>*
       (quiet_runner\<lparr>r_busy := False, r_workers := [], r_armed := True\<rparr>) r'
     \<and> Count (cs_retry (r_state r')) = 1001"
  using empty_retries_never_end [of "quiet_runner\<lparr>r_busy := False, r_workers := [], r_armed := True\<rparr>" 1000
      demo_cfg demo_opts]
  by (auto simp: quiet_runner_def demo_runner_def initial_def idle_failed_def tracker_of_def NewEventTracker_def
      Count_def)

end
