(* ===== verification/Scheduler.thy ===== *)
theory Scheduler
  imports ParamTree Retry
begin

text \<open>
  The periodic inform timer, \<^verbatim>\<open>src/internal/cwmp/scheduler/scheduler.go\<close>.  An instant is a number of
  nanoseconds, a duration too; a timer is armed for an instant.  The drain goroutine of an entry
  waits for one of three things, a change signal, its timer and the end of the scheduler; each
  round of its loop is one step.  The trees are written by others, so every step takes the tree as
  it finds it.  The one-shots of \<^verbatim>\<open>ScheduleOnce\<close> are the retry timer of theory \<open>SessionRunner\<close>.
\<close>

section \<open>Time\<close>

definition days_before_year :: "int \<Rightarrow> int" where
  "days_before_year y = 365 * (y - 1) + (y - 1) div 4 - (y - 1) div 100 + (y - 1) div 400"

definition days_before_month :: "int \<Rightarrow> int \<Rightarrow> int" where
  "days_before_month y m = sum_list (map (\<lambda>k. days_in k y) [1 .. m - 1])"

definition abs_nanos :: "gotime \<times> int \<Rightarrow> int" where
  "abs_nanos p =
     (let t = fst p in
      ((days_before_year (t_year t) + days_before_month (t_year t) (t_month t) + t_day t - 1) * 86400
       + t_hour t * 3600 + t_min t * 60 + t_sec t - snd p) * Second + t_nsec t)"

text \<open>\<^verbatim>\<open>Time.Sub\<close> returns the largest or smallest duration when the difference does not fit.\<close>

definition Sub :: "int \<Rightarrow> int \<Rightarrow> int" where
  "Sub t u = max (- (2 ^ 63)) (min (2 ^ 63 - 1) (t - u))"

text \<open>Go's remainder has the sign of the dividend.\<close>

definition go_rem :: "int \<Rightarrow> int \<Rightarrow> int" where
  "go_rem a b = (if a < 0 then - ((- a) mod b) else a mod b)"

section \<open>State\<close>

record PeriodicInformPaths =
  pp_Interval :: string
  pp_Enable :: string
  pp_Time :: string

datatype Timer = NoTimer | Stopped | Armed int

text \<open>The jitter of an entry: \<^const>\<open>None\<close> without a fraction or a random source, otherwise the product
  of a duration and the fraction, truncated, and the function \<^verbatim>\<open>Int63n\<close>.\<close>

type_synonym jitter = "((int \<Rightarrow> int) \<times> (int \<Rightarrow> int)) option"

record cpeEntry =
  ce_paths :: PeriodicInformPaths
  ce_jitter :: jitter
  ce_phaseRef :: int
  ce_hasPhase :: bool
  ce_timer :: Timer
  ce_interval :: int
  ce_enabled :: bool
  ce_closed :: bool
  ce_change :: bool
  ce_draining :: bool

record Scheduler =
  cpes :: "(string \<times> cpeEntry) list"
  sc_started :: bool
  sc_stopped :: bool

definition NewScheduler :: Scheduler where
  "NewScheduler = \<lparr>cpes = [], sc_started = False, sc_stopped = False\<rparr>"

section \<open>One entry\<close>

definition ParseBool :: "string \<Rightarrow> bool option" where
  "ParseBool s =
     (if s \<in> set [''1'', ''t'', ''T'', ''TRUE'', ''true'', ''True''] then Some True
      else if s \<in> set [''0'', ''f'', ''F'', ''FALSE'', ''false'', ''False''] then Some False
      else None)"

text \<open>The phase anchor of the leaf's text: none for an empty or unparseable text and for a time in
  year one.\<close>

definition phase_of :: "string \<Rightarrow> int option" where
  "phase_of text =
     (let raw = TrimSpace text in
      if raw = '''' then None
      else (case parse_rfc3339 raw of
              None \<Rightarrow> None
            | Some p \<Rightarrow>
                if abs_nanos p \<noteq> 0 \<and> 1 < t_year (fst p) then Some (abs_nanos p) else None))"

definition refreshFromTree :: "Tree \<Rightarrow> cpeEntry \<Rightarrow> goerr + cpeEntry" where
  "refreshFromTree t e =
     (case Get (pp_Interval (ce_paths e)) t of
        Inl err \<Rightarrow> Inl (Errorf ''read %s: %w'' [ArgS (pp_Interval (ce_paths e)), ArgW err])
      | Inr iv \<Rightarrow>
          (case ParseUint 32 (Raw iv) of
             None \<Rightarrow> Inl (Errorf ''parse %s=%q'' [ArgS (pp_Interval (ce_paths e)), ArgS (Raw iv)])
           | Some secs \<Rightarrow>
               (let interval = (if int secs * Second < Second then Second else int secs * Second) in
                case Get (pp_Enable (ce_paths e)) t of
                  Inl err \<Rightarrow> Inl (Errorf ''read %s: %w'' [ArgS (pp_Enable (ce_paths e)), ArgW err])
                | Inr ev \<Rightarrow>
                    (let enabled = (case ParseBool (Raw ev) of None \<Rightarrow> False | Some b \<Rightarrow> b);
                         store = (\<lambda>phase. e\<lparr>ce_interval := interval, ce_enabled := enabled,
                                    ce_phaseRef := (case phase of None \<Rightarrow> 0 | Some p \<Rightarrow> p),
                                    ce_hasPhase := (phase \<noteq> None)\<rparr>)
                     in if pp_Time (ce_paths e) = '''' then Inr (store None)
                        else (case Get (pp_Time (ce_paths e)) t of
                                Inl err \<Rightarrow> Inl (Errorf ''read %s: %w'' [ArgS (pp_Time (ce_paths e)), ArgW err])
                              | Inr tv \<Rightarrow> Inr (store (phase_of (Raw tv))))))))"

definition nextDelayLocked :: "int \<Rightarrow> cpeEntry \<Rightarrow> int" where
  "nextDelayLocked now e =
     (if ce_hasPhase e \<and> 0 < ce_interval e then
        (let r = go_rem (Sub now (ce_phaseRef e)) (ce_interval e);
             elapsed = (if r < 0 then r + ce_interval e else r);
             delay = ce_interval e - elapsed
         in if delay < 1 then ce_interval e else delay)
      else
        (case ce_jitter e of
           None \<Rightarrow> ce_interval e
         | Some (mul, int63n) \<Rightarrow>
             (let span = mul (ce_interval e) in
              if span \<le> 0 then ce_interval e
              else (let delta = int63n (2 * span + 1) - span;
                        out = ce_interval e + delta
                    in if out < 1 then 1 else out))))"

definition stopTimerLocked :: "cpeEntry \<Rightarrow> cpeEntry" where
  "stopTimerLocked e = (if ce_timer e = NoTimer then e else e\<lparr>ce_timer := Stopped\<rparr>)"

definition armTimerLocked :: "int \<Rightarrow> cpeEntry \<Rightarrow> cpeEntry" where
  "armTimerLocked now e =
     (if \<not> ce_enabled e then stopTimerLocked e
      else e\<lparr>ce_timer := Armed (now + nextDelayLocked now e)\<rparr>)"

text \<open>An entry whose tree cannot be read at the start gets no goroutine.\<close>

definition armEntry :: "int \<Rightarrow> Tree \<Rightarrow> cpeEntry \<Rightarrow> cpeEntry" where
  "armEntry now t e =
     (case refreshFromTree t e of
        Inl _ \<Rightarrow> e
      | Inr e' \<Rightarrow> (armTimerLocked now e')\<lparr>ce_draining := True\<rparr>)"

text \<open>The three branches of the loop of \<^verbatim>\<open>drain\<close>.\<close>

definition drain_done :: "cpeEntry \<Rightarrow> cpeEntry" where
  "drain_done e = (stopTimerLocked e)\<lparr>ce_closed := True, ce_draining := False\<rparr>"

definition drain_change :: "int \<Rightarrow> Tree \<Rightarrow> cpeEntry \<Rightarrow> cpeEntry" where
  "drain_change now t e =
     (let e1 = e\<lparr>ce_change := False\<rparr> in
      case refreshFromTree t e1 of
        Inl _ \<Rightarrow> e1
      | Inr e2 \<Rightarrow> armTimerLocked now (stopTimerLocked e2))"

definition drain_tick :: "int \<Rightarrow> Tree \<Rightarrow> cpeEntry \<Rightarrow> cpeEntry" where
  "drain_tick now t e =
     (let e1 = e\<lparr>ce_timer := Stopped\<rparr>;
          e2 = (case refreshFromTree t e1 of Inl _ \<Rightarrow> e1 | Inr e' \<Rightarrow> e')
      in armTimerLocked now e2)"

section \<open>The scheduler\<close>

text \<open>A registration.  The tree is passed to the operations as it is at the time, so of the pointers to
  the tree and to the callback only whether they are nil is kept; a positive jitter fraction is given
  by its product with a duration, the random source by its \<^verbatim>\<open>Int63n\<close>.\<close>

record Registration =
  rg_CPEID :: string
  rg_hasTree :: bool
  rg_Paths :: PeriodicInformPaths
  rg_hasOnTick :: bool
  rg_RNG :: "(int \<Rightarrow> int) option"
  rg_JitterPct :: "(int \<Rightarrow> int) option"

definition jitter_of :: "Registration \<Rightarrow> jitter" where
  "jitter_of reg =
     (case (rg_JitterPct reg, rg_RNG reg) of (Some mul, Some int63n) \<Rightarrow> Some (mul, int63n) | _ \<Rightarrow> None)"

definition new_entry :: "Registration \<Rightarrow> cpeEntry" where
  "new_entry reg =
     \<lparr>ce_paths = rg_Paths reg, ce_jitter = jitter_of reg, ce_phaseRef = 0, ce_hasPhase = False,
      ce_timer = NoTimer, ce_interval = 0, ce_enabled = False, ce_closed = False, ce_change = False,
      ce_draining = False\<rparr>"

definition sched_err :: "string \<Rightarrow> goerr" where
  "sched_err text = Errorf (''scheduler.Schedule: '' @ text) []"

definition Schedule :: "int \<Rightarrow> Tree \<Rightarrow> Registration \<Rightarrow> Scheduler \<Rightarrow> (goerr + unit) \<times> Scheduler" where
  "Schedule now t reg s =
     (if rg_CPEID reg = '''' then (Inl (sched_err ''CPEID is required''), s)
      else if \<not> rg_hasTree reg then (Inl (sched_err ''Tree is required''), s)
      else if pp_Interval (rg_Paths reg) = '''' \<or> pp_Enable (rg_Paths reg) = '''' then
        (Inl (sched_err ''Paths.Interval and Paths.Enable are required''), s)
      else if \<not> rg_hasOnTick reg then (Inl (sched_err ''OnTick is required''), s)
      else if rg_JitterPct reg \<noteq> None \<and> rg_RNG reg = None then
        (Inl (sched_err ''RNG is required when JitterPct > 0''), s)
      else if sc_stopped s then (Inl (sched_err ''scheduler is stopped''), s)
      else if map_of (cpes s) (rg_CPEID reg) \<noteq> None then
        (Inl (Errorf ''scheduler.Schedule: CPEID %q already registered'' [ArgS (rg_CPEID reg)]), s)
      else
        (let e = new_entry reg;
             e' = (if sc_started s then armEntry now t e else e)
         in (Inr (), s\<lparr>cpes := cpes s @ [(rg_CPEID reg, e')]\<rparr>)))"

definition Start :: "int \<Rightarrow> (string \<Rightarrow> Tree) \<Rightarrow> Scheduler \<Rightarrow> (goerr + unit) \<times> Scheduler" where
  "Start now trees s =
     (if sc_stopped s then (Inl (Errorf ''scheduler.Start: scheduler is stopped'' []), s)
      else if sc_started s then (Inr (), s)
      else (Inr (), s\<lparr>sc_started := True, cpes := map (\<lambda>(k, e). (k, armEntry now (trees k) e)) (cpes s)\<rparr>))"

definition map_entry :: "string \<Rightarrow> (cpeEntry \<Rightarrow> cpeEntry) \<Rightarrow> Scheduler \<Rightarrow> Scheduler" where
  "map_entry k f s = s\<lparr>cpes := map (\<lambda>(k', e). (k', if k' = k then f e else e)) (cpes s)\<rparr>"

definition OnIntervalChange :: "string \<Rightarrow> Scheduler \<Rightarrow> Scheduler" where
  "OnIntervalChange cpeID s = map_entry cpeID (\<lambda>e. e\<lparr>ce_change := True\<rparr>) s"

definition Stop :: "Scheduler \<Rightarrow> Scheduler" where
  "Stop s = (if sc_stopped s then s else s\<lparr>sc_stopped := True\<rparr>)"

inductive sched_step :: "Scheduler \<Rightarrow> Scheduler \<Rightarrow> bool" where
  step_Schedule: "sched_step s (snd (Schedule now t reg s))"
| step_Start: "sched_step s (snd (Start now trees s))"
| step_OnIntervalChange: "sched_step s (OnIntervalChange k s)"
| step_Stop: "sched_step s (Stop s)"
| step_change:
    "map_of (cpes s) k = Some e \<Longrightarrow> ce_draining e \<Longrightarrow> ce_change e \<Longrightarrow>
     sched_step s (map_entry k (drain_change now t) s)"
| step_tick:
    "map_of (cpes s) k = Some e \<Longrightarrow> ce_draining e \<Longrightarrow> ce_timer e = Armed due \<Longrightarrow> due \<le> now \<Longrightarrow>
     sched_step s (map_entry k (drain_tick now t) s)"
| step_done:
    "map_of (cpes s) k = Some e \<Longrightarrow> ce_draining e \<Longrightarrow> sc_stopped s \<Longrightarrow>
     sched_step s (map_entry k drain_done s)"

section \<open>Lemmas\<close>

text \<open>An entry with a goroutine: its interval is at least a second, and it is enabled exactly when
  its timer is armed.\<close>

definition live :: "cpeEntry \<Rightarrow> bool" where
  "live e \<longleftrightarrow> (ce_draining e \<longrightarrow> Second \<le> ce_interval e \<and> (ce_enabled e \<longleftrightarrow> (\<exists>due. ce_timer e = Armed due)))"

lemma refresh_sel:
  assumes "refreshFromTree t e = Inr e'"
  shows "Second \<le> ce_interval e'" "ce_draining e' = ce_draining e" "ce_timer e' = ce_timer e"
    "ce_paths e' = ce_paths e" "ce_closed e' = ce_closed e" "ce_jitter e' = ce_jitter e" "ce_change e' = ce_change e"
  using assms
  by (auto simp: refreshFromTree_def Let_def split: sum.splits option.splits if_splits)

lemma stop_sel [simp]:
  "ce_draining (stopTimerLocked e) = ce_draining e" "ce_interval (stopTimerLocked e) = ce_interval e"
  "ce_enabled (stopTimerLocked e) = ce_enabled e" "ce_timer (stopTimerLocked e) \<noteq> Armed due"
  "ce_change (stopTimerLocked e) = ce_change e"
  by (simp_all add: stopTimerLocked_def)

lemma arm_live: "Second \<le> ce_interval e \<Longrightarrow> live (armTimerLocked now e)"
  by (auto simp: live_def armTimerLocked_def)

lemma armEntry_live:
  assumes "live e"
  shows "live (armEntry now t e)"
proof (cases "refreshFromTree t e")
  case (Inr e')
  with refresh_sel(1) [OF Inr] show ?thesis by (auto simp: armEntry_def live_def armTimerLocked_def)
qed (use assms in \<open>simp add: armEntry_def\<close>)

lemma fst_map_entries: "fst \<circ> (\<lambda>(k, e). (k, f k e)) = fst"
  by auto

lemma change_live:
  assumes "live e"
  shows "live (drain_change now t e)"
proof (cases "refreshFromTree t (e\<lparr>ce_change := False\<rparr>)")
  case (Inl err)
  with assms show ?thesis by (simp add: drain_change_def live_def)
next
  case (Inr e2)
  with refresh_sel(1) [OF Inr] show ?thesis by (simp add: drain_change_def arm_live)
qed

lemma tick_live:
  assumes "live e" and "ce_draining e"
  shows "live (drain_tick now t e)"
proof -
  have "Second \<le> ce_interval (case refreshFromTree t (e\<lparr>ce_timer := Stopped\<rparr>) of Inl _ \<Rightarrow> e\<lparr>ce_timer := Stopped\<rparr> | Inr e' \<Rightarrow> e')"
    using assms refresh_sel(1) [of t "e\<lparr>ce_timer := Stopped\<rparr>"] by (auto simp: live_def split: sum.split)
  then show ?thesis by (simp add: drain_tick_def arm_live Let_def)
qed

definition all_live :: "Scheduler \<Rightarrow> bool" where
  "all_live s \<longleftrightarrow> distinct (map fst (cpes s)) \<and> (\<forall>(k, e) \<in> set (cpes s). live e)"

lemma map_entry_live:
  assumes "all_live s" and "\<And>e. map_of (cpes s) k = Some e \<Longrightarrow> live e \<Longrightarrow> live (f e)"
  shows "all_live (map_entry k f s)"
proof -
  have "live (f e)" if "(k, e) \<in> set (cpes s)" for e
    using that assms by (auto simp: all_live_def dest: map_of_is_SomeI)
  then show ?thesis
    using assms(1) fst_map_entries [of "\<lambda>k' e. if k' = k then f e else e"]
    by (auto simp: all_live_def map_entry_def)
qed

lemma step_all_live: "sched_step s s' \<Longrightarrow> all_live s \<Longrightarrow> all_live s'"
proof (induction rule: sched_step.induct)
  case (step_Schedule s now t reg)
  have "live (new_entry reg)" by (simp add: live_def new_entry_def)
  with step_Schedule armEntry_live [of "new_entry reg" now t] show ?case
    by (auto simp: Schedule_def all_live_def Let_def map_of_eq_None_iff)
next
  case (step_Start s now trees)
  then show ?case
    using fst_map_entries [of "\<lambda>k. armEntry now (trees k)"]
    by (auto simp: Start_def all_live_def intro: armEntry_live)
next
  case (step_OnIntervalChange s k)
  then show ?case unfolding OnIntervalChange_def by (rule map_entry_live) (simp add: live_def)
next
  case (step_change s k e now t)
  then show ?case by (intro map_entry_live change_live)
next
  case (step_tick s k e due now t)
  then show ?case by (intro map_entry_live) (auto intro: tick_live)
next
  case (step_done s k e)
  then show ?case by (intro map_entry_live) (auto simp: drain_done_def live_def)
qed (simp add: Stop_def all_live_def)

lemma reachable_all_live: "sched_step\<^sup>*\<^sup>* s s' \<Longrightarrow> all_live s \<Longrightarrow> all_live s'"
  by (induction rule: rtranclp_induct) (auto intro: step_all_live)

lemma go_rem_mod:
  assumes b: "0 < b"
  shows "(if go_rem a b < 0 then go_rem a b + b else go_rem a b) = a mod b"
proof (cases "a < 0")
  case True
  have "a mod b = (- ((- a) mod b)) mod b" by (metis minus_minus mod_minus_eq)
  moreover have "0 \<le> (- a) mod b" "(- a) mod b < b" using b by simp_all
  ultimately show ?thesis
    using True b
    by (cases "(- a) mod b = 0") (simp_all add: go_rem_def zmod_zminus1_eq_if)
next
  case False
  moreover from b have "\<not> a mod b < 0" by (simp add: not_less)
  ultimately show ?thesis by (simp add: go_rem_def)
qed

section \<open>Properties\<close>

text \<open>With a phase anchor less than 292 years away, the next tick is due within one interval,
  strictly in the future, and exactly at a whole number of intervals from the anchor, whether the
  anchor lies in the past or in the future.\<close>

theorem phase_boundary:
  assumes "ce_hasPhase e" and "0 < ce_interval e"
    and "- (2 ^ 63) \<le> now - ce_phaseRef e" and "now - ce_phaseRef e < 2 ^ 63"
  shows "let d = nextDelayLocked now e in
    0 < d \<and> d \<le> ce_interval e \<and> ce_interval e dvd (now + d - ce_phaseRef e)"
proof -
  let ?i = "ce_interval e" and ?x = "now - ce_phaseRef e"
  have "Sub now (ce_phaseRef e) = ?x" using assms(3,4) by (simp add: Sub_def)
  moreover have m: "0 \<le> ?x mod ?i" "?x mod ?i < ?i" using assms(2) by simp_all
  moreover from m have "\<not> ?i - ?x mod ?i \<le> 0" by linarith
  ultimately have d: "nextDelayLocked now e = ?i - ?x mod ?i"
    using assms(1,2) go_rem_mod [OF assms(2), of ?x] by (simp add: nextDelayLocked_def Let_def)
  have "now + (?i - ?x mod ?i) - ce_phaseRef e = ?i * (1 + ?x div ?i)"
    using mult_div_mod_eq [of ?i ?x] by (simp add: algebra_simps)
  then have "?i dvd (now + (?i - ?x mod ?i) - ce_phaseRef e)" by simp
  moreover from m have "0 < ?i - ?x mod ?i" "?i - ?x mod ?i \<le> ?i" by linarith+
  ultimately show ?thesis unfolding Let_def d by blast
qed

text \<open>Without an anchor the delay stays within the jitter around the interval and is always
  positive, whatever the random source returns.\<close>

theorem jitter_bounds:
  assumes "\<not> ce_hasPhase e" and "ce_jitter e = Some (mul, int63n)" and "int63n_ok (Some int63n)"
    and "0 < ce_interval e" and "0 \<le> mul (ce_interval e)" and "mul (ce_interval e) \<le> ce_interval e"
  shows "let d = nextDelayLocked now e; span = mul (ce_interval e) in
    0 < d \<and> d \<le> ce_interval e + span \<and> (ce_interval e - span \<le> d)"
proof -
  let ?span = "mul (ce_interval e)"
  from assms(3) have "\<forall>n>0. 0 \<le> int63n n \<and> int63n n < n" by (simp add: int63n_ok_def)
  moreover have "0 < 2 * ?span + 1" using assms(5) by linarith
  ultimately have "0 \<le> int63n (2 * ?span + 1) \<and> int63n (2 * ?span + 1) < 2 * ?span + 1" by blast
  with assms(1,2,4-6) show ?thesis by (auto simp: nextDelayLocked_def Let_def)
qed

text \<open>C19: In every reachable state of the scheduler, an entry that is being served informs at an
  interval of at least one second, and it has a tick due exactly when its periodic inform is
  enabled: no tick, failed read or change of the settings leaves an enabled CPE without a timer.\<close>

theorem enabled_cpe_has_tick:
  assumes "sched_step\<^sup>*\<^sup>* NewScheduler s" and "map_of (cpes s) k = Some e" and "ce_draining e"
  shows "Second \<le> ce_interval e \<and> (ce_enabled e \<longleftrightarrow> (\<exists>due. ce_timer e = Armed due))"
proof -
  have "all_live NewScheduler" by (simp add: all_live_def NewScheduler_def)
  from reachable_all_live [OF assms(1) this] assms(2) have "live e"
    by (auto simp: all_live_def dest: map_of_SomeD)
  with assms(3) show ?thesis by (simp add: live_def)
qed

text \<open>A change signal makes the entry take over what the tree says now: the interval in seconds,
  at least one, and whether it is enabled; and the timer is armed or stopped accordingly, counted
  from now.\<close>

theorem change_takes_effect:
  assumes "Get (pp_Interval (ce_paths e)) t = Inr iv" and "ParseUint 32 (Raw iv) = Some secs"
    and "Get (pp_Enable (ce_paths e)) t = Inr ev" and "pp_Time (ce_paths e) = ''''"
    and "e' = drain_change now t e"
  shows "ce_interval e' = max 1 (int secs) * Second
    \<and> ce_enabled e' = (ParseBool (Raw ev) = Some True)
    \<and> ce_timer e' = (if ce_enabled e' then Armed (now + nextDelayLocked now e')
                     else if ce_timer e = NoTimer then NoTimer else Stopped)
    \<and> \<not> ce_change e'"
  using assms
  by (auto simp: drain_change_def refreshFromTree_def armTimerLocked_def stopTimerLocked_def
      nextDelayLocked_def Let_def max_def split: option.split)

definition far_entry :: cpeEntry where
  "far_entry = \<lparr>ce_paths = \<lparr>pp_Interval = ''I'', pp_Enable = ''E'', pp_Time = ''T''\<rparr>, ce_jitter = None,
     ce_phaseRef = (case phase_of ''9999-12-31T00:00:00Z'' of None \<Rightarrow> 0 | Some p \<Rightarrow> p),
     ce_hasPhase = True, ce_timer = NoTimer, ce_interval = 86400 * Second, ce_enabled = True,
     ce_closed = False, ce_change = False, ce_draining = True\<rparr>"

text \<open>With an anchor further away the phase is lost, although only the phase of the anchor should
  matter: the difference of the two times does not fit a duration and is cut off.  For the anchor
  at the end of the year 9999, on the first of January 2024 at noon, the tick of a daily inform is
  not due at midnight.\<close>

theorem far_phase_missed:
  "let now = abs_nanos (\<lparr>t_year = 2024, t_month = 1, t_day = 1, t_hour = 12, t_min = 0, t_sec = 0, t_nsec = 0\<rparr>, 0)
   in phase_of ''9999-12-31T00:00:00Z'' = Some (ce_phaseRef far_entry)
      \<and> \<not> ce_interval far_entry dvd (now + nextDelayLocked now far_entry - ce_phaseRef far_entry)"
  by code_simp

section \<open>Witnesses\<close>

definition near_entry :: cpeEntry where
  "near_entry = far_entry\<lparr>ce_phaseRef := 1000 * Second, ce_interval := 60 * Second\<rparr>"

theorem phase_boundary_witness:
  "ce_interval near_entry dvd (5 * Second + nextDelayLocked (5 * Second) near_entry - ce_phaseRef near_entry)"
  using phase_boundary [of near_entry "5 * Second"] by (simp add: near_entry_def far_entry_def Let_def)

theorem jitter_bounds_witness:
  "0 < nextDelayLocked 7 (near_entry\<lparr>ce_hasPhase := False, ce_jitter := Some (\<lambda>i. i div 10, \<lambda>n. n - 1)\<rparr>)"
  using jitter_bounds [of "near_entry\<lparr>ce_hasPhase := False, ce_jitter := Some (\<lambda>i. i div 10, \<lambda>n. n - 1)\<rparr>"
      "\<lambda>i. i div 10" "\<lambda>n. n - 1" 7]
  by (simp add: near_entry_def far_entry_def int63n_ok_def Let_def)

definition timed_tree :: Tree where
  "timed_tree = New\<lparr>root :=
     Node [(''I'', Node [] (Some \<lparr>VType = TypeUnsignedInt, Raw = ''300'', Writable = True\<rparr>) None None),
           (''E'', Node [] (Some \<lparr>VType = TypeBoolean, Raw = ''true'', Writable = True\<rparr>) None None)] None None None\<rparr>"

definition demo_reg :: Registration where
  "demo_reg = \<lparr>rg_CPEID = ''cpe-1'', rg_hasTree = True,
     rg_Paths = \<lparr>pp_Interval = ''I'', pp_Enable = ''E'', pp_Time = ''''\<rparr>, rg_hasOnTick = True, rg_RNG = None,
     rg_JitterPct = None\<rparr>"

definition demo_sched :: Scheduler where
  "demo_sched = snd (Schedule 0 timed_tree demo_reg (snd (Start 0 (\<lambda>_. timed_tree) NewScheduler)))"

lemma demo_sched_reachable: "sched_step\<^sup>*\<^sup>* NewScheduler demo_sched"
proof -
  have "sched_step NewScheduler (snd (Start 0 (\<lambda>_. timed_tree) NewScheduler))" by (rule step_Start)
  moreover have "sched_step (snd (Start 0 (\<lambda>_. timed_tree) NewScheduler)) demo_sched"
    unfolding demo_sched_def by (rule step_Schedule)
  ultimately show ?thesis by (meson rtranclp.rtrancl_into_rtrancl rtranclp.rtrancl_refl)
qed

theorem enabled_cpe_has_tick_witness:
  "\<exists>due. ce_timer (the (map_of (cpes demo_sched) ''cpe-1'')) = Armed due"
proof -
  have e: "map_of (cpes demo_sched) ''cpe-1'' = Some (the (map_of (cpes demo_sched) ''cpe-1''))"
    "ce_draining (the (map_of (cpes demo_sched) ''cpe-1''))" "ce_enabled (the (map_of (cpes demo_sched) ''cpe-1''))"
    by (simp_all add: demo_sched_def Schedule_def Start_def NewScheduler_def demo_reg_def new_entry_def
        armEntry_def refreshFromTree_def armTimerLocked_def stopTimerLocked_def ParseBool_def timed_tree_def
        New_def tree_eval)
  show ?thesis using enabled_cpe_has_tick [OF demo_sched_reachable e(1,2)] e(3) by blast
qed

theorem change_takes_effect_witness:
  "ce_interval (drain_change 9 timed_tree (new_entry demo_reg)) = 300 * Second"
proof -
  have g: "Get (pp_Interval (ce_paths (new_entry demo_reg))) timed_tree =
      Inr \<lparr>VType = TypeUnsignedInt, Raw = ''300'', Writable = True\<rparr>"
    "Get (pp_Enable (ce_paths (new_entry demo_reg))) timed_tree =
      Inr \<lparr>VType = TypeBoolean, Raw = ''true'', Writable = True\<rparr>"
    "ParseUint 32 (Raw \<lparr>VType = TypeUnsignedInt, Raw = ''300'', Writable = True\<rparr>) = Some 300"
    by (simp_all add: new_entry_def demo_reg_def timed_tree_def New_def tree_eval)
  have p: "pp_Time (ce_paths (new_entry demo_reg)) = ''''" by (simp add: new_entry_def demo_reg_def)
  show ?thesis using change_takes_effect [OF g(1,3,2) p refl, of 9] by simp
qed

end
