(* ===== verification/UspPath.thy ===== *)
theory UspPath
  imports ParamTables ParamWalk ParamReach
begin

text \<open>
  Paths, identifiers and small text routines of the USP agent: \<^verbatim>\<open>messages.go\<close>, the path part of
  \<^verbatim>\<open>operations.go\<close> and of \<^verbatim>\<open>subscriptions.go\<close> in \<^verbatim>\<open>src/internal/usp/agent\<close>.

  The strings come out of protobuf messages, which are valid UTF-8, so that going over runes and
  going over bytes agree for the ASCII characters these routines look at.  The theory shows that the
  hand-written sort sorts, that an endpoint identifier is legal, bounded and determines the device,
  and that a search path resolves to exactly the instances it describes; the wildcard matching of the
  subscriptions accepts every such instance.
\<close>

section \<open>Endpoint identifiers\<close>

definition maxInstanceIDLength :: nat where
  "maxInstanceIDLength = 50"

definition unreserved :: "char \<Rightarrow> bool" where
  "unreserved c \<longleftrightarrow>
     (CHR ''A'' \<le> c \<and> c \<le> CHR ''Z'') \<or> (CHR ''a'' \<le> c \<and> c \<le> CHR ''z'') \<or> is_digit c
     \<or> c = CHR ''-'' \<or> c = CHR ''.'' \<or> c = CHR ''_''"

definition upper_hex :: "nat \<Rightarrow> char" where
  "upper_hex n = ''0123456789ABCDEF'' ! n"

definition escape_octet :: "char \<Rightarrow> string" where
  "escape_octet c =
     (if unreserved c then [c]
      else [CHR ''%'', upper_hex (of_char c div 16), upper_hex (of_char c mod 16)])"

definition escapeInstanceID :: "string \<Rightarrow> string" where
  "escapeInstanceID s = concat (map escape_octet s)"

definition EndpointIDFor :: "string \<Rightarrow> string \<Rightarrow> goerr + string" where
  "EndpointIDFor oui serial =
     (let inst = escapeInstanceID oui @ ''-'' @ escapeInstanceID serial in
      if maxInstanceIDLength < length inst then
        Inl (Errorf ''serial %q is too long for a USP endpoint id: instance id %q is %d characters, TR-369 R-ARC.6 allows %d''
               [ArgS serial, ArgS inst, ArgI (int (length inst)), ArgI (int maxInstanceIDLength)])
      else Inr (''os::'' @ inst))"

section \<open>The insertion sort\<close>

text \<open>The inner loop moves the element at \<open>j\<close> down by swaps, the outer one goes over the positions.\<close>

function sink :: "nat \<Rightarrow> string list \<Rightarrow> string list" where
  "sink j s = (if 0 < j \<and> s ! j < s ! (j - 1) then sink (j - 1) (s[j := s ! (j - 1), j - 1 := s ! j]) else s)"
  by pat_completeness auto
termination by (relation "measure fst") auto

declare sink.simps [simp del]

function sort_from :: "nat \<Rightarrow> string list \<Rightarrow> string list" where
  "sort_from i s = (if i < length s then sort_from (Suc i) (sink i s) else s)"
  by pat_completeness auto

lemma length_sink [simp]: "length (sink j s) = length s"
proof (induction j s rule: sink.induct)
  case (1 j s)
  then show ?case by (subst sink.simps) simp
qed

termination sort_from by (relation "measure (\<lambda>(i, s). length s - i)") auto

declare sort_from.simps [simp del]

definition sortStrings :: "string list \<Rightarrow> string list" where
  "sortStrings s = sort_from 1 s"

section \<open>The Boot parameter map\<close>

text \<open>\<^verbatim>\<open>strings.ReplaceAll\<close> of a single byte.  Go maps are association lists with distinct keys.\<close>

definition ReplaceAll1 :: "char \<Rightarrow> string \<Rightarrow> string \<Rightarrow> string" where
  "ReplaceAll1 c r s = concat (map (\<lambda>x. if x = c then r else [x]) s)"

definition jsonEscape :: "string \<Rightarrow> string" where
  "jsonEscape s = ReplaceAll1 CHR 0x22 [CHR 0x5C, CHR 0x22] (ReplaceAll1 CHR 0x5C [CHR 0x5C, CHR 0x5C] s)"

definition encode_pair :: "(string \<times> string) list \<Rightarrow> string \<Rightarrow> string" where
  "encode_pair m k =
     [CHR 0x22] @ jsonEscape k @ [CHR 0x22, CHR '':'', CHR 0x22]
     @ jsonEscape (case map_of m k of Some v \<Rightarrow> v | None \<Rightarrow> '''') @ [CHR 0x22]"

definition encodeParameterMap :: "(string \<times> string) list \<Rightarrow> string" where
  "encodeParameterMap m = ''{'' @ join '','' (map (encode_pair m) (sortStrings (map fst m))) @ ''}''"

section \<open>Splitting paths\<close>

definition last_part :: "string \<Rightarrow> string" where
  "last_part path = rev (takeWhile (\<lambda>c. c \<noteq> CHR ''.'') (rev path))"

definition splitLeaf :: "string \<Rightarrow> string \<times> string" where
  "splitLeaf path =
     (if CHR ''.'' \<notin> set path then ('''', path)
      else (take (length path - length (last_part path)) path, last_part path))"

definition lastSegment :: "string \<Rightarrow> string" where
  "lastSegment path =
     (let trimmed = TrimSuffix path ''.'' in if CHR ''.'' \<in> set trimmed then last_part trimmed else trimmed)"

definition isInstanceNumber :: "string \<Rightarrow> bool" where
  "isInstanceNumber name \<longleftrightarrow> name \<noteq> '''' \<and> list_all is_digit name"

definition isMultiInstancePath :: "string \<Rightarrow> bool" where
  "isMultiInstancePath objPath =
     (let trimmed = TrimSuffix objPath ''.'' in
      CHR ''.'' \<in> set trimmed \<and> isInstanceNumber (last_part trimmed))"

definition with_dot :: "string \<Rightarrow> string" where
  "with_dot p = (if HasSuffix p ''.'' then p else p @ ''.'')"

definition childInstanceNames :: "Tree \<Rightarrow> string \<Rightarrow> string list" where
  "childInstanceNames t tablePath =
     (case Children tablePath t of
        Inl _ \<Rightarrow> []
      | Inr cs \<Rightarrow> filter isInstanceNumber (map (lastSegment \<circ> ci_Name) cs))"

definition childInstances :: "Tree \<Rightarrow> string \<Rightarrow> string list" where
  "childInstances t tablePath =
     (case Children tablePath t of
        Inl _ \<Rightarrow> []
      | Inr cs \<Rightarrow> filter (isInstanceNumber \<circ> lastSegment) (map (with_dot \<circ> ci_Name) cs))"

section \<open>Search paths\<close>

fun split_search :: "nat \<Rightarrow> string \<Rightarrow> string \<Rightarrow> string list" where
  "split_search depth cur [] = [cur]"
| "split_search depth cur (r # rs) =
     (if r = CHR ''['' then split_search (Suc depth) (cur @ [r]) rs
      else if r = CHR '']'' then split_search (depth - 1) (cur @ [r]) rs
      else if r = CHR ''.'' \<and> depth = 0 then cur # split_search depth [] rs
      else split_search depth (cur @ [r]) rs)"

definition splitSearchPath :: "string \<Rightarrow> string list" where
  "splitSearchPath path = split_search 0 [] path"

record searchTerm =
  st_key :: string
  st_value :: string
  st_equal :: bool

text \<open>\<^verbatim>\<open>strings.Split(s, "&&")\<close> and \<^verbatim>\<open>strings.Index\<close> of a text of two bytes.\<close>

fun split_and :: "string \<Rightarrow> string \<Rightarrow> string list" where
  "split_and cur (a # b # s) =
     (if a = CHR ''&'' \<and> b = CHR ''&'' then cur # split_and [] s else split_and (cur @ [a]) (b # s))"
| "split_and cur s = [cur @ s]"

fun Index2 :: "char \<Rightarrow> char \<Rightarrow> string \<Rightarrow> nat option" where
  "Index2 x y (a # b # s) = (if a = x \<and> b = y then Some 0 else map_option Suc (Index2 x y (b # s)))"
| "Index2 x y _ = None"

definition unquote :: "string \<Rightarrow> string" where
  "unquote v =
     (if 2 \<le> length v \<and> v ! 0 = CHR 0x22 \<and> v ! (length v - 1) = CHR 0x22
      then take (length v - 2) (drop 1 v) else v)"

definition parse_term :: "string \<Rightarrow> searchTerm option" where
  "parse_term raw0 =
     (let raw = TrimSpace raw0;
          (op, equal) = (case Index2 CHR ''='' CHR ''='' raw of
                           Some i \<Rightarrow> (Some i, True)
                         | None \<Rightarrow> (Index2 CHR ''!'' CHR ''='' raw, False))
      in case op of
           None \<Rightarrow> None
         | Some i \<Rightarrow>
             if i = 0 then None
             else (let key = TrimSpace (take i raw);
                       val = unquote (TrimSpace (drop (i + 2) raw))
                   in if key = '''' then None
                      else Some \<lparr>st_key = key, st_value = val, st_equal = equal\<rparr>))"

definition parseSearchExpression :: "string \<Rightarrow> searchTerm list option" where
  "parseSearchExpression seg =
     (if \<not> HasPrefix seg ''['' \<or> \<not> HasSuffix seg '']'' then None
      else (let body = take (length seg - 2) (drop 1 seg) in
            if TrimSpace body = '''' then None else those (map parse_term (split_and [] body))))"

definition match_terms :: "Tree \<Rightarrow> string \<Rightarrow> searchTerm list \<Rightarrow> bool" where
  "match_terms t instPath terms =
     list_all (\<lambda>st. case Get (instPath @ st_key st) t of
                      Inl _ \<Rightarrow> False
                    | Inr v \<Rightarrow> (Raw v = st_value st) = st_equal st) terms"

text \<open>One segment applied to one prefix; \<^const>\<open>None\<close> is the early return on an expression that is
  not understood.\<close>

definition expand_segment :: "Tree \<Rightarrow> string \<Rightarrow> string \<Rightarrow> string list option" where
  "expand_segment t seg pre =
     (if seg = ''*'' then Some (map (\<lambda>i. pre @ ''.'' @ i) (childInstanceNames t (pre @ ''.'')))
      else if HasPrefix seg ''['' then
        (case parseSearchExpression seg of
           None \<Rightarrow> None
         | Some terms \<Rightarrow>
             Some (map (\<lambda>i. pre @ ''.'' @ i)
               (filter (\<lambda>i. match_terms t (pre @ ''.'' @ i @ ''.'') terms) (childInstanceNames t (pre @ ''.'')))))
      else if pre = '''' then Some [seg]
      else Some [pre @ ''.'' @ seg])"

fun expand_segments :: "Tree \<Rightarrow> string list \<Rightarrow> string list \<Rightarrow> string list" where
  "expand_segments t [] pres = pres"
| "expand_segments t (seg # segs) pres =
     (case those (map (expand_segment t seg) pres) of
        None \<Rightarrow> []
      | Some nexts \<Rightarrow> if concat nexts = [] then [] else expand_segments t segs (concat nexts))"

definition ExpandSearchPath :: "Tree \<Rightarrow> string \<Rightarrow> string list" where
  "ExpandSearchPath t path =
     (if CHR ''*'' \<notin> set path \<and> CHR ''['' \<notin> set path then [path]
      else (let trailingDot = HasSuffix path ''.'';
                segments = splitSearchPath (TrimSuffix path ''.'')
            in map (\<lambda>p. if trailingDot then p @ ''.'' else p) (expand_segments t segments [''''])))"

section \<open>Wildcards in subscriptions\<close>

definition match_segment :: "string \<Rightarrow> string \<Rightarrow> bool" where
  "match_segment seg s \<longleftrightarrow> (if seg = ''*'' then isInstanceNumber s else s = seg)"

definition matchWildcardPath :: "string \<Rightarrow> string \<Rightarrow> bool" where
  "matchWildcardPath ref path =
     (let partial = HasSuffix ref ''.'';
          refSegs = split_on CHR ''.'' (TrimSuffix ref ''.'');
          pathSegs = split_on CHR ''.'' (TrimSuffix path ''.'')
      in (if partial then length refSegs \<le> length pathSegs else length pathSegs = length refSegs)
         \<and> list_all2 match_segment refSegs (take (length refSegs) pathSegs))"

section \<open>Instances below a table\<close>

text \<open>The recursion goes over the paths \<^verbatim>\<open>Children\<close> hands out, so a bound on its depth is an
  argument and \<^const>\<open>None\<close> means that it was too small; \<open>instancePathsUnder_ok\<close> shows that the height
  of the tree suffices.\<close>

fun height :: "Node \<Rightarrow> nat" where
  "height (Node cs l a t) = fold (\<lambda>(k, c) m. max (Suc (height c)) m) cs 0"

fun instancePathsUnder :: "nat \<Rightarrow> Tree \<Rightarrow> string \<Rightarrow> bool \<Rightarrow> (goerr + string list) option" where
  "instancePathsUnder 0 t tablePath firstLevelOnly = None"
| "instancePathsUnder (Suc fuel) t tablePath firstLevelOnly =
     (case Children tablePath t of
        Inl _ \<Rightarrow> Some (Inl (Errorf ''path %q not found'' [ArgS tablePath]))
      | Inr cs \<Rightarrow> map_option (\<lambda>xs. Inr (concat xs)) (those (map (\<lambda>child.
          if \<not> isInstanceNumber (lastSegment (ci_Name child)) then Some []
          else (let childPath = with_dot (ci_Name child) in
                if firstLevelOnly then Some [childPath]
                else case Children childPath t of
                       Inl _ \<Rightarrow> Some [childPath]
                     | Inr gcs \<Rightarrow> map_option (\<lambda>xs. childPath # concat xs) (those (map (\<lambda>gc.
                         if \<not> HasSuffix (ci_Name gc) ''.'' then Some []
                         else case instancePathsUnder fuel t (ci_Name gc) False of
                                None \<Rightarrow> None
                              | Some (Inl _) \<Rightarrow> Some []
                              | Some (Inr deeper) \<Rightarrow> Some deeper) gcs)))) cs)))"

section \<open>Lemmas on texts and paths\<close>

lemma those_map_Some: "(\<And>x. x \<in> set xs \<Longrightarrow> f x = Some (g x)) \<Longrightarrow> those (map f xs) = Some (map g xs)"
  by (induction xs) auto

lemma sorted_mset_unique: "sorted xs \<Longrightarrow> sorted ys \<Longrightarrow> mset xs = mset ys \<Longrightarrow> xs = ys"
  using properties_for_sort [of ys xs] properties_for_sort [of xs xs] by metis

lemma sink_insort:
  "sorted xs \<Longrightarrow> sink (length xs) (xs @ y # zs) = insort y xs @ zs"
proof (induction xs arbitrary: zs rule: rev_induct)
  case Nil
  show ?case by (subst sink.simps) simp
next
  case (snoc x xs)
  have ins: "insort y (xs @ [x]) = (if y < x then insort y xs @ [x] else xs @ [x, y])"
  proof (rule sorted_mset_unique)
    show "sorted (insort y (xs @ [x]))" using snoc.prems by (rule sorted_insort [THEN iffD2])
    show "sorted (if y < x then insort y xs @ [x] else xs @ [x, y])"
      using snoc.prems by (auto simp: sorted_append sorted_insort set_insort_key)
    show "mset (insort y (xs @ [x])) = mset (if y < x then insort y xs @ [x] else xs @ [x, y])" by simp
  qed
  have nth: "(xs @ [x] @ y # zs) ! length (xs @ [x]) = y" "(xs @ [x] @ y # zs) ! length xs = x"
    by (simp_all add: nth_append)
  have swap: "(xs @ [x] @ y # zs)[length (xs @ [x]) := x, length xs := y] = xs @ y # x # zs"
    by (simp add: list_update_append)
  have "sink (length (xs @ [x])) ((xs @ [x]) @ y # zs) =
      (if y < x then sink (length xs) (xs @ y # x # zs) else (xs @ [x]) @ y # zs)"
    using nth swap by (subst sink.simps) (simp add: nth_append list_update_append)
  with snoc ins show ?case by (simp add: sorted_append)
qed

lemma sort_from_sort: "sorted xs \<Longrightarrow> sort_from (length xs) (xs @ ys) = sort (xs @ ys)"
proof (induction ys arbitrary: xs)
  case Nil
  then show ?case by (subst sort_from.simps) (simp add: sorted_sort_id)
next
  case (Cons y ys)
  have s: "sorted (insort y xs)" using Cons.prems by (simp add: sorted_insort)
  have "sort_from (length xs) (xs @ y # ys) = sort_from (length (insort y xs)) (insort y xs @ ys)"
    using Cons.prems by (subst sort_from.simps) (simp add: sink_insort)
  also have "\<dots> = sort (insort y xs @ ys)" by (rule Cons.IH [OF s])
  also have "\<dots> = sort (xs @ y # ys)" by (rule properties_for_sort) (simp_all add: ac_simps)
  finally show ?case .
qed

lemma sortStrings_eq: "sortStrings s = sort s"
proof (cases s)
  case Nil
  then show ?thesis by (simp add: sortStrings_def sort_from.simps)
next
  case (Cons x xs)
  then show ?thesis using sort_from_sort [of "[x]" xs] by (simp add: sortStrings_def)
qed

section \<open>Endpoint identifiers determine the device\<close>

definition hex_val :: "char \<Rightarrow> nat" where
  "hex_val c = (if is_digit c then of_char c - 48 else of_char c - 55)"

fun unescape_id :: "string \<Rightarrow> string" where
  "unescape_id [] = []"
| "unescape_id (c # s) =
     (if c = CHR ''%'' then (case s of a # b # r \<Rightarrow> char_of (16 * hex_val a + hex_val b) # unescape_id (drop 2 s) | _ \<Rightarrow> [])
      else c # unescape_id s)"

lemma upper_hex_table:
  "list_all (\<lambda>n. hex_val (upper_hex n) = n \<and> unreserved (upper_hex n) \<and> upper_hex n \<noteq> CHR ''-'') [0..<16]"
  by code_simp

lemma upper_hex_facts:
  assumes "n < 16"
  shows "hex_val (upper_hex n) = n" and "unreserved (upper_hex n)" and "upper_hex n \<noteq> CHR ''-''"
  using upper_hex_table assms by (simp_all add: list_all_iff)

lemma octet_nibbles: "of_char c div 16 < (16 :: nat)" "of_char c mod 16 < (16 :: nat)"
  using less_mult_imp_div_less [of "of_char c" 16 16] by simp_all

lemma unescape_octet: "unescape_id (escape_octet c @ s) = c # unescape_id s"
proof (cases "unreserved c")
  case True
  then have "c \<noteq> CHR ''%''" by (auto simp: unreserved_def is_digit_def less_eq_char_def of_char_def)
  with True show ?thesis by (simp add: escape_octet_def)
next
  case False
  then show ?thesis
    using upper_hex_facts(1) [OF octet_nibbles(1), of c] upper_hex_facts(1) [OF octet_nibbles(2), of c]
    by (simp add: escape_octet_def mult_div_mod_eq)
qed

lemma unescape_escape_id [simp]: "unescape_id (escapeInstanceID s) = s"
  by (induction s) (simp_all add: escapeInstanceID_def unescape_octet)

lemma escape_octet_chars: "x \<in> set (escape_octet c) \<Longrightarrow> unreserved x \<or> x = CHR ''%''"
  using upper_hex_facts(2) [OF octet_nibbles(1), of c] upper_hex_facts(2) [OF octet_nibbles(2), of c]
  by (auto simp: escape_octet_def split: if_splits)

lemma escape_id_no_dash: "CHR ''-'' \<notin> set s \<Longrightarrow> CHR ''-'' \<notin> set (escapeInstanceID s)"
  using upper_hex_facts(3) [OF octet_nibbles(1)] upper_hex_facts(3) [OF octet_nibbles(2)]
  by (induction s) (auto simp: escapeInstanceID_def escape_octet_def dest: not_sym)

lemma append_sep_inject:
  assumes "c \<notin> set xs" and "c \<notin> set xs'" and "xs @ c # ys = xs' @ c # ys'"
  shows "xs = xs' \<and> ys = ys'"
  using assms
proof (induction xs arbitrary: xs')
  case Nil
  then show ?case by (cases xs') auto
next
  case (Cons x xs)
  then show ?case by (cases xs') auto
qed

lemma EndpointIDFor_Inr:
  "EndpointIDFor oui serial = Inr e \<longleftrightarrow>
     length (escapeInstanceID oui @ ''-'' @ escapeInstanceID serial) \<le> 50
     \<and> e = ''os::'' @ escapeInstanceID oui @ ''-'' @ escapeInstanceID serial"
  by (auto simp: EndpointIDFor_def Let_def maxInstanceIDLength_def)

section \<open>Paths of children\<close>

lemma HasSuffix_dot [simp]: "HasSuffix (p @ ''.'') ''.''"
  by (simp add: HasSuffix_def)

lemma joinPath_no_dot_suffix: "valid_segs segs \<Longrightarrow> \<not> HasSuffix (joinPath segs) ''.''"
proof (cases "segs = []")
  case False
  assume v: "valid_segs segs"
  then have "joinPath segs \<noteq> []" using False joinPath_eq_Nil by blast
  have "HasSuffix (joinPath segs) ''.'' \<Longrightarrow> last (joinPath segs) = CHR ''.''"
    unfolding HasSuffix_iff_suffix suffix_def by (elim exE) (simp only: last_snoc)
  with last_join_not_dot [OF v False] show ?thesis by blast
qed (simp add: joinPath_def HasSuffix_def)

lemma last_part_append: "CHR ''.'' \<notin> set k \<Longrightarrow> last_part (p @ ''.'' @ k) = k"
proof -
  assume "CHR ''.'' \<notin> set k"
  then have "takeWhile (\<lambda>c. c \<noteq> CHR ''.'') (rev k @ CHR ''.'' # rev p) = rev k"
    by (subst takeWhile_append2) auto
  then show ?thesis by (simp add: last_part_def)
qed

lemma joinPath_snoc: "segs \<noteq> [] \<Longrightarrow> joinPath (segs @ [k]) = joinPath segs @ ''.'' @ k"
  by (simp add: joinPath_def join_snoc)

lemma valid_seg_no_dot: "valid_segs (segs @ [k]) \<Longrightarrow> CHR ''.'' \<notin> set k"
  using valid_segs_no_dot [of "[k]"] by (simp)

lemma lastSegment_joinPath:
  assumes "valid_segs (segs @ [k])"
  shows "lastSegment (joinPath (segs @ [k])) = k" and "lastSegment (joinPath (segs @ [k]) @ ''.'') = k"
proof -
  have k: "CHR ''.'' \<notin> set k" by (rule valid_seg_no_dot [OF assms])
  have "lastSegment (joinPath (segs @ [k])) = k"
  proof (cases "segs = []")
    case True
    with k assms show ?thesis
      using TrimSuffix_joinPath [of "[k]"] by (simp add: lastSegment_def joinPath_def)
  next
    case False
    have "TrimSuffix (joinPath (segs @ [k])) ''.'' = joinPath segs @ ''.'' @ k"
      using TrimSuffix_joinPath [OF assms] joinPath_snoc [OF False] by metis
    then show ?thesis
      using last_part_append [OF k] by (simp add: lastSegment_def)
  qed
  moreover have "TrimSuffix (joinPath (segs @ [k]) @ ''.'') ''.'' = TrimSuffix (joinPath (segs @ [k])) ''.''"
    by (simp only: TrimSuffix_append TrimSuffix_joinPath [OF assms])
  ultimately show "lastSegment (joinPath (segs @ [k])) = k" "lastSegment (joinPath (segs @ [k]) @ ''.'') = k"
    by (simp_all add: lastSegment_def)
qed

lemma valid_child:
  assumes "wf_node (root t)" and "node_at segs (root t) = Some n" and "(k, c) \<in> set (children n)"
  shows "valid_segs [k]" and "wf_node c" and "node_at (segs @ [k]) (root t) = Some c"
proof -
  have wf: "wf_node n" by (rule wf_node_at [OF assms(1,2)])
  with assms(3) show "valid_segs [k]" "wf_node c" unfolding wf_node_iff [of n] by auto
  from wf assms(3) have "map_of (children n) k = Some c" "\<not> isLeaf n"
    unfolding wf_node_iff [of n] by auto
  then show "node_at (segs @ [k]) (root t) = Some c" by (simp add: node_at_append assms(2))
qed

lemma lastSegment_child:
  "valid_segs segs \<Longrightarrow> valid_segs [fst kc] \<Longrightarrow> lastSegment (child_name segs kc) = fst kc"
  using lastSegment_joinPath [of segs "fst kc"] by (simp add: child_name_def)

lemma with_dot_child:
  "valid_segs segs \<Longrightarrow> valid_segs [fst kc] \<Longrightarrow> with_dot (child_name segs kc) = joinPath (segs @ [fst kc]) @ ''.''"
  using joinPath_no_dot_suffix [of "segs @ [fst kc]"] by (simp add: child_name_def with_dot_def)

text \<open>The instance numbers among the children of a node, in the order of the sorted names.\<close>

definition inst_names :: "Tree \<Rightarrow> string list \<Rightarrow> string list" where
  "inst_names t segs =
     (case node_at segs (root t) of
        None \<Rightarrow> []
      | Some n \<Rightarrow> filter isInstanceNumber (map fst (sortedKeys (children n))))"

lemma map_lastSegment_children:
  assumes "wf_node (root t)" and "valid_segs segs" and "node_at segs (root t) = Some n"
  shows "map (lastSegment \<circ> child_name segs) (sortedKeys (children n)) = map fst (sortedKeys (children n))"
  using assms valid_child(1) [OF assms(1,3)] lastSegment_child [OF assms(2)] by (auto intro!: map_cong)

lemma childInstanceNames_eq:
  assumes "wf_node (root t)" and "parsePath p = Inr segs"
  shows "childInstanceNames t p = inst_names t segs"
proof (cases "Children p t")
  case (Inl e)
  have "inst_names t segs = []"
  proof (cases "node_at segs (root t)")
    case (Some n)
    with Children_Inl [OF Inl assms(2)] have "isLeaf n" by blast
    with wf_node_at [OF assms(1) Some] have "children n = []" unfolding wf_node_iff [of n] by blast
    then show ?thesis using Some by (simp add: inst_names_def sortedKeys_def)
  qed (simp add: inst_names_def)
  then show ?thesis using Inl by (simp add: childInstanceNames_def)
next
  case (Inr cs)
  then obtain n where n: "node_at segs (root t) = Some n"
    and cs: "map ci_Name cs = map (child_name segs) (sortedKeys (children n))"
    using assms(2) by (elim Children_Inr) auto
  have "map (lastSegment \<circ> ci_Name) cs = map lastSegment (map ci_Name cs)" by simp
  also have "\<dots> = map fst (sortedKeys (children n))"
    using map_lastSegment_children [OF assms(1) parsePath_valid [OF assms(2)] n] unfolding cs by simp
  finally show ?thesis using Inr n by (simp add: childInstanceNames_def inst_names_def)
qed

lemma inst_names_iff:
  "i \<in> set (inst_names t segs) \<longleftrightarrow>
     isInstanceNumber i \<and> (\<exists>n. node_at segs (root t) = Some n \<and> i \<in> fst ` set (children n))"
  by (cases "node_at segs (root t)") (auto simp: inst_names_def)

lemma distinct_inst_names: "wf_node (root t) \<Longrightarrow> distinct (inst_names t segs)"
proof (cases "node_at segs (root t)")
  case (Some n)
  assume "wf_node (root t)"
  then have "distinct (map fst (children n))" using wf_node_at [OF _ Some] unfolding wf_node_iff [of n] by blast
  then show ?thesis using Some by (simp add: inst_names_def sortedKeys_def distinct_map)
qed (simp add: inst_names_def)

lemma instance_number_valid: "isInstanceNumber i \<Longrightarrow> valid_segs [i]"
  by (auto simp: isInstanceNumber_def list_all_iff is_digit_isSegmentChar)

section \<open>What a search path resolves to\<close>

definition fits :: "Tree \<Rightarrow> string list \<Rightarrow> string \<Rightarrow> string \<Rightarrow> bool" where
  "fits t pre seg c \<longleftrightarrow>
     (if seg = ''*'' then c \<in> set (inst_names t pre)
      else if HasPrefix seg ''['' then
        c \<in> set (inst_names t pre)
        \<and> (\<exists>terms. parseSearchExpression seg = Some terms \<and> match_terms t (joinPath (pre @ [c]) @ ''.'') terms)
      else c = seg)"

fun resolves :: "Tree \<Rightarrow> string list \<Rightarrow> string list \<Rightarrow> string list \<Rightarrow> bool" where
  "resolves t pre [] cs \<longleftrightarrow> cs = []"
| "resolves t pre (seg # segs) [] \<longleftrightarrow> False"
| "resolves t pre (seg # segs) (c # cs) \<longleftrightarrow> fits t pre seg c \<and> resolves t (pre @ [c]) segs cs"

definition is_literal :: "string \<Rightarrow> bool" where
  "is_literal seg \<longleftrightarrow> seg \<noteq> ''*'' \<and> \<not> HasPrefix seg ''[''"

definition choices :: "Tree \<Rightarrow> string \<Rightarrow> string list \<Rightarrow> string list" where
  "choices t seg pre =
     (if seg = ''*'' then inst_names t pre
      else if HasPrefix seg ''['' then
        (case parseSearchExpression seg of
           None \<Rightarrow> []
         | Some terms \<Rightarrow> filter (\<lambda>c. match_terms t (joinPath (pre @ [c]) @ ''.'') terms) (inst_names t pre))
      else [seg])"

definition extend_pre :: "Tree \<Rightarrow> string \<Rightarrow> string list \<Rightarrow> string list list" where
  "extend_pre t seg pre = map (\<lambda>c. pre @ [c]) (choices t seg pre)"

fun expand_list :: "Tree \<Rightarrow> string list \<Rightarrow> string list list \<Rightarrow> string list list" where
  "expand_list t [] pres = pres"
| "expand_list t (seg # segs) pres = expand_list t segs (concat (map (extend_pre t seg) pres))"

lemma expand_list_Nil [simp]: "expand_list t segs [] = []"
  by (induction segs) auto

lemma choices_fits: "set (choices t seg pre) = {c. fits t pre seg c}"
  by (cases "parseSearchExpression seg") (auto simp: choices_def fits_def)

lemma set_expand_list:
  "set (expand_list t segs pres) = {pre @ cs |pre cs. pre \<in> set pres \<and> resolves t pre segs cs}"
proof (induction segs arbitrary: pres)
  case (Cons seg segs)
  have a: "x \<in> set (expand_list t (seg # segs) pres) \<longleftrightarrow>
      (\<exists>pre \<in> set pres. \<exists>c cs. fits t pre seg c \<and> resolves t (pre @ [c]) segs cs \<and> x = pre @ c # cs)" for x
  proof -
    have "x \<in> set (expand_list t (seg # segs) pres) \<longleftrightarrow>
        (\<exists>pre' cs. pre' \<in> (\<Union>pre \<in> set pres. (\<lambda>c. pre @ [c]) ` {c. fits t pre seg c}) \<and> resolves t pre' segs cs \<and> x = pre' @ cs)"
      by (simp add: Cons.IH extend_pre_def choices_fits) blast
    then show ?thesis by force
  qed
  have b: "(\<exists>cs. resolves t pre (seg # segs) cs \<and> x = pre @ cs) \<longleftrightarrow>
      (\<exists>c cs. fits t pre seg c \<and> resolves t (pre @ [c]) segs cs \<and> x = pre @ c # cs)" for x pre
  proof
    assume "\<exists>cs. resolves t pre (seg # segs) cs \<and> x = pre @ cs"
    then obtain cs where "resolves t pre (seg # segs) cs" "x = pre @ cs" by blast
    then show "\<exists>c cs. fits t pre seg c \<and> resolves t (pre @ [c]) segs cs \<and> x = pre @ c # cs"
      by (cases cs) auto
  next
    assume "\<exists>c cs. fits t pre seg c \<and> resolves t (pre @ [c]) segs cs \<and> x = pre @ c # cs"
    then show "\<exists>cs. resolves t pre (seg # segs) cs \<and> x = pre @ cs" by (metis resolves.simps(3))
  qed
  have "x \<in> set (expand_list t (seg # segs) pres) \<longleftrightarrow>
      (\<exists>pre \<in> set pres. \<exists>cs. resolves t pre (seg # segs) cs \<and> x = pre @ cs)" for x
    unfolding a b ..
  then show ?case by (auto simp only: set_eq_iff mem_Collect_eq)
qed auto

lemma distinct_expand_list:
  assumes "wf_node (root t)"
  shows "distinct pres \<Longrightarrow> distinct (expand_list t segs pres)"
proof (induction segs arbitrary: pres)
  case (Cons seg segs)
  have d: "distinct (choices t seg pre)" for pre
    using distinct_inst_names [OF assms] by (auto simp: choices_def split: option.splits)
  have "distinct (concat (map (extend_pre t seg) pres))"
    using Cons.prems
  proof (induction pres)
    case (Cons pre pres)
    then show ?case using d [of pre] by (auto simp: extend_pre_def distinct_map inj_on_def)
  qed simp
  then show ?case using Cons.IH by simp
qed simp

lemma expand_segment_eq:
  assumes wf: "wf_node (root t)" and pre: "valid_segs pre" "pre \<noteq> []" and lit: "is_literal seg \<Longrightarrow> valid_segs [seg]"
  shows "expand_segment t seg (joinPath pre) =
     (if HasPrefix seg ''['' \<and> parseSearchExpression seg = None then None
      else Some (map joinPath (extend_pre t seg pre)))"
proof -
  have ne: "joinPath pre \<noteq> ''''" using pre joinPath_eq_Nil by blast
  have names: "childInstanceNames t (joinPath pre @ ''.'') = inst_names t pre"
    by (rule childInstanceNames_eq [OF wf parsePath_joinPath_dot [OF pre(1)]])
  have "\<not> HasPrefix ''*'' ''[''" by (simp add: HasPrefix_def)
  then show ?thesis
    using ne by (cases "parseSearchExpression seg")
      (auto simp: expand_segment_def names extend_pre_def choices_def joinPath_snoc [OF pre(2)])
qed

lemma those_all_None: "xs \<noteq> [] \<Longrightarrow> (\<And>x. x \<in> set xs \<Longrightarrow> f x = None) \<Longrightarrow> those (map f xs) = None"
  by (cases xs) auto

lemma valid_extend:
  assumes "valid_segs pre" and "is_literal seg \<Longrightarrow> valid_segs [seg]" and "q \<in> set (extend_pre t seg pre)"
  shows "valid_segs q \<and> q \<noteq> []"
proof -
  from assms(3) obtain c where c: "q = pre @ [c]" "fits t pre seg c"
    unfolding extend_pre_def set_map choices_fits by blast
  then have "valid_segs [c]"
    using assms(2) instance_number_valid by (auto simp: fits_def inst_names_iff is_literal_def split: if_splits)
  with assms(1) c(1) show ?thesis by simp
qed

lemma if_cases: "(b \<Longrightarrow> x = z) \<Longrightarrow> (\<not> b \<Longrightarrow> y = z) \<Longrightarrow> (if b then x else y) = z"
  by simp

lemma expand_segments_eq:
  assumes wf: "wf_node (root t)"
  shows "\<forall>pre \<in> set pres. valid_segs pre \<and> pre \<noteq> [] \<Longrightarrow> \<forall>seg \<in> set segs. is_literal seg \<longrightarrow> valid_segs [seg] \<Longrightarrow>
    expand_segments t segs (map joinPath pres) = map joinPath (expand_list t segs pres)"
proof (induction segs arbitrary: pres)
  case (Cons seg segs)
  note step = expand_segment_eq [OF wf, of _ seg]
  show ?case
  proof (cases "HasPrefix seg ''['' \<and> parseSearchExpression seg = None")
    case True
    have "seg \<noteq> ''*''" using True by (auto simp: HasPrefix_def)
    then have "extend_pre t seg pre = []" for pre using True by (simp add: extend_pre_def choices_def)
    then have "concat (map (extend_pre t seg) pres) = []" by simp
    then have "expand_list t (seg # segs) pres = []" by (simp only: expand_list.simps expand_list_Nil)
    moreover have "pres \<noteq> [] \<Longrightarrow> those (map (expand_segment t seg) (map joinPath pres)) = None"
      using Cons.prems True step by (intro those_all_None) auto
    ultimately show ?thesis by (cases "pres = []") (simp_all del: expand_list.simps(2))
  next
    case False
    let ?next = "concat (map (extend_pre t seg) pres)"
    have a: "those (map (expand_segment t seg) (map joinPath pres)) = Some (map (\<lambda>pre. map joinPath (extend_pre t seg pre)) pres)"
      using Cons.prems False step by (simp add: those_map_Some)
    have b: "concat (map (\<lambda>pre. map joinPath (extend_pre t seg pre)) pres) = map joinPath ?next"
      by (induction pres) auto
    have "\<forall>pre \<in> set ?next. valid_segs pre \<and> pre \<noteq> []"
      using Cons.prems valid_extend [of _ seg _ t] by auto
    then have c: "expand_segments t segs (map joinPath ?next) = map joinPath (expand_list t segs ?next)"
      using Cons.prems by (intro Cons.IH) auto
    show ?thesis
      unfolding expand_segments.simps a option.case b map_is_Nil_conv
      by (rule if_cases) (simp_all only: c expand_list.simps expand_list_Nil list.map)
  qed
qed simp

lemma split_search_clean:
  "CHR ''['' \<notin> set s \<Longrightarrow> CHR '']'' \<notin> set s \<Longrightarrow>
     split_search 0 cur s = (case split_on CHR ''.'' s of [] \<Rightarrow> [cur] | x # xs \<Rightarrow> (cur @ x) # xs)"
proof (induction s arbitrary: cur)
  case (Cons r s)
  then show ?case by (cases "split_on CHR ''.'' s") auto
qed simp

lemma splitSearchPath_clean:
  "CHR ''['' \<notin> set s \<Longrightarrow> CHR '']'' \<notin> set s \<Longrightarrow> splitSearchPath s = split_on CHR ''.'' s"
  by (cases "split_on CHR ''.'' s") (simp_all add: splitSearchPath_def split_search_clean)

lemma resolves_length: "resolves t pre segs cs \<Longrightarrow> length cs = length segs"
  by (induction t pre segs cs rule: resolves.induct) auto

lemma resolves_valid:
  "resolves t pre segs cs \<Longrightarrow> \<forall>seg \<in> set segs. is_literal seg \<longrightarrow> valid_segs [seg] \<Longrightarrow> valid_segs cs"
proof (induction t pre segs cs rule: resolves.induct)
  case (3 t pre seg segs c cs)
  then have "valid_segs [c]"
    using instance_number_valid by (auto simp: fits_def inst_names_iff is_literal_def split: if_splits)
  with 3 show ?case by auto
qed auto

text \<open>The concrete paths of a search path that begins with a name.\<close>

lemma ExpandSearchPath_eq:
  assumes wf: "wf_node (root t)" and search: "CHR ''*'' \<in> set path \<or> CHR ''['' \<in> set path"
    and segs: "splitSearchPath (TrimSuffix path ''.'') = seg # segs"
    and lits: "\<forall>s \<in> set (seg # segs). is_literal s \<longrightarrow> valid_segs [s]" and first: "is_literal seg"
  shows "ExpandSearchPath t path =
     map (\<lambda>cs. joinPath cs @ (if HasSuffix path ''.'' then ''.'' else '''')) (expand_list t (seg # segs) [[]])"
proof -
  have seg: "seg \<noteq> ''*''" "\<not> HasPrefix seg ''[''" using first by (simp_all add: is_literal_def)
  have v: "valid_segs [seg]" using lits first by simp
  have "expand_segments t (seg # segs) [''''] = expand_segments t segs (map joinPath [[seg]])"
    using seg by (simp add: expand_segment_def joinPath_def)
  also have "\<dots> = map joinPath (expand_list t segs [[seg]])"
    by (rule expand_segments_eq [OF wf]) (use v lits in auto)
  also have "expand_list t segs [[seg]] = expand_list t (seg # segs) [[]]"
    using seg by (simp add: extend_pre_def choices_def)
  finally show ?thesis using search segs by (auto simp: ExpandSearchPath_def)
qed

section \<open>Instances by recursion on the tree\<close>

text \<open>The reference for \<^const>\<open>instancePathsUnder\<close>: the instance children of a table and, below each of
  them, the instances of the objects it contains.\<close>

fun instances_below :: "Node \<Rightarrow> string list list" where
  "instances_below (Node cs l a t) =
     concat (map (\<lambda>(k, c).
       if isInstanceNumber k then
         [k] # (case c of Node gcs gl ga gt \<Rightarrow>
           concat (map (\<lambda>(g, gc). if isLeaf gc then [] else map (\<lambda>p. k # g # p) (instances_below gc))
             (sortedKeys gcs)))
       else []) (sortedKeys cs))"

lemma height_bound: "(k, c) \<in> set cs \<Longrightarrow> Suc (height c) \<le> fold (\<lambda>(k, c) m. max (Suc (height c)) m) cs m"
proof (induction cs arbitrary: m)
  case (Cons kc cs)
  have mono: "m \<le> fold (\<lambda>(k, c) m. max (Suc (height c)) m) cs m" for m cs
    by (induction cs arbitrary: m) (auto, metis max.cobounded2 order_trans)
  from Cons show ?case
  proof (cases "kc = (k, c)")
    case True
    then show ?thesis using mono [of "max (Suc (height c)) m" cs] by simp
  qed auto
qed simp

lemma height_child: "(k, c) \<in> set (children n) \<Longrightarrow> height c < height n"
  using height_bound [of k c "children n" 0] by (cases n) simp

lemma those_all_Some:
  "list_all2 (\<lambda>x y. f x = Some y) xs ys \<Longrightarrow> those (map f xs) = Some ys"
  by (induction xs ys rule: list_all2_induct) auto

lemma map_eq_rel: "map f xs = map g ys \<longleftrightarrow> list_all2 (\<lambda>x y. f x = g y) xs ys"
  unfolding list.rel_eq [symmetric] list.rel_map ..

definition below_block :: "string \<times> Node \<Rightarrow> string list list" where
  "below_block kc =
     (if isInstanceNumber (fst kc) then
        [fst kc] # concat (map (\<lambda>(g, gc). if isLeaf gc then [] else map (\<lambda>p. fst kc # g # p) (instances_below gc))
          (sortedKeys (children (snd kc))))
      else [])"

lemma instances_below_eq: "instances_below n = concat (map below_block (sortedKeys (children n)))"
  by (cases n) (auto simp: below_block_def intro!: arg_cong [where f = concat] map_cong split: Node.splits)

definition full :: "string list \<Rightarrow> string list \<Rightarrow> string" where
  "full segs q = joinPath (segs @ q) @ ''.''"

lemma those_children:
  assumes "map ci_Name cs = map (child_name segs) kcs"
    and "\<And>child kc. kc \<in> set kcs \<Longrightarrow> ci_Name child = child_name segs kc \<Longrightarrow> f child = Some (map (full pre) (g kc))"
  shows "map_option concat (those (map f cs)) = Some (map (full pre) (concat (map g kcs)))"
proof -
  have "list_all2 (\<lambda>child kc. f child = Some (map (full pre) (g kc))) cs kcs"
    using assms(1) unfolding map_eq_rel by (rule list.rel_mono_strong) (use assms(2) in auto)
  then have "list_all2 (\<lambda>child y. f child = Some y) cs (map (\<lambda>kc. map (full pre) (g kc)) kcs)"
    by (simp add: list_all2_map2)
  from those_all_Some [OF this] show ?thesis by (simp add: map_concat comp_def)
qed

lemma instancePathsUnder_ok:
  assumes "wf_node (root t)" and "parsePath p = Inr segs" and "node_at segs (root t) = Some n" and "\<not> isLeaf n"
    and "height n < fuel"
  shows "instancePathsUnder fuel t p False = Some (Inr (map (full segs) (instances_below n)))"
  using assms(2-5)
proof (induction fuel arbitrary: p segs n)
  case (Suc fuel)
  have v: "valid_segs segs" by (rule parsePath_valid [OF Suc.prems(1)])
  obtain cs where cs: "Children p t = Inr cs" "map ci_Name cs = map (child_name segs) (sortedKeys (children n))"
    using Children_ok [OF Suc.prems(1-3)] by blast
  let ?deep = "\<lambda>gc. if \<not> HasSuffix (ci_Name gc) ''.'' then Some []
         else case instancePathsUnder fuel t (ci_Name gc) False of
                None \<Rightarrow> None | Some (Inl _) \<Rightarrow> Some [] | Some (Inr deeper) \<Rightarrow> Some deeper"
  let ?objs = "\<lambda>(g, gn). if isLeaf gn then [] else map ((#) g) (instances_below gn)"
  have deeper: "?deep gc = Some (map (full (segs @ [k])) (?objs gkc))"
    if k: "(k, c) \<in> set (children n)" and g: "gkc \<in> set (children c)"
      and name: "ci_Name gc = child_name (segs @ [k]) gkc" for k c gkc gc
  proof -
    obtain g gn where gkc: "gkc = (g, gn)" by (cases gkc)
    note child = valid_child [OF assms(1) Suc.prems(2) k]
    note grand = valid_child [OF assms(1) child(3), of g gn]
    have vg: "valid_segs ((segs @ [k]) @ [g])" using v child(1) grand(1) g gkc by simp
    show ?thesis
    proof (cases "isLeaf gn")
      case True
      then show ?thesis using name gkc joinPath_no_dot_suffix [OF vg] by (simp add: child_name_def)
    next
      case False
      have h: "height gn < fuel"
        using height_child [OF k] height_child [of g gn c] g gkc Suc.prems(4) by auto
      have "instancePathsUnder fuel t (joinPath ((segs @ [k]) @ [g]) @ ''.'') False =
          Some (Inr (map (full ((segs @ [k]) @ [g])) (instances_below gn)))"
        by (rule Suc.IH [OF parsePath_joinPath_dot [OF vg] _ False h]) (use grand(3) g gkc in auto)
      then show ?thesis using name gkc False by (simp add: child_name_def full_def comp_def)
    qed
  qed
  let ?body = "\<lambda>child. if \<not> isInstanceNumber (lastSegment (ci_Name child)) then Some []
      else (let childPath = with_dot (ci_Name child) in
            case Children childPath t of
              Inl _ \<Rightarrow> Some [childPath]
            | Inr gcs \<Rightarrow> map_option (\<lambda>xs. childPath # concat xs) (those (map ?deep gcs)))"
  have block: "?body child = Some (map (full segs) (below_block kc))"
    if kc: "kc \<in> set (sortedKeys (children n))" and name: "ci_Name child = child_name segs kc" for child kc
  proof -
    obtain k c where [simp]: "kc = (k, c)" by (cases kc)
    from kc have k: "(k, c) \<in> set (children n)" by simp
    note child = valid_child [OF assms(1) Suc.prems(2) k]
    have path: "with_dot (ci_Name child) = joinPath (segs @ [k]) @ ''.''" "lastSegment (ci_Name child) = k"
      using with_dot_child [OF v, of kc] lastSegment_child [OF v, of kc] child(1) name by simp_all
    have pp: "parsePath (joinPath (segs @ [k]) @ ''.'') = Inr (segs @ [k])"
      using v child(1) by (intro parsePath_joinPath_dot) simp
    show ?thesis
    proof (cases "Children (joinPath (segs @ [k]) @ ''.'') t")
      case (Inl e)
      with Children_Inl [OF Inl pp child(3)] child(2) have "children c = []" unfolding wf_node_iff [of c] by blast
      then show ?thesis using Inl path by (simp add: below_block_def full_def sortedKeys_def)
    next
      case (Inr gcs)
      then obtain "map ci_Name gcs = map (child_name (segs @ [k])) (sortedKeys (children c))"
        using pp child(3) by (elim Children_Inr) auto
      then have "map_option concat (those (map ?deep gcs)) =
          Some (map (full (segs @ [k])) (concat (map ?objs (sortedKeys (children c)))))"
      proof (rule those_children)
        fix gc gkc
        assume "gkc \<in> set (sortedKeys (children c))" and "ci_Name gc = child_name (segs @ [k]) gkc"
        then show "?deep gc = Some (map (full (segs @ [k])) (?objs gkc))" by (intro deeper [OF k]) simp_all
      qed
      moreover have "map (full (segs @ [k])) (concat (map ?objs gs)) =
          map (full segs) (concat (map (\<lambda>(g, gc). if isLeaf gc then [] else map (\<lambda>p. k # g # p) (instances_below gc)) gs))" for gs
        by (induction gs) (auto simp: full_def)
      ultimately obtain z where z: "those (map ?deep gcs) = Some z" "concat z =
          map (full segs) (concat (map (\<lambda>(g, gc). if isLeaf gc then [] else map (\<lambda>p. k # g # p) (instances_below gc))
            (sortedKeys (children c))))" by auto
      have "full segs [k] = joinPath (segs @ [k]) @ ''.''" by (simp only: full_def)
      then show ?thesis
        using Inr path z unfolding below_block_def \<open>kc = (k, c)\<close> fst_conv snd_conv by simp
    qed
  qed
  have "map_option concat (those (map ?body cs)) =
      Some (map (full segs) (concat (map below_block (sortedKeys (children n)))))"
    by (rule those_children [OF cs(2)]) (rule block)
  then obtain z where "those (map ?body cs) = Some z" "concat z = map (full segs) (instances_below n)"
    unfolding instances_below_eq by auto
  then show ?case unfolding instancePathsUnder.simps cs(1) sum.case if_False by simp
qed simp

lemma height_node_at: "node_at p n = Some m \<Longrightarrow> height m \<le> height n"
proof (induction p arbitrary: n)
  case (Cons k p)
  then obtain c where "map_of (children n) k = Some c" "node_at p c = Some m"
    by (auto split: option.splits if_splits)
  with Cons.IH height_child [OF map_of_SomeD] show ?case by fastforce
qed simp

lemma split_on_chars: "seg \<in> set (split_on c s) \<Longrightarrow> set seg \<subseteq> set s"
proof (induction s arbitrary: seg)
  case (Cons x s)
  show ?case
  proof (cases "split_on c s")
    case (Cons y ys)
    then have "set y \<subseteq> set s" "\<forall>z \<in> set ys. set z \<subseteq> set s" using Cons.IH by auto
    with Cons Cons.prems show ?thesis by (auto split: if_splits)
  qed (use Cons.prems in \<open>auto split: if_splits\<close>)
qed simp

lemma resolves_match:
  "resolves t pre segs cs \<Longrightarrow> \<forall>s \<in> set segs. \<not> HasPrefix s ''['' \<Longrightarrow> list_all2 match_segment segs cs"
proof (induction t pre segs cs rule: resolves.induct)
  case (3 t pre seg segs c cs)
  then have "match_segment seg c" by (auto simp: fits_def match_segment_def inst_names_iff)
  with 3 show ?case by auto
qed auto

lemma TrimSuffix_subset: "set (TrimSuffix s suf) \<subseteq> set s"
  by (auto simp: TrimSuffix_def dest: in_set_takeD)

section \<open>Properties\<close>

text \<open>An endpoint identifier is at most 54 bytes long, its instance part consists of unreserved
  characters and percent signs only, and it determines the device: two devices whose OUI has no dash
  get the same identifier only when OUI and serial number agree.\<close>

theorem EndpointID_determines_device:
  assumes "EndpointIDFor oui serial = Inr e" and "EndpointIDFor oui' serial' = Inr e"
    and "CHR ''-'' \<notin> set oui" and "CHR ''-'' \<notin> set oui'"
  shows "oui = oui' \<and> serial = serial' \<and> length e \<le> 54
    \<and> take 4 e = ''os::'' \<and> list_all (\<lambda>c. unreserved c \<or> c = CHR ''%'') (drop 4 e)"
proof -
  from assms(1,2) have "escapeInstanceID oui @ CHR ''-'' # escapeInstanceID serial =
      escapeInstanceID oui' @ CHR ''-'' # escapeInstanceID serial'" by (simp add: EndpointIDFor_Inr)
  from append_sep_inject [OF escape_id_no_dash [OF assms(3)] escape_id_no_dash [OF assms(4)] this]
  have "escapeInstanceID oui = escapeInstanceID oui'" "escapeInstanceID serial = escapeInstanceID serial'" by auto
  then have "oui = oui'" "serial = serial'" by (metis unescape_escape_id)+
  moreover have "list_all (\<lambda>c. unreserved c \<or> c = CHR ''%'') (escapeInstanceID s)" for s
    using escape_octet_chars by (induction s) (auto simp: escapeInstanceID_def list_all_iff)
  ultimately show ?thesis using assms(1) by (auto simp: EndpointIDFor_Inr unreserved_def)
qed


text \<open>The two readings of a star agree: a subscription with a wildcard reference matches every path
  the same reference resolves to as a search path.\<close>

theorem expansion_matches_subscription:
  assumes "wf_node (root t)" and "CHR ''*'' \<in> set path" and "CHR ''['' \<notin> set path" and "CHR '']'' \<notin> set path"
    and "split_on CHR ''.'' (TrimSuffix path ''.'') = seg # segs" and "seg \<noteq> ''*''"
    and "\<forall>s \<in> set (seg # segs). s \<noteq> ''*'' \<longrightarrow> valid_segs [s]"
    and "q \<in> set (ExpandSearchPath t path)"
  shows "matchWildcardPath path q"
proof -
  let ?p = "TrimSuffix path ''.''"
  have no: "CHR ''['' \<notin> set ?p" "CHR '']'' \<notin> set ?p" using TrimSuffix_subset assms(3,4) by blast+
  have no_bracket: "\<not> HasPrefix s ''[''" if "s \<in> set (seg # segs)" for s
  proof -
    have "set s \<subseteq> set ?p" by (rule split_on_chars [of _ "CHR ''.''"]) (use assms(5) that in simp)
    then have "CHR ''['' \<notin> set s" using no(1) by blast
    then show ?thesis by (cases s) (auto simp: HasPrefix_def)
  qed
  have segs: "splitSearchPath ?p = seg # segs" using splitSearchPath_clean [OF no] assms(5) by simp
  have lit: "is_literal seg" using assms(6) no_bracket by (simp add: is_literal_def)
  have lits: "\<forall>s \<in> set (seg # segs). is_literal s \<longrightarrow> valid_segs [s]" using assms(7) by (auto simp: is_literal_def)
  have "set (expand_list t (seg # segs) [[]]) = {cs. resolves t [] (seg # segs) cs}" unfolding set_expand_list by auto
  then obtain cs where q: "q = joinPath cs @ (if HasSuffix path ''.'' then ''.'' else '''')"
    and cs: "resolves t [] (seg # segs) cs"
    using assms(8) ExpandSearchPath_eq [OF assms(1) _ segs lits lit] assms(2) by auto
  have v: "valid_segs cs" by (rule resolves_valid [OF cs lits])
  have len: "length cs = length (seg # segs)" by (rule resolves_length [OF cs])
  then have ne: "cs \<noteq> []" by auto
  have "TrimSuffix q ''.'' = joinPath cs" using q TrimSuffix_joinPath [OF v] by (simp add: TrimSuffix_append)
  then have "split_on CHR ''.'' (TrimSuffix q ''.'') = cs" using split_on_joinPath [OF v ne] by simp
  moreover have "list_all2 match_segment (seg # segs) cs" by (rule resolves_match [OF cs]) (use no_bracket in blast)
  ultimately show ?thesis unfolding matchWildcardPath_def Let_def assms(5) using len by simp
qed


definition text_leaf :: "string \<Rightarrow> Node" where
  "text_leaf s = NewLeaf \<lparr>VType = TypeString, Raw = s, Writable = True\<rparr>"

definition profile_tree :: Tree where
  "profile_tree = New\<lparr>root :=
     Node [(''Profile'', Node
       [(''1'', Node [(''Alias'', text_leaf ''x''),
          (''HTTP'', Node [(''Param'', Node [(''1'', Node [(''Name'', text_leaf ''n'')] None None None)] None None
             (Some NewBranch))] None None None)] None None None),
        (''2'', Node [(''Alias'', text_leaf ''y'')] None None None)] None None (Some NewBranch))] None None None\<rparr>"

text \<open>The listing descends from an instance to the objects directly inside it only.  A table that
  lies one object deeper, like the URI parameters inside the HTTP object of a bulk data profile, is not
  reported although its instance exists.\<close>

theorem nested_table_missed:
  "instancePathsUnder (Suc (height (root profile_tree))) profile_tree ''Profile.'' False =
     Some (Inr [''Profile.1.'', ''Profile.2.''])
   \<and> Get ''Profile.1.HTTP.Param.1.Name'' profile_tree = Inr \<lparr>VType = TypeString, Raw = ''n'', Writable = True\<rparr>"
  by code_simp

section \<open>Witnesses\<close>

theorem EndpointID_determines_device_witness:
  "EndpointIDFor ''00D09E'' ''A 1'' = Inr ''os::00D09E-A%201'' \<and> length ''os::00D09E-A%201'' \<le> 54"
proof -
  have e: "EndpointIDFor ''00D09E'' ''A 1'' = Inr ''os::00D09E-A%201''" by code_simp
  show ?thesis using EndpointID_determines_device [OF e e] e by simp
qed

lemma profile_wf: "wf_node (root profile_tree)"
  by (simp add: profile_tree_def text_leaf_def NewLeaf_def NewBranch_def New_def tree_eval)


theorem expansion_matches_subscription_witness: "matchWildcardPath ''Profile.*.'' ''Profile.1.''"
proof (rule expansion_matches_subscription [OF profile_wf, of _ "''Profile''" "[''*'']"])
  show "''Profile.1.'' \<in> set (ExpandSearchPath profile_tree ''Profile.*.'')" by code_simp
  show "split_on CHR ''.'' (TrimSuffix ''Profile.*.'' ''.'') = ''Profile'' # [''*'']" by code_simp
qed (auto simp: tree_eval)


end
