(* ===== verification/UspNotify.thy ===== *)
theory UspNotify
  imports UspPath
begin

text \<open>
  The USP agent's messages, subscriptions and notifications: \<^verbatim>\<open>subscriptions.go\<close>, the constructors of
  \<^verbatim>\<open>messages.go\<close>, and sending in \<^verbatim>\<open>runner.go\<close> of \<^verbatim>\<open>src/internal/usp/agent\<close>.

  The agent is a record of its tree, the identifier under which its notifier observes the tree, the
  message counter and the messages that went out.  The transport is an argument of the state: what
  publishing a message returns.  Every operation on the tree is followed by the notifier's reaction to
  the changes that operation handed out (\<open>after_op\<close>); the source sends these notifications from
  goroutines of their own, whose order on the wire is left open, here they are appended in the order
  the goroutines are started.
\<close>

section \<open>Messages\<close>

type_synonym params = "(string \<times> string) list"

record Identity =
  EndpointID :: string
  id_OUI :: string
  id_ProductClass :: string
  id_SerialNumber :: string

record CommandFailure =
  cf_ErrCode :: nat
  cf_ErrMsg :: string

datatype Notification =
    OnBoardReq string string string string
  | ValueChangeN string string
  | ObjCreationN string params
  | ObjDeletionN string
  | EventN string string params
  | OperCompleteN string string string "CommandFailure + params"

record Notify =
  SubscriptionId :: string
  SendResp :: bool
  notification :: Notification

record ResolvedPathResult =
  ResolvedPath :: string
  ResultParams :: params

record RequestedPathResult =
  gr_RequestedPath :: string
  gr_ErrCode :: nat
  gr_ErrMsg :: string
  gr_Resolved :: "ResolvedPathResult list"

record ParameterError =
  pe_Param :: string
  pe_ErrCode :: nat
  pe_ErrMsg :: string

record UpdatedInstanceResult =
  AffectedPath :: string
  UpdatedParams :: params
  ui_ParamErrs :: "ParameterError list"

record CreatedSuccess =
  InstantiatedPath :: string
  cs_ParamErrs :: "ParameterError list"
  cs_UniqueKeys :: params

record CurrInstance =
  InstantiatedObjPath :: string
  ci_UniqueKeys :: params

record InstancesResult =
  ir_RequestedPath :: string
  ir_ErrCode :: nat
  ir_ErrMsg :: string
  CurrInsts :: "CurrInstance list"

datatype ParamAccess = PARAM_READ_WRITE | PARAM_READ_ONLY
datatype ParamValueType = PARAM_BOOLEAN | PARAM_INT | PARAM_UNSIGNED_INT | PARAM_DATE_TIME | PARAM_STRING

record SupportedParam =
  ParamName :: string
  sp_Access :: ParamAccess
  sp_ValueType :: ParamValueType

record SupportedObject =
  SupportedObjPath :: string
  IsMultiInstance :: bool
  SupportedParams :: "SupportedParam list"

record SupportedResult =
  ReqObjPath :: string
  sr_ErrCode :: nat
  sr_ErrMsg :: string
  SupportedObjs :: "SupportedObject list"

datatype OperationResp = ReqOutputArgs params | ReqObjPathR string | CmdFailure CommandFailure

datatype Body =
    NotifyB Notify
  | GetRespB "RequestedPathResult list"
  | SetRespB "(string \<times> (CommandFailure + UpdatedInstanceResult list)) list"
  | AddRespB "(string \<times> (CommandFailure + CreatedSuccess)) list"
  | DeleteRespB "(string \<times> (CommandFailure + string list)) list"
  | GetInstancesRespB "InstancesResult list"
  | GetSupportedDMRespB "SupportedResult list"
  | OperateRespB string OperationResp
  | ErrorB nat string

datatype MsgType = NOTIFY | GET_RESP | SET_RESP | ADD_RESP | DELETE_RESP | GET_INSTANCES_RESP
  | GET_SUPPORTED_DM_RESP | OPERATE_RESP | ERROR

record Msg =
  MsgId :: string
  Header_type :: MsgType
  body :: Body

definition notify_msg :: "string \<Rightarrow> string \<Rightarrow> Notification \<Rightarrow> Msg" where
  "notify_msg msgID subscriptionID n =
     \<lparr>MsgId = msgID, Header_type = NOTIFY,
      body = NotifyB \<lparr>SubscriptionId = subscriptionID, SendResp = False, notification = n\<rparr>\<rparr>"

definition AgentSupportedProtocolVersions :: string where
  "AgentSupportedProtocolVersions = ''1.3''"

definition NewOnBoardRequest :: "string \<Rightarrow> Identity \<Rightarrow> Msg" where
  "NewOnBoardRequest msgID ident =
     notify_msg msgID ''onboard''
       (OnBoardReq (id_OUI ident) (id_ProductClass ident) (id_SerialNumber ident) AgentSupportedProtocolVersions)"

definition NewEventNotify :: "string \<Rightarrow> string \<Rightarrow> string \<Rightarrow> string \<Rightarrow> params \<Rightarrow> Msg" where
  "NewEventNotify msgID sub objPath eventName ps = notify_msg msgID sub (EventN objPath eventName ps)"

definition NewBootNotify :: "string \<Rightarrow> string \<Rightarrow> string \<Rightarrow> string \<Rightarrow> string \<Rightarrow> bool \<Rightarrow> params \<Rightarrow> Msg" where
  "NewBootNotify msgID sub objPath cause commandKey firmwareUpdated bootParams =
     NewEventNotify msgID sub objPath ''Boot!''
       ([(''CommandKey'', commandKey), (''Cause'', cause),
         (''FirmwareUpdated'', if firmwareUpdated then ''true'' else ''false'')]
        @ (if 0 < length bootParams then [(''ParameterMap'', encodeParameterMap bootParams)] else []))"

definition NewValueChangeNotify :: "string \<Rightarrow> string \<Rightarrow> string \<Rightarrow> string \<Rightarrow> Msg" where
  "NewValueChangeNotify msgID sub path val = notify_msg msgID sub (ValueChangeN path val)"

definition NewObjectCreationNotify :: "string \<Rightarrow> string \<Rightarrow> string \<Rightarrow> params \<Rightarrow> Msg" where
  "NewObjectCreationNotify msgID sub objPath keys = notify_msg msgID sub (ObjCreationN objPath keys)"

definition NewObjectDeletionNotify :: "string \<Rightarrow> string \<Rightarrow> string \<Rightarrow> Msg" where
  "NewObjectDeletionNotify msgID sub objPath = notify_msg msgID sub (ObjDeletionN objPath)"

definition NewOperationCompleteNotify ::
  "string \<Rightarrow> string \<Rightarrow> string \<Rightarrow> string \<Rightarrow> string \<Rightarrow> params \<Rightarrow> CommandFailure option \<Rightarrow> Msg" where
  "NewOperationCompleteNotify msgID sub objPath commandName commandKey outputArgs failure =
     notify_msg msgID sub (OperCompleteN objPath commandName commandKey
       (case failure of Some f \<Rightarrow> Inl f | None \<Rightarrow> Inr outputArgs))"

definition NewError :: "string \<Rightarrow> nat \<Rightarrow> string \<Rightarrow> Msg" where
  "NewError msgID code msg = \<lparr>MsgId = msgID, Header_type = ERROR, body = ErrorB code msg\<rparr>"

section \<open>Subscriptions\<close>

abbreviation "LocalAgentEndpointID \<equiv> ''Device.LocalAgent.EndpointID''"
abbreviation "ControllerTablePath \<equiv> ''Device.LocalAgent.Controller.''"
abbreviation "SubscriptionTablePath \<equiv> ''Device.LocalAgent.Subscription.''"

record Subscription =
  InstancePath :: string
  sub_ID :: string
  sub_Enable :: bool
  NotifType :: string
  ReferenceList :: "string list"

definition match_ref :: "string \<Rightarrow> string \<Rightarrow> bool" where
  "match_ref path ref =
     (if ref = '''' then False
      else if CHR ''*'' \<in> set ref then matchWildcardPath ref path
      else if HasSuffix ref ''.'' then HasPrefix path ref
      else path = ref)"

definition Matches :: "Subscription \<Rightarrow> string \<Rightarrow> bool" where
  "Matches s path = list_ex (match_ref path) (ReferenceList s)"

text \<open>\<^verbatim>\<open>strings.FieldsFunc\<close>: the maximal runs of characters that are no separator.\<close>

fun fields :: "(char \<Rightarrow> bool) \<Rightarrow> string \<Rightarrow> string \<Rightarrow> string list" where
  "fields f cur [] = (if cur = [] then [] else [cur])"
| "fields f cur (c # s) =
     (if f c then (if cur = [] then fields f [] s else cur # fields f [] s) else fields f (cur @ [c]) s)"

definition splitReferenceList :: "string \<Rightarrow> string list" where
  "splitReferenceList raw =
     filter (\<lambda>f. f \<noteq> '''') (map TrimSpace (fields (\<lambda>c. c \<in> {CHR '' '', CHR '','', CHR 0x09, CHR 0x0A}) [] raw))"

definition read_leaf :: "Tree \<Rightarrow> string \<Rightarrow> string option" where
  "read_leaf t p = (case Get p t of Inl _ \<Rightarrow> None | Inr v \<Rightarrow> Some (Raw v))"

definition read_subscription :: "Tree \<Rightarrow> string \<Rightarrow> Subscription" where
  "read_subscription t inst =
     \<lparr>InstancePath = inst,
      sub_ID = (case read_leaf t (inst @ ''ID'') of None \<Rightarrow> '''' | Some r \<Rightarrow> r),
      sub_Enable = (case read_leaf t (inst @ ''Enable'') of None \<Rightarrow> False | Some r \<Rightarrow> r = ''true'' \<or> r = ''1''),
      NotifType = (case read_leaf t (inst @ ''NotifType'') of None \<Rightarrow> '''' | Some r \<Rightarrow> r),
      ReferenceList = (case read_leaf t (inst @ ''ReferenceList'') of None \<Rightarrow> [] | Some r \<Rightarrow> splitReferenceList r)\<rparr>"

definition SubscriptionTable :: "Tree \<Rightarrow> Subscription list" where
  "SubscriptionTable t =
     (case Children SubscriptionTablePath t of
        Inl _ \<Rightarrow> []
      | Inr cs \<Rightarrow> map (read_subscription t)
          (filter (isInstanceNumber \<circ> lastSegment) (map (with_dot \<circ> ci_Name) cs)))"

definition uniqueKeysFor :: "Tree \<Rightarrow> string \<Rightarrow> params" where
  "uniqueKeysFor t instancePath =
     List.map_filter (\<lambda>k. case read_leaf t (instancePath @ k) of
                             None \<Rightarrow> None | Some r \<Rightarrow> if r = '''' then None else Some (k, r))
       [''Alias'', ''SSID'', ''MACAddress'', ''Name'', ''Interface'']"

section \<open>The agent\<close>

record AgentConfig =
  cfg_Identity :: Identity
  ControllerID :: string
  BootParameters :: "string list"
  BootSubscriptionID :: string

record Agent =
  ag_cfg :: AgentConfig
  ag_tree :: Tree
  ag_observer :: "nat option"
  ag_msgSeq :: nat
  ag_publish :: "Msg \<Rightarrow> goerr + unit"
  ag_sent :: "Msg list"

definition nextMsgID :: "string \<Rightarrow> Agent \<Rightarrow> string \<times> Agent" where
  "nextMsgID msg_kind a =
     (let n = Suc (ag_msgSeq a)
      in (msg_kind @ ''-'' @ id_SerialNumber (cfg_Identity (ag_cfg a)) @ ''-'' @ show_nat n, a\<lparr>ag_msgSeq := n\<rparr>))"

definition send_msg :: "Msg \<Rightarrow> Agent \<Rightarrow> (goerr + unit) \<times> Agent" where
  "send_msg m a =
     (case ag_publish a m of
        Inl e \<Rightarrow> (Inl e, a)
      | Inr _ \<Rightarrow> (Inr (), a\<lparr>ag_sent := ag_sent a @ [m]\<rparr>))"

fun notifTypeFor :: "ChangeKind \<Rightarrow> string" where
  "notifTypeFor ChangeObjectCreated = ''ObjectCreation''"
| "notifTypeFor ChangeObjectDeleted = ''ObjectDeletion''"
| "notifTypeFor ChangeValue = ''ValueChange''"

definition buildNotify :: "Subscription \<Rightarrow> Change \<Rightarrow> Agent \<Rightarrow> Msg \<times> Agent" where
  "buildNotify sub c a =
     (case ch_Kind c of
        ChangeValue \<Rightarrow> (let (mid, a') = nextMsgID ''vc'' a
                        in (NewValueChangeNotify mid (sub_ID sub) (ch_Path c) (Raw (ch_New c)), a'))
      | ChangeObjectCreated \<Rightarrow> (let (mid, a') = nextMsgID ''objadd'' a
                        in (NewObjectCreationNotify mid (sub_ID sub) (ch_Path c) (uniqueKeysFor (ag_tree a') (ch_Path c)), a'))
      | ChangeObjectDeleted \<Rightarrow> (let (mid, a') = nextMsgID ''objdel'' a
                        in (NewObjectDeletionNotify mid (sub_ID sub) (ch_Path c), a')))"

definition wants :: "Change \<Rightarrow> Subscription \<Rightarrow> bool" where
  "wants c sub \<longleftrightarrow> sub_Enable sub \<and> NotifType sub = notifTypeFor (ch_Kind c) \<and> Matches sub (ch_Path c)"

fun notify_subs :: "Change \<Rightarrow> Subscription list \<Rightarrow> Agent \<Rightarrow> Agent" where
  "notify_subs c [] a = a"
| "notify_subs c (sub # subs) a =
     (if \<not> wants c sub then notify_subs c subs a
      else (let (m, a1) = buildNotify sub c a; (_, a2) = send_msg m a1 in notify_subs c subs a2))"

definition notifier_notify :: "Change \<Rightarrow> Agent \<Rightarrow> Agent" where
  "notifier_notify c a =
     (if HasPrefix (ch_Path c) SubscriptionTablePath then a
      else notify_subs c (SubscriptionTable (ag_tree a)) a)"

text \<open>The state after an operation on the tree: the new tree, and the observer has handled the changes
  this operation delivered to it.\<close>

definition react :: "(nat \<times> Change) list \<Rightarrow> Agent \<Rightarrow> Agent" where
  "react news a = fold (\<lambda>(oid, c) a'. if ag_observer a' = Some oid then notifier_notify c a' else a') news a"

definition after_op :: "Tree \<Rightarrow> Agent \<Rightarrow> Agent" where
  "after_op t a = react (drop (length (delivered (ag_tree a))) (delivered t)) (a\<lparr>ag_tree := t\<rparr>)"

definition ReportValueChange :: "string \<Rightarrow> string \<Rightarrow> Agent \<Rightarrow> Agent" where
  "ReportValueChange path val a =
     (if ag_observer a = None then a
      else notifier_notify \<lparr>ch_Path = path, ch_Old = zero_Value, ch_New = zero_Value\<lparr>Raw := val\<rparr>,
                            ch_Kind = ChangeValue\<rparr> a)"

section \<open>What a notification leaves alone\<close>

lemma nextMsgID_sel [simp]:
  "ag_tree (snd (nextMsgID k a)) = ag_tree a" "ag_cfg (snd (nextMsgID k a)) = ag_cfg a"
  "ag_observer (snd (nextMsgID k a)) = ag_observer a" "ag_publish (snd (nextMsgID k a)) = ag_publish a"
  "ag_sent (snd (nextMsgID k a)) = ag_sent a" "ag_msgSeq (snd (nextMsgID k a)) = Suc (ag_msgSeq a)"
  by (simp_all add: nextMsgID_def Let_def)

lemma send_msg_sel [simp]:
  "ag_tree (snd (send_msg m a)) = ag_tree a" "ag_cfg (snd (send_msg m a)) = ag_cfg a"
  "ag_observer (snd (send_msg m a)) = ag_observer a" "ag_publish (snd (send_msg m a)) = ag_publish a"
  "ag_msgSeq (snd (send_msg m a)) = ag_msgSeq a"
  by (simp_all add: send_msg_def split: sum.split)

text \<open>What a notification says about a change.\<close>

fun change_tag :: "ChangeKind \<Rightarrow> string" where
  "change_tag ChangeValue = ''vc''"
| "change_tag ChangeObjectCreated = ''objadd''"
| "change_tag ChangeObjectDeleted = ''objdel''"

definition about :: "Change \<Rightarrow> Tree \<Rightarrow> Notification" where
  "about c t =
     (case ch_Kind c of
        ChangeValue \<Rightarrow> ValueChangeN (ch_Path c) (Raw (ch_New c))
      | ChangeObjectCreated \<Rightarrow> ObjCreationN (ch_Path c) (uniqueKeysFor t (ch_Path c))
      | ChangeObjectDeleted \<Rightarrow> ObjDeletionN (ch_Path c))"

lemma buildNotify_eq:
  "buildNotify sub c a =
     (notify_msg (fst (nextMsgID (change_tag (ch_Kind c)) a)) (sub_ID sub) (about c (ag_tree a)),
      snd (nextMsgID (change_tag (ch_Kind c)) a))"
  by (cases "ch_Kind c")
    (simp_all add: buildNotify_def about_def case_prod_unfold Let_def NewValueChangeNotify_def NewObjectCreationNotify_def
      NewObjectDeletionNotify_def)

lemma notify_subs_sel [simp]:
  "ag_tree (notify_subs c subs a) = ag_tree a \<and> ag_cfg (notify_subs c subs a) = ag_cfg a
   \<and> ag_observer (notify_subs c subs a) = ag_observer a \<and> ag_publish (notify_subs c subs a) = ag_publish a"
  by (induction subs arbitrary: a) (auto simp: buildNotify_eq case_prod_unfold Let_def)

lemma notifier_sel [simp]:
  "ag_tree (notifier_notify c a) = ag_tree a" "ag_cfg (notifier_notify c a) = ag_cfg a"
  "ag_observer (notifier_notify c a) = ag_observer a" "ag_publish (notifier_notify c a) = ag_publish a"
  by (simp_all add: notifier_notify_def)

lemma react_sel [simp]:
  "ag_tree (react news a) = ag_tree a \<and> ag_cfg (react news a) = ag_cfg a
   \<and> ag_observer (react news a) = ag_observer a \<and> ag_publish (react news a) = ag_publish a"
  by (induction news arbitrary: a) (auto simp: react_def)

lemma after_op_sel [simp]:
  "ag_tree (after_op t a) = t" "ag_cfg (after_op t a) = ag_cfg a"
  "ag_observer (after_op t a) = ag_observer a" "ag_publish (after_op t a) = ag_publish a"
  by (simp_all add: after_op_def)

section \<open>Invariants of the agent\<close>

text \<open>The steps everything the agent does is made of: an operation of the tree, a fresh message number,
  a notification under that number, an answer to the controller.  What these keep, every handler keeps.\<close>

locale agent_invariant =
  fixes I :: "Agent \<Rightarrow> bool"
  assumes op_Set: "I a \<Longrightarrow> I (a\<lparr>ag_tree := snd (Tree_Set p v (ag_tree a))\<rparr>)"
    and op_SetSystem: "I a \<Longrightarrow> I (a\<lparr>ag_tree := snd (SetSystem p r (ag_tree a))\<rparr>)"
    and op_AddObject: "I a \<Longrightarrow> I (a\<lparr>ag_tree := snd (AddObject p (ag_tree a))\<rparr>)"
    and op_DeleteObject: "I a \<Longrightarrow> I (a\<lparr>ag_tree := snd (DeleteObject p (ag_tree a))\<rparr>)"
    and op_Mount: "I a \<Longrightarrow> wf_node n \<Longrightarrow> I (a\<lparr>ag_tree := snd (Mount p n (ag_tree a))\<rparr>)"
    and op_AddTable: "I a \<Longrightarrow> wf_node n \<Longrightarrow> I (a\<lparr>ag_tree := snd (AddTable p (Some n) (ag_tree a))\<rparr>)"
    and fresh: "I a \<Longrightarrow> I (snd (nextMsgID k a))"
    and notified: "I a \<Longrightarrow> I ((snd (nextMsgID k a))\<lparr>ag_sent := ag_sent a @ [notify_msg (fst (nextMsgID k a)) sub what]\<rparr>)"
    and answered: "I a \<Longrightarrow> Header_type m \<noteq> NOTIFY \<Longrightarrow> I (a\<lparr>ag_sent := ag_sent a @ [m]\<rparr>)"
begin

lemma send_notify: "I a \<Longrightarrow> I (snd (send_msg (notify_msg (fst (nextMsgID k a)) sub what) (snd (nextMsgID k a))))"
  using fresh [of a k] notified [of a k sub what] by (simp add: send_msg_def split: sum.split)

lemma send_answer: "I a \<Longrightarrow> Header_type m \<noteq> NOTIFY \<Longrightarrow> I (snd (send_msg m a))"
  using answered [of a m] by (simp add: send_msg_def split: sum.split)

lemma notify_subs_keeps: "I a \<Longrightarrow> I (notify_subs c subs a)"
  by (induction subs arbitrary: a) (auto simp: buildNotify_eq case_prod_unfold Let_def send_notify)

lemma notifier_keeps: "I a \<Longrightarrow> I (notifier_notify c a)"
  by (simp add: notifier_notify_def notify_subs_keeps)

lemma react_keeps: "I a \<Longrightarrow> I (react news a)"
  by (induction news arbitrary: a) (auto simp: react_def notifier_keeps)

lemma after_keeps: "I (a\<lparr>ag_tree := t\<rparr>) \<Longrightarrow> I (after_op t a)"
  by (simp add: after_op_def react_keeps)

end

text \<open>The shape of the tree is such an invariant.\<close>

interpretation agent_shape: agent_invariant "\<lambda>a. wf_node (root (ag_tree a))"
  by unfold_locales (auto simp: wf_Mount wf_AddTable wf_Tree_Set wf_SetSystem wf_AddObject wf_DeleteObject)

text \<open>So is everything said about the messages of the past.\<close>

interpretation agent_history: agent_invariant "\<lambda>a. prefix past (ag_sent a)" for past
  by unfold_locales (auto simp: prefix_append)

section \<open>Message identifiers\<close>

definition seq_num :: "string \<Rightarrow> nat" where
  "seq_num s = (case parse_nat (rev (takeWhile (\<lambda>c. c \<noteq> CHR ''-'') (rev s))) of Some n \<Rightarrow> n | None \<Rightarrow> 0)"

lemma seq_num_id: "seq_num (pre @ ''-'' @ show_nat n) = n"
proof -
  have "CHR ''-'' \<notin> set (show_nat n)" using show_nat_digits is_digit_not_sign by blast
  then have "takeWhile (\<lambda>c. c \<noteq> CHR ''-'') (rev (show_nat n) @ CHR ''-'' # rev pre) = rev (show_nat n)"
    by (subst takeWhile_append2) auto
  then show ?thesis by (simp add: seq_num_def parse_nat_show_nat)
qed

lemma seq_num_next: "seq_num (fst (nextMsgID k a)) = Suc (ag_msgSeq a)"
  using seq_num_id [of "k @ ''-'' @ id_SerialNumber (cfg_Identity (ag_cfg a))" "Suc (ag_msgSeq a)"]
  by (simp add: nextMsgID_def Let_def)

definition own_numbers :: "Agent \<Rightarrow> nat list" where
  "own_numbers a = map (seq_num \<circ> MsgId) (filter (\<lambda>m. Header_type m = NOTIFY) (ag_sent a))"

definition ids_ordered :: "Agent \<Rightarrow> bool" where
  "ids_ordered a \<longleftrightarrow> sorted_wrt (<) (own_numbers a) \<and> (\<forall>n \<in> set (own_numbers a). n \<le> ag_msgSeq a)"

interpretation agent_ids: agent_invariant ids_ordered
  by unfold_locales
    (auto simp: ids_ordered_def own_numbers_def notify_msg_def seq_num_next sorted_wrt_append le_Suc_eq less_Suc_eq_le)

lemma notify_subs_sent:
  assumes "\<forall>m. ag_publish a m = Inr ()"
  shows "\<exists>ms. ag_sent (notify_subs c subs a) = ag_sent a @ ms
    \<and> map body ms = map (\<lambda>s. NotifyB \<lparr>SubscriptionId = sub_ID s, SendResp = False,
          notification = about c (ag_tree a)\<rparr>) (filter (wants c) subs)
    \<and> map (seq_num \<circ> MsgId) ms = [Suc (ag_msgSeq a)..<Suc (ag_msgSeq a + length ms)]
    \<and> list_all (\<lambda>m. Header_type m = NOTIFY) ms"
  using assms
proof (induction subs arbitrary: a)
  case (Cons s subs)
  show ?case
  proof (cases "wants c s")
    case True
    define m where "m = notify_msg (fst (nextMsgID (change_tag (ch_Kind c)) a)) (sub_ID s) (about c (ag_tree a))"
    define a2 where "a2 = (snd (nextMsgID (change_tag (ch_Kind c)) a))\<lparr>ag_sent := ag_sent a @ [m]\<rparr>"
    have step: "notify_subs c (s # subs) a = notify_subs c subs a2"
      using True Cons.prems by (simp add: buildNotify_eq send_msg_def case_prod_unfold m_def a2_def)
    have a2: "ag_tree a2 = ag_tree a" "ag_publish a2 = ag_publish a" "ag_msgSeq a2 = Suc (ag_msgSeq a)"
      by (simp_all add: a2_def)
    obtain ms where ms: "ag_sent (notify_subs c subs a2) = ag_sent a2 @ ms"
      "map body ms = map (\<lambda>s. NotifyB \<lparr>SubscriptionId = sub_ID s, SendResp = False,
          notification = about c (ag_tree a)\<rparr>) (filter (wants c) subs)"
      "map (seq_num \<circ> MsgId) ms = [Suc (Suc (ag_msgSeq a))..<Suc (Suc (ag_msgSeq a) + length ms)]"
      "list_all (\<lambda>m. Header_type m = NOTIFY) ms"
      using Cons.IH [of a2] Cons.prems unfolding a2 by blast
    have "seq_num (MsgId m) = Suc (ag_msgSeq a)" by (simp add: m_def notify_msg_def seq_num_next)
    moreover have "[Suc (ag_msgSeq a)..<Suc (ag_msgSeq a + length (m # ms))] =
        Suc (ag_msgSeq a) # [Suc (Suc (ag_msgSeq a))..<Suc (Suc (ag_msgSeq a) + length ms)]"
      by (simp add: upt_conv_Cons del: upt_Suc)
    moreover have "ag_sent a2 @ ms = ag_sent a @ m # ms" by (simp add: a2_def)
    moreover have "Header_type m = NOTIFY" "body m = NotifyB \<lparr>SubscriptionId = sub_ID s, SendResp = False,
          notification = about c (ag_tree a)\<rparr>" by (simp_all add: m_def notify_msg_def)
    ultimately show ?thesis
      using ms True unfolding step by (intro exI [of _ "m # ms"]) (simp add: comp_def del: upt_Suc)
  qed (use Cons in auto)
qed simp

lemma join_append: "xs \<noteq> [] \<Longrightarrow> ys \<noteq> [] \<Longrightarrow> join sep (xs @ ys) = join sep xs @ sep @ join sep ys"
proof (induction xs)
  case (Cons x xs)
  then show ?case by (cases "xs = []") (simp_all add: join_Cons)
qed simp

lemma partial_reference:
  assumes p: "valid_segs p" "p \<noteq> []" and r: "valid_segs r" "r \<noteq> []"
  shows "HasPrefix (joinPath p) (joinPath r @ ''.'') \<longleftrightarrow> strict_prefix r p"
proof
  assume "HasPrefix (joinPath p) (joinPath r @ ''.'')"
  then obtain rest where "joinPath p = (joinPath r @ ''.'') @ rest"
    unfolding HasPrefix_def by (metis append_take_drop_id)
  then have "p = r @ split_on CHR ''.'' rest"
    using split_on_joinPath [OF p] split_on_join_append [OF r(2) valid_segs_no_dot [OF r(1)], of rest]
    by (simp add: joinPath_def)
  then show "strict_prefix r p" by (simp add: strict_prefix_def)
next
  assume "strict_prefix r p"
  then obtain q where "p = r @ q" "q \<noteq> []" by (auto simp: strict_prefix_def prefix_def)
  then have "joinPath p = (joinPath r @ ''.'') @ joinPath q" using r(2) by (simp add: joinPath_def join_append)
  then show "HasPrefix (joinPath p) (joinPath r @ ''.'')" unfolding HasPrefix_def by (metis append_eq_conv_conj)
qed

section \<open>Properties\<close>


text \<open>A reference without a star means what TR-369 says, segment by segment: a parameter path matches
  itself only, and a path with a trailing dot matches exactly the paths strictly below it, never a
  sibling whose name merely begins the same way.\<close>

theorem reference_semantics:
  assumes "valid_segs p" and "p \<noteq> []" and "valid_segs r" and "r \<noteq> []"
  shows "(match_ref (joinPath p) (joinPath r) \<longleftrightarrow> p = r)
    \<and> (match_ref (joinPath p) (joinPath r @ ''.'') \<longleftrightarrow> strict_prefix r p)"
proof -
  have "CHR ''*'' \<notin> set (joinPath r)"
  proof -
    have "\<not> isSegmentChar CHR ''*''" by (simp add: isSegmentChar_def less_eq_char_def)
    then have "\<forall>s \<in> set r. CHR ''*'' \<notin> set s" using assms(3) unfolding valid_segs_def list_all_iff by blast
    then have "CHR ''*'' \<notin> set (join ''.'' r)" by (induction "''.''" r rule: join.induct) auto
    then show ?thesis by (simp add: joinPath_def)
  qed
  moreover have "joinPath r \<noteq> []" using joinPath_eq_Nil assms(3,4) by blast
  ultimately show ?thesis
    using joinPath_no_dot_suffix [OF assms(3)] joinPath_inject [OF assms(1,3)] partial_reference [OF assms]
    by (simp add: match_ref_def)
qed

section \<open>Witnesses\<close>

definition demo_identity :: Identity where
  "demo_identity = \<lparr>EndpointID = ''os::00D09E-1'', id_OUI = ''00D09E'', id_ProductClass = ''X'', id_SerialNumber = ''1''\<rparr>"

definition sub_row :: "string \<Rightarrow> string \<Rightarrow> Node" where
  "sub_row ident refs = Node [(''ID'', text_leaf ident), (''Enable'', text_leaf ''true''),
     (''NotifType'', text_leaf ''ValueChange''), (''ReferenceList'', text_leaf refs)] None None None"

definition sub_tree :: Tree where
  "sub_tree = New\<lparr>root := Node [(''Device'', Node [(''LocalAgent'', Node
     [(''Subscription'', Node [(''1'', sub_row ''a'' ''Device.Host.*.Name''), (''2'', sub_row ''b'' ''Device.Time.'')]
        None None None)] None None None)] None None None)] None None None\<rparr>"

definition demo_agent :: Agent where
  "demo_agent = \<lparr>ag_cfg = \<lparr>cfg_Identity = demo_identity, ControllerID = ''c'', BootParameters = [],
     BootSubscriptionID = ''boot''\<rparr>, ag_tree = sub_tree, ag_observer = Some 0, ag_msgSeq = 0,
     ag_publish = (\<lambda>_. Inr ()), ag_sent = []\<rparr>"

definition host_change :: Change where
  "host_change = \<lparr>ch_Path = ''Device.Host.3.Name'', ch_Old = zero_Value, ch_New = zero_Value\<lparr>Raw := ''x''\<rparr>,
     ch_Kind = ChangeValue\<rparr>"


theorem reference_semantics_witness:
  "match_ref ''Device.Host.1'' ''Device.Host.'' \<and> \<not> match_ref ''Device.Hosts'' ''Device.Host.''"
proof -
  have "joinPath [''Device'', ''Host'', ''1''] = ''Device.Host.1''" "joinPath [''Device'', ''Hosts''] = ''Device.Hosts''"
    "joinPath [''Device'', ''Host''] = ''Device.Host''" by code_simp+
  then show ?thesis
    using reference_semantics [of "[''Device'', ''Host'', ''1'']" "[''Device'', ''Host'']"]
      reference_semantics [of "[''Device'', ''Hosts'']" "[''Device'', ''Host'']"]
    by (simp add: tree_eval)
qed

end
