(* ===== verification/ParamRows.thy ===== *)
theory ParamRows
  imports ParamTables
begin

text \<open>
  Rows of tables under construction: several components add an instance, write into it and take it
  out again when something fails.  Here is what they share: writes below an instance commute with its
  creation, a path text below an instance names something below it, and deleting the instance restores
  the data model.
\<close>

lemma used_instances_keys: "map fst (children n) = map fst (children m) \<Longrightarrow> used_instances n = used_instances m"
proof -
  have "used_instances n = List.map_filter instance_of (map fst (children n))" for n
    by (simp add: used_instances_def List.map_filter_def filter_map comp_def case_prod_unfold)
  then show "map fst (children n) = map fst (children m) \<Longrightarrow> used_instances n = used_instances m" by metis
qed

lemma fst_update: "map fst (AList.update k v xs) = map fst (AList.update k w xs)"
  by (induction xs) auto

lemma set_child_twice: "set_child k c' (set_child k c n) = set_child k c' n"
proof -
  have "AList.update k c' (AList.update k c xs) = AList.update k c' xs" for xs :: "(string \<times> Node) list"
    by (induction xs) auto
  then show ?thesis by (simp add: set_child_def set_children_set_children)
qed

lemma table_root_child_write:
  assumes "segs \<noteq> []" and n: "node_at segs r = Some n" "\<not> isLeaf n"
  shows "\<exists>c'. put_leaf (segs @ k # x) v (table_root segs (set_child k c n) r) = table_root segs (set_child k c' n) r"
proof (cases "leaf_at (table_root segs (set_child k c n) r) (segs @ k # x)")
  case None
  then show ?thesis by (auto simp: put_leaf_def)
next
  case (Some old)
  let ?f = "set_leaf (Some v)" and ?n1 = "set_child k c n"
  have at: "node_at segs (table_root segs ?n1 r) = Some ?n1" by (rule table_root_node [OF n(1)])
  have "put_leaf (segs @ k # x) v (table_root segs ?n1 r) =
      update_at segs (update_at (k # x) ?f) (table_root segs ?n1 r)"
    using Some at by (simp add: put_leaf_def update_at_append)
  also have "\<dots> = write_counter segs (length (used_instances ?n1)) (update_at segs (\<lambda>_. update_at (k # x) ?f ?n1) r)"
    using assms(1) by (simp add: table_root_def update_at_write_counter update_at_update_at comp_def)
  also have "update_at (k # x) ?f ?n1 = set_child k (update_at x ?f c) n"
    using n(2) set_child_twice [of k "update_at x ?f c" c n] by (simp add: set_child_def)
  also have "used_instances ?n1 = used_instances (set_child k (update_at x ?f c) n)"
    by (rule used_instances_keys) (simp add: fst_update [of k c _ "update_at x ?f c"])
  finally show ?thesis using assms(1) by (auto simp: table_root_def Let_def)
qed

lemma parsePath_below:
  assumes "parsePath (joinPath q @ ''.'' @ s) = Inr qs" and "valid_segs q" and "q \<noteq> []"
  shows "prefix q qs"
proof (cases s rule: rev_cases)
  case Nil
  then show ?thesis using assms parsePath_joinPath_dot [OF assms(2)] by simp
next
  case (snoc s' c)
  have "TrimSuffix (joinPath q @ ''.'' @ s) ''.'' = joinPath q @ CHR ''.'' # (if c = CHR ''.'' then s' else s)"
    using TrimSuffix_append [of "joinPath q @ CHR ''.'' # s'" "''.''"] snoc
    by (auto simp: TrimSuffix_def HasSuffix_iff_suffix suffix_def)
  then obtain rest where rest: "TrimSuffix (joinPath q @ ''.'' @ s) ''.'' = joinPath q @ CHR ''.'' # rest" by blast
  have "joinPath qs = joinPath q @ CHR ''.'' # rest" using joinPath_parsePath [OF assms(1)] rest by simp
  moreover have "qs \<noteq> []" using calculation by (auto simp: joinPath_def)
  ultimately have "qs = q @ split_on CHR ''.'' rest"
    using split_on_joinPath [OF parsePath_valid [OF assms(1)]]
      split_on_join_append [OF assms(3) valid_segs_no_dot [OF assms(2)], of rest]
    by (simp add: joinPath_def)
  then show ?thesis by simp
qed

lemma row_delete:
  assumes "segs \<noteq> []" and n: "node_at segs r = Some n" "table n \<noteq> None" and "valid_segs (segs @ [k])"
    and "instance_of k \<noteq> None" and "map_of (children n) k = None" and honest: "counter_honest segs r"
    and t: "root t = table_root segs (set_child k c n) r"
  shows "root (snd (DeleteObject (joinPath (segs @ [k]) @ ''.'') t)) = r"
proof -
  let ?p = "joinPath (segs @ [k]) @ ''.''" and ?n1 = "set_child k c n"
  have p: "parsePath ?p = Inr (segs @ [k])" by (rule parsePath_joinPath_dot [OF assms(4)])
  have at: "node_at segs (root t) = Some ?n1" using t n by (simp add: table_root_node)
  obtain t2 where t2: "DeleteObject ?p t = (Inr (), t2)"
    using DeleteObject_ok [OF p assms(5) at] n(2) by (cases "DeleteObject ?p t") auto
  with DeleteObject_Inr [OF t2] p at have "root t2 = table_root segs (del_child k ?n1) (root t)" by auto
  also have "del_child k ?n1 = n" using assms(6) by (simp add: del_set_child)
  also have "table_root segs n (root t) = r"
    using assms(1) n(1) t honest
    by (simp add: table_root_def Let_def update_at_write_counter write_counter_write_counter
        update_at_restore write_counter_same)
  finally show ?thesis using t2 by simp
qed

section \<open>Pending rows\<close>

text \<open>The text of an object path, and a row that was added to a table and only written to since.\<close>

definition dotted :: "string list \<Rightarrow> string" where
  "dotted segs = joinPath segs @ ''.''"

lemma parse_dotted [simp]: "valid_segs segs \<Longrightarrow> parsePath (dotted segs) = Inr segs"
  by (simp add: dotted_def parsePath_joinPath_dot)

lemma dotted_child: "segs \<noteq> [] \<Longrightarrow> dotted segs @ k @ ''.'' = dotted (segs @ [k])"
  by (simp add: dotted_def joinPath_def join_snoc)

lemma parse_dotted_cell: "valid_segs (segs @ [k]) \<Longrightarrow> segs \<noteq> [] \<Longrightarrow> parsePath (dotted segs @ k) = Inr (segs @ [k])"
  using parsePath_joinPath [of "segs @ [k]"] by (simp add: dotted_def joinPath_def join_snoc)

lemma parse_dotted_below: "parsePath (dotted segs @ s) = Inr qs \<Longrightarrow> valid_segs segs \<Longrightarrow> segs \<noteq> [] \<Longrightarrow> prefix segs qs"
  using parsePath_below [of segs s qs] by (simp add: dotted_def)

definition row_pending :: "string list \<Rightarrow> string \<Rightarrow> Node \<Rightarrow> Node \<Rightarrow> bool" where
  "row_pending segs k r r' \<longleftrightarrow> segs \<noteq> [] \<and> valid_segs (segs @ [k]) \<and> instance_of k \<noteq> None
     \<and> (\<exists>n c. node_at segs r = Some n \<and> \<not> isLeaf n \<and> table n \<noteq> None \<and> map_of (children n) k = None
          \<and> r' = table_root segs (set_child k c n) r)"

lemma AddObject_pending:
  assumes add: "AddObject (dotted segs) t = (Inr i, t')" and segs: "valid_segs segs" "segs \<noteq> []" and wf: "wf_node (root t)"
    and small: "\<And>n. node_at segs (root t) = Some n \<Longrightarrow> length (children n) < 2 ^ 62"
  shows "row_pending segs (Itoa i) (root t) (root t')"
proof -
  from AddObject_Inr [OF add] segs(1) obtain n template where n: "node_at segs (root t) = Some n" "table n = Some template"
    and i: "i = next_free (used_instances n) 1"
    and t': "root t' = table_root segs (set_child (Itoa i) (clone template) n) (root t)" by auto
  have "0 < i" using i next_free_props [of "used_instances n" 1] by simp
  then have "valid_segs (segs @ [Itoa i])" using segs(1) by (simp add: Itoa_def show_nat_segment)
  then show ?thesis
    using n t' segs fresh_instance_free [OF small [OF n(1)]] wf_table [OF wf_node_at [OF wf n(1)] n(2)]
    unfolding row_pending_def i by auto
qed

lemma SetSystem_pending:
  assumes "row_pending segs k r (root t)"
  shows "row_pending segs k r (root (snd (SetSystem (dotted (segs @ [k]) @ lf) v t)))"
proof (cases "SetSystem (dotted (segs @ [k]) @ lf) v t")
  case (Pair res t')
  show ?thesis
  proof (cases res)
    case (Inl e)
    then show ?thesis using assms Pair write_fails_same(2) by fastforce
  next
    case (Inr u)
    then obtain q old where q: "parsePath (dotted (segs @ [k]) @ lf) = Inr q"
      and t': "root t' = put_leaf q (old\<lparr>Raw := v\<rparr>) (root t)" using Pair by (auto simp: SetSystem_Inr)
    from assms obtain n c where p: "segs \<noteq> []" "valid_segs (segs @ [k])" "node_at segs r = Some n" "\<not> isLeaf n"
      and r: "root t = table_root segs (set_child k c n) r" by (auto simp: row_pending_def)
    from parse_dotted_below [OF q p(2)] obtain x where "q = segs @ k # x" by (auto simp: prefix_def)
    with table_root_child_write [OF p(1,3,4)] t' r obtain c' where "root t' = table_root segs (set_child k c' n) r" by metis
    then show ?thesis using assms Pair p by (auto simp: row_pending_def)
  qed
qed

lemma DeleteObject_pending:
  assumes "row_pending segs k r (root t)" and "counter_honest segs r"
  shows "root (snd (DeleteObject (dotted (segs @ [k])) t)) = r"
  using assms row_delete [where t = t] by (auto simp: row_pending_def dotted_def)

end
