(* ===== verification/UspHandlers.thy ===== *)
theory UspHandlers
  imports UspNotify ParamRows
begin

text \<open>
  The requests of a USP controller on the data model: \<^verbatim>\<open>HandleGet\<close> of \<^verbatim>\<open>messages.go\<close> and \<^verbatim>\<open>HandleSet\<close>,
  \<^verbatim>\<open>HandleAdd\<close>, \<^verbatim>\<open>HandleDelete\<close>, \<^verbatim>\<open>HandleGetInstances\<close> and \<^verbatim>\<open>HandleGetSupportedDM\<close> of \<^verbatim>\<open>operations.go\<close>
  in \<^verbatim>\<open>src/internal/usp/agent\<close>.

  The reading requests are functions of the tree; the writing ones thread the agent, so that the
  notifications of every single write happen in between.  Go maps are association lists.
\<close>

section \<open>Writing one parameter\<close>

abbreviation "ErrCodeInvalidPath \<equiv> 7026 :: nat"
abbreviation "ErrCodeResourcesExceeded \<equiv> 7005 :: nat"
abbreviation "ErrCodeParamActionFailed \<equiv> 7008 :: nat"
abbreviation "ErrCodeParamReadOnly \<equiv> 7010 :: nat"
abbreviation "ErrCodeObjectDoesNotExist \<equiv> 7016 :: nat"
abbreviation "ErrCodeObjectNotCreatable \<equiv> 7017 :: nat"
abbreviation "ErrCodeCommandFailure \<equiv> 7021 :: nat"

record ParamSetting =
  ps_Param :: string
  ps_Value :: string
  ps_Required :: bool

definition applyOne :: "string \<Rightarrow> string \<Rightarrow> Agent \<Rightarrow> (nat \<times> string) \<times> Agent" where
  "applyOne path raw a =
     (case Get path (ag_tree a) of
        Inl _ \<Rightarrow> ((ErrCodeInvalidPath, Sprintf ''path %q not found'' [path]), a)
      | Inr current \<Rightarrow>
          if \<not> Writable current then ((ErrCodeParamReadOnly, Sprintf ''path %q is read-only'' [path]), a)
          else (case Tree_Set path \<lparr>VType = VType current, Raw = raw, Writable = Writable current\<rparr> (ag_tree a) of
                  (Inl e, t) \<Rightarrow> ((ErrCodeParamActionFailed, Error_text e), after_op t a)
                | (Inr _, t) \<Rightarrow> ((0, ''''), after_op t a)))"

fun map_state :: "('x \<Rightarrow> 's \<Rightarrow> 'y \<times> 's) \<Rightarrow> 'x list \<Rightarrow> 's \<Rightarrow> 'y list \<times> 's" where
  "map_state f [] s = ([], s)"
| "map_state f (x # xs) s = (let (y, s1) = f x s; (ys, s2) = map_state f xs s1 in (y # ys, s2))"

section \<open>Set\<close>

record UpdateObject =
  uo_ObjPath :: string
  uo_Settings :: "ParamSetting list"

fun set_params :: "string \<Rightarrow> ParamSetting list \<Rightarrow> params \<Rightarrow> ParameterError list \<Rightarrow> Agent \<Rightarrow>
    (ParameterError + params \<times> ParameterError list) \<times> Agent" where
  "set_params target [] updated errs a = (Inr (updated, errs), a)"
| "set_params target (s # ss) updated errs a =
     (let ((code, msg), a') = applyOne (target @ ps_Param s) (ps_Value s) a in
      if code = 0 then set_params target ss (AList.update (ps_Param s) (ps_Value s) updated) errs a'
      else (let pe = \<lparr>pe_Param = ps_Param s, pe_ErrCode = code, pe_ErrMsg = msg\<rparr> in
            if ps_Required s then (Inl pe, a') else set_params target ss updated (errs @ [pe]) a'))"

fun set_targets :: "ParamSetting list \<Rightarrow> string list \<Rightarrow> Agent \<Rightarrow> (ParameterError + UpdatedInstanceResult list) \<times> Agent" where
  "set_targets ss [] a = (Inr [], a)"
| "set_targets ss (target # targets) a =
     (case set_params target ss [] [] a of
        (Inl pe, a') \<Rightarrow> (Inl pe, a')
      | (Inr (updated, errs), a') \<Rightarrow>
          (case set_targets ss targets a' of
             (Inl pe, a'') \<Rightarrow> (Inl pe, a'')
           | (Inr rs, a'') \<Rightarrow>
               (Inr (\<lparr>AffectedPath = target, UpdatedParams = updated, ui_ParamErrs = errs\<rparr> # rs), a'')))"

definition required_failed :: "ParameterError \<Rightarrow> CommandFailure" where
  "required_failed pe =
     \<lparr>cf_ErrCode = pe_ErrCode pe,
      cf_ErrMsg = Sprintf ''required parameter %q failed: %s'' [pe_Param pe, pe_ErrMsg pe]\<rparr>"

definition set_object ::
  "UpdateObject \<Rightarrow> Agent \<Rightarrow> (string \<times> (CommandFailure + UpdatedInstanceResult list)) \<times> Agent" where
  "set_object obj a =
     (let objPath = uo_ObjPath obj; targets = ExpandSearchPath (ag_tree a) objPath in
      if length targets = 0 then
        ((objPath, Inl \<lparr>cf_ErrCode = ErrCodeObjectDoesNotExist,
            cf_ErrMsg = Sprintf ''path %q does not resolve to an object'' [objPath]\<rparr>), a)
      else (case set_targets (uo_Settings obj) targets a of
              (Inl pe, a') \<Rightarrow> ((objPath, Inl (required_failed pe)), a')
            | (Inr rs, a') \<Rightarrow> ((objPath, Inr rs), a')))"

definition HandleSet :: "string \<Rightarrow> UpdateObject list \<Rightarrow> Agent \<Rightarrow> Msg \<times> Agent" where
  "HandleSet msgID objs a =
     (let (results, a') = map_state set_object objs a
      in (\<lparr>MsgId = msgID, Header_type = SET_RESP, body = SetRespB results\<rparr>, a'))"

section \<open>Add\<close>

fun init_params :: "string \<Rightarrow> ParamSetting list \<Rightarrow> ParameterError list \<Rightarrow> Agent \<Rightarrow>
    (CommandFailure + ParameterError list) \<times> Agent" where
  "init_params instancePath [] errs a = (Inr errs, a)"
| "init_params instancePath (s # ss) errs a =
     (let ((code, msg), a') = applyOne (instancePath @ ps_Param s) (ps_Value s) a in
      if code = 0 then init_params instancePath ss errs a'
      else (let pe = \<lparr>pe_Param = ps_Param s, pe_ErrCode = code, pe_ErrMsg = msg\<rparr> in
            if ps_Required s then
              (let (_, t) = DeleteObject instancePath (ag_tree a') in (Inl (required_failed pe), after_op t a'))
            else init_params instancePath ss (errs @ [pe]) a'))"

definition create_object ::
  "UpdateObject \<Rightarrow> Agent \<Rightarrow> (string \<times> (CommandFailure + CreatedSuccess)) \<times> Agent" where
  "create_object obj a =
     (let objPath = uo_ObjPath obj in
      case ExpandSearchPath (ag_tree a) objPath of
        [tablePath] \<Rightarrow>
          (case AddObject tablePath (ag_tree a) of
             (Inl e, t) \<Rightarrow> ((objPath, Inl \<lparr>cf_ErrCode = ErrCodeObjectNotCreatable, cf_ErrMsg = Error_text e\<rparr>), after_op t a)
           | (Inr inst, t) \<Rightarrow>
               (let instancePath = TrimSuffix tablePath ''.'' @ ''.'' @ Itoa inst @ ''.'' in
                case init_params instancePath (uo_Settings obj) [] (after_op t a) of
                  (Inl f, a') \<Rightarrow> ((objPath, Inl f), a')
                | (Inr errs, a') \<Rightarrow>
                    ((objPath, Inr \<lparr>InstantiatedPath = instancePath, cs_ParamErrs = errs,
                        cs_UniqueKeys = uniqueKeysFor (ag_tree a') instancePath\<rparr>), a')))
      | tables \<Rightarrow>
          ((objPath, Inl \<lparr>cf_ErrCode = ErrCodeObjectDoesNotExist,
              cf_ErrMsg = (if 1 < length tables
                           then Sprintf ''path %q resolves to %d objects, Add needs exactly one''
                                  [objPath, show_nat (length tables)]
                           else Sprintf ''path %q does not resolve to an object'' [objPath])\<rparr>), a))"

definition HandleAdd :: "string \<Rightarrow> UpdateObject list \<Rightarrow> Agent \<Rightarrow> Msg \<times> Agent" where
  "HandleAdd msgID objs a =
     (let (results, a') = map_state create_object objs a
      in (\<lparr>MsgId = msgID, Header_type = ADD_RESP, body = AddRespB results\<rparr>, a'))"

section \<open>Delete\<close>

fun delete_targets :: "string list \<Rightarrow> Agent \<Rightarrow> (string list \<times> goerr option) \<times> Agent" where
  "delete_targets [] a = (([], None), a)"
| "delete_targets (target # targets) a =
     (case DeleteObject target (ag_tree a) of
        (Inl e, t) \<Rightarrow>
          (let ((affected, failure), a') = delete_targets targets (after_op t a)
           in ((affected, case failure of None \<Rightarrow> Some e | Some e' \<Rightarrow> Some e'), a'))
      | (Inr _, t) \<Rightarrow>
          (let ((affected, failure), a') = delete_targets targets (after_op t a)
           in ((target # affected, failure), a')))"

definition delete_path :: "string \<Rightarrow> Agent \<Rightarrow> (string \<times> (CommandFailure + string list)) \<times> Agent" where
  "delete_path path a =
     (let ((affected, failure), a') = delete_targets (ExpandSearchPath (ag_tree a) path) a in
      if length affected = 0 then
        ((path, Inl \<lparr>cf_ErrCode = ErrCodeObjectDoesNotExist,
            cf_ErrMsg = Error_text (case failure of
               None \<Rightarrow> Errorf ''path %q does not resolve to an object'' [ArgS path] | Some e \<Rightarrow> e)\<rparr>), a')
      else ((path, Inr affected), a'))"

definition HandleDelete :: "string \<Rightarrow> string list \<Rightarrow> Agent \<Rightarrow> Msg \<times> Agent" where
  "HandleDelete msgID paths a =
     (let (results, a') = map_state delete_path paths a
      in (\<lparr>MsgId = msgID, Header_type = DELETE_RESP, body = DeleteRespB results\<rparr>, a'))"

section \<open>Get\<close>

text \<open>The callback of the walk: a parameter is filed under the object that holds it.\<close>

definition add_leaf :: "string \<Rightarrow> Value \<Rightarrow> (string \<times> params) list \<Rightarrow> (string \<times> params) list" where
  "add_leaf path v groups =
     (let (objPath, lf) = splitLeaf path;
          old = (case map_of groups objPath of None \<Rightarrow> [] | Some ps \<Rightarrow> ps)
      in AList.update objPath (AList.update lf (Raw v) old) groups)"

definition file_leaf ::
  "string \<Rightarrow> Value \<Rightarrow> (string \<times> params) list \<Rightarrow> (goerr + unit) \<times> (string \<times> params) list" where
  "file_leaf path v groups = (Inr (), add_leaf path v groups)"

definition grouped :: "(string \<times> params) list \<Rightarrow> ResolvedPathResult list" where
  "grouped groups =
     map (\<lambda>objPath. \<lparr>ResolvedPath = objPath,
                     ResultParams = (case map_of groups objPath of None \<Rightarrow> [] | Some ps \<Rightarrow> ps)\<rparr>)
       (sortStrings (map fst groups))"

definition single_result :: "string \<Rightarrow> Value \<Rightarrow> ResolvedPathResult" where
  "single_result path v =
     (let (objPath, lf) = splitLeaf path in \<lparr>ResolvedPath = objPath, ResultParams = [(lf, Raw v)]\<rparr>)"

definition resolveForGet :: "Tree \<Rightarrow> string \<Rightarrow> ResolvedPathResult list" where
  "resolveForGet t path =
     (if HasSuffix path ''.'' then
        (case Walk path (-1) file_leaf t [] of (Inl _, _) \<Rightarrow> [] | (Inr _, groups) \<Rightarrow> grouped groups)
      else (case Get path t of Inl _ \<Rightarrow> [] | Inr v \<Rightarrow> [single_result path v]))"

definition get_path :: "Tree \<Rightarrow> string \<Rightarrow> RequestedPathResult" where
  "get_path t requested =
     (let answer = (\<lambda>rs. \<lparr>gr_RequestedPath = requested, gr_ErrCode = 0, gr_ErrMsg = '''', gr_Resolved = rs\<rparr>);
          refuse = (\<lambda>msg. \<lparr>gr_RequestedPath = requested, gr_ErrCode = ErrCodeInvalidPath, gr_ErrMsg = msg,
                           gr_Resolved = []\<rparr>)
      in if CHR ''*'' \<in> set requested then
           answer (concat (map (resolveForGet t) (ExpandSearchPath t requested)))
         else if HasSuffix requested ''.'' then
           (case Walk requested (-1) file_leaf t [] of
              (Inl e, _) \<Rightarrow> refuse (Error_text e)
            | (Inr _, groups) \<Rightarrow> answer (grouped groups))
         else (case Get requested t of
                 Inl _ \<Rightarrow> refuse (Sprintf ''path %q not found'' [requested])
               | Inr v \<Rightarrow> answer [single_result requested v]))"

definition HandleGet :: "Tree \<Rightarrow> string \<Rightarrow> string list \<Rightarrow> Msg" where
  "HandleGet t msgID paths = \<lparr>MsgId = msgID, Header_type = GET_RESP, body = GetRespB (map (get_path t) paths)\<rparr>"

section \<open>GetInstances and GetSupportedDM\<close>

text \<open>Several concrete paths answer one requested path: what they found is appended, an error counts
  only when nothing was found.\<close>

fun gather :: "(string \<Rightarrow> goerr + 'a list) \<Rightarrow> string list \<Rightarrow> goerr option \<Rightarrow> goerr option \<times> 'a list" where
  "gather f [] e = (e, [])"
| "gather f (p # ps) e =
     (case f p of
        Inl e' \<Rightarrow> gather f ps (Some e')
      | Inr xs \<Rightarrow> (let (e', ys) = gather f ps e in (e', xs @ ys)))"

definition instance_paths :: "Tree \<Rightarrow> bool \<Rightarrow> string \<Rightarrow> goerr + string list" where
  "instance_paths t firstLevelOnly p =
     (case instancePathsUnder (Suc (height (root t))) t p firstLevelOnly of
        None \<Rightarrow> Inl (Errorf ''out of fuel'' [])
      | Some r \<Rightarrow> r)"

definition instances_result :: "Tree \<Rightarrow> bool \<Rightarrow> string \<Rightarrow> InstancesResult" where
  "instances_result t firstLevelOnly requested =
     (case gather (instance_paths t firstLevelOnly) (ExpandSearchPath t requested) None of
        (Some e, []) \<Rightarrow> \<lparr>ir_RequestedPath = requested, ir_ErrCode = ErrCodeInvalidPath, ir_ErrMsg = Error_text e,
                        CurrInsts = []\<rparr>
      | (_, insts) \<Rightarrow> \<lparr>ir_RequestedPath = requested, ir_ErrCode = 0, ir_ErrMsg = '''',
           CurrInsts = map (\<lambda>p. \<lparr>InstantiatedObjPath = p, ci_UniqueKeys = uniqueKeysFor t p\<rparr>) insts\<rparr>)"

definition HandleGetInstances :: "Tree \<Rightarrow> string \<Rightarrow> string list \<Rightarrow> bool \<Rightarrow> Msg" where
  "HandleGetInstances t msgID paths firstLevelOnly =
     \<lparr>MsgId = msgID, Header_type = GET_INSTANCES_RESP,
      body = GetInstancesRespB (map (instances_result t firstLevelOnly) paths)\<rparr>"

definition paramAccess :: "bool \<Rightarrow> ParamAccess" where
  "paramAccess writable = (if writable then PARAM_READ_WRITE else PARAM_READ_ONLY)"

definition paramValueType :: "Type \<Rightarrow> ParamValueType" where
  "paramValueType t =
     (if t = TypeBoolean then PARAM_BOOLEAN
      else if t = TypeInt then PARAM_INT
      else if t = TypeUnsignedInt then PARAM_UNSIGNED_INT
      else if t = TypeDateTime then PARAM_DATE_TIME
      else PARAM_STRING)"

definition file_param ::
  "bool \<Rightarrow> string \<Rightarrow> Value \<Rightarrow> (string \<times> SupportedParam list) list \<Rightarrow>
     (goerr + unit) \<times> (string \<times> SupportedParam list) list" where
  "file_param returnParams path v objs =
     (let (objPath, lf) = splitLeaf path;
          old = (case map_of objs objPath of None \<Rightarrow> [] | Some ps \<Rightarrow> ps);
          new = (if returnParams
                 then [\<lparr>ParamName = lf, sp_Access = paramAccess (Writable v), sp_ValueType = paramValueType (VType v)\<rparr>]
                 else [])
      in (Inr (), AList.update objPath (old @ new) objs))"

definition supportedObjects :: "Tree \<Rightarrow> bool \<Rightarrow> bool \<Rightarrow> string \<Rightarrow> goerr + SupportedObject list" where
  "supportedObjects t firstLevelOnly returnParams path =
     (case Walk path (if firstLevelOnly then 1 else -1) (file_param returnParams) t [] of
        (Inl _, _) \<Rightarrow> Inl (Errorf ''path %q not found'' [ArgS path])
      | (Inr _, objs) \<Rightarrow>
          Inr (map (\<lambda>objPath. \<lparr>SupportedObjPath = objPath, IsMultiInstance = isMultiInstancePath objPath,
                 SupportedParams = (case map_of objs objPath of None \<Rightarrow> [] | Some ps \<Rightarrow> ps)\<rparr>)
               (sortStrings (map fst objs))))"

definition supported_result :: "Tree \<Rightarrow> bool \<Rightarrow> bool \<Rightarrow> string \<Rightarrow> SupportedResult" where
  "supported_result t firstLevelOnly returnParams requested =
     (case gather (supportedObjects t firstLevelOnly returnParams) (ExpandSearchPath t requested) None of
        (Some e, []) \<Rightarrow> \<lparr>ReqObjPath = requested, sr_ErrCode = ErrCodeInvalidPath, sr_ErrMsg = Error_text e, SupportedObjs = []\<rparr>
      | (_, objs) \<Rightarrow> \<lparr>ReqObjPath = requested, sr_ErrCode = 0, sr_ErrMsg = '''', SupportedObjs = objs\<rparr>)"

definition HandleGetSupportedDM :: "Tree \<Rightarrow> string \<Rightarrow> string list \<Rightarrow> bool \<Rightarrow> bool \<Rightarrow> Msg" where
  "HandleGetSupportedDM t msgID paths firstLevelOnly returnParams =
     \<lparr>MsgId = msgID, Header_type = GET_SUPPORTED_DM_RESP,
      body = GetSupportedDMRespB (map (supported_result t firstLevelOnly returnParams) paths)\<rparr>"

section \<open>Lemmas on the writing requests\<close>

lemma with_raw: "\<lparr>VType = VType v, Raw = r, Writable = Writable v\<rparr> = v\<lparr>Raw := r\<rparr>"
  by simp

lemma applyOne_cases:
  obtains (ok) segs old a' where "applyOne path raw a = ((0, ''''), a')" "parsePath path = Inr segs"
      "leaf_at (root (ag_tree a)) segs = Some old" "Writable old" "valid_Value (old\<lparr>Raw := raw\<rparr>)"
      "root (ag_tree a') = put_leaf segs (old\<lparr>Raw := raw\<rparr>) (root (ag_tree a))"
  | (refused) code msg a' where "applyOne path raw a = ((code, msg), a')" "code \<noteq> 0" "ag_tree a' = ag_tree a"
proof (cases "Get path (ag_tree a)")
  case (Inl e)
  then show ?thesis using refused by (simp add: applyOne_def)
next
  case (Inr v)
  show ?thesis
  proof (cases "Writable v")
    case True
    obtain r t where set: "Tree_Set path (v\<lparr>Raw := raw\<rparr>) (ag_tree a) = (r, t)" by fastforce
    have app: "applyOne path raw a =
        (case r of Inl e \<Rightarrow> ((ErrCodeParamActionFailed, Error_text e), after_op t a) | Inr _ \<Rightarrow> ((0, ''''), after_op t a))"
      unfolding applyOne_def Inr sum.case with_raw set using True by (simp split: sum.split)
    show ?thesis
    proof (cases r)
      case (Inl e)
      then have "t = ag_tree a" using write_fails_same(1) set by blast
      then show ?thesis using refused app Inl by simp
    next
      case (Inr u)
      then obtain segs where "parsePath path = Inr segs" "leaf_at (root (ag_tree a)) segs = Some v"
        "valid_Value (v\<lparr>Raw := raw\<rparr>)" "root t = put_leaf segs (v\<lparr>Raw := raw\<rparr>) (root (ag_tree a))"
        using set \<open>Get path (ag_tree a) = Inr v\<close> by (auto simp: Tree_Set_Inr Get_Inr)
      then show ?thesis
        using ok [of "after_op t a" segs v] app Inr True by simp
    qed
  qed (use Inr refused in \<open>simp add: applyOne_def\<close>)
qed

lemma node_at_None_update:
  assumes "node_at q n = None"
    and "\<And>m x. node_at p n = Some m \<Longrightarrow> node_at x m = None \<Longrightarrow> node_at x (f m) = None"
  shows "node_at q (update_at p f n) = None"
  using assms
proof (induction p arbitrary: n q)
  case Nil
  then show ?case by simp
next
  case (Cons k p)
  show ?case
  proof (cases "isLeaf n \<or> map_of (children n) k = None")
    case True
    then have "node_at (k # p) n = None" by auto
    then show ?thesis using Cons.prems(1) update_at_missing by metis
  next
    case False
    then obtain c where c: "map_of (children n) k = Some c" "\<not> isLeaf n" by auto
    have step: "update_at (k # p) f n = set_child k (update_at p f c) n" using c by (simp add: set_child_def)
    show ?thesis
    proof (cases q)
      case (Cons x xs)
      show ?thesis
      proof (cases "x = k")
        case True
        then have "node_at xs c = None" using Cons.prems(1) \<open>q = x # xs\<close> c by simp
        then have "node_at xs (update_at p f c) = None" using Cons.IH [of xs c] Cons.prems(2) c by simp
        then show ?thesis using step True \<open>q = x # xs\<close> c by simp
      next
        case False
        then show ?thesis using step \<open>q = x # xs\<close> Cons.prems(1) c by simp
      qed
    qed (use Cons.prems(1) in simp)
  qed
qed

context agent_invariant
begin

lemma applyOne_keeps: "I a \<Longrightarrow> I (snd (applyOne path raw a))"
proof (cases "Get path (ag_tree a)")
  case (Inr v)
  assume a: "I a"
  define r where "r = Tree_Set path (v\<lparr>Raw := raw\<rparr>) (ag_tree a)"
  have "I (after_op (snd r) a)" unfolding r_def by (intro after_keeps op_Set a)
  then show ?thesis
    using a unfolding applyOne_def Inr sum.case with_raw r_def [symmetric]
    by (cases r; cases "fst r") auto
qed (simp add: applyOne_def)

lemma map_state_keeps: "(\<And>x a. I a \<Longrightarrow> I (snd (f x a))) \<Longrightarrow> I a \<Longrightarrow> I (snd (map_state f xs a))"
  by (induction xs arbitrary: a) (simp_all add: case_prod_unfold Let_def)

lemma set_params_keeps: "I a \<Longrightarrow> I (snd (set_params target ss u e a))"
proof (induction ss arbitrary: u e a)
  case (Cons s ss)
  then show ?case using applyOne_keeps [of a] by (simp add: case_prod_unfold Let_def)
qed simp

lemma set_targets_keeps: "I a \<Longrightarrow> I (snd (set_targets ss targets a))"
proof (induction targets arbitrary: a)
  case (Cons target targets)
  have "I (snd (set_params target ss [] [] a))" by (rule set_params_keeps [OF Cons.prems])
  then show ?case
    using Cons.IH by (auto simp: case_prod_unfold split: sum.split prod.split)
qed simp

lemma set_object_keeps: "I a \<Longrightarrow> I (snd (set_object obj a))"
  using set_targets_keeps [of a "uo_Settings obj" "ExpandSearchPath (ag_tree a) (uo_ObjPath obj)"]
  by (auto simp: set_object_def Let_def case_prod_unfold split: sum.split prod.split)

lemma init_params_keeps: "I a \<Longrightarrow> I (snd (init_params inst ss e a))"
proof (induction ss arbitrary: e a)
  case (Cons s ss)
  have a': "I (snd (applyOne (inst @ ps_Param s) (ps_Value s) a))" by (rule applyOne_keeps [OF Cons.prems])
  from after_keeps [OF op_DeleteObject [OF a']] Cons.IH [OF a'] show ?case
    by (simp add: case_prod_unfold Let_def)
qed simp

lemma create_object_keeps: "I a \<Longrightarrow> I (snd (create_object obj a))"
  using after_keeps [OF op_AddObject, of a] init_params_keeps
  by (auto simp: create_object_def Let_def split: list.split prod.split sum.split) (metis snd_conv)+

lemma delete_targets_keeps: "I a \<Longrightarrow> I (snd (delete_targets targets a))"
proof (induction targets arbitrary: a)
  case (Cons target targets)
  have "I (after_op (snd (DeleteObject target (ag_tree a))) a)" by (intro after_keeps op_DeleteObject Cons.prems)
  then have "I (snd (delete_targets targets (after_op (snd (DeleteObject target (ag_tree a))) a)))" by (rule Cons.IH)
  then show ?case by (simp add: case_prod_unfold Let_def split: sum.split prod.split)
qed simp

lemma delete_path_keeps: "I a \<Longrightarrow> I (snd (delete_path path a))"
  using delete_targets_keeps [of a] by (simp add: delete_path_def case_prod_unfold Let_def)

lemma Handle_keeps:
  "I a \<Longrightarrow> I (snd (HandleSet msgID objs a))" "I a \<Longrightarrow> I (snd (HandleAdd msgID objs a))"
  "I a \<Longrightarrow> I (snd (HandleDelete msgID paths a))"
  by (simp_all add: HandleSet_def HandleAdd_def HandleDelete_def case_prod_unfold Let_def map_state_keeps
      set_object_keeps create_object_keeps delete_path_keeps)

end

section \<open>Rolling back a new instance\<close>

text \<open>The data model \<open>r\<close> with some instance \<open>k\<close> added to the table at \<open>segs\<close>.\<close>

definition pending :: "string list \<Rightarrow> string \<Rightarrow> Node \<Rightarrow> Node \<Rightarrow> Agent \<Rightarrow> bool" where
  "pending segs k n r a \<longleftrightarrow> (\<exists>c. root (ag_tree a) = table_root segs (set_child k c n) r)"

lemma pending_applyOne:
  assumes "segs \<noteq> []" and "node_at segs r = Some n" and "\<not> isLeaf n" and "valid_segs (segs @ [k])"
    and "pending segs k n r a"
  shows "pending segs k n r (snd (applyOne ((joinPath (segs @ [k]) @ ''.'') @ p) raw a))"
proof (cases "(joinPath (segs @ [k]) @ ''.'') @ p" raw a rule: applyOne_cases)
  case (ok qs old a')
  have "prefix (segs @ [k]) qs" using parsePath_below [of "segs @ [k]" p qs] ok(2) assms(4) by simp
  then obtain x where "qs = segs @ k # x" by (auto simp: prefix_def)
  with ok assms(5) table_root_child_write [OF assms(1-3)] show ?thesis
    by (auto simp: pending_def)
next
  case (refused code msg a')
  with assms(5) show ?thesis by (simp add: pending_def)
qed

lemma init_params_rollback:
  assumes "segs \<noteq> []" and "node_at segs r = Some n" and "table n \<noteq> None" and "\<not> isLeaf n" and "valid_segs (segs @ [k])"
    and "instance_of k \<noteq> None" and "map_of (children n) k = None" and "counter_honest segs r"
  shows "pending segs k n r a \<Longrightarrow> init_params (joinPath (segs @ [k]) @ ''.'') ss errs a = (Inl f, a') \<Longrightarrow>
    root (ag_tree a') = r"
proof (induction ss arbitrary: errs a)
  case (Cons s ss)
  let ?r = "applyOne ((joinPath (segs @ [k]) @ ''.'') @ ps_Param s) (ps_Value s) a"
  obtain code msg a1 where r: "?r = ((code, msg), a1)" by (metis prod.exhaust)
  have p1: "pending segs k n r a1" using pending_applyOne [OF assms(1,2,4,5) Cons.prems(1)] r by (metis snd_conv)
  show ?case
  proof (cases "code \<noteq> 0 \<and> ps_Required s")
    case True
    then have "a' = after_op (snd (DeleteObject (joinPath (segs @ [k]) @ ''.'') (ag_tree a1))) a1"
      using Cons.prems(2) r by (simp add: case_prod_unfold)
    then show ?thesis using p1 row_delete [OF assms(1,2,3,5,6,7,8)] by (auto simp: pending_def)
  next
    case False
    then show ?thesis using Cons.prems(2) r Cons.IH [OF p1] by (auto split: if_splits)
  qed
qed simp

section \<open>Deleting\<close>

lemma node_at_None_put_leaf: "node_at q n = None \<Longrightarrow> node_at q (put_leaf p v n) = None"
proof -
  have "node_at x m = None \<Longrightarrow> node_at x (set_leaf (Some v) m) = None" for x m by (cases x) simp_all
  then show "node_at q n = None \<Longrightarrow> node_at q (put_leaf p v n) = None"
    by (simp add: put_leaf_def node_at_None_update)
qed

lemma DeleteObject_no_new:
  assumes "node_at q (root t) = None"
  shows "node_at q (root (snd (DeleteObject p t))) = None"
proof (cases "DeleteObject p t")
  case (Pair res t')
  show ?thesis
  proof (cases res)
    case (Inl e)
    then show ?thesis using Pair assms DeleteObject_fails_same [of p t] by simp
  next
    case (Inr u)
    then obtain segs k n where *: "node_at segs (root t) = Some n" "root t' = table_root segs (del_child k n) (root t)"
      using DeleteObject_Inr [of p t t'] Pair by auto
    have del: "node_at x (del_child k n) = None" if "node_at x n = None" for x
      using that by (cases x) (auto simp: map_of_alist_delete split: option.splits)
    have "node_at q (update_at segs (\<lambda>_. del_child k n) (root t)) = None"
      by (rule node_at_None_update [OF assms]) (use *(1) del in auto)
    moreover have "node_at q (write_counter segs c r) = None" if "node_at q r = None" for c r
      using that by (auto simp: write_counter_def node_at_None_put_leaf split: option.split)
    ultimately show ?thesis using * Pair by (auto simp: table_root_def Let_def)
  qed
qed

lemma delete_targets_spec:
  "delete_targets targets a = ((affected, failure), a') \<Longrightarrow>
    subseq affected targets \<and> (\<forall>q. node_at q (root (ag_tree a)) = None \<longrightarrow> node_at q (root (ag_tree a')) = None)
    \<and> (\<forall>p \<in> set affected. \<forall>segs. parsePath p = Inr segs \<longrightarrow> node_at segs (root (ag_tree a')) = None)
    \<and> (affected = [] \<longrightarrow> root (ag_tree a') = root (ag_tree a))"
proof (induction targets arbitrary: affected failure a a')
  case (Cons target targets)
  obtain res t where d: "DeleteObject target (ag_tree a) = (res, t)" by fastforce
  let ?a1 = "after_op t a"
  obtain af fl a2 where rest: "delete_targets targets ?a1 = ((af, fl), a2)" by (metis prod.exhaust)
  have no_new: "node_at q (root (ag_tree a)) = None \<Longrightarrow> node_at q (root t) = None" for q
    using DeleteObject_no_new [of q "ag_tree a" target] d by simp
  note IH = Cons.IH [OF rest, simplified]
  show ?case
  proof (cases res)
    case (Inl e)
    then have "t = ag_tree a" using DeleteObject_fails_same d by blast
    then show ?thesis using IH d rest Inl Cons.prems by auto
  next
    case (Inr u)
    then have af: "affected = target # af" "a' = a2" using d rest Cons.prems by auto
    have "node_at segs (root t) = None" if "parsePath target = Inr segs" for segs
    proof -
      obtain ss k n where *: "parsePath target = Inr (ss @ [k])" "node_at ss (root (ag_tree a)) = Some n"
        "root t = table_root ss (del_child k n) (root (ag_tree a))"
        using DeleteObject_Inr [of target "ag_tree a" t] d Inr by auto
      then have "node_at ss (root t) = Some (del_child k n)" by (simp add: table_root_node)
      then show ?thesis using * that by (auto simp: node_at_append map_of_alist_delete)
    qed
    then show ?thesis using IH no_new af by auto
  qed
qed simp

lemma delete_targets_frame:
  "delete_targets targets a = ((affected, failure), a') \<Longrightarrow> wf_node (root (ag_tree a)) \<Longrightarrow>
   \<forall>p \<in> set affected. \<forall>segs k. parsePath p = Inr (segs @ [k]) \<longrightarrow> \<not> prefix (segs @ [k]) q \<and> q \<noteq> counter_path segs \<Longrightarrow>
   leaf_at (root (ag_tree a')) q = leaf_at (root (ag_tree a)) q"
proof (induction targets arbitrary: affected failure a)
  case (Cons target targets)
  obtain res t where d: "DeleteObject target (ag_tree a) = (res, t)" by fastforce
  obtain af fl a2 where rest: "delete_targets targets (after_op t a) = ((af, fl), a2)" by (metis prod.exhaust)
  have a2: "a2 = a'" and af: "affected = (if isl res then af else target # af)"
    using Cons.prems(1) d rest by (auto split: sum.splits)
  have wf: "wf_node (root t)" using wf_DeleteObject [OF Cons.prems(2), of target] d by simp
  have "leaf_at (root t) q = leaf_at (root (ag_tree a)) q"
  proof (cases res)
    case (Inl e)
    then show ?thesis using d DeleteObject_fails_same by blast
  next
    case (Inr u)
    then obtain ss k where "parsePath target = Inr (ss @ [k])" using DeleteObject_Inr [of target "ag_tree a" t] d by auto
    with DeleteObject_frame [of target "ag_tree a" t ss k q] d Inr Cons.prems(2,3) af show ?thesis by auto
  qed
  moreover have "leaf_at (root (ag_tree a')) q = leaf_at (root t) q"
    using Cons.IH [OF rest [unfolded a2]] wf Cons.prems(3) af by (auto split: if_splits)
  ultimately show ?case by simp
qed simp

section \<open>Grouping by object\<close>

definition group_lookup :: "(string \<times> params) list \<Rightarrow> string \<Rightarrow> string \<Rightarrow> string option" where
  "group_lookup groups obj lf = (case map_of groups obj of None \<Rightarrow> None | Some ps \<Rightarrow> map_of ps lf)"

lemma group_lookup_add:
  "group_lookup (add_leaf p v groups) obj lf =
     (if splitLeaf p = (obj, lf) then Some (Raw v) else group_lookup groups obj lf)"
  by (cases "splitLeaf p") (auto simp: group_lookup_def add_leaf_def map_of_alist_update split: option.splits)

lemma splitLeaf_join: "fst (splitLeaf p) @ snd (splitLeaf p) = p"
proof -
  have "last_part p = drop (length p - length (last_part p)) p"
  proof -
    have "rev (takeWhile (\<lambda>c. c \<noteq> CHR ''.'') (rev p)) = drop (length p - length (takeWhile (\<lambda>c. c \<noteq> CHR ''.'') (rev p))) p"
      by (metis length_rev rev_rev_ident rev_take takeWhile_eq_take)
    then show ?thesis by (simp add: last_part_def)
  qed
  then show ?thesis by (simp add: splitLeaf_def) (metis append_take_drop_id)
qed

lemma splitLeaf_inject: "splitLeaf p = splitLeaf q \<longleftrightarrow> p = q"
  by (metis splitLeaf_join)

lemma file_leaf_visits: "run_visits file_leaf vs g = (Inr (), fold (\<lambda>(p, v). add_leaf p v) vs g)"
  by (induction vs arbitrary: g) (auto simp: file_leaf_def)

lemma group_lookup_fold:
  "distinct (map fst vs) \<Longrightarrow>
   group_lookup (fold (\<lambda>(p, v). add_leaf p v) vs g) obj lf = Some raw \<longleftrightarrow>
     (\<exists>p v. (p, v) \<in> set vs \<and> splitLeaf p = (obj, lf) \<and> Raw v = raw)
     \<or> (obj, lf) \<notin> splitLeaf ` fst ` set vs \<and> group_lookup g obj lf = Some raw"
proof (induction vs arbitrary: g)
  case (Cons pv vs)
  obtain p v where pv: "pv = (p, v)" by (cases pv)
  have IH: "group_lookup (fold (\<lambda>(p, v). add_leaf p v) (pv # vs) g) obj lf = Some raw \<longleftrightarrow>
      (\<exists>p v. (p, v) \<in> set vs \<and> splitLeaf p = (obj, lf) \<and> Raw v = raw)
      \<or> (obj, lf) \<notin> splitLeaf ` fst ` set vs \<and> group_lookup (add_leaf p v g) obj lf = Some raw"
    using Cons.IH [of "add_leaf p v g"] Cons.prems pv by simp
  show ?case
  proof (cases "splitLeaf p = (obj, lf)")
    case True
    have new: "q \<noteq> p" if "(q, w) \<in> set vs" for q w using Cons.prems pv that by force
    then have "splitLeaf q \<noteq> (obj, lf)" if "(q, w) \<in> set vs" for q w using that True splitLeaf_inject by metis
    then have "(obj, lf) \<notin> splitLeaf ` fst ` set vs"
      "\<not> (\<exists>q w. (q, w) \<in> set vs \<and> splitLeaf q = (obj, lf) \<and> Raw w = raw)" by force+
    then show ?thesis unfolding IH using True pv by (auto simp: group_lookup_add)
  next
    case False
    then show ?thesis unfolding IH using pv by (auto simp: group_lookup_add)
  qed
qed simp

lemma Walk_file_leaf:
  assumes "wf_node (root t)" and "parsePath pre = Inr segs" and "node_at segs (root t) = Some n"
  obtains groups where "Walk pre (-1) file_leaf t [] = (Inr (), groups)" and "distinct (map fst groups)"
    and "\<And>obj lf raw. group_lookup groups obj lf = Some raw \<longleftrightarrow>
      (\<exists>p v. prefix segs p \<and> leaf_at (root t) p = Some v \<and> Raw v = raw \<and> splitLeaf (joinPath p) = (obj, lf))"
proof -
  define vs where "vs = map (\<lambda>(p, v). (joinPath (segs @ p), v)) (leaf_paths n)"
  define groups where "groups = fold (\<lambda>(p, v). add_leaf p v) vs []"
  have wfn: "wf_node n" using assms by (blast intro: wf_node_at)
  have valid: "valid_segs (segs @ p)" if "leaf_at n p = Some v" for p v
    using that parsePath_valid [OF assms(2)] graft_point_valid [OF wfn] by (auto simp: leaf_at_node)
  have mem: "(q, v) \<in> set vs \<longleftrightarrow> (\<exists>p. prefix segs p \<and> q = joinPath p \<and> leaf_at (root t) p = Some v)" for q v
  proof -
    have "(q, v) \<in> set vs \<longleftrightarrow> (\<exists>x. (x, v) \<in> set (leaf_paths n) \<and> q = joinPath (segs @ x))"
      by (auto simp: vs_def intro!: rev_image_eqI)
    then show ?thesis by (auto simp: leaf_paths_iff [OF wfn] leaf_at_append [OF assms(3)] prefix_def)
  qed
  have "distinct (map fst (leaf_paths n))"
    using leaf_paths_sorted [OF wfn] by (simp add: strict_sorted_iff)
  moreover have "inj_on (\<lambda>p. joinPath (segs @ p)) (set (map fst (leaf_paths n)))"
    using valid leaf_paths_iff [OF wfn] by (auto simp: inj_on_def joinPath_inject)
  moreover have "map fst vs = map (\<lambda>p. joinPath (segs @ p)) (map fst (leaf_paths n))"
    by (simp add: vs_def comp_def case_prod_unfold)
  ultimately have dist: "distinct (map fst vs)" by (simp only: distinct_map)
  have walk: "Walk pre (-1) file_leaf t [] = (Inr (), groups)"
    using assms by (simp add: Walk_def file_leaf_visits walk_leaf_paths vs_def groups_def)
  have keys: "distinct (map fst (fold (\<lambda>(p, v). add_leaf p v) xs g))" if "distinct (map fst g)" for xs g
    using that by (induction xs arbitrary: g) (auto simp: add_leaf_def case_prod_unfold Let_def distinct_update)
  have "group_lookup groups obj lf = Some raw \<longleftrightarrow>
      (\<exists>p v. prefix segs p \<and> leaf_at (root t) p = Some v \<and> Raw v = raw \<and> splitLeaf (joinPath p) = (obj, lf))"
    for obj lf raw
    unfolding groups_def group_lookup_fold [OF dist] using mem by (auto simp: group_lookup_def)
  with walk keys [of "[]" vs] show thesis by (intro that [of groups]) (simp_all add: groups_def)
qed

section \<open>What a Set leaves behind\<close>

text \<open>The outcome of one setting on one target: written and reported as updated, or reported as an
  error and without effect.\<close>

definition settled :: "Agent \<Rightarrow> Agent \<Rightarrow> string \<Rightarrow> params \<Rightarrow> ParameterError list \<Rightarrow> ParamSetting \<Rightarrow> bool" where
  "settled a a' target updated errs s \<longleftrightarrow>
     (\<exists>segs old. map_of updated (ps_Param s) = Some (ps_Value s) \<and> parsePath (target @ ps_Param s) = Inr segs
        \<and> leaf_at (root (ag_tree a)) segs = Some old \<and> Writable old
        \<and> leaf_at (root (ag_tree a')) segs = Some (old\<lparr>Raw := ps_Value s\<rparr>))
     \<or> (\<not> ps_Required s \<and> ps_Param s \<in> pe_Param ` set errs
        \<and> (\<forall>segs. parsePath (target @ ps_Param s) = Inr segs \<longrightarrow>
             leaf_at (root (ag_tree a')) segs = leaf_at (root (ag_tree a)) segs))"

definition addressed :: "string list \<Rightarrow> ParamSetting list \<Rightarrow> string list" where
  "addressed targets ss = concat (map (\<lambda>target. map (\<lambda>s. TrimSuffix (target @ ps_Param s) ''.'') ss) targets)"

definition untouched :: "Agent \<Rightarrow> Agent \<Rightarrow> string set \<Rightarrow> bool" where
  "untouched a a' paths \<longleftrightarrow>
     (\<forall>segs. joinPath segs \<notin> paths \<longrightarrow> leaf_at (root (ag_tree a')) segs = leaf_at (root (ag_tree a)) segs)"

lemma untouched_trans: "untouched a b X \<Longrightarrow> untouched b c Y \<Longrightarrow> untouched a c (X \<union> Y)"
  by (auto simp: untouched_def)

lemma applyOne_untouched: "untouched a (snd (applyOne path raw a)) {TrimSuffix path ''.''}"
proof (cases path raw a rule: applyOne_cases)
  case (ok segs old a')
  then have "q \<noteq> segs" if "joinPath q \<noteq> TrimSuffix path ''.''" for q
    using that joinPath_parsePath [OF ok(2)] by auto
  then show ?thesis using ok by (auto simp: untouched_def leaves.get_put_other)
qed (simp add: untouched_def)

lemma settled_before:
  assumes "settled a1 a' target updated errs s" and "untouched a a1 X" and "TrimSuffix (target @ ps_Param s) ''.'' \<notin> X"
  shows "settled a a' target updated errs s"
proof -
  have "leaf_at (root (ag_tree a1)) segs = leaf_at (root (ag_tree a)) segs"
    if "parsePath (target @ ps_Param s) = Inr segs" for segs
    using assms(2,3) joinPath_parsePath [OF that] by (simp add: untouched_def)
  with assms(1) show ?thesis unfolding settled_def by metis
qed

lemma settled_after:
  assumes "settled a a1 target updated errs s" and "untouched a1 a' X" and "TrimSuffix (target @ ps_Param s) ''.'' \<notin> X"
  shows "settled a a' target updated errs s"
proof -
  have "leaf_at (root (ag_tree a')) segs = leaf_at (root (ag_tree a1)) segs"
    if "parsePath (target @ ps_Param s) = Inr segs" for segs
    using assms(2,3) joinPath_parsePath [OF that] by (simp add: untouched_def)
  with assms(1) show ?thesis unfolding settled_def by metis
qed

lemma set_params_untouched:
  "untouched a (snd (set_params target ss u e a)) ((\<lambda>s. TrimSuffix (target @ ps_Param s) ''.'') ` set ss)"
proof (induction ss arbitrary: u e a)
  case (Cons s ss)
  note one = applyOne_untouched [of a "target @ ps_Param s" "ps_Value s"]
  let ?a1 = "snd (applyOne (target @ ps_Param s) (ps_Value s) a)"
  have "untouched a (snd (set_params target ss u' e' ?a1))
      ((\<lambda>s. TrimSuffix (target @ ps_Param s) ''.'') ` set (s # ss))" for u' e'
    using untouched_trans [OF one Cons.IH] by simp
  moreover have "untouched a ?a1 ((\<lambda>s. TrimSuffix (target @ ps_Param s) ''.'') ` set (s # ss))"
    using one by (simp add: untouched_def)
  ultimately show ?case by (simp add: case_prod_unfold Let_def)
qed (simp add: untouched_def)

lemma set_params_grow:
  "set_params target ss u e a = (Inr (u', e'), a') \<Longrightarrow>
     set e \<subseteq> set e' \<and> (\<forall>k. k \<notin> ps_Param ` set ss \<longrightarrow> map_of u' k = map_of u k)"
proof (induction ss arbitrary: u e a)
  case (Cons s ss)
  obtain code msg a1 where "applyOne (target @ ps_Param s) (ps_Value s) a = ((code, msg), a1)" by (metis prod.exhaust)
  with Cons.prems Cons.IH show ?case
    by (fastforce simp: Let_def map_of_alist_update split: if_splits)
qed simp

lemma set_params_settled:
  assumes "distinct (map (\<lambda>s. TrimSuffix (target @ ps_Param s) ''.'') ss)"
    and "set_params target ss u e a = (Inr (u', e'), a')"
  shows "\<forall>s \<in> set ss. settled a a' target u' e' s"
  using assms
proof (induction ss arbitrary: u e a)
  case (Cons s ss)
  let ?path = "\<lambda>s. TrimSuffix (target @ ps_Param s) ''.''"
  obtain code msg a1 where one: "applyOne (target @ ps_Param s) (ps_Value s) a = ((code, msg), a1)" by (metis prod.exhaust)
  have new: "?path s \<notin> ?path ` set ss" and dist: "distinct (map ?path ss)" using Cons.prems(1) by auto
  then have name: "ps_Param s \<notin> ps_Param ` set ss" by (metis (no_types, lifting) imageE image_eqI)
  obtain u1 e1 where rest: "set_params target ss u1 e1 a1 = (Inr (u', e'), a')"
    and u1: "code = 0 \<Longrightarrow> map_of u1 (ps_Param s) = Some (ps_Value s)"
    and e1: "code \<noteq> 0 \<Longrightarrow> \<not> ps_Required s \<and> ps_Param s \<in> pe_Param ` set e1"
  proof (cases "code = 0")
    case True
    then show thesis using Cons.prems(2) one that [of "AList.update (ps_Param s) (ps_Value s) u" e]
      by (simp add: map_of_alist_update)
  next
    case False
    then show thesis using Cons.prems(2) one that [of u] by (fastforce simp: Let_def split: if_splits)
  qed
  have first: "settled a a1 target u' e' s"
  proof (cases "target @ ps_Param s" "ps_Value s" a rule: applyOne_cases)
    case (ok segs old a'')
    with one u1 set_params_grow [OF rest] name leaves.get_put [of "root (ag_tree a)" segs]
    show ?thesis by (auto simp: settled_def)
  next
    case (refused c m a'')
    with one e1 set_params_grow [OF rest] show ?thesis by (auto simp: settled_def)
  qed
  have "settled a a' target u' e' s"
    using settled_after [OF first _ new] set_params_untouched [of a1 target ss u1 e1] rest by simp
  moreover have "settled a a' target u' e' r" if "r \<in> set ss" for r
  proof (rule settled_before)
    show "settled a1 a' target u' e' r" using Cons.IH [OF dist rest] that by blast
    show "untouched a a1 {?path s}" using applyOne_untouched [of a "target @ ps_Param s" "ps_Value s"] one by simp
    show "?path r \<notin> {?path s}" using new imageI [OF that, of ?path] by auto
  qed
  ultimately show ?case by simp
qed simp

lemma set_targets_settled:
  assumes "distinct (addressed targets ss)" and "set_targets ss targets a = (Inr rs, a')"
  shows "map AffectedPath rs = targets
    \<and> (\<forall>r \<in> set rs. \<forall>s \<in> set ss. settled a a' (AffectedPath r) (UpdatedParams r) (ui_ParamErrs r) s)
    \<and> untouched a a' (set (addressed targets ss))"
  using assms
proof (induction targets arbitrary: a rs)
  case Nil
  then show ?case by (simp add: untouched_def)
next
  case (Cons target targets)
  let ?path = "\<lambda>target s. TrimSuffix (target @ ps_Param s) ''.''"
  from Cons.prems(2) obtain u e a1 rest where one: "set_params target ss [] [] a = (Inr (u, e), a1)"
    and more: "set_targets ss targets a1 = (Inr rest, a')"
    and rs: "rs = \<lparr>AffectedPath = target, UpdatedParams = u, ui_ParamErrs = e\<rparr> # rest"
    by (auto split: prod.splits sum.splits)
  from Cons.prems(1) have dist: "distinct (map (?path target) ss)" "distinct (addressed targets ss)"
    and apart: "set (map (?path target) ss) \<inter> set (addressed targets ss) = {}" by (auto simp: addressed_def)
  note IH = Cons.IH [OF dist(2) more]
  have un: "untouched a a1 (?path target ` set ss)" using set_params_untouched [of a target ss "[]" "[]"] one by simp
  have "settled a a' target u e s" if "s \<in> set ss" for s
  proof (rule settled_after)
    show "settled a a1 target u e s" using set_params_settled [OF dist(1) one] that by blast
    show "untouched a1 a' (set (addressed targets ss))" using IH by blast
    show "?path target s \<notin> set (addressed targets ss)" using apart that by auto
  qed
  moreover have "settled a a' (AffectedPath r) (UpdatedParams r) (ui_ParamErrs r) s"
    if "r \<in> set rest" "s \<in> set ss" for r s
  proof (rule settled_before [OF _ un])
    show "settled a1 a' (AffectedPath r) (UpdatedParams r) (ui_ParamErrs r) s" using IH that by blast
    have "AffectedPath r \<in> set targets" using IH that(1) by (metis imageI list.set_map)
    then have "?path (AffectedPath r) s \<in> set (addressed targets ss)" using that(2) by (auto simp: addressed_def)
    then show "?path (AffectedPath r) s \<notin> ?path target ` set ss" using apart by auto
  qed
  moreover have "untouched a a' (set (addressed (target # targets) ss))"
    using untouched_trans [OF un] IH by (simp add: addressed_def)
  ultimately show ?case using IH rs by simp
qed

section \<open>Properties\<close>




text \<open>A Get of a partial path answers with exactly the parameters below it: a parameter appears,
  with its current value and under the object that holds it, if and only if it lies at or below the
  requested object; the objects come in sorted order, each once.\<close>

theorem Get_partial_path_exact:
  assumes "wf_node (root t)" and "HasSuffix path ''.''" and "CHR ''*'' \<notin> set path"
    and "parsePath path = Inr segs" and "node_at segs (root t) = Some n"
  shows "gr_ErrCode (get_path t path) = 0
    \<and> sorted (map ResolvedPath (gr_Resolved (get_path t path)))
    \<and> distinct (map ResolvedPath (gr_Resolved (get_path t path)))
    \<and> ((\<exists>r \<in> set (gr_Resolved (get_path t path)). ResolvedPath r = obj \<and> map_of (ResultParams r) lf = Some raw)
        \<longleftrightarrow> (\<exists>p v. prefix segs p \<and> leaf_at (root t) p = Some v \<and> Raw v = raw \<and> splitLeaf (joinPath p) = (obj, lf)))"
proof -
  obtain groups where g: "Walk path (-1) file_leaf t [] = (Inr (), groups)" "distinct (map fst groups)"
    "group_lookup groups obj lf = Some raw \<longleftrightarrow>
      (\<exists>p v. prefix segs p \<and> leaf_at (root t) p = Some v \<and> Raw v = raw \<and> splitLeaf (joinPath p) = (obj, lf))"
    by (rule Walk_file_leaf [OF assms(1,4,5)]) blast
  have res: "gr_ErrCode (get_path t path) = 0" "gr_Resolved (get_path t path) = grouped groups"
    using assms(2,3) g(1) by (simp_all add: get_path_def)
  have names: "map ResolvedPath (grouped groups) = sort (map fst groups)"
    by (simp add: grouped_def comp_def sortStrings_eq)
  have "(\<exists>r \<in> set (grouped groups). ResolvedPath r = obj \<and> map_of (ResultParams r) lf = Some raw)
      \<longleftrightarrow> group_lookup groups obj lf = Some raw"
    by (force simp: grouped_def group_lookup_def sortStrings_eq split: option.splits dest: map_of_SomeD)
  then show ?thesis using res names g by simp
qed

section \<open>Counterexamples\<close>

definition port_leaf :: "bool \<Rightarrow> Node" where
  "port_leaf w = NewLeaf \<lparr>VType = TypeUnsignedInt, Raw = ''80'', Writable = w\<rparr>"

definition row_template :: Node where
  "row_template = Node [(''Alias'', text_leaf ''''), (''Port'', port_leaf True), (''State'', port_leaf False)] None None None"

definition row_tree :: Tree where
  "row_tree = New\<lparr>root :=
     Node [(''Row'', Node [(''1'', Node [(''Alias'', text_leaf ''x''), (''Port'', port_leaf True), (''State'', port_leaf False)]
         None None None)] None None (Some row_template)),
       (''RowNumberOfEntries'', NewLeaf \<lparr>VType = TypeUnsignedInt, Raw = ''1'', Writable = False\<rparr>)] None None None\<rparr>"

definition row_agent :: Agent where
  "row_agent = demo_agent\<lparr>ag_tree := row_tree\<rparr>"

definition setting :: "string \<Rightarrow> string \<Rightarrow> bool \<Rightarrow> ParamSetting" where
  "setting p v req = \<lparr>ps_Param = p, ps_Value = v, ps_Required = req\<rparr>"

text \<open>A required setting that fails does not undo the settings before it: the object is answered
  as failed, yet the parameter written first keeps its new value.\<close>

theorem failed_Set_half_written:
  "(case set_object \<lparr>uo_ObjPath = ''Row.1.'', uo_Settings = [setting ''Port'' ''81'' True, setting ''State'' ''1'' True]\<rparr> row_agent
     of ((_, res), a') \<Rightarrow> isl res \<and> map_sum (\<lambda>_. ()) Raw (Get ''Row.1.Port'' (ag_tree a')) = Inr ''81'')
   \<and> map_sum (\<lambda>_. ()) Raw (Get ''Row.1.Port'' (ag_tree row_agent)) = Inr ''80''"
  by code_simp

text \<open>A Get expands a search path only when it contains a star.  A path with a search expression and
  no star is answered with the error for an unknown path, although it resolves to a parameter that
  exists and a Set of the same path finds it.\<close>

theorem Get_ignores_expressions:
  "ExpandSearchPath row_tree (''Row.[Alias=='' @ [CHR 0x22] @ ''x'' @ [CHR 0x22] @ ''].Port'') = [''Row.1.Port'']
   \<and> (let r = get_path row_tree (''Row.[Alias=='' @ [CHR 0x22] @ ''x'' @ [CHR 0x22] @ ''].Port'')
      in gr_ErrCode r = ErrCodeInvalidPath \<and> gr_Resolved r = [])"
  by code_simp

section \<open>Witnesses\<close>

lemma row_wf: "wf_node (root (ag_tree row_agent))"
  by (simp add: row_agent_def row_tree_def row_template_def port_leaf_def text_leaf_def NewLeaf_def NewBranch_def
      New_def tree_eval)

definition row_set :: UpdateObject where
  "row_set = \<lparr>uo_ObjPath = ''Row.*.'', uo_Settings = [setting ''Port'' ''81'' True, setting ''State'' ''1'' False]\<rparr>"


definition row_add :: UpdateObject where
  "row_add = \<lparr>uo_ObjPath = ''Row.'', uo_Settings = [setting ''Port'' ''81'' True, setting ''State'' ''1'' True]\<rparr>"

lemma row_tables:
  assumes "node_at segs (root (ag_tree row_agent)) = Some n" and "table n \<noteq> None"
  shows "segs = [''Row''] \<and> length (children n) = 1"
  using assms
  by (cases segs; cases "tl segs"; cases "tl (tl segs)"; cases "tl (tl (tl segs))")
    (auto simp: row_agent_def row_tree_def row_template_def port_leaf_def text_leaf_def NewLeaf_def NewBranch_def
      New_def isLeaf_def split: if_splits)



theorem Get_partial_path_exact_witness:
  "\<exists>r. r \<in> set (gr_Resolved (get_path row_tree ''Row.'')) \<and> ResolvedPath r = ''Row.1.'' \<and> map_of (ResultParams r) ''Port'' = Some ''80''"
proof -
  obtain n where n: "node_at [''Row''] (root row_tree) = Some n" by (simp add: row_tree_def New_def tree_eval)
  have p: "HasSuffix ''Row.'' ''.''" "CHR ''*'' \<notin> set ''Row.''" "parsePath ''Row.'' = Inr [''Row'']" by code_simp+
  have wf: "wf_node (root row_tree)" using row_wf by (simp add: row_agent_def)
  have "leaf_at (root row_tree) [''Row'', ''1'', ''Port''] = Some \<lparr>VType = TypeUnsignedInt, Raw = ''80'', Writable = True\<rparr>"
    "splitLeaf (joinPath [''Row'', ''1'', ''Port'']) = (''Row.1.'', ''Port'')" by code_simp+
  moreover have "prefix [''Row''] [''Row'', ''1'', ''Port'']" by simp
  moreover have "Raw \<lparr>VType = TypeUnsignedInt, Raw = ''80'', Writable = True\<rparr> = ''80''" by simp
  ultimately have "\<exists>p v. prefix [''Row''] p \<and> leaf_at (root row_tree) p = Some v \<and> Raw v = ''80''
      \<and> splitLeaf (joinPath p) = (''Row.1.'', ''Port'')" by blast
  with Get_partial_path_exact [OF wf p n, of "''Row.1.''" "''Port''" "''80''"] show ?thesis by blast
qed

end
