(* ===== verification/UspOperate.thy ===== *)
theory UspOperate
  imports UspHandlers
begin

text \<open>
  Commands, events and the life of a USP agent: \<^verbatim>\<open>async.go\<close>, \<^verbatim>\<open>runner.go\<close> and the tables of
  \<^verbatim>\<open>subscriptions.go\<close> in \<^verbatim>\<open>src/internal/usp/agent\<close>.

  The command hook of the agent's configuration is an argument; it has a state of its own, threaded
  through, because it may reserve resources which its abort function releases.  The goroutine of an
  accepted asynchronous command is an entry in the list of running operations, from which it finishes
  through \<open>Complete\<close> or \<open>Fail\<close> at any later time.  A Go map is iterated in an order given as an
  argument.  Decoding the protobuf envelope is left to the codec: a record that arrives is a value of
  the datatype \<open>Inbound\<close>.
\<close>

section \<open>Mounting Device.LocalAgent\<close>

definition on_tree :: "(Tree \<Rightarrow> 'r \<times> Tree) \<Rightarrow> Agent \<Rightarrow> 'r \<times> Agent" where
  "on_tree f a = (let (r, t) = f (ag_tree a) in (r, after_op t a))"

fun attach_leaves :: "(string \<times> Value) list \<Rightarrow> Node \<Rightarrow> goerr + Node" where
  "attach_leaves [] n = Inr n"
| "attach_leaves ((name, v) # ps) n =
     (case Attach name (NewLeaf v) n of (Inl e, _) \<Rightarrow> Inl e | (Inr _, n') \<Rightarrow> attach_leaves ps n')"

text \<open>What the three tables have in common: when the object is not there, it is mounted and marked as a
  table of rows with the given parameters.\<close>

definition ensure_table :: "string \<Rightarrow> (string \<times> Value) list \<Rightarrow> Agent \<Rightarrow> (goerr + unit) \<times> Agent" where
  "ensure_table tablePath ps a =
     (case Children tablePath (ag_tree a) of
        Inr _ \<Rightarrow> (Inr (), a)
      | Inl _ \<Rightarrow>
          (case attach_leaves ps NewBranch of
             Inl e \<Rightarrow> (Inl e, a)
           | Inr template \<Rightarrow>
               (let parent = TrimSuffix tablePath ''.'' in
                case on_tree (Mount parent NewBranch) a of
                  (Inl e, a1) \<Rightarrow> (Inl e, a1)
                | (Inr _, a1) \<Rightarrow> on_tree (AddTable parent (Some template)) a1)))"

abbreviation val :: "Type \<Rightarrow> string \<Rightarrow> bool \<Rightarrow> Value" where
  "val ty raw w \<equiv> \<lparr>VType = ty, Raw = raw, Writable = w\<rparr>"

definition subscription_params :: "(string \<times> Value) list" where
  "subscription_params =
     [(''Alias'', val TypeString '''' True), (''ID'', val TypeString '''' True),
      (''Enable'', val TypeBoolean ''false'' True), (''NotifType'', val TypeString '''' True),
      (''ReferenceList'', val TypeString '''' True), (''Persistent'', val TypeBoolean ''false'' True),
      (''Recipient'', val TypeString '''' True), (''NotifRetry'', val TypeBoolean ''false'' True),
      (''NotifExpiration'', val TypeUnsignedInt ''0'' True), (''TimeToLive'', val TypeUnsignedInt ''0'' True),
      (''CreationDate'', val TypeDateTime ''0001-01-01T00:00:00Z'' False)]"

definition ensureSubscriptionTable :: "Agent \<Rightarrow> (goerr + unit) \<times> Agent" where
  "ensureSubscriptionTable = ensure_table SubscriptionTablePath subscription_params"

abbreviation "RequestTablePath \<equiv> ''Device.LocalAgent.Request.''"

definition request_params :: "(string \<times> Value) list" where
  "request_params =
     [(''Alias'', val TypeString '''' False), (''Originator'', val TypeString '''' False),
      (''Command'', val TypeString '''' False), (''CommandKey'', val TypeString '''' False),
      (''Status'', val TypeString ''Requested'' False)]"

definition ensureRequestTable :: "Agent \<Rightarrow> (goerr + unit) \<times> Agent" where
  "ensureRequestTable = ensure_table RequestTablePath request_params"

fun set_all :: "(string \<times> string) list \<Rightarrow> Agent \<Rightarrow> (goerr + unit) \<times> Agent" where
  "set_all [] a = (Inr (), a)"
| "set_all ((path, raw) # ws) a =
     (case on_tree (SetSystem path raw) a of
        (Inl e, a1) \<Rightarrow> (Inl e, a1)
      | (Inr _, a1) \<Rightarrow> set_all ws a1)"

definition controller_params :: "(string \<times> Value) list" where
  "controller_params =
     [(''Alias'', val TypeString '''' True), (''EndpointID'', val TypeString '''' True),
      (''Enable'', val TypeBoolean ''true'' True)]"

definition ensureControllerTable :: "string \<Rightarrow> Agent \<Rightarrow> (goerr + unit) \<times> Agent" where
  "ensureControllerTable controllerEndpointID a =
     (case ensure_table ControllerTablePath controller_params a of
        (Inl e, a1) \<Rightarrow> (Inl e, a1)
      | (Inr _, a1) \<Rightarrow>
          if controllerEndpointID = '''' then (Inr (), a1)
          else if list_ex (\<lambda>child. read_leaf (ag_tree a1) (child @ ''EndpointID'') = Some controllerEndpointID)
                    (childInstances (ag_tree a1) ControllerTablePath) then (Inr (), a1)
          else (case on_tree (AddObject ControllerTablePath) a1 of
                  (Inl e, a2) \<Rightarrow> (Inl e, a2)
                | (Inr inst, a2) \<Rightarrow>
                    (let row = ControllerTablePath @ Itoa inst @ ''.''
                     in set_all [(row @ ''EndpointID'', controllerEndpointID), (row @ ''Alias'', ''cpe-labs''),
                                 (row @ ''Enable'', ''true'')] a2)))"

definition ensureEndpointID :: "string \<Rightarrow> Agent \<Rightarrow> (goerr + unit) \<times> Agent" where
  "ensureEndpointID endpointID a =
     (case Get LocalAgentEndpointID (ag_tree a) of
        Inr _ \<Rightarrow> (Inr (), a)
      | Inl _ \<Rightarrow> on_tree (Mount LocalAgentEndpointID (NewLeaf (val TypeString endpointID False))) a)"

definition EnsureLocalAgent :: "string \<Rightarrow> string \<Rightarrow> Agent \<Rightarrow> (goerr + unit) \<times> Agent" where
  "EnsureLocalAgent agentEndpointID controllerEndpointID a =
     (case ensureSubscriptionTable a of
        (Inl e, a1) \<Rightarrow> (Inl e, a1)
      | (Inr _, a1) \<Rightarrow>
          (case ensureRequestTable a1 of
             (Inl e, a2) \<Rightarrow> (Inl e, a2)
           | (Inr _, a2) \<Rightarrow>
               (case ensureControllerTable controllerEndpointID a2 of
                  (Inl e, a3) \<Rightarrow> (Inl e, a3)
                | (Inr _, a3) \<Rightarrow> ensureEndpointID agentEndpointID a3)))"

section \<open>Request rows\<close>

definition activeRequestForCommand :: "Tree \<Rightarrow> string \<Rightarrow> string" where
  "activeRequestForCommand t commandPath =
     (case filter (\<lambda>row. read_leaf t (row @ ''Command'') = Some commandPath) (childInstances t RequestTablePath) of
        [] \<Rightarrow> ''''
      | row # _ \<Rightarrow> row)"

definition drop_row :: "string \<Rightarrow> goerr \<Rightarrow> Agent \<Rightarrow> (goerr + string) \<times> Agent" where
  "drop_row path e a = (Inl e, snd (on_tree (DeleteObject path) a))"

text \<open>\<open>order\<close> is the order in which Go goes over the map literal with the four values.\<close>

definition request_values :: "string \<Rightarrow> string \<Rightarrow> string \<Rightarrow> (string \<times> string) list" where
  "request_values originator commandPath commandKey =
     [(''Originator'', originator), (''Command'', commandPath), (''CommandKey'', commandKey), (''Status'', ''Requested'')]"

type_synonym map_order = "(string \<times> string) list \<Rightarrow> (string \<times> string) list"

definition createRequest :: "map_order \<Rightarrow> string \<Rightarrow> string \<Rightarrow> Agent \<Rightarrow> (goerr + string) \<times> Agent" where
  "createRequest order commandPath commandKey a =
     (case ensureRequestTable a of
        (Inl e, a1) \<Rightarrow> (Inl e, a1)
      | (Inr _, a1) \<Rightarrow>
          (case on_tree (AddObject RequestTablePath) a1 of
             (Inl e, a2) \<Rightarrow> (Inl e, a2)
           | (Inr inst, a2) \<Rightarrow>
               (let path = RequestTablePath @ Itoa inst @ ''.'' in
                case set_all (map (\<lambda>(lf, v). (path @ lf, v))
                       (order (request_values (ControllerID (ag_cfg a)) commandPath commandKey))) a2 of
                  (Inl e, a3) \<Rightarrow> drop_row path e a3
                | (Inr _, a3) \<Rightarrow>
                    (case on_tree (SetSystem (path @ ''Status'') ''Active'') a3 of
                       (Inl e, a4) \<Rightarrow> drop_row path e a4
                     | (Inr _, a4) \<Rightarrow> (Inr path, a4)))))"

section \<open>Notifications the agent starts itself\<close>

fun notify_each :: "string \<Rightarrow> (string \<Rightarrow> string \<Rightarrow> Msg) \<Rightarrow> Subscription list \<Rightarrow> Agent \<Rightarrow> (nat \<times> goerr option) \<times> Agent" where
  "notify_each msg_kind build [] a = ((0, None), a)"
| "notify_each msg_kind build (sub # subs) a =
     (let (mid, a1) = nextMsgID msg_kind a;
          (r, a2) = send_msg (build mid (sub_ID sub)) a1;
          ((n, e), a3) = notify_each msg_kind build subs a2
      in case r of
           Inl e' \<Rightarrow> ((n, case e of None \<Rightarrow> Some e' | Some e'' \<Rightarrow> Some e''), a3)
         | Inr _ \<Rightarrow> ((Suc n, e), a3))"

definition subscribed :: "string \<Rightarrow> string \<Rightarrow> Tree \<Rightarrow> Subscription list" where
  "subscribed notif target t =
     filter (\<lambda>sub. sub_Enable sub \<and> NotifType sub = notif \<and> Matches sub target) (SubscriptionTable t)"

definition notifyOperationComplete ::
  "string \<Rightarrow> string \<Rightarrow> string \<Rightarrow> params \<Rightarrow> CommandFailure option \<Rightarrow> Agent \<Rightarrow> Agent" where
  "notifyOperationComplete objPath commandName commandKey outputArgs failure a =
     snd (notify_each ''opc''
       (\<lambda>mid sub. NewOperationCompleteNotify mid sub objPath commandName commandKey outputArgs failure)
       (subscribed ''OperationComplete'' (objPath @ commandName) (ag_tree a)) a)"

definition deliverEvent :: "string \<Rightarrow> string \<Rightarrow> params \<Rightarrow> Agent \<Rightarrow> (nat \<times> goerr option) \<times> Agent" where
  "deliverEvent objPath eventName ps a =
     notify_each ''event'' (\<lambda>mid sub. NewEventNotify mid sub objPath eventName ps)
       (subscribed ''Event'' (objPath @ eventName) (ag_tree a)) a"

definition NotifyEvent :: "string \<Rightarrow> string \<Rightarrow> params \<Rightarrow> Agent \<Rightarrow> Agent" where
  "NotifyEvent objPath eventName ps a = snd (deliverEvent objPath eventName ps a)"

section \<open>Asynchronous operations\<close>

record AsyncOp =
  RequestPath :: string
  op_ObjPath :: string
  op_CommandName :: string
  op_CommandKey :: string
  op_Originator :: string

definition finishRow :: "string \<Rightarrow> string \<Rightarrow> Agent \<Rightarrow> Agent" where
  "finishRow path status a =
     (let a1 = snd (on_tree (SetSystem (path @ ''Status'') status) a)
      in snd (on_tree (DeleteObject path) a1))"

definition Complete :: "AsyncOp \<Rightarrow> params \<Rightarrow> Agent \<Rightarrow> Agent" where
  "Complete op outputArgs a =
     notifyOperationComplete (op_ObjPath op) (op_CommandName op) (op_CommandKey op) outputArgs None
       (finishRow (RequestPath op) ''Success'' a)"

definition Fail :: "AsyncOp \<Rightarrow> nat \<Rightarrow> string \<Rightarrow> Agent \<Rightarrow> Agent" where
  "Fail op errCode errMsg a =
     notifyOperationComplete (op_ObjPath op) (op_CommandName op) (op_CommandKey op) []
       (Some \<lparr>cf_ErrCode = errCode, cf_ErrMsg = errMsg\<rparr>) (finishRow (RequestPath op) ''Error'' a)"

section \<open>Operate\<close>

record CommandError =
  ce_Code :: nat
  ce_Msg :: string

text \<open>An error of the hook: a \<^verbatim>\<open>*CommandError\<close>, or another error with only a text.\<close>

datatype OperateError = CmdErr CommandError | OtherErr string

record 'h AsyncOperation =
  ObjPath :: string
  CommandName :: string
  Abort :: "('h \<Rightarrow> 'h) option"

record 'h OperateResult =
  OutputArgs :: "params option"
  Async :: "'h AsyncOperation option"

type_synonym 'h OperateFunc = "string \<Rightarrow> string \<Rightarrow> params \<Rightarrow> 'h \<Rightarrow> (OperateError + 'h OperateResult option) \<times> 'h"

record Operate =
  req_Command :: string
  req_CommandKey :: string
  req_SendResp :: bool
  req_InputArgs :: params

record 'h Runner =
  rn_agent :: Agent
  rn_hook :: 'h
  rn_running :: "AsyncOp list"

fun operate_error :: "OperateError \<Rightarrow> nat \<times> string" where
  "operate_error (CmdErr e) = (if ce_Code e \<noteq> 0 then ce_Code e else ErrCodeCommandFailure, ce_Msg e)"
| "operate_error (OtherErr msg) = (ErrCodeCommandFailure, msg)"

definition newOperateRespMsg :: "string \<Rightarrow> string \<Rightarrow> OperationResp \<Rightarrow> Msg" where
  "newOperateRespMsg msgID command resp =
     \<lparr>MsgId = msgID, Header_type = OPERATE_RESP, body = OperateRespB command resp\<rparr>"

definition abort_op :: "'h AsyncOperation \<Rightarrow> 'h \<Rightarrow> 'h" where
  "abort_op op h = (case Abort op of None \<Rightarrow> h | Some f \<Rightarrow> f h)"

definition start_async ::
  "map_order \<Rightarrow> string \<Rightarrow> Operate \<Rightarrow> 'h AsyncOperation \<Rightarrow> 'h Runner \<Rightarrow> Msg \<times> 'h Runner" where
  "start_async order msgID req async r =
     (let command = req_Command req;
          fail = (\<lambda>code msg. newOperateRespMsg msgID command (CmdFailure \<lparr>cf_ErrCode = code, cf_ErrMsg = msg\<rparr>));
          existing = activeRequestForCommand (ag_tree (rn_agent r)) command
      in if existing \<noteq> '''' then
           (fail ErrCodeResourcesExceeded
              (Sprintf ''command %q already has an active request at %s'' [command, existing]),
            r\<lparr>rn_hook := abort_op async (rn_hook r)\<rparr>)
         else (case createRequest order command (req_CommandKey req) (rn_agent r) of
                 (Inl e, a1) \<Rightarrow>
                   (fail ErrCodeCommandFailure (Sprintf ''could not create the request row: %v'' [Error_text e]),
                    r\<lparr>rn_agent := a1, rn_hook := abort_op async (rn_hook r)\<rparr>)
               | (Inr reqPath, a1) \<Rightarrow>
                   (newOperateRespMsg msgID command (ReqObjPathR reqPath),
                    r\<lparr>rn_agent := a1, rn_running := rn_running r @
                       [\<lparr>RequestPath = reqPath, op_ObjPath = ObjPath async, op_CommandName = CommandName async,
                         op_CommandKey = req_CommandKey req, op_Originator = ControllerID (ag_cfg (rn_agent r))\<rparr>]\<rparr>)))"

definition handleOperate ::
  "'h OperateFunc option \<Rightarrow> map_order \<Rightarrow> string \<Rightarrow> Operate \<Rightarrow> 'h Runner \<Rightarrow> Msg \<times> 'h Runner" where
  "handleOperate operate order msgID req r =
     (let command = req_Command req;
          fail = (\<lambda>code msg. newOperateRespMsg msgID command (CmdFailure \<lparr>cf_ErrCode = code, cf_ErrMsg = msg\<rparr>))
      in case operate of
           None \<Rightarrow> (fail ErrCodeCommandFailure (Sprintf ''command %q is not implemented by this simulator'' [command]), r)
         | Some run \<Rightarrow>
             (case run command (req_CommandKey req) (req_InputArgs req) (rn_hook r) of
                (Inl err, h) \<Rightarrow> (case operate_error err of (code, msg) \<Rightarrow> (fail code msg, r\<lparr>rn_hook := h\<rparr>))
              | (Inr None, h) \<Rightarrow> (newOperateRespMsg msgID command (ReqOutputArgs []), r\<lparr>rn_hook := h\<rparr>)
              | (Inr (Some outcome), h) \<Rightarrow>
                  (case Async outcome of
                     None \<Rightarrow> (newOperateRespMsg msgID command
                               (ReqOutputArgs (case OutputArgs outcome of None \<Rightarrow> [] | Some out \<Rightarrow> out)), r\<lparr>rn_hook := h\<rparr>)
                   | Some async \<Rightarrow> start_async order msgID req async (r\<lparr>rn_hook := h\<rparr>))))"

section \<open>Announcing the agent\<close>

definition NewRunner :: "bool \<Rightarrow> bool \<Rightarrow> AgentConfig \<Rightarrow> goerr + AgentConfig" where
  "NewRunner has_tree has_transport cfg =
     (if \<not> has_tree then Inl (Errorf ''usp/agent: tree is required'' [])
      else if \<not> has_transport then Inl (Errorf ''usp/agent: transport is required'' [])
      else if EndpointID (cfg_Identity cfg) = '''' then Inl (Errorf ''usp/agent: endpoint id is required'' [])
      else if ControllerID cfg = '''' then Inl (Errorf ''usp/agent: controller id is required'' [])
      else Inr (if BootSubscriptionID cfg = '''' then cfg\<lparr>BootSubscriptionID := ''boot''\<rparr> else cfg))"

definition collectBootParameters :: "Agent \<Rightarrow> params" where
  "collectBootParameters a =
     fold (\<lambda>path out. case Get path (ag_tree a) of Inl _ \<Rightarrow> out | Inr v \<Rightarrow> AList.update path (Raw v) out)
       (BootParameters (ag_cfg a)) []"

definition rootObjectPath :: "Tree \<Rightarrow> string" where
  "rootObjectPath t =
     (if list_ex (\<lambda>candidate. \<not> is_err (Names candidate True t)) [''Device.DeviceInfo.'', ''Device.'']
      then ''Device.'' else ''Device.'')"

definition boot :: "string \<Rightarrow> string \<Rightarrow> bool \<Rightarrow> Agent \<Rightarrow> (goerr + unit) \<times> Agent" where
  "boot cause commandKey firmwareUpdated a =
     (let (mid, a1) = nextMsgID ''boot'' a in
      case send_msg (NewBootNotify mid (BootSubscriptionID (ag_cfg a1)) (rootObjectPath (ag_tree a1)) cause commandKey
                       firmwareUpdated (collectBootParameters a1)) a1 of
        (Inl e, a2) \<Rightarrow> (Inl (Errorf ''boot notify: %w'' [ArgE e]), a2)
      | (Inr _, a2) \<Rightarrow> (Inr (), a2))"

definition Boot :: "string \<Rightarrow> Agent \<Rightarrow> (goerr + unit) \<times> Agent" where
  "Boot cause = boot cause '''' False"

definition FirmwareBoot :: "string \<Rightarrow> Agent \<Rightarrow> (goerr + unit) \<times> Agent" where
  "FirmwareBoot commandKey = boot ''RemoteReboot'' commandKey True"

definition Announce :: "string \<Rightarrow> Agent \<Rightarrow> (goerr + unit) \<times> Agent" where
  "Announce cause a =
     (let (mid, a1) = nextMsgID ''onboard'' a in
      case send_msg (NewOnBoardRequest mid (cfg_Identity (ag_cfg a1))) a1 of
        (Inl e, a2) \<Rightarrow> (Inl (Errorf ''onboard request: %w'' [ArgE e]), a2)
      | (Inr _, a2) \<Rightarrow> Boot cause a2)"

section \<open>Serving\<close>

datatype RequestBody =
    GetReq "string list"
  | SetReq "UpdateObject list"
  | AddReq "UpdateObject list"
  | DeleteReq "string list"
  | GetInstancesReq "string list" bool
  | GetSupportedDmReq "string list" bool bool
  | OperateReq Operate
  | OtherReq

datatype Inbound =
    Undecodable
  | NoMessage string
  | NonRequest string string
  | RequestRec string string RequestBody

definition reply_msg :: "Msg \<Rightarrow> 'h Runner \<Rightarrow> 'h Runner" where
  "reply_msg m r = r\<lparr>rn_agent := snd (send_msg m (rn_agent r))\<rparr>"

definition answer :: "(Agent \<Rightarrow> Msg \<times> Agent) \<Rightarrow> 'h Runner \<Rightarrow> 'h Runner" where
  "answer handler r = (let (m, a) = handler (rn_agent r) in reply_msg m (r\<lparr>rn_agent := a\<rparr>))"

fun serve_request :: "'h OperateFunc option \<Rightarrow> map_order \<Rightarrow> string \<Rightarrow> RequestBody \<Rightarrow> 'h Runner \<Rightarrow> 'h Runner" where
  "serve_request operate order msgID (GetReq paths) r = answer (\<lambda>a. (HandleGet (ag_tree a) msgID paths, a)) r"
| "serve_request operate order msgID (SetReq objs) r = answer (HandleSet msgID objs) r"
| "serve_request operate order msgID (AddReq objs) r = answer (HandleAdd msgID objs) r"
| "serve_request operate order msgID (DeleteReq paths) r = answer (HandleDelete msgID paths) r"
| "serve_request operate order msgID (GetInstancesReq paths first) r =
     answer (\<lambda>a. (HandleGetInstances (ag_tree a) msgID paths first, a)) r"
| "serve_request operate order msgID (GetSupportedDmReq paths first ps) r =
     answer (\<lambda>a. (HandleGetSupportedDM (ag_tree a) msgID paths first ps, a)) r"
| "serve_request operate order msgID (OperateReq req) r =
     (let (m, r1) = handleOperate operate order msgID req r in if req_SendResp req then reply_msg m r1 else r1)"
| "serve_request operate order msgID OtherReq r =
     answer (\<lambda>a. (NewError msgID 7004 ''message not supported by this simulator yet'', a)) r"

definition addressed_here :: "string \<Rightarrow> 'h Runner \<Rightarrow> bool" where
  "addressed_here to r \<longleftrightarrow> to = '''' \<or> to = EndpointID (cfg_Identity (ag_cfg (rn_agent r)))"

fun handleRecord :: "'h OperateFunc option \<Rightarrow> map_order \<Rightarrow> Inbound \<Rightarrow> 'h Runner \<Rightarrow> 'h Runner" where
  "handleRecord operate order Undecodable r = r"
| "handleRecord operate order (NoMessage to) r = r"
| "handleRecord operate order (NonRequest to msgID) r = r"
| "handleRecord operate order (RequestRec to msgID req) r =
     (if addressed_here to r then serve_request operate order msgID req r else r)"

text \<open>\<^verbatim>\<open>Run\<close> until the agent serves: the tables, the observer (none when the tables could not be
  mounted), and the announcement, whose failure is only logged.  The bulk data collector is not part of
  this theory.\<close>

definition start_agent :: "Agent \<Rightarrow> Agent" where
  "start_agent a =
     (case EnsureLocalAgent (EndpointID (cfg_Identity (ag_cfg a))) (ControllerID (ag_cfg a)) a of
        (Inl _, a1) \<Rightarrow> a1
      | (Inr _, a1) \<Rightarrow> (let (oid, t) = Observe False (ag_tree a1) in a1\<lparr>ag_tree := t, ag_observer := oid\<rparr>))"

definition announce_agent :: "Agent \<Rightarrow> Agent" where
  "announce_agent a = snd (Announce ''LocalReboot'' a)"

section \<open>What everything keeps\<close>

lemma wf_attach_leaves:
  "attach_leaves ps n = Inr n' \<Longrightarrow> wf_node n \<Longrightarrow> list_all (\<lambda>(k, v). valid_segs [k]) ps \<Longrightarrow> wf_node n'"
proof (induction ps arbitrary: n)
  case (Cons kv ps)
  obtain k v where kv: "kv = (k, v)" by (cases kv)
  from Cons.prems kv obtain n1 where n1: "Attach k (NewLeaf v) n = (Inr (), n1)" "attach_leaves ps n1 = Inr n'"
    by (auto split: prod.splits sum.splits)
  then have "n1 = set_child k (NewLeaf v) n" "\<not> isLeaf n" by (auto simp: Attach_def set_child_def isLeaf_def split: if_splits)
  moreover have "wf_node (NewLeaf v)" by (simp add: NewLeaf_def tree_eval)
  ultimately have "wf_node n1" using Cons.prems(2,3) kv by (auto intro: wf_set_child)
  with Cons.IH [OF n1(2)] Cons.prems(3) show ?case by simp
qed simp

context agent_invariant
begin

lemma on_tree_keeps: "I (a\<lparr>ag_tree := snd (f (ag_tree a))\<rparr>) \<Longrightarrow> I (snd (on_tree f a))"
  by (simp add: on_tree_def case_prod_unfold Let_def after_keeps)

lemma ensure_table_keeps: "I a \<Longrightarrow> list_all (\<lambda>(k, v). valid_segs [k]) ps \<Longrightarrow> I (snd (ensure_table p ps a))"
proof -
  assume a: "I a" and ps: "list_all (\<lambda>(k, v). valid_segs [k]) ps"
  have mount: "I (snd (on_tree (Mount q NewBranch) a))" for q
    by (intro on_tree_keeps op_Mount a wf_NewBranch)
  have "I (snd (on_tree (AddTable q (Some template)) (snd (on_tree (Mount q NewBranch) a))))"
    if "attach_leaves ps NewBranch = Inr template" for q template
    using wf_attach_leaves [OF that wf_NewBranch ps] by (intro on_tree_keeps op_AddTable mount)
  then show ?thesis
    using a mount by (auto simp: ensure_table_def case_prod_unfold Let_def split: sum.split)
qed

lemma set_all_keeps: "I a \<Longrightarrow> I (snd (set_all ws a))"
proof (induction ws arbitrary: a)
  case (Cons w ws)
  have "I (snd (on_tree (SetSystem (fst w) (snd w)) a))" by (intro on_tree_keeps op_SetSystem Cons.prems)
  with Cons.IH show ?case by (cases w) (auto split: prod.split sum.split)
qed simp

lemma ensure_tables_keep:
  "I a \<Longrightarrow> I (snd (ensureSubscriptionTable a))" "I a \<Longrightarrow> I (snd (ensureRequestTable a))"
  unfolding ensureSubscriptionTable_def ensureRequestTable_def
  by (rule ensure_table_keeps; simp add: subscription_params_def request_params_def tree_eval)+

lemma ensureControllerTable_keeps: assumes "I a" shows "I (snd (ensureControllerTable c a))"
proof -
  obtain r a1 where t: "ensure_table ControllerTablePath controller_params a = (r, a1)" by fastforce
  have "list_all (\<lambda>(k, v). valid_segs [k]) controller_params" by (simp add: controller_params_def tree_eval)
  from ensure_table_keeps [OF assms this] have a1: "I a1" using t by (metis snd_conv)
  obtain r2 a2 where add: "on_tree (AddObject ControllerTablePath) a1 = (r2, a2)" by fastforce
  then have a2: "I a2" using on_tree_keeps [where f = "AddObject ControllerTablePath", OF op_AddObject [OF a1]] by simp
  have "I (snd (set_all ws a2))" for ws by (rule set_all_keeps [OF a2])
  then show ?thesis
    unfolding ensureControllerTable_def t add prod.case using a1 a2 by (simp add: Let_def del: set_all.simps split: sum.split)
qed

lemma EnsureLocalAgent_keeps: assumes "I a" shows "I (snd (EnsureLocalAgent e c a))"
proof -
  obtain r1 a1 r2 a2 r3 a3 where t: "ensureSubscriptionTable a = (r1, a1)" "ensureRequestTable a1 = (r2, a2)"
    "ensureControllerTable c a2 = (r3, a3)" by (metis prod.exhaust)
  then have a: "I a1" "I a2" "I a3"
    using assms ensure_tables_keep ensureControllerTable_keeps by (metis snd_conv)+
  have "I (snd (on_tree (Mount LocalAgentEndpointID (NewLeaf (val TypeString e False))) a3))"
    by (intro on_tree_keeps op_Mount a) (simp add: NewLeaf_def tree_eval)
  then have "I (snd (ensureEndpointID e a3))" using a by (simp add: ensureEndpointID_def split: sum.split)
  then show ?thesis unfolding EnsureLocalAgent_def t prod.case using a t by (simp split: sum.split)
qed

lemma createRequest_keeps: assumes "I a" shows "I (snd (createRequest order c k a))"
proof -
  obtain r1 a1 r2 a2 where t: "ensureRequestTable a = (r1, a1)" "on_tree (AddObject RequestTablePath) a1 = (r2, a2)"
    by (metis prod.exhaust)
  then have a1: "I a1" using ensure_tables_keep(2) [OF assms] by simp
  have a2: "I a2" using on_tree_keeps [where f = "AddObject RequestTablePath", OF op_AddObject [OF a1]] t by simp
  have drop: "I (snd (drop_row p e b))" if "I b" for p e b
    using that by (simp add: drop_row_def on_tree_keeps op_DeleteObject)
  have set_one: "I (snd (on_tree (SetSystem p v) b))" if "I b" for p v b
    by (intro on_tree_keeps op_SetSystem that)
  have rest: "I (snd (case set_all ws a2 of
      (Inl e, a3) \<Rightarrow> drop_row path e a3
    | (Inr _, a3) \<Rightarrow> (case on_tree (SetSystem p ''Active'') a3 of
         (Inl e, a4) \<Rightarrow> drop_row path e a4 | (Inr _, a4) \<Rightarrow> (Inr path, a4))))" for ws path p
  proof -
    obtain r3 a3 r4 a4 where s: "set_all ws a2 = (r3, a3)" "on_tree (SetSystem p ''Active'') a3 = (r4, a4)"
      by (metis prod.exhaust)
    then have "I a3" "I a4" using set_all_keeps [OF a2, of ws] set_one [of a3 p "''Active''"] by simp_all
    then show ?thesis unfolding s prod.case using drop s by (cases r3; cases r4) simp_all
  qed
  show ?thesis
    unfolding createRequest_def t prod.case Let_def using a1 a2 rest t by (cases r1; cases r2) simp_all
qed

lemma notify_each_keeps:
  "I a \<Longrightarrow> (\<And>mid sub. build mid sub = notify_msg mid sub what) \<Longrightarrow> I (snd (notify_each k build subs a))"
proof (induction subs arbitrary: a)
  case (Cons s subs)
  have "I (snd (send_msg (build (fst (nextMsgID k a)) (sub_ID s)) (snd (nextMsgID k a))))"
    unfolding Cons.prems(2) by (rule send_notify [OF Cons.prems(1)])
  from Cons.IH [OF this Cons.prems(2)] show ?case
    by (simp add: case_prod_unfold Let_def split: sum.split)
qed simp

lemma own_notifications_keep:
  "I a \<Longrightarrow> I (notifyOperationComplete p n k out f a)" "I a \<Longrightarrow> I (snd (deliverEvent p n ps a))"
  unfolding notifyOperationComplete_def deliverEvent_def
  by (rule notify_each_keeps, assumption, simp add: NewOperationCompleteNotify_def NewEventNotify_def)+

lemma finishRow_keeps: "I a \<Longrightarrow> I (finishRow p s a)"
  unfolding finishRow_def Let_def by (intro on_tree_keeps op_DeleteObject op_SetSystem)

lemma finish_keeps: "I a \<Longrightarrow> I (Complete op out a)" "I a \<Longrightarrow> I (Fail op code msg a)"
  by (simp_all add: Complete_def Fail_def own_notifications_keep finishRow_keeps)

lemma boot_keeps: assumes "I a" shows "I (snd (boot cause key fw a))"
proof -
  have "I (snd (send_msg (NewBootNotify (fst (nextMsgID ''boot'' a)) sub p cause key fw ps) (snd (nextMsgID ''boot'' a))))"
    for sub p ps unfolding NewBootNotify_def NewEventNotify_def by (rule send_notify [OF assms])
  then show ?thesis by (simp add: boot_def case_prod_unfold Let_def split: sum.split)
qed

lemma Announce_keeps: assumes "I a" shows "I (snd (Announce cause a))"
proof -
  have "I (snd (send_msg (NewOnBoardRequest (fst (nextMsgID ''onboard'' a)) ident) (snd (nextMsgID ''onboard'' a))))" for ident
    unfolding NewOnBoardRequest_def by (rule send_notify [OF assms])
  then show ?thesis by (simp add: Announce_def Boot_def case_prod_unfold Let_def boot_keeps split: sum.split)
qed

lemma handleOperate_keeps: assumes "I (rn_agent r)" shows "I (rn_agent (snd (handleOperate operate order msgID req r)))"
proof -
  have "I (rn_agent (snd (start_async order msgID req async (r\<lparr>rn_hook := h\<rparr>))))" for h async
    using createRequest_keeps [OF assms, of order "req_Command req" "req_CommandKey req"] assms
    by (auto simp: start_async_def Let_def split: prod.split sum.split)
  then show ?thesis
    using assms by (auto simp: handleOperate_def Let_def split: option.split prod.split sum.split)
qed

lemma reply_msg_keeps: "I (rn_agent r) \<Longrightarrow> Header_type m \<noteq> NOTIFY \<Longrightarrow> I (rn_agent (reply_msg m r))"
  by (simp add: reply_msg_def send_answer)

lemma answer_keeps:
  "I (snd (h (rn_agent r))) \<Longrightarrow> Header_type (fst (h (rn_agent r))) \<noteq> NOTIFY \<Longrightarrow> I (rn_agent (answer h r))"
  by (simp add: answer_def case_prod_unfold Let_def reply_msg_keeps)

lemma handleOperate_header: "Header_type (fst (handleOperate operate order msgID req r)) \<noteq> NOTIFY"
  by (auto simp: handleOperate_def start_async_def Let_def newOperateRespMsg_def split: option.split prod.split sum.split)

lemma serve_request_keeps: assumes "I (rn_agent r)" shows "I (rn_agent (serve_request operate order msgID req r))"
proof (cases req)
  case (OperateReq oreq)
  then show ?thesis
    using handleOperate_keeps [OF assms, of operate order msgID oreq]
      handleOperate_header [of operate order msgID oreq r]
    by (simp add: case_prod_unfold Let_def reply_msg_keeps)
qed (use assms Handle_keeps in \<open>auto intro!: answer_keeps simp: HandleSet_def HandleAdd_def HandleDelete_def HandleGet_def
      HandleGetInstances_def HandleGetSupportedDM_def NewError_def case_prod_unfold Let_def\<close>)

lemma handleRecord_keeps: "I (rn_agent r) \<Longrightarrow> I (rn_agent (handleRecord operate order inb r))"
  by (cases inb) (simp_all add: serve_request_keeps)

end

section \<open>A request row\<close>

abbreviation "reqSegs \<equiv> [''Device'', ''LocalAgent'', ''Request'']"
abbreviation "row_names \<equiv> {''Originator'', ''Command'', ''CommandKey'', ''Status''}"

text \<open>The table as \<open>ensureRequestTable\<close> mounts it, or as a profile declares it.\<close>

definition request_table :: "Tree \<Rightarrow> bool" where
  "request_table t \<longleftrightarrow>
     (\<exists>n template. node_at reqSegs (root t) = Some n \<and> table n = Some template \<and> wf_node (root t)
        \<and> counter_honest reqSegs (root t) \<and> length (children n) < 2 ^ 62
        \<and> (\<forall>lf \<in> row_names. \<exists>v. leaf_at template [lf] = Some v \<and> VType v = TypeString))"

definition cells :: "string \<Rightarrow> (string \<Rightarrow> string option) \<Rightarrow> Node \<Rightarrow> bool" where
  "cells k content r \<longleftrightarrow>
     (\<forall>lf \<in> row_names. \<exists>v. leaf_at r (reqSegs @ [k, lf]) = Some v \<and> VType v = TypeString
        \<and> (\<forall>x. content lf = Some x \<longrightarrow> Raw v = x))"

lemma req_path [simp]: "joinPath reqSegs @ ''.'' = RequestTablePath"
  by code_simp

lemma row_path: "RequestTablePath @ k @ ''.'' = joinPath (reqSegs @ [k]) @ ''.''"
  by (simp add: joinPath_def)

lemma cell_path: "joinPath (reqSegs @ [k]) @ ''.'' @ lf = joinPath (reqSegs @ [k, lf])"
  by (simp add: joinPath_def)

lemma row_valid: "valid_segs [k] \<Longrightarrow> lf \<in> row_names \<Longrightarrow> valid_segs (reqSegs @ [k, lf])"
  by (auto simp: tree_eval)

lemma parse_cell: "valid_segs [k] \<Longrightarrow> lf \<in> row_names \<Longrightarrow> parsePath (joinPath (reqSegs @ [k]) @ ''.'' @ lf) = Inr (reqSegs @ [k, lf])"
  unfolding cell_path by (rule parsePath_joinPath [OF row_valid])

lemma write_cell:
  assumes k: "valid_segs [k]" and lf: "lf \<in> row_names" and raw: "Validate TypeString raw = Inr ()"
    and n: "node_at reqSegs r = Some n" "\<not> isLeaf n"
    and a: "pending reqSegs k n r a" "cells k content (root (ag_tree a))"
  shows "\<exists>a'. on_tree (SetSystem ((joinPath (reqSegs @ [k]) @ ''.'') @ lf) raw) a = (Inr (), a')
    \<and> pending reqSegs k n r a' \<and> cells k (content(lf \<mapsto> raw)) (root (ag_tree a')) \<and> ag_cfg a' = ag_cfg a"
proof -
  let ?segs = "reqSegs @ [k, lf]"
  obtain old where old: "leaf_at (root (ag_tree a)) ?segs = Some old" "VType old = TypeString"
    using a(2) lf unfolding cells_def by blast
  have "valid_Value (old\<lparr>Raw := raw\<rparr>)" using old(2) raw by (simp add: valid_Value_def)
  then obtain t where t: "SetSystem ((joinPath (reqSegs @ [k]) @ ''.'') @ lf) raw (ag_tree a) = (Inr (), t)"
    "root t = put_leaf ?segs (old\<lparr>Raw := raw\<rparr>) (root (ag_tree a))"
    using parse_cell [OF k lf] old(1) by (auto simp: SetSystem_Inr)
  obtain c where "root (ag_tree a) = table_root reqSegs (set_child k c n) r" using a(1) by (auto simp: pending_def)
  then have "pending reqSegs k n r (after_op t a)"
    using t(2) table_root_child_write [OF _ n, of k "[lf]" "old\<lparr>Raw := raw\<rparr>" c] by (auto simp: pending_def)
  moreover have "cells k (content(lf \<mapsto> raw)) (root t)"
    unfolding cells_def
  proof
    fix x assume x: "x \<in> row_names"
    show "\<exists>v. leaf_at (root t) (reqSegs @ [k, x]) = Some v \<and> VType v = TypeString
        \<and> (\<forall>y. (content(lf \<mapsto> raw)) x = Some y \<longrightarrow> Raw v = y)"
    proof (cases "x = lf")
      case True
      then show ?thesis using t(2) old leaves.get_put [of "root (ag_tree a)" ?segs] by simp
    next
      case False
      then have "leaf_at (root t) (reqSegs @ [k, x]) = leaf_at (root (ag_tree a)) (reqSegs @ [k, x])"
        using t(2) by (simp add: leaves.get_put_other)
      then show ?thesis using a(2) x False unfolding cells_def by auto
    qed
  qed
  ultimately show ?thesis using t(1) by (simp add: on_tree_def)
qed

lemma write_cells:
  assumes k: "valid_segs [k]" and n: "node_at reqSegs r = Some n" "\<not> isLeaf n"
  shows "set (map fst ws) \<subseteq> row_names \<Longrightarrow> \<forall>(lf, v) \<in> set ws. Validate TypeString v = Inr () \<Longrightarrow> pending reqSegs k n r a \<Longrightarrow> cells k content (root (ag_tree a)) \<Longrightarrow>
    \<exists>a'. set_all (map (\<lambda>(lf, v). ((joinPath (reqSegs @ [k]) @ ''.'') @ lf, v)) ws) a = (Inr (), a')
      \<and> pending reqSegs k n r a' \<and> cells k (content ++ map_of (rev ws)) (root (ag_tree a')) \<and> ag_cfg a' = ag_cfg a"
proof (induction ws arbitrary: a content)
  case (Cons w ws)
  obtain lf v where w: "w = (lf, v)" by (cases w)
  obtain a1 where a1: "on_tree (SetSystem ((joinPath (reqSegs @ [k]) @ ''.'') @ lf) v) a = (Inr (), a1)"
    "pending reqSegs k n r a1" "cells k (content(lf \<mapsto> v)) (root (ag_tree a1))" "ag_cfg a1 = ag_cfg a"
    using write_cell [OF k _ _ n Cons.prems(3,4), of lf v] Cons.prems(1,2) w by auto
  have sub: "set (map fst ws) \<subseteq> row_names" "\<forall>(lf, v) \<in> set ws. Validate TypeString v = Inr ()"
    using Cons.prems(1,2) by simp_all
  obtain a2 where a2: "set_all (map (\<lambda>(lf, v). ((joinPath (reqSegs @ [k]) @ ''.'') @ lf, v)) ws) a1 = (Inr (), a2)"
    "pending reqSegs k n r a2" "cells k (content(lf \<mapsto> v) ++ map_of (rev ws)) (root (ag_tree a2))" "ag_cfg a2 = ag_cfg a1"
    using Cons.IH [OF sub a1(2,3)] by blast
  have "content ++ map_of (rev (w # ws)) = content(lf \<mapsto> v) ++ map_of (rev ws)" using w by (simp add: map_add_assoc)
  then show ?case using w a1 a2 by simp
qed simp

lemma add_row:
  assumes t: "request_table (ag_tree a)"
  obtains k n a1 i where "on_tree (AddObject RequestTablePath) a = (Inr i, a1)" "k = Itoa i" "valid_segs [k]"
    "instance_of k \<noteq> None" "isInstanceNumber k" "node_at reqSegs (root (ag_tree a)) = Some n" "\<not> isLeaf n" "table n \<noteq> None"
    "map_of (children n) k = None" "counter_honest reqSegs (root (ag_tree a))"
    "pending reqSegs k n (root (ag_tree a)) a1" "cells k Map.empty (root (ag_tree a1))" "ag_cfg a1 = ag_cfg a"
proof -
  from t obtain n template where n: "node_at reqSegs (root (ag_tree a)) = Some n" "table n = Some template"
    "wf_node (root (ag_tree a))" "counter_honest reqSegs (root (ag_tree a))" "length (children n) < 2 ^ 62"
    and tmpl: "\<forall>lf \<in> row_names. \<exists>v. leaf_at template [lf] = Some v \<and> VType v = TypeString"
    unfolding request_table_def by blast
  define i where "i = next_free (used_instances n) 1"
  have p: "parsePath RequestTablePath = Inr reqSegs" by code_simp
  have nl: "\<not> isLeaf n" using wf_node_at [OF n(3,1)] n(2) by (auto simp: wf_node_iff [of n])
  have "is_err (fst (AddObject RequestTablePath (ag_tree a))) = False"
    using n(1,2) p by (simp add: AddObject_def is_err_def lookup_Some Let_def split: prod.split)
  then obtain j u where add: "AddObject RequestTablePath (ag_tree a) = (Inr j, u)"
    by (cases "AddObject RequestTablePath (ag_tree a)"; cases "fst (AddObject RequestTablePath (ag_tree a))")
      (auto simp: is_err_def)
  from AddObject_Inr [OF add] p n(1,2) have j: "j = i" and u: "root u = table_root reqSegs (set_child (Itoa i) (clone template) n) (root (ag_tree a))"
    unfolding i_def by auto
  have free: "map_of (children n) (Itoa i) = None" "instance_of (Itoa i) \<noteq> None"
    using fresh_instance_free [OF n(5)] unfolding i_def by simp_all
  have "0 < i" using next_free_props [of "used_instances n" 1] by (simp add: i_def)
  then have num: "Itoa i = show_nat (nat i)" by (simp add: Itoa_def)
  have v: "valid_segs [Itoa i]" unfolding num by (simp add: show_nat_segment)
  have "isInstanceNumber (Itoa i)"
    unfolding num isInstanceNumber_def using show_nat_digits [of _ "nat i"] v num by (auto simp: list_all_iff)
  have "leaf_at (root u) (reqSegs @ [Itoa i, lf]) = leaf_at template [lf]" for lf
  proof -
    have at: "node_at reqSegs (root u) = Some (set_child (Itoa i) (clone template) n)"
      unfolding u by (rule table_root_node [OF n(1)])
    show ?thesis
      using leaf_at_append [OF at, of "[Itoa i, lf]"] nl by (simp add: leaf_at_set_child)
  qed
  then have "cells (Itoa i) Map.empty (root u)" using tmpl unfolding cells_def by auto
  moreover have "pending reqSegs (Itoa i) n (root (ag_tree a)) (after_op u a)" using u by (auto simp: pending_def)
  ultimately show thesis
    using add j free v n nl \<open>isInstanceNumber (Itoa i)\<close> by (intro that [of i "after_op u a" "Itoa i" n]) (auto simp: on_tree_def)
qed

lemma instance_listed:
  assumes "parsePath p = Inr segs" and "node_at (segs @ [k]) (root t) \<noteq> None" and "isInstanceNumber k"
  shows "joinPath (segs @ [k]) @ ''.'' \<in> set (childInstances t p)"
proof -
  have v: "valid_segs segs" by (rule parsePath_valid [OF assms(1)])
  from assms(2) obtain n c where n: "node_at segs (root t) = Some n" "\<not> isLeaf n" "map_of (children n) k = Some c"
    by (auto simp: node_at_append split: if_splits option.splits)
  from Children_ok [OF assms(1) n(1,2)] obtain cs where cs: "Children p t = Inr cs"
    "map ci_Name cs = map (child_name segs) (sortedKeys (children n))" by blast
  have "(k, c) \<in> set (sortedKeys (children n))" using n(3) by (simp add: map_of_SomeD)
  then have "child_name segs (k, c) \<in> ci_Name ` set cs" using cs(2) by (metis image_eqI list.set_map)
  then obtain ch where ch: "ch \<in> set cs" "ci_Name ch = child_name segs (k, c)" by auto
  have k: "valid_segs [k]" by (rule instance_number_valid [OF assms(3)])
  have path: "with_dot (ci_Name ch) = joinPath (segs @ [k]) @ ''.''"
    unfolding ch(2) using with_dot_child [OF v, of "(k, c)"] k by simp
  have "lastSegment (joinPath (segs @ [k]) @ ''.'') = k" using v k by (intro lastSegment_joinPath(2)) simp
  with ch(1) path cs(1) assms(3) show ?thesis
    unfolding childInstances_def by (auto intro!: rev_image_eqI [of ch])
qed

lemma cell_read:
  assumes "valid_segs [k]" and "cells k content (root t)" and "lf \<in> row_names" and "content lf = Some x"
  shows "read_leaf t ((joinPath (reqSegs @ [k]) @ ''.'') @ lf) = Some x"
proof -
  obtain v where v: "leaf_at (root t) (reqSegs @ [k, lf]) = Some v" "Raw v = x"
    using assms(2-4) unfolding cells_def by blast
  have "Get ((joinPath (reqSegs @ [k]) @ ''.'') @ lf) t = Inr v"
    using parse_cell [OF assms(1,3)] v(1) by (simp only: Get_Inr append_assoc) blast
  then show ?thesis using v(2) by (simp add: read_leaf_def)
qed

lemma active_found:
  assumes "row \<in> set (childInstances t RequestTablePath)" and "read_leaf t (row @ ''Command'') = Some command"
  shows "activeRequestForCommand t command \<noteq> ''''"
proof -
  have "r \<noteq> ''''" if "r \<in> set (childInstances t RequestTablePath)" for r
    using that by (auto simp: childInstances_def with_dot_def HasSuffix_iff_suffix split: sum.splits)
  moreover define xs where "xs = filter (\<lambda>r. read_leaf t (r @ ''Command'') = Some command) (childInstances t RequestTablePath)"
  ultimately have "r \<noteq> ''''" if "r \<in> set xs" for r using that by auto
  moreover have "xs \<noteq> []" using assms by (auto simp: xs_def filter_empty_conv)
  ultimately have "hd xs \<noteq> ''''" by simp
  then show ?thesis
    unfolding activeRequestForCommand_def xs_def [symmetric] using \<open>xs \<noteq> []\<close> by (cases xs) simp_all
qed

lemma SetSystem_root:
  assumes "SetSystem p raw t = (Inr (), t')"
  obtains segs old where "parsePath p = Inr segs" "root t' = put_leaf segs (old\<lparr>Raw := raw\<rparr>) (root t)"
  using assms by (auto simp: SetSystem_Inr)

lemma finish_row:
  assumes row: "pending reqSegs k n r a" and k: "valid_segs [k]" "instance_of k \<noteq> None"
    and n: "node_at reqSegs r = Some n" "table n \<noteq> None" "\<not> isLeaf n" "map_of (children n) k = None" "counter_honest reqSegs r"
  shows "root (ag_tree (finishRow (joinPath (reqSegs @ [k]) @ ''.'') status a)) = r"
proof -
  have v: "valid_segs (reqSegs @ [k])" using k(1) by (simp add: tree_eval)
  define s where "s = SetSystem ((joinPath (reqSegs @ [k]) @ ''.'') @ ''Status'') status (ag_tree a)"
  have "\<exists>c. root (snd s) = table_root reqSegs (set_child k c n) r"
  proof (cases "fst s")
    case (Inl e)
    then have "snd s = ag_tree a" using write_fails_same(2) [of _ status "ag_tree a" e "snd s"] s_def by (metis prod.collapse)
    then show ?thesis using row by (simp add: pending_def)
  next
    case (Inr u)
    then have ok: "SetSystem ((joinPath (reqSegs @ [k]) @ ''.'') @ ''Status'') status (ag_tree a) = (Inr (), snd s)"
      unfolding s_def [symmetric] by (cases s) simp
    obtain segs old where "parsePath ((joinPath (reqSegs @ [k]) @ ''.'') @ ''Status'') = Inr segs"
      and put: "root (snd s) = put_leaf segs (old\<lparr>Raw := status\<rparr>) (root (ag_tree a))"
      by (rule SetSystem_root [OF ok])
    then have "segs = reqSegs @ [k, ''Status'']"
      using parse_cell [OF k(1), of "''Status''"] by (simp only: append_assoc) simp
    with put obtain v where "root (snd s) = put_leaf (reqSegs @ [k, ''Status'']) v (root (ag_tree a))" by blast
    then show ?thesis using row table_root_child_write [OF _ n(1,3), of k "[''Status'']" v] by (auto simp: pending_def)
  qed
  then obtain c where "root (snd s) = table_root reqSegs (set_child k c n) r" by blast
  from row_delete [OF _ n(1,2) v k(2) n(4,5) this]
  show ?thesis by (simp add: finishRow_def on_tree_def case_prod_unfold Let_def s_def)
qed

definition fair_order :: "map_order \<Rightarrow> bool" where
  "fair_order order \<longleftrightarrow> (\<forall>xs. mset (order xs) = mset xs)"

lemma order_values:
  assumes "fair_order order"
  shows "set (map fst (order (request_values c p k))) = row_names"
    and "map_of (rev (order (request_values c p k))) = map_of (request_values c p k)"
    and "set (order (request_values c p k)) = set (request_values c p k)"
proof -
  let ?v = "request_values c p k" and ?w = "order (request_values c p k)"
  have m: "mset ?w = mset ?v" using assms by (simp add: fair_order_def)
  then show s: "set ?w = set ?v" by (rule mset_eq_setD)
  then show "set (map fst ?w) = row_names" by (simp add: request_values_def)
  have "distinct (map fst ?v)" by (simp add: request_values_def)
  moreover have "mset (map fst ?w) = mset (map fst ?v)" using m by simp
  ultimately have "distinct (map fst ?w)" by (metis mset_eq_imp_distinct_iff)
  with \<open>distinct (map fst ?v)\<close> s show "map_of (rev ?w) = map_of ?v"
    by (intro map_of_inject_set [THEN iffD2]) (simp_all add: rev_map [symmetric])
qed

lemma ensureRequestTable_present: "request_table (ag_tree a) \<Longrightarrow> ensureRequestTable a = (Inr (), a)"
proof -
  assume "request_table (ag_tree a)"
  then obtain n where n: "node_at reqSegs (root (ag_tree a)) = Some n" "table n \<noteq> None" "wf_node (root (ag_tree a))"
    unfolding request_table_def by blast
  have nl: "\<not> isLeaf n" using wf_node_at [OF n(3,1)] n(2) by (auto simp: wf_node_iff [of n])
  have "parsePath RequestTablePath = Inr reqSegs" by code_simp
  from Children_ok [OF this n(1) nl] obtain cs where "Children RequestTablePath (ag_tree a) = Inr cs" by blast
  then show ?thesis by (simp only: ensureRequestTable_def ensure_table_def sum.case)
qed

lemma createRequest_ok:
  assumes t: "request_table (ag_tree a)" and "fair_order order"
    and texts: "Validate TypeString command = Inr ()" "Validate TypeString key = Inr ()"
      "Validate TypeString (ControllerID (ag_cfg a)) = Inr ()"
  obtains k n a' where "createRequest order command key a = (Inr (joinPath (reqSegs @ [k]) @ ''.''), a')"
    "valid_segs [k]" "instance_of k \<noteq> None" "isInstanceNumber k" "node_at reqSegs (root (ag_tree a)) = Some n"
    "\<not> isLeaf n" "table n \<noteq> None" "map_of (children n) k = None" "counter_honest reqSegs (root (ag_tree a))"
    "pending reqSegs k n (root (ag_tree a)) a'"
    "cells k ((map_of (request_values (ControllerID (ag_cfg a)) command key))(''Status'' \<mapsto> ''Active'')) (root (ag_tree a'))"
proof -
  obtain k n a1 i where add: "on_tree (AddObject RequestTablePath) a = (Inr i, a1)" "k = Itoa i" "valid_segs [k]"
    "instance_of k \<noteq> None" "isInstanceNumber k" "node_at reqSegs (root (ag_tree a)) = Some n" "\<not> isLeaf n" "table n \<noteq> None"
    "map_of (children n) k = None" "counter_honest reqSegs (root (ag_tree a))"
    "pending reqSegs k n (root (ag_tree a)) a1" "cells k Map.empty (root (ag_tree a1))" "ag_cfg a1 = ag_cfg a"
    by (rule add_row [OF t])
  let ?path = "joinPath (reqSegs @ [k]) @ ''.''"
  let ?vals = "request_values (ControllerID (ag_cfg a)) command key"
  let ?ws = "map (\<lambda>(lf, v). (?path @ lf, v)) (order ?vals)"
  note ord = order_values [OF assms(2), of "ControllerID (ag_cfg a)" command key]
  have valid: "Validate TypeString ''Requested'' = Inr ()" "Validate TypeString ''Active'' = Inr ()" by code_simp+
  have "\<forall>(lf, v) \<in> set (order ?vals). Validate TypeString v = Inr ()"
    unfolding ord(3) using texts valid by (simp add: request_values_def)
  then obtain a2 where a2: "set_all ?ws a1 = (Inr (), a2)" "pending reqSegs k n (root (ag_tree a)) a2"
    "cells k (map_of ?vals) (root (ag_tree a2))"
    using write_cells [OF add(3,6,7) _ _ add(11,12), of "order ?vals"] ord(1,2) by auto
  obtain a3 where a3: "on_tree (SetSystem (?path @ ''Status'') ''Active'') a2 = (Inr (), a3)"
    "pending reqSegs k n (root (ag_tree a)) a3" "cells k ((map_of ?vals)(''Status'' \<mapsto> ''Active'')) (root (ag_tree a3))"
    using write_cell [OF add(3) _ valid(2) add(6,7) a2(2,3), of "''Status''"] by auto
  have path: "RequestTablePath @ Itoa i @ ''.'' = ?path" unfolding add(2) by (rule row_path)
  have "createRequest order command key a = (Inr ?path, a3)"
    unfolding createRequest_def ensureRequestTable_present [OF t] prod.case sum.case add(1) Let_def path a2(1) a3(1) ..
  with add a3 show thesis by (intro that [of k a3 n]) simp_all
qed

text \<open>What the agent says by itself changes no parameter.\<close>

lemma notify_each_tree [simp]: "ag_tree (snd (notify_each k build subs a)) = ag_tree a"
  by (induction subs arbitrary: a) (simp_all add: case_prod_unfold Let_def split: sum.split)

lemma finish_tree:
  "ag_tree (Complete op out a) = ag_tree (finishRow (RequestPath op) ''Success'' a)"
  "ag_tree (Fail op code msg a) = ag_tree (finishRow (RequestPath op) ''Error'' a)"
  by (simp_all add: Complete_def Fail_def notifyOperationComplete_def)

lemma pending_other_row:
  assumes "pending reqSegs k n r a" and "node_at reqSegs r = Some n" and "\<not> isLeaf n" and "k' \<noteq> k"
  shows "leaf_at (root (ag_tree a)) (reqSegs @ k' # x) = leaf_at r (reqSegs @ k' # x)"
proof -
  obtain c where c: "root (ag_tree a) = table_root reqSegs (set_child k c n) r" using assms(1) by (auto simp: pending_def)
  have at: "node_at reqSegs (root (ag_tree a)) = Some (set_child k c n)" unfolding c by (rule table_root_node [OF assms(2)])
  show ?thesis
    unfolding leaf_at_append [OF at] leaf_at_append [OF assms(2)] using assms(3,4) by (simp add: leaf_at_set_child)
qed

lemma finishRow_other_row:
  assumes "wf_node (root (ag_tree a))" and "valid_segs [k]" and "k' \<noteq> k"
  shows "leaf_at (root (ag_tree (finishRow (joinPath (reqSegs @ [k]) @ ''.'') status a))) (reqSegs @ k' # x) =
    leaf_at (root (ag_tree a)) (reqSegs @ k' # x)"
proof -
  let ?path = "joinPath (reqSegs @ [k]) @ ''.''" and ?q = "reqSegs @ k' # x"
  obtain r1 t1 where s: "SetSystem (?path @ ''Status'') status (ag_tree a) = (r1, t1)" by fastforce
  obtain r2 t2 where d: "DeleteObject ?path t1 = (r2, t2)" by fastforce
  have wf: "wf_node (root t1)" using wf_SetSystem [OF assms(1), of "?path @ ''Status''" status] s by simp
  have one: "leaf_at (root t1) ?q = leaf_at (root (ag_tree a)) ?q"
  proof (cases r1)
    case (Inl e)
    then show ?thesis using s write_fails_same(2) by blast
  next
    case (Inr u)
    then have ok: "SetSystem (?path @ ''Status'') status (ag_tree a) = (Inr (), t1)" using s by simp
    obtain segs old where *: "parsePath (?path @ ''Status'') = Inr segs" "root t1 = put_leaf segs (old\<lparr>Raw := status\<rparr>) (root (ag_tree a))"
      by (rule SetSystem_root [OF ok])
    then have "segs = reqSegs @ [k, ''Status'']"
      using parse_cell [OF assms(2), of "''Status''"] by (simp only: append_assoc) simp
    then have "?q \<noteq> segs" using assms(3) by simp
    then show ?thesis using *(2) by (simp add: leaves.get_put_other)
  qed
  have two: "leaf_at (root t2) ?q = leaf_at (root t1) ?q"
  proof (cases r2)
    case (Inl e)
    then show ?thesis using d DeleteObject_fails_same by blast
  next
    case (Inr u)
    then have ok: "DeleteObject ?path t1 = (Inr (), t2)" using d by simp
    have p: "parsePath ?path = Inr (reqSegs @ [k])" using assms(2) by (intro parsePath_joinPath_dot) (simp add: tree_eval)
    have "\<not> prefix (reqSegs @ [k]) ?q" "?q \<noteq> counter_path reqSegs" using assms(3) by (simp_all add: counter_path_def)
    from DeleteObject_frame [OF ok p wf this] show ?thesis .
  qed
  have "ag_tree (finishRow ?path status a) = t2"
    unfolding finishRow_def on_tree_def Let_def s prod.case snd_conv after_op_sel(1) d ..
  then show ?thesis using one two by simp
qed

definition op_command :: "AsyncOp \<Rightarrow> string" where
  "op_command op = op_ObjPath op @ op_CommandName op"

definition row_of :: "Tree \<Rightarrow> AsyncOp \<Rightarrow> bool" where
  "row_of t op \<longleftrightarrow>
     (\<exists>k v. RequestPath op = joinPath (reqSegs @ [k]) @ ''.'' \<and> isInstanceNumber k
        \<and> leaf_at (root t) (reqSegs @ [k, ''Command'']) = Some v \<and> Raw v = op_command op)"

definition one_per_command :: "'h Runner \<Rightarrow> bool" where
  "one_per_command r \<longleftrightarrow> wf_node (root (ag_tree (rn_agent r)))
     \<and> list_all (row_of (ag_tree (rn_agent r))) (rn_running r) \<and> distinct (map op_command (rn_running r))"

lemma row_paths_inj:
  "joinPath (reqSegs @ [k]) @ ''.'' = joinPath (reqSegs @ [k']) @ ''.'' \<longleftrightarrow> k = k'"
  by (simp add: joinPath_def)

lemma row_of_finish:
  assumes "wf_node (root (ag_tree a))" and "row_of (ag_tree a) op" and "row_of (ag_tree a) op'"
    and "op_command op \<noteq> op_command op'"
  shows "row_of (ag_tree (finishRow (RequestPath op) status a)) op'"
proof -
  obtain k v k' v' where k: "RequestPath op = joinPath (reqSegs @ [k]) @ ''.''" "isInstanceNumber k"
      "leaf_at (root (ag_tree a)) (reqSegs @ [k, ''Command'']) = Some v" "Raw v = op_command op"
    and k': "RequestPath op' = joinPath (reqSegs @ [k']) @ ''.''" "isInstanceNumber k'"
      "leaf_at (root (ag_tree a)) (reqSegs @ [k', ''Command'']) = Some v'" "Raw v' = op_command op'"
    using assms(2,3) unfolding row_of_def by blast
  have "k' \<noteq> k" using k k' assms(4) by auto
  with finishRow_other_row [OF assms(1) instance_number_valid [OF k(2)], of k' status "[''Command'']"] k k'
  show ?thesis unfolding row_of_def by metis
qed

lemma finish_one_per_command:
  assumes "one_per_command r" and "op \<in> set (rn_running r)"
    and "ag_tree a' = ag_tree (finishRow (RequestPath op) status (rn_agent r))"
  shows "one_per_command (r\<lparr>rn_agent := a', rn_running := remove1 op (rn_running r)\<rparr>)"
proof -
  have dist: "distinct (rn_running r)" "distinct (map op_command (rn_running r))"
    and wf: "wf_node (root (ag_tree (rn_agent r)))" and rows: "list_all (row_of (ag_tree (rn_agent r))) (rn_running r)"
    using assms(1) by (auto simp: one_per_command_def distinct_map)
  have "row_of (ag_tree a') op'" if "op' \<in> set (remove1 op (rn_running r))" for op'
  proof -
    have in_run: "op' \<in> set (rn_running r)" "op' \<noteq> op" using that dist(1) by (auto simp: set_remove1_eq)
    then have "op_command op \<noteq> op_command op'" using dist(2) assms(2) by (auto simp: distinct_map inj_on_def)
    then show ?thesis
      unfolding assms(3) using rows in_run(1) assms(2) by (intro row_of_finish [OF wf]) (auto simp: list_all_iff)
  qed
  moreover have "wf_node (root (ag_tree a'))" unfolding assms(3) by (rule agent_shape.finishRow_keeps [OF wf])
  moreover have "distinct (map op_command (remove1 op (rn_running r)))"
    using dist by (auto simp: distinct_map inj_on_def dest: notin_set_remove1 [THEN contrapos_pp])
  ultimately show ?thesis by (simp add: one_per_command_def list_all_iff)
qed

lemma no_running_when_inactive:
  assumes "activeRequestForCommand (ag_tree a) command = ''''" and "row_of (ag_tree a) op"
  shows "op_command op \<noteq> command"
proof
  assume same: "op_command op = command"
  obtain k v where k: "isInstanceNumber k" "leaf_at (root (ag_tree a)) (reqSegs @ [k, ''Command'']) = Some v" "Raw v = command"
    using assms(2) same unfolding row_of_def by blast
  have "node_at (reqSegs @ [k]) (root (ag_tree a)) \<noteq> None"
  proof
    assume "node_at (reqSegs @ [k]) (root (ag_tree a)) = None"
    then have "node_at ((reqSegs @ [k]) @ [''Command'']) (root (ag_tree a)) = None" by (simp only: node_at_append option.case)
    then show False using k(2) by (simp add: leaf_at_def)
  qed
  moreover have "parsePath RequestTablePath = Inr reqSegs" by code_simp
  ultimately have listed: "joinPath (reqSegs @ [k]) @ ''.'' \<in> set (childInstances (ag_tree a) RequestTablePath)"
    using k(1) by (intro instance_listed)
  have "Get ((joinPath (reqSegs @ [k]) @ ''.'') @ ''Command'') (ag_tree a) = Inr v"
    using parse_cell [OF instance_number_valid [OF k(1)], of "''Command''"] k(2)
    by (simp only: Get_Inr append_assoc) blast
  then have "read_leaf (ag_tree a) ((joinPath (reqSegs @ [k]) @ ''.'') @ ''Command'') = Some command"
    using k(3) by (simp add: read_leaf_def)
  from active_found [OF listed this] assms(1) show False by simp
qed

lemma start_one_per_command:
  assumes r: "one_per_command r" and t: "request_table (ag_tree (rn_agent r))" and "fair_order order"
    and texts: "Validate TypeString (req_Command req) = Inr ()" "Validate TypeString (req_CommandKey req) = Inr ()"
      "Validate TypeString (ControllerID (ag_cfg (rn_agent r))) = Inr ()"
    and path: "ObjPath async @ CommandName async = req_Command req"
  shows "one_per_command (snd (start_async order msgID req async r))"
proof (cases "activeRequestForCommand (ag_tree (rn_agent r)) (req_Command req) = ''''")
  case False
  then show ?thesis using r by (simp add: start_async_def one_per_command_def Let_def)
next
  case True
  obtain k n a' where row: "createRequest order (req_Command req) (req_CommandKey req) (rn_agent r) = (Inr (joinPath (reqSegs @ [k]) @ ''.''), a')"
    "valid_segs [k]" "instance_of k \<noteq> None" "isInstanceNumber k" "node_at reqSegs (root (ag_tree (rn_agent r))) = Some n"
    "\<not> isLeaf n" "table n \<noteq> None" "map_of (children n) k = None" "counter_honest reqSegs (root (ag_tree (rn_agent r)))"
    "pending reqSegs k n (root (ag_tree (rn_agent r))) a'"
    "cells k ((map_of (request_values (ControllerID (ag_cfg (rn_agent r))) (req_Command req) (req_CommandKey req)))
       (''Status'' \<mapsto> ''Active'')) (root (ag_tree a'))"
    by (rule createRequest_ok [OF t assms(3) texts])
  define op where "op = \<lparr>RequestPath = joinPath (reqSegs @ [k]) @ ''.'', op_ObjPath = ObjPath async, op_CommandName = CommandName async,
     op_CommandKey = req_CommandKey req, op_Originator = ControllerID (ag_cfg (rn_agent r))\<rparr>"
  have after: "snd (start_async order msgID req async r) = r\<lparr>rn_agent := a', rn_running := rn_running r @ [op]\<rparr>"
    unfolding start_async_def Let_def True row(1) op_def by simp
  have cmd: "op_command op = req_Command req" using path by (simp add: op_def op_command_def)
  obtain v where "leaf_at (root (ag_tree a')) (reqSegs @ [k, ''Command'']) = Some v" "Raw v = req_Command req"
    using row(11) unfolding cells_def by (auto simp: request_values_def)
  then have new: "row_of (ag_tree a') op" using row(4) cmd unfolding row_of_def op_def by auto
  have old: "row_of (ag_tree a') op'" if op': "op' \<in> set (rn_running r)" for op'
  proof -
    have "row_of (ag_tree (rn_agent r)) op'" using r op' by (simp add: one_per_command_def list_all_iff)
    then obtain k' v' where k': "RequestPath op' = joinPath (reqSegs @ [k']) @ ''.''" "isInstanceNumber k'"
      "leaf_at (root (ag_tree (rn_agent r))) (reqSegs @ [k', ''Command'']) = Some v'" "Raw v' = op_command op'"
      unfolding row_of_def by blast
    have "k' \<noteq> k"
    proof
      assume "k' = k"
      then have "leaf_at n [k, ''Command''] = Some v'" using k'(3) leaf_at_append [OF row(5), of "[k, ''Command'']"] by simp
      then show False using row(6,8) by (simp add: leaf_at_def)
    qed
    with pending_other_row [OF row(10,5,6), of k' "[''Command'']"] k' show ?thesis unfolding row_of_def by auto
  qed
  have "req_Command req \<notin> op_command ` set (rn_running r)"
  proof
    assume "req_Command req \<in> op_command ` set (rn_running r)"
    then obtain x where x: "x \<in> set (rn_running r)" "op_command x = req_Command req" by auto
    then have "row_of (ag_tree (rn_agent r)) x" using r by (simp add: one_per_command_def list_all_iff)
    from no_running_when_inactive [OF True this] x(2) show False by simp
  qed
  moreover have "wf_node (root (ag_tree a'))"
    using agent_shape.createRequest_keeps [of "rn_agent r" order "req_Command req" "req_CommandKey req"] r row(1)
    by (simp add: one_per_command_def)
  ultimately show ?thesis
    using r new old cmd unfolding after by (auto simp: one_per_command_def list_all_iff)
qed

section \<open>The life of an agent\<close>

text \<open>Whatever can happen to a serving agent, one thing at a time: a record arrives, an operation
  finishes, an event or a change is reported, the device reboots, another part of the simulator writes
  a parameter or changes the state of the command hook.\<close>

inductive agent_step :: "'h OperateFunc option \<Rightarrow> 'h Runner \<Rightarrow> 'h Runner \<Rightarrow> bool" for operate where
  received: "agent_step operate r (handleRecord operate order inb r)"
| completed: "op \<in> set (rn_running r) \<Longrightarrow> agent_step operate r
    (r\<lparr>rn_agent := Complete op out (rn_agent r), rn_running := remove1 op (rn_running r)\<rparr>)"
| failed: "op \<in> set (rn_running r) \<Longrightarrow> agent_step operate r
    (r\<lparr>rn_agent := Fail op code msg (rn_agent r), rn_running := remove1 op (rn_running r)\<rparr>)"
| event: "agent_step operate r (r\<lparr>rn_agent := NotifyEvent objPath eventName ps (rn_agent r)\<rparr>)"
| reported: "agent_step operate r (r\<lparr>rn_agent := ReportValueChange path v (rn_agent r)\<rparr>)"
| announced: "agent_step operate r (r\<lparr>rn_agent := snd (Announce cause (rn_agent r))\<rparr>)"
| booted: "agent_step operate r (r\<lparr>rn_agent := snd (boot cause key fw (rn_agent r))\<rparr>)"
| written: "agent_step operate r (r\<lparr>rn_agent := snd (on_tree (SetSystem path raw) (rn_agent r))\<rparr>)"
| hooked: "agent_step operate r (r\<lparr>rn_hook := h\<rparr>)"

inductive_cases agent_stepE: "agent_step operate r r'"

context agent_invariant
begin

lemma step_keeps: "agent_step operate r r' \<Longrightarrow> I (rn_agent r) \<Longrightarrow> I (rn_agent r')"
proof (induction rule: agent_step.induct)
  case (received r order inb)
  then show ?case by (rule handleRecord_keeps)
next
  case (written r path raw)
  then show ?case by (simp add: on_tree_keeps op_SetSystem)
next
  case (reported r path v)
  then show ?case by (simp add: ReportValueChange_def notifier_keeps)
qed (simp_all add: finish_keeps NotifyEvent_def own_notifications_keep Announce_keeps boot_keeps)

lemma run_keeps: "(agent_step operate)\<^sup>*\<^sup>* r r' \<Longrightarrow> I (rn_agent r) \<Longrightarrow> I (rn_agent r')"
  by (induction rule: rtranclp_induct) (auto intro: step_keeps)

lemma start_keeps: "I a \<Longrightarrow> (\<And>b t oid. I b \<Longrightarrow> root t = root (ag_tree b) \<Longrightarrow> I (b\<lparr>ag_tree := t, ag_observer := oid\<rparr>)) \<Longrightarrow>
    I (start_agent a)"
  using EnsureLocalAgent_keeps [of a "EndpointID (cfg_Identity (ag_cfg a))" "ControllerID (ag_cfg a)"]
  by (auto simp: start_agent_def Observe_def Let_def split: prod.split sum.split)

end

lemma ids_distinct: "ids_ordered a \<Longrightarrow> distinct (map MsgId (filter (\<lambda>m. Header_type m = NOTIFY) (ag_sent a)))"
proof -
  assume "ids_ordered a"
  then have "distinct (map seq_num (map MsgId (filter (\<lambda>m. Header_type m = NOTIFY) (ag_sent a))))"
    by (simp add: ids_ordered_def own_numbers_def strict_sorted_iff)
  then show ?thesis unfolding distinct_map [of seq_num] by (rule conjunct1)
qed

section \<open>Properties\<close>

text \<open>C21: Whatever happens to an agent after it was created, in whatever order, the notifications it
  publishes carry pairwise distinct message identifiers, the messages of the past are never changed,
  and the data model stays a well-formed tree.\<close>

theorem agent_run_safe:
  assumes "ag_sent a = []" and "wf_node (root (ag_tree a))"
    and "(agent_step operate)\<^sup>*\<^sup>* (r\<lparr>rn_agent := start_agent a\<rparr>) r1" and "(agent_step operate)\<^sup>*\<^sup>* r1 r2"
  shows "distinct (map MsgId (filter (\<lambda>m. Header_type m = NOTIFY) (ag_sent (rn_agent r2))))
    \<and> wf_node (root (ag_tree (rn_agent r2))) \<and> prefix (ag_sent (rn_agent r1)) (ag_sent (rn_agent r2))"
proof -
  have run: "(agent_step operate)\<^sup>*\<^sup>* (r\<lparr>rn_agent := start_agent a\<rparr>) r2" using assms(3,4) by (rule rtranclp_trans)
  have "ids_ordered a" using assms(1) by (simp add: ids_ordered_def own_numbers_def)
  then have "ids_ordered (start_agent a)"
    by (rule agent_ids.start_keeps) (simp add: ids_ordered_def own_numbers_def)
  then have "ids_ordered (rn_agent r2)" using agent_ids.run_keeps [OF run] by simp
  moreover have "wf_node (root (ag_tree (start_agent a)))"
    using assms(2) by (rule agent_shape.start_keeps) simp
  then have "wf_node (root (ag_tree (rn_agent r2)))" using agent_shape.run_keeps [OF run] by simp
  moreover have "prefix (ag_sent (rn_agent r1)) (ag_sent (rn_agent r2))"
    by (rule agent_history.run_keeps [OF assms(4)]) simp
  ultimately show ?thesis using ids_distinct by blast
qed

text \<open>C20: At most one operation per command is running, and every running operation has a row of its own
  in the request table that names its command: an Operate keeps this, whether it is answered at once,
  accepted or refused, and so does the end of an operation, successful or not.  This rests on the
  contract of the hook that object path and command name make up the command, and on the texts of the
  request being well-formed.\<close>

theorem one_operation_per_command:
  assumes "one_per_command r" and "request_table (ag_tree (rn_agent r))" and "fair_order order"
    and "Validate TypeString (req_Command req) = Inr ()" and "Validate TypeString (req_CommandKey req) = Inr ()"
    and "Validate TypeString (ControllerID (ag_cfg (rn_agent r))) = Inr ()"
    and hook: "\<And>out async h. run (req_Command req) (req_CommandKey req) (req_InputArgs req) (rn_hook r) =
      (Inr (Some \<lparr>OutputArgs = out, Async = Some async\<rparr>), h) \<Longrightarrow> ObjPath async @ CommandName async = req_Command req"
  shows "one_per_command (snd (handleOperate (Some run) order msgID req r))
    \<and> (op \<in> set (rn_running r) \<longrightarrow>
        one_per_command (r\<lparr>rn_agent := Complete op outArgs (rn_agent r), rn_running := remove1 op (rn_running r)\<rparr>)
        \<and> one_per_command (r\<lparr>rn_agent := Fail op code msg (rn_agent r), rn_running := remove1 op (rn_running r)\<rparr>))"
proof -
  have same: "one_per_command (r\<lparr>rn_hook := h\<rparr>)" for h using assms(1) by (simp add: one_per_command_def)
  obtain res h where res: "run (req_Command req) (req_CommandKey req) (req_InputArgs req) (rn_hook r) = (res, h)" by fastforce
  have "one_per_command (snd (handleOperate (Some run) order msgID req r))"
  proof (cases "\<exists>out async. res = Inr (Some \<lparr>OutputArgs = out, Async = Some async\<rparr>)")
    case True
    then obtain out async where a: "res = Inr (Some \<lparr>OutputArgs = out, Async = Some async\<rparr>)" by blast
    have "one_per_command (snd (start_async order msgID req async (r\<lparr>rn_hook := h\<rparr>)))"
      using assms same hook [of out async h] res a by (intro start_one_per_command) simp_all
    then show ?thesis using res a by (simp add: handleOperate_def)
  next
    case False
    have none: "Async oc = None" if "res = Inr (Some oc)" for oc
      using False that by (cases oc; cases "Async oc") auto
    show ?thesis
    proof (cases res)
      case (Inl e)
      then show ?thesis using res same by (simp add: handleOperate_def case_prod_unfold)
    next
      case (Inr oc)
      then show ?thesis using res same none by (cases oc) (simp_all add: handleOperate_def)
    qed
  qed
  then show ?thesis using finish_one_per_command [OF assms(1)] finish_tree by blast
qed

text \<open>The row of an asynchronous command: in whatever order Go goes over the map of its values, the
  row ends up with the command, its key, the controller and the status Active, a repeat of the command
  is found active, and finishing the operation restores the data model exactly.\<close>

theorem request_row_lifecycle:
  assumes "request_table (ag_tree a)" and "fair_order order"
    and "Validate TypeString command = Inr ()" and "Validate TypeString key = Inr ()"
    and "Validate TypeString (ControllerID (ag_cfg a)) = Inr ()"
  shows "\<exists>path a'. createRequest order command key a = (Inr path, a')
    \<and> read_leaf (ag_tree a') (path @ ''Command'') = Some command
    \<and> read_leaf (ag_tree a') (path @ ''CommandKey'') = Some key
    \<and> read_leaf (ag_tree a') (path @ ''Originator'') = Some (ControllerID (ag_cfg a))
    \<and> read_leaf (ag_tree a') (path @ ''Status'') = Some ''Active''
    \<and> activeRequestForCommand (ag_tree a') command \<noteq> ''''
    \<and> root (ag_tree (finishRow path status a')) = root (ag_tree a)"
proof -
  obtain k n a' where row: "createRequest order command key a = (Inr (joinPath (reqSegs @ [k]) @ ''.''), a')"
    "valid_segs [k]" "instance_of k \<noteq> None" "isInstanceNumber k" "node_at reqSegs (root (ag_tree a)) = Some n"
    "\<not> isLeaf n" "table n \<noteq> None" "map_of (children n) k = None" "counter_honest reqSegs (root (ag_tree a))"
    "pending reqSegs k n (root (ag_tree a)) a'"
    and cells: "cells k ((map_of (request_values (ControllerID (ag_cfg a)) command key))(''Status'' \<mapsto> ''Active'')) (root (ag_tree a'))"
    by (rule createRequest_ok [OF assms])
  note read = cell_read [OF row(2) cells]
  have vals: "read_leaf (ag_tree a') ((joinPath (reqSegs @ [k]) @ ''.'') @ ''Command'') = Some command"
    "read_leaf (ag_tree a') ((joinPath (reqSegs @ [k]) @ ''.'') @ ''CommandKey'') = Some key"
    "read_leaf (ag_tree a') ((joinPath (reqSegs @ [k]) @ ''.'') @ ''Originator'') = Some (ControllerID (ag_cfg a))"
    "read_leaf (ag_tree a') ((joinPath (reqSegs @ [k]) @ ''.'') @ ''Status'') = Some ''Active''"
    by (rule read; simp add: request_values_def)+
  have "activeRequestForCommand (ag_tree a') command \<noteq> ''''"
    using no_running_when_inactive [of a' command "\<lparr>RequestPath = joinPath (reqSegs @ [k]) @ ''.'', op_ObjPath = command,
        op_CommandName = '''', op_CommandKey = key, op_Originator = ''''\<rparr>"] row(4) cells
    unfolding row_of_def cells_def by (auto simp: op_command_def request_values_def)
  with row(1) vals finish_row [OF row(10,2,3,5,7,6,8,9), of status] show ?thesis by blast
qed

section \<open>Counterexample\<close>

definition bare_tree :: Tree where
  "bare_tree = New\<lparr>root := Node [(''Device'', Node [] None None None)] None None None\<rparr>"

definition bare_agent :: Agent where
  "bare_agent = demo_agent\<lparr>ag_tree := bare_tree, ag_observer := None\<rparr>"

definition reset_cmd :: Operate where
  "reset_cmd = \<lparr>req_Command = ''Device.Reset()'', req_CommandKey = ''k'', req_SendResp = True, req_InputArgs = []\<rparr>"

definition reset_hook :: "unit OperateFunc" where
  "reset_hook command key args h =
     (Inr (Some \<lparr>OutputArgs = None, Async = Some \<lparr>ObjPath = ''Device.'', CommandName = ''Reset()'', Abort = None\<rparr>\<rparr>), h)"

definition fresh_runner :: "unit Runner" where
  "fresh_runner = \<lparr>rn_agent = start_agent bare_agent, rn_hook = (), rn_running = []\<rparr>"

definition operate_once :: "unit Runner \<Rightarrow> unit Runner" where
  "operate_once = handleRecord (Some reset_hook) (\<lambda>xs. xs) (RequestRec '''' ''m'' (OperateReq reset_cmd))"

text \<open>The request table is not protected from the controller.  A controller can delete the row of an
  operation that is still running, and then the same command is accepted again while the first is
  under way; it can also create rows itself.\<close>

theorem request_table_unprotected:
  "length (rn_running (operate_once (operate_once fresh_runner))) = 1
   \<and> length (rn_running (operate_once (handleRecord (Some reset_hook) (\<lambda>xs. xs)
        (RequestRec '''' ''m'' (DeleteReq [''Device.LocalAgent.Request.1.''])) (operate_once fresh_runner)))) = 2
   \<and> map (\<lambda>(_, r). isl r) (case body (fst (HandleAdd ''m'' [\<lparr>uo_ObjPath = RequestTablePath, uo_Settings = []\<rparr>] (rn_agent fresh_runner)))
        of AddRespB rs \<Rightarrow> rs) = [False]"
  by code_simp

section \<open>Witnesses\<close>

definition fresh_tree :: Tree where
  "fresh_tree = ag_tree (rn_agent fresh_runner)"

lemma bare_wf: "wf_node (root (ag_tree bare_agent))"
  by (simp add: bare_agent_def bare_tree_def New_def tree_eval)

lemma fresh_wf: "wf_node (root fresh_tree)"
  unfolding fresh_tree_def fresh_runner_def
  by (simp, rule agent_shape.start_keeps [OF bare_wf]) simp

definition freshly_mounted :: "Agent \<Rightarrow> bool" where
  "freshly_mounted a \<longleftrightarrow> ControllerID (ag_cfg a) = ''c'' \<and> counter_honest reqSegs (root (ag_tree a)) \<and>
     (case node_at reqSegs (root (ag_tree a)) of
        None \<Rightarrow> False
      | Some n \<Rightarrow> children n = [] \<and>
          (case table n of
             None \<Rightarrow> False
           | Some template \<Rightarrow>
               list_all (\<lambda>lf. map_option VType (leaf_at template [lf]) = Some TypeString)
                 [''Originator'', ''Command'', ''CommandKey'', ''Status'']))"

lemma fresh_mounted: "freshly_mounted (rn_agent fresh_runner)"
  by code_simp

lemma fresh_table: "request_table fresh_tree"
proof -
  obtain n template where "node_at reqSegs (root fresh_tree) = Some n" "table n = Some template"
    "length (children n) = 0" "counter_honest reqSegs (root fresh_tree)"
    "list_all (\<lambda>lf. map_option VType (leaf_at template [lf]) = Some TypeString)
       [''Originator'', ''Command'', ''CommandKey'', ''Status'']"
    using fresh_mounted unfolding freshly_mounted_def fresh_tree_def by (auto split: option.splits)
  then show ?thesis using fresh_wf unfolding request_table_def by (intro exI [of _ n] exI [of _ template]) auto
qed

lemma fresh_texts:
  "Validate TypeString ''Device.Reset()'' = Inr ()" "Validate TypeString ''k'' = Inr ()"
  "Validate TypeString (ControllerID (ag_cfg (rn_agent fresh_runner))) = Inr ()"
proof -
  show "Validate TypeString ''Device.Reset()'' = Inr ()" "Validate TypeString ''k'' = Inr ()" by code_simp+
  have "Validate TypeString ''c'' = Inr ()" by code_simp
  then show "Validate TypeString (ControllerID (ag_cfg (rn_agent fresh_runner))) = Inr ()"
    using fresh_mounted unfolding freshly_mounted_def by metis
qed

lemma in_order: "fair_order (\<lambda>xs. xs)"
  by (simp add: fair_order_def)

theorem agent_run_safe_witness:
  "distinct (map MsgId (filter (\<lambda>m. Header_type m = NOTIFY)
     (ag_sent (rn_agent (fresh_runner\<lparr>rn_agent := snd (Announce ''LocalReboot'' (rn_agent fresh_runner))\<rparr>)))))"
proof -
  have r: "fresh_runner\<lparr>rn_agent := start_agent bare_agent\<rparr> = fresh_runner" by (simp add: fresh_runner_def)
  have sent: "ag_sent bare_agent = []" by (simp add: bare_agent_def demo_agent_def)
  have step: "(agent_step None)\<^sup>*\<^sup>* fresh_runner (fresh_runner\<lparr>rn_agent := snd (Announce ''LocalReboot'' (rn_agent fresh_runner))\<rparr>)"
    by (rule r_into_rtranclp) (rule announced)
  show ?thesis using agent_run_safe [OF sent bare_wf, of None fresh_runner, unfolded r, OF rtranclp.rtrancl_refl step] by blast
qed

theorem one_operation_per_command_witness:
  "one_per_command (snd (handleOperate (Some reset_hook) (\<lambda>xs. xs) ''m'' reset_cmd fresh_runner))
   \<and> rn_running (snd (handleOperate (Some reset_hook) (\<lambda>xs. xs) ''m'' reset_cmd fresh_runner)) \<noteq> []"
proof
  show "one_per_command (snd (handleOperate (Some reset_hook) (\<lambda>xs. xs) ''m'' reset_cmd fresh_runner))"
  proof (rule conjunct1 [OF one_operation_per_command])
    show "one_per_command fresh_runner"
      using fresh_wf by (simp add: one_per_command_def fresh_tree_def) (simp add: fresh_runner_def)
    show "request_table (ag_tree (rn_agent fresh_runner))" using fresh_table by (simp only: fresh_tree_def)
    show "fair_order (\<lambda>xs. xs)" by (rule in_order)
    show "Validate TypeString (req_Command reset_cmd) = Inr ()" "Validate TypeString (req_CommandKey reset_cmd) = Inr ()"
      "Validate TypeString (ControllerID (ag_cfg (rn_agent fresh_runner))) = Inr ()"
      using fresh_texts by (simp_all add: reset_cmd_def)
    show "ObjPath async @ CommandName async = req_Command reset_cmd"
      if "reset_hook (req_Command reset_cmd) (req_CommandKey reset_cmd) (req_InputArgs reset_cmd) (rn_hook fresh_runner) =
        (Inr (Some \<lparr>OutputArgs = out, Async = Some async\<rparr>), h)" for out async h
      using that by (auto simp: reset_hook_def reset_cmd_def)
  qed
  show "rn_running (snd (handleOperate (Some reset_hook) (\<lambda>xs. xs) ''m'' reset_cmd fresh_runner)) \<noteq> []" by code_simp
qed

theorem request_row_lifecycle_witness:
  "\<exists>path a'. createRequest rev ''Device.Reset()'' ''k'' (rn_agent fresh_runner) = (Inr path, a')
     \<and> read_leaf (ag_tree a') (path @ ''Status'') = Some ''Active''
     \<and> root (ag_tree (finishRow path ''Success'' a')) = root fresh_tree"
proof -
  have "fair_order rev" by (simp add: fair_order_def)
  then show ?thesis
    using fresh_texts request_row_lifecycle [OF fresh_table [unfolded fresh_tree_def], of rev "''Device.Reset()''" "''k''" "''Success''"]
    unfolding fresh_tree_def by blast
qed

end
