(* ===== verification/Stun.thy ===== *)
theory Stun
  imports ParamTables "HOL-Library.Word"
begin

text \<open>
  The STUN client of TR-069 Annex G: \<^verbatim>\<open>codec.go\<close> and \<^verbatim>\<open>client.go\<close> of \<^verbatim>\<open>src/internal/cwmp/stun\<close>.

  A datagram is a list of 8-bit words, the type and length fields are 16-bit words with the
  wrap-around of Go's conversion.  The client is a record of its tree and its own fields; its loop is
  a second record on which every case of the \<^verbatim>\<open>select\<close> is one function, with the time and the
  random transaction identifier as arguments.  What the operating system and the crypto and HTTP
  libraries contribute (the local address, the HMAC, the parsed request line) are arguments as well.
\<close>

unbundle bit_operations_syntax

type_synonym byte = "8 word"

section \<open>Messages\<close>

definition TypeBindingRequest :: "16 word" where "TypeBindingRequest = 0x0001"
definition TypeBindingResponse :: "16 word" where "TypeBindingResponse = 0x0101"
definition TypeBindingErrorResponse :: "16 word" where "TypeBindingErrorResponse = 0x0111"

definition AttrMappedAddress :: "16 word" where "AttrMappedAddress = 0x0001"
definition AttrUsername :: "16 word" where "AttrUsername = 0x0006"
definition AttrErrorCode :: "16 word" where "AttrErrorCode = 0x0009"
definition AttrConnectionRequestBinding :: "16 word" where "AttrConnectionRequestBinding = 0xC001"
definition AttrBindingChange :: "16 word" where "AttrBindingChange = 0xC002"

abbreviation "headerLen \<equiv> 20 :: nat"

record Attribute =
  at_Type :: "16 word"
  at_Value :: "byte list"

record Message =
  m_Type :: "16 word"
  TransactionID :: "byte list"
  m_Attributes :: "Attribute list"

text \<open>\<^verbatim>\<open>binary.BigEndian.Uint16\<close> and \<^verbatim>\<open>PutUint16\<close>.\<close>

definition Uint16 :: "byte \<Rightarrow> byte \<Rightarrow> 16 word" where
  "Uint16 a b = push_bit 8 (ucast a) OR ucast b"

definition PutUint16 :: "16 word \<Rightarrow> byte list" where
  "PutUint16 w = [ucast (drop_bit 8 w), ucast w]"

definition bytes_of :: "string \<Rightarrow> byte list" where
  "bytes_of s = map of_char s"

definition ConnectionRequestBindingValue :: "byte list" where
  "ConnectionRequestBindingValue = bytes_of ''dslforum.org/TR-111 ''"

definition IsSTUN :: "byte list \<Rightarrow> bool" where
  "IsSTUN b \<longleftrightarrow> headerLen \<le> length b \<and> b ! 0 AND 0xC0 = 0"

definition padded :: "nat \<Rightarrow> nat" where
  "padded n = (let r = n mod 4 in if r \<noteq> 0 then n + (4 - r) else n)"

lemma padded_ge: "n \<le> padded n"
  unfolding padded_def Let_def by (cases "n mod 4 = 0") simp_all

function decode_attrs :: "byte list \<Rightarrow> Attribute list option" where
  "decode_attrs body =
     (if length body = 0 then Some []
      else if length body < 4 then None
      else (let t = Uint16 (body ! 0) (body ! 1);
                l = unat (Uint16 (body ! 2) (body ! 3))
            in if length body < 4 + l then None
               else map_option (\<lambda>rest. \<lparr>at_Type = t, at_Value = take l (drop 4 body)\<rparr> # rest)
                      (decode_attrs (drop (min (padded (4 + l)) (length body)) body))))"
  by pat_completeness auto
termination
proof (relation "measure length")
  fix body :: "byte list" and t l
  assume "\<not> length body < 4" "\<not> length body < 4 + l"
  then show "(drop (min (padded (4 + l)) (length body)) body, body) \<in> measure length"
    using padded_ge [of "4 + l"] by simp
qed simp

declare decode_attrs.simps [simp del]

definition Decode :: "byte list \<Rightarrow> Message option" where
  "Decode b =
     (if length b < headerLen then None
      else (let len = unat (Uint16 (b ! 2) (b ! 3)) in
            if length b < headerLen + len then None
            else map_option (\<lambda>attrs. \<lparr>m_Type = Uint16 (b ! 0) (b ! 1), TransactionID = take 16 (drop 4 b), m_Attributes = attrs\<rparr>)
                   (decode_attrs (take len (drop headerLen b)))))"

definition encode_attr :: "Attribute \<Rightarrow> byte list" where
  "encode_attr a =
     PutUint16 (at_Type a) @ PutUint16 (of_nat (length (at_Value a))) @ at_Value a
     @ (let r = length (at_Value a) mod 4 in if r \<noteq> 0 then replicate (4 - r) 0 else [])"

definition Encode :: "Message \<Rightarrow> byte list" where
  "Encode m =
     (let attrs = concat (map encode_attr (m_Attributes m))
      in PutUint16 (m_Type m) @ PutUint16 (of_nat (length attrs)) @ TransactionID m @ attrs)"

definition Get_attr :: "16 word \<Rightarrow> Message \<Rightarrow> byte list option" where
  "Get_attr t m = map_option at_Value (List.find (\<lambda>a. at_Type a = t) (m_Attributes m))"

definition Add_attr :: "16 word \<Rightarrow> byte list \<Rightarrow> Message \<Rightarrow> Message" where
  "Add_attr t v m = m\<lparr>m_Attributes := m_Attributes m @ [\<lparr>at_Type = t, at_Value = v\<rparr>]\<rparr>"

text \<open>An IPv4 address and a port.\<close>

type_synonym addr = "byte list \<times> nat"

definition MappedAddress :: "Message \<Rightarrow> addr option" where
  "MappedAddress m =
     (case Get_attr AttrMappedAddress m of
        None \<Rightarrow> None
      | Some v \<Rightarrow> if length v < 8 \<or> v ! 1 \<noteq> 1 then None
                  else Some ([v ! 4, v ! 5, v ! 6, v ! 7], unat (Uint16 (v ! 2) (v ! 3))))"

definition ErrorCode :: "Message \<Rightarrow> nat" where
  "ErrorCode m =
     (case Get_attr AttrErrorCode m of
        None \<Rightarrow> 0
      | Some v \<Rightarrow> if length v < 4 then 0 else unat (v ! 2 AND 0x07) * 100 + unat (v ! 3))"

function pad_spaces :: "byte list \<Rightarrow> byte list" where
  "pad_spaces b = (if length b mod 4 \<noteq> 0 then pad_spaces (b @ [0x20]) else b)"
  by pat_completeness auto
termination by (relation "measure (\<lambda>b. (4 - length b mod 4) mod 4)") (auto simp: mod_Suc)

declare pad_spaces.simps [simp del]

definition PadUsername :: "string \<Rightarrow> byte list" where
  "PadUsername u = pad_spaces (bytes_of u)"

section \<open>Settings\<close>

record Paths =
  p_Enable :: string
  p_ServerAddress :: string
  p_ServerPort :: string
  p_Username :: string
  p_Password :: string
  p_MinKeepAlive :: string
  p_MaxKeepAlive :: string
  p_UDPAddress :: string
  p_NATDetected :: string
  p_CRUsername :: string
  p_CRPassword :: string

definition PathsUnder :: "string \<Rightarrow> Paths" where
  "PathsUnder r =
     \<lparr>p_Enable = r @ ''STUNEnable'', p_ServerAddress = r @ ''STUNServerAddress'', p_ServerPort = r @ ''STUNServerPort'',
      p_Username = r @ ''STUNUsername'', p_Password = r @ ''STUNPassword'',
      p_MinKeepAlive = r @ ''STUNMinimumKeepAlivePeriod'', p_MaxKeepAlive = r @ ''STUNMaximumKeepAlivePeriod'',
      p_UDPAddress = r @ ''UDPConnectionRequestAddress'', p_NATDetected = r @ ''NATDetected'',
      p_CRUsername = r @ ''ConnectionRequestUsername'', p_CRPassword = r @ ''ConnectionRequestPassword''\<rparr>"

fun detect_roots :: "Tree \<Rightarrow> string list \<Rightarrow> goerr + Paths" where
  "detect_roots t [] = Inl (Errorf ''stun: the profile models no ManagementServer STUN leaves'' [])"
| "detect_roots t (r # rs) =
     (let p = PathsUnder r in
      if is_err (Get (p_Enable p) t) then detect_roots t rs
      else (case List.find (\<lambda>required. is_err (Get required t)) [p_ServerAddress p, p_UDPAddress p, p_NATDetected p] of
              Some required \<Rightarrow> Inl (Errorf ''stun: %s is modelled but %s is not'' [ArgS (p_Enable p), ArgS required])
            | None \<Rightarrow> Inr p))"

definition Detect :: "Tree \<Rightarrow> goerr + Paths" where
  "Detect t = detect_roots t [''Device.ManagementServer.'', ''InternetGatewayDevice.ManagementServer.'']"

text \<open>\<^verbatim>\<open>strconv.Atoi\<close> with its error ignored: 0 for a text that is no number, the nearest 64-bit integer
  for a number out of range.\<close>

fun scan_uint :: "int \<Rightarrow> string \<Rightarrow> int option" where
  "scan_uint n [] = Some n"
| "scan_uint n (c # s) =
     (if \<not> is_digit c then None
      else (let m = 10 * n + int (digit_val c) in if 2 ^ 64 \<le> m then Some (2 ^ 64 - 1) else scan_uint m s))"

definition Atoi_value :: "string \<Rightarrow> int" where
  "Atoi_value s =
     (let neg = (s \<noteq> [] \<and> hd s = CHR ''-'');
          digits = (if s \<noteq> [] \<and> (hd s = CHR ''-'' \<or> hd s = CHR ''+'') then tl s else s)
      in if digits = [] then 0
         else (case scan_uint 0 digits of
                 None \<Rightarrow> 0
               | Some n \<Rightarrow> if neg then max (- (2 ^ 63)) (- n) else min (2 ^ 63 - 1) n))"

definition isTrue :: "string \<Rightarrow> bool" where
  "isTrue v0 = (let v = TrimSpace v0 in EqualFold v ''true'' \<or> v = ''1'')"

text \<open>Durations are nanoseconds in an \<^verbatim>\<open>int64\<close>.\<close>

abbreviation "second \<equiv> 1000000000 :: int"
abbreviation "millisecond \<equiv> 1000000 :: int"

record settings =
  s_enabled :: bool
  s_server :: string
  s_port :: int
  s_username :: string
  s_minKeepAlive :: int
  s_maxKeepAlive :: int

record Client =
  cl_tree :: Tree
  cl_paths :: Paths
  cl_ACSHost :: string
  cl_cancel :: bool
  cl_running :: bool
  cl_settings :: settings
  cl_loop :: "settings option"
  cl_lastTS :: int
  cl_lastID :: "32 word"
  cl_seen :: bool
  cl_requests :: "(int \<times> 32 word) list"

definition read_param :: "Client \<Rightarrow> string \<Rightarrow> string" where
  "read_param c path = (case Get path (cl_tree c) of Inl _ \<Rightarrow> '''' | Inr v \<Rightarrow> Raw v)"

definition current :: "Client \<Rightarrow> settings" where
  "current c =
     (let p = cl_paths c;
          server = TrimSpace (read_param c (p_ServerAddress p));
          port = Atoi_value (read_param c (p_ServerPort p));
          minKA0 = Atoi_value (read_param c (p_MinKeepAlive p));
          maxKA = Atoi_value (read_param c (p_MaxKeepAlive p));
          minKA1 = (if minKA0 \<le> 0 then 30 else minKA0);
          minKA = (if 0 < maxKA \<and> maxKA < minKA1 then maxKA else minKA1)
      in \<lparr>s_enabled = isTrue (read_param c (p_Enable p)),
          s_server = (if server = '''' then cl_ACSHost c else server),
          s_port = (if port \<le> 0 then 3478 else port),
          s_username = read_param c (p_Username p),
          s_minKeepAlive = int64 (minKA * second),
          s_maxKeepAlive = int64 (maxKA * second)\<rparr>)"

definition reconcile :: "Client \<Rightarrow> Client" where
  "reconcile c =
     (let want = current c in
      if cl_running c \<and> want = cl_settings c then c
      else (let c1 = (if cl_cancel c then c\<lparr>cl_cancel := False, cl_running := False, cl_loop := None\<rparr> else c) in
            if \<not> s_enabled want \<or> s_server want = '''' then c1
            else c1\<lparr>cl_cancel := True, cl_running := True, cl_settings := want, cl_loop := Some want\<rparr>))"

definition stun_watched :: "Paths \<Rightarrow> string list" where
  "stun_watched p = [p_Enable p, p_ServerAddress p, p_ServerPort p, p_Username p, p_Password p, p_MinKeepAlive p, p_MaxKeepAlive p]"

definition on_change :: "Change \<Rightarrow> Client \<Rightarrow> Client" where
  "on_change ch c = (if ch_Kind ch = ChangeValue \<and> ch_Path ch \<in> set (stun_watched (cl_paths c)) then reconcile c else c)"

definition stop_client :: "Client \<Rightarrow> Client" where
  "stop_client c = (if cl_cancel c then c\<lparr>cl_loop := None\<rparr> else c)"

section \<open>The binding loop\<close>

record pendingRequest =
  pr_msg :: Message
  pr_change :: bool
  pr_attempts :: nat
  pr_next :: int

record Loop =
  lp_settings :: settings
  lp_local :: addr
  lp_pending :: "pendingRequest option"
  lp_mapped :: "addr option"
  lp_keepalive :: int
  lp_sent :: "byte list list"

text \<open>The wait after the \<open>n\<close>-th transmission.\<close>

definition backoff :: "nat \<Rightarrow> int" where
  "backoff n = (let w = 100 * millisecond * 2 ^ (n - 1) in if 1600 * millisecond < w then 1600 * millisecond else w)"

definition transmit :: "int \<Rightarrow> pendingRequest \<Rightarrow> Loop \<Rightarrow> Loop" where
  "transmit now p l =
     (let n = Suc (pr_attempts p)
      in l\<lparr>lp_sent := lp_sent l @ [Encode (pr_msg p)], lp_pending := Some (p\<lparr>pr_attempts := n, pr_next := now + backoff n\<rparr>)\<rparr>)"

definition due :: "int \<Rightarrow> pendingRequest \<Rightarrow> bool" where
  "due now p \<longleftrightarrow> pr_next p \<le> now"

definition binding_request :: "byte list \<Rightarrow> string \<Rightarrow> bool \<Rightarrow> Message" where
  "binding_request txid username change =
     (let m0 = \<lparr>m_Type = TypeBindingRequest, TransactionID = txid, m_Attributes = []\<rparr>;
          m1 = (if username \<noteq> '''' then Add_attr AttrUsername (PadUsername username) m0 else m0);
          m2 = Add_attr AttrConnectionRequestBinding ConnectionRequestBindingValue m1
      in if change then Add_attr AttrBindingChange [] m2 else m2)"

definition send_binding :: "int \<Rightarrow> byte list \<Rightarrow> bool \<Rightarrow> Loop \<Rightarrow> Loop" where
  "send_binding now txid change l =
     transmit now \<lparr>pr_msg = binding_request txid (s_username (lp_settings l)) change, pr_change = change,
                   pr_attempts = 0, pr_next = now\<rparr> l"

definition start_loop :: "int \<Rightarrow> byte list \<Rightarrow> addr \<Rightarrow> settings \<Rightarrow> Loop" where
  "start_loop now txid local s =
     send_binding now txid True
       \<lparr>lp_settings = s, lp_local = local, lp_pending = None, lp_mapped = None,
        lp_keepalive = now + s_minKeepAlive s, lp_sent = []\<rparr>"

definition on_keepalive :: "int \<Rightarrow> byte list \<Rightarrow> Loop \<Rightarrow> Loop" where
  "on_keepalive now txid l = (send_binding now txid False l)\<lparr>lp_keepalive := now + s_minKeepAlive (lp_settings l)\<rparr>"

definition on_retry :: "int \<Rightarrow> Loop \<Rightarrow> Loop" where
  "on_retry now l =
     (case lp_pending l of
        None \<Rightarrow> l
      | Some p \<Rightarrow>
          if \<not> due now p then l
          else if 9 \<le> pr_attempts p then l\<lparr>lp_pending := None\<rparr>
          else transmit now p l)"

definition show_ip :: "byte list \<Rightarrow> string" where
  "show_ip ip = join ''.'' (map (show_nat \<circ> unat) ip)"

definition JoinHostPort :: "addr \<Rightarrow> string" where
  "JoinHostPort a = show_ip (fst a) @ '':'' @ show_nat (snd a)"

definition report :: "bool \<Rightarrow> addr \<Rightarrow> addr \<Rightarrow> Client \<Rightarrow> Client" where
  "report behind_nat mapped local c =
     (let reported = (if behind_nat then mapped else local);
          (_, t1) = SetSystem (p_NATDetected (cl_paths c)) (if behind_nat then ''true'' else ''false'') (cl_tree c);
          (_, t2) = SetSystem (p_UDPAddress (cl_paths c)) (JoinHostPort reported) t1
      in c\<lparr>cl_tree := t2\<rparr>)"

text \<open>The outcome of parsing a datagram as an HTTP request: the method and the query parameters, an
  absent one empty.\<close>

record ConnRequest =
  cr_method :: string
  q_ts :: string
  q_id :: string
  q_un :: string
  q_cn :: string
  q_sig :: string

text \<open>\<open>hmac key text\<close> is the hexadecimal HMAC-SHA1.\<close>

definition Sign :: "(string \<Rightarrow> string \<Rightarrow> string) \<Rightarrow> string \<Rightarrow> int \<Rightarrow> 32 word \<Rightarrow> string \<Rightarrow> string \<Rightarrow> string" where
  "Sign hmac password ts ident username cnonce =
     hmac password (Itoa ts @ show_nat (unat ident) @ username @ cnonce)"

definition connectionRequest ::
  "(string \<Rightarrow> string \<Rightarrow> string) \<Rightarrow> (byte list \<Rightarrow> ConnRequest option) \<Rightarrow> byte list \<Rightarrow> Client \<Rightarrow> Client" where
  "connectionRequest hmac parse d c =
     (case parse d of
        None \<Rightarrow> c
      | Some req \<Rightarrow>
          if cr_method req \<noteq> ''GET'' then c
          else (case ParseInt 64 (q_ts req) of
                  None \<Rightarrow> c
                | Some ts \<Rightarrow>
                    (case ParseUint 32 (q_id req) of
                       None \<Rightarrow> c
                     | Some id64 \<Rightarrow>
                         (let ident = (of_nat id64 :: 32 word);
                              username = read_param c (p_CRUsername (cl_paths c));
                              password = read_param c (p_CRPassword (cl_paths c))
                          in if ts \<le> cl_lastTS c then c
                             else if cl_seen c \<and> ident = cl_lastID c then c
                             else if q_un req \<noteq> username then c
                             else if \<not> EqualFold (q_sig req) (Sign hmac password ts ident (q_un req) (q_cn req)) then c
                             else c\<lparr>cl_lastTS := ts, cl_lastID := ident, cl_seen := True,
                                    cl_requests := cl_requests c @ [(ts, ident)]\<rparr>))))"

definition on_response :: "int \<Rightarrow> byte list \<Rightarrow> Message \<Rightarrow> Client \<times> Loop \<Rightarrow> Client \<times> Loop" where
  "on_response now txid m cl =
     (case cl of (c, l) \<Rightarrow>
        if m_Type m = TypeBindingErrorResponse then (c, l\<lparr>lp_pending := None\<rparr>)
        else if m_Type m = TypeBindingResponse then
          (let l1 = l\<lparr>lp_pending := None\<rparr> in
           case MappedAddress m of
             None \<Rightarrow> (c, l1)
           | Some a \<Rightarrow>
               (let behind_nat = (a \<noteq> lp_local l1) in
                if lp_mapped l1 \<noteq> Some a then
                  (let l2 = (if lp_mapped l1 \<noteq> None then send_binding now txid True l1 else l1)
                   in (report behind_nat a (lp_local l2) c, l2\<lparr>lp_mapped := Some a\<rparr>))
                else (c, l1)))
        else (c, l))"

definition on_datagram ::
  "(string \<Rightarrow> string \<Rightarrow> string) \<Rightarrow> (byte list \<Rightarrow> ConnRequest option) \<Rightarrow> int \<Rightarrow> byte list \<Rightarrow> byte list \<Rightarrow>
     Client \<times> Loop \<Rightarrow> Client \<times> Loop" where
  "on_datagram hmac parse now txid d cl =
     (case cl of (c, l) \<Rightarrow>
        if \<not> IsSTUN d then (connectionRequest hmac parse d c, l)
        else (case (Decode d, lp_pending l) of
                (Some m, Some p) \<Rightarrow>
                  if TransactionID m \<noteq> TransactionID (pr_msg p) then (c, l) else on_response now txid m (c, l)
              | _ \<Rightarrow> (c, l)))"

section \<open>The codec\<close>

lemma Uint16_PutUint16: "Uint16 (PutUint16 w ! 0) (PutUint16 w ! 1) = w"
  by (rule bit_word_eqI) (auto simp: Uint16_def PutUint16_def bit_simps)

lemma length_PutUint16 [simp]: "length (PutUint16 w) = 2"
  by (simp add: PutUint16_def)

lemma Uint16_first: "Uint16 ((PutUint16 w @ ys) ! 0) ((PutUint16 w @ ys) ! 1) = w"
  using Uint16_PutUint16 [of w] by (simp add: nth_append)

lemma length_encode_attr: "length (encode_attr a) = padded (4 + length (at_Value a))"
proof -
  have "Suc (Suc (Suc (Suc (n + 4 - n mod 4)))) = 8 + n - n mod 4" for n :: nat
  proof -
    have "n mod 4 \<le> n" by simp
    then show ?thesis by linarith
  qed
  then show ?thesis by (simp add: encode_attr_def padded_def Let_def)
qed

lemma padded_mod: "padded n mod 4 = 0"
  unfolding padded_def Let_def by (cases "n mod 4 = 0") (simp_all, presburger)

lemma decode_encode_attr:
  assumes "length (at_Value a) < 2 ^ 16"
  shows "decode_attrs (encode_attr a @ rest) = map_option ((#) a) (decode_attrs rest)"
proof -
  let ?n = "length (at_Value a)" and ?b = "encode_attr a @ rest"
  define pad where "pad = (let r = ?n mod 4 in if r \<noteq> 0 then replicate (4 - r) (0 :: byte) else [])"
  have b: "?b = PutUint16 (at_Type a) @ PutUint16 (of_nat ?n) @ at_Value a @ pad @ rest"
    by (simp add: encode_attr_def pad_def)
  have t: "Uint16 (?b ! 0) (?b ! 1) = at_Type a"
    unfolding b by (rule Uint16_first)
  have l: "unat (Uint16 (?b ! 2) (?b ! 3)) = ?n"
  proof -
    have "?b ! 2 = PutUint16 (of_nat ?n) ! 0" "?b ! 3 = PutUint16 (of_nat ?n) ! 1"
      unfolding b by (simp_all add: nth_append)
    then show ?thesis using assms by (simp only: Uint16_PutUint16) (simp add: unat_of_nat take_bit_nat_eq_self)
  qed
  have len: "4 + ?n \<le> padded (4 + ?n)" "length ?b = padded (4 + ?n) + length rest"
    using padded_ge by (simp_all add: length_encode_attr)
  have v: "take ?n (drop 4 ?b) = at_Value a" unfolding b by simp
  have next_body: "drop (min (padded (4 + ?n)) (length ?b)) ?b = rest"
    using len(2) length_encode_attr [of a] by simp
  have ne: "length ?b \<noteq> 0" "\<not> length ?b < 4" "\<not> length ?b < 4 + ?n" using len by simp_all
  show ?thesis
    unfolding decode_attrs.simps [of ?b] t l Let_def v next_body using ne
    by (simp only: if_False) (cases a, simp add: comp_def)
qed

lemma decode_encode_attrs:
  "list_all (\<lambda>a. length (at_Value a) < 2 ^ 16) as \<Longrightarrow> decode_attrs (concat (map encode_attr as)) = Some as"
proof (induction as)
  case Nil
  show ?case by (subst decode_attrs.simps) simp
qed (simp add: decode_encode_attr)

definition wf_message :: "Message \<Rightarrow> bool" where
  "wf_message m \<longleftrightarrow> length (TransactionID m) = 16
     \<and> list_all (\<lambda>a. length (at_Value a) < 2 ^ 16) (m_Attributes m)
     \<and> length (concat (map encode_attr (m_Attributes m))) < 2 ^ 16"

text \<open>C28: Decoding an encoded message gives the message back, type, transaction identifier and every
  attribute with its unpadded value, as long as the lengths fit their 16-bit fields; the encoding is a
  multiple of four bytes long.\<close>

theorem Decode_Encode:
  assumes "wf_message m"
  shows "Decode (Encode m) = Some m \<and> length (Encode m) mod 4 = 0"
proof -
  let ?attrs = "concat (map encode_attr (m_Attributes m))"
  let ?b = "PutUint16 (m_Type m) @ PutUint16 (of_nat (length ?attrs)) @ TransactionID m @ ?attrs"
  have len: "length (TransactionID m) = 16" "length ?attrs < 2 ^ 16" using assms by (simp_all add: wf_message_def)
  have b: "Encode m = ?b" by (simp add: Encode_def Let_def)
  have t: "Uint16 (?b ! 0) (?b ! 1) = m_Type m" by (rule Uint16_first)
  have l: "unat (Uint16 (?b ! 2) (?b ! 3)) = length ?attrs"
  proof -
    have "?b ! 2 = PutUint16 (of_nat (length ?attrs)) ! 0" "?b ! 3 = PutUint16 (of_nat (length ?attrs)) ! 1"
      by (simp_all add: nth_append)
    then show ?thesis using len(2) by (simp only: Uint16_PutUint16) (simp add: unat_of_nat take_bit_nat_eq_self)
  qed
  have "length ?b = 20 + length ?attrs" "take 16 (drop 4 ?b) = TransactionID m" "take (length ?attrs) (drop 20 ?b) = ?attrs"
    using len(1) by simp_all
  then have "Decode ?b = Some m"
    using decode_encode_attrs [of "m_Attributes m"] assms
    unfolding Decode_def t l Let_def by (simp add: wf_message_def)
  moreover have "length (concat (map encode_attr as)) mod 4 = 0" for as
  proof (induction as)
    case (Cons a as)
    then show ?case using mod_add_eq [of "length (encode_attr a)" 4 "length (concat (map encode_attr as))"]
      by (simp add: length_encode_attr padded_mod)
  qed simp
  ultimately show ?thesis using b len(1) mod_add_eq [of 20 4 "length ?attrs"] by simp
qed

section \<open>Connection requests\<close>

text \<open>Whatever can happen to a client: a datagram that is no STUN message arrives, the tree changes, the
  loop reports what it found, ends by itself or is stopped.\<close>

inductive client_step :: "(string \<Rightarrow> string \<Rightarrow> string) \<Rightarrow> (byte list \<Rightarrow> ConnRequest option) \<Rightarrow> Client \<Rightarrow> Client \<Rightarrow> bool"
  for hmac parse where
  datagram: "client_step hmac parse c (connectionRequest hmac parse d c)"
| changed: "client_step hmac parse c (on_change ch c)"
| written: "client_step hmac parse c (c\<lparr>cl_tree := t\<rparr>)"
| reported: "client_step hmac parse c (report behind_nat mapped local c)"
| ended: "client_step hmac parse c (c\<lparr>cl_loop := None\<rparr>)"
| stopped: "client_step hmac parse c (stop_client c)"

inductive_cases client_stepE: "client_step hmac parse c c'"

lemma reconcile_sel [simp]:
  "cl_lastTS (reconcile c) = cl_lastTS c" "cl_requests (reconcile c) = cl_requests c" "cl_tree (reconcile c) = cl_tree c"
  "cl_paths (reconcile c) = cl_paths c"
  by (simp_all add: reconcile_def Let_def)

lemma on_change_sel [simp]: "cl_lastTS (on_change ch c) = cl_lastTS c" "cl_requests (on_change ch c) = cl_requests c"
  by (simp_all add: on_change_def)

lemma report_sel [simp]: "cl_lastTS (report n m l c) = cl_lastTS c" "cl_requests (report n m l c) = cl_requests c"
  by (simp_all add: report_def Let_def case_prod_unfold)

lemma stop_client_sel [simp]: "cl_lastTS (stop_client c) = cl_lastTS c" "cl_requests (stop_client c) = cl_requests c"
  by (simp_all add: stop_client_def)

text \<open>What an accepted request was checked for.\<close>

definition authentic :: "(string \<Rightarrow> string \<Rightarrow> string) \<Rightarrow> Client \<Rightarrow> ConnRequest \<Rightarrow> int \<Rightarrow> 32 word \<Rightarrow> bool" where
  "authentic hmac c req ts ident \<longleftrightarrow>
     cr_method req = ''GET'' \<and> cl_lastTS c < ts \<and> \<not> (cl_seen c \<and> ident = cl_lastID c)
     \<and> q_un req = read_param c (p_CRUsername (cl_paths c))
     \<and> EqualFold (q_sig req) (Sign hmac (read_param c (p_CRPassword (cl_paths c))) ts ident (q_un req) (q_cn req))"

lemma connectionRequest_cases:
  obtains (ignored) "connectionRequest hmac parse d c = c"
  | (accepted) req ts n where "parse d = Some req" "ParseInt 64 (q_ts req) = Some ts" "ParseUint 32 (q_id req) = Some n"
      "authentic hmac c req ts (of_nat n)"
      "connectionRequest hmac parse d c = c\<lparr>cl_lastTS := ts, cl_lastID := of_nat n, cl_seen := True,
         cl_requests := cl_requests c @ [(ts, of_nat n)]\<rparr>"
proof (cases "connectionRequest hmac parse d c = c")
  case False
  then obtain req where req: "parse d = Some req" "cr_method req = ''GET''"
    by (cases "parse d") (auto simp: connectionRequest_def split: if_splits)
  with False obtain ts where ts: "ParseInt 64 (q_ts req) = Some ts"
    by (cases "ParseInt 64 (q_ts req)") (simp_all add: connectionRequest_def)
  with req False obtain n where n: "ParseUint 32 (q_id req) = Some n"
    by (cases "ParseUint 32 (q_id req)") (simp_all add: connectionRequest_def)
  from accepted [OF req(1) ts n] req ts n False show thesis
    by (auto simp: connectionRequest_def authentic_def Let_def split: if_splits)
qed

lemma step_lastTS: "client_step hmac parse c c' \<Longrightarrow> cl_lastTS c \<le> cl_lastTS c'"
proof (induction rule: client_step.induct)
  case (datagram c d)
  then show ?case by (cases hmac parse d c rule: connectionRequest_cases) (simp_all add: authentic_def)
qed simp_all

lemma steps_lastTS: "(client_step hmac parse)\<^sup>*\<^sup>* c c' \<Longrightarrow> cl_lastTS c \<le> cl_lastTS c'"
  by (induction rule: rtranclp_induct) (auto dest: step_lastTS)

text \<open>C27: A UDP connection request starts at most one session.  It is acted on only when it is a GET with
  a later timestamp than every accepted one, another identifier than the last, the configured user name
  and the signature under the configured password; and once it was accepted, the same datagram is
  ignored for good, whatever happens to the client in between.\<close>

theorem connection_request_once:
  assumes "connectionRequest hmac parse d c \<noteq> c"
    and "(client_step hmac parse)\<^sup>*\<^sup>* (connectionRequest hmac parse d c) c'"
  shows "(\<exists>req ts n. parse d = Some req \<and> authentic hmac c req ts (of_nat n)
      \<and> ParseInt 64 (q_ts req) = Some ts \<and> ParseUint 32 (q_id req) = Some n
      \<and> cl_requests (connectionRequest hmac parse d c) = cl_requests c @ [(ts, of_nat n)])
    \<and> connectionRequest hmac parse d c' = c'"
proof (cases hmac parse d c rule: connectionRequest_cases)
  case ignored
  then show ?thesis using assms(1) by simp
next
  case (accepted req ts n)
  then have "ts \<le> cl_lastTS c'" using steps_lastTS [OF assms(2)] by simp
  then have "connectionRequest hmac parse d c' = c'"
    using accepted(1-3) by (simp add: connectionRequest_def Let_def)
  moreover have "cl_requests (connectionRequest hmac parse d c) = cl_requests c @ [(ts, of_nat n)]"
    using accepted(5) by simp
  ultimately show ?thesis using accepted(1-4) by blast
qed

section \<open>Retransmission\<close>

lemma backoff_bounds: "100 * millisecond \<le> backoff n \<and> backoff n \<le> 1600 * millisecond"
proof -
  have "(1 :: int) \<le> 2 ^ (n - 1)" by simp
  then show ?thesis unfolding backoff_def Let_def by simp
qed

text \<open>A loop in which the request \<open>m\<close> has been transmitted \<open>k\<close> times since \<open>past\<close>.\<close>

definition transmitted :: "byte list list \<Rightarrow> Message \<Rightarrow> nat \<Rightarrow> Loop \<Rightarrow> bool" where
  "transmitted past m k l \<longleftrightarrow> lp_sent l = past @ replicate k (Encode m) \<and> 1 \<le> k \<and> k \<le> 9
     \<and> (case lp_pending l of None \<Rightarrow> k = 9 | Some p \<Rightarrow> pr_msg p = m \<and> pr_attempts p = k)"

lemma on_retry_transmitted:
  assumes "transmitted past m k l"
  shows "\<exists>k'. transmitted past m k' (on_retry now l)"
proof (cases "lp_pending l")
  case None
  then show ?thesis using assms by (auto simp: on_retry_def)
next
  case (Some p)
  show ?thesis
  proof (cases "due now p \<and> \<not> 9 \<le> pr_attempts p")
    case True
    then have "transmitted past m (Suc k) (on_retry now l)"
      using assms Some by (simp add: transmitted_def on_retry_def transmit_def Let_def replicate_append_same)
    then show ?thesis by blast
  next
    case False
    then have "transmitted past m k (on_retry now l)"
      using assms Some by (auto simp: transmitted_def on_retry_def)
    then show ?thesis by blast
  qed
qed

lemma retries_transmitted: "transmitted past m k l \<Longrightarrow> \<exists>k'. transmitted past m k' (fold on_retry nows l)"
proof (induction nows arbitrary: k l)
  case (Cons now nows)
  then obtain k' where "transmitted past m k' (on_retry now l)" using on_retry_transmitted by blast
  with Cons.IH show ?case by simp
qed auto

lemma send_binding_transmitted:
  "transmitted (lp_sent l) (binding_request txid (s_username (lp_settings l)) change) 1 (send_binding now txid change l)"
  by (simp add: send_binding_def transmit_def transmitted_def Let_def)

lemma due_step:
  assumes "lp_pending l = Some p" and "pr_next p \<le> now"
  shows "on_retry now l = (if 9 \<le> pr_attempts p then l\<lparr>lp_pending := None\<rparr> else transmit now p l)"
  using assms by (simp add: on_retry_def due_def)

lemma late_ticks:
  "lp_pending l = Some p \<Longrightarrow> pr_attempts p + length nows = 10 \<Longrightarrow> pr_next p \<le> at + 1600 * millisecond \<Longrightarrow>
   successively (\<lambda>s t. s + 1600 * millisecond \<le> t) (at # nows) \<Longrightarrow> pr_attempts p \<le> 9 \<Longrightarrow>
   lp_pending (fold on_retry nows l) = None"
proof (induction nows arbitrary: l p at)
  case (Cons now nows)
  have step: "on_retry now l = (if 9 \<le> pr_attempts p then l\<lparr>lp_pending := None\<rparr> else transmit now p l)"
    using Cons.prems by (intro due_step) auto
  show ?case
  proof (cases "9 \<le> pr_attempts p")
    case True
    then have "nows = []" using Cons.prems(2,5) by simp
    then show ?thesis using step True by simp
  next
    case False
    have "lp_pending (fold on_retry nows (transmit now p l)) = None"
    proof (rule Cons.IH)
      show "lp_pending (transmit now p l) = Some (p\<lparr>pr_attempts := Suc (pr_attempts p), pr_next := now + backoff (Suc (pr_attempts p))\<rparr>)"
        by (simp add: transmit_def Let_def)
    qed (use Cons.prems False backoff_bounds in auto)
    then show ?thesis using step False by simp
  qed
qed simp

text \<open>A binding request is transmitted at least once and at most nine times, always the same bytes;
  it is given up only after the ninth, and it is given up after nine retry ticks that are at least
  1.6 seconds apart.\<close>

theorem binding_request_nine_times:
  assumes "l' = fold on_retry nows (send_binding now txid change l)"
  shows "(\<exists>k. 1 \<le> k \<and> k \<le> 9
      \<and> lp_sent l' = lp_sent l @ replicate k (Encode (binding_request txid (s_username (lp_settings l)) change))
      \<and> (lp_pending l' = None \<longrightarrow> k = 9))
    \<and> (length nows = 9 \<and> successively (\<lambda>s t. s + 1600 * millisecond \<le> t) (now # nows) \<longrightarrow> lp_pending l' = None)"
proof
  obtain k where "transmitted (lp_sent l) (binding_request txid (s_username (lp_settings l)) change) k l'"
    using retries_transmitted [OF send_binding_transmitted] assms by blast
  then show "\<exists>k. 1 \<le> k \<and> k \<le> 9
      \<and> lp_sent l' = lp_sent l @ replicate k (Encode (binding_request txid (s_username (lp_settings l)) change))
      \<and> (lp_pending l' = None \<longrightarrow> k = 9)"
    by (intro exI [of _ k]) (auto simp: transmitted_def)
  show "length nows = 9 \<and> successively (\<lambda>s t. s + 1600 * millisecond \<le> t) (now # nows) \<longrightarrow> lp_pending l' = None"
  proof
    assume ticks: "length nows = 9 \<and> successively (\<lambda>s t. s + 1600 * millisecond \<le> t) (now # nows)"
    obtain p where "lp_pending (send_binding now txid change l) = Some p" "pr_attempts p = 1" "pr_next p = now + backoff 1"
      by (simp add: send_binding_def transmit_def Let_def)
    with late_ticks [of "send_binding now txid change l" p nows now] ticks backoff_bounds [of 1] assms
    show "lp_pending l' = None" by simp
  qed
qed

section \<open>Following the tree\<close>

text \<open>The flags of a client agree with its loop.\<close>

definition in_step :: "Client \<Rightarrow> bool" where
  "in_step c \<longleftrightarrow> cl_running c = cl_cancel c \<and> cl_loop c = (if cl_running c then Some (cl_settings c) else None)
     \<and> (cl_running c \<longrightarrow> s_enabled (cl_settings c) \<and> s_server (cl_settings c) \<noteq> [])"

text \<open>Reconciling brings the loop in line with the data model, whatever it did before: a loop runs
  exactly when STUN is enabled and a server is known, and it runs with the settings the tree has now.\<close>

theorem reconcile_follows_tree:
  assumes "in_step c"
  shows "in_step (reconcile c)
    \<and> cl_loop (reconcile c) = (if s_enabled (current c) \<and> s_server (current c) \<noteq> [] then Some (current c) else None)"
  using assms by (auto simp: in_step_def reconcile_def Let_def)

lemma digits_val_mono: "digits_val m s = Some n \<Longrightarrow> m \<le> n"
proof (induction s arbitrary: m)
  case (Cons c s)
  then have "10 * m + digit_val c \<le> n" by (auto split: if_splits)
  then show ?case by simp
qed simp

lemma Atoi_value_uint: "ParseUint 32 s = Some n \<Longrightarrow> Atoi_value s = int n"
proof -
  assume s: "ParseUint 32 s = Some n"
  then have dig: "digits_val 0 s = Some n" "s \<noteq> []" and small: "n < 2 ^ 32"
    by (auto simp: ParseUint_def parse_nat_def split: option.splits if_splits)
  have scan: "digits_val m s = Some n \<Longrightarrow> scan_uint (int m) s = Some (int n)" for m s
  proof (induction s arbitrary: m)
    case (Cons c s)
    then have c: "is_digit c" "digits_val (10 * m + digit_val c) s = Some n" by (auto split: if_splits)
    have "10 * m + digit_val c \<le> n" using digits_val_mono [OF c(2)] .
    then have "int (10 * m + digit_val c) < 2 ^ 64" using small by simp
    then show ?case using Cons.IH [OF c(2)] c(1) by (simp add: Let_def)
  qed simp
  have sign: "hd s \<noteq> CHR ''-''" "hd s \<noteq> CHR ''+''" using dig by (cases s; auto split: if_splits simp: is_digit_def)+
  show ?thesis
    using scan [OF dig(1)] dig(2) sign small by (simp add: Atoi_value_def Let_def min_def)
qed

text \<open>The two periods as the ACS can set them: 32-bit unsigned integers.\<close>

definition periods :: "Client \<Rightarrow> nat \<Rightarrow> nat \<Rightarrow> bool" where
  "periods c lo hi \<longleftrightarrow> ParseUint 32 (read_param c (p_MinKeepAlive (cl_paths c))) = Some lo
     \<and> ParseUint 32 (read_param c (p_MaxKeepAlive (cl_paths c))) = Some hi"

text \<open>The keepalive period is at least one second and never above the maximum period when that is
  set; the multiplication with the length of a second does not overflow for any value the parameters
  can have, and a minimum of zero means thirty seconds.\<close>

theorem keepalive_period_bounds:
  assumes "periods c lo hi"
  shows "second \<le> s_minKeepAlive (current c)
    \<and> s_minKeepAlive (current c) = second * int (let m = (if lo = 0 then 30 else lo) in if 0 < hi \<and> hi < m then hi else m)
    \<and> (0 < hi \<longrightarrow> s_minKeepAlive (current c) \<le> s_maxKeepAlive (current c))"
proof -
  have lt: "lo < 2 ^ 32" "hi < 2 ^ 32"
    using assms by (auto simp: periods_def ParseUint_def split: option.splits if_splits)
  define m where "m = (let m = (if lo = 0 then 30 else lo) in if 0 < hi \<and> hi < m then hi else m)"
  have m: "1 \<le> m" "m < 2 ^ 32" "0 < hi \<longrightarrow> m \<le> hi" using lt by (auto simp: m_def Let_def)
  have atoi: "Atoi_value (read_param c (p_MinKeepAlive (cl_paths c))) = int lo"
    "Atoi_value (read_param c (p_MaxKeepAlive (cl_paths c))) = int hi"
    using assms by (simp_all add: periods_def Atoi_value_uint)
  have "s_minKeepAlive (current c) = int64 (int m * second)" "s_maxKeepAlive (current c) = int64 (int hi * second)"
    unfolding current_def atoi Let_def m_def by simp_all
  moreover have "int64 (int m * second) = int m * second" "int64 (int hi * second) = int hi * second"
    using m lt by (intro int64_id; simp)+
  ultimately show ?thesis using m unfolding m_def [symmetric] by simp
qed

section \<open>Reporting the binding\<close>

lemma SetSystem_reads_back:
  assumes "parsePath p = Inr segs" and "leaf_at (root t) segs = Some old" and "valid_Value (old\<lparr>Raw := raw\<rparr>)"
  obtains t' where "SetSystem p raw t = (Inr (), t')" "root t' = put_leaf segs (old\<lparr>Raw := raw\<rparr>) (root t)"
  using assms by (auto simp: SetSystem_Inr)

text \<open>The two leaves the client writes are there, and they are different leaves.\<close>

definition report_leaves :: "Client \<Rightarrow> bool" where
  "report_leaves c \<longleftrightarrow>
     (\<exists>s1 s2 v1 v2. parsePath (p_NATDetected (cl_paths c)) = Inr s1 \<and> parsePath (p_UDPAddress (cl_paths c)) = Inr s2 \<and> s1 \<noteq> s2
        \<and> leaf_at (root (cl_tree c)) s1 = Some v1 \<and> VType v1 = TypeBoolean
        \<and> leaf_at (root (cl_tree c)) s2 = Some v2 \<and> VType v2 = TypeString)"

lemma report_reads_back:
  assumes "report_leaves c" and "Validate TypeString (JoinHostPort (if n then a else l)) = Inr ()"
  shows "read_param (report n a l c) (p_NATDetected (cl_paths c)) = (if n then ''true'' else ''false'')
    \<and> read_param (report n a l c) (p_UDPAddress (cl_paths c)) = JoinHostPort (if n then a else l)"
proof -
  obtain s1 s2 v1 v2 where p: "parsePath (p_NATDetected (cl_paths c)) = Inr s1" "parsePath (p_UDPAddress (cl_paths c)) = Inr s2"
    "s1 \<noteq> s2" and v: "leaf_at (root (cl_tree c)) s1 = Some v1" "VType v1 = TypeBoolean"
      "leaf_at (root (cl_tree c)) s2 = Some v2" "VType v2 = TypeString"
    using assms(1) unfolding report_leaves_def by blast
  let ?flag = "if n then ''true'' else ''false''" and ?text = "JoinHostPort (if n then a else l)"
  have "Validate TypeBoolean ''true'' = Inr ()" "Validate TypeBoolean ''false'' = Inr ()" by code_simp+
  then have ok: "valid_Value (v1\<lparr>Raw := ?flag\<rparr>)" "valid_Value (v2\<lparr>Raw := ?text\<rparr>)"
    using v assms(2) by (simp_all add: valid_Value_def)
  obtain t1 where t1: "SetSystem (p_NATDetected (cl_paths c)) ?flag (cl_tree c) = (Inr (), t1)"
    "root t1 = put_leaf s1 (v1\<lparr>Raw := ?flag\<rparr>) (root (cl_tree c))"
    by (rule SetSystem_reads_back [OF p(1) v(1) ok(1)])
  have l1: "leaf_at (root t1) s1 = Some (v1\<lparr>Raw := ?flag\<rparr>)" "leaf_at (root t1) s2 = Some v2"
    using t1(2) v(1,3) p(3) leaves.get_put [of "root (cl_tree c)" s1] by (simp_all add: leaves.get_put_other)
  obtain t2 where t2: "SetSystem (p_UDPAddress (cl_paths c)) ?text t1 = (Inr (), t2)"
    "root t2 = put_leaf s2 (v2\<lparr>Raw := ?text\<rparr>) (root t1)"
    by (rule SetSystem_reads_back [OF p(2) l1(2) ok(2)])
  have l2: "leaf_at (root t2) s1 = Some (v1\<lparr>Raw := ?flag\<rparr>)" "leaf_at (root t2) s2 = Some (v2\<lparr>Raw := ?text\<rparr>)"
    using t2(2) l1 p(3) leaves.get_put [of "root t1" s2] by (simp_all add: leaves.get_put_other)
  have "report n a l c = c\<lparr>cl_tree := t2\<rparr>" unfolding report_def Let_def t1(1) prod.case t2(1) ..
  moreover have "Get (p_NATDetected (cl_paths c)) t2 = Inr (v1\<lparr>Raw := ?flag\<rparr>)"
    "Get (p_UDPAddress (cl_paths c)) t2 = Inr (v2\<lparr>Raw := ?text\<rparr>)" using p l2 by (auto simp: Get_Inr)
  ultimately show ?thesis by (simp add: read_param_def)
qed

text \<open>A binding response that answers the pending request and carries a mapped address that is new to
  the client makes the data model tell what was found: a NAT is reported exactly when the mapped
  address differs from the local one, with the mapped address then and the local one otherwise; the
  request is settled, and when the binding moved, a request announcing the change goes out at once.\<close>

theorem binding_response_reported:
  assumes "IsSTUN d" and "Decode d = Some m" and "lp_pending l = Some p" and "TransactionID m = TransactionID (pr_msg p)"
    and "m_Type m = TypeBindingResponse" and "MappedAddress m = Some a" and "lp_mapped l \<noteq> Some a"
    and "report_leaves c" and "Validate TypeString (JoinHostPort (if a \<noteq> lp_local l then a else lp_local l)) = Inr ()"
    and res: "on_datagram hmac parse now txid d (c, l) = (c', l')"
  shows "read_param c' (p_NATDetected (cl_paths c)) = (if a \<noteq> lp_local l then ''true'' else ''false'')
    \<and> read_param c' (p_UDPAddress (cl_paths c)) = JoinHostPort (if a \<noteq> lp_local l then a else lp_local l)
    \<and> lp_mapped l' = Some a
    \<and> (if lp_mapped l = None then lp_pending l' = None \<and> lp_sent l' = lp_sent l
       else lp_sent l' = lp_sent l @ [Encode (binding_request txid (s_username (lp_settings l)) True)])"
proof -
  have ne: "TypeBindingResponse \<noteq> TypeBindingErrorResponse"
    by (simp add: TypeBindingResponse_def TypeBindingErrorResponse_def)
  have "on_datagram hmac parse now txid d (c, l) = on_response now txid m (c, l)"
    using assms(1-4) by (simp add: on_datagram_def)
  also have "\<dots> = (report (a \<noteq> lp_local l) a (lp_local l) c,
      (if lp_mapped l \<noteq> None then send_binding now txid True (l\<lparr>lp_pending := None\<rparr>) else l\<lparr>lp_pending := None\<rparr>)\<lparr>lp_mapped := Some a\<rparr>)"
    using assms(5-7) ne by (simp add: on_response_def Let_def send_binding_def transmit_def)
  finally have "c' = report (a \<noteq> lp_local l) a (lp_local l) c"
    "l' = (if lp_mapped l \<noteq> None then send_binding now txid True (l\<lparr>lp_pending := None\<rparr>) else l\<lparr>lp_pending := None\<rparr>)\<lparr>lp_mapped := Some a\<rparr>"
    using res by simp_all
  then show ?thesis
    using report_reads_back [OF assms(8), of "a \<noteq> lp_local l" a "lp_local l"] assms(9)
    by (simp add: send_binding_def transmit_def Let_def)
qed

section \<open>Limits\<close>

definition stun_tree :: Tree where
  "stun_tree = New\<lparr>root := Node [(''M'', Node
     [(''STUNEnable'', NewLeaf \<lparr>VType = TypeBoolean, Raw = ''true'', Writable = True\<rparr>),
      (''STUNServerAddress'', NewLeaf \<lparr>VType = TypeString, Raw = ''s'', Writable = True\<rparr>),
      (''STUNMinimumKeepAlivePeriod'', NewLeaf \<lparr>VType = TypeUnsignedInt, Raw = ''60'', Writable = True\<rparr>),
      (''STUNMaximumKeepAlivePeriod'', NewLeaf \<lparr>VType = TypeUnsignedInt, Raw = ''20'', Writable = True\<rparr>),
      (''UDPConnectionRequestAddress'', NewLeaf \<lparr>VType = TypeString, Raw = '''', Writable = False\<rparr>),
      (''NATDetected'', NewLeaf \<lparr>VType = TypeBoolean, Raw = ''false'', Writable = False\<rparr>),
      (''ConnectionRequestUsername'', NewLeaf \<lparr>VType = TypeString, Raw = ''u'', Writable = True\<rparr>),
      (''ConnectionRequestPassword'', NewLeaf \<lparr>VType = TypeString, Raw = ''p'', Writable = True\<rparr>)] None None None)] None None None\<rparr>"

definition stun_client :: Client where
  "stun_client = \<lparr>cl_tree = stun_tree, cl_paths = PathsUnder ''M.'', cl_ACSHost = '''', cl_cancel = False, cl_running = False,
     cl_settings = \<lparr>s_enabled = False, s_server = '''', s_port = 0, s_username = '''', s_minKeepAlive = 0, s_maxKeepAlive = 0\<rparr>,
     cl_loop = None, cl_lastTS = 0, cl_lastID = 0, cl_seen = False, cl_requests = []\<rparr>"

text \<open>The flag of a running loop outlives the loop.  A loop that ended by itself, because the server's
  name did not resolve or no socket could be opened, is not started again while the settings stay the
  same, although STUN is enabled.\<close>

theorem ended_loop_not_restarted:
  "cl_loop (reconcile stun_client) \<noteq> None
   \<and> cl_loop (reconcile ((reconcile stun_client)\<lparr>cl_loop := None\<rparr>)) = None"
  by code_simp

text \<open>The signed text has no separators, so that a digit can move from the identifier to the timestamp:
  who has seen one accepted request can make another one that passes every check, without the
  password.\<close>

definition captured :: "(string \<Rightarrow> string \<Rightarrow> string) \<Rightarrow> ConnRequest" where
  "captured hmac = \<lparr>cr_method = ''GET'', q_ts = ''12'', q_id = ''34'', q_un = ''u'', q_cn = ''n'', q_sig = hmac ''p'' ''1234un''\<rparr>"

definition shifted :: "ConnRequest \<Rightarrow> ConnRequest" where
  "shifted req = req\<lparr>q_ts := ''123'', q_id := ''4''\<rparr>"

lemma sign_texts: "Itoa 12 @ show_nat 34 = ''1234''" "Itoa 123 @ show_nat 4 = ''1234''"
  "ParseInt 64 ''12'' = Some 12" "ParseInt 64 ''123'' = Some 123" "ParseUint 32 ''34'' = Some 34" "ParseUint 32 ''4'' = Some 4"
  "read_param stun_client ''M.ConnectionRequestUsername'' = ''u''" "read_param stun_client ''M.ConnectionRequestPassword'' = ''p''"
  by code_simp+

lemma sign_shifted: "Sign hmac pw 12 34 un cn = hmac pw (''1234'' @ un @ cn)" "Sign hmac pw 123 4 un cn = hmac pw (''1234'' @ un @ cn)"
  unfolding Sign_def using sign_texts(1,2) by (simp_all add: append_assoc [symmetric] del: append_assoc)

lemma read_param_cong: "cl_tree c = cl_tree c' \<Longrightarrow> read_param c p = read_param c' p"
  by (simp add: read_param_def)

lemma connectionRequest_accepts:
  assumes "parse d = Some req" and "ParseInt 64 (q_ts req) = Some ts" and "ParseUint 32 (q_id req) = Some n"
    and "authentic hmac c req ts (of_nat n)"
  shows "connectionRequest hmac parse d c = c\<lparr>cl_lastTS := ts, cl_lastID := of_nat n, cl_seen := True,
     cl_requests := cl_requests c @ [(ts, of_nat n)]\<rparr>"
  using assms by (auto simp: connectionRequest_def authentic_def Let_def)

lemma stun_client_paths: "p_CRUsername (cl_paths stun_client) = ''M.ConnectionRequestUsername''"
  "p_CRPassword (cl_paths stun_client) = ''M.ConnectionRequestPassword''"
  by code_simp+

theorem shifted_request_accepted:
  assumes "parse d1 = Some (captured hmac)" and "parse d2 = Some (shifted (captured hmac))"
  shows "cl_requests (connectionRequest hmac parse d2 (connectionRequest hmac parse d1 stun_client)) = [(12, 34), (123, 4)]"
proof -
  let ?c = "stun_client\<lparr>cl_lastTS := 12, cl_lastID := of_nat 34, cl_seen := True, cl_requests := cl_requests stun_client @ [(12, of_nat 34)]\<rparr>"
  have "authentic hmac stun_client (captured hmac) 12 (of_nat 34)"
    by (simp add: authentic_def captured_def stun_client_paths sign_texts sign_shifted EqualFold_refl) (simp add: stun_client_def)
  then have 1: "connectionRequest hmac parse d1 stun_client = ?c"
    using assms(1) sign_texts(3,5) by (intro connectionRequest_accepts) (simp_all add: captured_def)
  have "read_param ?c p = read_param stun_client p" for p by (rule read_param_cong) simp
  then have "authentic hmac ?c (shifted (captured hmac)) 123 (of_nat 4)"
    by (simp add: authentic_def captured_def shifted_def stun_client_paths sign_texts sign_shifted EqualFold_refl)
  then have "connectionRequest hmac parse d2 ?c = ?c\<lparr>cl_lastTS := 123, cl_lastID := of_nat 4, cl_seen := True,
      cl_requests := cl_requests ?c @ [(123, of_nat 4)]\<rparr>"
    using assms(2) sign_texts(4,6) by (intro connectionRequest_accepts) (simp_all add: captured_def shifted_def)
  then show ?thesis by (simp add: 1) (simp add: stun_client_def)
qed

section \<open>Witnesses\<close>

definition sample_response :: Message where
  "sample_response = \<lparr>m_Type = TypeBindingResponse, TransactionID = replicate 16 7,
     m_Attributes = [\<lparr>at_Type = AttrUsername, at_Value = [65]\<rparr>,
       \<lparr>at_Type = AttrMappedAddress, at_Value = [0, 1, 0, 80, 10, 0, 0, 1]\<rparr>]\<rparr>"

lemma sample_wf: "wf_message sample_response"
  by (simp add: wf_message_def sample_response_def encode_attr_def padded_def PutUint16_def Let_def)

theorem Decode_Encode_witness:
  "wf_message sample_response \<and> Decode (Encode sample_response) = Some sample_response"
  using sample_wf Decode_Encode [OF sample_wf] by simp

theorem connection_request_once_witness:
  "let hmac = (\<lambda>k t. k @ t); parse = (\<lambda>d. Some (captured hmac)); c = connectionRequest hmac parse [] stun_client in
   c \<noteq> stun_client \<and> connectionRequest hmac parse [] c = c"
proof -
  let ?h = "\<lambda>k t. k @ t :: string"
  let ?p = "\<lambda>d :: byte list. Some (captured ?h)"
  have "cl_requests (connectionRequest ?h ?p [] stun_client) = [(12, 34)]" by code_simp
  moreover have "cl_requests stun_client = []" by code_simp
  ultimately have ne: "connectionRequest ?h ?p [] stun_client \<noteq> stun_client" by (metis list.distinct(1))
  from connection_request_once [OF ne rtranclp.rtrancl_refl] ne show ?thesis unfolding Let_def by blast
qed

definition sample_loop :: Loop where
  "sample_loop = start_loop 0 (replicate 16 7) ([192, 168, 1, 2], 5000) (current stun_client)"

theorem binding_request_nine_times_witness:
  "lp_pending (fold on_retry (map (\<lambda>i. int i * (2 * second)) [1..<10]) (send_binding 0 (replicate 16 7) False sample_loop)) = None"
proof -
  have "length (map (\<lambda>i. int i * (2 * second)) [1..<10]) = 9
     \<and> successively (\<lambda>s t. s + 1600 * millisecond \<le> t) (0 # map (\<lambda>i. int i * (2 * second)) [1..<10])"
    by (simp add: upt_conv_Cons)
  then show ?thesis using binding_request_nine_times [OF refl] by blast
qed

theorem reconcile_follows_tree_witness:
  "in_step stun_client \<and> cl_loop (reconcile stun_client) = Some (current stun_client)"
proof -
  have c: "in_step stun_client" by (simp add: in_step_def stun_client_def)
  have "s_enabled (current stun_client) \<and> s_server (current stun_client) \<noteq> []" by code_simp
  then show ?thesis using c reconcile_follows_tree [OF c] by simp
qed

theorem keepalive_period_bounds_witness:
  "periods stun_client 60 20 \<and> s_minKeepAlive (current stun_client) = 20 * second"
proof -
  have p: "periods stun_client 60 20" unfolding periods_def by code_simp
  from keepalive_period_bounds [OF p] p show ?thesis by simp
qed

theorem binding_response_reported_witness:
  "read_param (fst (on_datagram (\<lambda>k t. k) (\<lambda>d. None) 0 (replicate 16 8) (Encode sample_response) (stun_client, sample_loop)))
     ''M.UDPConnectionRequestAddress'' = ''10.0.0.1:80''"
proof -
  let ?d = "Encode sample_response"
  obtain c l where r: "on_datagram (\<lambda>k t. k) (\<lambda>d. None) 0 (replicate 16 8) ?d (stun_client, sample_loop) = (c, l)" by fastforce
  have dec: "Decode ?d = Some sample_response" using Decode_Encode [OF sample_wf] by simp
  have st: "IsSTUN ?d" by code_simp
  obtain p where p: "lp_pending sample_loop = Some p" "TransactionID (pr_msg p) = replicate 16 7"
    by (simp add: sample_loop_def start_loop_def send_binding_def transmit_def binding_request_def Add_attr_def Let_def)
  have m: "MappedAddress sample_response = Some ([10, 0, 0, 1], 80)" by code_simp
  have lv: "report_leaves stun_client"
    unfolding report_leaves_def
    by (rule exI [of _ "[''M'', ''NATDetected'']"], rule exI [of _ "[''M'', ''UDPConnectionRequestAddress'']"],
        rule exI [of _ "\<lparr>VType = TypeBoolean, Raw = ''false'', Writable = False\<rparr>"],
        rule exI [of _ "\<lparr>VType = TypeString, Raw = '''', Writable = False\<rparr>"]) code_simp
  have loc: "lp_local sample_loop = ([192, 168, 1, 2], 5000)" "lp_mapped sample_loop = None"
    by (simp_all add: sample_loop_def start_loop_def send_binding_def transmit_def Let_def)
  have v: "Validate TypeString (JoinHostPort ([10, 0, 0, 1], 80)) = Inr ()" "JoinHostPort ([10, 0, 0, 1], 80) = ''10.0.0.1:80''"
    "p_UDPAddress (cl_paths stun_client) = ''M.UDPConnectionRequestAddress''" by code_simp+
  have "TransactionID sample_response = TransactionID (pr_msg p)" "m_Type sample_response = TypeBindingResponse"
    using p by (simp_all add: sample_response_def)
  from binding_response_reported [OF st dec p(1) this m _ lv _ r] v loc r show ?thesis by simp
qed

end
