(* ===== verification/Generators.thy ===== *)
theory Generators
  imports Complex_Main ParamTables GoTime "HOL-Library.Word"
begin

text \<open>
  The value generators: \<^verbatim>\<open>src/internal/generators\<close> and their validation in
  \<^verbatim>\<open>src/internal/paramtree/profile.go\<close>.

  Counters compute in 64-bit words and the other kinds in 64-bit signed integers with the wrap-around
  of Go; a jitter is the rational number its \<^verbatim>\<open>float64\<close> stands for, and products and sums of
  floating-point numbers are rounded to 53 bits.  The random source is an argument: \<open>draw n\<close> is the next
  value of \<^verbatim>\<open>Int63n(n)\<close> or \<^verbatim>\<open>Intn(n)\<close>, and calling it with no room is a panic.  A generator is known
  by a number, its identity as a pointer.  The priority queue of the scheduler is kept as the list of
  its entries in the order in which \<^verbatim>\<open>container/heap\<close> pops them.
\<close>

section \<open>Floating-point numbers\<close>

function ilog2 :: "int \<Rightarrow> int" where
  "ilog2 x = (if x < 2 then 0 else 1 + ilog2 (x div 2))"
  by pat_completeness auto
termination by (relation "measure nat") auto

declare ilog2.simps [simp del]

definition exponent :: "rat \<Rightarrow> int" where
  "exponent x = (if 1 \<le> x then ilog2 \<lfloor>x\<rfloor> else if \<lceil>1 / x\<rceil> \<le> 1 then 0 else - (1 + ilog2 (\<lceil>1 / x\<rceil> - 1)))"

definition pow2 :: "int \<Rightarrow> rat" where
  "pow2 e = (if 0 \<le> e then 2 ^ nat e else 1 / 2 ^ nat (- e))"

definition round_even :: "rat \<Rightarrow> int" where
  "round_even x = (let f = \<lfloor>x\<rfloor>; d = x - of_int f in
     if d < 1 / 2 then f else if 1 / 2 < d then f + 1 else if even f then f else f + 1)"

text \<open>Rounding a non-negative number to the nearest \<^verbatim>\<open>float64\<close>, ties to even.\<close>

definition float64 :: "rat \<Rightarrow> rat" where
  "float64 x = (if x \<le> 0 then 0 else let e = exponent x - 52 in of_int (round_even (x / pow2 e)) * pow2 e)"

section \<open>Configurations\<close>

type_synonym uint64 = "64 word"

record CounterParams =
  cp_Min :: uint64
  cp_Max :: uint64
  cp_Step :: uint64
  cp_Jitter :: rat

record DriftParams =
  dp_Min :: int
  dp_Max :: int
  dp_StepMax :: int

record EnumParams =
  ep_Values :: "string list"
  ep_Mode :: string

record GeneratorConfig =
  gc_Path :: string
  gc_Type :: string
  gc_Interval :: int
  gc_Counter :: "CounterParams option"
  gc_Drift :: "DriftParams option"
  gc_Enum :: "EnumParams option"

record rawGenerator =
  rg_Path :: string
  rg_Type :: string
  rg_Interval :: string
  rg_Min :: "int option"
  rg_Max :: "int option"
  rg_Step :: "uint64 option"
  rg_Jitter :: "rat option"
  rg_StepMax :: "int option"
  rg_Values :: "string list"
  rg_Mode :: string

definition bbfUint32Max :: uint64 where
  "bbfUint32Max = 4294967295"

definition counter_params :: "CounterParams \<Rightarrow> goerr option" where
  "counter_params cp =
     (if cp_Step cp = 0 then Some (Errorf ''counter step must be > 0'' [])
      else if cp_Max cp \<le> cp_Min cp then Some (Errorf ''counter min must be < max'' [])
      else if bbfUint32Max < cp_Max cp then Some (Errorf ''counter max exceeds xsd:unsignedInt ceiling'' [])
      else if cp_Jitter cp < 0 \<or> 1 < cp_Jitter cp then Some (Errorf ''counter jitter must be in [0.0, 1.0]'' [])
      else None)"

text \<open>The checks of one profile entry, first those that depend on the kind; \<open>parse_duration\<close> is
  \<^verbatim>\<open>time.ParseDuration\<close>.  The messages leave out the position in the profile and the floating-point
  and unsigned figures.\<close>

definition check_counter :: "Value \<Rightarrow> rawGenerator \<Rightarrow> GeneratorConfig \<Rightarrow> goerr + GeneratorConfig" where
  "check_counter v raw gen =
     (if VType v \<noteq> TypeUnsignedInt then Inl (Errorf ''counter target must be xsd:unsignedInt'' [])
      else (case (rg_Min raw, rg_Max raw, rg_Step raw) of
        (Some lo, Some hi, Some step) \<Rightarrow>
          if lo < 0 then Inl (Errorf ''counter min must be >= 0, got %d'' [ArgI lo])
          else if hi < 0 then Inl (Errorf ''counter max must be >= 0, got %d'' [ArgI hi])
          else
            (let cp = \<lparr>cp_Min = of_int lo, cp_Max = of_int hi, cp_Step = step,
                       cp_Jitter = (case rg_Jitter raw of None \<Rightarrow> 0 | Some j \<Rightarrow> j)\<rparr>
             in case counter_params cp of
                  Some e \<Rightarrow> Inl e
                | None \<Rightarrow> Inr (gen\<lparr>gc_Counter := Some cp\<rparr>))
      | _ \<Rightarrow> Inl (Errorf ''counter requires min, max, step'' [])))"

definition check_drift :: "Value \<Rightarrow> rawGenerator \<Rightarrow> GeneratorConfig \<Rightarrow> goerr + GeneratorConfig" where
  "check_drift v raw gen =
     (if VType v \<noteq> TypeInt then Inl (Errorf ''drift target must be xsd:int (signed gauge)'' [])
      else (case (rg_Min raw, rg_Max raw, rg_StepMax raw) of
        (Some lo, Some hi, Some step) \<Rightarrow>
          if hi \<le> lo then Inl (Errorf ''drift min (%d) must be < max (%d)'' [ArgI lo, ArgI hi])
          else if step \<le> 0 then Inl (Errorf ''drift stepMax must be > 0, got %d'' [ArgI step])
          else Inr (gen\<lparr>gc_Drift := Some \<lparr>dp_Min = lo, dp_Max = hi, dp_StepMax = step\<rparr>\<rparr>)
      | _ \<Rightarrow> Inl (Errorf ''drift requires min, max, stepMax'' [])))"

definition check_enum :: "Value \<Rightarrow> rawGenerator \<Rightarrow> GeneratorConfig \<Rightarrow> goerr + GeneratorConfig" where
  "check_enum v raw gen =
     (if VType v \<noteq> TypeString \<and> VType v \<noteq> TypeBoolean then Inl (Errorf ''enum target must be xsd:string or xsd:boolean'' [])
      else if length (rg_Values raw) = 0 then Inl (Errorf ''enum requires non-empty values list'' [])
      else (case find (\<lambda>x. is_err (Validate (VType v) x)) (rg_Values raw) of
              Some x \<Rightarrow> Inl (Errorf ''enum value %q does not match target type'' [ArgS x])
            | None \<Rightarrow>
                (let mode = (if rg_Mode raw = '''' then ''cycle'' else rg_Mode raw) in
                 if mode \<noteq> ''cycle'' \<and> mode \<noteq> ''random''
                 then Inl (Errorf ''enum mode %q invalid (want cycle|random)'' [ArgS mode])
                 else Inr (gen\<lparr>gc_Enum := Some \<lparr>ep_Values = rg_Values raw, ep_Mode = mode\<rparr>\<rparr>))))"

definition check_kind :: "Value \<Rightarrow> rawGenerator \<Rightarrow> GeneratorConfig \<Rightarrow> goerr + GeneratorConfig" where
  "check_kind v raw gen =
     (if rg_Type raw = ''counter'' then check_counter v raw gen
      else if rg_Type raw = ''drift'' then check_drift v raw gen
      else if rg_Type raw = ''enum'' then check_enum v raw gen
      else if rg_Type raw = ''uptime'' then
        (if VType v \<noteq> TypeUnsignedInt then Inl (Errorf ''uptime target must be xsd:unsignedInt'' []) else Inr gen)
      else if rg_Type raw = ''wallclock'' then
        (if VType v \<noteq> TypeDateTime then Inl (Errorf ''wallclock target must be xsd:dateTime'' []) else Inr gen)
      else Inl (Errorf ''type %q unsupported (want counter|drift|enum|uptime|wallclock)'' [ArgS (rg_Type raw)]))"

definition validateGenerator ::
  "(string \<Rightarrow> goerr + int) \<Rightarrow> Tree \<Rightarrow> rawGenerator \<Rightarrow> goerr + GeneratorConfig" where
  "validateGenerator parse_duration t raw =
     (if rg_Path raw = '''' then Inl (Errorf ''path is required'' [])
      else case Get (rg_Path raw) t of
        Inl e \<Rightarrow> Inl (Errorf ''references unknown path: %w'' [ArgW e])
      | Inr v \<Rightarrow>
          if rg_Interval raw = '''' then Inl (Errorf ''interval is required'' [])
          else case parse_duration (rg_Interval raw) of
            Inl e \<Rightarrow> Inl (Errorf ''interval %q: %w'' [ArgS (rg_Interval raw), ArgW e])
          | Inr interval \<Rightarrow>
              if interval \<le> 0 then Inl (Errorf ''interval must be > 0'' [])
              else check_kind v raw \<lparr>gc_Path = rg_Path raw, gc_Type = rg_Type raw, gc_Interval = interval,
                     gc_Counter = None, gc_Drift = None, gc_Enum = None\<rparr>)"

section \<open>The kinds of generators\<close>

datatype tick_result = Wrote string | Failed goerr | Panicked

record CounterConfig = CounterParams +
  cc_Path :: string

record DriftConfig = DriftParams +
  dc_Path :: string

record EnumConfig = EnumParams +
  ec_Path :: string

datatype TimestampKind = TimestampUptime | TimestampWallclock

record TimestampConfig =
  tc_Path :: string
  tc_Kind :: TimestampKind

datatype Generator =
    counterGen CounterConfig
  | driftGen DriftConfig
  | enumGen EnumConfig nat
  | timestampGen TimestampConfig int

definition NewCounter :: "CounterConfig \<Rightarrow> goerr + Generator" where
  "NewCounter cfg =
     (if cc_Path cfg = '''' then Inl (Errorf ''generators.NewCounter: Path is required'' [])
      else if cp_Step cfg = 0 then Inl (Errorf ''generators.NewCounter: Step must be > 0'' [])
      else if cp_Max cfg \<le> cp_Min cfg then Inl (Errorf ''generators.NewCounter: Min must be < Max'' [])
      else if bbfUint32Max < cp_Max cfg then Inl (Errorf ''generators.NewCounter: Max exceeds xsd:unsignedInt ceiling'' [])
      else if cp_Jitter cfg < 0 \<or> 1 < cp_Jitter cfg then Inl (Errorf ''generators.NewCounter: Jitter must be in [0.0, 1.0]'' [])
      else Inr (counterGen cfg))"

text \<open>The increment of one tick, \<^const>\<open>None\<close> when \<^verbatim>\<open>Int63n\<close> panics.\<close>

definition jitter_span :: "CounterConfig \<Rightarrow> uint64" where
  "jitter_span c = of_int \<lfloor>float64 (float64 (of_int (uint (cp_Step c))) * cp_Jitter c)\<rfloor>"

definition counter_inc :: "CounterConfig \<Rightarrow> (int \<Rightarrow> int) \<Rightarrow> uint64 option" where
  "counter_inc c draw =
     (if 0 < cp_Jitter c then
        (let span = jitter_span c in
         if 0 < span then
           (let n = sint (2 * span + 1)
            in if n \<le> 0 then None
               else (let delta = of_int (draw n) - span in Some (cp_Step c + delta)))
         else Some (cp_Step c))
      else Some (cp_Step c))"

definition counter_next :: "CounterConfig \<Rightarrow> uint64 \<Rightarrow> uint64 \<Rightarrow> uint64" where
  "counter_next c state inc =
     (let next = state + inc in
      if cp_Max c < next then
        (let over = next - cp_Max c - 1 in cp_Min c + over mod (cp_Max c - cp_Min c + 1))
      else next)"

definition write_back :: "string \<Rightarrow> string \<Rightarrow> Tree \<Rightarrow> tick_result \<times> Tree" where
  "write_back path raw t =
     (case SetSystem path raw t of
        (Inl e, t') \<Rightarrow> (Failed e, t')
      | (Inr _, t') \<Rightarrow> (Wrote raw, t'))"

definition clamp_low :: "CounterConfig \<Rightarrow> uint64 \<Rightarrow> uint64" where
  "clamp_low c state = (if state < cp_Min c \<or> cp_Max c < state then cp_Min c else state)"

definition counter_Tick :: "(int \<Rightarrow> int) \<Rightarrow> CounterConfig \<Rightarrow> Tree \<Rightarrow> tick_result \<times> Tree" where
  "counter_Tick draw c t =
     (case Get (cc_Path c) t of
        Inl e \<Rightarrow> (Failed e, t)
      | Inr cur \<Rightarrow>
          (case ParseUint 64 (Raw cur) of
             None \<Rightarrow> (Failed (Errorf ''parse current value %q'' [ArgS (Raw cur)]), t)
           | Some n \<Rightarrow>
               (case counter_inc c draw of
                  None \<Rightarrow> (Panicked, t)
                | Some inc \<Rightarrow>
                    write_back (cc_Path c) (show_nat (unat (counter_next c (clamp_low c (of_nat n)) inc))) t)))"

definition NewDrift :: "DriftConfig \<Rightarrow> goerr + Generator" where
  "NewDrift cfg =
     (if dc_Path cfg = '''' then Inl (Errorf ''generators.NewDrift: Path is required'' [])
      else if dp_Max cfg \<le> dp_Min cfg then Inl (Errorf ''generators.NewDrift: Min (%d) must be < Max (%d)'' [ArgI (dp_Min cfg), ArgI (dp_Max cfg)])
      else if dp_StepMax cfg \<le> 0 then Inl (Errorf ''generators.NewDrift: StepMax must be > 0, got %d'' [ArgI (dp_StepMax cfg)])
      else Inr (driftGen cfg))"

definition clamp :: "int \<Rightarrow> int \<Rightarrow> int \<Rightarrow> int" where
  "clamp lo hi x = (if x < lo then lo else if hi < x then hi else x)"

text \<open>Go's integer division cuts towards zero.\<close>

definition half :: "int \<Rightarrow> int" where
  "half x = (if x < 0 then - ((- x) div 2) else x div 2)"

definition drift_Tick :: "(int \<Rightarrow> int) \<Rightarrow> DriftConfig \<Rightarrow> Tree \<Rightarrow> tick_result \<times> Tree" where
  "drift_Tick draw c t =
     (case Get (dc_Path c) t of
        Inl e \<Rightarrow> (Failed e, t)
      | Inr cur \<Rightarrow>
          (let parsed = (case ParseInt 64 (Raw cur) of None \<Rightarrow> half (int64 (dp_Min c + dp_Max c)) | Some i \<Rightarrow> i);
               state = clamp (dp_Min c) (dp_Max c) parsed;
               span = int64 (int64 (2 * dp_StepMax c) + 1)
           in if span \<le> 0 then (Panicked, t)
              else
                (let delta = int64 (draw span - dp_StepMax c);
                     next = clamp (dp_Min c) (dp_Max c) (int64 (state + delta))
                 in write_back (dc_Path c) (Itoa next) t)))"

definition NewEnum :: "EnumConfig \<Rightarrow> goerr + Generator" where
  "NewEnum cfg =
     (if ec_Path cfg = '''' then Inl (Errorf ''generators.NewEnum: Path is required'' [])
      else if length (ep_Values cfg) = 0 then Inl (Errorf ''generators.NewEnum: Values must be non-empty'' [])
      else
        (let mode = (if ep_Mode cfg = '''' then ''cycle'' else ep_Mode cfg) in
         if mode \<noteq> ''cycle'' \<and> mode \<noteq> ''random'' then Inl (Errorf ''generators.NewEnum: Mode %q invalid (want cycle|random)'' [ArgS mode])
         else Inr (enumGen (cfg\<lparr>ep_Mode := mode\<rparr>) 0)))"

definition enum_Tick :: "(int \<Rightarrow> int) \<Rightarrow> EnumConfig \<Rightarrow> nat \<Rightarrow> Tree \<Rightarrow> (tick_result \<times> nat) \<times> Tree" where
  "enum_Tick draw c idx t =
     (case Get (ec_Path c) t of
        Inl e \<Rightarrow> ((Failed e, idx), t)
      | Inr _ \<Rightarrow>
          (let n = length (ep_Values c);
               (next, idx') = (if ep_Mode c = ''random'' then (ep_Values c ! nat (draw (int n)), idx)
                               else (ep_Values c ! idx, Suc idx mod n));
               (r, t') = write_back (ec_Path c) next t
           in ((r, idx'), t')))"

definition NewTimestamp :: "int \<Rightarrow> TimestampConfig \<Rightarrow> goerr + Generator" where
  "NewTimestamp now cfg =
     (if tc_Path cfg = '''' then Inl (Errorf ''generators.NewTimestamp: Path is required'' [])
      else Inr (timestampGen cfg now))"

text \<open>\<^verbatim>\<open>time.Since(start).Seconds()\<close> cut to an integer.\<close>

definition elapsed :: "int \<Rightarrow> int \<Rightarrow> int" where
  "elapsed start now =
     (let d = now - start
      in \<lfloor>float64 (of_int (d div 1000000000) + float64 (of_int (d mod 1000000000) / 1000000000))\<rfloor>)"

text \<open>The clock has a monotonic reading in nanoseconds and the civil time in UTC.\<close>

definition timestamp_Tick :: "int \<times> gotime \<Rightarrow> TimestampConfig \<Rightarrow> int \<Rightarrow> Tree \<Rightarrow> tick_result \<times> Tree" where
  "timestamp_Tick clock c start t =
     (case Get (tc_Path c) t of
        Inl e \<Rightarrow> (Failed e, t)
      | Inr _ \<Rightarrow>
          (let raw = (case tc_Kind c of
                        TimestampUptime \<Rightarrow> show_nat (unat (of_int (elapsed start (fst clock)) :: uint64))
                      | TimestampWallclock \<Rightarrow> format_rfc3339 ((snd clock)\<lparr>t_nsec := 0\<rparr>))
           in write_back (tc_Path c) raw t))"

fun gen_Path :: "Generator \<Rightarrow> string" where
  "gen_Path (counterGen c) = cc_Path c"
| "gen_Path (driftGen c) = dc_Path c"
| "gen_Path (enumGen c idx) = ec_Path c"
| "gen_Path (timestampGen c start) = tc_Path c"

fun Tick :: "(int \<Rightarrow> int) \<Rightarrow> int \<times> gotime \<Rightarrow> Generator \<Rightarrow> Tree \<Rightarrow> (tick_result \<times> Generator) \<times> Tree" where
  "Tick draw clock (counterGen c) t = (let (r, t') = counter_Tick draw c t in ((r, counterGen c), t'))"
| "Tick draw clock (driftGen c) t = (let (r, t') = drift_Tick draw c t in ((r, driftGen c), t'))"
| "Tick draw clock (enumGen c idx) t = (let ((r, idx'), t') = enum_Tick draw c idx t in ((r, enumGen c idx'), t'))"
| "Tick draw clock (timestampGen c start) t =
     (let (r, t') = timestamp_Tick clock c start t in ((r, timestampGen c start), t'))"

definition FromConfig :: "int \<Rightarrow> GeneratorConfig \<Rightarrow> goerr + Generator" where
  "FromConfig now cfg =
     (if gc_Type cfg = ''counter'' then
        (case gc_Counter cfg of
           None \<Rightarrow> Inl (Errorf ''generator %q: counter block missing'' [ArgS (gc_Path cfg)])
         | Some p \<Rightarrow> NewCounter \<lparr>cp_Min = cp_Min p, cp_Max = cp_Max p, cp_Step = cp_Step p,
             cp_Jitter = cp_Jitter p, cc_Path = gc_Path cfg\<rparr>)
      else if gc_Type cfg = ''drift'' then
        (case gc_Drift cfg of
           None \<Rightarrow> Inl (Errorf ''generator %q: drift block missing'' [ArgS (gc_Path cfg)])
         | Some p \<Rightarrow> NewDrift \<lparr>dp_Min = dp_Min p, dp_Max = dp_Max p, dp_StepMax = dp_StepMax p, dc_Path = gc_Path cfg\<rparr>)
      else if gc_Type cfg = ''enum'' then
        (case gc_Enum cfg of
           None \<Rightarrow> Inl (Errorf ''generator %q: enum block missing'' [ArgS (gc_Path cfg)])
         | Some p \<Rightarrow> NewEnum \<lparr>ep_Values = ep_Values p, ep_Mode = ep_Mode p, ec_Path = gc_Path cfg\<rparr>)
      else if gc_Type cfg = ''uptime'' then NewTimestamp now \<lparr>tc_Path = gc_Path cfg, tc_Kind = TimestampUptime\<rparr>
      else if gc_Type cfg = ''wallclock'' then NewTimestamp now \<lparr>tc_Path = gc_Path cfg, tc_Kind = TimestampWallclock\<rparr>
      else Inl (Errorf ''generator %q: type %q unsupported'' [ArgS (gc_Path cfg), ArgS (gc_Type cfg)]))"

section \<open>Rounding\<close>

lemma ilog2_le: "x < 2 ^ Suc k \<Longrightarrow> ilog2 x \<le> int k"
proof (induction k arbitrary: x)
  case 0
  then show ?case by (subst ilog2.simps) simp
next
  case (Suc k)
  have "x div 2 < 2 ^ Suc k" using Suc.prems by simp
  from Suc.IH [OF this] show ?case by (subst ilog2.simps) simp
qed

lemma round_even_le:
  assumes "x \<le> of_int m"
  shows "round_even x \<le> m"
proof (cases "x = of_int m")
  case True
  then show ?thesis by (simp add: round_even_def Let_def)
next
  case False
  then have "\<lfloor>x\<rfloor> < m" using assms by (simp add: floor_less_iff)
  then show ?thesis by (auto simp: round_even_def Let_def)
qed

lemma round_even_nonneg: "0 \<le> x \<Longrightarrow> 0 \<le> round_even x"
  by (auto simp: round_even_def Let_def)

lemma pow2_pos [simp]: "0 < pow2 e"
  by (simp add: pow2_def)

lemma float64_nonneg: "0 \<le> float64 x"
  by (simp add: float64_def Let_def round_even_nonneg order_less_imp_le)

lemma exponent_le: "x < 2 ^ Suc k \<Longrightarrow> exponent x \<le> int k"
proof -
  assume x: "x < 2 ^ Suc k"
  have "0 \<le> ilog2 y" for y by (induction y rule: ilog2.induct) (subst ilog2.simps, simp)
  then have "- (1 + ilog2 y) \<le> int k" for y by (smt (verit) of_nat_0_le_iff)
  moreover have "\<lfloor>x\<rfloor> < 2 ^ Suc k" using x by (simp add: floor_less_iff)
  then have "ilog2 \<lfloor>x\<rfloor> \<le> int k" by (rule ilog2_le)
  ultimately show ?thesis by (simp add: exponent_def)
qed

text \<open>Rounding does not pass an integer that has a \<^verbatim>\<open>float64\<close> of its own.\<close>

lemma float64_le:
  assumes "x \<le> of_int n" and "0 \<le> n" and "n < 2 ^ 53"
  shows "float64 x \<le> of_int n"
proof (cases "x \<le> 0")
  case True
  then show ?thesis using assms(2) by (simp add: float64_def)
next
  case False
  define e where "e = exponent x - 52"
  have "x < of_int (2 ^ 53)" using assms(1,3) by (metis of_int_less_iff order.strict_trans1)
  then have "x < 2 ^ Suc 52" by simp
  from exponent_le [OF this] have e: "e \<le> 0" by (simp add: e_def)
  then have pe: "pow2 e = 1 / 2 ^ nat (- e)" by (auto simp: pow2_def)
  have "x / pow2 e \<le> of_int (n * 2 ^ nat (- e))" using assms(1) by (simp add: pe)
  then have "round_even (x / pow2 e) \<le> n * 2 ^ nat (- e)" by (rule round_even_le)
  then have "of_int (round_even (x / pow2 e)) \<le> (of_int (n * 2 ^ nat (- e)) :: rat)" by (simp only: of_int_le_iff)
  then have "of_int (round_even (x / pow2 e)) * pow2 e \<le> of_int n" by (simp add: pe divide_le_eq)
  then show ?thesis using False by (simp add: float64_def e_def Let_def)
qed

lemma uint_of_int_id: "0 \<le> k \<Longrightarrow> k < 2 ^ 64 \<Longrightarrow> uint (of_int k :: uint64) = k"
  by (simp add: uint_word_of_int_eq take_bit_int_eq_self)

lemma jitter_span_le:
  assumes "uint (cp_Step c) < 2 ^ 53" and "0 \<le> cp_Jitter c" and "cp_Jitter c \<le> 1"
  shows "uint (jitter_span c) \<le> uint (cp_Step c)"
proof -
  define s where "s = uint (cp_Step c)"
  let ?p = "float64 (of_int s) * cp_Jitter c"
  have s: "0 \<le> s" "s < 2 ^ 53" using assms(1) by (simp_all add: s_def)
  have "?p \<le> of_int s * 1"
    using assms(2,3) s float64_nonneg by (intro mult_mono float64_le) simp_all
  then have "float64 ?p \<le> of_int s" using s by (intro float64_le) simp_all
  then have f: "\<lfloor>float64 ?p\<rfloor> \<le> s" "0 \<le> \<lfloor>float64 ?p\<rfloor>"
    using float64_nonneg [of ?p] by (simp_all add: floor_le_iff)
  moreover have "\<lfloor>float64 ?p\<rfloor> < 2 ^ 64" by (rule order.strict_trans1 [OF f(1)]) (use s in simp)
  ultimately have "uint (jitter_span c) = \<lfloor>float64 ?p\<rfloor>"
    unfolding jitter_span_def s_def [symmetric] by (intro uint_of_int_id)
  then show ?thesis using f by (simp add: s_def)
qed

section \<open>Counters\<close>

lemma uint_plus_small: "uint x + uint y < 2 ^ 64 \<Longrightarrow> uint (x + y :: uint64) = uint x + uint y"
  by (simp add: uint_word_ariths)

lemma uint_minus_le: "uint y \<le> uint x \<Longrightarrow> uint (x - y :: uint64) = uint x - uint y"
proof -
  assume "uint y \<le> uint x"
  moreover have "uint x < 2 ^ 64" using uint_bounded [of x] by simp
  then have "uint x - uint y < 2 ^ 64" using uint_ge_0 [of y] by linarith
  ultimately have "uint (of_int (uint x - uint y) :: uint64) = uint x - uint y"
    by (intro uint_of_int_id) simp
  then show ?thesis by simp
qed

text \<open>A source of randomness: what is drawn lies in the range asked for.\<close>

definition fair_draw :: "(int \<Rightarrow> int) \<Rightarrow> bool" where
  "fair_draw draw \<longleftrightarrow> (\<forall>n > 0. 0 \<le> draw n \<and> draw n < n)"

lemma counter_inc_bounds:
  assumes "NewCounter c = Inr g" and "uint (cp_Step c) < 2 ^ 53" and "fair_draw draw"
  obtains inc where "counter_inc c draw = Some inc"
    "uint (cp_Step c) - uint (jitter_span c) \<le> uint inc" "uint inc \<le> uint (cp_Step c) + uint (jitter_span c)"
proof -
  have j: "0 \<le> cp_Jitter c" "cp_Jitter c \<le> 1" using assms(1) by (auto simp: NewCounter_def split: if_splits)
  let ?span = "jitter_span c" and ?step = "cp_Step c"
  have le: "uint ?span \<le> uint ?step" by (rule jitter_span_le [OF assms(2) j])
  show thesis
  proof (cases "0 < cp_Jitter c \<and> 0 < ?span")
    case False
    then show ?thesis using that [of ?step] by (auto simp: counter_inc_def Let_def)
  next
    case True
    have small: "2 * uint ?span + 1 < 2 ^ 63" using le assms(2) by simp
    have u: "uint (2 * ?span + 1) = 2 * uint ?span + 1" using small by (simp add: uint_word_ariths)
    then have n: "sint (2 * ?span + 1) = 2 * uint ?span + 1"
      using small by (simp add: sint_uint signed_take_bit_int_eq_self)
    define d where "d = draw (2 * uint ?span + 1)"
    have pos: "0 < 2 * uint ?span + 1" using uint_ge_0 [of ?span] by linarith
    have d: "0 \<le> d" "d \<le> 2 * uint ?span" using assms(3) pos zle_add1_eq_le unfolding fair_draw_def d_def by blast+
    let ?inc = "?step + (of_int d - ?span)"
    have "?inc = of_int (uint ?step + d - uint ?span)" by simp
    then have "uint ?inc = uint ?step + d - uint ?span"
      using le d small assms(2) by (simp only: uint_word_of_int_eq) (simp add: take_bit_int_eq_self)
    moreover have "counter_inc c draw = Some ?inc"
      using True n pos d_def by (simp add: counter_inc_def Let_def linorder_not_le)
    ultimately show ?thesis using d that [of ?inc] by simp
  qed
qed

lemma counter_next_mod:
  assumes "uint (cp_Min c) \<le> uint state" "uint state \<le> uint (cp_Max c)" "uint (cp_Max c) < 2 ^ 32" "uint inc < 2 ^ 63"
  shows "uint (counter_next c state inc) =
    uint (cp_Min c) + (uint state + uint inc - uint (cp_Min c)) mod (uint (cp_Max c) - uint (cp_Min c) + 1)"
proof -
  let ?lo = "uint (cp_Min c)" and ?hi = "uint (cp_Max c)" and ?w = "uint (cp_Max c) - uint (cp_Min c) + 1"
  have nx: "uint (state + inc) = uint state + uint inc" using assms by (intro uint_plus_small) simp
  show ?thesis
  proof (cases "cp_Max c < state + inc")
    case False
    then have "uint state + uint inc \<le> ?hi" by (simp add: word_less_def nx)
    moreover have "?lo \<le> uint state + uint inc" using assms(1) uint_ge_0 [of inc] by linarith
    ultimately have "(uint state + uint inc - ?lo) mod ?w = uint state + uint inc - ?lo"
      by (intro mod_pos_pos_trivial) simp_all
    then show ?thesis using False nx by (simp add: counter_next_def)
  next
    case True
    then have gt: "?hi < uint state + uint inc" by (simp add: word_less_def nx)
    have o1: "uint (state + inc - cp_Max c) = uint state + uint inc - ?hi" using gt nx by (subst uint_minus_le) simp_all
    have o2: "uint (state + inc - cp_Max c - 1) = uint state + uint inc - ?hi - 1" using gt o1 by (subst uint_minus_le) simp_all
    have w0: "uint (cp_Max c - cp_Min c) = ?hi - ?lo" using assms(1,2) by (intro uint_minus_le) simp
    have "?hi - ?lo < 2 ^ 32" using assms(3) uint_ge_0 [of "cp_Min c"] by linarith
    then have w1: "uint (cp_Max c - cp_Min c + 1) = ?w" using w0 by (subst uint_plus_small) simp_all
    let ?m = "(uint state + uint inc - ?hi - 1) mod ?w"
    have wpos: "0 < ?w" using assms(1,2) by simp
    have m: "0 \<le> ?m" "?m < ?w" using pos_mod_bound [OF wpos] pos_mod_sign [OF wpos] by auto
    have "uint ((state + inc - cp_Max c - 1) mod (cp_Max c - cp_Min c + 1)) = ?m"
      by (simp add: uint_mod o2 w1)
    then have "uint (counter_next c state inc) = ?lo + ?m"
      using True m assms(3) by (simp add: counter_next_def Let_def, subst uint_plus_small) simp_all
    also have "?m = ((uint state + uint inc - ?hi - 1) + ?w) mod ?w" by (rule mod_add_self2 [symmetric])
    also have "(uint state + uint inc - ?hi - 1) + ?w = uint state + uint inc - ?lo" by simp
    finally show ?thesis .
  qed
qed

section \<open>What a tick may do\<close>

lemma write_back_cases:
  obtains (wrote) t' where "write_back p raw t = (Wrote raw, t')" "SetSystem p raw t = (Inr (), t')"
  | (failed) e where "write_back p raw t = (Failed e, t)" "fst (SetSystem p raw t) = Inl e"
proof (cases "SetSystem p raw t")
  case (Pair r t')
  then show ?thesis
  proof (cases r)
    case (Inl e)
    then have "t' = t" using Pair write_fails_same(2) by blast
    then show ?thesis using failed [of e] Pair Inl by (simp add: write_back_def)
  next
    case (Inr u)
    then show ?thesis using wrote [of t'] Pair by (simp add: write_back_def)
  qed
qed

text \<open>The contract of the interface \<^verbatim>\<open>Generator\<close>: a tick writes the generator's own leaf through
  \<^verbatim>\<open>SetSystem\<close> or does nothing to the tree, and it does not change where the generator writes.\<close>

locale tick_contract =
  fixes tick :: "'g \<Rightarrow> Tree \<Rightarrow> (tick_result \<times> 'g) \<times> Tree"
    and path :: "'g \<Rightarrow> string"
  assumes path_kept: "tick g t = ((r, g'), t') \<Longrightarrow> path g' = path g"
    and wrote: "tick g t = ((Wrote raw, g'), t') \<Longrightarrow> SetSystem (path g) raw t = (Inr (), t')"
    and not_wrote: "tick g t = ((r, g'), t') \<Longrightarrow> \<forall>raw. r \<noteq> Wrote raw \<Longrightarrow> t' = t"
begin

lemma same_or_set:
  assumes "tick g t = ((r, g'), t')"
  obtains "t' = t" | raw where "r = Wrote raw" "SetSystem (path g) raw t = (Inr (), t')"
  using assms wrote not_wrote by (cases r) blast+

lemma frame:
  assumes "tick g t = ((r, g'), t')" and "parsePath (path g) \<noteq> Inr q"
  shows "leaf_at (root t') q = leaf_at (root t) q"
  using assms(1)
proof (cases rule: same_or_set)
  case (2 raw)
  then obtain segs old where "parsePath (path g) = Inr segs" "root t' = put_leaf segs (old\<lparr>Raw := raw\<rparr>) (root t)"
    by (auto simp: SetSystem_Inr)
  then show ?thesis using assms(2) by (simp add: leaves.get_put_other)
qed simp

lemma own_leaf:
  assumes "tick g t = ((Wrote raw, g'), t')"
  obtains old where "Get (path g) t = Inr old" "Get (path g) t' = Inr (old\<lparr>Raw := raw\<rparr>)" "valid_Value (old\<lparr>Raw := raw\<rparr>)"
proof -
  from wrote [OF assms] obtain segs old where s: "parsePath (path g) = Inr segs" "leaf_at (root t) segs = Some old"
    "valid_Value (old\<lparr>Raw := raw\<rparr>)" "root t' = put_leaf segs (old\<lparr>Raw := raw\<rparr>) (root t)"
    by (auto simp: SetSystem_Inr)
  then show thesis using that [of old] leaves.get_put [of "root t" segs] by (simp add: Get_Inr)
qed

lemma keeps_wf:
  assumes "tick g t = ((r, g'), t')" and "wf_node (root t)"
  shows "wf_node (root t')"
  using assms(1) by (cases rule: same_or_set) (use assms(2) in \<open>auto simp: SetSystem_Inr wf_put_leaf\<close>)

end

lemma counter_Tick_cases:
  obtains (idle) r where "counter_Tick draw c t = (r, t)" "\<forall>raw. r \<noteq> Wrote raw"
  | (wrote) raw t' where "counter_Tick draw c t = (Wrote raw, t')" "SetSystem (cc_Path c) raw t = (Inr (), t')"
proof (cases "\<exists>raw. counter_Tick draw c t = write_back (cc_Path c) raw t")
  case True
  then obtain raw where w: "counter_Tick draw c t = write_back (cc_Path c) raw t" by blast
  show ?thesis by (cases "cc_Path c" raw t rule: write_back_cases) (use that w in auto)
next
  case False
  then have "\<exists>r. counter_Tick draw c t = (r, t) \<and> (\<forall>raw. r \<noteq> Wrote raw)"
    by (auto simp: counter_Tick_def split: sum.splits option.splits)
  then show ?thesis using idle by blast
qed

lemma drift_Tick_cases:
  obtains (idle) r where "drift_Tick draw c t = (r, t)" "\<forall>raw. r \<noteq> Wrote raw"
  | (wrote) raw t' where "drift_Tick draw c t = (Wrote raw, t')" "SetSystem (dc_Path c) raw t = (Inr (), t')"
proof (cases "\<exists>raw. drift_Tick draw c t = write_back (dc_Path c) raw t")
  case True
  then obtain raw where w: "drift_Tick draw c t = write_back (dc_Path c) raw t" by blast
  show ?thesis by (cases "dc_Path c" raw t rule: write_back_cases) (use that w in auto)
next
  case False
  then have "\<exists>r. drift_Tick draw c t = (r, t) \<and> (\<forall>raw. r \<noteq> Wrote raw)"
    by (auto simp: drift_Tick_def Let_def split: sum.splits if_splits)
  then show ?thesis using idle by blast
qed

lemma enum_Tick_cases:
  obtains (idle) r idx' where "enum_Tick draw c idx t = ((r, idx'), t)" "\<forall>raw. r \<noteq> Wrote raw"
  | (wrote) raw idx' t' where "enum_Tick draw c idx t = ((Wrote raw, idx'), t')" "SetSystem (ec_Path c) raw t = (Inr (), t')"
proof (cases "Get (ec_Path c) t")
  case (Inl e)
  then show ?thesis using idle [of "Failed e" idx] by (simp add: enum_Tick_def)
next
  case (Inr v)
  obtain raw idx' where n: "(if ep_Mode c = ''random'' then (ep_Values c ! nat (draw (int (length (ep_Values c)))), idx)
      else (ep_Values c ! idx, Suc idx mod length (ep_Values c))) = (raw, idx')" by fastforce
  have w: "enum_Tick draw c idx t = (let (r, t') = write_back (ec_Path c) raw t in ((r, idx'), t'))"
    by (simp add: enum_Tick_def Inr Let_def n)
  show ?thesis by (cases "ec_Path c" raw t rule: write_back_cases) (use that w in auto)
qed

lemma timestamp_Tick_cases:
  obtains (idle) r where "timestamp_Tick clock c start t = (r, t)" "\<forall>raw. r \<noteq> Wrote raw"
  | (wrote) raw t' where "timestamp_Tick clock c start t = (Wrote raw, t')" "SetSystem (tc_Path c) raw t = (Inr (), t')"
proof (cases "\<exists>raw. timestamp_Tick clock c start t = write_back (tc_Path c) raw t")
  case True
  then obtain raw where w: "timestamp_Tick clock c start t = write_back (tc_Path c) raw t" by blast
  show ?thesis by (cases "tc_Path c" raw t rule: write_back_cases) (use that w in auto)
next
  case False
  then have "\<exists>r. timestamp_Tick clock c start t = (r, t) \<and> (\<forall>raw. r \<noteq> Wrote raw)"
    by (auto simp: timestamp_Tick_def Let_def split: sum.splits)
  then show ?thesis using idle by blast
qed

lemma Tick_cases:
  obtains (idle) r g' where "Tick draw clock g t = ((r, g'), t)" "gen_Path g' = gen_Path g" "\<forall>raw. r \<noteq> Wrote raw"
  | (wrote) raw g' t' where "Tick draw clock g t = ((Wrote raw, g'), t')" "gen_Path g' = gen_Path g"
      "SetSystem (gen_Path g) raw t = (Inr (), t')"
proof (cases g)
  case (counterGen c)
  then show ?thesis by (cases draw c t rule: counter_Tick_cases) (use that in auto)
next
  case (driftGen c)
  then show ?thesis by (cases draw c t rule: drift_Tick_cases) (use that in auto)
next
  case (enumGen c idx)
  then show ?thesis by (cases draw c idx t rule: enum_Tick_cases) (use that in auto)
next
  case (timestampGen c start)
  then show ?thesis by (cases clock c start t rule: timestamp_Tick_cases) (use that in auto)
qed

lemma Tick_contract:
  assumes "Tick draw clock g t = ((r, g'), t')"
  shows "gen_Path g' = gen_Path g"
    and "r = Wrote raw \<Longrightarrow> SetSystem (gen_Path g) raw t = (Inr (), t')"
    and "\<forall>raw. r \<noteq> Wrote raw \<Longrightarrow> t' = t"
  by (cases rule: Tick_cases [of draw clock g t]; use assms in auto)+

interpretation gen: tick_contract "Tick draw clock" gen_Path for draw clock
  by unfold_locales (blast dest: Tick_contract)+

section \<open>Properties of the generators\<close>

lemma valid_uint: "VType v = TypeUnsignedInt \<Longrightarrow> m < 2 ^ 32 \<Longrightarrow> valid_Value (v\<lparr>Raw := show_nat m\<rparr>)"
  by (simp add: valid_Value_def Validate_def typeFns_def validateUint32_def ParseUint_show_nat)

lemma ParseInt_Itoa: "- (2 ^ (bits - 1)) \<le> i \<Longrightarrow> i < 2 ^ (bits - 1) \<Longrightarrow> ParseInt bits (Itoa i) = Some i"
proof (cases "i < 0")
  case False
  assume "i < 2 ^ (bits - 1)"
  with False have "nat i < 2 ^ (bits - 1)" by (simp add: nat_less_iff)
  from ParseInt_show_nat [OF this] False show ?thesis by (simp add: Itoa_def)
next
  case True
  assume "- (2 ^ (bits - 1)) \<le> i"
  with True have "nat (- i) \<le> 2 ^ (bits - 1)" by (simp add: nat_le_iff)
  then show ?thesis using True by (simp add: Itoa_def ParseInt_def Let_def)
qed

lemma valid_int: "VType v = TypeInt \<Longrightarrow> - (2 ^ 31) \<le> i \<Longrightarrow> i < 2 ^ 31 \<Longrightarrow> valid_Value (v\<lparr>Raw := Itoa i\<rparr>)"
  using ParseInt_Itoa [of 32 i] by (simp add: valid_Value_def Validate_def typeFns_def validateInt32_def)

lemma write_back_ok:
  assumes "Get p t = Inr cur" and "valid_Value (cur\<lparr>Raw := raw\<rparr>)"
  obtains t' where "write_back p raw t = (Wrote raw, t')" "Get p t' = Inr (cur\<lparr>Raw := raw\<rparr>)"
proof -
  from assms(1) obtain segs where s: "parsePath p = Inr segs" "leaf_at (root t) segs = Some cur" by (auto simp: Get_Inr)
  then obtain t' where "SetSystem p raw t = (Inr (), t')" "root t' = put_leaf segs (cur\<lparr>Raw := raw\<rparr>) (root t)"
    using assms(2) by (auto simp: SetSystem_Inr)
  then show thesis using that [of t'] s leaves.get_put [of "root t" segs] by (simp add: write_back_def Get_Inr)
qed


text \<open>A tick of a drift generator stays in its band and moves by at most the step: it starts from the
  current value, brought into the band first, and what it writes reads back.\<close>

theorem drift_in_band:
  assumes "NewDrift c = Inr g" and "dp_StepMax c < 2 ^ 62" and "- (2 ^ 31) \<le> dp_Min c" and "dp_Max c < 2 ^ 31" and "fair_draw draw"
    and leaf: "Get (dc_Path c) t = Inr cur" "VType cur = TypeInt" "ParseInt 32 (Raw cur) = Some i"
  shows "\<exists>k t'. drift_Tick draw c t = (Wrote (Itoa k), t') \<and> Get (dc_Path c) t' = Inr (cur\<lparr>Raw := Itoa k\<rparr>)
    \<and> dp_Min c \<le> k \<and> k \<le> dp_Max c \<and> \<bar>k - clamp (dp_Min c) (dp_Max c) i\<bar> \<le> dp_StepMax c"
proof -
  have cfg: "dp_Min c < dp_Max c" "0 < dp_StepMax c" using assms(1) by (auto simp: NewDrift_def split: if_splits)
  have i: "ParseInt 64 (Raw cur) = Some i"
    using leaf(3) by (auto simp: ParseInt_def Let_def split: option.splits if_splits)
  define s where "s = clamp (dp_Min c) (dp_Max c) i"
  have s: "dp_Min c \<le> s" "s \<le> dp_Max c" using cfg by (auto simp: s_def clamp_def)
  have span: "int64 (int64 (2 * dp_StepMax c) + 1) = 2 * dp_StepMax c + 1" using cfg assms(2) by (simp add: int64_id)
  define d where "d = draw (2 * dp_StepMax c + 1) - dp_StepMax c"
  have d: "\<bar>d\<bar> \<le> dp_StepMax c" using assms(5) cfg unfolding fair_draw_def d_def by (smt (verit))
  have d64: "int64 d = d" "int64 (s + d) = s + d" using d assms(2-4) s by (simp_all add: int64_id)
  define k where "k = clamp (dp_Min c) (dp_Max c) (s + d)"
  have k: "dp_Min c \<le> k" "k \<le> dp_Max c" "\<bar>k - s\<bar> \<le> dp_StepMax c" using cfg s d by (auto simp: k_def clamp_def)
  have "valid_Value (cur\<lparr>Raw := Itoa k\<rparr>)" using k assms(3,4) leaf(2) by (intro valid_int) simp_all
  from write_back_ok [OF leaf(1) this] obtain t'
    where t': "write_back (dc_Path c) (Itoa k) t = (Wrote (Itoa k), t')" "Get (dc_Path c) t' = Inr (cur\<lparr>Raw := Itoa k\<rparr>)" .
  have "drift_Tick draw c t = (Wrote (Itoa k), t')"
    using leaf(1) i span cfg t'(1) d64
    by (simp add: drift_Tick_def s_def [symmetric] d_def [symmetric] k_def [symmetric] Let_def)
  then show ?thesis using t'(2) k unfolding s_def [symmetric] by blast
qed

fun writes_type :: "Generator \<Rightarrow> Type \<Rightarrow> bool" where
  "writes_type (counterGen c) ty = (ty = TypeUnsignedInt)"
| "writes_type (driftGen c) ty = (ty = TypeInt)"
| "writes_type (enumGen c idx) ty = (ty \<in> {TypeString, TypeBoolean} \<and> (\<forall>x \<in> set (ep_Values c). \<not> is_err (Validate ty x)))"
| "writes_type (timestampGen c start) ty = (ty = (case tc_Kind c of TimestampUptime \<Rightarrow> TypeUnsignedInt | TimestampWallclock \<Rightarrow> TypeDateTime))"

lemma check_counter_Inr:
  "check_counter v raw gen = Inr cfg \<Longrightarrow>
     \<exists>cp. cfg = gen\<lparr>gc_Counter := Some cp\<rparr> \<and> counter_params cp = None \<and> VType v = TypeUnsignedInt"
  by (auto simp: check_counter_def Let_def split: if_splits option.splits)

lemma NewCounter_params:
  "counter_params cp = None \<Longrightarrow> p \<noteq> [] \<Longrightarrow>
     NewCounter \<lparr>cp_Min = cp_Min cp, cp_Max = cp_Max cp, cp_Step = cp_Step cp, cp_Jitter = cp_Jitter cp, cc_Path = p\<rparr> =
       Inr (counterGen \<lparr>cp_Min = cp_Min cp, cp_Max = cp_Max cp, cp_Step = cp_Step cp, cp_Jitter = cp_Jitter cp, cc_Path = p\<rparr>)"
  by (simp add: counter_params_def NewCounter_def split: if_splits)

lemma check_drift_Inr:
  "check_drift v raw gen = Inr cfg \<Longrightarrow>
     \<exists>p. cfg = gen\<lparr>gc_Drift := Some p\<rparr> \<and> dp_Min p < dp_Max p \<and> 0 < dp_StepMax p \<and> VType v = TypeInt"
  by (force simp: check_drift_def split: if_splits option.splits)

lemma check_enum_Inr:
  "check_enum v raw gen = Inr cfg \<Longrightarrow>
     \<exists>p. cfg = gen\<lparr>gc_Enum := Some p\<rparr> \<and> ep_Values p \<noteq> [] \<and> (ep_Mode p = ''cycle'' \<or> ep_Mode p = ''random'')
       \<and> (VType v = TypeString \<or> VType v = TypeBoolean) \<and> (\<forall>x \<in> set (ep_Values p). \<not> is_err (Validate (VType v) x))"
proof (cases "find (\<lambda>x. is_err (Validate (VType v) x)) (rg_Values raw)")
  case None
  then have ok: "\<forall>x \<in> set (rg_Values raw). \<not> is_err (Validate (VType v) x)" by (simp add: find_None_iff)
  assume "check_enum v raw gen = Inr cfg"
  with None have "cfg = gen\<lparr>gc_Enum := Some \<lparr>ep_Values = rg_Values raw, ep_Mode = (if rg_Mode raw = '''' then ''cycle'' else rg_Mode raw)\<rparr>\<rparr>"
    "rg_Values raw \<noteq> []" "rg_Mode raw \<in> {'''', ''cycle'', ''random''}" "VType v = TypeString \<or> VType v = TypeBoolean"
    by (auto simp: check_enum_def Let_def split: if_splits)
  with ok show ?thesis
    by (intro exI [of _ "\<lparr>ep_Values = rg_Values raw, ep_Mode = (if rg_Mode raw = '''' then ''cycle'' else rg_Mode raw)\<rparr>"]) auto
qed (auto simp: check_enum_def split: if_splits)

lemma NewEnum_params:
  "vs \<noteq> [] \<Longrightarrow> mode = ''cycle'' \<or> mode = ''random'' \<Longrightarrow> q \<noteq> [] \<Longrightarrow>
     NewEnum \<lparr>ep_Values = vs, ep_Mode = mode, ec_Path = q\<rparr> = Inr (enumGen \<lparr>ep_Values = vs, ep_Mode = mode, ec_Path = q\<rparr> 0)"
  by (auto simp: NewEnum_def)

text \<open>What the profile loader accepts can be built: for every validated entry \<^verbatim>\<open>FromConfig\<close> gives a
  generator for the same leaf, and the leaf has the type the generator writes.\<close>

theorem validated_generator_builds:
  assumes "validateGenerator pd t raw = Inr cfg"
  shows "\<exists>g v. FromConfig now cfg = Inr g \<and> gen_Path g = rg_Path raw \<and> Get (rg_Path raw) t = Inr v
    \<and> writes_type g (VType v) \<and> 0 < gc_Interval cfg"
proof -
  obtain v interval where v: "rg_Path raw \<noteq> ''''" "Get (rg_Path raw) t = Inr v" "0 < interval"
    and kind: "check_kind v raw \<lparr>gc_Path = rg_Path raw, gc_Type = rg_Type raw, gc_Interval = interval,
      gc_Counter = None, gc_Drift = None, gc_Enum = None\<rparr> = Inr cfg"
    using assms by (auto simp: validateGenerator_def linorder_not_le split: if_splits sum.splits)
  show ?thesis
  proof (cases "rg_Type raw \<in> {''counter'', ''drift'', ''enum''}")
    case True
    then consider "rg_Type raw = ''counter''" | "rg_Type raw = ''drift''" | "rg_Type raw = ''enum''" by auto
    then show ?thesis
    proof cases
      case 1
      with kind have "check_counter v raw \<lparr>gc_Path = rg_Path raw, gc_Type = ''counter'', gc_Interval = interval,
          gc_Counter = None, gc_Drift = None, gc_Enum = None\<rparr> = Inr cfg" by (simp add: check_kind_def)
      then show ?thesis using v
        by (auto simp: FromConfig_def NewCounter_params dest!: check_counter_Inr)
    next
      case 2
      with kind have "check_drift v raw \<lparr>gc_Path = rg_Path raw, gc_Type = ''drift'', gc_Interval = interval,
          gc_Counter = None, gc_Drift = None, gc_Enum = None\<rparr> = Inr cfg" by (simp add: check_kind_def)
      then show ?thesis using v
        by (auto simp: FromConfig_def NewDrift_def dest!: check_drift_Inr)
    next
      case 3
      with kind have "check_enum v raw \<lparr>gc_Path = rg_Path raw, gc_Type = ''enum'', gc_Interval = interval,
          gc_Counter = None, gc_Drift = None, gc_Enum = None\<rparr> = Inr cfg" by (simp add: check_kind_def)
      then show ?thesis using v
        by (auto simp: FromConfig_def NewEnum_params dest!: check_enum_Inr)
    qed
  next
    case False
    then show ?thesis using v kind
      by (auto simp: check_kind_def FromConfig_def NewTimestamp_def split: if_splits)
  qed
qed

text \<open>A tick changes no leaf but the generator's own, and of that only the text, which stays valid for
  the declared type.\<close>

theorem Tick_writes_own_leaf:
  assumes "Tick draw clock g t = ((r, g'), t')"
  shows "(\<forall>q. parsePath (gen_Path g) \<noteq> Inr q \<longrightarrow> leaf_at (root t') q = leaf_at (root t) q)
    \<and> (\<forall>raw. r = Wrote raw \<longrightarrow> (\<exists>old. Get (gen_Path g) t = Inr old \<and> Get (gen_Path g) t' = Inr (old\<lparr>Raw := raw\<rparr>)
         \<and> valid_Value (old\<lparr>Raw := raw\<rparr>)))
    \<and> ((\<forall>raw. r \<noteq> Wrote raw) \<longrightarrow> t' = t)"
  using gen.frame [OF assms] gen.own_leaf gen.not_wrote [OF assms] assms by blast

section \<open>Limits\<close>

text \<open>A step close to the top of the 64-bit range is accepted and wraps, so that the counter leaves its
  band at the lower end.\<close>

definition huge_step :: CounterConfig where
  "huge_step = \<lparr>cp_Min = 10, cp_Max = 20, cp_Step = 18446744073709551615, cp_Jitter = 0, cc_Path = ''C''\<rparr>"

lemma counter_below_band: "NewCounter huge_step = Inr (counterGen huge_step) \<and> counter_inc huge_step draw = Some (cp_Step huge_step)
   \<and> counter_next huge_step 10 (cp_Step huge_step) = 9"
  by (simp add: NewCounter_def huge_step_def bbfUint32Max_def counter_inc_def counter_next_def)

text \<open>A drift with a step of \<open>2 ^ 62\<close> is accepted, and its tick panics, whatever the leaf holds.\<close>

definition huge_drift :: DriftConfig where
  "huge_drift = \<lparr>dp_Min = 0, dp_Max = 100, dp_StepMax = 4611686018427387904, dc_Path = ''C''\<rparr>"

lemma drift_panics: "NewDrift huge_drift = Inr (driftGen huge_drift)"
  "Get ''C'' t = Inr v \<Longrightarrow> drift_Tick draw huge_drift t = (Panicked, t)"
  by (simp_all add: NewDrift_def huge_drift_def drift_Tick_def int64_def Let_def)

section \<open>Witnesses\<close>

definition gen_tree :: Tree where
  "gen_tree = New\<lparr>root := Node [(''C'', NewLeaf \<lparr>VType = TypeUnsignedInt, Raw = ''19'', Writable = False\<rparr>),
     (''D'', NewLeaf \<lparr>VType = TypeInt, Raw = ''50'', Writable = False\<rparr>)] None None None\<rparr>"

definition small_counter :: CounterConfig where
  "small_counter = \<lparr>cp_Min = 10, cp_Max = 20, cp_Step = 4, cp_Jitter = 1 / 2, cc_Path = ''C''\<rparr>"

definition small_drift :: DriftConfig where
  "small_drift = \<lparr>dp_Min = 0, dp_Max = 20, dp_StepMax = 3, dc_Path = ''D''\<rparr>"

lemma zero_draw: "fair_draw (\<lambda>_. 0)"
  by (simp add: fair_draw_def)

lemma gen_leaves: "Get ''C'' gen_tree = Inr \<lparr>VType = TypeUnsignedInt, Raw = ''19'', Writable = False\<rparr>"
  "Get ''D'' gen_tree = Inr \<lparr>VType = TypeInt, Raw = ''50'', Writable = False\<rparr>"
  "ParseUint 32 ''19'' = Some 19" "ParseInt 32 ''50'' = Some 50"
  by code_simp+

lemma gen_configs: "NewCounter small_counter = Inr (counterGen small_counter)" "NewDrift small_drift = Inr (driftGen small_drift)"
  by (simp_all add: NewCounter_def NewDrift_def small_counter_def small_drift_def bbfUint32Max_def)


theorem drift_in_band_witness:
  "\<exists>k t'. drift_Tick (\<lambda>_. 0) small_drift gen_tree = (Wrote (Itoa k), t') \<and> 17 \<le> k \<and> k \<le> 20"
proof -
  from drift_in_band [OF gen_configs(2) _ _ _ zero_draw, of gen_tree "\<lparr>VType = TypeInt, Raw = ''50'', Writable = False\<rparr>" 50]
    gen_leaves obtain k t' where "drift_Tick (\<lambda>_. 0) small_drift gen_tree = (Wrote (Itoa k), t')" "k \<le> 20" "\<bar>k - clamp 0 20 50\<bar> \<le> 3"
    by (auto simp: small_drift_def)
  then show ?thesis by (auto simp: clamp_def)
qed

definition raw_counter :: rawGenerator where
  "raw_counter = \<lparr>rg_Path = ''C'', rg_Type = ''counter'', rg_Interval = ''5s'', rg_Min = Some 10, rg_Max = Some 20,
     rg_Step = Some 4, rg_Jitter = None, rg_StepMax = None, rg_Values = [], rg_Mode = ''''\<rparr>"

theorem validated_generator_builds_witness:
  "\<exists>g. (case validateGenerator (\<lambda>_. Inr 5000000000) gen_tree raw_counter of Inr cfg \<Rightarrow> FromConfig 0 cfg | Inl e \<Rightarrow> Inl e) = Inr g
     \<and> gen_Path g = ''C''"
proof -
  obtain cfg where "validateGenerator (\<lambda>_. Inr 5000000000) gen_tree raw_counter = Inr cfg"
    using gen_leaves by (simp add: validateGenerator_def raw_counter_def check_kind_def check_counter_def counter_params_def bbfUint32Max_def Let_def)
  with validated_generator_builds [OF this, of 0] show ?thesis by (auto simp: raw_counter_def)
qed

theorem Tick_writes_own_leaf_witness:
  "leaf_at (root (snd (Tick (\<lambda>_. 0) (0, \<lparr>t_year = 2024, t_month = 1, t_day = 2, t_hour = 3, t_min = 4, t_sec = 5, t_nsec = 0\<rparr>)
     (counterGen small_counter) gen_tree))) [''D''] = leaf_at (root gen_tree) [''D'']"
proof -
  let ?c = "(0, \<lparr>t_year = 2024, t_month = 1, t_day = 2, t_hour = 3, t_min = 4, t_sec = 5, t_nsec = 0\<rparr>)"
  have p: "parsePath (gen_Path (counterGen small_counter)) = Inr [''C'']" unfolding small_counter_def gen_Path.simps by code_simp
  obtain r g' t' where t: "Tick (\<lambda>_. 0) ?c (counterGen small_counter) gen_tree = ((r, g'), t')" by (metis prod.exhaust)
  from Tick_writes_own_leaf [OF t] p show ?thesis unfolding t by simp
qed

end
