(* ===== verification/GenScheduler.thy ===== *)
theory GenScheduler
  imports Generators
begin

text \<open>
  The runners of the generators and the scheduler they share: \<^verbatim>\<open>generators.go\<close>, \<^verbatim>\<open>config.go\<close> and
  \<^verbatim>\<open>scheduler.go\<close> of \<^verbatim>\<open>src/internal/generators\<close>.  A fleet holds the runners of all CPEs, the queue, the
  channel of ticks handed to the workers and the clock.  Every operation runs under the mutexes of the
  source and is one step.  A runner with a scheduler of its own is a fleet of one.
\<close>

section \<open>Runners\<close>

record scheduledGen =
  sg_id :: nat
  sg_gen :: Generator
  sg_interval :: int

record GenRunner =
  gr_items :: "scheduledGen list"
  gr_byPath :: "string list"
  gr_started :: bool
  gr_stopped :: bool

definition NewGenRunner :: GenRunner where
  "NewGenRunner = \<lparr>gr_items = [], gr_byPath = [], gr_started = False, gr_stopped = False\<rparr>"

text \<open>The part of \<^verbatim>\<open>Add\<close> under the lock; the result tells whether the generator has to be queued.\<close>

definition register :: "nat \<Rightarrow> Generator option \<Rightarrow> int \<Rightarrow> GenRunner \<Rightarrow> (goerr + bool) \<times> GenRunner" where
  "register gid g interval r =
     (case g of
        None \<Rightarrow> (Inl (Errorf ''generators.Runner.Add: generator is nil'' []), r)
      | Some gen \<Rightarrow>
          if interval \<le> 0 then (Inl (Errorf ''generators.Runner.Add: interval must be > 0'' []), r)
          else if gen_Path gen = '''' then (Inl (Errorf ''generators.Runner.Add: generator returned empty Path()'' []), r)
          else if gr_stopped r then (Inl (Errorf ''generators.Runner.Add: runner is stopped'' []), r)
          else if gen_Path gen \<in> set (gr_byPath r)
               then (Inl (Errorf ''generators.Runner.Add: duplicate generator path %q'' [ArgS (gen_Path gen)]), r)
          else (Inr (gr_started r),
                r\<lparr>gr_byPath := gen_Path gen # gr_byPath r,
                  gr_items := gr_items r @ [\<lparr>sg_id = gid, sg_gen = gen, sg_interval = interval\<rparr>]\<rparr>))"

fun drop_path :: "string \<Rightarrow> scheduledGen list \<Rightarrow> scheduledGen list" where
  "drop_path path [] = []"
| "drop_path path (sg # sgs) = (if gen_Path (sg_gen sg) = path then sgs else sg # drop_path path sgs)"

definition Remove :: "string \<Rightarrow> GenRunner \<Rightarrow> GenRunner" where
  "Remove path r =
     (if path \<notin> set (gr_byPath r) then r
      else r\<lparr>gr_byPath := removeAll path (gr_byPath r), gr_items := drop_path path (gr_items r)\<rparr>)"

definition gen_wants :: "nat \<Rightarrow> GenRunner \<Rightarrow> bool" where
  "gen_wants gid r \<longleftrightarrow> \<not> gr_stopped r \<and> gid \<in> sg_id ` set (gr_items r)"

section \<open>The queue\<close>

record schedEntry =
  en_runner :: nat
  en_gen :: nat
  en_interval :: int
  en_due :: int
  en_seq :: nat

definition Less :: "schedEntry \<Rightarrow> schedEntry \<Rightarrow> bool" where
  "Less a b = (if en_due a = en_due b then en_seq a < en_seq b else en_due a < en_due b)"

fun heap_Push :: "schedEntry \<Rightarrow> schedEntry list \<Rightarrow> schedEntry list" where
  "heap_Push e [] = [e]"
| "heap_Push e (x # xs) = (if Less e x then e # x # xs else x # heap_Push e xs)"

record genScheduler =
  sc_queue :: "schedEntry list"
  sc_seq :: nat
  sc_started :: bool
  sc_stopped :: bool
  sc_wake :: bool

record Fleet =
  fl_now :: int
  fl_sched :: genScheduler
  fl_runners :: "GenRunner list"
  fl_jobs :: "schedEntry list"
  fl_fresh :: nat

definition sched_add :: "int \<Rightarrow> nat \<Rightarrow> nat \<Rightarrow> int \<Rightarrow> genScheduler \<Rightarrow> genScheduler" where
  "sched_add now rid gid interval s =
     (if sc_stopped s then s
      else
        (let mySeq = Suc (sc_seq s);
             q = heap_Push \<lparr>en_runner = rid, en_gen = gid, en_interval = interval, en_due = now + interval, en_seq = mySeq\<rparr> (sc_queue s)
         in s\<lparr>sc_seq := mySeq, sc_queue := q, sc_wake := sc_wake s \<or> en_seq (hd q) = mySeq\<rparr>))"

definition NewFleet :: "int \<Rightarrow> Fleet" where
  "NewFleet now = \<lparr>fl_now = now,
     fl_sched = \<lparr>sc_queue = [], sc_seq = 0, sc_started = False, sc_stopped = False, sc_wake = False\<rparr>,
     fl_runners = [], fl_jobs = [], fl_fresh = 0\<rparr>"

abbreviation runner_of :: "Fleet \<Rightarrow> nat \<Rightarrow> GenRunner" where
  "runner_of fl rid \<equiv> fl_runners fl ! rid"

definition Add :: "nat \<Rightarrow> Generator option \<Rightarrow> int \<Rightarrow> Fleet \<Rightarrow> (goerr + unit) \<times> Fleet" where
  "Add rid g interval fl =
     (case register (fl_fresh fl) g interval (runner_of fl rid) of
        (Inl e, r) \<Rightarrow> (Inl e, fl)
      | (Inr started, r) \<Rightarrow>
          (let fl' = fl\<lparr>fl_fresh := Suc (fl_fresh fl), fl_runners := (fl_runners fl)[rid := r]\<rparr>
           in (Inr (), if started then fl'\<lparr>fl_sched := sched_add (fl_now fl) rid (fl_fresh fl) interval (fl_sched fl)\<rparr> else fl')))"

definition AddConfig :: "nat \<Rightarrow> GeneratorConfig \<Rightarrow> Fleet \<Rightarrow> (goerr + unit) \<times> Fleet" where
  "AddConfig rid cfg fl =
     (case FromConfig (fl_now fl) cfg of
        Inl e \<Rightarrow> (Inl e, fl)
      | Inr gen \<Rightarrow>
          (case Add rid (Some gen) (gc_Interval cfg) fl of
             (Inl e, fl') \<Rightarrow> (Inl (Errorf ''generator %q: %w'' [ArgS (gc_Path cfg), ArgW e]), fl')
           | (Inr _, fl') \<Rightarrow> (Inr (), fl')))"

text \<open>\<^verbatim>\<open>buildGenerators\<close> of \<^verbatim>\<open>cmd/cpe-sim/main.go\<close>: the first entry that cannot be added gives up.\<close>

fun buildGenerators :: "nat \<Rightarrow> GeneratorConfig list \<Rightarrow> Fleet \<Rightarrow> (goerr + unit) \<times> Fleet" where
  "buildGenerators rid [] fl = (Inr (), fl)"
| "buildGenerators rid (cfg # cfgs) fl =
     (case AddConfig rid cfg fl of
        (Inl e, fl') \<Rightarrow> (Inl e, fl')
      | (Inr _, fl') \<Rightarrow> buildGenerators rid cfgs fl')"

definition runner_Remove :: "nat \<Rightarrow> string \<Rightarrow> Fleet \<Rightarrow> Fleet" where
  "runner_Remove rid path fl = fl\<lparr>fl_runners := (fl_runners fl)[rid := Remove path (runner_of fl rid)]\<rparr>"

definition queue_items :: "nat \<Rightarrow> scheduledGen list \<Rightarrow> Fleet \<Rightarrow> Fleet" where
  "queue_items rid sgs fl =
     fl\<lparr>fl_sched := fold (\<lambda>sg. sched_add (fl_now fl) rid (sg_id sg) (sg_interval sg)) sgs (fl_sched fl)\<rparr>"

definition runner_Start :: "nat \<Rightarrow> Fleet \<Rightarrow> (goerr + unit) \<times> Fleet" where
  "runner_Start rid fl =
     (let r = runner_of fl rid in
      if gr_stopped r then (Inl (Errorf ''generators.Runner.Start: runner is stopped'' []), fl)
      else if gr_started r then (Inr (), fl)
      else (Inr (), queue_items rid (gr_items r) (fl\<lparr>fl_runners := (fl_runners fl)[rid := r\<lparr>gr_started := True\<rparr>]\<rparr>)))"

definition runner_Stop :: "nat \<Rightarrow> Fleet \<Rightarrow> Fleet" where
  "runner_Stop rid fl = fl\<lparr>fl_runners := (fl_runners fl)[rid := (runner_of fl rid)\<lparr>gr_stopped := True\<rparr>]\<rparr>"

definition sched_Start :: "genScheduler \<Rightarrow> (goerr + unit) \<times> genScheduler" where
  "sched_Start s =
     (if sc_stopped s then (Inl (Errorf ''generators.Scheduler.Start: scheduler is stopped'' []), s)
      else if sc_started s then (Inr (), s)
      else (Inr (), s\<lparr>sc_started := True\<rparr>))"

definition sched_Stop :: "genScheduler \<Rightarrow> genScheduler" where
  "sched_Stop s = s\<lparr>sc_stopped := True\<rparr>"

text \<open>The loop of \<^verbatim>\<open>collectDue\<close>.  An entry that is re-armed with no interval would be popped for ever, so
  the loop has fuel.\<close>

fun collect_due :: "nat \<Rightarrow> (nat \<Rightarrow> nat \<Rightarrow> bool) \<Rightarrow> int \<Rightarrow> schedEntry list \<Rightarrow> (schedEntry list \<times> schedEntry list) option" where
  "collect_due 0 want now q = None"
| "collect_due (Suc fuel) want now [] = Some ([], [])"
| "collect_due (Suc fuel) want now (e # q) =
     (if now < en_due e then Some ([], e # q)
      else if \<not> want (en_runner e) (en_gen e) then collect_due fuel want now q
      else
        (let e' = e\<lparr>en_due := now + en_interval e\<rparr> in
         case collect_due fuel want now (heap_Push e' q) of
           None \<Rightarrow> None
         | Some (ready, q') \<Rightarrow> Some (e' # ready, q')))"

definition wanted :: "Fleet \<Rightarrow> nat \<Rightarrow> nat \<Rightarrow> bool" where
  "wanted fl rid gid \<longleftrightarrow> rid < length (fl_runners fl) \<and> gen_wants gid (runner_of fl rid)"

text \<open>One round of the timing loop: the due entries go to the workers; the result also has the time to
  wait for the next one.\<close>

definition run_round :: "Fleet \<Rightarrow> (int option \<times> Fleet) option" where
  "run_round fl =
     (let q = sc_queue (fl_sched fl) in
      case collect_due (Suc (length q)) (wanted fl) (fl_now fl) q of
        None \<Rightarrow> None
      | Some (ready, q') \<Rightarrow>
          Some (case q' of [] \<Rightarrow> None | e # _ \<Rightarrow> Some (en_due e - fl_now fl),
                fl\<lparr>fl_sched := (fl_sched fl)\<lparr>sc_queue := q', sc_wake := False\<rparr>, fl_jobs := fl_jobs fl @ ready\<rparr>))"

definition tick :: "(int \<Rightarrow> int) \<Rightarrow> gotime \<Rightarrow> nat \<Rightarrow> nat \<Rightarrow> Tree \<times> Fleet \<Rightarrow> Tree \<times> Fleet" where
  "tick draw civil rid gid = (\<lambda>(t, fl).
     if \<not> wanted fl rid gid then (t, fl)
     else
       (case find (\<lambda>sg. sg_id sg = gid) (gr_items (runner_of fl rid)) of
          None \<Rightarrow> (t, fl)
        | Some sg \<Rightarrow>
            (let ((_, g'), t') = Tick draw (fl_now fl, civil) (sg_gen sg) t;
                 r = runner_of fl rid;
                 items = map (\<lambda>x. if sg_id x = gid then x\<lparr>sg_gen := g'\<rparr> else x) (gr_items r)
             in (t', fl\<lparr>fl_runners := (fl_runners fl)[rid := r\<lparr>gr_items := items\<rparr>]\<rparr>))))"

text \<open>A worker takes the oldest tick; \<open>t\<close> is the tree of its CPE.\<close>

definition gen_worker :: "(int \<Rightarrow> int) \<Rightarrow> gotime \<Rightarrow> Tree \<times> Fleet \<Rightarrow> Tree \<times> Fleet" where
  "gen_worker draw civil = (\<lambda>(t, fl).
     case fl_jobs fl of
       [] \<Rightarrow> (t, fl)
     | e # es \<Rightarrow> tick draw civil (en_runner e) (en_gen e) (t, fl\<lparr>fl_jobs := es\<rparr>))"

text \<open>What can happen to a fleet.\<close>

inductive fleet_step :: "Fleet \<Rightarrow> Fleet \<Rightarrow> bool" where
  new_runner: "fleet_step fl (fl\<lparr>fl_runners := fl_runners fl @ [NewGenRunner]\<rparr>)"
| add: "rid < length (fl_runners fl) \<Longrightarrow> fleet_step fl (snd (AddConfig rid cfg fl))"
| remove: "rid < length (fl_runners fl) \<Longrightarrow> fleet_step fl (runner_Remove rid path fl)"
| start: "rid < length (fl_runners fl) \<Longrightarrow> fleet_step fl (snd (runner_Start rid fl))"
| stop: "rid < length (fl_runners fl) \<Longrightarrow> fleet_step fl (runner_Stop rid fl)"
| sched_start: "fleet_step fl (fl\<lparr>fl_sched := snd (sched_Start (fl_sched fl))\<rparr>)"
| sched_stop: "fleet_step fl (fl\<lparr>fl_sched := sched_Stop (fl_sched fl)\<rparr>)"
| time: "fl_now fl \<le> now \<Longrightarrow> fleet_step fl (fl\<lparr>fl_now := now\<rparr>)"
| round: "run_round fl = Some (delay, fl') \<Longrightarrow> fleet_step fl fl'"
| work: "gen_worker draw civil (t, fl) = (t', fl') \<Longrightarrow> fleet_step fl fl'"

section \<open>The due entries\<close>

definition in_order :: "schedEntry list \<Rightarrow> bool" where
  "in_order q \<longleftrightarrow> sorted_wrt (\<lambda>a b. \<not> Less b a) q"

lemma set_heap_Push [simp]: "set (heap_Push e q) = insert e (set q)"
  by (induction q) auto

lemma Less_trans: "\<not> Less b a \<Longrightarrow> Less b' a \<or> b' = a \<Longrightarrow> \<not> Less b b'"
  by (auto simp: Less_def split: if_splits)

lemma in_order_Push: "in_order q \<Longrightarrow> in_order (heap_Push e q)"
proof (induction q)
  case (Cons x xs)
  show ?case
  proof (cases "Less e x")
    case True
    have "\<not> Less y e" if "y \<in> set xs" for y
      using Cons.prems that True Less_trans [of y x e] by (auto simp: in_order_def)
    then show ?thesis using Cons.prems True by (auto simp: in_order_def Less_def split: if_splits)
  next
    case False
    then show ?thesis using Cons by (auto simp: in_order_def)
  qed
qed (simp add: in_order_def)

lemma filter_heap_Push: "\<not> P e \<Longrightarrow> filter P (heap_Push e q) = filter P q"
  by (induction q) auto

lemma distinct_heap_Push: "distinct (map f (heap_Push e q)) \<longleftrightarrow> f e \<notin> f ` set q \<and> distinct (map f q)"
proof (induction q)
  case (Cons x xs)
  then show ?case by (cases "Less e x") auto
qed simp

definition due_now :: "int \<Rightarrow> schedEntry \<Rightarrow> bool" where
  "due_now now e \<longleftrightarrow> en_due e \<le> now"

definition rearm :: "int \<Rightarrow> schedEntry \<Rightarrow> schedEntry" where
  "rearm now e = e\<lparr>en_due := now + en_interval e\<rparr>"

lemma in_order_head_due: "in_order (e # q) \<Longrightarrow> now < en_due e \<Longrightarrow> x \<in> set (e # q) \<Longrightarrow> now < en_due x"
  by (auto simp: in_order_def Less_def split: if_splits)

lemma collect_due_exact:
  assumes "in_order q" and "\<forall>e \<in> set q. 0 < en_interval e" and "length (filter (due_now now) q) < fuel"
  shows "\<exists>q'. collect_due fuel want now q =
      Some (map (rearm now) (filter (\<lambda>e. due_now now e \<and> want (en_runner e) (en_gen e)) q), q')
    \<and> in_order q'
    \<and> set q' = {e \<in> set q. \<not> due_now now e} \<union> rearm now ` {e \<in> set q. due_now now e \<and> want (en_runner e) (en_gen e)}"
  using assms
proof (induction fuel want now q rule: collect_due.induct)
  case (3 fuel want now e q)
  show ?case
  proof (cases "now < en_due e")
    case True
    then have "\<not> due_now now x" if "x \<in> set (e # q)" for x
      using in_order_head_due [OF "3.prems"(1) True that] by (simp add: due_now_def)
    then have "filter (\<lambda>e. due_now now e \<and> want (en_runner e) (en_gen e)) (e # q) = []"
      "{x \<in> set (e # q). \<not> due_now now x} = set (e # q)"
      "{x \<in> set (e # q). due_now now x \<and> want (en_runner x) (en_gen x)} = {}" by (auto simp: filter_empty_conv)
    then show ?thesis using True "3.prems"(1) by (simp only: collect_due.simps if_True) simp
  next
    case False
    then have due: "due_now now e" by (simp add: due_now_def)
    have q: "in_order q" using "3.prems"(1) by (simp add: in_order_def)
    have fuel: "length (filter (due_now now) q) < fuel" using "3.prems"(3) due by simp
    show ?thesis
    proof (cases "want (en_runner e) (en_gen e)")
      case True
      let ?e = "rearm now e"
      have nd: "\<not> due_now now ?e" using "3.prems"(2) by (simp add: due_now_def rearm_def)
      have "length (filter (due_now now) (heap_Push ?e q)) < fuel" using fuel nd by (simp add: filter_heap_Push)
      moreover have "\<forall>x \<in> set (heap_Push ?e q). 0 < en_interval x" using "3.prems"(2) by (auto simp: rearm_def)
      moreover note in_order_Push [OF q]
      ultimately obtain q' where q': "collect_due fuel want now (heap_Push ?e q) =
          Some (map (rearm now) (filter (\<lambda>e. due_now now e \<and> want (en_runner e) (en_gen e)) (heap_Push ?e q)), q')"
        "in_order q'" "set q' = {x \<in> set (heap_Push ?e q). \<not> due_now now x}
           \<union> rearm now ` {x \<in> set (heap_Push ?e q). due_now now x \<and> want (en_runner x) (en_gen x)}"
        using "3.IH"(2) [OF False _ refl] True by (auto simp: rearm_def)
      have "filter (\<lambda>e. due_now now e \<and> want (en_runner e) (en_gen e)) (heap_Push ?e q) =
          filter (\<lambda>e. due_now now e \<and> want (en_runner e) (en_gen e)) q" using nd by (simp add: filter_heap_Push)
      moreover have "set q' = {x \<in> set (e # q). \<not> due_now now x}
          \<union> rearm now ` {x \<in> set (e # q). due_now now x \<and> want (en_runner x) (en_gen x)}"
        using q'(3) nd due True by auto
      ultimately show ?thesis using q'(1,2) False True due by (auto simp: rearm_def)
    next
      case nw: False
      then show ?thesis using "3.IH"(1) [OF False nw q _ fuel] "3.prems"(2) False due by (auto simp: nw)
    qed
  qed
qed (simp_all add: in_order_def)

text \<open>The length of the queue is fuel enough.\<close>

lemma run_round_exact:
  assumes "in_order (sc_queue (fl_sched fl))" and "\<forall>e \<in> set (sc_queue (fl_sched fl)). 0 < en_interval e"
  obtains delay q' where "run_round fl = Some (delay,
      fl\<lparr>fl_sched := (fl_sched fl)\<lparr>sc_queue := q', sc_wake := False\<rparr>,
         fl_jobs := fl_jobs fl @ map (rearm (fl_now fl)) (filter (\<lambda>e. due_now (fl_now fl) e \<and> wanted fl (en_runner e) (en_gen e)) (sc_queue (fl_sched fl)))\<rparr>)"
    "in_order q'" "set q' = {e \<in> set (sc_queue (fl_sched fl)). \<not> due_now (fl_now fl) e}
      \<union> rearm (fl_now fl) ` {e \<in> set (sc_queue (fl_sched fl)). due_now (fl_now fl) e \<and> wanted fl (en_runner e) (en_gen e)}"
    "delay = (case q' of [] \<Rightarrow> None | e # _ \<Rightarrow> Some (en_due e - fl_now fl))"
proof -
  have "length (filter (due_now (fl_now fl)) (sc_queue (fl_sched fl))) < Suc (length (sc_queue (fl_sched fl)))"
    by (simp add: le_imp_less_Suc)
  from collect_due_exact [OF assms this, of "wanted fl"] that show thesis
    unfolding run_round_def Let_def by force
qed

lemma collect_due_distinct:
  "collect_due fuel want now q = Some (ready, q') \<Longrightarrow> distinct (map en_gen q) \<Longrightarrow> distinct (map en_gen q')"
proof (induction fuel want now q arbitrary: ready q' rule: collect_due.induct)
  case (3 fuel want now e q)
  show ?case
  proof (cases "now < en_due e \<or> \<not> want (en_runner e) (en_gen e)")
    case True
    then show ?thesis using 3 by (auto split: if_splits)
  next
    case False
    then show ?thesis using "3.IH"(2) [OF _ _ refl] "3.prems"
      by (auto simp: Let_def distinct_heap_Push split: option.splits)
  qed
qed simp_all

section \<open>The invariant of a fleet\<close>

definition runner_ok :: "nat \<Rightarrow> GenRunner \<Rightarrow> bool" where
  "runner_ok fresh r \<longleftrightarrow> set (gr_byPath r) = (gen_Path \<circ> sg_gen) ` set (gr_items r)
     \<and> distinct (map (gen_Path \<circ> sg_gen) (gr_items r))
     \<and> (\<forall>sg \<in> set (gr_items r). sg_id sg < fresh \<and> 0 < sg_interval sg)"

definition ids :: "GenRunner list \<Rightarrow> nat list" where
  "ids rs = concat (map (\<lambda>r. map sg_id (gr_items r)) rs)"

definition entry_for :: "int \<Rightarrow> nat \<Rightarrow> scheduledGen \<Rightarrow> schedEntry \<Rightarrow> bool" where
  "entry_for now rid sg e \<longleftrightarrow> en_runner e = rid \<and> en_gen e = sg_id sg \<and> en_interval e = sg_interval sg \<and> en_due e \<le> now + sg_interval sg"

definition queue_ok :: "nat \<Rightarrow> int \<Rightarrow> schedEntry list \<Rightarrow> bool" where
  "queue_ok fresh now q \<longleftrightarrow> in_order q \<and> distinct (map en_gen q) \<and> (\<forall>e \<in> set q. 0 < en_interval e \<and> en_gen e < fresh)"

definition served :: "Fleet \<Rightarrow> nat \<Rightarrow> bool" where
  "served fl rid \<longleftrightarrow> rid < length (fl_runners fl) \<and> gr_started (runner_of fl rid) \<and> \<not> gr_stopped (runner_of fl rid)"

definition fleet_ok :: "Fleet \<Rightarrow> bool" where
  "fleet_ok fl \<longleftrightarrow> (\<forall>r \<in> set (fl_runners fl). runner_ok (fl_fresh fl) r) \<and> distinct (ids (fl_runners fl))
     \<and> queue_ok (fl_fresh fl) (fl_now fl) (sc_queue (fl_sched fl))
     \<and> (\<forall>rid sg. rid < length (fl_runners fl) \<longrightarrow> \<not> gr_started (runner_of fl rid) \<longrightarrow> sg \<in> set (gr_items (runner_of fl rid)) \<longrightarrow>
          sg_id sg \<notin> en_gen ` set (sc_queue (fl_sched fl)))
     \<and> (\<not> sc_stopped (fl_sched fl) \<longrightarrow> (\<forall>rid sg. served fl rid \<longrightarrow> sg \<in> set (gr_items (runner_of fl rid)) \<longrightarrow>
          (\<exists>e \<in> set (sc_queue (fl_sched fl)). entry_for (fl_now fl) rid sg e)))"

lemma ids_update:
  "rid < length rs \<Longrightarrow> ids (rs[rid := r]) = ids (take rid rs) @ map sg_id (gr_items r) @ ids (drop (Suc rid) rs)"
  by (simp add: ids_def upd_conv_take_nth_drop)

lemma ids_split: "rid < length rs \<Longrightarrow> ids rs = ids (take rid rs) @ map sg_id (gr_items (rs ! rid)) @ ids (drop (Suc rid) rs)"
  using ids_update [of rid rs "rs ! rid"] by simp

lemma distinct_ids_update:
  assumes "rid < length rs" and "distinct (ids rs)" and "distinct (map sg_id (gr_items r))"
    and "sg_id ` set (gr_items r) \<inter> set (ids rs) \<subseteq> sg_id ` set (gr_items (rs ! rid))"
  shows "distinct (ids (rs[rid := r]))"
  using assms(2-4) unfolding ids_update [OF assms(1)] ids_split [OF assms(1)] by auto

lemma set_ids: "set (ids rs) = (\<Union>r \<in> set rs. sg_id ` set (gr_items r))"
  by (simp add: ids_def)

lemma ids_same_runner:
  assumes "distinct (ids rs)" and "i < length rs" and "j < length rs" and "sg \<in> set (gr_items (rs ! i))"
    and "sg' \<in> set (gr_items (rs ! j))" and "sg_id sg = sg_id sg'"
  shows "i = j"
proof (rule ccontr)
  assume "i \<noteq> j"
  then consider "i < j" | "j < i" by linarith
  then show False
  proof cases
    case 1
    have "rs ! j \<in> set (drop (Suc i) rs)" using 1 assms(3) by (auto simp: in_set_conv_nth intro!: exI [of _ "j - Suc i"])
    then have "sg_id sg' \<in> set (ids (drop (Suc i) rs))" using assms(5) by (auto simp: set_ids)
    then show ?thesis using assms(1,4,6) ids_split [OF assms(2)] by auto
  next
    case 2
    have "rs ! i \<in> set (drop (Suc j) rs)" using 2 assms(2) by (auto simp: in_set_conv_nth intro!: exI [of _ "i - Suc j"])
    then have "sg_id sg \<in> set (ids (drop (Suc j) rs))" using assms(4) by (auto simp: set_ids)
    then show ?thesis using assms(1,5,6) ids_split [OF assms(3)] by auto
  qed
qed

lemma fleet_ok_runner: "fleet_ok fl \<Longrightarrow> rid < length (fl_runners fl) \<Longrightarrow> runner_ok (fl_fresh fl) (runner_of fl rid)"
  by (simp add: fleet_ok_def)

lemma fleet_ok_idle:
  "fleet_ok fl \<Longrightarrow> rid < length (fl_runners fl) \<Longrightarrow> \<not> gr_started (runner_of fl rid) \<Longrightarrow> sg \<in> set (gr_items (runner_of fl rid)) \<Longrightarrow>
     sg_id sg \<notin> en_gen ` set (sc_queue (fl_sched fl))"
  by (simp add: fleet_ok_def)

lemma fleet_ok_served:
  "fleet_ok fl \<Longrightarrow> \<not> sc_stopped (fl_sched fl) \<Longrightarrow> served fl rid \<Longrightarrow> sg \<in> set (gr_items (runner_of fl rid)) \<Longrightarrow>
     \<exists>e \<in> set (sc_queue (fl_sched fl)). entry_for (fl_now fl) rid sg e"
  by (simp add: fleet_ok_def)

text \<open>What the steps have in common: one runner changes, keeping a part of its items, perhaps with a new
  state of a generator, and the scheduler stays.\<close>

definition from_items :: "scheduledGen list \<Rightarrow> scheduledGen list \<Rightarrow> bool" where
  "from_items sgs sgs' \<longleftrightarrow> (\<forall>sg \<in> set sgs. \<exists>sg' \<in> set sgs'. sg_id sg' = sg_id sg \<and> sg_interval sg' = sg_interval sg)"

lemma from_items_refl [simp]: "from_items sgs sgs"
  by (auto simp: from_items_def)

lemma entry_for_cong:
  "sg_id sg' = sg_id sg \<Longrightarrow> sg_interval sg' = sg_interval sg \<Longrightarrow> entry_for now rid sg' e = entry_for now rid sg e"
  by (simp add: entry_for_def)

lemma fleet_ok_shrink:
  assumes ok: "fleet_ok fl" and rid: "rid < length (fl_runners fl)" and "runner_ok (fl_fresh fl) r"
    and items: "from_items (gr_items r) (gr_items (runner_of fl rid))" and "distinct (map sg_id (gr_items r))"
    and same: "gr_started r = gr_started (runner_of fl rid)" and stop: "gr_stopped (runner_of fl rid) \<Longrightarrow> gr_stopped r"
  shows "fleet_ok (fl\<lparr>fl_runners := (fl_runners fl)[rid := r]\<rparr>)"
proof -
  let ?fl = "fl\<lparr>fl_runners := (fl_runners fl)[rid := r]\<rparr>"
  have "sg_id ` set (gr_items r) \<subseteq> sg_id ` set (gr_items (runner_of fl rid))" using items unfolding from_items_def by (metis image_eqI image_subsetI)
  then have d: "distinct (ids (fl_runners ?fl))"
    using ok rid assms(5) by (simp, intro distinct_ids_update) (auto simp: fleet_ok_def)
  have r: "\<forall>x \<in> set (fl_runners ?fl). runner_ok (fl_fresh fl) x"
    using ok assms(3) set_update_subset_insert [of "fl_runners fl" rid r] by (auto simp: fleet_ok_def)
  have old: "\<exists>sg' \<in> set (gr_items (runner_of fl i)). sg_id sg' = sg_id sg \<and> sg_interval sg' = sg_interval sg"
    if "sg \<in> set (gr_items (runner_of ?fl i))" "i < length (fl_runners fl)" for i sg
    using that items rid by (cases "i = rid") (auto simp: from_items_def)
  have started: "gr_started (runner_of ?fl i) = gr_started (runner_of fl i)" if "i < length (fl_runners fl)" for i
    using that same rid by (cases "i = rid") auto
  have served: "served fl i" if "served ?fl i" for i
    using that rid same stop by (cases "i = rid") (auto simp: served_def)
  have "sg_id sg \<notin> en_gen ` set (sc_queue (fl_sched fl))"
    if i: "i < length (fl_runners fl)" and ns: "\<not> gr_started (runner_of ?fl i)" and sg: "sg \<in> set (gr_items (runner_of ?fl i))" for i sg
  proof -
    obtain sg' where "sg' \<in> set (gr_items (runner_of fl i))" "sg_id sg' = sg_id sg" using old [OF sg i] by blast
    then show ?thesis using ok i ns started [OF i] unfolding fleet_ok_def by metis
  qed
  moreover have "\<exists>e \<in> set (sc_queue (fl_sched fl)). entry_for (fl_now fl) i sg e"
    if run: "\<not> sc_stopped (fl_sched fl)" and sv: "served ?fl i" and sg: "sg \<in> set (gr_items (runner_of ?fl i))" for i sg
  proof -
    have i: "i < length (fl_runners fl)" using sv by (simp add: served_def)
    obtain sg' where sg': "sg' \<in> set (gr_items (runner_of fl i))" "sg_id sg' = sg_id sg" "sg_interval sg' = sg_interval sg"
      using old [OF sg i] by blast
    then have "\<exists>e \<in> set (sc_queue (fl_sched fl)). entry_for (fl_now fl) i sg' e"
      using ok run served [OF sv] unfolding fleet_ok_def by blast
    then show ?thesis using entry_for_cong [OF sg'(2,3)] by simp
  qed
  ultimately show ?thesis using d r ok by (simp add: fleet_ok_def)
qed

lemma runner_ids_distinct: "fleet_ok fl \<Longrightarrow> rid < length (fl_runners fl) \<Longrightarrow> distinct (map sg_id (gr_items (runner_of fl rid)))"
  using ids_split [of rid "fl_runners fl"] by (auto simp: fleet_ok_def)

lemma set_drop_path: "set (drop_path p sgs) \<subseteq> set sgs"
  by (induction sgs) auto

lemma distinct_drop_path: "distinct (map f sgs) \<Longrightarrow> distinct (map f (drop_path p sgs))"
  using set_drop_path by (induction sgs) fastforce+

lemma drop_path_rest:
  "distinct (map (gen_Path \<circ> sg_gen) sgs) \<Longrightarrow> (gen_Path \<circ> sg_gen) ` set (drop_path p sgs) = (gen_Path \<circ> sg_gen) ` set sgs - {p}"
  by (induction sgs) (auto simp: image_iff)

lemma Remove_ok: "runner_ok fresh r \<Longrightarrow> runner_ok fresh (Remove p r)"
  using set_drop_path [of p "gr_items r"] distinct_drop_path [of "gen_Path \<circ> sg_gen" "gr_items r" p] drop_path_rest [of "gr_items r" p]
  by (auto simp: runner_ok_def Remove_def comp_def)

lemma step_remove:
  assumes "fleet_ok fl" and "rid < length (fl_runners fl)"
  shows "fleet_ok (runner_Remove rid p fl)"
  unfolding runner_Remove_def
proof (rule fleet_ok_shrink [OF assms Remove_ok [OF fleet_ok_runner [OF assms]]])
  show "from_items (gr_items (Remove p (runner_of fl rid))) (gr_items (runner_of fl rid))"
    using set_drop_path [of p "gr_items (runner_of fl rid)"] by (auto simp: from_items_def Remove_def)
  show "distinct (map sg_id (gr_items (Remove p (runner_of fl rid))))"
    using runner_ids_distinct [OF assms] by (simp add: Remove_def distinct_drop_path)
qed (simp_all add: Remove_def)

lemma step_stop:
  assumes "fleet_ok fl" and "rid < length (fl_runners fl)"
  shows "fleet_ok (runner_Stop rid fl)"
  unfolding runner_Stop_def
  using fleet_ok_runner [OF assms] runner_ids_distinct [OF assms]
  by (intro fleet_ok_shrink [OF assms]) (simp_all add: runner_ok_def)

lemma fleet_ok_jobs: "fleet_ok (fl\<lparr>fl_jobs := js\<rparr>) = fleet_ok fl"
  by (simp add: fleet_ok_def served_def)

lemma step_tick:
  assumes "fleet_ok fl" and "tick draw civil rid gid (t, fl) = (t', fl')"
  shows "fleet_ok fl'"
proof (cases "wanted fl rid gid \<and> find (\<lambda>sg. sg_id sg = gid) (gr_items (runner_of fl rid)) \<noteq> None")
  case False
  then show ?thesis using assms by (auto simp: tick_def split: option.splits if_splits)
next
  case True
  then obtain sg where sg: "find (\<lambda>sg. sg_id sg = gid) (gr_items (runner_of fl rid)) = Some sg" by blast
  then have mem: "sg \<in> set (gr_items (runner_of fl rid))" "sg_id sg = gid" by (auto simp: find_Some_iff)
  have rid: "rid < length (fl_runners fl)" using True by (simp add: wanted_def)
  obtain res g' t1 where run: "Tick draw (fl_now fl, civil) (sg_gen sg) t = ((res, g'), t1)" by (metis prod.exhaust)
  then have path: "gen_Path g' = gen_Path (sg_gen sg)" by (rule gen.path_kept)
  let ?r = "runner_of fl rid" and ?f = "\<lambda>x. if sg_id x = gid then x\<lparr>sg_gen := g'\<rparr> else x"
  have one: "x = sg" if "x \<in> set (gr_items ?r)" "sg_id x = gid" for x
    using runner_ids_distinct [OF assms(1) rid] that mem by (auto simp: distinct_map inj_on_def)
  have same: "(gen_Path \<circ> sg_gen) (?f x) = (gen_Path \<circ> sg_gen) x" "sg_id (?f x) = sg_id x" "sg_interval (?f x) = sg_interval x"
    if "x \<in> set (gr_items ?r)" for x using one [OF that] path by auto
  have paths: "map (gen_Path \<circ> sg_gen) (map ?f (gr_items ?r)) = map (gen_Path \<circ> sg_gen) (gr_items ?r)"
    and ids: "map sg_id (map ?f (gr_items ?r)) = map sg_id (gr_items ?r)" using same by simp_all
  define sgs where "sgs = map ?f (gr_items ?r)"
  have "(gen_Path \<circ> sg_gen) ` set sgs = (gen_Path \<circ> sg_gen) ` set (gr_items ?r)"
    using paths unfolding sgs_def by (metis list.set_map)
  moreover have "\<forall>x \<in> set sgs. sg_id x < fl_fresh fl \<and> 0 < sg_interval x"
    using fleet_ok_runner [OF assms(1) rid] same unfolding runner_ok_def sgs_def by auto
  ultimately have ok: "runner_ok (fl_fresh fl) (?r\<lparr>gr_items := sgs\<rparr>)"
    using fleet_ok_runner [OF assms(1) rid] paths [folded sgs_def] unfolding runner_ok_def by simp
  have "from_items sgs (gr_items ?r)" using same by (auto simp: from_items_def sgs_def)
  then have "fleet_ok (fl\<lparr>fl_runners := (fl_runners fl)[rid := ?r\<lparr>gr_items := sgs\<rparr>]\<rparr>)"
    using runner_ids_distinct [OF assms(1) rid] ids [folded sgs_def] by (intro fleet_ok_shrink [OF assms(1) rid ok]) simp_all
  then show ?thesis using assms(2) True sg run by (simp add: tick_def Let_def sgs_def)
qed

lemma runner_ok_mono: "runner_ok fresh r \<Longrightarrow> fresh \<le> fresh' \<Longrightarrow> runner_ok fresh' r"
  by (fastforce simp: runner_ok_def)

lemma sched_add_stopped [simp]: "sc_stopped (sched_add now rid gid iv s) = sc_stopped s"
  by (simp add: sched_add_def Let_def)

lemma sched_add_queue:
  "set (sc_queue (sched_add now rid gid iv s)) =
     (if sc_stopped s then set (sc_queue s)
      else insert \<lparr>en_runner = rid, en_gen = gid, en_interval = iv, en_due = now + iv, en_seq = Suc (sc_seq s)\<rparr> (set (sc_queue s)))"
  by (simp add: sched_add_def Let_def)

lemma queue_ok_add:
  assumes "queue_ok fresh now (sc_queue s)" and "gid \<notin> en_gen ` set (sc_queue s)" and "gid < fresh" and "0 < iv"
  shows "queue_ok fresh now (sc_queue (sched_add now rid gid iv s))"
  using assms by (auto simp: queue_ok_def sched_add_def Let_def in_order_Push distinct_heap_Push)

lemma queue_ok_mono: "queue_ok fresh now q \<Longrightarrow> fresh \<le> fresh' \<Longrightarrow> queue_ok fresh' now' q"
  by (fastforce simp: queue_ok_def)

text \<open>Queueing the generators of one runner.\<close>

lemma queue_all:
  fixes rid :: nat
  assumes "queue_ok fresh now (sc_queue s)" and "distinct (map sg_id sgs)" and "sg_id ` set sgs \<inter> en_gen ` set (sc_queue s) = {}"
    and "\<forall>sg \<in> set sgs. sg_id sg < fresh \<and> 0 < sg_interval sg"
  defines "s' \<equiv> fold (\<lambda>sg. sched_add now rid (sg_id sg) (sg_interval sg)) sgs s"
  shows "queue_ok fresh now (sc_queue s') \<and> sc_stopped s' = sc_stopped s \<and> set (sc_queue s) \<subseteq> set (sc_queue s')
    \<and> en_gen ` set (sc_queue s') \<subseteq> en_gen ` set (sc_queue s) \<union> sg_id ` set sgs
    \<and> (\<not> sc_stopped s \<longrightarrow> (\<forall>sg \<in> set sgs. \<exists>e \<in> set (sc_queue s'). entry_for now rid sg e))"
  using assms(1-4) unfolding s'_def
proof (induction sgs arbitrary: s)
  case (Cons sg sgs)
  let ?s = "sched_add now rid (sg_id sg) (sg_interval sg) s"
  have ok: "queue_ok fresh now (sc_queue ?s)" using Cons.prems by (intro queue_ok_add) auto
  have gens: "en_gen ` set (sc_queue ?s) \<subseteq> insert (sg_id sg) (en_gen ` set (sc_queue s))"
    and keep: "set (sc_queue s) \<subseteq> set (sc_queue ?s)" by (auto simp: sched_add_queue)
  have "sg_id ` set sgs \<inter> insert (sg_id sg) (en_gen ` set (sc_queue s)) = {}" using Cons.prems(2,3) by auto
  then have "sg_id ` set sgs \<inter> en_gen ` set (sc_queue ?s) = {}" using gens by blast
  from Cons.IH [OF ok _ this] Cons.prems(2,4)
  have ih: "queue_ok fresh now (sc_queue (fold (\<lambda>sg. sched_add now rid (sg_id sg) (sg_interval sg)) sgs ?s))"
    "sc_stopped (fold (\<lambda>sg. sched_add now rid (sg_id sg) (sg_interval sg)) sgs ?s) = sc_stopped s"
    "set (sc_queue ?s) \<subseteq> set (sc_queue (fold (\<lambda>sg. sched_add now rid (sg_id sg) (sg_interval sg)) sgs ?s))"
    "en_gen ` set (sc_queue (fold (\<lambda>sg. sched_add now rid (sg_id sg) (sg_interval sg)) sgs ?s))
       \<subseteq> en_gen ` set (sc_queue ?s) \<union> sg_id ` set sgs"
    "\<not> sc_stopped s \<Longrightarrow> \<forall>sg' \<in> set sgs. \<exists>e \<in> set (sc_queue (fold (\<lambda>sg. sched_add now rid (sg_id sg) (sg_interval sg)) sgs ?s)). entry_for now rid sg' e"
    by simp_all
  have "\<exists>e \<in> set (sc_queue ?s). entry_for now rid sg e" if "\<not> sc_stopped s"
    using that by (auto simp: sched_add_queue entry_for_def)
  then show ?case using ih keep gens by (simp add: subset_iff) blast
qed simp

lemma step_add:
  assumes ok: "fleet_ok fl" and rid: "rid < length (fl_runners fl)"
  shows "fleet_ok (snd (Add rid g iv fl))"
proof (cases "register (fl_fresh fl) g iv (runner_of fl rid)")
  case (Pair res r)
  show ?thesis
  proof (cases res)
    case (Inl e)
    then show ?thesis using Pair ok by (simp add: Add_def)
  next
    case (Inr started)
    let ?f = "fl_fresh fl" and ?o = "runner_of fl rid" and ?rs = "(fl_runners fl)[rid := r]"
    obtain gen where gen: "g = Some gen" "0 < iv" "\<not> gr_stopped ?o" "gen_Path gen \<notin> set (gr_byPath ?o)" "started = gr_started ?o"
      "r = ?o\<lparr>gr_byPath := gen_Path gen # gr_byPath ?o, gr_items := gr_items ?o @ [\<lparr>sg_id = ?f, sg_gen = gen, sg_interval = iv\<rparr>]\<rparr>"
      using Pair Inr by (auto simp: register_def split: option.splits if_splits)
    define s where "s = (if started then sched_add (fl_now fl) rid ?f iv (fl_sched fl) else fl_sched fl)"
    have fl': "snd (Add rid g iv fl) = fl\<lparr>fl_fresh := Suc ?f, fl_runners := ?rs, fl_sched := s\<rparr>"
      using Pair Inr by (simp add: Add_def s_def)
    note old = fleet_ok_runner [OF ok]
    have less: "sg_id sg < ?f" if "sg \<in> set (gr_items (runner_of fl i))" "i < length (fl_runners fl)" for sg i
      using old [OF that(2)] that(1) by (simp add: runner_ok_def)
    have q: "queue_ok ?f (fl_now fl) (sc_queue (fl_sched fl))" and fq: "?f \<notin> en_gen ` set (sc_queue (fl_sched fl))"
      using ok by (auto simp: fleet_ok_def queue_ok_def)
    have rok: "runner_ok (Suc ?f) r"
      using runner_ok_mono [OF old [OF rid], of "Suc ?f"] gen by (auto simp: runner_ok_def)
    have "?f \<notin> set (ids (fl_runners fl))" using less by (force simp: set_ids in_set_conv_nth)
    moreover have "?f \<notin> sg_id ` set (gr_items ?o)" using less [OF _ rid] by fastforce
    ultimately have d: "distinct (ids ?rs)"
      using ok runner_ids_distinct [OF ok rid] gen(6) by (intro distinct_ids_update [OF rid]) (auto simp: fleet_ok_def)
    have rs: "\<forall>x \<in> set ?rs. runner_ok (Suc ?f) x"
      using ok rok set_update_subset_insert [of "fl_runners fl" rid r] runner_ok_mono [of ?f _ "Suc ?f"] by (fastforce simp: fleet_ok_def)
    have qs: "queue_ok (Suc ?f) (fl_now fl) (sc_queue s)"
      using queue_ok_mono [OF q, of "Suc ?f"] fq gen(2) by (auto simp: s_def intro: queue_ok_add)
    have gens: "en_gen ` set (sc_queue s) \<subseteq> (if started then {?f} else {}) \<union> en_gen ` set (sc_queue (fl_sched fl))"
      and keep: "set (sc_queue (fl_sched fl)) \<subseteq> set (sc_queue s)" and st: "sc_stopped s = sc_stopped (fl_sched fl)"
      by (auto simp: s_def sched_add_queue)
    have "sg_id sg \<notin> en_gen ` set (sc_queue s)"
      if i: "i < length (fl_runners fl)" and ns: "\<not> gr_started (?rs ! i)" and sg: "sg \<in> set (gr_items (?rs ! i))" for i sg
    proof (cases "i = rid \<and> sg_id sg = ?f")
      case True
      then show ?thesis using ns gen gens fq rid by auto
    next
      case False
      then have "sg \<in> set (gr_items (runner_of fl i))" "\<not> gr_started (runner_of fl i)"
        using sg ns gen rid by (cases "i = rid"; auto)+
      then have "sg_id sg \<notin> en_gen ` set (sc_queue (fl_sched fl))" "sg_id sg \<noteq> ?f"
        using fleet_ok_idle [OF ok i] less [OF _ i, of sg] by auto
      then show ?thesis using gens by (cases started) auto
    qed
    moreover have "\<exists>e \<in> set (sc_queue s). entry_for (fl_now fl) i sg e"
      if run: "\<not> sc_stopped s" and i: "i < length (fl_runners fl)" and sv: "gr_started (?rs ! i)" "\<not> gr_stopped (?rs ! i)"
        and sg: "sg \<in> set (gr_items (?rs ! i))" for i sg
    proof (cases "i = rid \<and> sg = \<lparr>sg_id = ?f, sg_gen = gen, sg_interval = iv\<rparr>")
      case True
      then show ?thesis using run st sv gen rid by (auto simp: s_def sched_add_queue entry_for_def)
    next
      case False
      then have "sg \<in> set (gr_items (runner_of fl i))" "served fl i"
        using sg sv i gen rid by (cases "i = rid"; auto simp: served_def)+
      then show ?thesis using fleet_ok_served [OF ok] keep run st by blast
    qed
    ultimately show ?thesis unfolding fl' using d rs qs by (simp add: fleet_ok_def served_def)
  qed
qed

lemma step_start:
  assumes ok: "fleet_ok fl" and rid: "rid < length (fl_runners fl)"
  shows "fleet_ok (snd (runner_Start rid fl))"
proof (cases "gr_stopped (runner_of fl rid) \<or> gr_started (runner_of fl rid)")
  case True
  then show ?thesis using ok by (auto simp: runner_Start_def Let_def)
next
  case False
  let ?o = "runner_of fl rid" and ?rs = "(fl_runners fl)[rid := (runner_of fl rid)\<lparr>gr_started := True\<rparr>]"
  define s where "s = fold (\<lambda>sg. sched_add (fl_now fl) rid (sg_id sg) (sg_interval sg)) (gr_items ?o) (fl_sched fl)"
  have fl': "snd (runner_Start rid fl) = fl\<lparr>fl_runners := ?rs, fl_sched := s\<rparr>"
    using False by (simp add: runner_Start_def queue_items_def s_def Let_def)
  have q: "queue_ok (fl_fresh fl) (fl_now fl) (sc_queue (fl_sched fl))" using ok by (simp add: fleet_ok_def)
  have out: "sg_id ` set (gr_items ?o) \<inter> en_gen ` set (sc_queue (fl_sched fl)) = {}"
    using fleet_ok_idle [OF ok rid] False by blast
  have "\<forall>sg \<in> set (gr_items ?o). sg_id sg < fl_fresh fl \<and> 0 < sg_interval sg"
    using fleet_ok_runner [OF ok rid] by (simp add: runner_ok_def)
  note all = queue_all [OF q runner_ids_distinct [OF ok rid] out this, of rid, folded s_def]
  have rs: "\<forall>x \<in> set ?rs. runner_ok (fl_fresh fl) x"
    using ok fleet_ok_runner [OF ok rid] set_update_subset_insert [of "fl_runners fl" rid "?o\<lparr>gr_started := True\<rparr>"]
    by (auto simp: fleet_ok_def runner_ok_def)
  have items: "gr_items (?rs ! i) = gr_items (runner_of fl i)" if "i < length (fl_runners fl)" for i
    using that rid by (cases "i = rid") auto
  have d: "distinct (ids ?rs)" using ok ids_split [OF rid] by (simp add: ids_update [OF rid] fleet_ok_def)
  have "sg_id sg \<notin> en_gen ` set (sc_queue s)"
    if i: "i < length (fl_runners fl)" and ns: "\<not> gr_started (?rs ! i)" and sg: "sg \<in> set (gr_items (?rs ! i))" for i sg
  proof -
    have ne: "i \<noteq> rid" using ns rid by auto
    then have sg': "sg \<in> set (gr_items (runner_of fl i))" "\<not> gr_started (runner_of fl i)" using sg ns rid by auto
    have "sg_id sg \<notin> sg_id ` set (gr_items ?o)"
      using ids_same_runner [OF _ i rid sg'(1)] ok ne by (auto simp: fleet_ok_def)
    then show ?thesis using fleet_ok_idle [OF ok i sg'(2,1)] all by blast
  qed
  moreover have "\<exists>e \<in> set (sc_queue s). entry_for (fl_now fl) i sg e"
    if run: "\<not> sc_stopped s" and i: "i < length (fl_runners fl)" and sv: "gr_started (?rs ! i)" "\<not> gr_stopped (?rs ! i)"
      and sg: "sg \<in> set (gr_items (?rs ! i))" for i sg
  proof (cases "i = rid")
    case True
    then show ?thesis using all run sg items [OF i] by auto
  next
    case False
    then have "served fl i" "sg \<in> set (gr_items (runner_of fl i))" using sv i sg rid by (auto simp: served_def)
    moreover have "\<not> sc_stopped (fl_sched fl)" "set (sc_queue (fl_sched fl)) \<subseteq> set (sc_queue s)" using all run by simp_all
    ultimately show ?thesis using fleet_ok_served [OF ok] by blast
  qed
  ultimately show ?thesis unfolding fl' using d rs all by (simp add: fleet_ok_def served_def)
qed

lemma step_round:
  assumes ok: "fleet_ok fl" and round: "run_round fl = Some (delay, fl')"
  shows "fleet_ok fl'"
proof -
  let ?q = "sc_queue (fl_sched fl)" and ?now = "fl_now fl"
  have q: "queue_ok (fl_fresh fl) ?now ?q" using ok by (simp add: fleet_ok_def)
  then have o: "in_order ?q" "\<forall>e \<in> set ?q. 0 < en_interval e" by (simp_all add: queue_ok_def)
  obtain jobs q' where fl': "fl' = fl\<lparr>fl_sched := (fl_sched fl)\<lparr>sc_queue := q', sc_wake := False\<rparr>, fl_jobs := jobs\<rparr>"
    and ord: "in_order q'" and set: "set q' = {e \<in> set ?q. \<not> due_now ?now e}
      \<union> rearm ?now ` {e \<in> set ?q. due_now ?now e \<and> wanted fl (en_runner e) (en_gen e)}"
    by (rule run_round_exact [OF o]) (use round in auto)
  obtain ready q'' where c: "collect_due (Suc (length ?q)) (wanted fl) ?now ?q = Some (ready, q'')" "sc_queue (fl_sched fl') = q''"
    using round by (auto simp: run_round_def Let_def split: option.splits prod.splits)
  have "distinct (map en_gen q')"
    using collect_due_distinct [OF c(1)] c(2) fl' q by (simp add: queue_ok_def)
  moreover have keys: "\<exists>x \<in> set ?q. en_gen x = en_gen e \<and> en_interval x = en_interval e" if "e \<in> set q'" for e
    using that unfolding set by (auto simp: rearm_def)
  ultimately have qok: "queue_ok (fl_fresh fl) ?now q'" using q ord unfolding queue_ok_def by metis
  have gens: "en_gen ` set q' \<subseteq> en_gen ` set ?q" using keys by (metis image_eqI image_subsetI)
  have "\<exists>e \<in> set q'. entry_for ?now i sg e"
    if run: "\<not> sc_stopped (fl_sched fl)" and sv: "served fl i" and sg: "sg \<in> set (gr_items (runner_of fl i))" for i sg
  proof -
    obtain e where e: "e \<in> set ?q" "entry_for ?now i sg e" using fleet_ok_served [OF ok run sv sg] by blast
    show ?thesis
    proof (cases "due_now ?now e")
      case True
      have "wanted fl (en_runner e) (en_gen e)" using e(2) sv sg by (auto simp: entry_for_def wanted_def gen_wants_def served_def)
      then have "rearm ?now e \<in> set q'" using True e(1) set by blast
      moreover have "entry_for ?now i sg (rearm ?now e)" using e(2) by (simp add: entry_for_def rearm_def)
      ultimately show ?thesis by blast
    next
      case False
      then show ?thesis using e set by blast
    qed
  qed
  moreover have "sg_id sg \<notin> en_gen ` set q'"
    if "i < length (fl_runners fl)" "\<not> gr_started (runner_of fl i)" "sg \<in> set (gr_items (runner_of fl i))" for i sg
    using fleet_ok_idle [OF ok that] gens by blast
  ultimately show ?thesis using ok qok unfolding fl' fleet_ok_def by (simp add: served_def)
qed

lemma step_ok: "fleet_step fl fl' \<Longrightarrow> fleet_ok fl \<Longrightarrow> fleet_ok fl'"
proof (induction rule: fleet_step.induct)
  case (new_runner fl)
  let ?fl = "fl\<lparr>fl_runners := fl_runners fl @ [NewGenRunner]\<rparr>"
  have "served fl i \<and> runner_of ?fl i = runner_of fl i" if "served ?fl i" for i
    using that by (cases "i = length (fl_runners fl)") (auto simp: served_def NewGenRunner_def nth_append)
  moreover have "runner_ok (fl_fresh fl) NewGenRunner" "ids (fl_runners fl @ [NewGenRunner]) = ids (fl_runners fl)"
    by (simp_all add: runner_ok_def NewGenRunner_def ids_def)
  moreover have "sg_id sg \<notin> en_gen ` set (sc_queue (fl_sched fl))"
    if "i < length (fl_runners ?fl)" "\<not> gr_started (runner_of ?fl i)" "sg \<in> set (gr_items (runner_of ?fl i))" for i sg
    using that fleet_ok_idle [OF new_runner, of i sg] by (cases "i < length (fl_runners fl)") (auto simp: NewGenRunner_def nth_append less_Suc_eq)
  ultimately show ?case using new_runner by (simp add: fleet_ok_def)
next
  case (add rid fl cfg)
  then show ?case using step_add [OF add(2,1)]
    by (simp add: AddConfig_def split: sum.splits prod.splits) (metis snd_conv)
next
  case (sched_start fl)
  then show ?case by (auto simp: fleet_ok_def sched_Start_def served_def)
next
  case (sched_stop fl)
  then show ?case by (auto simp: fleet_ok_def sched_Stop_def served_def)
next
  case (time fl now)
  have "entry_for now rid sg e" if "entry_for (fl_now fl) rid sg e" for rid sg e
    using that time(1) by (auto simp: entry_for_def)
  then show ?case using time unfolding fleet_ok_def by (auto simp: served_def queue_ok_def) blast
next
  case (work draw civil t fl t' fl')
  show ?case
  proof (cases "fl_jobs fl")
    case (Cons e es)
    have "fleet_ok (fl\<lparr>fl_jobs := es\<rparr>)" using work(2) by (simp add: fleet_ok_jobs)
    from step_tick [OF this] work(1) Cons show ?thesis by (simp add: gen_worker_def)
  qed (use work in \<open>simp add: gen_worker_def\<close>)
qed (simp_all add: step_remove step_start step_stop step_round)

lemma steps_ok: "fleet_step\<^sup>*\<^sup>* fl fl' \<Longrightarrow> fleet_ok fl \<Longrightarrow> fleet_ok fl'"
  by (induction rule: rtranclp_induct) (auto intro: step_ok)

lemma NewFleet_ok: "fleet_ok (NewFleet now)"
  by (simp add: fleet_ok_def NewFleet_def ids_def queue_ok_def in_order_def served_def)

section \<open>Properties\<close>


text \<open>C30: Every round of the timing loop ends and hands the workers exactly the entries that are due and
  still wanted, once each and in the order of their due time; it drops the due entries of generators
  that were removed or stopped, arms the others one interval from now, and what is left lies in the
  future, so that the loop waits for a positive time.\<close>

theorem round_fires_exactly_due:
  assumes "fleet_step\<^sup>*\<^sup>* (NewFleet start) fl"
  shows "\<exists>delay fl'. run_round fl = Some (delay, fl')
    \<and> fl_jobs fl' = fl_jobs fl @ map (rearm (fl_now fl))
        (filter (\<lambda>e. due_now (fl_now fl) e \<and> wanted fl (en_runner e) (en_gen e)) (sc_queue (fl_sched fl)))
    \<and> set (sc_queue (fl_sched fl')) = {e \<in> set (sc_queue (fl_sched fl)). \<not> due_now (fl_now fl) e}
        \<union> rearm (fl_now fl) ` {e \<in> set (sc_queue (fl_sched fl)). due_now (fl_now fl) e \<and> wanted fl (en_runner e) (en_gen e)}
    \<and> (\<forall>d. delay = Some d \<longrightarrow> 0 < d)"
proof -
  have "fleet_ok fl" by (rule steps_ok [OF assms NewFleet_ok])
  then have o: "in_order (sc_queue (fl_sched fl))" "\<forall>e \<in> set (sc_queue (fl_sched fl)). 0 < en_interval e"
    by (simp_all add: fleet_ok_def queue_ok_def)
  show ?thesis
  proof (rule run_round_exact [OF o], goal_cases)
    case (1 delay q')
    have "0 < en_due e - fl_now fl" if "e \<in> set q'" for e
      using that o(2) unfolding 1(3) by (auto simp: due_now_def rearm_def)
    then have "\<forall>d. delay = Some d \<longrightarrow> 0 < d" unfolding 1(4) by (cases q') auto
    then show ?case using 1(3) unfolding 1(1) by simp
  qed
qed

section \<open>Witnesses\<close>

definition uptime_config :: GeneratorConfig where
  "uptime_config = \<lparr>gc_Path = ''C'', gc_Type = ''uptime'', gc_Interval = 5, gc_Counter = None, gc_Drift = None, gc_Enum = None\<rparr>"

definition one_cpe :: Fleet where
  "one_cpe = snd (runner_Start 0 (snd (AddConfig 0 uptime_config ((NewFleet 0)\<lparr>fl_runners := [NewGenRunner]\<rparr>))))"

lemmas fleet_eval = one_cpe_def runner_Start_def AddConfig_def Add_def register_def FromConfig_def NewTimestamp_def uptime_config_def
  NewFleet_def NewGenRunner_def queue_items_def sched_add_def

lemma one_cpe_reached: "fleet_step\<^sup>*\<^sup>* (NewFleet 0) one_cpe"
proof -
  let ?a = "(NewFleet 0)\<lparr>fl_runners := [NewGenRunner]\<rparr>"
  let ?b = "snd (AddConfig 0 uptime_config ?a)"
  have "fleet_step (NewFleet 0) ?a" using new_runner [of "NewFleet 0"] by (simp add: NewFleet_def)
  moreover have "fleet_step ?a ?b" by (rule add) simp
  moreover have "fleet_step ?b one_cpe" unfolding one_cpe_def by (rule start) (simp add: fleet_eval)
  ultimately show ?thesis by (blast intro: r_into_rtranclp rtranclp.rtrancl_into_rtrancl)
qed


theorem round_fires_exactly_due_witness:
  "\<exists>delay fl'. run_round (one_cpe\<lparr>fl_now := 7\<rparr>) = Some (delay, fl') \<and> map en_due (fl_jobs fl') = [12]"
proof -
  have "fleet_step one_cpe (one_cpe\<lparr>fl_now := 7\<rparr>)" by (rule time) (simp add: fleet_eval)
  with one_cpe_reached have "fleet_step\<^sup>*\<^sup>* (NewFleet 0) (one_cpe\<lparr>fl_now := 7\<rparr>)" by (rule rtranclp.rtrancl_into_rtrancl)
  from round_fires_exactly_due [OF this] show ?thesis
    by (auto simp: fleet_eval due_now_def rearm_def wanted_def gen_wants_def)
qed

end
