(* ===== verification/ParamFrames.thy ===== *)
theory ParamFrames
  imports ParamReach ParamRows
begin

text \<open>
  What an operation of the tree leaves alone, for clients that mix writes, table rows and grafts.  The
  shape of a node is everything but the text of its value: a write keeps the shape everywhere, a new or
  deleted row and its entry counter everywhere outside the row, a graft or unmount everywhere outside the
  grafted nodes.
\<close>

section \<open>Shapes and frames\<close>

definition shape_at :: "string list \<Rightarrow> Node \<Rightarrow> (Value option \<times> Attributes option \<times> Node option) option" where
  "shape_at q r = map_option (\<lambda>(l, a, t). (map_option (\<lambda>v. v\<lparr>Raw := ''''\<rparr>) l, a, t)) (obs_at q r)"

text \<open>Two data models agree outside a set of paths, and have the same shape outside another.\<close>

definition frame :: "string list set \<Rightarrow> string list set \<Rightarrow> Node \<Rightarrow> Node \<Rightarrow> bool" where
  "frame T S r r' \<longleftrightarrow> (\<forall>q. q \<notin> T \<longrightarrow> obs_at q r' = obs_at q r) \<and> (\<forall>q. q \<notin> S \<longrightarrow> shape_at q r' = shape_at q r)"

definition below :: "string list \<Rightarrow> string list set" where
  "below p = {q. prefix p q}"

lemma below_iff [simp]: "q \<in> below p \<longleftrightarrow> prefix p q"
  by (simp add: below_def)

lemma shape_cong: "obs_at q r' = obs_at q r \<Longrightarrow> shape_at q r' = shape_at q r"
  by (simp add: shape_at_def)

lemma frame_refl [simp]: "frame T S r r"
  by (simp add: frame_def)

lemma frame_trans: "frame T S r r' \<Longrightarrow> frame T S r' r'' \<Longrightarrow> frame T S r r''"
  by (simp add: frame_def)

lemma frame_mono: "frame T S r r' \<Longrightarrow> T \<subseteq> T' \<Longrightarrow> S \<subseteq> S' \<Longrightarrow> frame T' S' r r'"
  by (auto simp: frame_def)

lemma frame_obs: "frame T S r r' \<Longrightarrow> q \<notin> T \<Longrightarrow> obs_at q r' = obs_at q r"
  by (simp add: frame_def)

lemma frame_shape: "frame T S r r' \<Longrightarrow> q \<notin> S \<Longrightarrow> shape_at q r' = shape_at q r"
  by (simp add: frame_def)

lemma frame_leaf: "frame T S r r' \<Longrightarrow> q \<notin> T \<Longrightarrow> leaf_at r' q = leaf_at r q"
  by (simp add: frame_def leaf_at_obs)

lemma shape_leaf:
  "map_option (\<lambda>v. v\<lparr>Raw := ''''\<rparr>) (leaf_at r q) = (case shape_at q r of None \<Rightarrow> None | Some (l, _) \<Rightarrow> l)"
  by (simp add: shape_at_def leaf_at_obs split: option.split prod.split)

lemma shape_None [simp]: "shape_at q r = None \<longleftrightarrow> obs_at q r = None"
  by (simp add: shape_at_def)

lemma shape_table:
  "shape_at q r = shape_at q r' \<Longrightarrow>
     (\<exists>a. obs_at q r = Some (None, a, tb)) \<longleftrightarrow> (\<exists>a. obs_at q r' = Some (None, a, tb))"
  by (cases "obs_at q r"; cases "obs_at q r'") (auto simp: shape_at_def split: prod.splits)

lemma frame_exists: "frame T S r r' \<Longrightarrow> q \<notin> S \<Longrightarrow> obs_at q r' = None \<longleftrightarrow> obs_at q r = None"
  using frame_shape [of T S r r' q] by (metis shape_None)

lemma frame_table:
  "frame T S r r' \<Longrightarrow> q \<notin> S \<Longrightarrow> (\<exists>a. obs_at q r' = Some (None, a, tb)) \<longleftrightarrow> (\<exists>a. obs_at q r = Some (None, a, tb))"
  using frame_shape [of T S r r' q] shape_table [of q r' r tb] by metis

section \<open>Writes\<close>

lemma shape_put_leaf: "leaf_at r p = Some old \<Longrightarrow> shape_at q (put_leaf p (old\<lparr>Raw := raw\<rparr>) r) = shape_at q r"
proof (cases "q = p")
  case True
  assume l: "leaf_at r p = Some old"
  then obtain m where m: "node_at p r = Some m" "leaf m = Some old" by (auto simp: leaf_at_node)
  then have "node_at p (put_leaf p (old\<lparr>Raw := raw\<rparr>) r) = Some (set_leaf (Some (old\<lparr>Raw := raw\<rparr>)) m)"
    using l by (simp add: put_leaf_def node_at_update_at)
  then show ?thesis using True m by (simp add: shape_at_def obs_at_def)
qed (simp add: shape_at_def obs_at_put_leaf)

lemma frame_put_leaf: "leaf_at r p = Some old \<Longrightarrow> frame {p} {} r (put_leaf p (old\<lparr>Raw := raw\<rparr>) r)"
  by (simp add: frame_def obs_at_put_leaf shape_put_leaf)

lemma frame_SetSystem: "frame {q. parsePath p = Inr q} {} (root t) (root (snd (SetSystem p raw t)))"
proof (cases "SetSystem p raw t")
  case (Pair res t')
  show ?thesis
  proof (cases res)
    case (Inl e)
    then have "t' = t" using Pair write_fails_same(2) by blast
    then show ?thesis using Pair by simp
  next
    case (Inr u)
    then obtain segs old where "parsePath p = Inr segs" "leaf_at (root t) segs = Some old"
      "root t' = put_leaf segs (old\<lparr>Raw := raw\<rparr>) (root t)" using Pair by (auto simp: SetSystem_Inr)
    then show ?thesis using Pair frame_put_leaf by (auto intro: frame_mono)
  qed
qed

lemma frame_write_counter: "frame {counter_path segs} {} r (write_counter segs k r)"
  using frame_put_leaf [of r "counter_path segs"] by (auto simp: write_counter_def split: option.split)

section \<open>Rows\<close>

lemma obs_at_del_child:
  "\<not> isLeaf m \<Longrightarrow> obs_at r (del_child k m) = (case r of x # xs \<Rightarrow> if x = k then None else obs_at r m | [] \<Rightarrow> obs_at r m)"
  by (cases r) (auto simp: obs_at_def del_child_def split: option.split)

lemma frame_replace:
  assumes "node_at segs r = Some n" and "\<And>q. q \<notin> below [k] \<Longrightarrow> obs_at q n' = obs_at q n"
  shows "frame (below (segs @ [k])) (below (segs @ [k])) r (update_at segs (\<lambda>_. n') r)"
proof -
  have at: "node_at segs (update_at segs (\<lambda>_. n') r) = Some n'" using assms(1) by (simp add: node_at_update_at)
  have "obs_at q (update_at segs (\<lambda>_. n') r) = obs_at q r" if "\<not> prefix (segs @ [k]) q" for q
  proof (cases "prefix segs q")
    case True
    then obtain x where x: "q = segs @ x" by (auto simp: prefix_def)
    then have "x \<notin> below [k]" using that by auto
    then show ?thesis using assms(2) obs_at_append [OF at] obs_at_append [OF assms(1)] x by simp
  qed (simp add: obs_at_outside)
  then show ?thesis by (auto simp: frame_def intro: shape_cong)
qed

lemma frame_table_root:
  assumes "node_at segs r = Some n" and "\<And>q. q \<notin> below [k] \<Longrightarrow> obs_at q n' = obs_at q n"
  shows "frame (below (segs @ [k]) \<union> {counter_path segs}) (below (segs @ [k])) r (table_root segs n' r)"
proof -
  have "frame (below (segs @ [k]) \<union> {counter_path segs}) (below (segs @ [k])) r (update_at segs (\<lambda>_. n') r)"
    by (rule frame_mono [OF frame_replace [OF assms]]) auto
  moreover have "frame (below (segs @ [k]) \<union> {counter_path segs}) (below (segs @ [k])) (update_at segs (\<lambda>_. n') r)
      (write_counter segs j (update_at segs (\<lambda>_. n') r))" for j
    by (rule frame_mono [OF frame_write_counter]) auto
  ultimately show ?thesis by (auto simp: table_root_def Let_def intro: frame_trans)
qed

lemma frame_AddObject:
  assumes "AddObject p t = (Inr i, t')" and "parsePath p = Inr segs" and "wf_node (root t)"
  shows "frame (below (segs @ [Itoa i]) \<union> {counter_path segs}) (below (segs @ [Itoa i])) (root t) (root t')"
proof -
  from AddObject_Inr [OF assms(1)] assms(2) obtain n template where n: "node_at segs (root t) = Some n" "table n = Some template"
    and t': "root t' = table_root segs (set_child (Itoa i) (clone template) n) (root t)" by auto
  have nl: "\<not> isLeaf n" using wf_node_at [OF assms(3) n(1)] n(2) by (auto simp: wf_node_iff [of n])
  have "obs_at q (set_child (Itoa i) (clone template) n) = obs_at q n" if "q \<notin> below [Itoa i]" for q
    using that nl by (cases q) (auto simp: obs_at_set_child)
  from frame_table_root [OF n(1) this] t' show ?thesis by simp
qed

lemma frame_DeleteObject:
  assumes "parsePath p = Inr (segs @ [k])" and "wf_node (root t)"
  shows "frame (below (segs @ [k]) \<union> {counter_path segs}) (below (segs @ [k])) (root t) (root (snd (DeleteObject p t)))"
proof (cases "fst (DeleteObject p t)")
  case (Inl e)
  then have "snd (DeleteObject p t) = t" using DeleteObject_fails_same by (metis prod.collapse)
  then show ?thesis by simp
next
  case (Inr u)
  then have d: "DeleteObject p t = (Inr (), snd (DeleteObject p t))" by (simp add: prod_eq_iff)
  from DeleteObject_Inr [OF d] assms(1) obtain n where n: "node_at segs (root t) = Some n" "table n \<noteq> None"
    and t': "root (snd (DeleteObject p t)) = table_root segs (del_child k n) (root t)" by auto
  have nl: "\<not> isLeaf n" using wf_node_at [OF assms(2) n(1)] n(2) by (auto simp: wf_node_iff [of n])
  have "obs_at q (del_child k n) = obs_at q n" if "q \<notin> below [k]" for q
    using that nl by (cases q) (auto simp: obs_at_del_child)
  from frame_table_root [OF n(1) this] t' show ?thesis by simp
qed

text \<open>A row that is there is deleted, and then its counter is honest and nothing is left below it.\<close>

lemma DeleteObject_row:
  assumes "parsePath p = Inr (segs @ [k])" and "segs \<noteq> []" and "instance_of k \<noteq> None" and "wf_node (root t)"
    and "obs_at segs (root t) = Some (None, a, Some tmpl)" and "obs_at (segs @ [k]) (root t) \<noteq> None"
  shows "counter_honest segs (root (snd (DeleteObject p t)))" and "q \<in> below (segs @ [k]) \<Longrightarrow> obs_at q (root (snd (DeleteObject p t))) = None"
proof -
  from assms(5) obtain n where n: "node_at segs (root t) = Some n" "\<not> isLeaf n" "table n = Some tmpl" by (auto simp: obs_at_branch)
  have "map_of (children n) k \<noteq> None" using assms(6) n by (auto simp: obs_at_def node_at_append split: option.splits)
  then have "fst (DeleteObject p t) = Inr ()" using n DeleteObject_ok [OF assms(1,3) n(1)] by simp
  then have d: "DeleteObject p t = (Inr (), snd (DeleteObject p t))" by (simp add: prod_eq_iff)
  from DeleteObject_Inr [OF d] assms(1) n(1) have t': "root (snd (DeleteObject p t)) = table_root segs (del_child k n) (root t)" by auto
  then show "counter_honest segs (root (snd (DeleteObject p t)))"
    using n assms(2) by (auto simp: table_root_def Let_def node_at_update_at intro!: write_counter_honest)
  have "obs_at (segs @ [k]) (root (snd (DeleteObject p t))) = None"
    using t' table_root_node [OF n(1), of "del_child k n"] by (simp add: obs_at_def node_at_append)
  then show "q \<in> below (segs @ [k]) \<Longrightarrow> obs_at q (root (snd (DeleteObject p t))) = None"
    by (auto intro: obs_at_prefix_None)
qed

section \<open>Counters\<close>

lemma used_instances_card:
  assumes "distinct (map fst (children n))"
  shows "length (used_instances n) = card {k. map_of (children n) k \<noteq> None \<and> instance_of k \<noteq> None}"
proof -
  have "length (used_instances n) = length (filter (\<lambda>k. instance_of k \<noteq> None) (map fst (children n)))"
    by (simp add: used_instances_def List.map_filter_def filter_map comp_def case_prod_unfold)
  also have "\<dots> = card (set (filter (\<lambda>k. instance_of k \<noteq> None) (map fst (children n))))"
    using assms by (metis distinct_card distinct_filter)
  also have "set (filter (\<lambda>k. instance_of k \<noteq> None) (map fst (children n))) = {k. map_of (children n) k \<noteq> None \<and> instance_of k \<noteq> None}"
    by (auto simp: map_of_eq_None_iff)
  finally show ?thesis .
qed

lemma child_exists: "node_at segs r = Some n \<Longrightarrow> \<not> isLeaf n \<Longrightarrow> map_of (children n) k \<noteq> None \<longleftrightarrow> obs_at (segs @ [k]) r \<noteq> None"
  by (auto simp: obs_at_def node_at_append split: option.splits)

text \<open>Two data models with honest counters and the same rows have the same entry count.\<close>

lemma honest_counters_agree:
  assumes "wf_node r" and "wf_node r'" and "counter_honest segs r" and "counter_honest segs r'"
    and "obs_at segs r = Some (None, a, Some tb)" and same: "\<And>q. shape_at q r' = shape_at q r"
  shows "leaf_at r' (counter_path segs) = leaf_at r (counter_path segs)"
proof -
  from assms(5) obtain n where n: "node_at segs r = Some n" "\<not> isLeaf n" by (auto simp: obs_at_branch)
  from assms(5) same [of segs] obtain a' where "obs_at segs r' = Some (None, a', Some tb)"
    using shape_table [of segs r' r "Some tb"] by metis
  then obtain n' where n': "node_at segs r' = Some n'" "\<not> isLeaf n'" by (auto simp: obs_at_branch)
  have "map_of (children n') k \<noteq> None \<longleftrightarrow> map_of (children n) k \<noteq> None" for k
    using child_exists [OF n] child_exists [OF n'] same [of "segs @ [k]"] by (metis shape_None)
  then have "length (used_instances n') = length (used_instances n)"
    using wf_node_at [OF assms(1) n(1)] wf_node_at [OF assms(2) n'(1)]
    by (simp add: used_instances_card wf_node_iff [of n] wf_node_iff [of n'])
  then have raw: "Raw v' = Raw v" if "leaf_at r' (counter_path segs) = Some v'" "leaf_at r (counter_path segs) = Some v" for v v'
    using that assms(3,4) n n' by (simp add: counter_honest_def)
  have eq: "map_option (\<lambda>v. v\<lparr>Raw := ''''\<rparr>) (leaf_at r' (counter_path segs)) = map_option (\<lambda>v. v\<lparr>Raw := ''''\<rparr>) (leaf_at r (counter_path segs))"
    by (simp add: shape_leaf same)
  show ?thesis
  proof (cases "leaf_at r (counter_path segs)")
    case None
    then show ?thesis using eq by simp
  next
    case (Some v)
    then obtain v' where v': "leaf_at r' (counter_path segs) = Some v'" "v'\<lparr>Raw := ''''\<rparr> = v\<lparr>Raw := ''''\<rparr>" using eq by auto
    have "v' = v\<lparr>Raw := ''''\<rparr>\<lparr>Raw := Raw v'\<rparr>" by (simp add: v'(2) [symmetric])
    then show ?thesis using raw [OF v'(1) Some] Some v'(1) by simp
  qed
qed

section \<open>Grafts\<close>

definition root_paths :: "string list \<Rightarrow> string list set" where
  "root_paths roots = {p. \<exists>r \<in> set roots. parsePath r = Inr p}"

definition below_roots :: "string list \<Rightarrow> string list set" where
  "below_roots roots = {q. \<exists>p \<in> root_paths roots. prefix p q}"

lemma Graft_points:
  assumes "Graft (Some other) t = (Inr roots, t')" and "\<not> isLeaf (root t)" and "\<not> isLeaf (root other)" and "wf_node (root other)"
  shows "root_paths roots = {p. \<exists>c. graft_point (root t) (root other) p c}"
    and "frame (below_roots roots) (below_roots roots) (root t) (root t')"
    and "p \<in> root_paths roots \<Longrightarrow> obs_at p (root t) = None \<and> obs_at p (root t') \<noteq> None \<and> p \<noteq> []
      \<and> (\<exists>a tb. obs_at (butlast p) (root t) = Some (None, a, tb)) \<and> \<not> (\<exists>p' \<in> root_paths roots. prefix p' (butlast p))"
proof -
  from Graft_Inr [OF assms(1)] obtain ps where c: "collect (root t) (root other) [] = Inr ps"
    and roots: "roots = map graft_root (sort_key (joinPath \<circ> fst) ps)"
    and t': "root t' = fold attach (sort_key (joinPath \<circ> fst) ps) (root t)" by blast
  note ok = collect_attachable [OF c assms(2-4)]
  have v: "valid_segs p" if "(p, d) \<in> set ps" for p d
    using that ok(2) graft_point_valid [OF assms(4)] by (auto simp: graft_point_def)
  have parse: "parsePath (graft_root pt) = Inr (fst pt)" if "pt \<in> set ps" for pt
    using v [of "fst pt" "snd pt"] that by (simp add: parse_graft_root)
  have rfst: "root_paths roots = fst ` set ps"
  proof (rule set_eqI)
    fix x
    have "x \<in> root_paths roots \<longleftrightarrow> (\<exists>pt \<in> set ps. parsePath (graft_root pt) = Inr x)" by (simp add: root_paths_def roots)
    also have "\<dots> \<longleftrightarrow> (\<exists>pt \<in> set ps. fst pt = x)" by (rule bex_cong [OF refl]) (simp add: parse)
    also have "\<dots> \<longleftrightarrow> x \<in> fst ` set ps" by (simp only: image_iff) blast
    finally show "x \<in> root_paths roots \<longleftrightarrow> x \<in> fst ` set ps" .
  qed
  show rp: "root_paths roots = {p. \<exists>c. graft_point (root t) (root other) p c}" unfolding rfst ok(2) by (auto simp: image_iff)
  have "obs_at q (root t') = obs_at q (root t)" if "q \<notin> below_roots roots" for q
  proof -
    have "find (\<lambda>(p, c). prefix p q) (sort_key (joinPath \<circ> fst) ps) = None"
      using that unfolding below_roots_def rfst find_None_iff by auto
    then show ?thesis using obs_at_attach_all [OF ok(1), of q "joinPath \<circ> fst"] t' by simp
  qed
  then show "frame (below_roots roots) (below_roots roots) (root t) (root t')" by (auto simp: frame_def intro: shape_cong)
  assume "p \<in> root_paths roots"
  then obtain d where d: "(p, d) \<in> set (sort_key (joinPath \<circ> fst) ps)" unfolding rfst by auto
  then have "p \<noteq> []" "obs_at p (root t) = None" "\<exists>a tb. obs_at (butlast p) (root t) = Some (None, a, tb)"
    using ok(1) [of "joinPath \<circ> fst"] unfolding attachable_def by blast+
  moreover have "\<not> prefix p' (butlast p)" if "p' \<in> root_paths roots" for p'
    using that attachable_apart [OF ok(1) _ d] unfolding rfst by auto
  moreover have "obs_at p (root t') \<noteq> None"
  proof -
    obtain p' d' where f: "find (\<lambda>(q, c). prefix q p) (sort_key (joinPath \<circ> fst) ps) = Some (p', d')"
      using d by (cases "find (\<lambda>(q, c). prefix q p) (sort_key (joinPath \<circ> fst) ps)") (auto simp: find_None_iff)
    then have "prefix p' p" "(p', d') \<in> set (sort_key (joinPath \<circ> fst) ps)" using find_SomeD [OF f] by auto
    then have "p' = p" using attachable_apart [OF ok(1) _ d] prefix_not_butlast by blast
    then show ?thesis using obs_at_attach_all [OF ok(1), of p "joinPath \<circ> fst"] f t' by (auto simp: obs_at_def)
  qed
  ultimately show "obs_at p (root t) = None \<and> obs_at p (root t') \<noteq> None \<and> p \<noteq> []
      \<and> (\<exists>a tb. obs_at (butlast p) (root t) = Some (None, a, tb)) \<and> \<not> (\<exists>p' \<in> root_paths roots. prefix p' (butlast p))" by blast
qed

lemma Unmount_Inr:
  assumes "Unmount r t = (Inr (), t')"
  obtains p m where "parsePath r = Inr p" "p \<noteq> []" "node_at (butlast p) (root t) = Some m" "\<not> isLeaf m"
    "map_of (children m) (last p) \<noteq> None" "root t' = update_at (butlast p) (\<lambda>_. del_child (last p) m) (root t)"
  using assms by (auto simp: Unmount_def lookup_Inr Let_def split: sum.splits if_splits option.splits)

lemma Unmount_fails_same: "Unmount r t = (Inl e, t') \<Longrightarrow> t' = t"
  by (auto simp: Unmount_def Let_def split: sum.splits if_splits option.splits)

lemma frame_Unmount:
  assumes "parsePath r = Inr p"
  shows "frame (below p) (below p) (root t) (root (snd (Unmount r t)))"
proof (cases "fst (Unmount r t)")
  case (Inl e)
  then have "snd (Unmount r t) = t" using Unmount_fails_same by (metis prod.collapse)
  then show ?thesis by simp
next
  case (Inr u)
  then have "Unmount r t = (Inr (), snd (Unmount r t))" by (simp add: prod_eq_iff)
  then obtain p' m where m: "parsePath r = Inr p'" "p' \<noteq> []" "node_at (butlast p') (root t) = Some m" "\<not> isLeaf m"
    "root (snd (Unmount r t)) = update_at (butlast p') (\<lambda>_. del_child (last p') m) (root t)" by (rule Unmount_Inr)
  have "obs_at q (del_child (last p') m) = obs_at q m" if "q \<notin> below [last p']" for q
    using that m(4) by (cases q) (auto simp: obs_at_del_child)
  from frame_replace [OF m(3), of "last p'"] this m assms show ?thesis by simp
qed

lemma frame_unmount_each:
  "\<forall>r \<in> set roots. \<exists>p. parsePath r = Inr p \<Longrightarrow>
     frame (below_roots roots) (below_roots roots) (root t) (root (snd (unmount_each roots t)))"
proof (induction roots arbitrary: t)
  case (Cons r roots)
  then obtain p where p: "parsePath r = Inr p" by auto
  have "frame (below_roots (r # roots)) (below_roots (r # roots)) (root t) (root (snd (Unmount r t)))"
    by (rule frame_mono [OF frame_Unmount [OF p]]) (auto simp: below_roots_def root_paths_def p)
  moreover have "frame (below_roots (r # roots)) (below_roots (r # roots)) (root (snd (Unmount r t))) (root (snd (unmount_each roots (snd (Unmount r t)))))"
    by (rule frame_mono [OF Cons.IH]) (use Cons.prems in \<open>auto simp: below_roots_def root_paths_def\<close>)
  ultimately show ?case using frame_trans by (simp add: case_prod_unfold Let_def)
qed simp

text \<open>Roots that \<^verbatim>\<open>Unmount\<close> can take out: each stands or stood below an object that no root covers, and
  not as an instance of a table.\<close>

definition roots_mounted :: "string list \<Rightarrow> Node \<Rightarrow> bool" where
  "roots_mounted roots r \<longleftrightarrow> (\<forall>x \<in> set roots. \<exists>p a tb. parsePath x = Inr p \<and> p \<noteq> []
     \<and> obs_at (butlast p) r = Some (None, a, tb) \<and> (tb = None \<or> instance_of (last p) = None)
     \<and> butlast p \<notin> below_roots roots)"

lemma Unmount_absent: "obs_at q (root t) = None \<Longrightarrow> obs_at q (root (snd (Unmount r t))) = None"
proof (cases "fst (Unmount r t)")
  case (Inl e)
  then have "snd (Unmount r t) = t" using Unmount_fails_same by (metis prod.collapse)
  then show "obs_at q (root t) = None \<Longrightarrow> ?thesis" by simp
next
  case (Inr u)
  assume q: "obs_at q (root t) = None"
  from Inr have "Unmount r t = (Inr (), snd (Unmount r t))" by (simp add: prod_eq_iff)
  then obtain p m where m: "parsePath r = Inr p" "p \<noteq> []" "node_at (butlast p) (root t) = Some m"
    "root (snd (Unmount r t)) = update_at (butlast p) (\<lambda>_. del_child (last p) m) (root t)" by (rule Unmount_Inr)
  show ?thesis
  proof (cases "prefix p q")
    case True
    have "node_at (butlast p) (root (snd (Unmount r t))) = Some (del_child (last p) m)" using m by (simp add: node_at_update_at)
    then have "node_at (butlast p @ [last p]) (root (snd (Unmount r t))) = None" by (simp add: node_at_append)
    then have "obs_at p (root (snd (Unmount r t))) = None" using m(2) by (simp add: obs_at_def)
    then show ?thesis using True obs_at_prefix_None by blast
  next
    case False
    then show ?thesis using frame_obs [OF frame_Unmount [OF m(1)]] q by simp
  qed
qed

lemma Unmount_gone:
  assumes "parsePath x = Inr p" and "p \<noteq> []" 
    and "obs_at (butlast p) (root t) = Some (None, a, tb)" and "tb = None \<or> instance_of (last p) = None"
  shows "obs_at p (root (snd (Unmount x t))) = None"
proof (cases "obs_at p (root t) = None")
  case True
  then show ?thesis by (rule Unmount_absent)
next
  case False
  obtain t' where t': "Unmount x t = (Inr (), t')" "root t' = detach p (root t)"
    using Unmount_ok [OF assms(1,2,3) False assms(4)] by blast
  from assms(3) obtain m where m: "node_at (butlast p) (root t) = Some m" "\<not> isLeaf m" by (auto simp: obs_at_branch)
  have "node_at (butlast p) (detach p (root t)) = Some (del_child (last p) m)"
    using m by (simp add: detach_def node_at_update_at)
  then have "node_at (butlast p @ [last p]) (detach p (root t)) = None" by (simp add: node_at_append)
  then show ?thesis using t' assms(2) by (simp add: obs_at_def)
qed

lemma unmount_each_absent: "obs_at q (root t) = None \<Longrightarrow> obs_at q (root (snd (unmount_each roots t))) = None"
  by (induction roots arbitrary: t) (simp_all add: case_prod_unfold Let_def Unmount_absent)

lemma unmount_each_gone:
  "roots_mounted roots (root t) \<Longrightarrow> p \<in> below_roots roots \<Longrightarrow> obs_at p (root (snd (unmount_each roots t))) = None"
proof (induction roots arbitrary: t)
  case (Cons r roots)
  obtain p' a tb where p': "parsePath r = Inr p'" "p' \<noteq> []" "obs_at (butlast p') (root t) = Some (None, a, tb)"
      "tb = None \<or> instance_of (last p') = None"
    using Cons.prems(1) by (auto simp: roots_mounted_def)
  let ?t1 = "snd (Unmount r t)"
  have fr: "frame (below p') (below p') (root t) (root ?t1)" by (rule frame_Unmount [OF p'(1)])
  have gone: "obs_at p' (root ?t1) = None" by (rule Unmount_gone [OF p'])
  have "roots_mounted roots (root ?t1)" unfolding roots_mounted_def
  proof
    fix x assume "x \<in> set roots"
    then obtain q b tq where q: "parsePath x = Inr q" "q \<noteq> []" "obs_at (butlast q) (root t) = Some (None, b, tq)"
      "tq = None \<or> instance_of (last q) = None" "butlast q \<notin> below_roots (r # roots)"
      using Cons.prems(1) unfolding roots_mounted_def by (metis list.set_intros(2))
    then have "\<not> prefix p' (butlast q)" "butlast q \<notin> below_roots roots" using p'(1) by (auto simp: below_roots_def root_paths_def)
    then show "\<exists>p a tb. parsePath x = Inr p \<and> p \<noteq> [] \<and> obs_at (butlast p) (root ?t1) = Some (None, a, tb)
        \<and> (tb = None \<or> instance_of (last p) = None) \<and> butlast p \<notin> below_roots roots"
      using q frame_obs [OF fr, of "butlast q"] by auto
  qed
  note rest = Cons.IH [OF this]
  from Cons.prems(2) p'(1) consider "prefix p' p" | "p \<in> below_roots roots" by (auto simp: below_roots_def root_paths_def)
  then show ?case
  proof cases
    case 1
    then show ?thesis using obs_at_prefix_None [OF 1 gone] by (simp add: case_prod_unfold Let_def unmount_each_absent)
  next
    case 2
    then show ?thesis using rest by (simp add: case_prod_unfold Let_def)
  qed
qed (simp add: below_roots_def root_paths_def)

lemma wf_Graft:
  assumes "wf_node (root t)" and "\<not> isLeaf (root t)" and "wf_node (root other)" and "\<not> isLeaf (root other)"
  shows "wf_node (root (snd (Graft (Some other) t)))"
proof (rule op_keeps [where P = "\<lambda>t. wf_node (root t)" and t = t])
  fix roots t' assume "Graft (Some other) t = (Inr roots, t')"
  from Graft_Inr [OF this] obtain ps where c: "collect (root t) (root other) [] = Inr ps"
    and t': "root t' = fold attach (sort_key (joinPath \<circ> fst) ps) (root t)" by blast
  note ok = collect_attachable [OF c assms(2,4,3)]
  have "\<forall>(p, c) \<in> set (sort_key (joinPath \<circ> fst) ps). valid_segs p \<and> wf_node c"
    using ok(2) assms(3) graft_point_valid [OF assms(3)] by (auto simp: graft_point_def intro: wf_node_at)
  from node_shape.attach_all_keep [OF assms(1) ok(1) this] t' show "wf_node (root t')" by simp
qed (use assms in \<open>auto simp: Graft_def Let_def split: sum.splits\<close>)

lemma wf_Unmount: "wf_node (root t) \<Longrightarrow> wf_node (root (snd (Unmount r t)))"
proof (cases "fst (Unmount r t)")
  case (Inl e)
  then have "snd (Unmount r t) = t" using Unmount_fails_same by (metis prod.collapse)
  then show "wf_node (root t) \<Longrightarrow> ?thesis" by simp
next
  case (Inr u)
  assume wf: "wf_node (root t)"
  from Inr have "Unmount r t = (Inr (), snd (Unmount r t))" by (simp add: prod_eq_iff)
  then obtain p m where "node_at (butlast p) (root t) = Some m"
    "root (snd (Unmount r t)) = update_at (butlast p) (\<lambda>_. del_child (last p) m) (root t)" by (rule Unmount_Inr)
  then show ?thesis using wf by (auto intro!: wf_update_at wf_del_child intro: wf_node_at)
qed

lemma wf_unmount_each: "wf_node (root t) \<Longrightarrow> wf_node (root (snd (unmount_each roots t)))"
  by (induction roots arbitrary: t) (simp_all add: case_prod_unfold Let_def wf_Unmount)

section \<open>Tables in a frame\<close>

lemma pending_frame:
  assumes "row_pending segs k r r'"
  shows "frame (below (segs @ [k]) \<union> {counter_path segs}) (below (segs @ [k])) r r'"
proof -
  from assms obtain n c where n: "node_at segs r = Some n" "\<not> isLeaf n" and r': "r' = table_root segs (set_child k c n) r"
    by (auto simp: row_pending_def)
  have "obs_at q (set_child k c n) = obs_at q n" if "q \<notin> below [k]" for q
    using that n(2) by (cases q) (auto simp: obs_at_set_child)
  from frame_table_root [OF n(1) this] r' show ?thesis by simp
qed

text \<open>A table rows can be added to and deleted from: its entry counter is right, and there is room.\<close>

definition table_ready :: "string list \<Rightarrow> Node \<Rightarrow> bool" where
  "table_ready segs r \<longleftrightarrow> counter_honest segs r \<and> (\<forall>n. node_at segs r = Some n \<longrightarrow> length (children n) < 2 ^ 62)"

lemma children_agree:
  assumes "wf_node r" and "wf_node r'" and n: "node_at segs r = Some n" "node_at segs r' = Some n'"
    and here: "shape_at segs r' = shape_at segs r" and rows: "\<And>k. shape_at (segs @ [k]) r' = shape_at (segs @ [k]) r"
  shows "set (map fst (children n')) = set (map fst (children n))"
proof -
  have lf: "isLeaf n' = isLeaf n" using here n
    by (cases "leaf n"; cases "leaf n'") (auto simp: shape_at_def obs_at_def isLeaf_def)
  show ?thesis
  proof (cases "isLeaf n")
    case True
    then show ?thesis using lf wf_node_at [OF assms(1) n(1)] wf_node_at [OF assms(2) n(2)]
      by (simp add: wf_node_iff [of n] wf_node_iff [of n'])
  next
    case False
    have "map_of (children n') k \<noteq> None \<longleftrightarrow> map_of (children n) k \<noteq> None" for k
      using child_exists [OF n(1) False] child_exists [OF n(2)] False lf rows [of k] by (metis shape_None)
    then show ?thesis by (simp add: map_of_eq_None_iff) blast
  qed
qed

lemma table_ready_frame:
  assumes "table_ready segs r" and "frame T S r r'" and "wf_node r" and "wf_node r'"
    and "segs \<notin> S" and "\<And>k. segs @ [k] \<notin> S" and "counter_path segs \<notin> T"
  shows "table_ready segs r'"
proof (cases "node_at segs r'")
  case None
  then show ?thesis by (simp add: table_ready_def counter_honest_def split: option.split)
next
  case (Some n')
  have here: "shape_at segs r' = shape_at segs r" "\<And>k. shape_at (segs @ [k]) r' = shape_at (segs @ [k]) r"
    using assms(2,5,6) by (simp_all add: frame_shape)
  have "obs_at segs r' \<noteq> None" using Some by (simp add: obs_at_def)
  then have "obs_at segs r \<noteq> None" using here(1) by (metis shape_None)
  then obtain n where n: "node_at segs r = Some n" by (auto simp: obs_at_def)
  note keys = children_agree [OF assms(3,4) n Some here]
  have d: "distinct (map fst (children n))" "distinct (map fst (children n'))"
    using wf_node_at [OF assms(3) n] wf_node_at [OF assms(4) Some] by (simp_all add: wf_node_iff [of n] wf_node_iff [of n'])
  have len: "length (children n') = length (children n)" using keys d by (metis distinct_card length_map)
  have "map_of (children n') k \<noteq> None \<longleftrightarrow> map_of (children n) k \<noteq> None" for k
    using keys by (simp add: map_of_eq_None_iff)
  then have used: "length (used_instances n') = length (used_instances n)"
    using d by (simp add: used_instances_card)
  have "leaf_at r' (counter_path segs) = leaf_at r (counter_path segs)" using frame_leaf [OF assms(2,7)] .
  then show ?thesis using assms(1) n Some len used by (simp add: table_ready_def counter_honest_def split: option.splits)
qed

text \<open>A fragment that has nothing at an object of the tree is grafted apart from it.\<close>

lemma graft_apart:
  assumes "graft_point r src p c" and "node_at sp src = None" and "node_at sp r \<noteq> None"
  shows "\<not> prefix p sp" and "\<not> prefix sp p"
  using assms by (auto simp: graft_point_def prefix_def node_at_append)

lemma graft_points_frame:
  assumes "frame T S r r'" and "\<And>q. q \<in> S \<Longrightarrow> prefix sp q" and "node_at sp src = None" and "node_at sp r' \<noteq> None"
    and g: "graft_point r' src p c"
  shows "graft_point r src p c" and "instance_point r' p \<longleftrightarrow> instance_point r p"
proof -
  have apart: "\<not> prefix sp p" "\<not> prefix sp (butlast p)"
    using graft_apart(2) [OF g assms(3,4)] prefixeq_butlast [of p] prefix_order.trans by blast+
  have p: "p \<notin> S" "butlast p \<notin> S" using apart assms(2) by auto
  have ex: "node_at p r' = None \<longleftrightarrow> node_at p r = None" "node_at (butlast p) r' = None \<longleftrightarrow> node_at (butlast p) r = None"
    using frame_exists [OF assms(1) p(1)] frame_exists [OF assms(1) p(2)] by (simp_all add: obs_at_def)
  then show "graft_point r src p c" using g by (auto simp: graft_point_def)
  have "map_option table (node_at (butlast p) r') = map_option table (node_at (butlast p) r)"
    using frame_shape [OF assms(1) p(2)]
    by (cases "node_at (butlast p) r'"; cases "node_at (butlast p) r") (auto simp: shape_at_def obs_at_def)
  then show "instance_point r' p \<longleftrightarrow> instance_point r p" unfolding instance_point_def
    by (cases "node_at (butlast p) r'"; cases "node_at (butlast p) r") auto
qed

end
