(* ===== verification/SoftwareModules.thy ===== *)
theory SoftwareModules
  imports GenScheduler ParamWalk Wire Requests EventTracker ParamFrames
begin

text \<open>
  The life cycle of software modules: \<^verbatim>\<open>faults.go\<close> and \<^verbatim>\<open>manager.go\<close> of
  \<^verbatim>\<open>src/internal/softwaremodules\<close>, and what \<^verbatim>\<open>cmd/cpe-sim/softwaremodules.go\<close> makes of an operation
  and its result.

  A manager is a record of its configuration, the tree, the runner of its generators in the fleet and
  the installations by deployment unit path; every operation is one step, as the mutex makes it.  The
  fetched manifest, the SHA-1 digest, the texts of the clock and whether a delay was cut short are the
  environment, an argument.  Go leaves open in which order the leaves of a row are written; they are
  different leaves, and the model writes them in the order of the source.
\<close>

section \<open>Faults\<close>

abbreviation "ReasonRequestDenied \<equiv> ''request-denied''"
abbreviation "ReasonInvalidArguments \<equiv> ''invalid-arguments''"
abbreviation "ReasonUnreachable \<equiv> ''server-unreachable''"
abbreviation "ReasonUnavailable \<equiv> ''file-unavailable''"
abbreviation "ReasonCorrupt \<equiv> ''corrupt''"
abbreviation "ReasonUnknownExecEnv \<equiv> ''unknown-ee''"
abbreviation "ReasonDisabledExecEnv \<equiv> ''disabled-ee''"
abbreviation "ReasonMismatch \<equiv> ''ee-mismatch''"
abbreviation "ReasonDuplicate \<equiv> ''duplicate''"
abbreviation "ReasonResources \<equiv> ''resources-exceeded''"
abbreviation "ReasonUnknownDU \<equiv> ''unknown-du''"
abbreviation "ReasonInvalidState \<equiv> ''invalid-state''"
abbreviation "ReasonVersionExists \<equiv> ''version-exists''"

record DUFault =
  fa_Reason :: string
  fa_Message :: string

definition codes :: "(string \<times> int \<times> int \<times> string) list" where
  "codes =
     [(ReasonRequestDenied, 9001, 7002, ''Request denied''),
      (ReasonInvalidArguments, 9003, 7004, ''Invalid arguments''),
      (ReasonUnreachable, 9015, 7033, ''File transfer failure: unable to contact file server''),
      (ReasonUnavailable, 9016, 7033, ''File transfer failure: unable to access file''),
      (ReasonCorrupt, 9018, 7035, ''File corrupted or otherwise unusable''),
      (ReasonUnknownExecEnv, 9023, 7223, ''Unknown Execution Environment''),
      (ReasonDisabledExecEnv, 9024, 7002, ''Disabled Execution Environment''),
      (ReasonMismatch, 9025, 7225, ''Deployment Unit to Execution Environment Mismatch''),
      (ReasonDuplicate, 9026, 7226, ''Duplicate Deployment Unit''),
      (ReasonResources, 9027, 7227, ''System Resources Exceeded''),
      (ReasonUnknownDU, 9028, 7002, ''Unknown Deployment Unit''),
      (ReasonInvalidState, 9029, 7229, ''Invalid Deployment Unit State''),
      (ReasonVersionExists, 9032, 7226, ''Invalid Deployment Unit Update: Version Already Exists'')]"

definition CWMPCode :: "DUFault \<Rightarrow> int" where
  "CWMPCode f = (case map_of codes (fa_Reason f) of None \<Rightarrow> 0 | Some (c, _) \<Rightarrow> c)"

definition USPCode :: "DUFault \<Rightarrow> int" where
  "USPCode f = (case map_of codes (fa_Reason f) of None \<Rightarrow> 0 | Some (_, u, _) \<Rightarrow> u)"

definition Fault_String :: "DUFault \<Rightarrow> string" where
  "Fault_String f =
     (if fa_Message f \<noteq> '''' then fa_Message f
      else (case map_of codes (fa_Reason f) of None \<Rightarrow> '''' | Some (_, _, s) \<Rightarrow> s))"

definition du_fault :: "string \<Rightarrow> string \<Rightarrow> goarg list \<Rightarrow> DUFault" where
  "du_fault reason format args = \<lparr>fa_Reason = reason, fa_Message = Sprintf format (map arg_text args)\<rparr>"

section \<open>State\<close>

datatype OpKind = Install | Update | Uninstall | OtherKind int

fun OpKind_String :: "OpKind \<Rightarrow> string" where
  "OpKind_String Install = ''Install''"
| "OpKind_String Update = ''Update''"
| "OpKind_String Uninstall = ''Uninstall''"
| "OpKind_String (OtherKind k) = ''Kind('' @ Itoa k @ '')''"

record Operation =
  so_Kind :: OpKind
  so_URL :: string
  so_UUID :: string
  so_Version :: string
  so_ExecutionEnvRef :: string

record Result =
  sr_Operation :: OpKind
  sr_UUID :: string
  sr_DeploymentUnitRef :: string
  sr_Version :: string
  sr_CurrentState :: string
  sr_Resolved :: bool
  sr_ExecutionUnitRefList :: "string list"
  sr_StartTime :: Time
  sr_CompleteTime :: Time
  sr_Fault :: "DUFault option"

record App =
  app_Name :: string
  app_Version :: string
  app_Vendor :: string
  app_Description :: string
  app_ExecutionUnit :: string

record AppManifest =
  mf_App :: App
  mf_Tree :: Tree
  mf_Generators :: "GeneratorConfig list"

record SoftwareModulesConfig =
  sm_Path :: string
  sm_InstallDelay :: int
  sm_UninstallDelay :: int
  sm_Faults :: "(string \<times> DUFault) list"

record installation =
  in_duPath :: string
  in_euPath :: string
  in_eePath :: string
  in_manifest :: AppManifest
  in_url :: string
  in_roots :: "string list"

record Manager =
  mg_cfg :: SoftwareModulesConfig
  mg_tree :: Tree
  mg_gens :: "nat option"
  mg_fleet :: Fleet
  mg_installed :: "(string \<times> installation) list"

record Env =
  ev_fetch :: "string \<Rightarrow> DUFault + AppManifest"
  ev_sha1 :: "string \<Rightarrow> 8 word list"
  ev_created :: string
  ev_rfc3339 :: string
  ev_start :: Time
  ev_complete :: Time
  ev_cancelled :: "goerr option"

abbreviation "ExecEnvTable \<equiv> ''ExecEnv.''"
abbreviation "DeploymentUnitTable \<equiv> ''DeploymentUnit.''"
abbreviation "ExecutionUnitTable \<equiv> ''ExecutionUnit.''"

definition requiredDULeaves :: "string list" where
  "requiredDULeaves = [''UUID'', ''Name'', ''Status'', ''Version'']"

definition requiredEULeaves :: "string list" where
  "requiredEULeaves = [''Name'', ''Status'', ''References'']"

section \<open>Helpers\<close>

definition ref :: "string \<Rightarrow> string" where
  "ref path = TrimSuffix path ''.''"

definition is_hex :: "char \<Rightarrow> bool" where
  "is_hex c \<longleftrightarrow> is_digit c \<or> (CHR ''a'' \<le> c \<and> c \<le> CHR ''f'') \<or> (CHR ''A'' \<le> c \<and> c \<le> CHR ''F'')"

definition uuidPattern :: "string \<Rightarrow> bool" where
  "uuidPattern s \<longleftrightarrow> map length (split_on CHR ''-'' s) = [8, 4, 4, 4, 12] \<and> list_all (list_all is_hex) (split_on CHR ''-'' s)"

definition appNamespace :: string where
  "appNamespace = map char_of [0x6b, 0xa7, 0xb8, 0x11, 0x9d, 0xad, 0x11, 0xd1, 0x80, 0xb4, 0x00, 0xc0, 0x4f, 0xd4, 0x30, 0xc8 :: nat]"

definition hex_byte :: "8 word \<Rightarrow> string" where
  "hex_byte b = [hex_digit (unat b div 16), hex_digit (unat b mod 16)]"

definition hex_bytes :: "8 word list \<Rightarrow> string" where
  "hex_bytes bs = concat (map hex_byte bs)"

unbundle bit_operations_syntax

definition AppUUID :: "(string \<Rightarrow> 8 word list) \<Rightarrow> App \<Rightarrow> string" where
  "AppUUID sha1 app =
     (let sum0 = sha1 (appNamespace @ ''urn:cpe-labs:app:'' @ app_Vendor app @ ''/'' @ app_Name app);
          sum1 = sum0[6 := ((sum0 ! 6) AND 0x0f) OR 0x50];
          sum = sum1[8 := ((sum1 ! 8) AND 0x3f) OR 0x80]
      in hex_bytes (take 4 sum) @ ''-'' @ hex_bytes (take 2 (drop 4 sum)) @ ''-'' @ hex_bytes (take 2 (drop 6 sum)) @ ''-''
         @ hex_bytes (take 2 (drop 8 sum)) @ ''-'' @ hex_bytes (take 6 (drop 10 sum)))"

definition setLeaves :: "string \<Rightarrow> (string \<times> string) list \<Rightarrow> Manager \<Rightarrow> Manager" where
  "setLeaves row vals m = m\<lparr>mg_tree := fold (\<lambda>(lf, value) t. snd (SetSystem (row @ lf) value t)) vals (mg_tree m)\<rparr>"

definition deleteRow :: "string \<Rightarrow> Manager \<Rightarrow> Manager" where
  "deleteRow path m = m\<lparr>mg_tree := snd (DeleteObject path (mg_tree m))\<rparr>"

definition unmount :: "string list \<Rightarrow> Manager \<Rightarrow> Manager" where
  "unmount roots m = m\<lparr>mg_tree := snd (unmount_each roots (mg_tree m))\<rparr>"

definition addRow :: "string \<Rightarrow> string list \<Rightarrow> Manager \<Rightarrow> (DUFault + string) \<times> Manager" where
  "addRow tab required m =
     (let parent = sm_Path (mg_cfg m) @ tab in
      case AddObject parent (mg_tree m) of
        (Inl e, t) \<Rightarrow> (Inl (du_fault ReasonRequestDenied ''cannot add a %s row: %v'' [ArgS tab, ArgE e]), m\<lparr>mg_tree := t\<rparr>)
      | (Inr inst, t) \<Rightarrow>
          (let path = parent @ Itoa inst @ ''.''; m' = m\<lparr>mg_tree := t\<rparr> in
           case find (\<lambda>lf. is_err (Get (path @ lf) t)) required of
             Some lf \<Rightarrow> (Inl (du_fault ReasonRequestDenied ''the profile's %s{i}. template declares no %s leaf'' [ArgS tab, ArgS lf]),
                         deleteRow path m')
           | None \<Rightarrow> (Inr path, m')))"

definition UUIDOf :: "string \<Rightarrow> Manager \<Rightarrow> goerr + string" where
  "UUIDOf duPath m = (case Get (duPath @ ''UUID'') (mg_tree m) of Inl e \<Rightarrow> Inl e | Inr v \<Rightarrow> Inr (Raw v))"

definition execEnv :: "string \<Rightarrow> Manager \<Rightarrow> DUFault + string" where
  "execEnv eref m =
     (case Children (sm_Path (mg_cfg m) @ ExecEnvTable) (mg_tree m) of
        Inl _ \<Rightarrow> Inl (du_fault ReasonUnknownExecEnv ''no execution environment declared'' [])
      | Inr [] \<Rightarrow> Inl (du_fault ReasonUnknownExecEnv ''no execution environment declared'' [])
      | Inr (e # es) \<Rightarrow>
          (let path = (if eref = '''' then ci_Name e
                       else (let want = TrimSuffix eref ''.'' @ ''.'' in
                             if want \<in> ci_Name ` set (e # es) then want else ''''))
           in if eref \<noteq> '''' \<and> path = '''' then Inl (du_fault ReasonUnknownExecEnv ''%s does not exist'' [ArgS eref])
              else if (case Get (path @ ''Enable'') (mg_tree m) of Inr v \<Rightarrow> Raw v \<noteq> ''true'' \<and> Raw v \<noteq> ''1'' | Inl _ \<Rightarrow> False)
              then Inl (du_fault ReasonDisabledExecEnv ''%s is disabled'' [ArgS (TrimSuffix path ''.'')])
              else (case Get (path @ ''Status'') (mg_tree m) of
                      Inr v \<Rightarrow> if Raw v \<noteq> ''Up'' then Inl (du_fault ReasonDisabledExecEnv ''%s is %s'' [ArgS (TrimSuffix path ''.''), ArgS (Raw v)])
                               else Inr path
                    | Inl _ \<Rightarrow> Inr path)))"

definition has_uuid :: "string \<Rightarrow> string \<Rightarrow> Manager \<Rightarrow> bool" where
  "has_uuid duPath uuid m =
     (case Get (duPath @ ''UUID'') (mg_tree m) of Inl _ \<Rightarrow> False | Inr v \<Rightarrow> EqualFold (Raw v) uuid)"

definition findLocked :: "string \<Rightarrow> string \<Rightarrow> Manager \<Rightarrow> DUFault + installation" where
  "findLocked uuid version m =
     (case filter (\<lambda>inst. (version = '''' \<or> EqualFold (app_Version (mf_App (in_manifest inst))) version)
                       \<and> has_uuid (in_duPath inst) uuid m) (map snd (mg_installed m)) of
        [] \<Rightarrow> if version \<noteq> '''' then Inl (du_fault ReasonUnknownDU ''no deployment unit %s at version %s'' [ArgS uuid, ArgS version])
              else Inl (du_fault ReasonUnknownDU ''no deployment unit %s'' [ArgS uuid])
      | [inst] \<Rightarrow> Inr inst
      | _ \<Rightarrow> Inl (du_fault ReasonInvalidArguments ''%s is installed at several versions; name one'' [ArgS uuid]))"

definition checkInstallArgs :: "Operation \<Rightarrow> DUFault option" where
  "checkInstallArgs op =
     (if TrimSpace (so_URL op) = '''' then Some (du_fault ReasonInvalidArguments ''URL is required'' [])
      else if so_UUID op \<noteq> '''' \<and> \<not> uuidPattern (so_UUID op)
      then Some (du_fault ReasonInvalidArguments ''UUID %q is not an RFC 4122 UUID'' [ArgS (so_UUID op)])
      else None)"

definition Check :: "Operation \<Rightarrow> Manager \<Rightarrow> DUFault option" where
  "Check op m =
     (case so_Kind op of
        Install \<Rightarrow>
          (case checkInstallArgs op of
             Some f \<Rightarrow> Some f
           | None \<Rightarrow> (case execEnv (so_ExecutionEnvRef op) m of Inl f \<Rightarrow> Some f | Inr _ \<Rightarrow> None))
      | OtherKind k \<Rightarrow> Some (du_fault ReasonInvalidArguments ''unknown operation %v'' [ArgS (OpKind_String (so_Kind op))])
      | _ \<Rightarrow>
          if so_UUID op = '''' then Some (du_fault ReasonInvalidArguments ''UUID is required'' [])
          else if \<not> uuidPattern (so_UUID op)
          then Some (du_fault ReasonInvalidArguments ''UUID %q is not an RFC 4122 UUID'' [ArgS (so_UUID op)])
          else if so_Kind op = Uninstall \<and> so_ExecutionEnvRef op \<noteq> '''' \<and> is_err (execEnv (so_ExecutionEnvRef op) m)
          then (case execEnv (so_ExecutionEnvRef op) m of Inl f \<Rightarrow> Some f | Inr _ \<Rightarrow> None)
          else (case findLocked (so_UUID op) (so_Version op) m of Inl f \<Rightarrow> Some f | Inr _ \<Rightarrow> None))"

definition checkManifest :: "AppManifest \<Rightarrow> string \<Rightarrow> string \<Rightarrow> Manager \<Rightarrow> DUFault option" where
  "checkManifest manifest uuid except m =
     (case map_of (sm_Faults (mg_cfg m)) (app_Name (mf_App manifest)) of
        Some f \<Rightarrow> Some f
      | None \<Rightarrow>
          (case find (\<lambda>(path, inst). path \<noteq> except \<and> has_uuid path uuid m) (mg_installed m) of
             None \<Rightarrow> None
           | Some (path, inst) \<Rightarrow>
               Some (du_fault ReasonDuplicate ''%s is already installed at version %s as %s''
                  [ArgS uuid, ArgS (app_Version (mf_App (in_manifest inst))), ArgS (ref path)])))"

definition syncActiveUnits :: "string \<Rightarrow> Manager \<Rightarrow> Manager" where
  "syncActiveUnits eePath m =
     (let active = map (\<lambda>inst. ref (in_euPath inst))
            (filter (\<lambda>inst. in_eePath inst = eePath
                       \<and> (case Get (in_euPath inst @ ''Status'') (mg_tree m) of Inr v \<Rightarrow> Raw v = ''Active'' | Inl _ \<Rightarrow> False))
               (map snd (mg_installed m)))
      in setLeaves eePath [(''ActiveExecutionUnits'', join '','' (sort active))] m)"

definition withFault :: "Result \<Rightarrow> DUFault \<Rightarrow> Result" where
  "withFault r f = r\<lparr>sr_Fault := Some f\<rparr>"

text \<open>The zero values of \<^verbatim>\<open>time.Time\<close> and of a result.\<close>

definition zero_time :: Time where
  "zero_time = (\<lparr>t_year = 1, t_month = 1, t_day = 1, t_hour = 0, t_min = 0, t_sec = 0, t_nsec = 0\<rparr>, 0)"

definition noResult :: Result where
  "noResult = \<lparr>sr_Operation = OtherKind 0, sr_UUID = '''', sr_DeploymentUnitRef = '''', sr_Version = '''', sr_CurrentState = '''',
     sr_Resolved = False, sr_ExecutionUnitRefList = [], sr_StartTime = zero_time, sr_CompleteTime = zero_time, sr_Fault = None\<rparr>"

section \<open>Operations\<close>

definition sleep :: "Env \<Rightarrow> int \<Rightarrow> goerr option" where
  "sleep ev d = (if d \<le> 0 then None else ev_cancelled ev)"

fun add_generators :: "GeneratorConfig list \<Rightarrow> Manager \<Rightarrow> Manager" where
  "add_generators [] m = m"
| "add_generators (g # gs) m =
     (case mg_gens m of
        None \<Rightarrow> m
      | Some rid \<Rightarrow> add_generators gs (m\<lparr>mg_fleet := snd (AddConfig rid g (mg_fleet m))\<rparr>))"

fun remove_generators :: "GeneratorConfig list \<Rightarrow> Manager \<Rightarrow> Manager" where
  "remove_generators [] m = m"
| "remove_generators (g # gs) m =
     (case mg_gens m of
        None \<Rightarrow> remove_generators gs m
      | Some rid \<Rightarrow> remove_generators gs (m\<lparr>mg_fleet := runner_Remove rid (gc_Path g) (mg_fleet m)\<rparr>))"

definition start :: "Env \<Rightarrow> AppManifest \<Rightarrow> string \<Rightarrow> Manager \<Rightarrow> (DUFault + string list \<times> string) \<times> Manager" where
  "start ev manifest eePath m =
     (case Graft (Some (mf_Tree manifest)) (mg_tree m) of
        (Inl e, t) \<Rightarrow> (Inl (du_fault ReasonMismatch ''data model cannot be added: %v'' [ArgE e]), m\<lparr>mg_tree := t\<rparr>)
      | (Inr roots, t) \<Rightarrow>
          (case addRow ExecutionUnitTable requiredEULeaves (m\<lparr>mg_tree := t\<rparr>) of
             (Inl f, m1) \<Rightarrow> (Inl f, unmount roots m1)
           | (Inr euPath, m1) \<Rightarrow>
               (let app = mf_App manifest;
                    m2 = setLeaves euPath
                      [(''EUID'', app_ExecutionUnit app), (''Name'', app_ExecutionUnit app), (''ExecEnvLabel'', app_ExecutionUnit app),
                       (''Status'', ''Starting''), (''ExecutionFaultCode'', ''NoFault''), (''ExecutionFaultMessage'', ''''),
                       (''AutoStart'', ''true''), (''Vendor'', app_Vendor app), (''Version'', app_Version app),
                       (''Description'', app_Description app), (''References'', join '','' roots),
                       (''ExecutionEnvRef'', ref eePath), (''CreationTime'', ev_created ev)] m1;
                    m3 = add_generators (mf_Generators manifest) m2
                in (Inr (roots, euPath), setLeaves euPath [(''Status'', ''Active'')] m3))))"

definition stop :: "installation \<Rightarrow> Manager \<Rightarrow> Manager" where
  "stop inst m =
     (let m1 = setLeaves (in_euPath inst) [(''Status'', ''Stopping'')] m;
          m2 = remove_generators (mf_Generators (in_manifest inst)) m1;
          m3 = unmount (in_roots inst) m2
      in setLeaves (in_euPath inst) [(''Status'', ''Idle''), (''References'', '''')] m3)"

text \<open>The rest of an install, once the deployment unit has its row.\<close>

definition undo :: "string \<Rightarrow> DUFault \<Rightarrow> string \<Rightarrow> string \<Rightarrow> Manager \<Rightarrow> Result \<times> Manager" where
  "undo duPath f uuid version m =
     (noResult\<lparr>sr_Fault := Some f, sr_UUID := uuid, sr_Version := version\<rparr>, deleteRow duPath m)"

definition install_module :: "Env \<Rightarrow> Operation \<Rightarrow> string \<Rightarrow> string \<Rightarrow> AppManifest \<Rightarrow> Manager \<Rightarrow> Result \<times> Manager" where
  "install_module ev op eePath duPath manifest m =
     (let uuid = (if so_UUID op = '''' then AppUUID (ev_sha1 ev) (mf_App manifest) else so_UUID op);
          m1 = setLeaves duPath [(''UUID'', uuid)] m;
          app = mf_App manifest
      in case checkManifest manifest uuid '''' m1 of
           Some cf \<Rightarrow> undo duPath cf uuid (app_Version app) m1
         | None \<Rightarrow>
             (let m2 = setLeaves duPath [(''Name'', app_Name app), (''Version'', app_Version app), (''Vendor'', app_Vendor app),
                         (''Description'', app_Description app), (''DUID'', app_Name app)] m1
              in case sleep ev (sm_InstallDelay (mg_cfg m)) of
                   Some e \<Rightarrow> undo duPath (du_fault ReasonRequestDenied ''%v'' [ArgE e]) uuid '''' m2
                 | None \<Rightarrow>
                     (case start ev manifest eePath m2 of
                        (Inl f, m3) \<Rightarrow> undo duPath f uuid (app_Version app) m3
                      | (Inr (roots, euPath), m3) \<Rightarrow>
                          (let now = ev_rfc3339 ev;
                               m4 = setLeaves duPath [(''Status'', ''Installed''), (''Resolved'', ''true''),
                                      (''ExecutionUnitList'', ref euPath), (''Installed'', now), (''LastUpdate'', now)] m3;
                               m5 = m4\<lparr>mg_installed := AList.update duPath
                                      \<lparr>in_duPath = duPath, in_euPath = euPath, in_eePath = eePath, in_manifest = manifest,
                                       in_url = so_URL op, in_roots = roots\<rparr> (mg_installed m4)\<rparr>
                           in (noResult\<lparr>sr_UUID := uuid, sr_DeploymentUnitRef := ref duPath, sr_Version := app_Version app,
                                 sr_CurrentState := ''Installed'', sr_Resolved := True, sr_ExecutionUnitRefList := [ref euPath]\<rparr>,
                               syncActiveUnits eePath m5)))))"

definition install :: "Env \<Rightarrow> Operation \<Rightarrow> Manager \<Rightarrow> Result \<times> Manager" where
  "install ev op m =
     (case checkInstallArgs op of
        Some f \<Rightarrow> (withFault noResult f, m)
      | None \<Rightarrow>
          (case execEnv (so_ExecutionEnvRef op) m of
             Inl f \<Rightarrow> (withFault noResult f, m)
           | Inr eePath \<Rightarrow>
               (case addRow DeploymentUnitTable requiredDULeaves m of
                  (Inl f, m1) \<Rightarrow> (withFault noResult f, m1)
                | (Inr duPath, m1) \<Rightarrow>
                    (let m2 = setLeaves duPath [(''UUID'', so_UUID op), (''Status'', ''Installing''), (''Resolved'', ''false''),
                                (''URL'', so_URL op), (''ExecutionEnvRef'', ref eePath)] m1
                     in case ev_fetch ev (so_URL op) of
                          Inl f \<Rightarrow> undo duPath f (so_UUID op) '''' m2
                        | Inr manifest \<Rightarrow> install_module ev op eePath duPath manifest m2))))"

definition not_installed :: "installation \<Rightarrow> Manager \<Rightarrow> DUFault option" where
  "not_installed inst m =
     (case Get (in_duPath inst @ ''Status'') (mg_tree m) of
        Inr v \<Rightarrow> if Raw v \<noteq> ''Installed'' then Some (du_fault ReasonInvalidState ''%s is %s'' [ArgS (ref (in_duPath inst)), ArgS (Raw v)]) else None
      | Inl _ \<Rightarrow> None)"

definition forget :: "installation \<Rightarrow> Manager \<Rightarrow> Manager" where
  "forget inst m = m\<lparr>mg_installed := AList.delete (in_duPath inst) (mg_installed m)\<rparr>"

definition remember :: "installation \<Rightarrow> Manager \<Rightarrow> Manager" where
  "remember inst m = m\<lparr>mg_installed := AList.update (in_duPath inst) inst (mg_installed m)\<rparr>"

text \<open>The part of an update that replaces the running version.\<close>

definition replace_module ::
  "Env \<Rightarrow> Operation \<Rightarrow> string \<Rightarrow> Result \<Rightarrow> installation \<Rightarrow> AppManifest \<Rightarrow> Manager \<Rightarrow> Result \<times> Manager" where
  "replace_module ev op url previous inst manifest m =
     (let m1 = setLeaves (in_duPath inst) [(''Status'', ''Updating''), (''URL'', url)] m;
          m2 = deleteRow (in_euPath inst) (stop inst m1);
          app = mf_App manifest
      in case sleep ev (sm_InstallDelay (mg_cfg m)) of
           Some e \<Rightarrow>
             ((withFault previous (du_fault ReasonRequestDenied ''%v'' [ArgE e]))\<lparr>sr_DeploymentUnitRef := ''''\<rparr>,
              deleteRow (in_duPath inst) (forget inst m2))
         | None \<Rightarrow>
             (case start ev manifest (in_eePath inst) m2 of
                (Inl f, m3) \<Rightarrow>
                  (case start ev (in_manifest inst) (in_eePath inst) m3 of
                     (Inl rf, m4) \<Rightarrow>
                       ((withFault previous f)\<lparr>sr_DeploymentUnitRef := '''', sr_ExecutionUnitRefList := []\<rparr>,
                        deleteRow (in_duPath inst) (forget inst m4))
                   | (Inr (oldRoots, oldEU), m4) \<Rightarrow>
                       (let m5 = remember (inst\<lparr>in_roots := oldRoots, in_euPath := oldEU\<rparr>) m4;
                            m6 = setLeaves (in_duPath inst) [(''Status'', ''Installed''), (''ExecutionUnitList'', ref oldEU)] m5
                        in (withFault (previous\<lparr>sr_ExecutionUnitRefList := [ref oldEU]\<rparr>) f, syncActiveUnits (in_eePath inst) m6)))
              | (Inr (roots, euPath), m3) \<Rightarrow>
                  (let m4 = setLeaves (in_duPath inst) [(''Name'', app_Name app), (''Version'', app_Version app), (''Vendor'', app_Vendor app),
                              (''Description'', app_Description app), (''Status'', ''Installed''), (''Resolved'', ''true''),
                              (''ExecutionUnitList'', ref euPath), (''LastUpdate'', ev_rfc3339 ev)] m3;
                       m5 = remember (inst\<lparr>in_manifest := manifest, in_url := url, in_roots := roots, in_euPath := euPath\<rparr>) m4
                   in (noResult\<lparr>sr_UUID := so_UUID op, sr_DeploymentUnitRef := ref (in_duPath inst), sr_Version := app_Version app,
                         sr_CurrentState := ''Installed'', sr_Resolved := True, sr_ExecutionUnitRefList := [ref euPath]\<rparr>,
                       syncActiveUnits (in_eePath inst) m5))))"

definition update :: "Env \<Rightarrow> Operation \<Rightarrow> Manager \<Rightarrow> Result \<times> Manager" where
  "update ev op m =
     (case findLocked (so_UUID op) (so_Version op) m of
        Inl f \<Rightarrow> (withFault noResult f, m)
      | Inr inst \<Rightarrow>
          (let previous = noResult\<lparr>sr_UUID := so_UUID op, sr_DeploymentUnitRef := ref (in_duPath inst),
                 sr_Version := app_Version (mf_App (in_manifest inst)), sr_CurrentState := ''Installed'', sr_Resolved := True,
                 sr_ExecutionUnitRefList := [ref (in_euPath inst)]\<rparr>
           in case not_installed inst m of
                Some f \<Rightarrow> (withFault previous f, m)
              | None \<Rightarrow>
                  (case execEnv (ref (in_eePath inst)) m of
                     Inl ef \<Rightarrow> (withFault previous ef, m)
                   | Inr _ \<Rightarrow>
                       (let url = (if so_URL op = '''' then in_url inst else so_URL op) in
                        case ev_fetch ev url of
                          Inl f \<Rightarrow> (withFault previous f, m)
                        | Inr manifest \<Rightarrow>
                            (case checkManifest manifest (so_UUID op) (in_duPath inst) m of
                               Some cf \<Rightarrow> (withFault previous cf, m)
                             | None \<Rightarrow>
                                 if app_Version (mf_App manifest) = app_Version (mf_App (in_manifest inst))
                                 then (withFault previous (du_fault ReasonVersionExists ''%s is already at version %s''
                                         [ArgS (so_UUID op), ArgS (app_Version (mf_App manifest))]), m)
                                 else replace_module ev op url previous inst manifest m)))))"

definition uninstall :: "Env \<Rightarrow> Operation \<Rightarrow> Manager \<Rightarrow> Result \<times> Manager" where
  "uninstall ev op m =
     (case findLocked (so_UUID op) (so_Version op) m of
        Inl f \<Rightarrow> (withFault noResult f, m)
      | Inr inst \<Rightarrow>
          if so_ExecutionEnvRef op \<noteq> '''' \<and> TrimSuffix (so_ExecutionEnvRef op) ''.'' \<noteq> ref (in_eePath inst)
          then (withFault noResult (du_fault ReasonUnknownDU ''%s is not installed on %s'' [ArgS (so_UUID op), ArgS (so_ExecutionEnvRef op)]), m)
          else
            (let version = app_Version (mf_App (in_manifest inst)) in
             case not_installed inst m of
               Some f \<Rightarrow> (noResult\<lparr>sr_UUID := so_UUID op, sr_DeploymentUnitRef := ref (in_duPath inst), sr_Version := version,
                           sr_Fault := Some f\<rparr>, m)
             | None \<Rightarrow>
                 (let m1 = setLeaves (in_duPath inst) [(''Status'', ''Uninstalling'')] m;
                      m2 = deleteRow (in_euPath inst) (stop inst m1);
                      m3 = syncActiveUnits (in_eePath inst) m2;
                      m4 = forget inst (deleteRow (in_duPath inst) m3)
                  in (noResult\<lparr>sr_UUID := so_UUID op, sr_Version := version, sr_CurrentState := ''Uninstalled''\<rparr>, m4))))"

definition Manager_Run :: "Env \<Rightarrow> Operation \<Rightarrow> Manager \<Rightarrow> Result \<times> Manager" where
  "Manager_Run ev op m =
     (let (res, m') = (case so_Kind op of
            Install \<Rightarrow> install ev op m
          | Update \<Rightarrow> update ev op m
          | Uninstall \<Rightarrow> uninstall ev op m
          | OtherKind k \<Rightarrow> (withFault noResult (du_fault ReasonInvalidArguments ''unknown operation %v'' [ArgS (OpKind_String (so_Kind op))]), m));
          res1 = res\<lparr>sr_Operation := so_Kind op, sr_StartTime := ev_start ev, sr_CompleteTime := ev_complete ev\<rparr>;
          res2 = (if sr_UUID res1 = '''' then res1\<lparr>sr_UUID := so_UUID op\<rparr> else res1);
          res3 = (if sr_Fault res2 \<noteq> None then res2\<lparr>sr_CurrentState := ''Failed''\<rparr> else res2)
      in (res3, m'))"

section \<open>The CWMP side\<close>

definition toOperation :: "DUStateOperation \<Rightarrow> Operation" where
  "toOperation op =
     \<lparr>so_Kind = (if dop_Kind op = ''install'' then Install else if dop_Kind op = ''update'' then Update
                 else if dop_Kind op = ''uninstall'' then Uninstall else OtherKind 0),
      so_URL = dop_URL op, so_UUID = dop_UUID op, so_Version = dop_Version op, so_ExecutionEnvRef = dop_ExecutionEnvRef op\<rparr>"

definition toOpResult :: "Result \<Rightarrow> OpResult" where
  "toOpResult res =
     \<lparr>or_UUID = sr_UUID res, or_DeploymentUnitRef = sr_DeploymentUnitRef res, or_Version = sr_Version res,
      or_CurrentState = sr_CurrentState res, or_Resolved = sr_Resolved res,
      or_ExecutionUnitRefList = join '','' (sr_ExecutionUnitRefList res), or_StartTime = sr_StartTime res,
      or_CompleteTime = sr_CompleteTime res,
      or_FaultCode = (case sr_Fault res of None \<Rightarrow> 0 | Some f \<Rightarrow> CWMPCode f),
      or_FaultString = (case sr_Fault res of None \<Rightarrow> '''' | Some f \<Rightarrow> Fault_String f)\<rparr>"

text \<open>The operations of one request, each with the environment it meets.\<close>

fun run_operations :: "Env list \<Rightarrow> DUStateOperation list \<Rightarrow> Manager \<Rightarrow> OpResult list \<times> Manager" where
  "run_operations (ev # evs) (op # ops) m =
     (let (res, m1) = Manager_Run ev (toOperation op) m; (rest, m2) = run_operations evs ops m1 in (toOpResult res # rest, m2))"
| "run_operations evs ops m = ([], m)"

definition duStateComplete :: "Env list \<Rightarrow> DUStateRequest \<Rightarrow> Manager \<Rightarrow> DUStateComplete \<times> Manager" where
  "duStateComplete evs req m =
     (let (results, m') = run_operations evs (dr_Operations req) m
      in (\<lparr>du_CommandKey = dr_CommandKey req, du_Results = results\<rparr>, m'))"

text \<open>
  What the accepted request leads to, once its operations have run: the event and the record the next
  session delivers, and the trigger of that session unless the CPE has no session yet.
\<close>

definition buildDUStateScheduler ::
  "bool \<Rightarrow> Env list \<Rightarrow> DUStateRequest \<Rightarrow> Manager \<times> EventTracker \<Rightarrow> (Manager \<times> EventTracker) \<times> Trigger option" where
  "buildDUStateScheduler constructed evs req s =
     (let (complete, m) = duStateComplete evs req (fst s);
          tracker = QueueDUStateChangeComplete complete (QueueMethodChangeDUState (dr_CommandKey req) (snd s))
      in ((m, tracker), if constructed then Some TriggerDUStateChangeComplete else None))"

lemma run_operations_reports:
  "length evs = length ops \<Longrightarrow> run_operations evs ops m = (rs, m') \<Longrightarrow> length rs = length ops"
  by (induction evs ops m arbitrary: rs m' rule: run_operations.induct) (auto split: prod.splits)

text \<open>One record is queued for a request, with one result for each of its operations.\<close>

lemma buildDUStateScheduler_reports:
  assumes "length evs = length (dr_Operations req)"
  shows "\<exists>m rs. buildDUStateScheduler constructed evs req s =
      ((m, QueueDUStateChangeComplete \<lparr>du_CommandKey = dr_CommandKey req, du_Results = rs\<rparr> (QueueMethodChangeDUState (dr_CommandKey req) (snd s))),
       if constructed then Some TriggerDUStateChangeComplete else None)
    \<and> length rs = length (dr_Operations req)"
  using run_operations_reports [OF assms, of "fst s"]
  by (auto simp: buildDUStateScheduler_def duStateComplete_def split: prod.splits)

end
