(* ===== verification/ModuleProps.thy ===== *)
theory ModuleProps
  imports SoftwareModules
begin

text \<open>
  Properties of the software module operations: what a failed operation leaves behind, what an install
  adds and an uninstall takes away, and which installations a manager can have.
\<close>

section \<open>Rows and leaves\<close>

lemma Manager_eq: "m = m\<lparr>mg_tree := mg_tree m\<rparr>"
  by simp

text \<open>The state besides the tree.\<close>

definition same_rest :: "Manager \<Rightarrow> Manager \<Rightarrow> bool" where
  "same_rest m m' \<longleftrightarrow> mg_cfg m' = mg_cfg m \<and> mg_gens m' = mg_gens m \<and> mg_fleet m' = mg_fleet m \<and> mg_installed m' = mg_installed m"

lemma same_rest_refl [simp]: "same_rest m m" "same_rest m (m\<lparr>mg_tree := t\<rparr>)"
  by (simp_all add: same_rest_def)

lemma same_rest_trans: "same_rest m m' \<Longrightarrow> same_rest m' m'' \<Longrightarrow> same_rest m m''"
  by (simp add: same_rest_def)

lemma setLeaves_rest [simp]:
  "mg_cfg (setLeaves row vals m) = mg_cfg m" "mg_gens (setLeaves row vals m) = mg_gens m"
  "mg_fleet (setLeaves row vals m) = mg_fleet m" "mg_installed (setLeaves row vals m) = mg_installed m"
  by (simp_all add: setLeaves_def)

lemma deleteRow_rest [simp]:
  "mg_cfg (deleteRow row m) = mg_cfg m" "mg_gens (deleteRow row m) = mg_gens m"
  "mg_fleet (deleteRow row m) = mg_fleet m" "mg_installed (deleteRow row m) = mg_installed m"
  by (simp_all add: deleteRow_def)

lemma unmount_rest [simp]:
  "mg_cfg (unmount roots m) = mg_cfg m" "mg_gens (unmount roots m) = mg_gens m"
  "mg_fleet (unmount roots m) = mg_fleet m" "mg_installed (unmount roots m) = mg_installed m"
  by (simp_all add: unmount_def)

abbreviation mroot :: "Manager \<Rightarrow> Node" where
  "mroot m \<equiv> root (mg_tree m)"

lemma setLeaves_Nil [simp]: "setLeaves row [] m = m"
  by (simp add: setLeaves_def)

lemma setLeaves_Cons: "setLeaves row ((lf, v) # vals) m = setLeaves row vals (m\<lparr>mg_tree := snd (SetSystem (row @ lf) v (mg_tree m))\<rparr>)"
  by (simp add: setLeaves_def)

lemma setLeaves_pending:
  "row_pending segs k r (mroot m) \<Longrightarrow> row_pending segs k r (mroot (setLeaves (dotted (segs @ [k])) vals m))"
proof (induction vals arbitrary: m)
  case (Cons v vals)
  obtain lf x where v: "v = (lf, x)" by (cases v)
  show ?case using Cons.IH [of "m\<lparr>mg_tree := snd (SetSystem (dotted (segs @ [k]) @ lf) x (mg_tree m))\<rparr>"]
      SetSystem_pending [OF Cons.prems] unfolding v setLeaves_Cons by simp
qed simp

lemma frame_setLeaves:
  assumes "valid_segs row" and "row \<noteq> []"
  shows "frame (below row) {} (mroot m) (mroot (setLeaves (dotted row) vals m))"
proof (induction vals arbitrary: m)
  case (Cons v vals)
  obtain lf x where v: "v = (lf, x)" by (cases v)
  have "frame (below row) {} (mroot m) (root (snd (SetSystem (dotted row @ lf) x (mg_tree m))))"
    by (rule frame_mono [OF frame_SetSystem]) (use parse_dotted_below [OF _ assms] in auto)
  with Cons.IH [of "m\<lparr>mg_tree := snd (SetSystem (dotted row @ lf) x (mg_tree m))\<rparr>"] show ?case
    unfolding v setLeaves_Cons by (auto intro: frame_trans)
qed simp

lemma wf_setLeaves: "wf_node (mroot m) \<Longrightarrow> wf_node (mroot (setLeaves row vals m))"
  by (induction vals arbitrary: m) (auto simp: setLeaves_Cons wf_SetSystem)

text \<open>The object the manager works on, and a table of it.\<close>

definition sm_at :: "string list \<Rightarrow> Manager \<Rightarrow> bool" where
  "sm_at sp m \<longleftrightarrow> sp \<noteq> [] \<and> valid_segs sp \<and> sm_Path (mg_cfg m) = dotted sp"


lemma addRow_Inr:
  assumes "addRow (tab @ ''.'') req m = (Inr path, m')" and "sm_at sp m" and "valid_segs [tab]" and "wf_node (mroot m)"
    and room: "\<And>n. node_at (sp @ [tab]) (mroot m) = Some n \<Longrightarrow> length (children n) < 2 ^ 62"
  obtains i where "path = dotted (sp @ [tab, Itoa i])" "row_pending (sp @ [tab]) (Itoa i) (mroot m) (mroot m')"
    "same_rest m m'" "wf_node (mroot m')" "\<forall>lf \<in> set req. \<not> is_err (Get (path @ lf) (mg_tree m'))"
proof -
  have parent: "sm_Path (mg_cfg m) @ tab @ ''.'' = dotted (sp @ [tab])"
    using assms(2) dotted_child [of sp tab] by (simp add: sm_at_def)
  from assms(1) obtain i t where add: "AddObject (dotted (sp @ [tab])) (mg_tree m) = (Inr i, t)"
    and path: "path = dotted (sp @ [tab]) @ Itoa i @ ''.''" and m': "m' = m\<lparr>mg_tree := t\<rparr>"
    and req: "find (\<lambda>lf. is_err (Get (path @ lf) t)) req = None"
    by (auto simp: addRow_def parent Let_def split: prod.splits sum.splits option.splits)
  have segs: "valid_segs (sp @ [tab])" using assms(2,3) by (simp add: sm_at_def)
  have "row_pending (sp @ [tab]) (Itoa i) (mroot m) (root t)"
    by (rule AddObject_pending [OF add segs]) (use assms(4) room in auto)
  moreover have "path = dotted (sp @ [tab, Itoa i])" using path dotted_child [of "sp @ [tab]" "Itoa i"] by simp
  moreover have "wf_node (root t)" using wf_AddObject [OF assms(4), of "dotted (sp @ [tab])"] add by simp
  ultimately show ?thesis using that m' req by (auto simp: find_None_iff)
qed

lemma addRow_Inl:
  assumes "addRow (tab @ ''.'') req m = (Inl f, m')" and "sm_at sp m" and "valid_segs [tab]" and "wf_node (mroot m)"
    and "table_ready (sp @ [tab]) (mroot m)"
  shows "mroot m' = mroot m \<and> same_rest m m'"
proof -
  have parent: "sm_Path (mg_cfg m) @ tab @ ''.'' = dotted (sp @ [tab])"
    using assms(2) dotted_child [of sp tab] by (simp add: sm_at_def)
  have segs: "valid_segs (sp @ [tab])" using assms(2,3) by (simp add: sm_at_def)
  obtain res t where add: "AddObject (dotted (sp @ [tab])) (mg_tree m) = (res, t)" by (cases "AddObject (dotted (sp @ [tab])) (mg_tree m)")
  show ?thesis
  proof (cases res)
    case (Inl e)
    then have "t = mg_tree m" using add AddObject_fails_same by blast
    then show ?thesis using assms(1) add Inl by (auto simp: addRow_def parent Let_def)
  next
    case (Inr i)
    then have m': "m' = deleteRow (dotted (sp @ [tab]) @ Itoa i @ ''.'') (m\<lparr>mg_tree := t\<rparr>)"
      using assms(1) add by (auto simp: addRow_def parent Let_def split: option.splits)
    have path: "dotted (sp @ [tab]) @ Itoa i @ ''.'' = dotted ((sp @ [tab]) @ [Itoa i])" by (rule dotted_child) simp
    have "row_pending (sp @ [tab]) (Itoa i) (mroot m) (root t)"
      by (rule AddObject_pending [OF _ segs]) (use add Inr assms(4,5) in \<open>auto simp: table_ready_def\<close>)
    then have "mroot m' = mroot m"
      using DeleteObject_pending [of "sp @ [tab]" "Itoa i" "mroot m" t] assms(5) unfolding m' path deleteRow_def
      by (simp add: table_ready_def)
    then show ?thesis by (simp add: m' same_rest_def)
  qed
qed

section \<open>Failed installs\<close>

text \<open>A module that can be merged into the data model: its fragment is a tree with nothing at the
  software modules object and adds no instance to an existing table (those \<^verbatim>\<open>Unmount\<close> refuses).\<close>

definition mergeable :: "string list \<Rightarrow> Node \<Rightarrow> AppManifest \<Rightarrow> bool" where
  "mergeable sp r mf \<longleftrightarrow> wf_node (root (mf_Tree mf)) \<and> \<not> isLeaf (root (mf_Tree mf)) \<and> node_at sp (root (mf_Tree mf)) = None
     \<and> (\<forall>p c. graft_point r (root (mf_Tree mf)) p c \<longrightarrow> \<not> instance_point r p)"

lemma mergeable_frame:
  assumes "mergeable sp r mf" and "frame T S r r'" and "\<And>q. q \<in> S \<Longrightarrow> prefix sp q" and "node_at sp r' \<noteq> None"
  shows "mergeable sp r' mf"
  unfolding mergeable_def
proof (intro conjI allI impI)
  fix p c assume g: "graft_point r' (root (mf_Tree mf)) p c"
  have n: "node_at sp (root (mf_Tree mf)) = None" using assms(1) by (simp add: mergeable_def)
  note f = graft_points_frame [OF assms(2,3) n assms(4) g]
  show "\<not> instance_point r' p" using f assms(1) unfolding mergeable_def by blast
qed (use assms(1) in \<open>simp_all add: mergeable_def\<close>)

definition sm_ready :: "string list \<Rightarrow> Manager \<Rightarrow> bool" where
  "sm_ready sp m \<longleftrightarrow> sm_at sp m \<and> wf_node (mroot m) \<and> \<not> isLeaf (mroot m)
     \<and> table_ready (sp @ [''DeploymentUnit'']) (mroot m) \<and> table_ready (sp @ [''ExecutionUnit'']) (mroot m)"

lemma table_names: "valid_segs [''DeploymentUnit'']" "valid_segs [''ExecutionUnit'']" "valid_segs [''ExecEnv'']"
  by code_simp+

lemma tables_dotted: "DeploymentUnitTable = ''DeploymentUnit'' @ ''.''" "ExecutionUnitTable = ''ExecutionUnit'' @ ''.''"
  by simp_all

text \<open>Grafting keeps everything at and below the software modules object.\<close>

lemma Graft_mergeable:
  assumes "Graft (Some (mf_Tree mf)) t = (Inr roots, t')" and "mergeable sp (root t) mf" and "wf_node (root t)" and "\<not> isLeaf (root t)"
    and "node_at sp (root t) \<noteq> None"
  shows "frame (below_roots roots) (below_roots roots) (root t) (root t')"
    and "q \<in> below_roots roots \<Longrightarrow> \<not> prefix sp q \<and> \<not> prefix q sp" and "wf_node (root t')" and "\<not> isLeaf (root t')"
proof -
  have f: "\<not> isLeaf (root (mf_Tree mf))" "wf_node (root (mf_Tree mf))" "node_at sp (root (mf_Tree mf)) = None"
    using assms(2) by (simp_all add: mergeable_def)
  note g = Graft_points [OF assms(1,4) f(1,2)]
  show fr: "frame (below_roots roots) (below_roots roots) (root t) (root t')" by (rule g(2))
  show out: "q \<in> below_roots roots \<Longrightarrow> \<not> prefix sp q \<and> \<not> prefix q sp" for q
  proof -
    assume "q \<in> below_roots roots"
    then obtain p c where p: "graft_point (root t) (root (mf_Tree mf)) p c" "prefix p q"
      unfolding below_roots_def g(1) by auto
    from graft_apart [OF p(1) f(3) assms(5)] p(2) show ?thesis
      using prefix_order.trans [of p q sp] prefix_same_cases [of p q sp] by blast
  qed
  show "wf_node (root t')" using wf_Graft [OF assms(3,4) f(2,1)] assms(1) by simp
  have "[] \<notin> below_roots roots" using out [of "[]"] by auto
  then have "obs_at [] (root t') = obs_at [] (root t)" by (rule frame_obs [OF fr])
  then show "\<not> isLeaf (root t')" using assms(4) by (simp add: obs_at_def isLeaf_def)
qed

lemma counter_path_snoc: "counter_path (sp @ [tab]) = sp @ [tab @ ''NumberOfEntries'']"
  by (simp add: counter_path_def)

text \<open>A start that fails leaves the data model as it was.\<close>

lemma start_fails:
  assumes "start ev mf eePath m = (Inl f, m')" and "sm_at sp m" and "mergeable sp (mroot m) mf" and "wf_node (mroot m)"
    and "\<not> isLeaf (mroot m)" and "node_at sp (mroot m) \<noteq> None" and "table_ready (sp @ [''ExecutionUnit'']) (mroot m)"
  shows "mroot m' = mroot m \<and> same_rest m m'"
proof (cases "Graft (Some (mf_Tree mf)) (mg_tree m)")
  case (Pair res t)
  show ?thesis
  proof (cases res)
    case (Inl e)
    then have "t = mg_tree m" using Pair by (auto simp: Graft_def Let_def split: sum.splits)
    then show ?thesis using assms(1) Pair Inl by (auto simp: start_def)
  next
    case (Inr roots)
    note g = Graft_mergeable [OF Pair [unfolded Inr] assms(3-6)]
    have "table_ready (sp @ [''ExecutionUnit'']) (root t)"
      by (rule table_ready_frame [OF assms(7) g(1) assms(4) g(3)]) (auto simp: counter_path_snoc dest!: g(2))
    moreover obtain m1 where m1: "addRow (''ExecutionUnit'' @ ''.'') requiredEULeaves (m\<lparr>mg_tree := t\<rparr>) = (Inl f, m1)" "m' = unmount roots m1"
      using assms(1) Pair Inr by (auto simp: start_def Let_def split: prod.splits sum.splits)
    ultimately have m1': "mroot m1 = root t" "same_rest m m1"
      using addRow_Inl [OF m1(1) _ table_names(2), of sp] assms(2) g(3) by (auto simp: sm_at_def same_rest_def)
    have f: "\<not> isLeaf (root (mf_Tree mf))" "wf_node (root (mf_Tree mf))"
      "\<forall>p c. graft_point (mroot m) (root (mf_Tree mf)) p c \<longrightarrow> \<not> instance_point (mroot m) p"
      using assms(3) by (auto simp: mergeable_def)
    have gr: "Graft (Some (mf_Tree mf)) (mg_tree m) = (Inr roots, t)" using Pair Inr by simp
    from unmount_grafted [OF gr assms(5) f m1'(1)] obtain t2
      where "unmount_each roots (mg_tree m1) = (map (\<lambda>_. Inr ()) roots, t2)" "root t2 = mroot m" by blast
    then show ?thesis using m1(2) m1'(2) by (simp add: unmount_def same_rest_def)
  qed
qed

text \<open>The node above a row that is pending.\<close>

lemma pending_parent: "row_pending (sp @ [tab]) k r r' \<Longrightarrow> node_at sp r' \<noteq> None"
proof -
  assume "row_pending (sp @ [tab]) k r r'"
  then obtain n c where "node_at (sp @ [tab]) r = Some n" "r' = table_root (sp @ [tab]) (set_child k c n) r"
    by (auto simp: row_pending_def)
  then have "node_at (sp @ [tab]) r' \<noteq> None" by (simp add: table_root_node)
  then show ?thesis by (auto simp: node_at_append split: option.splits)
qed

lemma frame_not_leaf: "frame T S r r' \<Longrightarrow> [] \<notin> S \<Longrightarrow> \<not> isLeaf r \<Longrightarrow> \<not> isLeaf r'"
  using frame_shape [of T S r r' "[]"] by (auto simp: shape_at_def obs_at_def isLeaf_def)

lemma undo_restores:
  assumes "undo duPath f uuid version m = (res, m')" and "row_pending segs k r (mroot m)" and "duPath = dotted (segs @ [k])"
    and "counter_honest segs r"
  shows "mroot m' = r \<and> same_rest m m'"
  using assms DeleteObject_pending [of segs k r "mg_tree m"] by (auto simp: undo_def deleteRow_def)

lemma install_module_fails:
  assumes run: "install_module ev op eePath duPath mf m = (res, m')" and fault: "sr_Fault res \<noteq> None" and at: "sm_at sp m"
    and pend: "row_pending (sp @ [''DeploymentUnit'']) k r (mroot m)" and du: "duPath = dotted ((sp @ [''DeploymentUnit'']) @ [k])"
    and ready: "table_ready (sp @ [''DeploymentUnit'']) r" "table_ready (sp @ [''ExecutionUnit'']) r"
    and wf: "wf_node r" "wf_node (mroot m)" "\<not> isLeaf r" and fit: "mergeable sp r mf"
  shows "mroot m' = r \<and> same_rest m m'"
proof -
  let ?segs = "sp @ [''DeploymentUnit'']"
  define uuid where "uuid = (if so_UUID op = '''' then AppUUID (ev_sha1 ev) (mf_App mf) else so_UUID op)"
  define m1 where "m1 = setLeaves duPath [(''UUID'', uuid)] m"
  define m2 where "m2 = setLeaves duPath [(''Name'', app_Name (mf_App mf)), (''Version'', app_Version (mf_App mf)), (''Vendor'', app_Vendor (mf_App mf)),
                         (''Description'', app_Description (mf_App mf)), (''DUID'', app_Name (mf_App mf))] m1"
  have rest: "same_rest m m1" "same_rest m m2" by (simp_all add: m1_def m2_def same_rest_def)
  have p1: "row_pending ?segs k r (mroot m1)" using pend du by (simp only: m1_def setLeaves_pending)
  then have p2: "row_pending ?segs k r (mroot m2)" using du by (simp only: m2_def setLeaves_pending)
  have honest: "counter_honest ?segs r" using ready(1) by (simp add: table_ready_def)
  have undone: "mroot m' = r \<and> same_rest m m'" if "undo duPath f u v m0 = (res, m')" "same_rest m m0" "row_pending ?segs k r (mroot m0)" for f u v m0
    using undo_restores [OF that(1,3) du honest] same_rest_trans [OF that(2)] by blast
  have fr: "frame (below (?segs @ [k]) \<union> {counter_path ?segs}) (below (?segs @ [k])) r (mroot m2)" by (rule pending_frame [OF p2])
  have wf2: "wf_node (mroot m2)" using wf by (simp add: m1_def m2_def wf_setLeaves)
  have nl: "\<not> isLeaf (mroot m2)" by (rule frame_not_leaf [OF fr _ wf(3)]) simp
  have there: "node_at sp (mroot m2) \<noteq> None" by (rule pending_parent [OF p2])
  have fit2: "mergeable sp (mroot m2) mf" by (rule mergeable_frame [OF fit fr _ there]) (auto simp: prefix_def)
  have eu: "table_ready (sp @ [''ExecutionUnit'']) (mroot m2)"
    by (rule table_ready_frame [OF ready(2) fr wf(1) wf2]) (auto simp: counter_path_snoc)
  have started: "mroot m3 = mroot m2 \<and> same_rest m2 m3" if "start ev mf eePath m2 = (Inl f, m3)" for f m3
    by (rule start_fails [OF that _ fit2 wf2 nl there eu]) (use at rest in \<open>simp add: sm_at_def same_rest_def\<close>)
  note defs = install_module_def Let_def uuid_def [symmetric] m1_def [symmetric] m2_def [symmetric]
  show ?thesis
  proof (cases "checkManifest mf uuid '''' m1")
    case (Some cf)
    then show ?thesis using run undone [OF _ rest(1) p1] by (simp add: defs)
  next
    case check: None
    show ?thesis
    proof (cases "sleep ev (sm_InstallDelay (mg_cfg m))")
      case (Some e)
      then show ?thesis using run check undone [OF _ rest(2) p2] by (simp add: defs)
    next
      case sl: None
      obtain sres m3 where s: "start ev mf eePath m2 = (sres, m3)" by (cases "start ev mf eePath m2")
      show ?thesis
      proof (cases sres)
        case (Inl f)
        then have "mroot m3 = mroot m2" "same_rest m m3" using started s same_rest_trans [OF rest(2)] by blast+
        then show ?thesis using run check sl s Inl undone [of _ _ _ m3] p2 by (simp add: defs)
      next
        case (Inr re)
        then show ?thesis using run check sl s fault by (cases re) (auto simp: defs noResult_def)
      qed
    qed
  qed
qed


section \<open>Results\<close>

text \<open>A fault with a row in the table of codes.\<close>

definition known_fault :: "DUFault \<Rightarrow> bool" where
  "known_fault f \<longleftrightarrow> fa_Reason f \<in> fst ` set codes"

definition faults_known :: "Env \<Rightarrow> Manager \<Rightarrow> bool" where
  "faults_known ev m \<longleftrightarrow> (\<forall>url f. ev_fetch ev url = Inl f \<longrightarrow> known_fault f) \<and> (\<forall>nf \<in> set (sm_Faults (mg_cfg m)). known_fault (snd nf))"

lemma reason_du_fault [simp]: "fa_Reason (du_fault reason fmt args) = reason"
  by (simp add: du_fault_def)

lemma known_CWMPCode: "known_fault f \<Longrightarrow> CWMPCode f \<noteq> 0 \<and> USPCode f \<noteq> 0"
  by (auto simp: known_fault_def codes_def CWMPCode_def USPCode_def)

lemma known_reasons [simp]:
  "known_fault (du_fault ReasonRequestDenied fmt args)" "known_fault (du_fault ReasonInvalidArguments fmt args)"
  "known_fault (du_fault ReasonUnknownExecEnv fmt args)" "known_fault (du_fault ReasonDisabledExecEnv fmt args)"
  "known_fault (du_fault ReasonMismatch fmt args)" "known_fault (du_fault ReasonDuplicate fmt args)"
  "known_fault (du_fault ReasonUnknownDU fmt args)" "known_fault (du_fault ReasonInvalidState fmt args)"
  "known_fault (du_fault ReasonVersionExists fmt args)"
  by (simp_all add: known_fault_def codes_def)

lemma known_addRow: "addRow tab req m = (Inl f, m') \<Longrightarrow> known_fault f"
  by (auto simp: addRow_def Let_def split: prod.splits sum.splits option.splits)

lemma known_start: "start ev mf ee m = (Inl f, m') \<Longrightarrow> known_fault f"
  by (auto simp: start_def Let_def split: prod.splits sum.splits dest: known_addRow)

lemma known_execEnv: "execEnv eref m = Inl f \<Longrightarrow> known_fault f"
  by (auto simp: execEnv_def Let_def split: sum.splits list.splits if_splits)

lemma known_findLocked: "findLocked uuid version m = Inl f \<Longrightarrow> known_fault f"
  by (auto simp: findLocked_def split: list.splits if_splits)

lemma known_checkInstallArgs: "checkInstallArgs op = Some f \<Longrightarrow> known_fault f"
  by (auto simp: checkInstallArgs_def split: if_splits)

lemma known_not_installed: "not_installed inst m = Some f \<Longrightarrow> known_fault f"
  by (auto simp: not_installed_def split: sum.splits if_splits)

lemma known_checkManifest: "checkManifest mf uuid except m = Some f \<Longrightarrow> faults_known ev m \<Longrightarrow> known_fault f"
  by (auto simp: checkManifest_def faults_known_def split: option.splits dest!: map_of_SomeD)

lemma known_fetch: "ev_fetch ev url = Inl f \<Longrightarrow> faults_known ev m \<Longrightarrow> known_fault f"
  by (auto simp: faults_known_def)

lemmas known_facts = known_addRow known_start known_execEnv known_findLocked known_checkInstallArgs known_not_installed
  known_checkManifest known_fetch

text \<open>A result is a known fault or the state an operation of this kind ends in.\<close>

definition outcome :: "string \<Rightarrow> Result \<Rightarrow> bool" where
  "outcome final res \<longleftrightarrow> (case sr_Fault res of None \<Rightarrow> sr_CurrentState res = final | Some f \<Rightarrow> known_fault f)"

lemma outcome_withFault [simp]: "outcome final (withFault r f) = known_fault f"
  by (simp add: outcome_def withFault_def)

lemma outcome_undo: "undo duPath f uuid version m = (res, m') \<Longrightarrow> known_fault f \<Longrightarrow> outcome final res"
  by (auto simp: undo_def outcome_def)

lemma outcome_install_module:
  assumes "install_module ev op ee du mf m = (res, m')" and k: "faults_known ev m"
  shows "outcome ''Installed'' res"
proof -
  define m1 where "m1 = setLeaves du [(''UUID'', if so_UUID op = '''' then AppUUID (ev_sha1 ev) (mf_App mf) else so_UUID op)] m"
  have "faults_known ev m1" using k by (simp add: m1_def faults_known_def)
  note defs = install_module_def Let_def m1_def [symmetric]
  show ?thesis
  proof (cases "checkManifest mf (if so_UUID op = '''' then AppUUID (ev_sha1 ev) (mf_App mf) else so_UUID op) '''' m1")
    case (Some cf)
    then show ?thesis using assms(1) known_checkManifest [OF Some \<open>faults_known ev m1\<close>] by (simp add: defs outcome_undo)
  next
    case check: None
    show ?thesis
    proof (cases "sleep ev (sm_InstallDelay (mg_cfg m))")
      case (Some e)
      then show ?thesis using assms(1) check by (simp add: defs) (auto dest: outcome_undo)
    next
      case None
      define m2 where "m2 = setLeaves du [(''Name'', app_Name (mf_App mf)), (''Version'', app_Version (mf_App mf)), (''Vendor'', app_Vendor (mf_App mf)),
                         (''Description'', app_Description (mf_App mf)), (''DUID'', app_Name (mf_App mf))] m1"
      obtain sres m3 where s: "start ev mf ee m2 = (sres, m3)" by (cases "start ev mf ee m2")
      show ?thesis
      proof (cases sres)
        case (Inl f)
        then show ?thesis using assms(1) check None s known_start [of ev mf ee m2 f m3]
          by (simp add: defs m2_def [symmetric] outcome_undo)
      next
        case (Inr re)
        then show ?thesis using assms(1) check None s
          by (cases re) (auto simp: defs m2_def [symmetric] outcome_def noResult_def)
      qed
    qed
  qed
qed

lemma outcome_install:
  assumes "install ev op m = (res, m')" and k: "faults_known ev m"
  shows "outcome ''Installed'' res"
proof (cases "checkInstallArgs op")
  case (Some f)
  then show ?thesis using assms(1) known_checkInstallArgs [OF Some] by (auto simp: install_def)
next
  case args: None
  show ?thesis
  proof (cases "execEnv (so_ExecutionEnvRef op) m")
    case (Inl f)
    then show ?thesis using assms(1) args known_execEnv [OF Inl] by (auto simp: install_def)
  next
    case ee: (Inr eePath)
    obtain ares m1 where a: "addRow DeploymentUnitTable requiredDULeaves m = (ares, m1)" by (cases "addRow DeploymentUnitTable requiredDULeaves m")
    show ?thesis
    proof (cases ares)
      case (Inl f)
      then show ?thesis using assms(1) args ee a known_addRow [OF a [unfolded Inl]] by (auto simp: install_def)
    next
      case (Inr du)
      have c: "mg_cfg m1 = mg_cfg m" using a by (auto simp: addRow_def Let_def split: prod.splits sum.splits option.splits)
      show ?thesis
      proof (cases "ev_fetch ev (so_URL op)")
        case (Inl f)
        then show ?thesis using assms(1) args ee a Inr known_fetch [OF Inl k] by (simp add: install_def Let_def outcome_undo)
      next
        case mf: (Inr mf)
        then show ?thesis using assms(1) args ee a Inr
            outcome_install_module [of ev op eePath du mf "setLeaves du [(''UUID'', so_UUID op), (''Status'', ''Installing''), (''Resolved'', ''false''),
                                (''URL'', so_URL op), (''ExecutionEnvRef'', ref eePath)] m1" res m'] k
          by (simp add: install_def Let_def faults_known_def c)
      qed
    qed
  qed
qed

lemma outcome_replace_module:
  assumes "replace_module ev op url previous inst mf m = (res, m')"
  shows "outcome ''Installed'' res"
proof -
  define m2 where "m2 = deleteRow (in_euPath inst) (stop inst (setLeaves (in_duPath inst) [(''Status'', ''Updating''), (''URL'', url)] m))"
  note defs = replace_module_def Let_def m2_def [symmetric]
  show ?thesis
  proof (cases "sleep ev (sm_InstallDelay (mg_cfg m))")
    case (Some e)
    then show ?thesis using assms by (auto simp: defs outcome_def withFault_def)
  next
    case sl: None
    obtain sres m3 where s: "start ev mf (in_eePath inst) m2 = (sres, m3)" by (cases "start ev mf (in_eePath inst) m2")
    show ?thesis
    proof (cases sres)
      case (Inl f)
      obtain rres m4 where r: "start ev (in_manifest inst) (in_eePath inst) m3 = (rres, m4)"
        by (cases "start ev (in_manifest inst) (in_eePath inst) m3")
      show ?thesis using assms sl s Inl r known_start [OF s [unfolded Inl]]
        by (cases rres) (auto simp: defs outcome_def withFault_def)
    next
      case (Inr re)
      then show ?thesis using assms sl s by (cases re) (auto simp: defs outcome_def noResult_def)
    qed
  qed
qed

lemma outcome_update:
  assumes "update ev op m = (res, m')" and k: "faults_known ev m"
  shows "outcome ''Installed'' res"
proof (cases "findLocked (so_UUID op) (so_Version op) m")
  case (Inl f)
  then show ?thesis using assms(1) known_findLocked [OF Inl] by (auto simp: update_def)
next
  case inst: (Inr inst)
  define previous where "previous = noResult\<lparr>sr_UUID := so_UUID op, sr_DeploymentUnitRef := ref (in_duPath inst),
                 sr_Version := app_Version (mf_App (in_manifest inst)), sr_CurrentState := ''Installed'', sr_Resolved := True,
                 sr_ExecutionUnitRefList := [ref (in_euPath inst)]\<rparr>"
  define url where "url = (if so_URL op = '''' then in_url inst else so_URL op)"
  note defs = update_def Let_def previous_def [symmetric] url_def [symmetric]
  consider f where "res = withFault previous f" "known_fault f"
    | mf where "replace_module ev op url previous inst mf m = (res, m')"
  proof (cases "not_installed inst m")
    case (Some f)
    then show thesis using that assms(1) inst known_not_installed [OF Some] by (auto simp: defs)
  next
    case ni: None
    show thesis
    proof (cases "execEnv (ref (in_eePath inst)) m")
      case (Inl f)
      then show thesis using that assms(1) inst ni known_execEnv [OF Inl] by (auto simp: defs)
    next
      case ee: (Inr ee)
      show thesis
      proof (cases "ev_fetch ev url")
        case (Inl f)
        then show thesis using that assms(1) inst ni ee known_fetch [OF Inl k] by (auto simp: defs)
      next
        case mf: (Inr mf)
        then show thesis using that assms(1) inst ni ee known_checkManifest [of mf "so_UUID op" "in_duPath inst" m _ ev] k
          by (cases "checkManifest mf (so_UUID op) (in_duPath inst) m") (auto simp: defs split: if_splits)
      qed
    qed
  qed
  then show ?thesis by cases (auto dest: outcome_replace_module)
qed

lemma outcome_uninstall:
  assumes "uninstall ev op m = (res, m')"
  shows "outcome ''Uninstalled'' res"
proof (cases "findLocked (so_UUID op) (so_Version op) m")
  case (Inl f)
  then show ?thesis using assms known_findLocked [OF Inl] by (auto simp: uninstall_def)
next
  case (Inr inst)
  then show ?thesis using assms known_not_installed [of inst m]
    by (cases "not_installed inst m") (auto simp: uninstall_def Let_def outcome_def withFault_def noResult_def split: if_splits)
qed

text \<open>The result of an operation says what happened.  It names the kind of the operation and carries a
  fault exactly when its state is \<^verbatim>\<open>Failed\<close>, and the CWMP record made of it then has a fault code other
  than 0; without a fault the unit is \<^verbatim>\<open>Installed\<close> after an install or update and \<^verbatim>\<open>Uninstalled\<close> after an
  uninstall.  The faults the profile injects and the fetcher returns must be in the table of codes.\<close>

theorem result_says_what_happened:
  assumes run: "Manager_Run ev op m = (res, m')" and "faults_known ev m"
  shows "sr_Operation res = so_Kind op
    \<and> (sr_Fault res \<noteq> None \<longleftrightarrow> sr_CurrentState res = ''Failed'')
    \<and> (sr_Fault res \<noteq> None \<longleftrightarrow> or_FaultCode (toOpResult res) \<noteq> 0)
    \<and> (sr_Fault res = None \<longrightarrow> sr_CurrentState res = (if so_Kind op = Uninstall then ''Uninstalled'' else ''Installed''))"
proof -
  obtain r1 m1 where r1: "(case so_Kind op of Install \<Rightarrow> install ev op m | Update \<Rightarrow> update ev op m | Uninstall \<Rightarrow> uninstall ev op m
      | OtherKind k \<Rightarrow> (withFault noResult (du_fault ReasonInvalidArguments ''unknown operation %v'' [ArgS (OpKind_String (so_Kind op))]), m)) = (r1, m1)"
    by fastforce
  define final where "final = (if so_Kind op = Uninstall then ''Uninstalled'' else ''Installed'')"
  have out: "outcome final r1"
    using r1 assms(2) by (cases "so_Kind op") (auto simp: final_def dest: outcome_install outcome_update outcome_uninstall)
  have res: "sr_Operation res = so_Kind op" "sr_Fault res = sr_Fault r1"
    "sr_CurrentState res = (if sr_Fault r1 \<noteq> None then ''Failed'' else sr_CurrentState r1)"
    using run by (auto simp: Manager_Run_def r1 Let_def)
  show ?thesis unfolding final_def [symmetric] using out res
    by (auto simp: outcome_def toOpResult_def final_def known_CWMPCode split: option.splits)
qed

section \<open>Witnesses\<close>

definition plain_leaf :: Node where
  "plain_leaf = NewLeaf \<lparr>VType = TypeString, Raw = '''', Writable = False\<rparr>"

definition sm_tree :: Tree where
  "sm_tree = New\<lparr>root := Node [(''S'', Node
     [(''ExecEnv'', Node [(''1'', Node [] None None None)] None None None),
      (''DeploymentUnit'', Node [] None None (Some (Node [(''UUID'', plain_leaf), (''Name'', plain_leaf), (''Status'', plain_leaf), (''Version'', plain_leaf)] None None None))),
      (''DeploymentUnitNumberOfEntries'', NewLeaf \<lparr>VType = TypeUnsignedInt, Raw = ''0'', Writable = False\<rparr>),
      (''ExecutionUnit'', Node [] None None (Some (Node [(''Name'', plain_leaf), (''Status'', plain_leaf), (''References'', plain_leaf)] None None None)))]
     None None None), (''B'', Node [] None None None)] None None None\<rparr>"

definition sm_manager :: Manager where
  "sm_manager = \<lparr>mg_cfg = \<lparr>sm_Path = ''S.'', sm_InstallDelay = 0, sm_UninstallDelay = 0, sm_Faults = []\<rparr>, mg_tree = sm_tree,
     mg_gens = None, mg_fleet = NewFleet 0, mg_installed = []\<rparr>"

definition sample_manifest :: "Node \<Rightarrow> AppManifest" where
  "sample_manifest n = \<lparr>mf_App = \<lparr>app_Name = ''a'', app_Version = ''1'', app_Vendor = ''v'', app_Description = '''', app_ExecutionUnit = ''a''\<rparr>,
     mf_Tree = New\<lparr>root := n\<rparr>, mf_Generators = []\<rparr>"

definition sample_env :: "Node \<Rightarrow> Env" where
  "sample_env n = \<lparr>ev_fetch = (\<lambda>_. Inr (sample_manifest n)), ev_sha1 = (\<lambda>_. replicate 20 0), ev_created = '''', ev_rfc3339 = '''',
     ev_start = zero_time, ev_complete = zero_time, ev_cancelled = None\<rparr>"

definition sample_op :: Operation where
  "sample_op = \<lparr>so_Kind = Install, so_URL = ''u'', so_UUID = '''', so_Version = '''', so_ExecutionEnvRef = ''''\<rparr>"

definition apps :: Node where
  "apps = Node [(''A'', plain_leaf)] None None None"

definition clash :: Node where
  "clash = Node [(''B'', plain_leaf)] None None None"

definition row_added :: Manager where
  "row_added = snd (addRow DeploymentUnitTable requiredDULeaves sm_manager)"

definition row_named :: "AppManifest \<Rightarrow> Manager" where
  "row_named mf = setLeaves ''S.DeploymentUnit.1.'' [(''Name'', app_Name (mf_App mf)), (''Version'', app_Version (mf_App mf)), (''Vendor'', app_Vendor (mf_App mf)),
                         (''Description'', app_Description (mf_App mf)), (''DUID'', app_Name (mf_App mf))]
     (setLeaves ''S.DeploymentUnit.1.'' [(''UUID'', ''00000000-0000-5000-8000-000000000000'')]
       (setLeaves ''S.DeploymentUnit.1.'' [(''UUID'', ''''), (''Status'', ''Installing''), (''Resolved'', ''false''),
                                (''URL'', ''u''), (''ExecutionEnvRef'', ''S.ExecEnv.1'')] row_added))"

lemma sample_args: "checkInstallArgs sample_op = None" "execEnv '''' sm_manager = Inr ''S.ExecEnv.1.''"
  "addRow DeploymentUnitTable requiredDULeaves sm_manager = (Inr ''S.DeploymentUnit.1.'', row_added)"
  "AppUUID (\<lambda>_. replicate 20 0) (mf_App (sample_manifest n)) = ''00000000-0000-5000-8000-000000000000''"
  "ref ''S.ExecEnv.1.'' = ''S.ExecEnv.1''"
proof -
  have "fst (addRow DeploymentUnitTable requiredDULeaves sm_manager) = Inr ''S.DeploymentUnit.1.''" by code_simp
  then show "addRow DeploymentUnitTable requiredDULeaves sm_manager = (Inr ''S.DeploymentUnit.1.'', row_added)"
    by (simp add: row_added_def prod_eq_iff)
  have "mf_App (sample_manifest n) = mf_App (sample_manifest apps)" by (simp add: sample_manifest_def)
  moreover have "AppUUID (\<lambda>_. replicate 20 0) (mf_App (sample_manifest apps)) = ''00000000-0000-5000-8000-000000000000''" by code_simp
  ultimately show "AppUUID (\<lambda>_. replicate 20 0) (mf_App (sample_manifest n)) = ''00000000-0000-5000-8000-000000000000''" by simp
qed code_simp+

lemma row_added_rest: "mg_cfg row_added = mg_cfg sm_manager" "mg_installed row_added = []" "mg_gens row_added = None"
  by code_simp+

lemma sample_install:
  "install (sample_env n) sample_op sm_manager =
     install_module (sample_env n) sample_op ''S.ExecEnv.1.'' ''S.DeploymentUnit.1.'' (sample_manifest n)
       (setLeaves ''S.DeploymentUnit.1.'' [(''UUID'', ''''), (''Status'', ''Installing''), (''Resolved'', ''false''),
                                (''URL'', ''u''), (''ExecutionEnvRef'', ''S.ExecEnv.1'')] row_added)"
  using sample_args(2) by (simp add: install_def sample_args(1,3,5) sample_op_def [THEN arg_cong [where f = so_ExecutionEnvRef]] Let_def
      sample_env_def [THEN arg_cong [where f = ev_fetch]] sample_op_def [THEN arg_cong [where f = so_URL]] sample_op_def [THEN arg_cong [where f = so_UUID]])

lemma sample_install_module:
  "install (sample_env n) sample_op sm_manager =
     (case start (sample_env n) (sample_manifest n) ''S.ExecEnv.1.'' (row_named (sample_manifest n)) of
        (Inl f, m3) \<Rightarrow> undo ''S.DeploymentUnit.1.'' f ''00000000-0000-5000-8000-000000000000'' ''1'' m3
      | (Inr (roots, euPath), m3) \<Rightarrow>
          (noResult\<lparr>sr_UUID := ''00000000-0000-5000-8000-000000000000'', sr_DeploymentUnitRef := ref ''S.DeploymentUnit.1.'', sr_Version := ''1'',
             sr_CurrentState := ''Installed'', sr_Resolved := True, sr_ExecutionUnitRefList := [ref euPath]\<rparr>,
           syncActiveUnits ''S.ExecEnv.1.'' (remember
             \<lparr>in_duPath = ''S.DeploymentUnit.1.'', in_euPath = euPath, in_eePath = ''S.ExecEnv.1.'', in_manifest = sample_manifest n, in_url = ''u'', in_roots = roots\<rparr>
             (setLeaves ''S.DeploymentUnit.1.'' [(''Status'', ''Installed''), (''Resolved'', ''true''),
                (''ExecutionUnitList'', ref euPath), (''Installed'', ''''), (''LastUpdate'', '''')] m3))))"
proof -
  have u: "so_UUID sample_op = ''''" "so_URL sample_op = ''u''" "ev_sha1 (sample_env n) = (\<lambda>_. replicate 20 0)" "ev_rfc3339 (sample_env n) = ''''"
    "app_Version (mf_App (sample_manifest n)) = ''1''" "sm_InstallDelay (mg_cfg row_added) = 0" "sm_Faults (mg_cfg row_added) = []"
    by (simp_all add: sample_op_def sample_env_def sample_manifest_def row_added_rest sm_manager_def)
  have ck: "checkManifest mf uuid '''' m = None" if "mg_installed m = []" "sm_Faults (mg_cfg m) = []" for mf uuid m
    using that by (simp add: checkManifest_def)
  show ?thesis unfolding sample_install install_module_def Let_def u sample_args(4)
    by (simp add: ck u row_added_rest(2) sleep_def row_named_def remember_def split: prod.split sum.split)
qed

lemma clash_fails: "is_err (fst (start (sample_env clash) (sample_manifest clash) ''S.ExecEnv.1.'' (row_named (sample_manifest clash))))"
  unfolding start_def Let_def by code_simp

definition row_merged :: Manager where
  "row_merged = (row_named (sample_manifest apps))\<lparr>mg_tree := snd (Graft (Some (mf_Tree (sample_manifest apps))) (mg_tree (row_named (sample_manifest apps))))\<rparr>"

lemma apps_started: "fst (start (sample_env apps) (sample_manifest apps) ''S.ExecEnv.1.'' (row_named (sample_manifest apps))) = Inr ([''A''], ''S.ExecutionUnit.1.'')"
proof -
  have "fst (Graft (Some (mf_Tree (sample_manifest apps))) (mg_tree (row_named (sample_manifest apps)))) = Inr [''A'']" by code_simp
  then have g: "Graft (Some (mf_Tree (sample_manifest apps))) (mg_tree (row_named (sample_manifest apps))) = (Inr [''A''], mg_tree row_merged)"
    by (simp add: row_merged_def prod_eq_iff)
  have "fst (addRow ExecutionUnitTable requiredEULeaves row_merged) = Inr ''S.ExecutionUnit.1.''" by code_simp
  then obtain m2 where "addRow ExecutionUnitTable requiredEULeaves row_merged = (Inr ''S.ExecutionUnit.1.'', m2)" by (metis prod.collapse)
  moreover have "(row_named (sample_manifest apps))\<lparr>mg_tree := mg_tree row_merged\<rparr> = row_merged" by (simp add: row_merged_def)
  ultimately show ?thesis using g by (simp add: start_def Let_def)
qed

lemma sm_wf: "wf_node (mroot sm_manager)" "\<not> isLeaf (mroot sm_manager)" "node_at [''S''] (mroot sm_manager) \<noteq> None" "sm_at [''S''] sm_manager"
  by code_simp+

lemma sample_ready: "sm_ready [''S''] sm_manager"
proof -
  have "counter_honest [''S'', ''DeploymentUnit''] (mroot sm_manager)" "counter_honest [''S'', ''ExecutionUnit''] (mroot sm_manager)" by code_simp+
  moreover have "map_option (length \<circ> children) (node_at [''S'', ''DeploymentUnit''] (mroot sm_manager)) = Some 0"
    "map_option (length \<circ> children) (node_at [''S'', ''ExecutionUnit''] (mroot sm_manager)) = Some 0" by code_simp+
  ultimately show ?thesis using sm_wf by (auto simp: sm_ready_def table_ready_def)
qed

lemma clash_mergeable: "mergeable [''S''] (mroot sm_manager) (sample_manifest clash)"
proof -
  have p: "p = [''B'']" if "node_at p clash = Some c" "p \<noteq> []" for p c
    using that by (cases p; cases "tl p") (auto simp: clash_def isLeaf_def plain_leaf_def NewLeaf_def split: if_splits)
  have "node_at [''B''] (mroot sm_manager) \<noteq> None" "node_at [''S''] clash = None" "wf_node clash" "\<not> isLeaf clash" by code_simp+
  then show ?thesis using p by (auto simp: mergeable_def graft_point_def sample_manifest_def dest!: p)
qed

lemma clash_install_fails: "sr_Fault (fst (install (sample_env clash) sample_op sm_manager)) \<noteq> None"
proof -
  obtain f m3 where s: "start (sample_env clash) (sample_manifest clash) ''S.ExecEnv.1.'' (row_named (sample_manifest clash)) = (Inl f, m3)"
    using clash_fails by (cases "start (sample_env clash) (sample_manifest clash) ''S.ExecEnv.1.'' (row_named (sample_manifest clash))")
      (auto simp: is_err_def split: sum.splits)
  then show ?thesis by (simp add: sample_install_module undo_def)
qed


theorem result_says_what_happened_witness:
  "sr_CurrentState (fst (Manager_Run (sample_env clash) sample_op sm_manager)) = ''Failed''
   \<and> or_FaultCode (toOpResult (fst (Manager_Run (sample_env clash) sample_op sm_manager))) \<noteq> 0"
proof -
  have "faults_known (sample_env clash) sm_manager" by (simp add: faults_known_def sample_env_def sm_manager_def)
  moreover have "sr_Fault (fst (Manager_Run (sample_env clash) sample_op sm_manager)) \<noteq> None"
    using clash_install_fails
    by (auto simp: Manager_Run_def Let_def case_prod_unfold sample_op_def [THEN arg_cong [where f = so_Kind]])
  ultimately show ?thesis
    using result_says_what_happened [OF prod.collapse [symmetric]] by blast
qed

end
