(* ===== verification/ModuleFrames.thy ===== *)
theory ModuleFrames
  imports ModuleProps
begin

text \<open>
  What the steps of a software module operation touch, as frames: which paths may have another value
  afterwards and which may be new or gone.  The sets are exact, so that later proofs can tell the rows of
  one deployment unit from those of another and from the rest of the data model.
\<close>

section \<open>What the operations touch\<close>

lemma add_generators_tree [simp]:
  "mg_tree (add_generators gs m) = mg_tree m" "mg_cfg (add_generators gs m) = mg_cfg m"
  "mg_gens (add_generators gs m) = mg_gens m" "mg_installed (add_generators gs m) = mg_installed m"
  by (induction gs arbitrary: m) (auto split: option.split)

lemma remove_generators_tree [simp]:
  "mg_tree (remove_generators gs m) = mg_tree m" "mg_cfg (remove_generators gs m) = mg_cfg m"
  "mg_gens (remove_generators gs m) = mg_gens m" "mg_installed (remove_generators gs m) = mg_installed m"
  by (induction gs arbitrary: m) (auto split: option.split)

lemma addRow_installed: "addRow tab req m = (res, m') \<Longrightarrow> mg_installed m' = mg_installed m"
  by (auto simp: addRow_def Let_def split: prod.splits sum.splits option.splits)

lemma start_installed: "start ev mf ee m = (res, m') \<Longrightarrow> mg_installed m' = mg_installed m"
  by (auto simp: start_def Let_def split: prod.splits sum.splits dest!: addRow_installed)

text \<open>The state of the manager and of the tree besides what an operation is about.\<close>

definition alive :: "string list \<Rightarrow> Manager \<Rightarrow> bool" where
  "alive sp m \<longleftrightarrow> sm_at sp m \<and> wf_node (mroot m) \<and> \<not> isLeaf (mroot m) \<and> node_at sp (mroot m) \<noteq> None"

definition moves :: "string list set \<Rightarrow> string list set \<Rightarrow> Manager \<Rightarrow> Manager \<Rightarrow> bool" where
  "moves T S m m' \<longleftrightarrow> frame T S (mroot m) (mroot m') \<and> wf_node (mroot m') \<and> mg_cfg m' = mg_cfg m \<and> mg_gens m' = mg_gens m
     \<and> mg_installed m' = mg_installed m"

lemma moves_trans: "moves T S m m' \<Longrightarrow> moves T S m' m'' \<Longrightarrow> moves T S m m''"
  by (auto simp: moves_def intro: frame_trans)

lemma moves_mono: "moves T S m m' \<Longrightarrow> T \<subseteq> T' \<Longrightarrow> S \<subseteq> S' \<Longrightarrow> moves T' S' m m'"
  by (auto simp: moves_def intro: frame_mono)

lemma moves_refl: "wf_node (mroot m) \<Longrightarrow> moves T S m m"
  by (simp add: moves_def)

lemma alive_moves:
  assumes "alive sp m" and "moves T S m m'" and "\<And>q. q \<in> S \<Longrightarrow> \<not> prefix q sp"
  shows "alive sp m'"
proof -
  have fr: "frame T S (mroot m) (mroot m')" using assms(2) by (simp add: moves_def)
  have "[] \<notin> S" "sp \<notin> S" using assms(3) [of "[]"] assms(3) [of sp] by auto
  then have "\<not> isLeaf (mroot m')" "node_at sp (mroot m') \<noteq> None"
    using frame_not_leaf [OF fr] frame_exists [OF fr, of sp] assms(1) by (auto simp: alive_def obs_at_def)
  then show ?thesis using assms(1,2) by (simp add: alive_def moves_def sm_at_def)
qed

lemma moves_setLeaves:
  "valid_segs row \<Longrightarrow> row \<noteq> [] \<Longrightarrow> wf_node (mroot m) \<Longrightarrow> moves (below row) {} m (setLeaves (dotted row) vals m)"
  by (simp add: moves_def frame_setLeaves wf_setLeaves)

lemma moves_setLeaves_below:
  assumes "valid_segs row" and "row \<noteq> []" and "wf_node (mroot m)"
  shows "moves (below row) {} m (setLeaves (dotted row @ s) vals m)"
proof -
  have "setLeaves (dotted row @ s) vals m = setLeaves (dotted row) (map (\<lambda>(lf, v). (s @ lf, v)) vals) m"
    by (simp add: setLeaves_def fold_map comp_def case_prod_unfold)
  then show ?thesis using moves_setLeaves [OF assms] by simp
qed

lemma moves_deleteRow:
  "valid_segs (segs @ [k]) \<Longrightarrow> wf_node (mroot m) \<Longrightarrow>
     moves (below (segs @ [k]) \<union> {counter_path segs}) (below (segs @ [k])) m (deleteRow (dotted (segs @ [k])) m)"
  using frame_DeleteObject [of "dotted (segs @ [k])" segs k "mg_tree m"]
  by (simp add: moves_def deleteRow_def wf_DeleteObject)

lemma moves_addRow:
  assumes "addRow (tab @ ''.'') req m = (res, m')" and "sm_at sp m" and "valid_segs [tab]" and "wf_node (mroot m)"
  shows "\<exists>i. moves (below (sp @ [tab, Itoa i]) \<union> {counter_path (sp @ [tab])}) (below (sp @ [tab, Itoa i])) m m'
    \<and> (\<forall>path. res = Inr path \<longrightarrow> path = dotted (sp @ [tab, Itoa i]) \<and> valid_segs (sp @ [tab, Itoa i]))
    \<and> (m' = m \<or> valid_segs (sp @ [tab, Itoa i]) \<and> (\<exists>t. AddObject (dotted (sp @ [tab])) (mg_tree m) = (Inr i, t)))"
proof -
  let ?segs = "sp @ [tab]"
  have parent: "sm_Path (mg_cfg m) @ tab @ ''.'' = dotted ?segs"
    using assms(2) dotted_child [of sp tab] by (simp add: sm_at_def)
  have segs: "valid_segs ?segs" using assms(2,3) by (simp add: sm_at_def)
  obtain ares t where add: "AddObject (dotted ?segs) (mg_tree m) = (ares, t)" by (cases "AddObject (dotted ?segs) (mg_tree m)")
  show ?thesis
  proof (cases ares)
    case (Inl e)
    then have "t = mg_tree m" using add AddObject_fails_same by blast
    then have "m' = m \<and> (\<forall>path. res \<noteq> Inr path)" using assms(1) add Inl by (auto simp: addRow_def parent Let_def)
    then show ?thesis using moves_refl [OF assms(4)] by auto
  next
    case (Inr i)
    have path: "dotted ?segs @ Itoa i @ ''.'' = dotted (?segs @ [Itoa i])" by (rule dotted_child) simp
    have "frame (below (?segs @ [Itoa i]) \<union> {counter_path ?segs}) (below (?segs @ [Itoa i])) (mroot m) (root t)"
      by (rule frame_AddObject [OF add [unfolded Inr] _ assms(4)]) (use segs in simp)
    moreover have "wf_node (root t)" using wf_AddObject [OF assms(4), of "dotted ?segs"] add by simp
    ultimately have mv: "moves (below (?segs @ [Itoa i]) \<union> {counter_path ?segs}) (below (?segs @ [Itoa i])) m (m\<lparr>mg_tree := t\<rparr>)"
      by (simp add: moves_def)
    from AddObject_Inr [OF add [unfolded Inr]] obtain n :: Node where "i = next_free (used_instances n) 1" by blast
    then have "0 < i" using next_free_props [of "used_instances n" 1] by simp
    then have v: "valid_segs (?segs @ [Itoa i])" using segs by (simp add: Itoa_def show_nat_segment)
    from assms(1) add Inr consider "res = Inr (dotted (?segs @ [Itoa i]))" "m' = m\<lparr>mg_tree := t\<rparr>"
      | f where "res = Inl f" "m' = deleteRow (dotted (?segs @ [Itoa i])) (m\<lparr>mg_tree := t\<rparr>)"
      by (auto simp: addRow_def parent Let_def path [simplified] split: option.splits)
    then show ?thesis
    proof cases
      case 1
      then show ?thesis using mv v add Inr by auto
    next
      case 2
      have "wf_node (mroot (m\<lparr>mg_tree := t\<rparr>))" using \<open>wf_node (root t)\<close> by simp
      from moves_trans [OF mv moves_deleteRow [OF v this]] 2 v add Inr show ?thesis by auto
    qed
  qed
qed

lemma moves_unmount:
  assumes "\<forall>x \<in> set roots. \<exists>p. parsePath x = Inr p" and "wf_node (mroot m)"
  shows "moves (below_roots roots) (below_roots roots) m (unmount roots m)"
  using frame_unmount_each [OF assms(1)] wf_unmount_each [OF assms(2)] by (simp add: moves_def unmount_def)

lemma moves_syncActiveUnits:
  assumes "ee = dotted (sp @ [''ExecEnv'']) @ s" and "sm_at sp m" and "wf_node (mroot m)"
  shows "moves (below (sp @ [''ExecEnv''])) {} m (syncActiveUnits ee m)"
  unfolding syncActiveUnits_def Let_def assms(1)
  by (rule moves_setLeaves_below) (use assms(2,3) table_names(3) in \<open>auto simp: sm_at_def\<close>)

text \<open>A module whose fragment has nothing at the software modules object, and roots apart from it.\<close>

definition outside :: "string list \<Rightarrow> AppManifest \<Rightarrow> bool" where
  "outside sp mf \<longleftrightarrow> wf_node (root (mf_Tree mf)) \<and> \<not> isLeaf (root (mf_Tree mf)) \<and> node_at sp (root (mf_Tree mf)) = None"

definition apart :: "string list \<Rightarrow> string list \<Rightarrow> bool" where
  "apart sp roots \<longleftrightarrow> (\<forall>q \<in> below_roots roots. \<not> prefix sp q \<and> \<not> prefix q sp) \<and> (\<forall>x \<in> set roots. \<exists>p. parsePath x = Inr p)"

lemma Graft_outside:
  assumes g: "Graft (Some (mf_Tree mf)) (mg_tree m) = (Inr roots, t)" and "outside sp mf" and "alive sp m"
  shows "moves (below_roots roots) (below_roots roots) m (m\<lparr>mg_tree := t\<rparr>)" and "apart sp roots"
proof -
  have f: "\<not> isLeaf (root (mf_Tree mf))" "wf_node (root (mf_Tree mf))" "node_at sp (root (mf_Tree mf)) = None"
    using assms(2) by (simp_all add: outside_def)
  have a: "wf_node (mroot m)" "\<not> isLeaf (mroot m)" "node_at sp (mroot m) \<noteq> None" using assms(3) by (simp_all add: alive_def)
  note p = Graft_points [OF g a(2) f(1,2)]
  show "moves (below_roots roots) (below_roots roots) m (m\<lparr>mg_tree := t\<rparr>)"
    using p(2) wf_Graft [OF a(1,2) f(2,1)] g by (simp add: moves_def)
  have "\<not> prefix sp q \<and> \<not> prefix q sp" if "q \<in> below_roots roots" for q
  proof -
    from that obtain x c where x: "graft_point (mroot m) (root (mf_Tree mf)) x c" "prefix x q"
      unfolding below_roots_def p(1) by auto
    from graft_apart [OF x(1) f(3) a(3)] x(2) show ?thesis
      using prefix_order.trans [of x q sp] prefix_same_cases [of x q sp] by blast
  qed
  moreover have "\<exists>p. parsePath x = Inr p" if "x \<in> set roots" for x
  proof -
    from Graft_Inr [OF g] obtain ps where c: "collect (mroot m) (root (mf_Tree mf)) [] = Inr ps"
      and roots: "roots = map graft_root (sort_key (joinPath \<circ> fst) ps)" by blast
    from that roots obtain pt where pt: "pt \<in> set ps" "x = graft_root pt" by auto
    then have "graft_point (mroot m) (root (mf_Tree mf)) (fst pt) (snd pt)" using collect_attachable(2) [OF c a(2) f(1,2)] by (auto simp: graft_point_def)
    then have "valid_segs (fst pt)" using graft_point_valid [OF f(2)] by (auto simp: graft_point_def)
    then show ?thesis using pt(2) parse_graft_root by blast
  qed
  ultimately show "apart sp roots" by (simp add: apart_def)
qed

text \<open>What a start touches: the execution unit table and the roots of the module.\<close>

definition start_area :: "string list \<Rightarrow> string \<Rightarrow> string list \<Rightarrow> string list set" where
  "start_area sp j roots = below (sp @ [''ExecutionUnit'', j]) \<union> below_roots roots"

lemma moves_start:
  assumes "start ev mf ee m = (res, m')" and "outside sp mf" and "alive sp m"
  shows "\<exists>j roots. apart sp roots \<and> moves (start_area sp j roots \<union> {counter_path (sp @ [''ExecutionUnit''])}) (start_area sp j roots) m m'
    \<and> (\<forall>re. res = Inr re \<longrightarrow> fst re = roots \<and> snd re = dotted (sp @ [''ExecutionUnit'', j]) \<and> valid_segs (sp @ [''ExecutionUnit'', j]))"
proof -
  obtain gres t where g: "Graft (Some (mf_Tree mf)) (mg_tree m) = (gres, t)" by (cases "Graft (Some (mf_Tree mf)) (mg_tree m)")
  have at: "sm_at sp m" "wf_node (mroot m)" using assms(3) by (simp_all add: alive_def)
  show ?thesis
  proof (cases gres)
    case (Inl e)
    then have "t = mg_tree m" using g by (auto simp: Graft_def Let_def split: sum.splits)
    then have "m' = m \<and> (\<forall>re. res \<noteq> Inr re)" using assms(1) g Inl by (auto simp: start_def)
    moreover have "apart sp []" by (simp add: apart_def below_roots_def root_paths_def)
    ultimately show ?thesis using moves_refl [OF at(2)] by blast
  next
    case (Inr roots)
    let ?m1 = "m\<lparr>mg_tree := t\<rparr>"
    note mg = Graft_outside [OF g [unfolded Inr] assms(2,3)]
    have al: "alive sp ?m1" by (rule alive_moves [OF assms(3) mg(1)]) (use mg(2) in \<open>auto simp: apart_def\<close>)
    obtain ares m2 where a: "addRow (''ExecutionUnit'' @ ''.'') requiredEULeaves ?m1 = (ares, m2)"
      by (cases "addRow (''ExecutionUnit'' @ ''.'') requiredEULeaves ?m1")
    from moves_addRow [OF a _ table_names(2)] al obtain i where
      i: "moves (below (sp @ [''ExecutionUnit'', Itoa i]) \<union> {counter_path (sp @ [''ExecutionUnit''])}) (below (sp @ [''ExecutionUnit'', Itoa i])) ?m1 m2"
      and pa: "\<And>path. ares = Inr path \<Longrightarrow> path = dotted (sp @ [''ExecutionUnit'', Itoa i]) \<and> valid_segs (sp @ [''ExecutionUnit'', Itoa i])"
      by (auto simp: alive_def)
    let ?T = "start_area sp (Itoa i) roots \<union> {counter_path (sp @ [''ExecutionUnit''])}" and ?S = "start_area sp (Itoa i) roots"
    have mv: "moves ?T ?S m m2"
      by (rule moves_trans [OF moves_mono [OF mg(1)] moves_mono [OF i]]) (auto simp: start_area_def)
    show ?thesis
    proof (cases ares)
      case (Inl f)
      then have "m' = unmount roots m2" "res = Inl f" using assms(1) g Inr a by (auto simp: start_def)
      moreover have "moves ?T ?S m2 (unmount roots m2)"
        by (rule moves_mono [OF moves_unmount]) (use mg(2) mv in \<open>auto simp: apart_def moves_def start_area_def\<close>)
      ultimately show ?thesis using moves_trans [OF mv] mg(2) by blast
    next
      case euI: (Inr eu)
      note pa = pa [OF euI]
      define m3 where "m3 = setLeaves eu
                      [(''EUID'', app_ExecutionUnit (mf_App mf)), (''Name'', app_ExecutionUnit (mf_App mf)), (''ExecEnvLabel'', app_ExecutionUnit (mf_App mf)),
                       (''Status'', ''Starting''), (''ExecutionFaultCode'', ''NoFault''), (''ExecutionFaultMessage'', ''''),
                       (''AutoStart'', ''true''), (''Vendor'', app_Vendor (mf_App mf)), (''Version'', app_Version (mf_App mf)),
                       (''Description'', app_Description (mf_App mf)), (''References'', join '','' roots),
                       (''ExecutionEnvRef'', ref ee), (''CreationTime'', ev_created ev)] m2"
      have m': "m' = setLeaves eu [(''Status'', ''Active'')] (add_generators (mf_Generators mf) m3)" "res = Inr (roots, eu)"
        using assms(1) g Inr a euI by (auto simp: start_def Let_def m3_def)
      have "moves ?T ?S m2 m3" unfolding m3_def conjunct1 [OF pa]
        by (rule moves_mono [OF moves_setLeaves]) (use pa mv in \<open>auto simp: moves_def start_area_def\<close>)
      moreover have "moves ?T ?S m3 (add_generators (mf_Generators mf) m3)" using calculation by (simp add: moves_def)
      moreover have "moves ?T ?S (add_generators (mf_Generators mf) m3) m'" unfolding m' conjunct1 [OF pa]
        by (rule moves_mono [OF moves_setLeaves]) (use pa calculation in \<open>auto simp: moves_def start_area_def\<close>)
      ultimately have "moves ?T ?S m m'" using mv moves_trans by blast
      then show ?thesis using mg(2) m'(2) pa by auto
    qed
  qed
qed

lemma moves_stop:
  assumes "in_euPath inst = dotted eu" and "valid_segs eu" and "eu \<noteq> []" and "wf_node (mroot m)"
    and "\<forall>x \<in> set (in_roots inst). \<exists>p. parsePath x = Inr p"
  shows "moves (below eu \<union> below_roots (in_roots inst)) (below_roots (in_roots inst)) m (stop inst m)"
proof -
  let ?T = "below eu \<union> below_roots (in_roots inst)" and ?S = "below_roots (in_roots inst)"
  define m1 where "m1 = setLeaves (in_euPath inst) [(''Status'', ''Stopping'')] m"
  define m2 where "m2 = remove_generators (mf_Generators (in_manifest inst)) m1"
  define m3 where "m3 = unmount (in_roots inst) m2"
  have "moves ?T ?S m m1" unfolding m1_def assms(1) by (rule moves_mono [OF moves_setLeaves [OF assms(2,3,4)]]) auto
  moreover have "moves ?T ?S m1 m2" using calculation by (simp add: moves_def m2_def)
  moreover have "moves ?T ?S m2 m3" unfolding m3_def
    by (rule moves_mono [OF moves_unmount [OF assms(5)]]) (use calculation in \<open>auto simp: moves_def\<close>)
  moreover have "moves ?T ?S m3 (stop inst m)"
    unfolding stop_def Let_def m1_def [symmetric] m2_def [symmetric] m3_def [symmetric] unfolding assms(1)
    by (rule moves_mono [OF moves_setLeaves [OF assms(2,3)]]) (use calculation in \<open>auto simp: moves_def\<close>)
  ultimately show ?thesis using moves_trans by blast
qed

lemma execEnv_below:
  assumes "execEnv eref m = Inr path" and "sm_at sp m"
  shows "\<exists>s. path = dotted (sp @ [''ExecEnv'']) @ s"
proof -
  have parent: "sm_Path (mg_cfg m) @ ExecEnvTable = dotted (sp @ [''ExecEnv''])"
    using assms(2) dotted_child [of sp "''ExecEnv''"] by (simp add: sm_at_def)
  from assms(1) obtain c cs where c: "Children (dotted (sp @ [''ExecEnv''])) (mg_tree m) = Inr (c # cs)" "path \<in> ci_Name ` set (c # cs)"
    by (auto simp: execEnv_def parent Let_def split: sum.splits list.splits if_splits)
  have v: "valid_segs (sp @ [''ExecEnv''])" using assms(2) table_names(3) by (simp add: sm_at_def)
  obtain segs n where s: "parsePath (dotted (sp @ [''ExecEnv''])) = Inr segs"
    "map ci_Name (c # cs) = map (child_name segs) (sortedKeys (children n))" by (rule Children_Inr [OF c(1)])
  have "segs = sp @ [''ExecEnv'']" using s(1) v by simp
  then have "map ci_Name (c # cs) = map (child_name (sp @ [''ExecEnv''])) (sortedKeys (children n))" using s(2) by simp
  then have "path \<in> child_name (sp @ [''ExecEnv'']) ` set (sortedKeys (children n))" using c(2) by (metis image_set)
  then obtain x s where "path = joinPath ((sp @ [''ExecEnv'']) @ [x]) @ s" by (auto simp: child_name_def)
  moreover have "joinPath ((sp @ [''ExecEnv'']) @ [x]) = dotted (sp @ [''ExecEnv'']) @ x" unfolding dotted_def joinPath_def by (subst join_snoc) simp_all
  ultimately show ?thesis by auto
qed

end
