(* ===== verification/ModuleInvariant.thy ===== *)
theory ModuleInvariant
  imports ModuleFrames
begin

text \<open>
  The invariant of the software module manager: every operation, however it ends, keeps the deployment units
  apart.  Each operation works on one unit; its steps are frames that leave the rows of the others alone, so
  that the invariant follows from what happens to the one.
\<close>

section \<open>Deployment units apart from each other\<close>

abbreviation du :: "string list \<Rightarrow> string \<Rightarrow> string list" where
  "du sp k \<equiv> sp @ [''DeploymentUnit'', k]"

text \<open>An operation on one unit may touch everything but the rows of the others; an operation that keeps
  the unit does not touch its UUID, and changes the shape only away from the deployment unit table.\<close>

definition others :: "string list \<Rightarrow> string \<Rightarrow> string list set" where
  "others sp k = {q. \<exists>k'. k' \<noteq> k \<and> prefix (du sp k') q}"

definition noisy :: "string list \<Rightarrow> string \<Rightarrow> string list set" where
  "noisy sp k = - others sp k - {du sp k @ [''UUID'']}"

definition still :: "string list \<Rightarrow> string list set" where
  "still sp = {q. \<not> prefix q (sp @ [''DeploymentUnit'']) \<and> \<not> prefix (sp @ [''DeploymentUnit'']) q}"

definition calm :: "string list \<Rightarrow> string \<Rightarrow> Manager \<Rightarrow> Manager \<Rightarrow> bool" where
  "calm sp k m m' \<longleftrightarrow> moves (noisy sp k) (still sp) m m'"

lemma calm_trans: "calm sp k m m' \<Longrightarrow> calm sp k m' m'' \<Longrightarrow> calm sp k m m''"
  unfolding calm_def by (rule moves_trans)

lemma calm_alive: "alive sp m \<Longrightarrow> calm sp k m m' \<Longrightarrow> alive sp m'"
  unfolding calm_def by (erule alive_moves, assumption) (auto simp: still_def prefix_def)

lemma calm_others: "calm sp k m m' \<Longrightarrow> moves (- others sp k) (- others sp k) m m'"
  unfolding calm_def by (rule moves_mono) (auto simp: noisy_def still_def others_def prefix_def)

lemma below_tab_noisy: "tab \<noteq> ''DeploymentUnit'' \<Longrightarrow> below (sp @ tab # x) \<subseteq> noisy sp k"
  by (auto simp: noisy_def others_def prefix_def)

lemma below_tab_still: "tab \<noteq> ''DeploymentUnit'' \<Longrightarrow> below (sp @ tab # x) \<subseteq> still sp"
  by (auto simp: still_def prefix_def append_eq_append_conv2 Cons_eq_append_conv)

lemma apart_noisy: "apart sp roots \<Longrightarrow> below_roots roots \<subseteq> noisy sp k"
  by (fastforce simp: noisy_def others_def apart_def prefix_def)

lemma apart_still: "apart sp roots \<Longrightarrow> below_roots roots \<subseteq> still sp"
proof
  fix q assume a: "apart sp roots" "q \<in> below_roots roots"
  then have "\<not> prefix sp q" "\<not> prefix q sp" by (auto simp: apart_def)
  then show "q \<in> still sp" by (auto simp: still_def prefix_snoc dest: append_prefixD)
qed

text \<open>Writes to named leaves of a row.\<close>

lemma moves_cells:
  assumes "valid_segs row" and "row \<noteq> []" and "list_all (\<lambda>lf. valid_segs [lf]) (map fst vals)" and "wf_node (mroot m)"
  shows "moves ((\<lambda>lf. row @ [lf]) ` set (map fst vals)) {} m (setLeaves (dotted row) vals m)"
  using assms(3,4)
proof (induction vals arbitrary: m)
  case (Cons v vals)
  obtain lf x where v: "v = (lf, x)" by (cases v)
  let ?m1 = "m\<lparr>mg_tree := snd (SetSystem (dotted row @ lf) x (mg_tree m))\<rparr>"
  have p: "parsePath (dotted row @ lf) = Inr (row @ [lf])" by (rule parse_dotted_cell) (use assms(1,2) Cons.prems(1) v in auto)
  have "moves {row @ [lf]} {} m ?m1"
    using frame_SetSystem [of "dotted row @ lf" "mg_tree m" x] wf_SetSystem [OF Cons.prems(2)] by (simp add: moves_def p)
  then have "moves ((\<lambda>lf. row @ [lf]) ` set (map fst (v # vals))) {} m ?m1" by (rule moves_mono) (auto simp: v)
  moreover have "moves ((\<lambda>lf. row @ [lf]) ` set (map fst (v # vals))) {} ?m1 (setLeaves (dotted row) vals ?m1)"
    by (rule moves_mono [OF Cons.IH]) (use Cons.prems calculation in \<open>auto simp: moves_def\<close>)
  ultimately show ?case unfolding v setLeaves_Cons by (rule moves_trans)
qed (simp add: moves_refl)

text \<open>The leaves of a deployment unit that the operations write after its UUID.\<close>

definition cell_names :: "string list" where
  "cell_names = [''Status'', ''URL'', ''Resolved'', ''Name'', ''Version'', ''Vendor'', ''Description'', ''DUID'',
     ''ExecutionUnitList'', ''Installed'', ''LastUpdate'']"

lemma cell_names_valid: "list_all (\<lambda>lf. valid_segs [lf]) cell_names"
  by code_simp

lemma calm_cells:
  assumes "alive sp m" and "valid_segs [k]" and names: "set (map fst vals) \<subseteq> set cell_names"
  shows "calm sp k m (setLeaves (dotted (du sp k)) vals m)"
  unfolding calm_def
proof (rule moves_mono [OF moves_cells])
  show "valid_segs (du sp k)" using assms(1,2) table_names(1) by (simp add: alive_def sm_at_def)
  have "''UUID'' \<notin> set cell_names" by code_simp
  then have "''UUID'' \<notin> set (map fst vals)" using names by blast
  then show "(\<lambda>lf. du sp k @ [lf]) ` set (map fst vals) \<subseteq> noisy sp k"
    by (force simp: noisy_def others_def prefix_def)
  show "list_all (\<lambda>lf. valid_segs [lf]) (map fst vals)" using names cell_names_valid unfolding list_all_iff by blast
qed (use assms in \<open>simp_all add: alive_def\<close>)

lemma calm_start:
  assumes "start ev mf ee m = (res, m')" and "outside sp mf" and "alive sp m"
  shows "calm sp k m m'"
    and "res = Inr (roots, eu) \<Longrightarrow> apart sp roots \<and> (\<exists>j. eu = dotted (sp @ [''ExecutionUnit'', j]) \<and> valid_segs (sp @ [''ExecutionUnit'', j]))"
proof -
  from moves_start [OF assms] obtain j rs where j: "apart sp rs"
    "moves (start_area sp j rs \<union> {counter_path (sp @ [''ExecutionUnit''])}) (start_area sp j rs) m m'"
    "\<forall>re. res = Inr re \<longrightarrow> fst re = rs \<and> snd re = dotted (sp @ [''ExecutionUnit'', j]) \<and> valid_segs (sp @ [''ExecutionUnit'', j])" by blast
  show "calm sp k m m'" unfolding calm_def
  proof (rule moves_mono [OF j(2)])
    have "counter_path (sp @ [''ExecutionUnit'']) \<in> noisy sp k" by (auto simp: counter_path_snoc noisy_def others_def prefix_def)
    then show "start_area sp j rs \<union> {counter_path (sp @ [''ExecutionUnit''])} \<subseteq> noisy sp k"
      using below_tab_noisy [of "''ExecutionUnit''" sp "[j]" k] apart_noisy [OF j(1)] by (simp add: start_area_def)
    show "start_area sp j rs \<subseteq> still sp"
      using below_tab_still [of "''ExecutionUnit''" sp "[j]"] apart_still [OF j(1)] by (simp add: start_area_def)
  qed
  show "res = Inr (roots, eu) \<Longrightarrow> apart sp roots \<and> (\<exists>j. eu = dotted (sp @ [''ExecutionUnit'', j]) \<and> valid_segs (sp @ [''ExecutionUnit'', j]))"
    using j(1,3) by auto
qed

lemma calm_sync:
  assumes "ee = dotted (sp @ [''ExecEnv'']) @ s" and "alive sp m"
  shows "calm sp k m (syncActiveUnits ee m)"
  unfolding calm_def
  by (rule moves_mono [OF moves_syncActiveUnits [OF assms(1)]])
    (use assms(2) below_tab_noisy [of "''ExecEnv''" sp "[]" k] in \<open>auto simp: alive_def\<close>)

lemma calm_deleteRow_eu:
  assumes "valid_segs (sp @ [''ExecutionUnit'', j])" and "alive sp m"
  shows "calm sp k m (deleteRow (dotted (sp @ [''ExecutionUnit'', j])) m)"
proof -
  have "moves (below ((sp @ [''ExecutionUnit'']) @ [j]) \<union> {counter_path (sp @ [''ExecutionUnit''])}) (below ((sp @ [''ExecutionUnit'']) @ [j])) m
      (deleteRow (dotted ((sp @ [''ExecutionUnit'']) @ [j])) m)"
    by (rule moves_deleteRow) (use assms in \<open>simp_all add: alive_def\<close>)
  moreover have "counter_path (sp @ [''ExecutionUnit'']) \<in> noisy sp k" by (auto simp: counter_path_snoc noisy_def others_def prefix_def)
  ultimately show ?thesis unfolding calm_def
    using below_tab_noisy [of "''ExecutionUnit''" sp "[j]" k] below_tab_still [of "''ExecutionUnit''" sp "[j]"]
    by (auto intro: moves_mono)
qed

section \<open>The installations of a manager\<close>

text \<open>An installation: its row stands in the deployment unit table, its execution unit and environment
  belong to the tables of those, and what its module added is apart from the software modules object.\<close>

definition unit_paths :: "string list \<Rightarrow> installation \<Rightarrow> bool" where
  "unit_paths sp inst \<longleftrightarrow> (\<exists>j. in_euPath inst = dotted (sp @ [''ExecutionUnit'', j]) \<and> valid_segs (sp @ [''ExecutionUnit'', j]))
     \<and> (\<exists>s. in_eePath inst = dotted (sp @ [''ExecEnv'']) @ s) \<and> outside sp (in_manifest inst) \<and> apart sp (in_roots inst)"

definition unit_at :: "string list \<Rightarrow> Node \<Rightarrow> string \<Rightarrow> string \<times> installation \<Rightarrow> bool" where
  "unit_at sp r k w \<longleftrightarrow> fst w = dotted (du sp k) \<and> in_duPath (snd w) = fst w \<and> valid_segs [k] \<and> obs_at (du sp k) r \<noteq> None
     \<and> unit_paths sp (snd w)"

definition same_uuid :: "string list \<Rightarrow> Node \<Rightarrow> string \<Rightarrow> string \<Rightarrow> bool" where
  "same_uuid sp r k k' \<longleftrightarrow> (\<exists>v v'. leaf_at r (du sp k @ [''UUID'']) = Some v \<and> leaf_at r (du sp k' @ [''UUID'']) = Some v' \<and> EqualFold (Raw v) (Raw v'))"

definition modules_ok :: "string list \<Rightarrow> Manager \<Rightarrow> bool" where
  "modules_ok sp m \<longleftrightarrow> alive sp m \<and> distinct (map fst (mg_installed m))
     \<and> (\<forall>w \<in> set (mg_installed m). \<exists>k. unit_at sp (mroot m) k w)
     \<and> (\<forall>w \<in> set (mg_installed m). \<forall>w' \<in> set (mg_installed m). \<forall>k k'. unit_at sp (mroot m) k w \<longrightarrow> unit_at sp (mroot m) k' w'
          \<longrightarrow> same_uuid sp (mroot m) k k' \<longrightarrow> k = k')"

lemma dotted_inject: "valid_segs p \<Longrightarrow> valid_segs q \<Longrightarrow> dotted p = dotted q \<longleftrightarrow> p = q"
  by (metis parse_dotted sum.inject(2))

lemma modules_okI:
  assumes "alive sp m" and "distinct (map fst (mg_installed m))"
    and "\<And>w. w \<in> set (mg_installed m) \<Longrightarrow> \<exists>k. unit_at sp (mroot m) k w"
    and "\<And>w w' k k'. w \<in> set (mg_installed m) \<Longrightarrow> w' \<in> set (mg_installed m) \<Longrightarrow> unit_at sp (mroot m) k w \<Longrightarrow> unit_at sp (mroot m) k' w'
          \<Longrightarrow> same_uuid sp (mroot m) k k' \<Longrightarrow> k = k'"
  shows "modules_ok sp m"
  using assms unfolding modules_ok_def by blast

lemma unit_at_key:
  assumes "unit_at sp r k w" and "unit_at sp r' k' w'" and "valid_segs sp"
  shows "fst w = fst w' \<longleftrightarrow> k = k'"
  using assms dotted_inject [of "du sp k" "du sp k'"] table_names(1) by (auto simp: unit_at_def)

text \<open>The rows of the other units, as an operation on one of them leaves them.\<close>

lemma unit_at_others:
  assumes "moves (- others sp k) (- others sp k) m m'" and "k' \<noteq> k"
  shows "unit_at sp (mroot m') k' w \<longleftrightarrow> unit_at sp (mroot m) k' w" and "leaf_at (mroot m') (du sp k' @ x) = leaf_at (mroot m) (du sp k' @ x)"
proof -
  have fr: "frame (- others sp k) (- others sp k) (mroot m) (mroot m')" using assms(1) by (simp add: moves_def)
  have o: "du sp k' @ x \<in> others sp k" for x using assms(2) by (auto simp: others_def prefix_def)
  show "leaf_at (mroot m') (du sp k' @ x) = leaf_at (mroot m) (du sp k' @ x)" using frame_leaf [OF fr] o by simp
  have "obs_at (du sp k') (mroot m') = obs_at (du sp k') (mroot m)" using frame_obs [OF fr, of "du sp k'"] o [of "[]"] by simp
  then show "unit_at sp (mroot m') k' w \<longleftrightarrow> unit_at sp (mroot m) k' w" by (simp add: unit_at_def)
qed

lemma same_uuid_others:
  assumes "moves (- others sp k) (- others sp k) m m'" and "k1 \<noteq> k" and "k2 \<noteq> k"
  shows "same_uuid sp (mroot m') k1 k2 \<longleftrightarrow> same_uuid sp (mroot m) k1 k2"
  unfolding same_uuid_def unit_at_others(2) [OF assms(1,2)] unit_at_others(2) [OF assms(1,3)] by (rule refl)

text \<open>After an operation on unit \<open>k\<close> the manager is in order when the installation of \<open>k\<close> is gone, or is
  back in its row under a UUID no other unit has.\<close>

lemma modules_ok_forget:
  assumes ok: "modules_ok sp m" and mv: "moves (- others sp k) (- others sp k) m m'" and al: "alive sp m'"
    and inst: "distinct (map fst xs)" "\<And>w. w \<in> set xs \<Longrightarrow> w \<in> set (mg_installed m) \<and> fst w \<noteq> dotted (du sp k)"
  shows "modules_ok sp (m'\<lparr>mg_installed := xs\<rparr>)"
proof (rule modules_okI)
  show "alive sp (m'\<lparr>mg_installed := xs\<rparr>)" using al by (simp add: alive_def sm_at_def)
  show "distinct (map fst (mg_installed (m'\<lparr>mg_installed := xs\<rparr>)))" using inst(1) by simp
  have k': "k' \<noteq> k" if "w \<in> set xs" "unit_at sp r k' w" for w k' r using inst(2) [OF that(1)] that(2) by (auto simp: unit_at_def)
  fix w assume w: "w \<in> set (mg_installed (m'\<lparr>mg_installed := xs\<rparr>))"
  then have x: "w \<in> set xs" by simp
  then have "w \<in> set (mg_installed m)" using inst(2) by blast
  then obtain k1 where k1: "unit_at sp (mroot m) k1 w" using ok unfolding modules_ok_def by blast
  then have "unit_at sp (mroot m') k1 w" unfolding unit_at_others(1) [OF mv k' [OF x k1]] .
  then show "\<exists>k. unit_at sp (mroot (m'\<lparr>mg_installed := xs\<rparr>)) k w" by auto
  fix w' k1 k2
  assume "w' \<in> set (mg_installed (m'\<lparr>mg_installed := xs\<rparr>))" and u: "unit_at sp (mroot (m'\<lparr>mg_installed := xs\<rparr>)) k1 w"
    "unit_at sp (mroot (m'\<lparr>mg_installed := xs\<rparr>)) k2 w'" "same_uuid sp (mroot (m'\<lparr>mg_installed := xs\<rparr>)) k1 k2"
  then have x': "w' \<in> set xs" by simp
  have n: "k1 \<noteq> k" "k2 \<noteq> k" using k' x x' u by auto
  have "unit_at sp (mroot m) k1 w" "unit_at sp (mroot m) k2 w'" "same_uuid sp (mroot m) k1 k2"
    using u unit_at_others(1) [OF mv n(1)] unit_at_others(1) [OF mv n(2)] same_uuid_others [OF mv n] by simp_all
  then show "k1 = k2" using ok inst(2) [OF x] inst(2) [OF x'] unfolding modules_ok_def by blast
qed

lemma modules_ok_remember:
  assumes ok: "modules_ok sp m" and mv: "moves (- others sp k) (- others sp k) m m'" and al: "alive sp m'"
    and u: "unit_at sp (mroot m') k (p, inst)"
    and fresh: "\<And>w k'. w \<in> set (mg_installed m) \<Longrightarrow> unit_at sp (mroot m) k' w \<Longrightarrow> k' \<noteq> k \<Longrightarrow> \<not> same_uuid sp (mroot m') k k'"
  shows "modules_ok sp (m'\<lparr>mg_installed := AList.update p inst (mg_installed m)\<rparr>)"
proof (rule modules_okI)
  let ?xs = "AList.update p inst (mg_installed m)" and ?m = "m'\<lparr>mg_installed := AList.update p inst (mg_installed m)\<rparr>"
  have sp: "valid_segs sp" using ok by (simp add: modules_ok_def alive_def sm_at_def)
  have d: "distinct (map fst (mg_installed m))" using ok by (simp add: modules_ok_def)
  show "alive sp ?m" using al by (simp add: alive_def sm_at_def)
  show "distinct (map fst (mg_installed ?m))" using d by (simp add: distinct_update)
  have elem: "w = (p, inst) \<or> (w \<in> set (mg_installed m) \<and> fst w \<noteq> p)" if "w \<in> set ?xs" for w
  proof -
    have "distinct (map fst ?xs)" using d by (rule distinct_update)
    from map_of_is_SomeI [OF this, of "fst w" "snd w"] that have "map_of ?xs (fst w) = Some (snd w)" by simp
    then show ?thesis by (cases "fst w = p") (auto simp: update_conv' prod_eq_iff dest: map_of_SomeD)
  qed
  have old: "k' \<noteq> k" if "w \<in> set (mg_installed m)" "fst w \<noteq> p" "unit_at sp r k' w" for w k' r
    using unit_at_key [OF that(3) u sp] that(2) by auto
  have key: "k1 = k" if "unit_at sp r k1 (p, inst)" for k1 r using unit_at_key [OF that u sp] by simp
  have there: "\<exists>k1. unit_at sp (mroot m') k1 w" if w: "w \<in> set (mg_installed m)" "fst w \<noteq> p" for w
  proof -
    obtain k1 where k1: "unit_at sp (mroot m) k1 w" using ok w by (auto simp: modules_ok_def)
    then have "unit_at sp (mroot m') k1 w" unfolding unit_at_others(1) [OF mv old [OF w k1]] .
    then show ?thesis ..
  qed
  fix w assume w: "w \<in> set (mg_installed ?m)"
  then show "\<exists>k. unit_at sp (mroot ?m) k w" using elem [of w] u there [of w] by auto
  fix w' k1 k2
  assume w': "w' \<in> set (mg_installed ?m)" and "unit_at sp (mroot ?m) k1 w" "unit_at sp (mroot ?m) k2 w'" "same_uuid sp (mroot ?m) k1 k2"
  then have at: "unit_at sp (mroot m') k1 w" "unit_at sp (mroot m') k2 w'" "same_uuid sp (mroot m') k1 k2" by simp_all
  have sym: "same_uuid sp (mroot m') k2 k1" using at(3) EqualFold_sym by (auto simp: same_uuid_def)
  have ab: "unit_at sp (mroot m) k' x" "k' \<noteq> k" if "x \<in> set (mg_installed m)" "fst x \<noteq> p" "unit_at sp (mroot m') k' x" for x k'
    using old [OF that] that(3) unit_at_others(1) [OF mv old [OF that]] by simp_all
  consider "w = (p, inst)" "w' = (p, inst)" | "w = (p, inst)" "w' \<in> set (mg_installed m)" "fst w' \<noteq> p"
    | "w' = (p, inst)" "w \<in> set (mg_installed m)" "fst w \<noteq> p"
    | "w \<in> set (mg_installed m)" "fst w \<noteq> p" "w' \<in> set (mg_installed m)" "fst w' \<noteq> p"
    using elem [of w] elem [of w'] w w' by auto
  then show "k1 = k2"
  proof cases
    case 1
    then show ?thesis using at key by blast
  next
    case 2
    then show ?thesis using at key fresh [OF 2(2) ab [OF 2(2,3) at(2)]] by blast
  next
    case 3
    then show ?thesis using at sym key fresh [OF 3(2) ab [OF 3(2,3) at(1)]] by blast
  next
    case 4
    have "same_uuid sp (mroot m) k1 k2" using at(3) same_uuid_others [OF mv ab(2) [OF 4(1,2) at(1)] ab(2) [OF 4(3,4) at(2)]] by simp
    then show ?thesis using ok 4 ab(1) [OF 4(1,2) at(1)] ab(1) [OF 4(3,4) at(2)] unfolding modules_ok_def by blast
  qed
qed

section \<open>Every operation keeps the installations in order\<close>

definition module_env :: "string list \<Rightarrow> Env \<Rightarrow> bool" where
  "module_env sp ev \<longleftrightarrow> (\<forall>url mf. ev_fetch ev url = Inr mf \<longrightarrow> outside sp mf) \<and> (\<forall>s. 16 \<le> length (ev_sha1 ev s))"

lemma moves_deleteRow_du:
  assumes "alive sp m" and "valid_segs [k]"
  shows "moves (- others sp k) (- others sp k) m (deleteRow (dotted (du sp k)) m)" and "alive sp (deleteRow (dotted (du sp k)) m)"
proof -
  let ?segs = "sp @ [''DeploymentUnit'']"
  have mv: "moves (below (?segs @ [k]) \<union> {counter_path ?segs}) (below (?segs @ [k])) m (deleteRow (dotted (?segs @ [k])) m)"
    by (rule moves_deleteRow) (use assms table_names(1) in \<open>auto simp: alive_def sm_at_def\<close>)
  have "counter_path ?segs \<in> - others sp k" by (auto simp: counter_path_snoc others_def prefix_def)
  moreover have "below (?segs @ [k]) \<subseteq> - others sp k" by (auto simp: others_def prefix_def)
  ultimately have "moves (- others sp k) (- others sp k) m (deleteRow (dotted (?segs @ [k])) m)" by (intro moves_mono [OF mv]) auto
  then show "moves (- others sp k) (- others sp k) m (deleteRow (dotted (du sp k)) m)" by simp
  have "alive sp (deleteRow (dotted (?segs @ [k])) m)" by (rule alive_moves [OF assms(1) mv]) (auto simp: prefix_def)
  then show "alive sp (deleteRow (dotted (du sp k)) m)" by simp
qed

lemma calm_stop:
  assumes "unit_paths sp inst" and "alive sp m"
  shows "calm sp k m (deleteRow (in_euPath inst) (stop inst m))"
proof -
  from assms(1) obtain j where j: "in_euPath inst = dotted (sp @ [''ExecutionUnit'', j])" "valid_segs (sp @ [''ExecutionUnit'', j])"
    and a: "apart sp (in_roots inst)" by (auto simp: unit_paths_def)
  have "moves (below (sp @ [''ExecutionUnit'', j]) \<union> below_roots (in_roots inst)) (below_roots (in_roots inst)) m (stop inst m)"
    by (rule moves_stop [OF j]) (use a assms(2) in \<open>auto simp: apart_def alive_def\<close>)
  then have "calm sp k m (stop inst m)" unfolding calm_def
    by (rule moves_mono) (use below_tab_noisy [of "''ExecutionUnit''" sp "[j]" k] apart_noisy [OF a] apart_still [OF a] in auto)
  then show ?thesis unfolding j(1) using calm_trans calm_deleteRow_eu [OF j(2) calm_alive [OF assms(2)]] by blast
qed

text \<open>The unit an operation names.\<close>

lemma findLocked_unit:
  assumes "findLocked uuid version m = Inr inst" and "modules_ok sp m"
  obtains k where "(in_duPath inst, inst) \<in> set (mg_installed m)" "unit_at sp (mroot m) k (in_duPath inst, inst)"
    "has_uuid (in_duPath inst) uuid m"
proof -
  let ?found = "filter (\<lambda>inst. (version = '''' \<or> EqualFold (app_Version (mf_App (in_manifest inst))) version)
                       \<and> has_uuid (in_duPath inst) uuid m) (map snd (mg_installed m))"
  have "?found = [inst]" using assms(1) unfolding findLocked_def by (simp split: list.splits if_splits)
  then have "inst \<in> set ?found" by (metis list.set_intros(1))
  then obtain p where p: "(p, inst) \<in> set (mg_installed m)" "has_uuid (in_duPath inst) uuid m" by auto
  then obtain k where k: "unit_at sp (mroot m) k (p, inst)" using assms(2) unfolding modules_ok_def by blast
  then have "p = in_duPath inst" by (simp add: unit_at_def)
  with p k that show thesis by simp
qed

lemma deleteRow_forget: "deleteRow p (forget inst m) = forget inst (deleteRow p m)"
  by (cases m) (simp add: deleteRow_def forget_def)

lemma forget_calm:
  assumes ok: "modules_ok sp m" and u: "unit_at sp (mroot m) k (in_duPath inst, inst)" and c: "calm sp k m m1"
  shows "modules_ok sp (deleteRow (in_duPath inst) (forget inst m1))" and "modules_ok sp (forget inst (deleteRow (in_duPath inst) m1))"
proof -
  have al: "alive sp m1" using calm_alive c ok by (auto simp: modules_ok_def)
  have k: "valid_segs [k]" "in_duPath inst = dotted (du sp k)" using u by (simp_all add: unit_at_def)
  have inst: "mg_installed m1 = mg_installed m" using c by (simp add: calm_def moves_def)
  note d = moves_deleteRow_du [OF al k(1)]
  have "modules_ok sp ((deleteRow (dotted (du sp k)) m1)\<lparr>mg_installed := AList.delete (in_duPath inst) (mg_installed m)\<rparr>)"
    by (rule modules_ok_forget [OF ok moves_trans [OF calm_others [OF c] d(1)] d(2)])
      (use ok k in \<open>auto simp: modules_ok_def distinct_delete AList.delete_eq distinct_map_filter\<close>)
  then show "modules_ok sp (deleteRow (in_duPath inst) (forget inst m1))" "modules_ok sp (forget inst (deleteRow (in_duPath inst) m1))"
    unfolding deleteRow_forget by (simp_all add: forget_def k inst)
qed

lemma remember_calm:
  assumes ok: "modules_ok sp m" and u: "unit_at sp (mroot m) k (in_duPath inst, inst)" and mem: "(in_duPath inst, inst) \<in> set (mg_installed m)"
    and c: "calm sp k m m1" and new: "in_duPath inst' = in_duPath inst" "unit_paths sp inst'"
  shows "modules_ok sp (remember inst' m1)"
proof -
  have al: "alive sp m1" using calm_alive c ok by (auto simp: modules_ok_def)
  have inst: "mg_installed m1 = mg_installed m" using c by (simp add: calm_def moves_def)
  have fr: "frame (noisy sp k) (still sp) (mroot m) (mroot m1)" using c by (simp add: calm_def moves_def)
  have uuid: "leaf_at (mroot m1) (du sp k @ [''UUID'']) = leaf_at (mroot m) (du sp k @ [''UUID''])"
    by (rule frame_leaf [OF fr]) (simp add: noisy_def)
  have "du sp k \<notin> still sp" by (simp add: still_def)
  from frame_exists [OF fr this] u new have u': "unit_at sp (mroot m1) k (in_duPath inst', inst')" by (simp add: unit_at_def)
  have "modules_ok sp (m1\<lparr>mg_installed := AList.update (in_duPath inst') inst' (mg_installed m)\<rparr>)"
  proof (rule modules_ok_remember [OF ok calm_others [OF c] al u'])
    fix w k' assume w: "w \<in> set (mg_installed m)" "unit_at sp (mroot m) k' w" "k' \<noteq> k"
    show "\<not> same_uuid sp (mroot m1) k k'"
    proof
      assume "same_uuid sp (mroot m1) k k'"
      then have "same_uuid sp (mroot m) k k'" unfolding same_uuid_def uuid unit_at_others(2) [OF calm_others [OF c] w(3)] .
      then show False using ok mem u w unfolding modules_ok_def by blast
    qed
  qed
  then show ?thesis by (simp add: remember_def inst)
qed

lemma calm_remember_tail:
  assumes "modules_ok sp m1" and "calm sp k m1 m2" and "(p, inst) \<in> set (mg_installed m1)" and "unit_at sp (mroot m1) k (p, inst)"
  shows "modules_ok sp m2"
proof -
  have p: "p = in_duPath inst" using assms(4) by (simp add: unit_at_def)
  have "modules_ok sp (remember inst m2)"
    by (rule remember_calm [OF assms(1) _ _ assms(2)]) (use assms(3,4) p in \<open>auto simp: unit_at_def\<close>)
  moreover have "mg_installed m2 = mg_installed m1" using assms(2) by (simp add: calm_def moves_def)
  then have "AList.update (in_duPath inst) inst (mg_installed m2) = mg_installed m2"
    using assms(1,3) p by (intro update_triv) (auto simp: modules_ok_def)
  ultimately show ?thesis by (simp add: remember_def)
qed

text \<open>The end of an install, an update or its rollback: the row is completed and the active units counted.\<close>

lemma remember_unit:
  assumes "modules_ok sp (remember inst m)" and "unit_at sp (mroot m) k (in_duPath inst, inst)"
  shows "(in_duPath inst, inst) \<in> set (mg_installed (remember inst m))" and "unit_at sp (mroot (remember inst m)) k (in_duPath inst, inst)"
  using assms(2) map_of_SomeD [of "AList.update (in_duPath inst) inst (mg_installed m)" "in_duPath inst" inst]
  by (simp_all add: remember_def update_conv')

lemma uninstall_ok:
  assumes "uninstall ev op m = (res, m')" and ok: "modules_ok sp m"
  shows "modules_ok sp m'"
proof (cases "findLocked (so_UUID op) (so_Version op) m")
  case (Inl f)
  then show ?thesis using assms by (auto simp: uninstall_def)
next
  case (Inr inst)
  obtain k where k: "(in_duPath inst, inst) \<in> set (mg_installed m)" "unit_at sp (mroot m) k (in_duPath inst, inst)"
    by (rule findLocked_unit [OF Inr ok])
  then have u: "unit_paths sp inst" "valid_segs [k]" "in_duPath inst = dotted (du sp k)" by (simp_all add: unit_at_def)
  have al: "alive sp m" using ok by (simp add: modules_ok_def)
  define m1 where "m1 = setLeaves (in_duPath inst) [(''Status'', ''Uninstalling'')] m"
  define m2 where "m2 = deleteRow (in_euPath inst) (stop inst m1)"
  define m3 where "m3 = syncActiveUnits (in_eePath inst) m2"
  have c1: "calm sp k m m1" unfolding m1_def u(3) by (rule calm_cells [OF al u(2)]) (simp add: cell_names_def)
  have c2: "calm sp k m1 m2" unfolding m2_def by (rule calm_stop [OF u(1) calm_alive [OF al c1]])
  have c12: "calm sp k m m2" by (rule calm_trans [OF c1 c2])
  obtain s where "in_eePath inst = dotted (sp @ [''ExecEnv'']) @ s" using u(1) by (auto simp: unit_paths_def)
  then have "calm sp k m2 m3" unfolding m3_def by (rule calm_sync [OF _ calm_alive [OF al c12]])
  with c12 have c: "calm sp k m m3" by (rule calm_trans)
  from assms Inr consider "m' = m" | "m' = forget inst (deleteRow (in_duPath inst) m3)"
    by (cases "not_installed inst m") (auto simp: uninstall_def Let_def m1_def m2_def m3_def split: if_splits)
  then show ?thesis using forget_calm(2) [OF ok k(2) c] ok by cases simp_all
qed

lemma replace_module_ok:
  assumes "replace_module ev op url previous inst mf m = (res, m')" and ok: "modules_ok sp m" and mf: "outside sp mf"
    and mem: "(in_duPath inst, inst) \<in> set (mg_installed m)" and k: "unit_at sp (mroot m) k (in_duPath inst, inst)"
  shows "modules_ok sp m'"
proof -
  have u: "unit_paths sp inst" "valid_segs [k]" "in_duPath inst = dotted (du sp k)" using k by (simp_all add: unit_at_def)
  have al: "alive sp m" using ok by (simp add: modules_ok_def)
  obtain s where ee: "in_eePath inst = dotted (sp @ [''ExecEnv'']) @ s" using u(1) by (auto simp: unit_paths_def)
  define m1 where "m1 = setLeaves (in_duPath inst) [(''Status'', ''Updating''), (''URL'', url)] m"
  define m2 where "m2 = deleteRow (in_euPath inst) (stop inst m1)"
  have c1: "calm sp k m m1" unfolding m1_def u(3) by (rule calm_cells [OF al u(2)]) (simp add: cell_names_def)
  have c2: "calm sp k m1 m2" unfolding m2_def by (rule calm_stop [OF u(1) calm_alive [OF al c1]])
  have c: "calm sp k m m2" by (rule calm_trans [OF c1 c2])
  note defs = replace_module_def Let_def m1_def [symmetric] m2_def [symmetric]
  have finish: "modules_ok sp (syncActiveUnits (in_eePath inst) (setLeaves (in_duPath inst) vals (remember inst' m3)))"
    if "calm sp k m m3" "in_duPath inst' = in_duPath inst" "unit_paths sp inst'" "set (map fst vals) \<subseteq> set cell_names" for vals inst' m3
  proof -
    have r: "modules_ok sp (remember inst' m3)" by (rule remember_calm [OF ok k mem that(1-3)])
    have fr: "frame (noisy sp k) (still sp) (mroot m) (mroot m3)" using that(1) by (simp add: calm_def moves_def)
    have "unit_at sp (mroot m3) k (in_duPath inst', inst')"
      using k that(2,3) frame_exists [OF fr, of "du sp k"] by (simp add: unit_at_def still_def)
    note w = remember_unit [OF r this]
    have al': "alive sp (remember inst' m3)" using r by (simp add: modules_ok_def)
    have a: "calm sp k (remember inst' m3) (setLeaves (in_duPath inst) vals (remember inst' m3))"
      unfolding u(3) by (rule calm_cells [OF al' u(2) that(4)])
    have b: "calm sp k (setLeaves (in_duPath inst) vals (remember inst' m3)) (syncActiveUnits (in_eePath inst) (setLeaves (in_duPath inst) vals (remember inst' m3)))"
      by (rule calm_sync [OF ee calm_alive [OF al' a]])
    show ?thesis by (rule calm_remember_tail [OF r calm_trans [OF a b] w])
  qed
  have comm: "remember inst' (setLeaves p vals m0) = setLeaves p vals (remember inst' m0)" for inst' p vals m0
    by (simp add: remember_def setLeaves_def)
  show ?thesis
  proof (cases "sleep ev (sm_InstallDelay (mg_cfg m))")
    case (Some e)
    then show ?thesis using assms(1) forget_calm(1) [OF ok k c] by (auto simp: defs)
  next
    case sl: None
    obtain sres m3 where s: "start ev mf (in_eePath inst) m2 = (sres, m3)" by (cases "start ev mf (in_eePath inst) m2")
    note st = calm_start [OF s mf calm_alive [OF al c]]
    have c3: "calm sp k m m3" by (rule calm_trans [OF c st(1)])
    show ?thesis
    proof (cases sres)
      case (Inl f)
      obtain rres m4 where r: "start ev (in_manifest inst) (in_eePath inst) m3 = (rres, m4)"
        by (cases "start ev (in_manifest inst) (in_eePath inst) m3")
      have "outside sp (in_manifest inst)" using u(1) by (simp add: unit_paths_def)
      note rt = calm_start [OF r this calm_alive [OF al c3]]
      have c4: "calm sp k m m4" by (rule calm_trans [OF c3 rt(1)])
      show ?thesis
      proof (cases rres)
        case (Inl rf)
        then show ?thesis using assms(1) sl s \<open>sres = Inl f\<close> r forget_calm(1) [OF ok k c4] by (auto simp: defs)
      next
        case (Inr re)
        obtain roots eu where re: "re = (roots, eu)" by (cases re)
        have "unit_paths sp (inst\<lparr>in_roots := roots, in_euPath := eu\<rparr>)" using u(1) rt(2) [OF Inr [unfolded re]] by (simp add: unit_paths_def)
        from finish [OF c4 _ this, of "[(''Status'', ''Installed''), (''ExecutionUnitList'', ref eu)]"] assms(1) sl s \<open>sres = Inl f\<close> r Inr re
        show ?thesis by (auto simp: defs cell_names_def)
      qed
    next
      case (Inr re)
      obtain roots eu where re: "re = (roots, eu)" by (cases re)
      have "unit_paths sp (inst\<lparr>in_manifest := mf, in_url := url, in_roots := roots, in_euPath := eu\<rparr>)"
        using u(1) mf st(2) [OF Inr [unfolded re]] by (simp add: unit_paths_def)
      from finish [OF c3 _ this, of "[(''Name'', app_Name (mf_App mf)), (''Version'', app_Version (mf_App mf)), (''Vendor'', app_Vendor (mf_App mf)),
          (''Description'', app_Description (mf_App mf)), (''Status'', ''Installed''), (''Resolved'', ''true''),
          (''ExecutionUnitList'', ref eu), (''LastUpdate'', ev_rfc3339 ev)]"] assms(1) sl s Inr re
      show ?thesis by (auto simp: defs comm cell_names_def)
    qed
  qed
qed

lemma update_ok:
  assumes "update ev op m = (res, m')" and ok: "modules_ok sp m" and env: "module_env sp ev"
  shows "modules_ok sp m'"
proof (cases "findLocked (so_UUID op) (so_Version op) m")
  case (Inl f)
  then show ?thesis using assms by (auto simp: update_def)
next
  case (Inr inst)
  obtain k where k: "(in_duPath inst, inst) \<in> set (mg_installed m)" "unit_at sp (mroot m) k (in_duPath inst, inst)"
    by (rule findLocked_unit [OF Inr ok])
  define previous where "previous = noResult\<lparr>sr_UUID := so_UUID op, sr_DeploymentUnitRef := ref (in_duPath inst),
                 sr_Version := app_Version (mf_App (in_manifest inst)), sr_CurrentState := ''Installed'', sr_Resolved := True,
                 sr_ExecutionUnitRefList := [ref (in_euPath inst)]\<rparr>"
  define url where "url = (if so_URL op = '''' then in_url inst else so_URL op)"
  note defs = update_def Let_def previous_def [symmetric] url_def [symmetric]
  consider "m' = m" | mf where "replace_module ev op url previous inst mf m = (res, m')" "ev_fetch ev url = Inr mf"
  proof (cases "not_installed inst m")
    case None
    then show thesis
      using that assms(1) Inr
      by (cases "execEnv (ref (in_eePath inst)) m"; cases "ev_fetch ev url")
        (auto simp: defs split: option.splits if_splits)
  qed (use that assms(1) Inr in \<open>auto simp: defs\<close>)
  then show ?thesis
  proof cases
    case 2
    then have "outside sp mf" using env by (simp add: module_env_def)
    from replace_module_ok [OF 2(1) ok this k] show ?thesis .
  qed (simp add: ok)
qed

section \<open>Installs\<close>

lemma AddObject_row_leaf:
  assumes "AddObject p t = (Inr i, t')" and "parsePath p = Inr segs" and "wf_node (root t)"
  shows "\<exists>n tmpl. node_at segs (root t) = Some n \<and> table n = Some tmpl \<and> (\<forall>x. leaf_at (root t') (segs @ Itoa i # x) = leaf_at tmpl x)"
proof -
  from AddObject_Inr [OF assms(1)] assms(2) obtain n tmpl where n: "node_at segs (root t) = Some n" "table n = Some tmpl"
    and t': "root t' = table_root segs (set_child (Itoa i) (clone tmpl) n) (root t)" by auto
  have "node_at segs (root t') = Some (set_child (Itoa i) (clone tmpl) n)" using n t' by (simp add: table_root_node)
  then have "leaf_at (root t') (segs @ Itoa i # x) = leaf_at (set_child (Itoa i) (clone tmpl) n) (Itoa i # x)" for x by (rule leaf_at_append)
  moreover have "\<not> isLeaf n" using wf_table [OF wf_node_at [OF assms(3) n(1)] n(2)] by simp
  then have "leaf_at (set_child (Itoa i) (clone tmpl) n) (Itoa i # x) = leaf_at tmpl x" for x
    using leaf_at_clone [of tmpl x] by (simp add: leaf_at_def update_conv' del: leaf_at_clone)
  ultimately show ?thesis using n by auto
qed

lemma frame_VType:
  assumes "frame T S r r'" and "q \<notin> S" and "leaf_at r q = Some v"
  shows "\<exists>v'. leaf_at r' q = Some v' \<and> VType v' = VType v"
proof -
  have "map_option (\<lambda>v. v\<lparr>Raw := ''''\<rparr>) (leaf_at r' q) = map_option (\<lambda>v. v\<lparr>Raw := ''''\<rparr>) (leaf_at r q)"
    by (simp add: shape_leaf frame_shape [OF assms(1,2)])
  then obtain v' where "leaf_at r' q = Some v'" "v'\<lparr>Raw := ''''\<rparr> = v\<lparr>Raw := ''''\<rparr>" using assms(3) by auto
  then show ?thesis by (metis Value.select_convs(1) Value.surjective Value.update_convs(2))
qed

text \<open>There is room for another row, and the UUID of a deployment unit is declared as text.\<close>

definition room :: "string list \<Rightarrow> Manager \<Rightarrow> bool" where
  "room sp m \<longleftrightarrow> (\<forall>n. node_at (sp @ [''DeploymentUnit'']) (mroot m) = Some n \<longrightarrow> length (children n) < 2 ^ 62
     \<and> (\<forall>tmpl v. table n = Some tmpl \<longrightarrow> leaf_at tmpl [''UUID''] = Some v \<longrightarrow> VType v = TypeString))"

lemma addRow_du:
  assumes "addRow DeploymentUnitTable requiredDULeaves m = (Inr path, m')" and "alive sp m" and "room sp m"
  obtains k where "path = dotted (du sp k)" "valid_segs [k]" "obs_at (du sp k) (mroot m) = None" "obs_at (du sp k) (mroot m') \<noteq> None"
    "moves (- others sp k) (- others sp k) m m'" "alive sp m'" "\<exists>v. leaf_at (mroot m') (du sp k @ [''UUID'']) = Some v \<and> VType v = TypeString"
proof -
  let ?segs = "sp @ [''DeploymentUnit'']"
  have a: "addRow (''DeploymentUnit'' @ ''.'') requiredDULeaves m = (Inr path, m')" using assms(1) by simp
  have al: "sm_at sp m" "wf_node (mroot m)" using assms(2) by (simp_all add: alive_def)
  obtain i where i: "path = dotted (sp @ [''DeploymentUnit'', Itoa i])" "row_pending ?segs (Itoa i) (mroot m) (mroot m')"
    "same_rest m m'" "wf_node (mroot m')" "\<forall>lf \<in> set requiredDULeaves. \<not> is_err (Get (path @ lf) (mg_tree m'))"
    by (rule addRow_Inr [OF a al(1) table_names(1) al(2)]) (use assms(3) in \<open>auto simp: room_def\<close>)
  have fr: "frame (below (?segs @ [Itoa i]) \<union> {counter_path ?segs}) (below (?segs @ [Itoa i])) (mroot m) (mroot m')" by (rule pending_frame [OF i(2)])
  then have mv: "moves (below (?segs @ [Itoa i]) \<union> {counter_path ?segs}) (below (?segs @ [Itoa i])) m m'"
    using i(3,4) by (simp add: moves_def same_rest_def)
  have v: "valid_segs (du sp (Itoa i))" using i(2) by (simp add: row_pending_def)
  from i(2) obtain n c where n: "node_at ?segs (mroot m) = Some n" "\<not> isLeaf n" "map_of (children n) (Itoa i) = None"
    "mroot m' = table_root ?segs (set_child (Itoa i) c n) (mroot m)" by (auto simp: row_pending_def)
  have none: "obs_at (du sp (Itoa i)) (mroot m) = None" using child_exists [OF n(1,2), of "Itoa i"] n(3) by (metis append_assoc append_Cons append_Nil)
  have "node_at ?segs (mroot m') = Some (set_child (Itoa i) c n)" using n(1,4) by (simp add: table_root_node)
  then have some: "obs_at (du sp (Itoa i)) (mroot m') \<noteq> None"
    using child_exists [of ?segs "mroot m'" "set_child (Itoa i) c n" "Itoa i"] n(2) by (simp add: isLeaf_def update_conv')
  have "\<not> is_err (Get (dotted (du sp (Itoa i)) @ ''UUID'') (mg_tree m'))" using i(1,5) by (simp add: requiredDULeaves_def)
  moreover have "valid_segs [''UUID'']" by code_simp
  then have "parsePath (dotted (du sp (Itoa i)) @ ''UUID'') = Inr (du sp (Itoa i) @ [''UUID''])" using v by (intro parse_dotted_cell) auto
  ultimately obtain x where x: "leaf_at (mroot m') (du sp (Itoa i) @ [''UUID'']) = Some x"
    by (auto simp: Get_Inr is_err_def split: sum.splits)
  have "VType x = TypeString"
  proof -
    have "sm_Path (mg_cfg m) @ DeploymentUnitTable = dotted ?segs"
      using al(1) dotted_child [of sp "''DeploymentUnit''"] by (simp add: sm_at_def)
    then obtain i' where add: "AddObject (dotted ?segs) (mg_tree m) = (Inr i', mg_tree m')" and p: "path = dotted ?segs @ Itoa i' @ ''.''"
      using assms(1) by (auto simp: addRow_def Let_def split: prod.splits sum.splits option.splits)
    have "dotted (du sp (Itoa i')) = dotted (du sp (Itoa i))" using p i(1) dotted_child [of ?segs "Itoa i'"] by simp
    moreover have "valid_segs (du sp (Itoa i'))"
      using AddObject_pending [OF add _ _ al(2)] assms(3) v by (auto simp: room_def row_pending_def)
    ultimately have same: "Itoa i' = Itoa i" using dotted_inject [OF _ v] by simp
    have "valid_segs ?segs" using v by simp
    then have pp: "parsePath (dotted ?segs) = Inr ?segs" by (rule parse_dotted)
    from AddObject_row_leaf [OF add pp al(2)] obtain tmpl where "table n = Some tmpl" "leaf_at (mroot m') (?segs @ Itoa i # [''UUID'']) = leaf_at tmpl [''UUID'']"
      using n(1) same by auto
    then show ?thesis using assms(3) n(1) x by (auto simp: room_def)
  qed
  moreover have "moves (- others sp (Itoa i)) (- others sp (Itoa i)) m m'"
    by (rule moves_mono [OF mv]) (auto simp: others_def prefix_def counter_path_snoc)
  moreover have "alive sp m'" by (rule alive_moves [OF assms(2) mv]) (auto simp: prefix_def)
  ultimately show thesis using that [of "Itoa i"] i(1) v none some x by auto
qed

section \<open>UUIDs\<close>

lemma hex_digit_hex: "n < 16 \<Longrightarrow> is_hex (hex_digit n)"
proof -
  have "\<forall>n \<in> set [0..<16]. is_hex (hex_digit n)" by code_simp
  then show "n < 16 \<Longrightarrow> is_hex (hex_digit n)" by simp
qed

lemma hex_bytes_hex: "c \<in> set (hex_bytes bs) \<Longrightarrow> is_hex c"
proof -
  have "unat b < 256" for b :: "8 word" using unsigned_less [of b, where ?'a = nat] by simp
  then have "unat b div 16 < 16" for b :: "8 word" by (simp add: less_mult_imp_div_less)
  then show "c \<in> set (hex_bytes bs) \<Longrightarrow> is_hex c" by (auto simp: hex_bytes_def hex_byte_def hex_digit_hex)
qed

lemma length_hex_bytes [simp]: "length (hex_bytes bs) = 2 * length bs"
  by (induction bs) (auto simp: hex_bytes_def hex_byte_def)

lemma is_hex_code: "is_hex c \<Longrightarrow> of_char c < (128 :: nat) \<and> c \<noteq> CHR ''-''"
  by (auto simp: is_hex_def is_digit_def less_eq_char_def)

text \<open>A UUID derived from a module has the form of one, so that the operations that name it accept it.\<close>

lemma uuidPattern_join:
  assumes "map length xs = [8, 4, 4, 4, 12]" and "\<forall>x \<in> set xs. \<forall>c \<in> set x. is_hex c"
  shows "uuidPattern (join ''-'' xs)"
proof -
  have "split_on CHR ''-'' (join ''-'' xs) = xs"
    by (rule split_on_join) (use assms in \<open>auto dest: is_hex_code\<close>)
  then show ?thesis using assms by (simp add: uuidPattern_def list_all_iff)
qed

lemma AppUUID_pattern:
  assumes "\<And>s. 16 \<le> length (sha1 s)"
  shows "uuidPattern (AppUUID sha1 app)"
proof -
  define d where "d = sha1 (appNamespace @ ''urn:cpe-labs:app:'' @ app_Vendor app @ ''/'' @ app_Name app)"
  define b where "b = d[6 := ((d ! 6) AND 0x0f) OR 0x50]"
  define sum where "sum = b[8 := ((b ! 8) AND 0x3f) OR 0x80]"
  have len: "16 \<le> length sum" using assms by (simp add: sum_def b_def d_def)
  define xs where "xs = map hex_bytes [take 4 sum, take 2 (drop 4 sum), take 2 (drop 6 sum), take 2 (drop 8 sum), take 6 (drop 10 sum)]"
  have "AppUUID sha1 app = join ''-'' xs"
    unfolding AppUUID_def Let_def d_def [symmetric] b_def [symmetric] sum_def [symmetric] xs_def by simp
  moreover have "uuidPattern (join ''-'' xs)"
    by (rule uuidPattern_join) (use len in \<open>auto simp: xs_def hex_bytes_hex\<close>)
  ultimately show ?thesis by simp
qed

lemma set_join: "set (join sep xs) \<subseteq> set sep \<union> (\<Union>x \<in> set xs. set x)"
  by (induction xs rule: join.induct) auto

lemma uuidPattern_text: "uuidPattern s \<Longrightarrow> ValidString s"
proof -
  assume p: "uuidPattern s"
  have "of_char c < (128 :: nat)" if "c \<in> set s" for c
  proof -
    have "c \<in> set (join ''-'' (split_on CHR ''-'' s))" using that by (simp add: join_split_on)
    then have "c = CHR ''-'' \<or> is_hex c" using set_join [of "''-''" "split_on CHR ''-'' s"] p
      by (auto simp: uuidPattern_def list_all_iff)
    then show ?thesis using is_hex_code by (cases "c = CHR ''-''") auto
  qed
  then show "ValidString s" unfolding ValidString_def by (intro valid_utf8_ascii) auto
qed

text \<open>The UUID is written into a row that is declared for it.\<close>

lemma setLeaves_uuid:
  assumes "leaf_at (mroot m) (du sp k @ [''UUID'']) = Some v" and "VType v = TypeString" and "alive sp m" and "valid_segs [k]" and "ValidString uuid"
  shows "\<exists>v'. leaf_at (mroot (setLeaves (dotted (du sp k)) [(''UUID'', uuid)] m)) (du sp k @ [''UUID'']) = Some v' \<and> Raw v' = uuid"
proof -
  have "valid_segs [''UUID'']" by code_simp
  then have "valid_segs (du sp k @ [''UUID''])" using assms(3,4) table_names(1) by (simp add: alive_def sm_at_def)
  then have p: "parsePath (dotted (du sp k) @ ''UUID'') = Inr (du sp k @ [''UUID''])" by (intro parse_dotted_cell) auto
  have "valid_Value (v\<lparr>Raw := uuid\<rparr>)" using assms(2,5) by (simp add: valid_Value_def Validate_def typeFns_def validateString_def)
  then obtain t' where t': "SetSystem (dotted (du sp k) @ ''UUID'') uuid (mg_tree m) = (Inr (), t')"
    "root t' = put_leaf (du sp k @ [''UUID'']) (v\<lparr>Raw := uuid\<rparr>) (mroot m)"
    using p assms(1) by (auto simp: SetSystem_Inr)
  then show ?thesis using assms(1) leaves.get_put [of "mroot m" "du sp k @ [''UUID'']"] by (simp add: setLeaves_def)
qed

lemma has_uuid_leaf:
  assumes "alive sp m" and "valid_segs [k]"
  shows "has_uuid (dotted (du sp k)) uuid m \<longleftrightarrow> (\<exists>v. leaf_at (mroot m) (du sp k @ [''UUID'']) = Some v \<and> EqualFold (Raw v) uuid)"
proof -
  have "valid_segs [''UUID'']" by code_simp
  then have "valid_segs (du sp k @ [''UUID''])" using assms table_names(1) by (simp add: alive_def sm_at_def)
  then have "parsePath (dotted (du sp k) @ ''UUID'') = Inr (du sp k @ [''UUID''])" by (intro parse_dotted_cell) auto
  then have g: "leaf_at (mroot m) (du sp k @ [''UUID'']) = Some v \<longleftrightarrow> Get (dotted (du sp k) @ ''UUID'') (mg_tree m) = Inr v" for v
    by (simp add: Get_Inr)
  show ?thesis unfolding has_uuid_def g by (simp split: sum.split)
qed

text \<open>A state of an install: its row is there, the other units are as they were.\<close>

definition installing :: "string list \<Rightarrow> string \<Rightarrow> Manager \<Rightarrow> Manager \<Rightarrow> bool" where
  "installing sp k m m' \<longleftrightarrow> moves (- others sp k) (- others sp k) m m' \<and> alive sp m' \<and> obs_at (du sp k) (mroot m') \<noteq> None"

lemma installing_calm: "installing sp k m m1 \<Longrightarrow> calm sp k m1 m2 \<Longrightarrow> installing sp k m m2"
proof -
  assume i: "installing sp k m m1" and c: "calm sp k m1 m2"
  have fr: "frame (noisy sp k) (still sp) (mroot m1) (mroot m2)" using c by (simp add: calm_def moves_def)
  have "du sp k \<notin> still sp" by (simp add: still_def)
  from frame_exists [OF fr this] show ?thesis
    using i moves_trans [OF _ calm_others [OF c]] calm_alive [OF _ c] by (simp add: installing_def)
qed

lemma installing_cells:
  assumes "installing sp k m m1" and "valid_segs [k]"
  shows "installing sp k m (setLeaves (dotted (du sp k)) vals m1)"
proof -
  have al: "alive sp m1" using assms(1) by (simp add: installing_def)
  have mv: "moves (below (du sp k)) {} m1 (setLeaves (dotted (du sp k)) vals m1)"
    by (rule moves_setLeaves) (use al assms(2) table_names(1) in \<open>auto simp: alive_def sm_at_def\<close>)
  have "moves (- others sp k) (- others sp k) m1 (setLeaves (dotted (du sp k)) vals m1)"
    by (rule moves_mono [OF mv]) (auto simp: others_def prefix_def)
  moreover have "frame (below (du sp k)) {} (mroot m1) (mroot (setLeaves (dotted (du sp k)) vals m1))" using mv by (simp add: moves_def)
  from frame_exists [OF this, of "du sp k"] have "obs_at (du sp k) (mroot (setLeaves (dotted (du sp k)) vals m1)) \<noteq> None"
    using assms(1) by (simp add: installing_def)
  moreover have "alive sp (setLeaves (dotted (du sp k)) vals m1)" by (rule alive_moves [OF al mv]) simp
  ultimately show ?thesis using assms(1) moves_trans unfolding installing_def by blast
qed

lemma installed_idem: "mg_installed m = xs \<Longrightarrow> m\<lparr>mg_installed := xs\<rparr> = m"
  by auto

lemma unit_not_fresh:
  assumes "modules_ok sp m" and "valid_segs [k]" and "obs_at (du sp k) (mroot m) = None" and "w \<in> set (mg_installed m)"
  shows "fst w \<noteq> dotted (du sp k)"
proof
  assume eq: "fst w = dotted (du sp k)"
  from assms(1,4) obtain k' where "unit_at sp (mroot m) k' w" unfolding modules_ok_def by blast
  then have "dotted (du sp k') = dotted (du sp k)" "valid_segs [k']" "obs_at (du sp k') (mroot m) \<noteq> None" using eq by (simp_all add: unit_at_def)
  moreover have "valid_segs sp" using assms(1) by (simp add: modules_ok_def alive_def sm_at_def)
  ultimately show False using dotted_inject [of "du sp k'" "du sp k"] assms(2,3) table_names(1) by auto
qed

lemma undo_ok:
  assumes "undo (dotted (du sp k)) f uuid version m1 = (res, m')" and "installing sp k m m1" and ok: "modules_ok sp m"
    and k: "valid_segs [k]" "obs_at (du sp k) (mroot m) = None"
  shows "modules_ok sp m'"
proof -
  have mv: "moves (- others sp k) (- others sp k) m m1" "alive sp m1" using assms(2) by (simp_all add: installing_def)
  note d = moves_deleteRow_du [OF mv(2) k(1)]
  have m': "m' = deleteRow (dotted (du sp k)) m1" using assms(1) by (simp add: undo_def)
  note new = unit_not_fresh [OF ok k]
  have "modules_ok sp ((deleteRow (dotted (du sp k)) m1)\<lparr>mg_installed := mg_installed m\<rparr>)"
    by (rule modules_ok_forget [OF ok moves_trans [OF mv(1) d(1)] d(2)]) (use ok new in \<open>auto simp: modules_ok_def\<close>)
  moreover have "mg_installed m = mg_installed (deleteRow (dotted (du sp k)) m1)" using mv(1) by (simp add: moves_def)
  then have "(deleteRow (dotted (du sp k)) m1)\<lparr>mg_installed := mg_installed m\<rparr> = deleteRow (dotted (du sp k)) m1"
    by (intro installed_idem) simp
  ultimately show ?thesis using m' by simp
qed

lemma addRow_fails:
  assumes "addRow DeploymentUnitTable requiredDULeaves m = (Inl f, m1)" and ok: "modules_ok sp m" and room: "room sp m"
  shows "modules_ok sp m1"
proof -
  let ?segs = "sp @ [''DeploymentUnit'']"
  have al: "alive sp m" "sm_at sp m" "wf_node (mroot m)" using ok by (simp_all add: modules_ok_def alive_def)
  have a: "addRow (''DeploymentUnit'' @ ''.'') requiredDULeaves m = (Inl f, m1)" using assms(1) by simp
  from moves_addRow [OF a al(2) table_names(1) al(3)] obtain i where
    mv: "moves (below (du sp (Itoa i)) \<union> {counter_path ?segs}) (below (du sp (Itoa i))) m m1"
    and new: "m1 = m \<or> valid_segs (du sp (Itoa i)) \<and> (\<exists>t. AddObject (dotted ?segs) (mg_tree m) = (Inr i, t))" by blast
  show ?thesis
  proof (cases "m1 = m")
    case False
    then obtain t where v: "valid_segs (du sp (Itoa i))" and add: "AddObject (dotted ?segs) (mg_tree m) = (Inr i, t)" using new by blast
    have "row_pending ?segs (Itoa i) (mroot m) (root t)"
      by (rule AddObject_pending [OF add _ _ al(3)]) (use v room in \<open>auto simp: room_def\<close>)
    then obtain n where n: "node_at ?segs (mroot m) = Some n" "\<not> isLeaf n" "map_of (children n) (Itoa i) = None" by (auto simp: row_pending_def)
    then have none: "obs_at (du sp (Itoa i)) (mroot m) = None"
      using child_exists [OF n(1,2), of "Itoa i"] by (metis append_assoc append_Cons append_Nil)
    have "modules_ok sp (m1\<lparr>mg_installed := mg_installed m\<rparr>)"
    proof (rule modules_ok_forget [OF ok])
      show "moves (- others sp (Itoa i)) (- others sp (Itoa i)) m m1"
        by (rule moves_mono [OF mv]) (auto simp: others_def prefix_def counter_path_snoc)
      show "alive sp m1" by (rule alive_moves [OF al(1) mv]) (auto simp: prefix_def)
      show "distinct (map fst (mg_installed m))" using ok by (simp add: modules_ok_def)
      show "w \<in> set (mg_installed m) \<and> fst w \<noteq> dotted (du sp (Itoa i))" if "w \<in> set (mg_installed m)" for w
        using unit_not_fresh [OF ok _ none that] v that by simp
    qed
    moreover have "m1\<lparr>mg_installed := mg_installed m\<rparr> = m1" by (rule installed_idem) (use mv in \<open>simp add: moves_def\<close>)
    ultimately show ?thesis by simp
  qed (simp add: ok)
qed

lemma checkManifest_fresh:
  assumes "checkManifest mf uuid '''' m = None" and "w \<in> set (mg_installed m)" and "fst w = dotted (du sp k')" and "valid_segs [k']" and "alive sp m"
    and "leaf_at (mroot m) (du sp k' @ [''UUID'']) = Some v"
  shows "\<not> EqualFold (Raw v) uuid"
proof -
  have "find (\<lambda>(path, inst). path \<noteq> '''' \<and> has_uuid path uuid m) (mg_installed m) = None"
    using assms(1) by (auto simp: checkManifest_def split: option.splits)
  then have "\<not> has_uuid (fst w) uuid m" using assms(2,3) by (cases w) (auto simp: find_None_iff dotted_def)
  then show ?thesis using assms(3,6) has_uuid_leaf [OF assms(5,4)] by auto
qed

lemma install_module_ok:
  assumes run: "install_module ev op eePath (dotted (du sp k)) mf m0 = (res, m')" and ok: "modules_ok sp m" and env: "module_env sp ev"
    and mf: "outside sp mf" and i0: "installing sp k m m0" and k: "valid_segs [k]" "obs_at (du sp k) (mroot m) = None"
    and v0: "leaf_at (mroot m0) (du sp k @ [''UUID'']) = Some v0" "VType v0 = TypeString"
    and args: "so_UUID op = '''' \<or> uuidPattern (so_UUID op)" and ee: "eePath = dotted (sp @ [''ExecEnv'']) @ s"
  shows "modules_ok sp m'"
proof -
  define uuid where "uuid = (if so_UUID op = '''' then AppUUID (ev_sha1 ev) (mf_App mf) else so_UUID op)"
  define m1 where "m1 = setLeaves (dotted (du sp k)) [(''UUID'', uuid)] m0"
  define m2 where "m2 = setLeaves (dotted (du sp k)) [(''Name'', app_Name (mf_App mf)), (''Version'', app_Version (mf_App mf)), (''Vendor'', app_Vendor (mf_App mf)),
                         (''Description'', app_Description (mf_App mf)), (''DUID'', app_Name (mf_App mf))] m1"
  have "uuidPattern uuid" using args env AppUUID_pattern [of "ev_sha1 ev"] by (auto simp: uuid_def module_env_def)
  then have utf8: "ValidString uuid" by (rule uuidPattern_text)
  have al0: "alive sp m0" using i0 by (simp add: installing_def)
  obtain v where v: "leaf_at (mroot m1) (du sp k @ [''UUID'']) = Some v" "Raw v = uuid"
    using setLeaves_uuid [OF v0 al0 k(1) utf8] unfolding m1_def by blast
  have i1: "installing sp k m m1" unfolding m1_def by (rule installing_cells [OF i0 k(1)])
  then have al1: "alive sp m1" by (simp add: installing_def)
  have c2: "calm sp k m1 m2" unfolding m2_def by (rule calm_cells [OF al1 k(1)]) (simp add: cell_names_def)
  have i2: "installing sp k m m2" by (rule installing_calm [OF i1 c2])
  note defs = install_module_def Let_def uuid_def [symmetric] m1_def [symmetric] m2_def [symmetric]
  show ?thesis
  proof (cases "checkManifest mf uuid '''' m1")
    case (Some cf)
    then show ?thesis using run undo_ok [OF _ i1 ok k] by (simp add: defs)
  next
    case check: None
    show ?thesis
    proof (cases "sleep ev (sm_InstallDelay (mg_cfg m0))")
      case (Some e)
      then show ?thesis using run check undo_ok [OF _ i2 ok k] by (simp add: defs)
    next
      case sl: None
      obtain sres m3 where st: "start ev mf eePath m2 = (sres, m3)" by (cases "start ev mf eePath m2")
      have al2: "alive sp m2" using i2 by (simp add: installing_def)
      note cs = calm_start [OF st mf al2]
      have i3: "installing sp k m m3" by (rule installing_calm [OF i2 cs(1)])
      show ?thesis
      proof (cases sres)
        case (Inl f)
        then show ?thesis using run check sl st undo_ok [OF _ i3 ok k] by (simp add: defs)
      next
        case (Inr re)
        obtain roots eu where re: "re = (roots, eu)" by (cases re)
        define m4 where "m4 = setLeaves (dotted (du sp k)) [(''Status'', ''Installed''), (''Resolved'', ''true''),
                                      (''ExecutionUnitList'', ref eu), (''Installed'', ev_rfc3339 ev), (''LastUpdate'', ev_rfc3339 ev)] m3"
        define inst where "inst = \<lparr>in_duPath = dotted (du sp k), in_euPath = eu, in_eePath = eePath, in_manifest = mf, in_url = so_URL op, in_roots = roots\<rparr>"
        have al3: "alive sp m3" using i3 by (simp add: installing_def)
        have c4: "calm sp k m3 m4" unfolding m4_def by (rule calm_cells [OF al3 k(1)]) (simp add: cell_names_def)
        have i4: "installing sp k m m4" by (rule installing_calm [OF i3 c4])
        have c14: "calm sp k m1 m4" using calm_trans [OF calm_trans [OF c2 cs(1)] c4] .
        have fr: "frame (noisy sp k) (still sp) (mroot m1) (mroot m4)" using c14 by (simp add: calm_def moves_def)
        have v4: "leaf_at (mroot m4) (du sp k @ [''UUID'']) = Some v" using frame_leaf [OF fr, of "du sp k @ [''UUID'']"] v(1) by (simp add: noisy_def)
        have mv: "moves (- others sp k) (- others sp k) m m4" "alive sp m4" "obs_at (du sp k) (mroot m4) \<noteq> None"
          using i4 by (simp_all add: installing_def)
        have u: "unit_at sp (mroot m4) k (dotted (du sp k), inst)"
          using k(1) mv(3) mf ee cs(2) [OF Inr [unfolded re]] by (auto simp: unit_at_def unit_paths_def inst_def)
        have "modules_ok sp (m4\<lparr>mg_installed := AList.update (dotted (du sp k)) inst (mg_installed m)\<rparr>)"
        proof (rule modules_ok_remember [OF ok mv(1,2) u])
          fix w k' assume w: "w \<in> set (mg_installed m)" "unit_at sp (mroot m) k' w" "k' \<noteq> k"
          have inst1: "mg_installed m1 = mg_installed m" using i1 by (simp add: installing_def moves_def)
          have "leaf_at (mroot m4) (du sp k' @ [''UUID'']) = leaf_at (mroot m1) (du sp k' @ [''UUID''])"
            using unit_at_others(2) [OF calm_others [OF c14] w(3)] .
          then show "\<not> same_uuid sp (mroot m4) k k'"
            using checkManifest_fresh [OF check w(1) [folded inst1] _ _ al1] w(2) v(2) v4 EqualFold_sym
            unfolding same_uuid_def unit_at_def by (metis option.inject)
        qed
        then have r: "modules_ok sp (remember inst m4)" using i4 by (simp add: remember_def inst_def installing_def moves_def)
        have "unit_at sp (mroot m4) k (in_duPath inst, inst)" using u by (simp add: inst_def)
        note w = remember_unit [OF r this]
        have "calm sp k (remember inst m4) (syncActiveUnits eePath (remember inst m4))"
          by (rule calm_sync [OF ee]) (use r in \<open>simp add: modules_ok_def\<close>)
        note ended = calm_remember_tail [OF r this w]
        have "mg_installed m4 = mg_installed m3" by (simp add: m4_def)
        with ended run check sl st Inr re show ?thesis
          by (auto simp: defs m4_def [symmetric] remember_def inst_def)
      qed
    qed
  qed
qed

lemma install_ok:
  assumes "install ev op m = (res, m')" and ok: "modules_ok sp m" and env: "module_env sp ev" and room: "room sp m"
  shows "modules_ok sp m'"
proof (cases "checkInstallArgs op")
  case (Some f)
  then show ?thesis using assms by (auto simp: install_def)
next
  case args: None
  have al: "alive sp m" using ok by (simp add: modules_ok_def)
  show ?thesis
  proof (cases "execEnv (so_ExecutionEnvRef op) m")
    case (Inl f)
    then show ?thesis using assms args by (auto simp: install_def)
  next
    case ee: (Inr eePath)
    obtain s where s: "eePath = dotted (sp @ [''ExecEnv'']) @ s" using execEnv_below [OF ee] al by (auto simp: alive_def)
    obtain ares m1 where a: "addRow DeploymentUnitTable requiredDULeaves m = (ares, m1)" by (cases "addRow DeploymentUnitTable requiredDULeaves m")
    show ?thesis
    proof (cases ares)
      case (Inl f)
      then have "m' = m1" using assms(1) args ee a by (simp add: install_def)
      then show ?thesis using addRow_fails [OF a [unfolded Inl] ok room] by simp
    next
      case (Inr path)
      obtain k where k: "path = dotted (du sp k)" "valid_segs [k]" "obs_at (du sp k) (mroot m) = None" "obs_at (du sp k) (mroot m1) \<noteq> None"
        "moves (- others sp k) (- others sp k) m m1" "alive sp m1" "\<exists>v. leaf_at (mroot m1) (du sp k @ [''UUID'']) = Some v \<and> VType v = TypeString"
        by (rule addRow_du [OF a [unfolded Inr] al room])
      define vals where "vals = [(''UUID'', so_UUID op), (''Status'', ''Installing''), (''Resolved'', ''false''),
                                (''URL'', so_URL op), (''ExecutionEnvRef'', ref eePath)]"
      define m2 where "m2 = setLeaves (dotted (du sp k)) vals m1"
      have i2: "installing sp k m m2" unfolding m2_def by (rule installing_cells [OF _ k(2)]) (use k in \<open>simp add: installing_def\<close>)
      have "valid_segs (du sp k)" using k(2) al table_names(1) by (simp add: alive_def sm_at_def)
      then have "frame (below (du sp k)) {} (mroot m1) (mroot m2)" unfolding m2_def by (rule frame_setLeaves) simp
      with k(7) obtain v where v: "leaf_at (mroot m2) (du sp k @ [''UUID'']) = Some v" "VType v = TypeString"
        using frame_VType [of "below (du sp k)" "{}" "mroot m1" "mroot m2" "du sp k @ [''UUID'']"] by auto
      show ?thesis
      proof (cases "ev_fetch ev (so_URL op)")
        case (Inl f)
        then show ?thesis using assms(1) args ee a Inr undo_ok [OF _ i2 ok k(2,3)]
          by (simp add: install_def Let_def k(1) vals_def [symmetric] m2_def [symmetric])
      next
        case mf: (Inr mf)
        then have out: "outside sp mf" using env by (simp add: module_env_def)
        have pat: "so_UUID op = '''' \<or> uuidPattern (so_UUID op)" using args by (auto simp: checkInstallArgs_def split: if_splits)
        have "install_module ev op eePath (dotted (du sp k)) mf m2 = (res, m')"
          using assms(1) args ee a Inr mf by (simp add: install_def Let_def k(1) vals_def [symmetric] m2_def [symmetric])
        from install_module_ok [OF this ok env out i2 k(2,3) v pat s] show ?thesis .
      qed
    qed
  qed
qed

section \<open>Reachable managers\<close>

inductive module_step :: "string list \<Rightarrow> Manager \<Rightarrow> Manager \<Rightarrow> bool" for sp where
  operation: "module_env sp ev \<Longrightarrow> room sp m \<Longrightarrow> Manager_Run ev op m = (res, m') \<Longrightarrow> module_step sp m m'"

lemma step_modules_ok:
  assumes "module_step sp m m'" and "modules_ok sp m"
  shows "modules_ok sp m'"
  using assms
proof induction
  case (operation ev m op res m')
  then show ?case
    by (cases "so_Kind op")
      (auto simp: Manager_Run_def Let_def split: prod.splits dest: install_ok update_ok uninstall_ok)
qed

lemma modules_ok_nothing: "alive sp m \<Longrightarrow> mg_installed m = [] \<Longrightarrow> modules_ok sp m"
  by (simp add: modules_ok_def)

lemma steps_modules_ok: "(module_step sp)\<^sup>*\<^sup>* m m' \<Longrightarrow> modules_ok sp m \<Longrightarrow> modules_ok sp m'"
  by (induction rule: rtranclp_induct) (auto intro: step_modules_ok)

lemma modules_ok_unique:
  assumes ok: "modules_ok sp m" and "(p, inst) \<in> set (mg_installed m)" "(p', inst') \<in> set (mg_installed m)"
    and "has_uuid p u m" "has_uuid p' u m"
  shows "p = p'"
proof -
  from ok assms(2,3) obtain k k' where k: "unit_at sp (mroot m) k (p, inst)" "unit_at sp (mroot m) k' (p', inst')"
    unfolding modules_ok_def by blast
  have al: "alive sp m" using ok by (simp add: modules_ok_def)
  have d: "p = dotted (du sp k)" "valid_segs [k]" "p' = dotted (du sp k')" "valid_segs [k']" using k by (simp_all add: unit_at_def)
  have h: "has_uuid (dotted (du sp k)) u m" "has_uuid (dotted (du sp k')) u m" using assms(4,5) d by simp_all
  from h(1) obtain v where v: "leaf_at (mroot m) (du sp k @ [''UUID'']) = Some v" "EqualFold (Raw v) u"
    unfolding has_uuid_leaf [OF al d(2)] by blast
  from h(2) obtain v' where v': "leaf_at (mroot m) (du sp k' @ [''UUID'']) = Some v'" "EqualFold (Raw v') u"
    unfolding has_uuid_leaf [OF al d(4)] by blast
  from v(1) v'(1) have "same_uuid sp (mroot m) k k'" using EqualFold_trans [OF v(2) EqualFold_sym [OF v'(2)]] unfolding same_uuid_def by blast
  then have "k = k'" using ok assms(2,3) k unfolding modules_ok_def by blast
  then show ?thesis using k by (simp add: unit_at_def)
qed

lemma at_most_one:
  assumes "\<And>x y. x \<in> set xs \<Longrightarrow> y \<in> set xs \<Longrightarrow> x = y" and "distinct xs"
  shows "length xs \<le> 1"
proof (cases xs)
  case (Cons x ys)
  have "ys = []"
  proof (rule ccontr)
    assume "ys \<noteq> []"
    then have "hd ys \<in> set xs" "x \<in> set xs" "x \<noteq> hd ys" using Cons assms(2) by auto
    then show False using assms(1) by blast
  qed
  then show ?thesis using Cons by simp
qed simp


section \<open>Witnesses\<close>

lemma apps_env: "module_env [''S''] (sample_env apps)"
proof -
  have "wf_node apps" "\<not> isLeaf apps" "node_at [''S''] apps = None" by code_simp+
  then show ?thesis by (simp add: module_env_def sample_env_def sample_manifest_def outside_def)
qed

lemma sample_room: "room [''S''] sm_manager"
proof -
  have "map_option (\<lambda>n. (length (children n), map_option (\<lambda>t. leaf_at t [''UUID'']) (table n))) (node_at [''S'', ''DeploymentUnit''] (mroot sm_manager))
      = Some (0, Some (Some \<lparr>VType = TypeString, Raw = '''', Writable = False\<rparr>))" by code_simp
  then show ?thesis by (auto simp: room_def)
qed


end
