(* ===== verification/GoNet.thy ===== *)
theory GoNet
  imports GoStrings CpeErr "HOL-Library.Word"
begin

text \<open>
  IP addresses and prefixes, as far as the loader of profiles uses \<^verbatim>\<open>net\<close> and \<^verbatim>\<open>net/netip\<close>: parsing an
  address and a prefix, the network address of a prefix, and the text of an address (RFC 5952).
  An address is a word of 32 or 128 bits.  A zone, which \<^verbatim>\<open>ParsePrefix\<close> and \<^verbatim>\<open>ParseCIDR\<close> both refuse, is
  refused while parsing.
\<close>

unbundle bit_operations_syntax

datatype Addr = IP4 "32 word" | IP6 "128 word"

fun Is4 :: "Addr \<Rightarrow> bool" where
  "Is4 (IP4 _) = True"
| "Is4 (IP6 _) = False"

text \<open>The value of a list of digits to a base, most significant first.\<close>

definition from_digits :: "int \<Rightarrow> int list \<Rightarrow> int" where
  "from_digits base ds = fold (\<lambda>d acc. acc * base + d) ds 0"

section \<open>Parsing\<close>

definition octet :: "string \<Rightarrow> int option" where
  "octet s =
     (if s \<noteq> '''' \<and> list_all is_digit s \<and> (length s > 1 \<longrightarrow> hd s \<noteq> CHR ''0'') \<and> from_digits 10 (map (int \<circ> digit_val) s) \<le> 255
      then Some (from_digits 10 (map (int \<circ> digit_val) s)) else None)"

fun all_some :: "'a option list \<Rightarrow> 'a list option" where
  "all_some [] = Some []"
| "all_some (None # xs) = None"
| "all_some (Some x # xs) = map_option ((#) x) (all_some xs)"

definition parseIPv4Fields :: "string \<Rightarrow> int list option" where
  "parseIPv4Fields s =
     (case all_some (map octet (split_on CHR ''.'' s)) of
        Some fs \<Rightarrow> if length fs = 4 then Some fs else None
      | None \<Rightarrow> None)"

definition hex_val :: "char \<Rightarrow> int option" where
  "hex_val c =
     (if is_digit c then Some (int (digit_val c))
      else if CHR ''a'' \<le> c \<and> c \<le> CHR ''f'' then Some (of_char c - 87)
      else if CHR ''A'' \<le> c \<and> c \<le> CHR ''F'' then Some (of_char c - 55)
      else None)"

definition hex_field :: "string \<Rightarrow> int option" where
  "hex_field s = (if s \<noteq> '''' \<and> length s \<le> 4 then map_option (from_digits 16) (all_some (map hex_val s)) else None)"

text \<open>The fields of one side of the ellipsis, each of 16 bits.  The last field of the whole address may be
  an IPv4 address and then counts for two.\<close>

fun v6_fields :: "bool \<Rightarrow> string list \<Rightarrow> int list option" where
  "v6_fields tail [] = Some []"
| "v6_fields tail [s] =
     (if tail \<and> CHR ''.'' \<in> set s then
        (case parseIPv4Fields s of Some [a, b, c, d] \<Rightarrow> Some [a * 256 + b, c * 256 + d] | _ \<Rightarrow> None)
      else map_option (\<lambda>n. [n]) (hex_field s))"
| "v6_fields tail (s # s2 # ss) =
     (case hex_field s of
        None \<Rightarrow> None
      | Some n \<Rightarrow> map_option ((#) n) (v6_fields tail (s2 # ss)))"

definition side :: "bool \<Rightarrow> string \<Rightarrow> int list option" where
  "side tail s = (if s = '''' then Some [] else v6_fields tail (split_on CHR '':'' s))"

definition parseIPv6 :: "string \<Rightarrow> int list option" where
  "parseIPv6 s =
     (case Index s ''::'' of
        None \<Rightarrow> (case side True s of Some fs \<Rightarrow> if length fs = 8 then Some fs else None | None \<Rightarrow> None)
      | Some i \<Rightarrow>
          (case (side False (take i s), side True (drop (i + 2) s)) of
             (Some l, Some r) \<Rightarrow> if length l + length r < 8 then Some (l @ replicate (8 - length l - length r) 0 @ r) else None
           | _ \<Rightarrow> None))"

definition is_mark :: "char \<Rightarrow> bool" where
  "is_mark c \<longleftrightarrow> c = CHR ''.'' \<or> c = CHR '':'' \<or> c = CHR ''%''"

definition ParseAddr :: "string \<Rightarrow> Addr option" where
  "ParseAddr s =
     (case find is_mark s of
        Some m \<Rightarrow>
          if m = CHR ''.'' then map_option (\<lambda>fs. IP4 (of_int (from_digits 256 fs))) (parseIPv4Fields s)
          else if m = CHR '':'' then map_option (\<lambda>fs. IP6 (of_int (from_digits 65536 fs))) (parseIPv6 s)
          else None
      | None \<Rightarrow> None)"

definition addr_bits :: "Addr \<Rightarrow> nat" where
  "addr_bits a = (if Is4 a then 32 else 128)"

text \<open>\<^verbatim>\<open>netip.ParsePrefix\<close> splits at the last slash and refuses a sign or a leading zero in the length;
  \<^verbatim>\<open>net.ParseCIDR\<close> splits at the first slash and accepts leading zeros.\<close>

definition ParsePrefix :: "string \<Rightarrow> (Addr \<times> nat) option" where
  "ParsePrefix s =
     (case Index (rev s) ''/'' of
        None \<Rightarrow> None
      | Some k \<Rightarrow>
          (let i = length s - 1 - k; bitsStr = drop (Suc i) s in
           case ParseAddr (take i s) of
             None \<Rightarrow> None
           | Some ip \<Rightarrow>
               if length bitsStr > 1 \<and> \<not> (CHR ''1'' \<le> hd bitsStr \<and> hd bitsStr \<le> CHR ''9'') then None
               else (case Atoi bitsStr of
                       Some b \<Rightarrow> if 0 \<le> b \<and> b \<le> int (addr_bits ip) then Some (ip, nat b) else None
                     | None \<Rightarrow> None)))"

definition ParseCIDR :: "string \<Rightarrow> (Addr \<times> nat) option" where
  "ParseCIDR s =
     (case Cut s CHR ''/'' of
        None \<Rightarrow> None
      | Some (addr, ones) \<Rightarrow>
          (case ParseAddr addr of
             None \<Rightarrow> None
           | Some ip \<Rightarrow>
               (case parse_nat ones of
                  Some n \<Rightarrow> if n \<le> addr_bits ip then Some (ip, n) else None
                | None \<Rightarrow> None)))"

text \<open>\<^verbatim>\<open>IP.To4\<close>: an IPv4 address, also one that is mapped into IPv6.\<close>

fun To4 :: "Addr \<Rightarrow> (32 word) option" where
  "To4 (IP4 w) = Some w"
| "To4 (IP6 w) = (if drop_bit 32 w = 0xFFFF then Some (ucast w) else None)"

section \<open>Networks and texts\<close>

definition Masked4 :: "32 word \<Rightarrow> nat \<Rightarrow> 32 word" where
  "Masked4 w bits = push_bit (32 - bits) (drop_bit (32 - bits) w)"

definition Masked6 :: "128 word \<Rightarrow> nat \<Rightarrow> 128 word" where
  "Masked6 w bits = push_bit (128 - bits) (drop_bit (128 - bits) w)"

definition String4 :: "32 word \<Rightarrow> string" where
  "String4 w = join ''.'' (map (\<lambda>k. Itoa (uint (drop_bit k w) mod 256)) [24, 16, 8, 0])"

fun hex_digits :: "nat \<Rightarrow> int \<Rightarrow> string" where
  "hex_digits 0 n = []"
| "hex_digits (Suc k) n = (if n < 16 then [hex_digit (nat n)] else hex_digits k (n div 16) @ [hex_digit (nat (n mod 16))])"

text \<open>A field has at most four hexadecimal digits.\<close>

definition show_hex :: "int \<Rightarrow> string" where
  "show_hex n = hex_digits 4 n"

definition fields :: "128 word \<Rightarrow> int list" where
  "fields w = map (\<lambda>k. uint (drop_bit (16 * k) w) mod 65536) (rev [0..<8])"

text \<open>The longest run of at least two zero fields, the first one if there are several.\<close>

definition zero_run :: "int list \<Rightarrow> nat \<Rightarrow> nat" where
  "zero_run fs i = length (takeWhile (\<lambda>f. f = 0) (drop i fs))"

definition compress_at :: "int list \<Rightarrow> (nat \<times> nat) option" where
  "compress_at fs =
     fold (\<lambda>i best. let l = zero_run fs i in
             if 2 \<le> l \<and> (case best of None \<Rightarrow> True | Some (s, n) \<Rightarrow> n < l) then Some (i, l) else best)
       [0..<8] None"

definition String6 :: "128 word \<Rightarrow> string" where
  "String6 w =
     (case To4 (IP6 w) of
        Some v4 \<Rightarrow> ''::ffff:'' @ String4 v4
      | None \<Rightarrow>
          (let fs = fields w in
           case compress_at fs of
             None \<Rightarrow> join '':'' (map show_hex fs)
           | Some (s, n) \<Rightarrow> join '':'' (map show_hex (take s fs)) @ ''::'' @ join '':'' (map show_hex (drop (s + n) fs))))"

end
