(* ===== verification/FleetPools.thy ===== *)
theory FleetPools
  imports GoNet ParamValue
begin

text \<open>
  The address pools of a fleet (\<^verbatim>\<open>src/internal/paramtree/fleet.go\<close>): checking a pool of a profile and the
  address or prefix an instance gets from it.  A map of pools is an association list.  Integers of the
  source are 64 bits wide, an instance is an \<open>int\<close> in their range.
\<close>

section \<open>Pools\<close>

record FleetPool =
  fp_Type :: string
  fp_CIDR :: string
  fp_Super :: string
  fp_SubLen :: int

text \<open>The error of a parser of the standard library, which only the message shows.\<close>

definition lib_error :: "string \<Rightarrow> string \<Rightarrow> goerr" where
  "lib_error what text' = Errorf what [ArgS text']"

definition reservedPoolNames :: "string list" where
  "reservedPoolNames = [''cpe'', ''cpe_id'', ''i'', ''base'']"

definition is_letter :: "char \<Rightarrow> bool" where
  "is_letter c \<longleftrightarrow> CHR ''A'' \<le> c \<and> c \<le> CHR ''Z'' \<or> CHR ''a'' \<le> c \<and> c \<le> CHR ''z''"

definition poolNameRE :: "string \<Rightarrow> bool" where
  "poolNameRE s \<longleftrightarrow> s \<noteq> '''' \<and> (is_letter (hd s) \<or> hd s = CHR ''_'') \<and> list_all (\<lambda>c. is_letter c \<or> is_digit c \<or> c = CHR ''_'') (tl s)"

definition PoolNamePattern :: string where
  "PoolNamePattern = ''^[A-Za-z_][A-Za-z0-9_]*$''"

definition check_pool4 :: "FleetPool \<Rightarrow> goerr + FleetPool" where
  "check_pool4 raw =
     (if fp_CIDR raw = '''' then Inl (Errorf ''type=ipv4 requires cidr'' [])
      else case ParseCIDR (fp_CIDR raw) of
        None \<Rightarrow> Inl (Errorf ''cidr %q: %w'' [ArgS (fp_CIDR raw), ArgW (lib_error ''invalid CIDR address: %s'' (fp_CIDR raw))])
      | Some (ip, n) \<Rightarrow>
          if To4 ip = None then Inl (Errorf ''cidr %q is not an IPv4 network'' [ArgS (fp_CIDR raw)]) else Inr raw)"

definition check_pool6 :: "FleetPool \<Rightarrow> goerr + FleetPool" where
  "check_pool6 raw =
     (if fp_CIDR raw = '''' then Inl (Errorf ''type=ipv6 requires cidr'' [])
      else case ParseCIDR (fp_CIDR raw) of
        None \<Rightarrow> Inl (Errorf ''cidr %q: %w'' [ArgS (fp_CIDR raw), ArgW (lib_error ''invalid CIDR address: %s'' (fp_CIDR raw))])
      | Some (ip, n) \<Rightarrow>
          if To4 ip \<noteq> None then Inl (Errorf ''cidr %q is not an IPv6 network'' [ArgS (fp_CIDR raw)]) else Inr raw)"

definition check_prefix_pool :: "FleetPool \<Rightarrow> goerr + FleetPool" where
  "check_prefix_pool raw =
     (if fp_Super raw = '''' then Inl (Errorf ''type=ipv6prefix requires super'' [])
      else case ParseCIDR (fp_Super raw) of
        None \<Rightarrow> Inl (Errorf ''super %q: %w'' [ArgS (fp_Super raw), ArgW (lib_error ''invalid CIDR address: %s'' (fp_Super raw))])
      | Some (ip, superLen) \<Rightarrow>
          if To4 ip \<noteq> None then Inl (Errorf ''super %q must be an IPv6 network'' [ArgS (fp_Super raw)])
          else if fp_SubLen raw \<le> int superLen then
            Inl (Errorf ''sublen %d must be greater than super prefix length %d'' [ArgI (fp_SubLen raw), ArgI (int superLen)])
          else if fp_SubLen raw > 128 then Inl (Errorf ''sublen %d exceeds 128'' [ArgI (fp_SubLen raw)])
          else Inr raw)"

definition validateFleetPool :: "string \<Rightarrow> FleetPool \<Rightarrow> goerr + FleetPool" where
  "validateFleetPool name raw =
     (if name = '''' then Inl (Errorf ''pool name is empty'' [])
      else if \<not> poolNameRE name then Inl (Errorf ''pool name %q must match %s'' [ArgS name, ArgS PoolNamePattern])
      else if name \<in> set reservedPoolNames then
        Inl (Errorf ''pool name %q is reserved (clashes with built-in placeholders {cpe}/{cpe_id}/etc.)'' [ArgS name])
      else if fp_Type raw = ''ipv4'' then check_pool4 raw
      else if fp_Type raw = ''ipv6'' then check_pool6 raw
      else if fp_Type raw = ''ipv6prefix'' then check_prefix_pool raw
      else if fp_Type raw = '''' then Inl (Errorf ''type is required'' [])
      else Inl (Errorf ''type %q unsupported (want ipv4, ipv6, ipv6prefix)'' [ArgS (fp_Type raw)]))"

section \<open>Allocation\<close>

definition resolveIPv4 :: "string \<Rightarrow> int \<Rightarrow> goerr + string" where
  "resolveIPv4 cidr inst =
     (case ParsePrefix cidr of
        None \<Rightarrow> Inl (Errorf ''cidr %q: %w'' [ArgS cidr, ArgW (lib_error ''netip.ParsePrefix(%q)'' cidr)])
      | Some (IP6 _, bits) \<Rightarrow> Inl (Errorf ''cidr %q is not IPv4'' [ArgS cidr])
      | Some (IP4 w, bits) \<Rightarrow>
          (let hostBits = 32 - bits in
           if hostBits = 0 then
             (if inst \<noteq> 1 then Inl (Errorf ''/32 pool can only hold instance 1; got %d'' [ArgI inst]) else Inr (String4 w))
           else (let maxHost = (2::int) ^ hostBits - 1 in
                 if inst > maxHost then Inl (Errorf ''instance %d exceeds capacity %d for cidr %s'' [ArgI inst, ArgI maxHost, ArgS cidr])
                 else Inr (String4 (Masked4 w bits + of_int inst)))))"

definition resolveIPv6 :: "string \<Rightarrow> int \<Rightarrow> goerr + string" where
  "resolveIPv6 cidr inst =
     (case ParsePrefix cidr of
        None \<Rightarrow> Inl (Errorf ''cidr %q: %w'' [ArgS cidr, ArgW (lib_error ''netip.ParsePrefix(%q)'' cidr)])
      | Some (IP4 _, bits) \<Rightarrow> Inl (Errorf ''cidr %q is not IPv6'' [ArgS cidr])
      | Some (IP6 w, bits) \<Rightarrow>
          (let hostBits = 128 - bits; maxHost = (2::int) ^ hostBits - 1 in
           if hostBits < 64 \<and> inst > maxHost then
             Inl (Errorf ''instance %d exceeds capacity %d for cidr %s'' [ArgI inst, ArgI maxHost, ArgS cidr])
           else Inr (String6 (Masked6 w bits + of_int inst))))"

definition resolveIPv6Prefix :: "string \<Rightarrow> int \<Rightarrow> int \<Rightarrow> goerr + string" where
  "resolveIPv6Prefix super subLen inst =
     (case ParsePrefix super of
        None \<Rightarrow> Inl (Errorf ''super %q: %w'' [ArgS super, ArgW (lib_error ''netip.ParsePrefix(%q)'' super)])
      | Some (IP4 _, bits) \<Rightarrow> Inl (Errorf ''super %q is not IPv6'' [ArgS super])
      | Some (IP6 w, superLen) \<Rightarrow>
          if subLen \<le> int superLen \<or> subLen > 128 then
            Inl (Errorf ''sublen %d invalid for super /%d'' [ArgI subLen, ArgI (int superLen)])
          else
            (let selectorBits = nat subLen - superLen; hostBits = 128 - nat subLen; maxHost = (2::int) ^ selectorBits in
             if selectorBits < 64 \<and> inst \<ge> maxHost then
               Inl (Errorf ''instance %d exceeds capacity %d for super /%d -> /%d'' [ArgI inst, ArgI (maxHost - 1), ArgI (int superLen), ArgI subLen])
             else Inr (String6 (Masked6 w superLen OR push_bit hostBits (of_int inst)) @ ''/'' @ Itoa subLen)))"

definition ResolvePool :: "FleetPool \<Rightarrow> int \<Rightarrow> goerr + string" where
  "ResolvePool p inst =
     (if inst < 1 then Inl (Errorf ''instance must be >= 1, got %d'' [ArgI inst])
      else if fp_Type p = ''ipv4'' then resolveIPv4 (fp_CIDR p) inst
      else if fp_Type p = ''ipv6'' then resolveIPv6 (fp_CIDR p) inst
      else if fp_Type p = ''ipv6prefix'' then resolveIPv6Prefix (fp_Super p) (fp_SubLen p) inst
      else Inl (Errorf ''unsupported pool type %q'' [ArgS (fp_Type p)]))"

definition sortedPoolNames :: "(string \<times> FleetPool) list \<Rightarrow> string list" where
  "sortedPoolNames pools = sort (map fst pools)"

fun check_capacity :: "(string \<times> FleetPool) list \<Rightarrow> int \<Rightarrow> string list \<Rightarrow> goerr option" where
  "check_capacity pools highest [] = None"
| "check_capacity pools highest (name # names) =
     (case ResolvePool (the (map_of pools name)) highest of
        Inl e \<Rightarrow> Some (Errorf ''pool %q cannot reach instance %d (pools are sized for the whole fleet, not one shard): %w''
                   [ArgS name, ArgI highest, ArgW e])
      | Inr _ \<Rightarrow> check_capacity pools highest names)"

definition ValidatePoolCapacity :: "(string \<times> FleetPool) list \<Rightarrow> int \<Rightarrow> goerr option" where
  "ValidatePoolCapacity pools highest =
     (if highest < 1 then None else check_capacity pools highest (sortedPoolNames pools))"

end
