(* ===== verification/ProfileRows.thy ===== *)
theory ProfileRows
  imports GoStrings Generators ParamReach
begin

text \<open>
  The parameter rows of a profile (\<^verbatim>\<open>src/internal/paramtree/profile.go\<close>): the shorthand blocks
  \<^verbatim>\<open>objects:\<close> and \<^verbatim>\<open>groups:\<close> are expanded into rows, rows get their defaults, and \<open>applyRows\<close> mounts
  them into a tree.  A YAML document is the record it decodes to, an omitted key the value \<open>None\<close>.

  Go leaves open in which order \<open>applyRows\<close> walks its map of tables.  The model walks them in the order
  of their first row; the theorems about what is accepted and what is mounted speak of sets of rows
  and do not depend on it.
\<close>

section \<open>Rows\<close>

record rawInlineGenerator =
  ig_Type :: string
  ig_Interval :: string
  ig_Min :: "int option"
  ig_Max :: "int option"
  ig_Step :: "uint64 option"
  ig_Jitter :: "rat option"
  ig_StepMax :: "int option"
  ig_Values :: "string list"
  ig_Mode :: string

record rawProfileParam =
  rp_Path :: string
  rp_Type :: "Type option"
  rp_Value :: "string option"
  rp_Writable :: "bool option"
  rp_Instances :: "int option"
  rp_Generator :: "rawInlineGenerator option"

record rawObject =
  ro_Path :: string
  ro_Instances :: int
  ro_Parameters :: "rawProfileParam list"

record rawGroup =
  rgr_Prefix :: string
  rgr_Parameters :: "rawProfileParam list"

record profileParam =
  pp_Path :: string
  pp_Type :: Type
  pp_Value :: string
  pp_Writable :: bool
  pp_Instances :: int
  pp_InstancesSet :: bool
  pp_Source :: string

definition typeZeroValue :: "Type \<Rightarrow> string" where
  "typeZeroValue typ =
     (if typ = TypeInt \<or> typ = TypeUnsignedInt then ''0''
      else if typ = TypeBoolean then ''false''
      else if typ = TypeDateTime then ''1970-01-01T00:00:00Z''
      else '''')"

definition applyDefaults :: "rawProfileParam \<Rightarrow> string \<Rightarrow> profileParam" where
  "applyDefaults raw source =
     (let typ = (case rp_Type raw of Some ty \<Rightarrow> ty | None \<Rightarrow> TypeString) in
      \<lparr>pp_Path = rp_Path raw, pp_Type = typ,
       pp_Value = (case rp_Value raw of Some v \<Rightarrow> v | None \<Rightarrow> typeZeroValue typ),
       pp_Writable = (case rp_Writable raw of Some w \<Rightarrow> w | None \<Rightarrow> False),
       pp_Instances = (case rp_Instances raw of Some i \<Rightarrow> i | None \<Rightarrow> 0),
       pp_InstancesSet = (rp_Instances raw \<noteq> None),
       pp_Source = source\<rparr>)"

section \<open>Objects and groups\<close>

text \<open>The children of one block: \<open>what\<close> gives the row of a child, the two texts are those of the errors
  about a child that has a \<^verbatim>\<open>{i}\<close> or instances of its own.\<close>

fun expand_children ::
  "string \<Rightarrow> string \<Rightarrow> string \<Rightarrow> (rawProfileParam \<Rightarrow> rawProfileParam) \<Rightarrow> nat \<Rightarrow> rawProfileParam list \<Rightarrow> goerr + rawProfileParam list" where
  "expand_children where' has_i has_inst full idx [] = Inr []"
| "expand_children where' has_i has_inst full idx (child # cs) =
     (let cWhere = Sprintf ''%s.parameters[%d] (path=%q)'' [where', show_nat idx, rp_Path child] in
      if rp_Path child = '''' then Inl (Errorf ''%s: path is required'' [ArgS cWhere])
      else if Contains (rp_Path child) ''{i}'' then Inl (Errorf has_i [ArgS cWhere])
      else if rp_Instances child \<noteq> None then Inl (Errorf has_inst [ArgS cWhere])
      else (case expand_children where' has_i has_inst full (Suc idx) cs of
              Inl e \<Rightarrow> Inl e
            | Inr out \<Rightarrow> Inr (full child # out)))"

definition expandObject :: "string \<Rightarrow> nat \<Rightarrow> rawObject \<Rightarrow> goerr + rawProfileParam list" where
  "expandObject source objIdx obj =
     (let where' = Sprintf ''%s: objects[%d] (path=%q)'' [source, show_nat objIdx, ro_Path obj] in
      if ro_Path obj = '''' then Inl (Errorf ''%s: path is required'' [ArgS where'])
      else if Contains (ro_Path obj) ''{i}'' then
        Inl (Errorf ''%s: path must NOT contain {i}; instances are appended automatically'' [ArgS where'])
      else if HasSuffix (ro_Path obj) ''.'' then Inl (Errorf (''%s: path must not end with '.'' @ [CHR 0x27]) [ArgS where'])
      else if ro_Instances obj < 0 then Inl (Errorf ''%s: instances must be >= 0, got %d'' [ArgS where', ArgI (ro_Instances obj)])
      else if ro_Parameters obj = [] then Inl (Errorf ''%s: at least one child parameter required'' [ArgS where'])
      else expand_children where'
             ''%s: child path must NOT contain {i}; the object wrapper supplies it''
             ''%s: child must not declare its own instances (the object's instances applies to all children)''
             (\<lambda>child. child\<lparr>rp_Path := ro_Path obj @ ''.{i}.'' @ rp_Path child, rp_Instances := Some (ro_Instances obj)\<rparr>)
             0 (ro_Parameters obj))"

definition expandGroup :: "string \<Rightarrow> nat \<Rightarrow> rawGroup \<Rightarrow> goerr + rawProfileParam list" where
  "expandGroup source groupIdx g =
     (let where' = Sprintf ''%s: groups[%d] (prefix=%q)'' [source, show_nat groupIdx, rgr_Prefix g] in
      if rgr_Prefix g = '''' then Inl (Errorf ''%s: prefix is required'' [ArgS where'])
      else if Contains (rgr_Prefix g) ''{i}'' then
        Inl (Errorf ''%s: prefix must NOT contain {i} (use objects: for multi-instance)'' [ArgS where'])
      else if HasSuffix (rgr_Prefix g) ''.'' then Inl (Errorf (''%s: prefix must not end with '.'' @ [CHR 0x27]) [ArgS where'])
      else if rgr_Parameters g = [] then Inl (Errorf ''%s: at least one child parameter required'' [ArgS where'])
      else expand_children where'
             ''%s: child path must NOT contain {i}''
             ''%s: child must not declare instances inside groups: (use objects: for tables)''
             (\<lambda>child. child\<lparr>rp_Path := rgr_Prefix g @ ''.'' @ rp_Path child\<rparr>)
             0 (rgr_Parameters g))"

fun expand_all :: "(nat \<Rightarrow> 'a \<Rightarrow> goerr + rawProfileParam list) \<Rightarrow> nat \<Rightarrow> 'a list \<Rightarrow> goerr + rawProfileParam list" where
  "expand_all f idx [] = Inr []"
| "expand_all f idx (x # xs) =
     (case f idx x of
        Inl e \<Rightarrow> Inl e
      | Inr out \<Rightarrow> (case expand_all f (Suc idx) xs of Inl e \<Rightarrow> Inl e | Inr rest \<Rightarrow> Inr (out @ rest)))"

definition expandObjects :: "rawObject list \<Rightarrow> string \<Rightarrow> goerr + rawProfileParam list" where
  "expandObjects objects source = expand_all (expandObject source) 0 objects"

definition expandGroups :: "rawGroup list \<Rightarrow> string \<Rightarrow> goerr + rawProfileParam list" where
  "expandGroups groups source = expand_all (expandGroup source) 0 groups"

section \<open>Checking a row\<close>

definition profileErrAt :: "string \<Rightarrow> string \<Rightarrow> goerr \<Rightarrow> goerr" where
  "profileErrAt source paramPath cause =
     Wrap ''paramtree.LoadProfile'' KindInvalidArgument
       (Some (Errorf ''%s: parameter %q: %w'' [ArgS (if source = '''' then ''<reader>'' else source), ArgS paramPath, ArgW cause]))"

fun scan_segments :: "nat \<Rightarrow> nat option \<Rightarrow> string list \<Rightarrow> goerr + nat option" where
  "scan_segments i iIdx [] = Inr iIdx"
| "scan_segments i iIdx (seg # segs) =
     (if seg = '''' then Inl (Errorf ''empty segment in path'' [])
      else if seg = ''{i}'' then
        (if iIdx \<noteq> None then Inl (Errorf ''path may contain {i} at most once'' [])
         else scan_segments (Suc i) (Some i) segs)
      else if Contains seg ''{i}'' then Inl (Errorf ''{i} must be a complete segment, not embedded in %q'' [ArgS seg])
      else (case find (\<lambda>r. \<not> isSegmentChar r) seg of
              Some r \<Rightarrow> Inl (Errorf ''invalid character %q in segment %q'' [ArgS [r], ArgS seg])
            | None \<Rightarrow> scan_segments (Suc i) iIdx segs))"

text \<open>The segments and the position of \<^verbatim>\<open>{i}\<close>, if there is one.\<close>

definition parseProfilePath :: "string \<Rightarrow> goerr + string list \<times> nat option" where
  "parseProfilePath path =
     (let p = TrimSuffix path ''.'' in
      if p = '''' then Inl (Errorf ''empty path'' [])
      else (let segments = split_on CHR ''.'' p in
            case scan_segments 0 None segments of
              Inl e \<Rightarrow> Inl e
            | Inr (Some i) \<Rightarrow>
                if i = length segments - 1 then Inl (Errorf ''{i} cannot be the leaf segment; must have a sub-path'' [])
                else Inr (segments, Some i)
            | Inr None \<Rightarrow> Inr (segments, None)))"

text \<open>The loop of \<^verbatim>\<open>samplePickPlaceholders\<close> for one marker, and both markers.\<close>

function sample_marker :: "string \<Rightarrow> string \<Rightarrow> string" where
  "sample_marker marker s =
     (if marker = '''' then s
      else case Index s marker of
        None \<Rightarrow> s
      | Some i \<Rightarrow>
          (case Index (drop i s) ''}'' of
             None \<Rightarrow> s
           | Some j \<Rightarrow>
               (let opts = take (j - length marker) (drop (i + length marker) s);
                    first = (case Index opts '','' of Some c \<Rightarrow> take c opts | None \<Rightarrow> opts)
                in sample_marker marker (take i s @ TrimSpace first @ drop (i + j + 1) s))))"
  by pat_completeness auto
termination
proof (relation "measure (length o snd)", goal_cases)
  case (2 marker s i j opts first)
  have i: "i + length marker \<le> length s" using Index_bound [OF 2(2)] .
  have j: "i + j < length s" using Index_bound [OF 2(3)] i by auto
  have "length (TrimSpace first) \<le> length opts"
    using 2(5) by (auto simp: TrimSpace_def split: option.splits intro!: order_trans [OF length_dropWhile_le])
  moreover have "length marker > 0" using 2(1) by simp
  moreover have "length opts \<le> j - length marker" using 2(4) by simp
  ultimately show ?case using j by (auto simp: 2(4))
qed simp

declare sample_marker.simps [simp del]

definition samplePickPlaceholders :: "string \<Rightarrow> string" where
  "samplePickPlaceholders s = sample_marker ''{cpe:rpick:'' (sample_marker ''{cpe:pick:'' s)"

section \<open>Mounting\<close>

record tableGroup =
  tg_parent :: "string list"
  tg_instances :: int
  tg_rows :: "profileParam list"

text \<open>The checks on a row that concern it alone, with the segments of its path.\<close>

definition check_row :: "profileParam \<Rightarrow> goerr + string list \<times> nat option" where
  "check_row row =
     (if typeFns (pp_Type row) = None then Inl (Errorf ''unknown type %q'' [ArgS (pp_Type row)])
      else case parseProfilePath (pp_Path row) of
        Inl e \<Rightarrow> Inl e
      | Inr (segments, iIdx) \<Rightarrow>
          if iIdx \<noteq> None \<and> (\<not> pp_InstancesSet row \<or> pp_Instances row < 0) then
            Inl (Errorf ''path uses {i}; instances must be declared and >= 0 (0 declares the table empty)'' [])
          else if iIdx = None \<and> pp_Instances row \<noteq> 0 then
            Inl (Errorf ''instances=%d on a non-{i} path is not allowed'' [ArgI (pp_Instances row)])
          else
            (let v = (if iIdx \<noteq> None then ReplaceAll (pp_Value row) ''{i}'' ''1'' else pp_Value row) in
             case Validate (pp_Type row) (samplePickPlaceholders v) of
               Inl e \<Rightarrow> Inl (Errorf ''value %q does not match type %s: %w'' [ArgS (pp_Value row), ArgS (pp_Type row), ArgW e])
             | Inr _ \<Rightarrow> Inr (segments, iIdx)))"

text \<open>Pass 1: every row is checked and the rows of each table are collected.\<close>

fun validate_rows :: "profileParam list \<Rightarrow> (string \<times> tableGroup) list \<Rightarrow> goerr + (string \<times> tableGroup) list" where
  "validate_rows [] groups = Inr groups"
| "validate_rows (row # rows) groups =
     (case check_row row of
        Inl e \<Rightarrow> Inl (profileErrAt (pp_Source row) (pp_Path row) e)
      | Inr (segments, None) \<Rightarrow> validate_rows rows groups
      | Inr (segments, Some i) \<Rightarrow>
          (let parentSegs = take i segments; parentKey = joinPath parentSegs in
           case map_of groups parentKey of
             None \<Rightarrow> validate_rows rows (groups @ [(parentKey,
                       \<lparr>tg_parent = parentSegs, tg_instances = pp_Instances row, tg_rows = [row]\<rparr>)])
           | Some g \<Rightarrow>
               if tg_instances g \<noteq> pp_Instances row then
                 Inl (profileErrAt (pp_Source row) (pp_Path row)
                   (Errorf ''instances=%d disagrees with %d already declared for table parent %q''
                     [ArgI (pp_Instances row), ArgI (tg_instances g), ArgS parentKey]))
               else validate_rows rows (AList.update parentKey (g\<lparr>tg_rows := tg_rows g @ [row]\<rparr>) groups)))"

definition plain_row :: "profileParam \<Rightarrow> bool" where
  "plain_row row \<longleftrightarrow> \<not> (pp_Instances row > 0 \<or> Contains (pp_Path row) ''{i}'')"

definition row_value :: "profileParam \<Rightarrow> Value" where
  "row_value row = \<lparr>VType = pp_Type row, Raw = pp_Value row, Writable = pp_Writable row\<rparr>"

definition concrete_row :: "int \<Rightarrow> profileParam \<Rightarrow> profileParam" where
  "concrete_row inst row =
     row\<lparr>pp_Path := ReplaceAll (pp_Path row) ''{i}'' (Itoa inst), pp_Value := ReplaceAll (pp_Value row) ''{i}'' (Itoa inst)\<rparr>"

text \<open>Passes 2 and 3 mount rows one after the other; \<open>mountedFrom\<close> remembers which file declared a path.\<close>

fun mount_rows :: "profileParam list \<Rightarrow> (string \<times> string) list \<Rightarrow> Tree \<Rightarrow> (goerr + (string \<times> string) list) \<times> Tree" where
  "mount_rows [] mountedFrom t = (Inr mountedFrom, t)"
| "mount_rows (row # rows) mountedFrom t =
     (case map_of mountedFrom (pp_Path row) of
        Some prevSrc \<Rightarrow>
          (Inl (profileErrAt (pp_Source row) (pp_Path row) (Errorf ''duplicate path; already declared in %s'' [ArgS prevSrc])), t)
      | None \<Rightarrow>
          (case Mount (pp_Path row) (NewLeaf (row_value row)) t of
             (Inl e, t') \<Rightarrow> (Inl (profileErrAt (pp_Source row) (pp_Path row) e), t')
           | (Inr _, t') \<Rightarrow> mount_rows rows ((pp_Path row, pp_Source row) # mountedFrom) t'))"

definition materialize :: "tableGroup \<Rightarrow> profileParam list" where
  "materialize g = concat (map (\<lambda>inst. map (concrete_row inst) (tg_rows g)) [1..tg_instances g])"

text \<open>One row of a template: interior segments are created on the way, an error of \<^verbatim>\<open>Attach\<close> is dropped.\<close>

fun attach_at :: "string list \<Rightarrow> Value \<Rightarrow> Node \<Rightarrow> Node" where
  "attach_at [] v current = current"
| "attach_at [seg] v current = snd (Attach seg (NewLeaf v) current)"
| "attach_at (seg # seg2 # rest) v current =
     (case map_of (children current) seg of
        Some child \<Rightarrow> set_child seg (attach_at (seg2 # rest) v child) current
      | None \<Rightarrow>
          if is_err (fst (Attach seg NewBranch current)) then current
          else set_child seg (attach_at (seg2 # rest) v NewBranch) (snd (Attach seg NewBranch current)))"

definition template_segs :: "profileParam \<Rightarrow> string list" where
  "template_segs row =
     (let segments = split_on CHR ''.'' (pp_Path row) in
      if ''{i}'' \<in> set segments then drop 1 (dropWhile (\<lambda>s. s \<noteq> ''{i}'') segments) else drop 1 segments)"

definition buildInstanceTemplate :: "profileParam list \<Rightarrow> Node" where
  "buildInstanceTemplate rows = fold (\<lambda>row. attach_at (template_segs row) (row_value row)) rows NewBranch"

fun register_tables :: "(string \<times> tableGroup) list \<Rightarrow> Tree \<Rightarrow> (goerr + unit) \<times> Tree" where
  "register_tables [] t = (Inr (), t)"
| "register_tables ((parentKey, g) # groups) t =
     (case AddTable parentKey (Some (buildInstanceTemplate (tg_rows g))) t of
        (Inl e, t') \<Rightarrow> (Inl (profileErrAt (pp_Source (hd (tg_rows g))) parentKey e), t')
      | (Inr _, t') \<Rightarrow> register_tables groups t')"

definition applyRows :: "profileParam list \<Rightarrow> Tree \<Rightarrow> (goerr + unit) \<times> Tree" where
  "applyRows rows t =
     (case validate_rows rows [] of
        Inl e \<Rightarrow> (Inl e, t)
      | Inr groups \<Rightarrow>
          (case mount_rows (filter plain_row rows) [] t of
             (Inl e, t1) \<Rightarrow> (Inl e, t1)
           | (Inr mountedFrom, t1) \<Rightarrow>
               (case mount_rows (concat (map (materialize o snd) groups)) mountedFrom t1 of
                  (Inl e, t2) \<Rightarrow> (Inl e, t2)
                | (Inr _, t2) \<Rightarrow> register_tables groups t2)))"

section \<open>Paths of rows\<close>

lemma ReplaceAll_step:
  "c \<noteq> hd old \<Longrightarrow> old \<noteq> [] \<Longrightarrow> ReplaceAll (c # s) old new = c # ReplaceAll s old new"
  by (subst ReplaceAll.simps) (cases old, auto simp: HasPrefix_def)

lemma ReplaceAll_clean: "CHR ''{'' \<notin> set s \<Longrightarrow> ReplaceAll (s @ r) ''{i}'' new = s @ ReplaceAll r ''{i}'' new"
  by (induction s) (auto simp: ReplaceAll_step)

lemma ReplaceAll_once:
  assumes "CHR ''{'' \<notin> set a" and "CHR ''{'' \<notin> set b"
  shows "ReplaceAll (a @ ''{i}'' @ b) ''{i}'' new = a @ new @ b"
proof -
  have b: "ReplaceAll b ''{i}'' new = b"
    using ReplaceAll_clean [OF assms(2), of "[]"] by (simp add: ReplaceAll.simps)
  have "ReplaceAll (''{i}'' @ b) ''{i}'' new = new @ b"
    using b by (subst ReplaceAll.simps) (simp add: HasPrefix_def)
  with ReplaceAll_clean [OF assms(1)] show ?thesis by metis
qed

text \<open>A segment list with \<^verbatim>\<open>{i}\<close> at one place.\<close>

lemma isSegmentChar_no_brace: "isSegmentChar c \<Longrightarrow> c \<noteq> CHR ''{''"
  by (auto simp: isSegmentChar_def less_eq_char_def)

lemma valid_segs_no_brace: "valid_segs ss \<Longrightarrow> s \<in> set ss \<Longrightarrow> CHR ''{'' \<notin> set s"
  by (auto simp: valid_segs_def list_all_iff dest: isSegmentChar_no_brace)

lemma seg_no_marker: "list_all isSegmentChar s \<Longrightarrow> \<not> Contains s ''{i}''"
  using isSegmentChar_no_brace by (force simp: Contains_iff list_all_iff)

lemma brace_no_segment: "\<not> isSegmentChar (CHR ''{'')"
  by (simp add: isSegmentChar_def less_eq_char_def)

lemma find_bad_char: "find (\<lambda>r. \<not> isSegmentChar r) s = None \<longleftrightarrow> list_all isSegmentChar s"
  by (auto simp: find_None_iff list_all_iff)

lemma scan_plain:
  "s \<noteq> ''{i}'' \<Longrightarrow> scan_segments k m (s # segs) = Inr r \<longleftrightarrow>
     s \<noteq> [] \<and> list_all isSegmentChar s \<and> scan_segments (Suc k) m segs = Inr r"
  using find_bad_char [of s] seg_no_marker [of s] by (auto split: option.splits)

lemma scan_segments_None:
  "scan_segments k (Some i) segs = Inr r \<longleftrightarrow> r = Some i \<and> valid_segs segs"
proof (induction segs arbitrary: k)
  case (Cons s segs)
  show ?case
  proof (cases "s = ''{i}''")
    case False
    with Cons scan_plain [OF False] show ?thesis by auto
  qed (simp add: brace_no_segment)
qed auto

lemma scan_segments_Inr:
  "scan_segments k None segs = Inr r \<longleftrightarrow>
     (r = None \<and> valid_segs segs)
     \<or> (\<exists>xs ys. segs = xs @ ''{i}'' # ys \<and> r = Some (k + length xs) \<and> valid_segs xs \<and> valid_segs ys)"
proof (induction segs arbitrary: k)
  case (Cons s segs)
  show ?case
  proof (cases "s = ''{i}''")
    case True
    have "(\<exists>xs ys. s # segs = xs @ ''{i}'' # ys \<and> r = Some (k + length xs) \<and> valid_segs xs \<and> valid_segs ys)
        \<longleftrightarrow> r = Some k \<and> valid_segs segs"
      using True brace_no_segment by (auto simp: Cons_eq_append_conv)
    with True brace_no_segment show ?thesis by (auto simp: scan_segments_None)
  next
    case False
    show ?thesis (is "_ \<longleftrightarrow> ?a \<or> ?b")
    proof
      assume "scan_segments k None (s # segs) = Inr r"
      then have s: "s \<noteq> []" "list_all isSegmentChar s" and "scan_segments (Suc k) None segs = Inr r"
        using scan_plain [OF False] by simp_all
      with Cons [of "Suc k"] consider "r = None" "valid_segs segs"
        | xs ys where "segs = xs @ ''{i}'' # ys" "r = Some (Suc k + length xs)" "valid_segs xs" "valid_segs ys"
        by auto
      then show "?a \<or> ?b"
      proof cases
        case 2
        then have "s # segs = (s # xs) @ ''{i}'' # ys \<and> r = Some (k + length (s # xs)) \<and> valid_segs (s # xs) \<and> valid_segs ys"
          using s by simp
        then show ?thesis by blast
      qed (use s in simp)
    next
      assume "?a \<or> ?b"
      then show "scan_segments k None (s # segs) = Inr r"
      proof
        assume ?b
        then obtain xs ys where b: "s # segs = xs @ ''{i}'' # ys" "r = Some (k + length xs)" "valid_segs xs" "valid_segs ys"
          by blast
        with False obtain xs' where "xs = s # xs'" by (cases xs) auto
        with b scan_plain [OF False] Cons [of "Suc k"] show ?thesis by auto
      qed (use scan_plain [OF False] Cons [of "Suc k"] in simp)
    qed
  qed
qed auto

lemma split_on_TrimSuffix:
  "TrimSuffix p ''.'' \<noteq> '''' \<Longrightarrow> joinPath (split_on CHR ''.'' (TrimSuffix p ''.'')) = TrimSuffix p ''.''"
  by (simp add: joinPath_def join_split_on)

lemma marker_not_in: "valid_segs xs \<Longrightarrow> ''{i}'' \<notin> set xs"
  using valid_segs_no_brace [of xs "''{i}''"] by auto

lemma takeWhile_upto: "k \<notin> set xs \<Longrightarrow> takeWhile (\<lambda>s. s \<noteq> k) (xs @ k # ys) = xs"
  by (induction xs) auto

lemma once_at:
  assumes "xs @ k # ys = us @ k # vs" and "k \<notin> set xs" and "k \<notin> set us"
  shows "xs = us \<and> ys = vs"
  using assms takeWhile_upto by (metis append_eq_append_conv list.inject)

lemma parseProfilePath_scan:
  "parseProfilePath p = Inr (segs, m) \<longleftrightarrow>
     TrimSuffix p ''.'' \<noteq> '''' \<and> segs = split_on CHR ''.'' (TrimSuffix p ''.'')
     \<and> scan_segments 0 None segs = Inr m \<and> (\<forall>i. m = Some i \<longrightarrow> i \<noteq> length segs - 1)"
  by (auto simp: parseProfilePath_def Let_def split: sum.splits option.splits if_splits)

lemma marker_not_last:
  "(\<exists>xs ys. segs = xs @ k # ys \<and> m = Some (0 + length xs) \<and> P xs \<and> P ys) \<and> (\<forall>i. m = Some i \<longrightarrow> i \<noteq> length segs - 1) \<longleftrightarrow>
   (\<exists>xs ys. segs = xs @ k # ys \<and> m = Some (length xs) \<and> P xs \<and> P ys \<and> ys \<noteq> [])"
proof -
  have "segs = xs @ k # ys \<Longrightarrow> m = Some (length xs) \<Longrightarrow> (\<forall>i. m = Some i \<longrightarrow> i \<noteq> length segs - 1) = (ys \<noteq> [])" for xs ys
    by (cases ys) auto
  then show ?thesis by (metis add_0)
qed

lemma parseProfilePath_Inr:
  "parseProfilePath p = Inr (segs, m) \<longleftrightarrow>
     TrimSuffix p ''.'' \<noteq> '''' \<and> segs = split_on CHR ''.'' (TrimSuffix p ''.'')
     \<and> (m = None \<and> valid_segs segs
        \<or> (\<exists>xs ys. segs = xs @ ''{i}'' # ys \<and> m = Some (length xs) \<and> valid_segs xs \<and> valid_segs ys \<and> ys \<noteq> []))"
  unfolding parseProfilePath_scan scan_segments_Inr
  using marker_not_last [of segs "''{i}''" m valid_segs] by blast

lemma set_joinPath: "set (joinPath segs) \<subseteq> insert CHR ''.'' (\<Union> (set ` set segs))"
  unfolding joinPath_def by (induction "''.''" segs rule: join.induct) auto

lemma no_brace_joinPath: "valid_segs segs \<Longrightarrow> CHR ''{'' \<notin> set (joinPath segs)"
  using set_joinPath [of segs] valid_segs_no_brace [of segs] by fastforce

lemma joinPath_middle:
  "joinPath (xs @ k # ys) = (if xs = [] then [] else joinPath xs @ ''.'') @ k @ (if ys = [] then [] else ''.'' @ joinPath ys)"
proof (induction xs)
  case Nil
  then show ?case by (simp add: joinPath_def join_Cons)
next
  case (Cons x xs)
  then show ?case by (cases "xs = []") (simp_all add: joinPath_def join_Cons)
qed

lemma path_with_dot:
  "\<exists>d. p = TrimSuffix p ''.'' @ d \<and> d \<in> {'''', ''.''}"
proof (cases "HasSuffix p ''.''")
  case True
  then obtain q where "p = q @ ''.''" by (auto simp: HasSuffix_iff_suffix suffix_def)
  then show ?thesis by simp
qed (simp add: TrimSuffix_def)

lemma plain_path:
  assumes "parseProfilePath p = Inr (segs, None)"
  shows "parsePath p = Inr segs" and "segs \<noteq> []" and "\<not> Contains p ''{i}''"
proof -
  from assms have p: "TrimSuffix p ''.'' \<noteq> ''''" "segs = split_on CHR ''.'' (TrimSuffix p ''.'')" "valid_segs segs"
    by (auto simp: parseProfilePath_Inr)
  then have "check_segments (TrimSuffix p ''.'') segs = Inr ()" by (simp add: check_segments_ok)
  with p show "parsePath p = Inr segs" by (simp add: parsePath_def Let_def)
  show "segs \<noteq> []" using p(2) by (simp add: split_on_not_Nil)
  obtain d where d: "p = joinPath segs @ d" "d \<in> {'''', ''.''}"
    using path_with_dot [of p] p(1,2) split_on_TrimSuffix [OF p(1)] by auto
  then have "CHR ''{'' \<notin> set p" using no_brace_joinPath [OF p(3)] by auto
  moreover have "CHR ''{'' \<in> set ''{i}''" by simp
  ultimately show "\<not> Contains p ''{i}''" unfolding Contains_iff by auto
qed

lemma valid_Itoa: "0 \<le> n \<Longrightarrow> valid_segs [Itoa n]"
  using show_nat_segment [of "nat n"] by (simp add: Itoa_def show_nat_not_Nil)

lemma table_path:
  assumes "parseProfilePath p = Inr (segs, Some i)"
  obtains xs ys where "segs = xs @ ''{i}'' # ys" and "i = length xs" and "valid_segs xs" and "valid_segs ys" and "ys \<noteq> []"
    and "Contains p ''{i}''"
    and "\<And>n. 0 \<le> n \<Longrightarrow> parsePath (ReplaceAll p ''{i}'' (Itoa n)) = Inr (xs @ Itoa n # ys)"
proof -
  from assms obtain xs ys where p: "TrimSuffix p ''.'' \<noteq> ''''" "segs = split_on CHR ''.'' (TrimSuffix p ''.'')"
      "segs = xs @ ''{i}'' # ys" "i = length xs" "valid_segs xs" "valid_segs ys" "ys \<noteq> []"
    by (auto simp: parseProfilePath_Inr)
  obtain d where d: "p = joinPath segs @ d" "d \<in> {'''', ''.''}"
    using path_with_dot [of p] p(1,2) split_on_TrimSuffix [OF p(1)] by auto
  define a where "a = (if xs = [] then [] else joinPath xs @ ''.'')"
  define b where "b = ''.'' @ joinPath ys @ d"
  have pab: "p = a @ ''{i}'' @ b"
    unfolding d(1) p(3) joinPath_middle a_def b_def using p(7) by simp
  have ab: "CHR ''{'' \<notin> set a" "CHR ''{'' \<notin> set b"
    using no_brace_joinPath p(5,6) d(2) by (auto simp: a_def b_def)
  have "parsePath (ReplaceAll p ''{i}'' (Itoa n)) = Inr (xs @ Itoa n # ys)" if "0 \<le> n" for n
  proof -
    have "ReplaceAll p ''{i}'' (Itoa n) = joinPath (xs @ Itoa n # ys) @ d"
      using ReplaceAll_once [OF ab, of "Itoa n"] p(7) unfolding pab [symmetric] joinPath_middle
      by (simp add: a_def b_def)
    moreover have "valid_segs (xs @ Itoa n # ys)" using p(5,6) valid_Itoa [OF that] by simp
    ultimately show ?thesis using d(2) by (auto simp: parsePath_joinPath parsePath_joinPath_dot)
  qed
  moreover have "Contains p ''{i}''" unfolding Contains_iff using pab by blast
  ultimately show thesis using that p(3-7) by blast
qed

section \<open>What a list of rows declares\<close>

text \<open>The table a row belongs to, its path below an instance, and the leaves it stands for.\<close>

definition row_parent :: "profileParam \<Rightarrow> string list option" where
  "row_parent row = (case parseProfilePath (pp_Path row) of Inr (segs, Some i) \<Rightarrow> Some (take i segs) | _ \<Rightarrow> None)"

definition row_tail :: "profileParam \<Rightarrow> string list" where
  "row_tail row = (case parseProfilePath (pp_Path row) of Inr (segs, Some i) \<Rightarrow> drop (Suc i) segs | _ \<Rightarrow> [])"

definition instance_value :: "profileParam \<Rightarrow> int \<Rightarrow> Value" where
  "instance_value row n = (row_value row)\<lparr>Raw := ReplaceAll (pp_Value row) ''{i}'' (Itoa n)\<rparr>"

definition row_leaves :: "profileParam \<Rightarrow> (string list \<times> Value) list" where
  "row_leaves row =
     (case parseProfilePath (pp_Path row) of
        Inr (segs, None) \<Rightarrow> [(segs, row_value row)]
      | Inr (segs, Some i) \<Rightarrow>
          map (\<lambda>n. (take i segs @ Itoa n # drop (Suc i) segs, instance_value row n)) [1..pp_Instances row]
      | Inl _ \<Rightarrow> [])"

definition declared :: "profileParam list \<Rightarrow> (string list \<times> Value) list" where
  "declared rows = concat (map row_leaves rows)"

text \<open>The conditions a list of rows has to meet: each row is fine on its own, the rows of a table agree
  on the number of instances, no leaf is declared twice or below another leaf, and no table is the
  root or lies below a leaf.\<close>

definition rows_ok :: "profileParam list \<Rightarrow> bool" where
  "rows_ok rows \<longleftrightarrow>
     (\<forall>row \<in> set rows. \<not> is_err (check_row row))
     \<and> (\<forall>r \<in> set rows. \<forall>r' \<in> set rows. row_parent r \<noteq> None \<and> row_parent r = row_parent r' \<longrightarrow> pp_Instances r = pp_Instances r')
     \<and> distinct (map fst (declared rows))
     \<and> (\<forall>p \<in> fst ` set (declared rows). \<forall>q \<in> fst ` set (declared rows). prefix p q \<longrightarrow> p = q)
     \<and> (\<forall>row \<in> set rows. \<forall>parent. row_parent row = Some parent \<longrightarrow>
          parent \<noteq> [] \<and> (\<forall>p \<in> fst ` set (declared rows). \<not> prefix p parent))"

lemma check_row_Inr:
  "check_row row = Inr (segs, m) \<Longrightarrow> parseProfilePath (pp_Path row) = Inr (segs, m)
     \<and> (m \<noteq> None \<longrightarrow> 0 \<le> pp_Instances row) \<and> (m = None \<longrightarrow> pp_Instances row = 0)"
  by (auto simp: check_row_def Let_def split: if_splits sum.splits)

lemma checked_row:
  assumes "\<not> is_err (check_row row)"
  obtains (plain) segs where "parseProfilePath (pp_Path row) = Inr (segs, None)" "pp_Instances row = 0"
      "check_row row = Inr (segs, None)"
  | (tab) segs i where "parseProfilePath (pp_Path row) = Inr (segs, Some i)" "0 \<le> pp_Instances row"
      "check_row row = Inr (segs, Some i)"
proof -
  obtain segs m where c: "check_row row = Inr (segs, m)"
    using assms by (cases "check_row row") auto
  show thesis using check_row_Inr [OF c] plain tab c by (cases m) auto
qed

lemma plain_row_iff: "\<not> is_err (check_row row) \<Longrightarrow> plain_row row \<longleftrightarrow> row_parent row = None"
  by (erule checked_row) (auto simp: plain_row_def row_parent_def dest: plain_path(3) elim: table_path)

section \<open>The tables of a list of rows\<close>

definition groups_ok :: "profileParam list \<Rightarrow> (string \<times> tableGroup) list \<Rightarrow> bool" where
  "groups_ok rows groups \<longleftrightarrow>
     distinct (map fst groups)
     \<and> (\<forall>(k, g) \<in> set groups. k = joinPath (tg_parent g) \<and> tg_rows g \<noteq> [] \<and> valid_segs (tg_parent g)
          \<and> (\<forall>r \<in> set (tg_rows g). row_parent r = Some (tg_parent g) \<and> pp_Instances r = tg_instances g)
          \<and> tg_rows g = filter (\<lambda>r. row_parent r = Some (tg_parent g)) rows)
     \<and> (\<forall>r \<in> set rows. \<forall>p. row_parent r = Some p \<longrightarrow> joinPath p \<in> fst ` set groups)
     \<and> mset (concat (map (tg_rows o snd) groups)) = mset (filter (\<lambda>r. row_parent r \<noteq> None) rows)"

text \<open>What a table of the collection knows about its rows.\<close>

lemma group_rows:
  assumes "groups_ok rows groups" and "(k, g) \<in> set groups"
  shows "k = joinPath (tg_parent g)" and "tg_rows g \<noteq> []" and "valid_segs (tg_parent g)"
    and "r \<in> set (tg_rows g) \<Longrightarrow> row_parent r = Some (tg_parent g) \<and> pp_Instances r = tg_instances g \<and> r \<in> set rows"
    and "tg_rows g = filter (\<lambda>r. row_parent r = Some (tg_parent g)) rows"
proof -
  have *: "k = joinPath (tg_parent g) \<and> tg_rows g \<noteq> [] \<and> valid_segs (tg_parent g)
      \<and> (\<forall>r \<in> set (tg_rows g). row_parent r = Some (tg_parent g) \<and> pp_Instances r = tg_instances g)
      \<and> tg_rows g = filter (\<lambda>r. row_parent r = Some (tg_parent g)) rows"
    using assms unfolding groups_ok_def by blast
  then show "k = joinPath (tg_parent g)" "tg_rows g \<noteq> []" "valid_segs (tg_parent g)"
    "tg_rows g = filter (\<lambda>r. row_parent r = Some (tg_parent g)) rows" by blast+
  assume r: "r \<in> set (tg_rows g)"
  with * have "r \<in> set rows" by (metis filter_is_subset subsetD)
  with r * show "row_parent r = Some (tg_parent g) \<and> pp_Instances r = tg_instances g \<and> r \<in> set rows" by blast
qed

lemma groups_ok_Nil: "groups_ok [] []"
  by (simp add: groups_ok_def)

lemma groups_ok_plain: "groups_ok rows groups \<Longrightarrow> row_parent row = None \<Longrightarrow> groups_ok (rows @ [row]) groups"
  unfolding groups_ok_def by auto

lemma groups_ok_lookup:
  assumes "groups_ok rows groups"
  shows "map_of groups k = Some g \<longleftrightarrow> (k, g) \<in> set groups"
  using assms by (simp add: groups_ok_def)

lemma groups_ok_new:
  assumes ok: "groups_ok rows groups" and row: "row_parent row = Some p" "valid_segs p" and new: "map_of groups (joinPath p) = None"
  shows "groups_ok (rows @ [row]) (groups @ [(joinPath p, \<lparr>tg_parent = p, tg_instances = pp_Instances row, tg_rows = [row]\<rparr>)])"
proof -
  from new have fresh: "joinPath p \<notin> fst ` set groups" by (simp add: map_of_eq_None_iff)
  have other: "tg_parent g \<noteq> p" if "(k, g) \<in> set groups" for k g
  proof
    assume "tg_parent g = p"
    moreover from that ok have "k = joinPath (tg_parent g)" by (auto simp: groups_ok_def)
    ultimately show False using that fresh by force
  qed
  have none: "filter (\<lambda>r. row_parent r = Some p) rows = []"
    using ok fresh by (auto simp: groups_ok_def filter_empty_conv)
  show ?thesis
    using ok row fresh other none unfolding groups_ok_def by (auto simp: image_iff)
qed



lemma distinct_map_fst_eq: "distinct (map fst al) \<Longrightarrow> (k, g) \<in> set al \<Longrightarrow> (k, h) \<in> set al \<Longrightarrow> g = h"
  by (metis map_of_eq_Some_iff option.inject)

lemma mset_concat_update:
  assumes "distinct (map fst al)" and "(k, g) \<in> set al" and "f g' = f g @ [x]"
  shows "mset (concat (map (f o snd) (AList.update k g' al))) = mset (concat (map (f o snd) al)) + {#x#}"
  using assms
proof (induction al)
  case (Cons a al)
  show ?case
  proof (cases "fst a = k")
    case True
    with Cons.prems(1,2) have "snd a = g" by (metis distinct_map_fst_eq list.set_intros(1) prod.collapse)
    with True Cons.prems(3) show ?thesis by (cases a) auto
  next
    case False
    with Cons show ?thesis by (cases a) auto
  qed
qed simp

lemma set_update_distinct:
  assumes "distinct (map fst al)"
  shows "(k', g') \<in> set (AList.update k g al) \<longleftrightarrow> (if k' = k then g' = g else (k', g') \<in> set al)"
proof -
  have "(k', g') \<in> set (AList.update k g al) \<longleftrightarrow> map_of (AList.update k g al) k' = Some g'"
    using map_of_eq_Some_iff [OF distinct_update [OF assms, of k g]] by simp
  then show ?thesis using assms by (auto simp: update_conv')
qed

lemma groups_ok_more:
  assumes ok: "groups_ok rows groups" and row: "row_parent row = Some p" "valid_segs p" and old: "map_of groups (joinPath p) = Some g"
    and inst: "tg_instances g = pp_Instances row"
  shows "groups_ok (rows @ [row]) (AList.update (joinPath p) (g\<lparr>tg_rows := tg_rows g @ [row]\<rparr>) groups)"
proof -
  from old ok have g: "(joinPath p, g) \<in> set groups" by (simp add: groups_ok_lookup)
  with ok have "joinPath p = joinPath (tg_parent g)" "valid_segs (tg_parent g)" unfolding groups_ok_def by blast+
  with row have parent: "tg_parent g = p" by (simp add: joinPath_inject)
  have d: "distinct (map fst groups)" using ok by (simp add: groups_ok_def)
  have mem: "(k, h) \<in> set (AList.update (joinPath p) (g\<lparr>tg_rows := tg_rows g @ [row]\<rparr>) groups) \<longleftrightarrow>
      (if k = joinPath p then h = g\<lparr>tg_rows := tg_rows g @ [row]\<rparr> else (k, h) \<in> set groups)" for k h
    by (rule set_update_distinct [OF d])
  have other: "tg_parent h \<noteq> p" if "(k, h) \<in> set groups" "k \<noteq> joinPath p" for k h
    using that ok by (auto simp: groups_ok_def)
  have keys: "fst ` set (AList.update (joinPath p) (g\<lparr>tg_rows := tg_rows g @ [row]\<rparr>) groups) = fst ` set groups"
    using g by (force simp: dom_update)
  have gk: "joinPath p \<in> fst ` set groups" using g by force
  show ?thesis
    unfolding groups_ok_def
  proof (intro conjI)
    show "distinct (map fst (AList.update (joinPath p) (g\<lparr>tg_rows := tg_rows g @ [row]\<rparr>) groups))"
      using d by (rule distinct_update)
    show "\<forall>r \<in> set (rows @ [row]). \<forall>q. row_parent r = Some q \<longrightarrow>
        joinPath q \<in> fst ` set (AList.update (joinPath p) (g\<lparr>tg_rows := tg_rows g @ [row]\<rparr>) groups)"
      unfolding keys using ok row gk unfolding groups_ok_def by auto
    show "mset (concat (map (tg_rows \<circ> snd) (AList.update (joinPath p) (g\<lparr>tg_rows := tg_rows g @ [row]\<rparr>) groups))) =
        mset (filter (\<lambda>r. row_parent r \<noteq> None) (rows @ [row]))"
      using mset_concat_update [OF d g, of tg_rows _ row] ok row by (simp add: groups_ok_def)
    show "\<forall>(k, h) \<in> set (AList.update (joinPath p) (g\<lparr>tg_rows := tg_rows g @ [row]\<rparr>) groups).
        k = joinPath (tg_parent h) \<and> tg_rows h \<noteq> [] \<and> valid_segs (tg_parent h)
        \<and> (\<forall>r \<in> set (tg_rows h). row_parent r = Some (tg_parent h) \<and> pp_Instances r = tg_instances h)
        \<and> tg_rows h = filter (\<lambda>r. row_parent r = Some (tg_parent h)) (rows @ [row])"
    proof (clarify, goal_cases)
      case (1 k h)
      show ?case
      proof (cases "k = joinPath p")
        case True
        with 1 mem have h: "h = g\<lparr>tg_rows := tg_rows g @ [row]\<rparr>" by simp
        have "filter (\<lambda>r. row_parent r = Some p) (rows @ [row]) = tg_rows g @ [row]"
          using group_rows(5) [OF ok g] parent row(1) by simp
        with True h group_rows(3,4) [OF ok g] parent row(1) inst show ?thesis by simp
      next
        case False
        with 1 mem have h: "(k, h) \<in> set groups" by simp
        have "filter (\<lambda>r. row_parent r = Some (tg_parent h)) (rows @ [row]) = tg_rows h"
          using group_rows(5) [OF ok h] other [OF h False] row(1) by simp
        with group_rows(1-4) [OF ok h] show ?thesis by simp
      qed
    qed
  qed
qed

lemma row_parent_valid:
  assumes "row_parent row = Some p"
  shows "valid_segs p"
proof -
  from assms obtain segs i where "parseProfilePath (pp_Path row) = Inr (segs, Some i)" "p = take i segs"
    by (auto simp: row_parent_def split: sum.splits option.splits)
  then show ?thesis by (auto elim: table_path)
qed

text \<open>Pass 1 accepts exactly the lists of rows that are fine each on its own and agree on the number of
  instances of their tables.\<close>

lemma validate_rows_Inr:
  assumes "validate_rows rows groups = Inr groups'" and "groups_ok before groups"
  shows "groups_ok (before @ rows) groups' \<and> (\<forall>r \<in> set rows. \<not> is_err (check_row r))"
  using assms
proof (induction rows arbitrary: before groups)
  case (Cons row rows)
  then have "\<not> is_err (check_row row)" by (auto simp: is_err_def split: sum.splits)
  then show ?case
  proof (cases rule: checked_row)
    case (plain segs)
    then have "groups_ok (before @ [row]) groups"
      using Cons.prems(2) by (intro groups_ok_plain) (simp_all add: row_parent_def)
    with Cons.IH [OF _ this] Cons.prems(1) plain show ?thesis by simp
  next
    case (tab segs i)
    define p where "p = take i segs"
    have p: "row_parent row = Some p" using tab(1) by (simp add: row_parent_def p_def)
    note v = row_parent_valid [OF p]
    show ?thesis
    proof (cases "map_of groups (joinPath p)")
      case None
      from Cons.IH [OF _ groups_ok_new [OF Cons.prems(2) p v None]] None Cons.prems(1) tab show ?thesis
        by (simp add: p_def Let_def)
    next
      case (Some g)
      then have inst: "tg_instances g = pp_Instances row"
        using Cons.prems(1) tab(3) by (auto simp: p_def Let_def split: if_splits)
      from Cons.IH [OF _ groups_ok_more [OF Cons.prems(2) p v Some inst]] Some inst Cons.prems(1) tab show ?thesis
        by (simp add: p_def Let_def)
    qed
  qed
qed simp

lemma validate_rows_complete:
  assumes "groups_ok before groups" and "\<forall>r \<in> set rows. \<not> is_err (check_row r)"
    and "\<forall>r \<in> set (before @ rows). \<forall>r' \<in> set (before @ rows). row_parent r \<noteq> None \<and> row_parent r = row_parent r' \<longrightarrow> pp_Instances r = pp_Instances r'"
  shows "\<exists>groups'. validate_rows rows groups = Inr groups'"
  using assms
proof (induction rows arbitrary: before groups)
  case (Cons row rows)
  then have "\<not> is_err (check_row row)" by simp
  have rows: "\<forall>r \<in> set rows. \<not> is_err (check_row r)" using Cons.prems(2) by simp
  have same: "\<forall>r \<in> set ((before @ [row]) @ rows). \<forall>r' \<in> set ((before @ [row]) @ rows).
      row_parent r \<noteq> None \<and> row_parent r = row_parent r' \<longrightarrow> pp_Instances r = pp_Instances r'"
    using Cons.prems(3) by simp
  from \<open>\<not> is_err (check_row row)\<close> show ?case
  proof (cases rule: checked_row)
    case (plain segs)
    then have "groups_ok (before @ [row]) groups"
      using Cons.prems(1) by (intro groups_ok_plain) (simp_all add: row_parent_def)
    from Cons.IH [OF this rows same] plain show ?thesis by simp
  next
    case (tab segs i)
    define p where "p = take i segs"
    have p: "row_parent row = Some p" using tab(1) by (simp add: row_parent_def p_def)
    note v = row_parent_valid [OF p]
    show ?thesis
    proof (cases "map_of groups (joinPath p)")
      case None
      from Cons.IH [OF groups_ok_new [OF Cons.prems(1) p v None] rows same] None tab show ?thesis
        by (simp add: p_def Let_def)
    next
      case (Some g)
      have g: "(joinPath p, g) \<in> set groups" using Some Cons.prems(1) by (simp add: groups_ok_lookup)
      note gr = group_rows [OF Cons.prems(1) g]
      define r where "r = hd (tg_rows g)"
      have r: "row_parent r = Some (tg_parent g)" "pp_Instances r = tg_instances g" "r \<in> set before"
        using gr(4) [of r] gr(2) by (simp_all add: r_def)
      then have "row_parent r = row_parent row" using p v gr(1,3) by (simp add: joinPath_inject)
      then have "pp_Instances r = pp_Instances row" using same r(1,3) by (metis UnCI list.set_intros(1) option.distinct(1) set_append)
      then have inst: "tg_instances g = pp_Instances row" using r(2) by simp
      from Cons.IH [OF groups_ok_more [OF Cons.prems(1) p v Some inst] rows same] Some inst tab show ?thesis
        by (simp add: p_def Let_def)
    qed
  qed
qed simp

section \<open>The rows that are mounted\<close>

definition leaf_of :: "profileParam \<Rightarrow> string list \<times> Value" where
  "leaf_of row = ((case parsePath (pp_Path row) of Inr segs \<Rightarrow> segs | Inl _ \<Rightarrow> []), row_value row)"

definition mountable :: "profileParam \<Rightarrow> bool" where
  "mountable row \<longleftrightarrow> (\<exists>segs. parsePath (pp_Path row) = Inr segs \<and> segs \<noteq> [])"

lemma mset_concat_cong:
  assumes "mset xs = mset ys"
  shows "mset (concat (map f xs)) = mset (concat (map f ys))"
proof -
  have "mset (concat (map f zs)) = (\<Sum>x \<in># mset zs. mset (f x))" for zs by (induction zs) auto
  with assms show ?thesis by simp
qed

lemma mset_concat_filter:
  "mset (concat (map f xs)) = mset (concat (map f (filter P xs))) + mset (concat (map f (filter (\<lambda>x. \<not> P x) xs)))"
  by (induction xs) auto

lemma mset_concat_swap: "mset (concat (map (\<lambda>i. map (f i) xs) is)) = mset (concat (map (\<lambda>x. map (\<lambda>i. f i x) is) xs))"
proof (induction xs)
  case (Cons x xs)
  have "mset (concat (map (\<lambda>i. map (f i) (x # xs)) is)) = mset (map (\<lambda>i. f i x) is) + mset (concat (map (\<lambda>i. map (f i) xs) is))"
    by (induction "is") auto
  with Cons show ?case by simp
qed (induction "is", auto)

lemma plain_leaf_of:
  assumes "\<not> is_err (check_row row)" and "row_parent row = None"
  shows "row_leaves row = [leaf_of row]" and "mountable row"
proof -
  from assms obtain segs where s: "parseProfilePath (pp_Path row) = Inr (segs, None)"
    by (auto elim!: checked_row simp: row_parent_def)
  note plain_path [OF s]
  with s show "row_leaves row = [leaf_of row]" "mountable row"
    by (simp_all add: row_leaves_def leaf_of_def mountable_def)
qed

lemma concrete_leaf_of:
  assumes "\<not> is_err (check_row row)" and "row_parent row = Some p"
  shows "row_leaves row = map (\<lambda>n. leaf_of (concrete_row n row)) [1..pp_Instances row]"
    and "0 \<le> n \<Longrightarrow> leaf_of (concrete_row n row) = (p @ Itoa n # row_tail row, instance_value row n)"
    and "0 \<le> n \<Longrightarrow> mountable (concrete_row n row)"
    and "row_tail row \<noteq> []" and "valid_segs (row_tail row)"
proof -
  from assms obtain segs i where s: "parseProfilePath (pp_Path row) = Inr (segs, Some i)"
    by (auto elim!: checked_row simp: row_parent_def)
  obtain xs ys where x: "segs = xs @ ''{i}'' # ys" "i = length xs" "ys \<noteq> []" "valid_segs ys"
      "\<And>n. 0 \<le> n \<Longrightarrow> parsePath (ReplaceAll (pp_Path row) ''{i}'' (Itoa n)) = Inr (xs @ Itoa n # ys)"
    by (rule table_path [OF s]) blast
  have p: "p = xs" "row_tail row = ys" using assms(2) s x(1,2) by (auto simp: row_parent_def row_tail_def)
  show leaf: "leaf_of (concrete_row n row) = (p @ Itoa n # row_tail row, instance_value row n)" if "0 \<le> n" for n
    using x(5) [OF that] by (simp add: leaf_of_def concrete_row_def p row_value_def instance_value_def)
  show "mountable (concrete_row n row)" if "0 \<le> n" for n
    using x(5) [OF that] by (simp add: mountable_def concrete_row_def)
  show "row_leaves row = map (\<lambda>n. leaf_of (concrete_row n row)) [1..pp_Instances row]"
    using s x(1,2) leaf by (simp add: row_leaves_def p)
  show "row_tail row \<noteq> []" "valid_segs (row_tail row)" using x(3,4) p(2) by simp_all
qed

lemma materialize_leaves:
  assumes "groups_ok rows groups" and "(k, g) \<in> set groups" and "\<forall>r \<in> set rows. \<not> is_err (check_row r)"
  shows "mset (map leaf_of (materialize g)) = mset (concat (map row_leaves (tg_rows g)))"
    and "m \<in> set (materialize g) \<Longrightarrow> mountable m"
proof -
  note g = group_rows [OF assms(1,2)]
  have row: "row_leaves r = map (\<lambda>n. leaf_of (concrete_row n r)) [1..tg_instances g]" if "r \<in> set (tg_rows g)" for r
    using concrete_leaf_of(1) [of r "tg_parent g"] g(4) [OF that] assms(3) by auto
  have "map row_leaves (tg_rows g) = map (\<lambda>r. map (\<lambda>n. leaf_of (concrete_row n r)) [1..tg_instances g]) (tg_rows g)"
    using row by simp
  then show "mset (map leaf_of (materialize g)) = mset (concat (map row_leaves (tg_rows g)))"
    using mset_concat_swap [of "\<lambda>n r. leaf_of (concrete_row n r)" "tg_rows g" "[1..tg_instances g]"]
    by (simp only: materialize_def map_concat map_map o_def)
  assume "m \<in> set (materialize g)"
  then obtain n r where "m = concrete_row n r" "r \<in> set (tg_rows g)" "1 \<le> n"
    by (auto simp: materialize_def)
  moreover have "\<not> is_err (check_row r)" "row_parent r = Some (tg_parent g)"
    using g(4) [of r] assms(3) calculation(2) by blast+
  ultimately show "mountable m" using concrete_leaf_of(3) [of r "tg_parent g" n] by simp
qed

definition mounted_rows :: "profileParam list \<Rightarrow> (string \<times> tableGroup) list \<Rightarrow> profileParam list" where
  "mounted_rows rows groups = filter plain_row rows @ concat (map (materialize o snd) groups)"

lemma mounted_rows_declared:
  assumes "groups_ok rows groups" and ok: "\<forall>r \<in> set rows. \<not> is_err (check_row r)"
  shows "mset (map leaf_of (mounted_rows rows groups)) = mset (declared rows)"
    and "m \<in> set (mounted_rows rows groups) \<Longrightarrow> mountable m"
proof -
  have plain: "filter plain_row rows = filter (\<lambda>r. row_parent r = None) rows"
    using ok by (auto intro!: filter_cong simp: plain_row_iff)
  have "mset (map leaf_of (filter plain_row rows)) = mset (concat (map row_leaves (filter (\<lambda>r. row_parent r = None) rows)))"
  proof -
    have "map row_leaves (filter (\<lambda>r. row_parent r = None) rows) = map (\<lambda>r. [leaf_of r]) (filter (\<lambda>r. row_parent r = None) rows)"
      using ok plain_leaf_of(1) by auto
    then have "concat (map row_leaves (filter (\<lambda>r. row_parent r = None) rows)) = map leaf_of (filter (\<lambda>r. row_parent r = None) rows)"
      by (simp only: concat_map_singleton)
    then show ?thesis by (simp only: plain)
  qed
  moreover have "mset (map leaf_of (concat (map (materialize o snd) gs))) = mset (concat (map row_leaves (concat (map (tg_rows o snd) gs))))"
    if "set gs \<subseteq> set groups" for gs
    using that
  proof (induction gs)
    case (Cons kg gs)
    then show ?case using materialize_leaves(1) [OF assms(1) _ ok, of "fst kg" "snd kg"] by simp
  qed simp
  moreover have "mset (concat (map row_leaves (concat (map (tg_rows o snd) groups)))) = mset (concat (map row_leaves (filter (\<lambda>r. row_parent r \<noteq> None) rows)))"
    using assms(1) by (intro mset_concat_cong) (simp add: groups_ok_def)
  ultimately show "mset (map leaf_of (mounted_rows rows groups)) = mset (declared rows)"
    using mset_concat_filter [of row_leaves rows "\<lambda>r. row_parent r = None"] by (simp add: mounted_rows_def declared_def)
  assume "m \<in> set (mounted_rows rows groups)"
  then show "mountable m"
    using materialize_leaves(2) [OF assms(1) _ ok] plain plain_leaf_of(2) ok by (fastforce simp: mounted_rows_def)
qed

section \<open>Mounting a leaf\<close>

text \<open>The nodes of a tree built by mounting leaves are the prefixes of the leaves.\<close>

definition spanned :: "Node \<Rightarrow> bool" where
  "spanned n \<longleftrightarrow> (\<forall>q. node_at q n \<noteq> None \<longleftrightarrow> q = [] \<or> (\<exists>p \<in> dom (leaf_at n). prefix q p))"

lemma node_at_Cons_child:
  "\<not> isLeaf n \<Longrightarrow> node_at (s # ss) n = (case map_of (children n) s of None \<Rightarrow> None | Some c \<Rightarrow> node_at ss c)"
  by simp

lemma mount_at_Inr:
  assumes "segs \<noteq> []"
  shows "fst (mount_at path segs n parent) = Inr () \<longleftrightarrow>
     node_at segs parent = None \<and> (\<forall>q. strict_prefix q segs \<longrightarrow> leaf_at parent q = None)"
  using assms
proof (induction path segs n parent rule: mount_at.induct)
  case (2 path seg n parent)
  have "strict_prefix q [seg] \<longleftrightarrow> q = []" for q by (auto simp: strict_prefix_def prefix_Cons)
  then show ?case by (auto simp: leaf_at_def isLeaf_def split: option.splits)
next
  case (3 path seg seg2 rest n parent)
  have pre: "strict_prefix q (seg # ss) \<longleftrightarrow> q = [] \<or> (\<exists>q'. q = seg # q' \<and> strict_prefix q' ss)" if "ss \<noteq> []" for q ss
    using that by (cases q) auto
  show ?case
  proof (cases "isLeaf parent")
    case True
    then have "leaf_at parent [] \<noteq> None" by (simp add: leaf_at_def isLeaf_def)
    with True show ?thesis by (auto simp: pre)
  next
    case False
    define child where "child = (case map_of (children parent) seg of None \<Rightarrow> NewBranch | Some c \<Rightarrow> c)"
    have r: "leaf_at parent [] = None" using False by (simp add: leaf_at_def isLeaf_def)
    have "node_at (seg # q) parent = None \<longleftrightarrow> node_at q child = None" if "q \<noteq> []" for q
      using False that by (cases q) (auto simp: child_def isLeaf_def split: option.splits)
    moreover have "leaf_at parent (seg # q) = leaf_at child q" for q
      using False by (cases q) (auto simp: leaf_at_def child_def isLeaf_def split: option.splits)
    moreover have "fst (mount_at path (seg # seg2 # rest) n parent) = fst (mount_at path (seg2 # rest) n child)"
      using False by (simp add: Let_def case_prod_unfold child_def)
    ultimately show ?thesis
      using 3(1) [OF False child_def] r by (auto simp: pre)
  qed
qed simp

lemma leaf_at_Nil_branch: "leaf n = None \<Longrightarrow> leaf_at n [] = None"
  by (simp add: leaf_at_def)

text \<open>Reading through a child that was written, and through a leaf or a fresh branch.\<close>

lemma set_children_reads:
  assumes "\<not> isLeaf parent"
  shows "leaf_at (set_children (AList.update seg c (children parent)) parent) q =
      (case q of s # ss \<Rightarrow> if s = seg then leaf_at c ss else leaf_at parent q | [] \<Rightarrow> None)"
    and "node_at q (set_children (AList.update seg c (children parent)) parent) = None \<longleftrightarrow>
      (case q of s # ss \<Rightarrow> (if s = seg then node_at ss c = None else node_at q parent = None) | [] \<Rightarrow> False)"
  using assms by (cases q; auto simp: leaf_at_def isLeaf_def update_conv' split: option.splits)+

lemma leaf_NewLeaf: "leaf (NewLeaf v) = Some v"
  by (simp add: NewLeaf_def)

lemma NewLeaf_reads: "leaf_at (NewLeaf v) q = (if q = [] then Some v else None)" "node_at q (NewLeaf v) = None \<longleftrightarrow> q \<noteq> []"
  by (cases q; simp add: leaf_at_def NewLeaf_def isLeaf_def)+

lemma NewBranch_reads: "leaf_at NewBranch q = None" "node_at q NewBranch = None \<longleftrightarrow> q \<noteq> []"
  by (cases q; simp add: leaf_at_def isLeaf_def)+

lemma child_reads:
  assumes "\<not> isLeaf parent" and "child = (case map_of (children parent) seg of None \<Rightarrow> NewBranch | Some c \<Rightarrow> c)"
  shows "leaf_at child q = leaf_at parent (seg # q)"
    and "q \<noteq> [] \<Longrightarrow> node_at q child = None \<longleftrightarrow> node_at (seg # q) parent = None"
proof -
  show "leaf_at child q = leaf_at parent (seg # q)"
  proof (cases "map_of (children parent) seg")
    case None
    with assms have "leaf_at parent (seg # q) = None" by (simp add: leaf_at_def)
    with None assms show ?thesis by (simp add: NewBranch_reads)
  qed (use assms in \<open>simp add: leaf_at_def\<close>)
  show "q \<noteq> [] \<Longrightarrow> node_at q child = None \<longleftrightarrow> node_at (seg # q) parent = None"
    using assms by (auto simp: NewBranch_reads split: option.splits)
qed

lemma mount_at_effect:
  assumes "mount_at path segs (NewLeaf v) parent = (Inr (), parent')" and "segs \<noteq> []"
  shows "leaf_at parent' q = (if q = segs then Some v else leaf_at parent q)
    \<and> (node_at q parent' = None \<longleftrightarrow> node_at q parent = None \<and> \<not> prefix q segs)"
  using assms
proof (induction path segs "NewLeaf v" parent arbitrary: parent' q rule: mount_at.induct)
  case (2 path seg parent)
  then have l: "\<not> isLeaf parent" and free: "map_of (children parent) seg = None"
    and p': "parent' = set_children (AList.update seg (NewLeaf v) (children parent)) parent"
    by (auto split: if_splits)
  then show ?case
    by (cases q) (auto simp: set_children_reads NewLeaf_reads leaf_at_def [of parent] leaf_NewLeaf)
next
  case (3 path seg seg2 rest parent)
  define child where "child = (case map_of (children parent) seg of None \<Rightarrow> NewBranch | Some c \<Rightarrow> c)"
  obtain child' where l: "\<not> isLeaf parent" and c: "mount_at path (seg2 # rest) (NewLeaf v) child = (Inr (), child')"
    and p': "parent' = set_children (AList.update seg child' (children parent)) parent"
    using 3(2) by (auto simp: child_def Let_def split: if_splits prod.splits)
  show ?case
  proof (cases q)
    case Nil
    with l show ?thesis by (simp add: p' set_children_reads leaf_at_def isLeaf_def)
  next
    case (Cons s q')
    show ?thesis
    proof (cases "s = seg")
      case True
      have "node_at [] child' = None \<longleftrightarrow> False" "leaf_at parent' q = leaf_at child' q'"
          "node_at q parent' = None \<longleftrightarrow> node_at q' child' = None"
        using Cons True l by (simp_all add: p' set_children_reads)
      moreover have "leaf_at child q' = leaf_at parent q"
        "q' \<noteq> [] \<Longrightarrow> node_at q' child = None \<longleftrightarrow> node_at q parent = None"
        using child_reads [OF l child_def] Cons True by simp_all
      ultimately show ?thesis
        using 3(1) [OF l child_def c, of q'] Cons True by (cases "q' = []") auto
    qed (use Cons l in \<open>auto simp: p' set_children_reads\<close>)
  qed
qed simp

definition apart :: "string list \<Rightarrow> string list \<Rightarrow> bool" where
  "apart p q \<longleftrightarrow> \<not> prefix p q \<and> \<not> prefix q p"

lemma apart_sym: "apart p q \<longleftrightarrow> apart q p"
  by (auto simp: apart_def)

lemma pairwise_apart:
  "sorted_wrt apart ps \<longleftrightarrow> distinct ps \<and> (\<forall>p \<in> set ps. \<forall>q \<in> set ps. prefix p q \<longrightarrow> p = q)"
proof (induction ps)
  case (Cons p ps)
  have "(\<forall>q \<in> set ps. apart p q) \<longleftrightarrow> p \<notin> set ps \<and> (\<forall>q \<in> set ps. (prefix p q \<longrightarrow> p = q) \<and> (prefix q p \<longrightarrow> q = p))"
    by (auto simp: apart_def)
  with Cons show ?case by auto
qed simp

lemma spanned_apart:
  assumes "spanned n" and "\<not> isLeaf n" and "segs \<noteq> []"
  shows "node_at segs n = None \<and> (\<forall>q. strict_prefix q segs \<longrightarrow> leaf_at n q = None) \<longleftrightarrow> (\<forall>q \<in> dom (leaf_at n). apart segs q)"
proof -
  have "node_at segs n = None \<longleftrightarrow> (\<forall>p \<in> dom (leaf_at n). \<not> prefix segs p)"
    using assms(1,3) unfolding spanned_def by blast
  moreover have "(\<forall>q. strict_prefix q segs \<longrightarrow> leaf_at n q = None) \<longleftrightarrow> (\<forall>q \<in> dom (leaf_at n). \<not> strict_prefix q segs)"
    by (metis domIff)
  moreover have "strict_prefix q segs \<longleftrightarrow> prefix q segs" if "\<not> prefix segs q" for q
    using that by (auto simp: strict_prefix_def)
  ultimately show ?thesis unfolding apart_def by blast
qed

lemma Mount_leaf:
  assumes sp: "spanned (root t)" "\<not> isLeaf (root t)" and p: "parsePath path = Inr segs" "segs \<noteq> []"
    and m: "Mount path (NewLeaf v) t = (r, t')"
  shows "r = Inr () \<longleftrightarrow> (\<forall>q \<in> dom (leaf_at (root t)). apart segs q)"
    and "r = Inr () \<Longrightarrow> leaf_at (root t') = (leaf_at (root t))(segs \<mapsto> v) \<and> spanned (root t') \<and> \<not> isLeaf (root t')"
proof -
  obtain root' where at: "mount_at path segs (NewLeaf v) (root t) = (r, root')" and t': "t' = t\<lparr>root := root'\<rparr>"
    using m p by (auto simp: Mount_def Let_def split: prod.splits)
  show "r = Inr () \<longleftrightarrow> (\<forall>q \<in> dom (leaf_at (root t)). apart segs q)"
    using mount_at_Inr [OF p(2), of path "NewLeaf v" "root t"] spanned_apart [OF sp p(2)] at by simp
  assume "r = Inr ()"
  with at have at: "mount_at path segs (NewLeaf v) (root t) = (Inr (), root')" by simp
  note eff = mount_at_effect [OF at p(2)]
  have lf: "leaf_at root' = (leaf_at (root t))(segs \<mapsto> v)"
    using eff by (intro ext) simp
  moreover have "spanned root'"
    using sp(1) eff unfolding spanned_def by (auto simp: lf)
  moreover have "\<not> isLeaf root'"
    using eff [of "[]"] p(2) sp(2) by (simp add: leaf_at_def isLeaf_def)
  ultimately show "leaf_at (root t') = (leaf_at (root t))(segs \<mapsto> v) \<and> spanned (root t') \<and> \<not> isLeaf (root t')"
    by (simp add: t')
qed

lemma mount_rows_spec:
  assumes "spanned (root t)" "\<not> isLeaf (root t)" and "\<forall>m \<in> set rows. mountable m"
    and "\<forall>(p, src) \<in> set mf. \<exists>segs. parsePath p = Inr segs \<and> segs \<in> dom (leaf_at (root t))"
    and "mount_rows rows mf t = (r, t')"
  shows "(\<not> is_err r \<longleftrightarrow> sorted_wrt apart (map (fst o leaf_of) rows)
           \<and> (\<forall>m \<in> set rows. \<forall>q \<in> dom (leaf_at (root t)). apart (fst (leaf_of m)) q))
    \<and> (\<not> is_err r \<longrightarrow> leaf_at (root t') = (leaf_at (root t))(map fst (map leaf_of rows) [\<mapsto>] map snd (map leaf_of rows))
         \<and> spanned (root t') \<and> \<not> isLeaf (root t'))
    \<and> (\<forall>mf'. r = Inr mf' \<longrightarrow> (\<forall>(p, src) \<in> set mf'. \<exists>segs. parsePath p = Inr segs \<and> segs \<in> dom (leaf_at (root t'))))"
  using assms
proof (induction rows arbitrary: mf t)
  case (Cons row rows)
  then obtain segs where p: "parsePath (pp_Path row) = Inr segs" "segs \<noteq> []" by (auto simp: mountable_def)
  then have lf: "leaf_of row = (segs, row_value row)" by (simp add: leaf_of_def)
  obtain r1 t1 where m: "Mount (pp_Path row) (NewLeaf (row_value row)) t = (r1, t1)" by fastforce
  note mount = Mount_leaf [OF Cons.prems(1,2) p m]
  show ?case
  proof (cases "map_of mf (pp_Path row)")
    case (Some src)
    then have "segs \<in> dom (leaf_at (root t))" using Cons.prems(4) p(1) by (force dest!: map_of_SomeD)
    then have "\<not> (\<forall>q \<in> dom (leaf_at (root t)). apart segs q)" by (auto simp: apart_def)
    moreover from Some have "is_err r" "\<nexists>mf'. r = Inr mf'" using Cons.prems(5) by auto
    ultimately show ?thesis using lf by auto
  next
    case None
    show ?thesis
    proof (cases r1)
      case (Inl e)
      then have "is_err r" "\<nexists>mf'. r = Inr mf'" using Cons.prems(5) None m by auto
      moreover have "\<not> (\<forall>q \<in> dom (leaf_at (root t)). apart segs q)" using mount(1) Inl by simp
      ultimately show ?thesis using lf by auto
    next
      case (Inr u)
      then have ok: "leaf_at (root t1) = (leaf_at (root t))(segs \<mapsto> row_value row)" "spanned (root t1)" "\<not> isLeaf (root t1)"
        "\<forall>q \<in> dom (leaf_at (root t)). apart segs q"
        using mount by simp_all
      have mf: "\<forall>(p, src) \<in> set ((pp_Path row, pp_Source row) # mf). \<exists>s. parsePath p = Inr s \<and> s \<in> dom (leaf_at (root t1))"
        using Cons.prems(4) p(1) ok(1) by fastforce
      have rest: "mount_rows rows ((pp_Path row, pp_Source row) # mf) t1 = (r, t')"
        using Cons.prems(5) None m Inr by simp
      have rows: "\<forall>m \<in> set rows. mountable m" using Cons.prems(3) by simp
      have dom: "dom (leaf_at (root t1)) = insert segs (dom (leaf_at (root t)))" using ok(1) by simp
      have "sorted_wrt apart (map (fst o leaf_of) (row # rows)) \<and> (\<forall>m \<in> set (row # rows). \<forall>q \<in> D. apart (fst (leaf_of m)) q)
        \<longleftrightarrow> sorted_wrt apart (map (fst o leaf_of) rows) \<and> (\<forall>m \<in> set rows. \<forall>q \<in> insert segs D. apart (fst (leaf_of m)) q)"
        if "\<forall>q \<in> D. apart segs q" for D
        using that lf apart_sym by auto
      note all = this [OF ok(4), folded dom]
      note ih = Cons.IH [OF ok(2,3) rows mf rest]
      show ?thesis
        unfolding all
        by (rule conjI [OF conjunct1 [OF ih]])
          (use conjunct2 [OF ih, unfolded ok(1)] in \<open>simp only: list.map lf fst_conv snd_conv map_upds_Cons\<close>)
    qed
  qed
qed auto

section \<open>Registering the tables\<close>

definition table_at :: "Node \<Rightarrow> string list \<Rightarrow> Node option" where
  "table_at n q = (case node_at q n of None \<Rightarrow> None | Some m \<Rightarrow> table m)"

lemma table_reads:
  "\<not> isLeaf parent \<Longrightarrow> table_at (set_children (AList.update seg c (children parent)) parent) q =
      (case q of s # ss \<Rightarrow> if s = seg then table_at c ss else table_at parent q | [] \<Rightarrow> table parent)"
  "table_at NewBranch q = None"
  "\<not> isLeaf parent \<Longrightarrow> table_at (case map_of (children parent) seg of None \<Rightarrow> NewBranch | Some c \<Rightarrow> c) q = table_at parent (seg # q)"
proof -
  show "table_at (set_children (AList.update seg c (children parent)) parent) q =
      (case q of s # ss \<Rightarrow> if s = seg then table_at c ss else table_at parent q | [] \<Rightarrow> table parent)" if "\<not> isLeaf parent"
    using that by (cases q) (auto simp: table_at_def isLeaf_def update_conv' split: option.splits)
  show branch: "table_at NewBranch q = None" for q
    by (cases q) (simp_all add: table_at_def isLeaf_def)
  show "table_at (case map_of (children parent) seg of None \<Rightarrow> NewBranch | Some c \<Rightarrow> c) q = table_at parent (seg # q)" if "\<not> isLeaf parent"
    using that branch by (cases "map_of (children parent) seg") (simp_all add: table_at_def [of parent] table_at_def [of _ q, symmetric] isLeaf_def)
qed

lemma add_table_at_spec:
  assumes "add_table_at path tmpl segs n = (r, n')"
  shows "(r = Inr () \<longleftrightarrow> (\<forall>q. prefix q segs \<longrightarrow> leaf_at n q = None) \<and> table_at n segs = None)
    \<and> (r = Inr () \<longrightarrow> leaf_at n' = leaf_at n \<and> table_at n' = (table_at n)(segs \<mapsto> tmpl))"
  using assms
proof (induction path tmpl segs n arbitrary: n' rule: add_table_at.induct)
  case (1 path tmpl n)
  have "leaf_at (set_table (Some tmpl) n) q = leaf_at n q" for q
    by (cases q) (auto simp: leaf_at_def isLeaf_def split: option.splits)
  moreover have "table_at (set_table (Some tmpl) n) q = (if q = [] then Some tmpl else table_at n q)" for q
    by (cases q) (auto simp: table_at_def isLeaf_def split: option.splits)
  ultimately show ?case
    using 1 by (auto simp: table_at_def leaf_at_def isLeaf_def fun_eq_iff split: if_splits)
next
  case (2 path tmpl seg rest n)
  have pre: "(\<forall>q. prefix q (seg # rest) \<longrightarrow> P q) \<longleftrightarrow> P [] \<and> (\<forall>q. prefix q rest \<longrightarrow> P (seg # q))" for P
    by (auto simp: prefix_Cons)
  show ?case
  proof (cases "isLeaf n")
    case True
    then have "leaf_at n [] \<noteq> None" by (simp add: leaf_at_def isLeaf_def)
    with True 2(2) show ?thesis unfolding pre by auto
  next
    case False
    define child where "child = (case map_of (children n) seg of None \<Rightarrow> NewBranch | Some c \<Rightarrow> c)"
    obtain child' where c: "add_table_at path tmpl rest child = (r, child')"
      and n': "n' = set_children (AList.update seg child' (children n)) n"
      using 2(2) False by (auto simp: child_def [symmetric] Let_def set_child_def split: prod.splits)
    note ih = 2(1) [OF False child_def c]
    have l: "leaf_at n [] = None" using False by (simp add: leaf_at_def isLeaf_def)
    have cl: "leaf_at child q = leaf_at n (seg # q)" "table_at child q = table_at n (seg # q)" for q
      using child_reads(1) [OF False child_def] table_reads(3) [OF False] by (simp_all add: child_def)
    have iff: "r = Inr () \<longleftrightarrow> (\<forall>q. prefix q (seg # rest) \<longrightarrow> leaf_at n q = None) \<and> table_at n (seg # rest) = None"
      using ih l unfolding pre cl by simp
    moreover have "leaf_at n' = leaf_at n \<and> table_at n' = (table_at n)(seg # rest \<mapsto> tmpl)" if "r = Inr ()"
    proof -
      from that ih have "leaf_at child' = leaf_at child" "table_at child' = (table_at child)(rest \<mapsto> tmpl)" by blast+
      then show ?thesis
        using False l cl
        by (auto simp: fun_eq_iff n' set_children_reads table_reads(1) table_at_def [of n "[]"] split: list.splits)
    qed
    ultimately show ?thesis by blast
  qed
qed

lemma AddTable_spec:
  assumes "parsePath path = Inr segs" and "AddTable path (Some tmpl) t = (r, t')"
  shows "r = Inr () \<longleftrightarrow> segs \<noteq> [] \<and> (\<forall>q. prefix q segs \<longrightarrow> leaf_at (root t) q = None) \<and> table_at (root t) segs = None"
    and "r = Inr () \<Longrightarrow> leaf_at (root t') = leaf_at (root t) \<and> table_at (root t') = (table_at (root t))(segs \<mapsto> tmpl)"
proof -
  show "r = Inr () \<longleftrightarrow> segs \<noteq> [] \<and> (\<forall>q. prefix q segs \<longrightarrow> leaf_at (root t) q = None) \<and> table_at (root t) segs = None"
    using assms add_table_at_spec [of path tmpl segs "root t"]
    by (cases "add_table_at path tmpl segs (root t)") (auto simp: AddTable_def Let_def split: if_splits)
  show "r = Inr () \<Longrightarrow> leaf_at (root t') = leaf_at (root t) \<and> table_at (root t') = (table_at (root t))(segs \<mapsto> tmpl)"
    using assms add_table_at_spec [of path tmpl segs "root t"]
    by (cases "add_table_at path tmpl segs (root t)") (auto simp: AddTable_def Let_def split: if_splits)
qed

definition group_tables :: "(string \<times> tableGroup) list \<Rightarrow> (string list \<times> Node) list" where
  "group_tables groups = map (\<lambda>(k, g). (tg_parent g, buildInstanceTemplate (tg_rows g))) groups"

lemma register_tables_spec:
  assumes "\<forall>(k, g) \<in> set groups. k = joinPath (tg_parent g) \<and> valid_segs (tg_parent g)" and "distinct (map fst groups)"
    and "\<forall>(k, g) \<in> set groups. table_at (root t) (tg_parent g) = None"
    and "register_tables groups t = (r, t')"
  shows "(r = Inr () \<longleftrightarrow> (\<forall>(k, g) \<in> set groups. tg_parent g \<noteq> [] \<and> (\<forall>q. prefix q (tg_parent g) \<longrightarrow> leaf_at (root t) q = None)))
    \<and> (r = Inr () \<longrightarrow> leaf_at (root t') = leaf_at (root t)
         \<and> table_at (root t') = table_at (root t) ++ map_of (rev (group_tables groups)))"
  using assms
proof (induction groups arbitrary: t)
  case (Cons kg groups)
  obtain k g where kg: "kg = (k, g)" by (cases kg)
  from Cons.prems(1) kg have p: "parsePath k = Inr (tg_parent g)" by (simp add: parsePath_joinPath)
  obtain r1 t1 where a: "AddTable k (Some (buildInstanceTemplate (tg_rows g))) t = (r1, t1)" by fastforce
  note add = AddTable_spec [OF p a]
  have none: "table_at (root t) (tg_parent g) = None" using Cons.prems(3) kg by simp
  show ?case
  proof (cases r1)
    case (Inl e)
    then have "r \<noteq> Inr ()" using Cons.prems(4) kg a by auto
    with Inl add(1) none kg show ?thesis by simp blast
  next
    case (Inr u)
    then have ok: "leaf_at (root t1) = leaf_at (root t)" "table_at (root t1) = (table_at (root t))(tg_parent g \<mapsto> buildInstanceTemplate (tg_rows g))"
        "tg_parent g \<noteq> []" "\<forall>q. prefix q (tg_parent g) \<longrightarrow> leaf_at (root t) q = None"
      using add by simp_all
    have "tg_parent h \<noteq> tg_parent g" if "(k', h) \<in> set groups" for k' h
      using that Cons.prems(1,2) kg by (fastforce simp: image_iff)
    then have tabs: "\<forall>(k, g) \<in> set groups. table_at (root t1) (tg_parent g) = None"
      using Cons.prems(3) kg ok(2) by auto
    have rest: "register_tables groups t1 = (r, t')" using Cons.prems(4) kg a Inr by simp
    have pre: "\<forall>(k, g) \<in> set groups. k = joinPath (tg_parent g) \<and> valid_segs (tg_parent g)" "distinct (map fst groups)"
      using Cons.prems(1,2) kg by simp_all
    show ?thesis
      using Cons.IH [OF pre tabs rest] ok kg by (simp add: group_tables_def map_add_def fun_eq_iff split: option.splits)
  qed
qed (simp add: group_tables_def)

section \<open>What is accepted and what is mounted\<close>

lemma map_of_mset:
  assumes "mset xs = mset ys" and "distinct (map fst xs)"
  shows "map_of xs = map_of ys"
proof -
  have "mset (map fst xs) = mset (map fst ys)" using assms(1) by simp
  then have d: "distinct (map fst ys)" using assms(2) mset_eq_imp_distinct_iff by blast
  have "set xs = set ys" using assms(1) by (rule mset_eq_setD)
  then have "map_of xs k = Some v \<longleftrightarrow> map_of ys k = Some v" for k v
    using assms(2) d by simp
  then show ?thesis by (metis ext not_Some_eq)
qed

lemma mount_rows_append:
  "mount_rows (xs @ ys) mf t = (case mount_rows xs mf t of (Inl e, t1) \<Rightarrow> (Inl e, t1) | (Inr mf', t1) \<Rightarrow> mount_rows ys mf' t1)"
  by (induction xs arbitrary: mf t) (auto split: option.splits prod.splits sum.splits)

lemma New_reads: "spanned (root New)" "\<not> isLeaf (root New)" "leaf_at (root New) = Map.empty" "table_at (root New) = Map.empty"
  by (auto simp: New_def spanned_def NewBranch_reads fun_eq_iff isLeaf_def table_reads)

lemma mount_at_table:
  "segs \<noteq> [] \<Longrightarrow> table_at (snd (mount_at path segs (NewLeaf v) parent)) q = table_at parent q"
proof (induction path segs "NewLeaf v" parent arbitrary: q rule: mount_at.induct)
  case (2 path seg parent)
  have "table_at (NewLeaf v) q = None" for q
    by (cases q) (simp_all add: table_at_def NewLeaf_def isLeaf_def)
  moreover have "table_at parent (seg # ss) = None" if "\<not> isLeaf parent" "map_of (children parent) seg = None" for ss
    using that by (simp add: table_at_def)
  ultimately show ?case by (cases q) (auto simp: table_reads(1) table_at_def [of parent "[]"])
next
  case (3 path seg seg2 rest parent)
  show ?case
  proof (cases "isLeaf parent")
    case False
    with 3(1) [OF False refl] table_reads(3) [OF False] show ?thesis
      by (cases q) (auto simp: Let_def case_prod_unfold table_reads(1) table_at_def [of parent "[]"])
  qed simp
qed simp

lemma mount_rows_table: "table_at (root (snd (mount_rows rows mf t))) = table_at (root t)"
proof (induction rows arbitrary: mf t)
  case (Cons row rows)
  have "table_at (root (snd (Mount p (NewLeaf v) t))) = table_at (root t)" for p v
    by (auto simp: Mount_def Let_def case_prod_unfold fun_eq_iff mount_at_table split: sum.splits)
  then have "Mount p (NewLeaf v) t = (r, t') \<Longrightarrow> table_at (root t') = table_at (root t)" for p v r t'
    by (metis snd_conv)
  with Cons show ?case by (auto split: option.splits prod.splits sum.splits)
qed simp

lemma declared_apart:
  assumes "mset (map leaf_of ms) = mset (declared rows)"
  shows "sorted_wrt apart (map (fst o leaf_of) ms) \<longleftrightarrow>
      distinct (map fst (declared rows)) \<and> (\<forall>p \<in> fst ` set (declared rows). \<forall>q \<in> fst ` set (declared rows). prefix p q \<longrightarrow> p = q)"
proof -
  have "mset (map (fst o leaf_of) ms) = mset (map fst (declared rows))"
    using arg_cong [OF assms, of "image_mset fst"] by (simp add: image_mset.compositionality o_def)
  then have "distinct (map (fst o leaf_of) ms) \<longleftrightarrow> distinct (map fst (declared rows))"
    and "set (map (fst o leaf_of) ms) = set (map fst (declared rows))"
    by (rule mset_eq_imp_distinct_iff, rule mset_eq_setD)
  then show ?thesis unfolding pairwise_apart by (simp only: set_map [of fst])
qed

lemma upds_map_of:
  assumes "distinct (map fst kvs)"
  shows "Map.empty(map fst kvs [\<mapsto>] map snd kvs) = map_of kvs"
proof -
  have "map_of (rev kvs) = map_of kvs"
    by (rule map_of_mset) (use assms in \<open>simp_all flip: rev_map\<close>)
  then show ?thesis by (simp only: map_upds_def zip_map_fst_snd empty_map_add)
qed

lemma mounted_leaves:
  assumes "mset (map leaf_of ms) = mset (declared rows)" and "distinct (map fst (declared rows))"
  shows "Map.empty(map fst (map leaf_of ms) [\<mapsto>] map snd (map leaf_of ms)) = map_of (declared rows)"
proof -
  have "mset (map fst (map leaf_of ms)) = mset (map fst (declared rows))"
    using arg_cong [OF assms(1), of "image_mset fst"] by (simp add: image_mset.compositionality o_def)
  then have d: "distinct (map fst (map leaf_of ms))" using assms(2) mset_eq_imp_distinct_iff by blast
  show ?thesis unfolding upds_map_of [OF d] by (rule map_of_mset [OF assms(1) d])
qed

lemma group_exists:
  assumes "groups_ok rows groups" and "row \<in> set rows" and "row_parent row = Some p"
  obtains h where "(joinPath p, h) \<in> set groups" and "tg_parent h = p"
proof -
  have "joinPath p \<in> fst ` set groups" using assms unfolding groups_ok_def by blast
  then obtain h where h: "(joinPath p, h) \<in> set groups" by fastforce
  moreover from group_rows(1,3) [OF assms(1) h] row_parent_valid [OF assms(3)] have "tg_parent h = p" by (simp add: joinPath_inject)
  ultimately show thesis by (rule that)
qed

lemma groups_agree:
  assumes g: "groups_ok rows groups" and r: "r \<in> set rows" "r' \<in> set rows" "row_parent r = Some p" "row_parent r' = Some p"
  shows "pp_Instances r = pp_Instances r'"
proof -
  obtain h where h: "(joinPath p, h) \<in> set groups" and "tg_parent h = p" by (rule group_exists [OF g r(1,3)])
  with group_rows(5) [OF g h] r have "r \<in> set (tg_rows h)" "r' \<in> set (tg_rows h)" by simp_all
  with group_rows(4) [OF g h] show ?thesis by metis
qed

lemma group_of_parent:
  assumes "groups_ok rows groups"
  shows "(\<exists>k g. (k, g) \<in> set groups \<and> tg_parent g = p) \<longleftrightarrow> (\<exists>row \<in> set rows. row_parent row = Some p)"
proof
  assume "\<exists>k g. (k, g) \<in> set groups \<and> tg_parent g = p"
  then obtain k g where g: "(k, g) \<in> set groups" "tg_parent g = p" by blast
  with group_rows(2,4) [OF assms g(1)] show "\<exists>row \<in> set rows. row_parent row = Some p" by (metis list.set_sel(1))
next
  assume "\<exists>row \<in> set rows. row_parent row = Some p"
  then obtain row where row: "row \<in> set rows" "row_parent row = Some p" by blast
  then obtain h where "(joinPath p, h) \<in> set groups" "tg_parent h = p" by (rule group_exists [OF assms])
  then show "\<exists>k g. (k, g) \<in> set groups \<and> tg_parent g = p" by blast
qed

lemma group_parents_all:
  assumes "groups_ok rows groups"
  shows "(\<forall>(k, h) \<in> set groups. P (tg_parent h)) \<longleftrightarrow> (\<forall>row \<in> set rows. \<forall>p. row_parent row = Some p \<longrightarrow> P p)"
proof -
  have "(\<forall>(k, h) \<in> set groups. P (tg_parent h)) \<longleftrightarrow> (\<forall>p. (\<exists>k h. (k, h) \<in> set groups \<and> tg_parent h = p) \<longrightarrow> P p)" by auto
  also have "\<dots> \<longleftrightarrow> (\<forall>row \<in> set rows. \<forall>p. row_parent row = Some p \<longrightarrow> P p)" unfolding group_of_parent [OF assms] by auto
  finally show ?thesis .
qed

lemma group_tables_lookup:
  assumes g: "groups_ok rows groups"
  shows "map_of (rev (group_tables groups)) q = Some tmpl \<longleftrightarrow>
     (\<exists>row \<in> set rows. row_parent row = Some q) \<and> tmpl = buildInstanceTemplate (filter (\<lambda>r. row_parent r = Some q) rows)"
proof -
  have "map (joinPath o fst) (group_tables groups) = map fst groups"
    using group_rows(1) [OF g] by (auto simp: group_tables_def)
  then have "distinct (map (joinPath o fst) (group_tables groups))" using g by (simp add: groups_ok_def)
  then have "distinct (map fst (group_tables groups))" by (metis distinct_map map_map)
  then have "map_of (rev (group_tables groups)) q = Some tmpl \<longleftrightarrow> (q, tmpl) \<in> set (group_tables groups)"
    by (metis distinct_rev map_of_eq_Some_iff rev_map set_rev)
  also have "\<dots> \<longleftrightarrow> (\<exists>k h. (k, h) \<in> set groups \<and> tg_parent h = q \<and> tmpl = buildInstanceTemplate (tg_rows h))"
    by (auto simp: group_tables_def)
  also have "\<dots> \<longleftrightarrow> (\<exists>k h. (k, h) \<in> set groups \<and> tg_parent h = q) \<and> tmpl = buildInstanceTemplate (filter (\<lambda>r. row_parent r = Some q) rows)"
    using group_rows(5) [OF g] by metis
  finally show ?thesis unfolding group_of_parent [OF g] .
qed

lemma applyRows_validated:
  assumes "validate_rows rows [] = Inr groups" and "applyRows rows t = (r, t')"
    and "mount_rows (mounted_rows rows groups) [] t = (r1, t1)"
  shows "is_err r1 \<Longrightarrow> is_err r" and "\<not> is_err r1 \<Longrightarrow> register_tables groups t1 = (r, t')"
  using assms by (auto simp: applyRows_def mounted_rows_def mount_rows_append is_err_def split: prod.splits sum.splits)

text \<open>Once the rows are checked and collected, what is left to decide is whether the leaves and tables
  get in each other's way.\<close>

lemma applyRows_grouped:
  assumes val: "validate_rows rows [] = Inr groups" and app: "applyRows rows New = (r, t)"
    and g: "groups_ok rows groups" and ok: "\<forall>r \<in> set rows. \<not> is_err (check_row r)"
  shows "(r = Inr () \<longleftrightarrow> distinct (map fst (declared rows))
      \<and> (\<forall>p \<in> fst ` set (declared rows). \<forall>q \<in> fst ` set (declared rows). prefix p q \<longrightarrow> p = q)
      \<and> (\<forall>(k, h) \<in> set groups. tg_parent h \<noteq> [] \<and> (\<forall>p \<in> fst ` set (declared rows). \<not> prefix p (tg_parent h))))
    \<and> (r = Inr () \<longrightarrow> leaf_at (root t) = map_of (declared rows) \<and> table_at (root t) = map_of (rev (group_tables groups)))"
proof -
  note decl = mounted_rows_declared [OF g ok]
  obtain r1 t1 where m: "mount_rows (mounted_rows rows groups) [] New = (r1, t1)" by fastforce
  note app' = applyRows_validated [OF val app m]
  have acc: "\<not> is_err r1 \<longleftrightarrow> sorted_wrt apart (map (fst o leaf_of) (mounted_rows rows groups))"
    and eff: "\<not> is_err r1 \<Longrightarrow> leaf_at (root t1) = Map.empty(map fst (map leaf_of (mounted_rows rows groups)) [\<mapsto>] map snd (map leaf_of (mounted_rows rows groups)))"
    using mount_rows_spec [OF New_reads(1,2) _ _ m, unfolded New_reads(3)] decl(2) by auto
  note acc = acc [unfolded declared_apart [OF decl(1)]]
  show ?thesis
  proof (cases "is_err r1")
    case True
    then have "r \<noteq> Inr ()" using app'(1) by auto
    with True acc show ?thesis by blast
  next
    case False
    note reg = app'(2) [OF False]
    from False acc have d: "distinct (map fst (declared rows))" by blast
    from eff [OF False] mounted_leaves [OF decl(1) d] have lf: "leaf_at (root t1) = map_of (declared rows)" by simp
    have tb: "table_at (root t1) = Map.empty"
      using mount_rows_table [of "mounted_rows rows groups" "[]" New] m New_reads(4) by simp
    have none: "map_of (declared rows) q = None \<longleftrightarrow> q \<notin> fst ` set (declared rows)" for q
      by (rule map_of_eq_None_iff)
    have pre: "\<forall>(k, h) \<in> set groups. k = joinPath (tg_parent h) \<and> valid_segs (tg_parent h)" "distinct (map fst groups)"
      "\<forall>(k, h) \<in> set groups. table_at (root t1) (tg_parent h) = None"
      using group_rows(1,3) [OF g] g tb by (auto simp: groups_ok_def)
    have "(\<forall>q. prefix q p \<longrightarrow> map_of (declared rows) q = None) \<longleftrightarrow> (\<forall>q \<in> fst ` set (declared rows). \<not> prefix q p)" for p
      unfolding none by blast
    with register_tables_spec [OF pre reg] acc False lf tb show ?thesis by simp
  qed
qed

lemma applyRows_cases:
  assumes "applyRows rows New = (r, t)"
  shows "(r = Inr () \<longleftrightarrow> rows_ok rows) \<and>
    (r = Inr () \<longrightarrow> leaf_at (root t) = map_of (declared rows)
       \<and> (\<forall>q tmpl. table_at (root t) q = Some tmpl \<longleftrightarrow>
            (\<exists>row \<in> set rows. row_parent row = Some q) \<and> tmpl = buildInstanceTemplate (filter (\<lambda>r. row_parent r = Some q) rows)))"
proof (cases "validate_rows rows []")
  case (Inl e)
  then have "r \<noteq> Inr ()" using assms by (auto simp: applyRows_def)
  moreover have "\<not> rows_ok rows"
  proof
    assume "rows_ok rows"
    then have a: "\<forall>r \<in> set rows. \<not> is_err (check_row r)"
      and b: "\<forall>r \<in> set rows. \<forall>r' \<in> set rows. row_parent r \<noteq> None \<and> row_parent r = row_parent r' \<longrightarrow> pp_Instances r = pp_Instances r'"
      unfolding rows_ok_def by blast+
    from validate_rows_complete [OF groups_ok_Nil a, unfolded append_Nil, OF b] Inl show False by simp
  qed
  ultimately show ?thesis by simp
next
  case (Inr groups)
  with validate_rows_Inr [OF Inr groups_ok_Nil] have g: "groups_ok rows groups" and ok: "\<forall>r \<in> set rows. \<not> is_err (check_row r)" by simp_all
  have "\<forall>r \<in> set rows. \<forall>r' \<in> set rows. row_parent r \<noteq> None \<and> row_parent r = row_parent r' \<longrightarrow> pp_Instances r = pp_Instances r'"
  proof (intro ballI impI)
    fix r r' assume r: "r \<in> set rows" "r' \<in> set rows" and p: "row_parent r \<noteq> None \<and> row_parent r = row_parent r'"
    then obtain p where "row_parent r = Some p" "row_parent r' = Some p" by (metis not_None_eq)
    then show "pp_Instances r = pp_Instances r'" by (rule groups_agree [OF g r])
  qed
  moreover have "(\<forall>(k, h) \<in> set groups. tg_parent h \<noteq> [] \<and> (\<forall>p \<in> fst ` set (declared rows). \<not> prefix p (tg_parent h))) \<longleftrightarrow>
      (\<forall>row \<in> set rows. \<forall>parent. row_parent row = Some parent \<longrightarrow> parent \<noteq> [] \<and> (\<forall>p \<in> fst ` set (declared rows). \<not> prefix p parent))"
    by (rule group_parents_all [OF g])
  ultimately have "r = Inr () \<longleftrightarrow> rows_ok rows"
    using applyRows_grouped [OF Inr assms g ok] ok unfolding rows_ok_def by blast
  then show ?thesis using applyRows_grouped [OF Inr assms g ok] group_tables_lookup [OF g] by simp
qed

end
