(* ===== verification/ProfileTree.thy ===== *)
theory ProfileTree
  imports ProfileRows
begin

text \<open>
  The tree a list of profile rows builds: its leaves are exactly the declared ones, its tables have
  templates that give new instances the parameters of the declared ones, and it is a tree every
  operation can work on.
\<close>

section \<open>Templates\<close>

text \<open>Building a template is mounting its leaves one after the other.\<close>

lemma leaf_no_children: "wf_node n \<Longrightarrow> isLeaf n \<Longrightarrow> children n = []"
  by (cases n) (auto simp: isLeaf_def)

lemma attach_at_mount:
  "wf_node n \<Longrightarrow> attach_at segs v n = snd (mount_at path segs (NewLeaf v) n)"
proof (induction segs v n rule: attach_at.induct)
  case (2 seg v n)
  then show ?case by (simp add: Attach_def isLeaf_def)
next
  case (3 seg seg2 rest v n)
  show ?case
  proof (cases "isLeaf n")
    case True
    with leaf_no_children [OF 3(3)] show ?thesis by (simp add: Attach_def isLeaf_def)
  next
    case False
    show ?thesis
    proof (cases "map_of (children n) seg")
      case None
      have up: "AList.update seg x (AList.update seg y cs) = AList.update seg x cs" for x y cs
        by (induction cs) auto
      from None False 3(1) [OF None] wf_NewBranch show ?thesis
        by (auto simp: Attach_def isLeaf_def set_child_def Let_def case_prod_unfold up set_children_set_children)
    next
      case (Some c)
      then have "wf_node c" using 3(3) wf_child by (metis map_of_SomeD)
      with 3(2) [OF Some] Some False show ?thesis by (simp add: set_child_def Let_def case_prod_unfold)
    qed
  qed
qed simp

lemma template_mounts:
  assumes "\<forall>row \<in> set rows. valid_segs (template_segs row)" and "wf_node n"
  shows "fold (\<lambda>row. attach_at (template_segs row) (row_value row)) rows n
       = fold (\<lambda>row n. snd (mount_at '''' (template_segs row) (NewLeaf (row_value row)) n)) rows n
     \<and> wf_node (fold (\<lambda>row. attach_at (template_segs row) (row_value row)) rows n)"
  using assms
proof (induction rows arbitrary: n)
  case (Cons row rows)
  have leaf: "wf_node (NewLeaf v)" for v by (simp add: NewLeaf_def)
  define n1 where "n1 = snd (mount_at '''' (template_segs row) (NewLeaf (row_value row)) n)"
  have "wf_node n1"
    unfolding n1_def using Cons.prems by (intro node_shape.mount_at_keeps leaf) simp_all
  with Cons.IH [of n1] Cons.prems(1) attach_at_mount [OF Cons.prems(2), of "template_segs row" "row_value row" "''''"]
  show ?case by (simp add: n1_def [symmetric]) metis
qed simp

lemma wf_template: "\<forall>row \<in> set rows. valid_segs (template_segs row) \<Longrightarrow> wf_node (buildInstanceTemplate rows)"
  unfolding buildInstanceTemplate_def using template_mounts wf_NewBranch by blast

lemma spanned_NewBranch: "spanned NewBranch" "\<not> isLeaf NewBranch"
  by (auto simp: spanned_def NewBranch_reads isLeaf_def)

lemma template_leaves:
  assumes "\<forall>row \<in> set rows. valid_segs (template_segs row) \<and> template_segs row \<noteq> []" and "sorted_wrt apart (map template_segs rows)"
  shows "leaf_at (buildInstanceTemplate rows) = map_of (map (\<lambda>row. (template_segs row, row_value row)) rows)"
proof -
  let ?m = "\<lambda>row n. snd (mount_at '''' (template_segs row) (NewLeaf (row_value row)) n)"
  have "leaf_at (fold ?m rs n) = (leaf_at n)(map template_segs rs [\<mapsto>] map row_value rs)"
    if "set rs \<subseteq> set rows" "sorted_wrt apart (map template_segs rs)" "spanned n" "\<not> isLeaf n"
      "\<forall>row \<in> set rs. \<forall>q \<in> dom (leaf_at n). apart (template_segs row) q" for rs n
    using that
  proof (induction rs arbitrary: n)
    case (Cons row rs)
    define t where "t = New\<lparr>root := n\<rparr>"
    let ?p = "joinPath (template_segs row)"
    have ok: "valid_segs (template_segs row)" "template_segs row \<noteq> []" using Cons.prems(1) assms(1) by simp_all
    have t: "spanned (root t)" "\<not> isLeaf (root t)" using Cons.prems(3,4) by (simp_all add: t_def)
    have p: "parsePath ?p = Inr (template_segs row)" using ok(1) by (rule parsePath_joinPath)
    obtain r t' where m: "Mount ?p (NewLeaf (row_value row)) t = (r, t')" by fastforce
    note mount = Mount_leaf [OF t p ok(2) m]
    have same: "snd (mount_at ?p segs l n) = snd (mount_at '''' segs l n)" for segs l n
      by (induction ?p segs l n rule: mount_at.induct) (simp_all add: Let_def case_prod_unfold)
    have n': "root t' = ?m row n" using m p ok(2) same by (auto simp: Mount_def Let_def case_prod_unfold t_def)
    have "r = Inr ()" using mount(1) Cons.prems(5) by (simp add: t_def)
    with mount(2) have eff: "leaf_at (?m row n) = (leaf_at n)(template_segs row \<mapsto> row_value row)" "spanned (?m row n)" "\<not> isLeaf (?m row n)"
      unfolding n' by (simp_all add: t_def)
    have "\<forall>r \<in> set rs. \<forall>q \<in> dom (leaf_at (?m row n)). apart (template_segs r) q"
      using Cons.prems(2,5) apart_sym unfolding eff(1) by auto
    with Cons.IH [OF _ _ eff(2,3)] Cons.prems(1,2)
    have "leaf_at (fold ?m rs (?m row n)) = (leaf_at (?m row n))(map template_segs rs [\<mapsto>] map row_value rs)" by simp
    then show ?case by (simp only: fold_simps(2) eff(1) list.map map_upds_Cons)
  qed simp
  moreover have none: "leaf_at NewBranch = Map.empty" by (rule ext) (rule NewBranch_reads(1))
  ultimately have
    "leaf_at (fold ?m rows NewBranch) = (leaf_at NewBranch)(map template_segs rows [\<mapsto>] map row_value rows)"
    using assms(2) spanned_NewBranch by simp
  then have
    "leaf_at (buildInstanceTemplate rows) = Map.empty(map template_segs rows [\<mapsto>] map row_value rows)"
    using template_mounts [of rows NewBranch] assms(1) wf_NewBranch none
    by (simp add: buildInstanceTemplate_def)
  also have "\<dots> = map_of (map (\<lambda>row. (template_segs row, row_value row)) rows)"
    using upds_map_of [of "map (\<lambda>row. (template_segs row, row_value row)) rows"] assms(2) pairwise_apart [of "map template_segs rows"]
    by (simp add: o_def)
  finally show ?thesis .
qed

lemma template_segs_tail:
  assumes "\<not> is_err (check_row row)" and "row_parent row = Some p" and "\<not> HasSuffix (pp_Path row) ''.''"
  shows "template_segs row = row_tail row"
proof -
  from assms(1,2) obtain segs i where s: "parseProfilePath (pp_Path row) = Inr (segs, Some i)"
    by (auto elim!: checked_row simp: row_parent_def)
  then obtain xs ys where x: "segs = xs @ ''{i}'' # ys" "i = length xs" "valid_segs xs" by (rule table_path)
  have "TrimSuffix (pp_Path row) ''.'' = pp_Path row" using assms(3) by (simp add: TrimSuffix_def)
  with s have "split_on CHR ''.'' (pp_Path row) = xs @ ''{i}'' # ys" using x(1) by (simp add: parseProfilePath_Inr)
  moreover have "dropWhile (\<lambda>s. s \<noteq> k) (xs @ k # ys) = k # ys" if "k \<notin> set xs" for k :: string
    using that by (induction xs) auto
  ultimately show ?thesis
    using s x marker_not_in [OF x(3)] by (simp add: template_segs_def row_tail_def)
qed

section \<open>The tree stays one\<close>

text \<open>No row of a table ends in a dot.  The loader accepts such a row, and the instances it declares are
  fine, but the template built from it has a parameter without a name.\<close>

definition undotted :: "profileParam list \<Rightarrow> bool" where
  "undotted rows \<longleftrightarrow> (\<forall>row \<in> set rows. row_parent row \<noteq> None \<longrightarrow> \<not> HasSuffix (pp_Path row) ''.'')"

lemma rows_ok_checked: "rows_ok rows \<Longrightarrow> row \<in> set rows \<Longrightarrow> \<not> is_err (check_row row)"
  by (simp add: rows_ok_def)

lemma table_template_segs:
  assumes "rows_ok rows" and "undotted rows" and "row \<in> set rows" and "row_parent row = Some p"
  shows "template_segs row = row_tail row" and "row_tail row \<noteq> []" and "valid_segs (row_tail row)"
  using assms template_segs_tail [of row p] concrete_leaf_of(4,5) [of row p] by (auto simp: rows_ok_def undotted_def)

text \<open>What every mount of a row and every registration of a table keeps, the loader keeps.\<close>

lemma mount_rows_keeps:
  assumes "\<And>row t. row \<in> set rows \<Longrightarrow> P t \<Longrightarrow> P (snd (Mount (pp_Path row) (NewLeaf (row_value row)) t))" and "P t"
  shows "P (snd (mount_rows rows mf t))"
  using assms
proof (induction rows arbitrary: mf t)
  case (Cons row rows)
  have "P t'" if "Mount (pp_Path row) (NewLeaf (row_value row)) t = (r, t')" for r t'
    using Cons.prems(1) [of row t] Cons.prems(2) that by simp
  with Cons.IH Cons.prems show ?case by (auto split: option.splits prod.splits sum.splits)
qed simp

lemma register_tables_keeps:
  assumes "\<And>k g t. (k, g) \<in> set groups \<Longrightarrow> P t \<Longrightarrow> P (snd (AddTable k (Some (buildInstanceTemplate (tg_rows g))) t))" and "P t"
  shows "P (snd (register_tables groups t))"
  using assms
proof (induction groups arbitrary: t)
  case (Cons kg groups)
  obtain k g where kg: "kg = (k, g)" by (cases kg)
  have "P t'" if "AddTable k (Some (buildInstanceTemplate (tg_rows g))) t = (r, t')" for r t'
    using Cons.prems(1) [of k g t] Cons.prems(2) that kg by simp
  with Cons.IH Cons.prems kg show ?case by (auto split: prod.splits sum.splits)
qed simp

lemma applyRows_keeps:
  assumes "applyRows rows New = (Inr (), t)" and "P New"
    and "\<And>row v t. mountable row \<Longrightarrow> (\<exists>segs. (segs, row_value row) \<in> set (declared rows)) \<Longrightarrow> P t \<Longrightarrow> P (snd (Mount (pp_Path row) (NewLeaf (row_value row)) t))"
    and "\<And>k p t. (\<exists>row \<in> set rows. row_parent row = Some p) \<Longrightarrow> P t \<Longrightarrow>
        P (snd (AddTable k (Some (buildInstanceTemplate (filter (\<lambda>r. row_parent r = Some p) rows))) t))"
  shows "P t"
proof -
  from assms(1) obtain groups where val: "validate_rows rows [] = Inr groups" by (auto simp: applyRows_def split: sum.splits)
  from validate_rows_Inr [OF val groups_ok_Nil] have g: "groups_ok rows groups" and ok: "\<forall>r \<in> set rows. \<not> is_err (check_row r)" by simp_all
  obtain r1 t1 where m: "mount_rows (mounted_rows rows groups) [] New = (r1, t1)" by fastforce
  have reg: "register_tables groups t1 = (Inr (), t)" using applyRows_validated [OF val assms(1) m] by auto
  have leaf: "\<exists>segs. (segs, row_value row) \<in> set (declared rows)" if "row \<in> set (mounted_rows rows groups)" for row
  proof -
    have "leaf_of row \<in> set (declared rows)" using that mset_eq_setD [OF mounted_rows_declared(1) [OF g ok]] by (metis imageI list.set_map)
    then show ?thesis by (auto simp: leaf_of_def)
  qed
  have "P (snd (mount_rows (mounted_rows rows groups) [] New))"
  proof (rule mount_rows_keeps [where P = P])
    fix row and t :: Tree assume row: "row \<in> set (mounted_rows rows groups)" and "P t"
    then show "P (snd (Mount (pp_Path row) (NewLeaf (row_value row)) t))"
      by (intro assms(3) mounted_rows_declared(2) [OF g ok] leaf)
  qed (rule assms(2))
  then have t1: "P t1" using m by simp
  have "P (snd (AddTable k (Some (buildInstanceTemplate (tg_rows h))) t))" if "(k, h) \<in> set groups" "P t" for k h t
  proof -
    have "\<exists>row \<in> set rows. row_parent row = Some (tg_parent h)"
      unfolding group_of_parent [OF g, symmetric] using that(1) by blast
    from assms(4) [OF this that(2), of k] show ?thesis unfolding group_rows(5) [OF g that(1), symmetric] .
  qed
  then have "P (snd (register_tables groups t1))" using t1 by (intro register_tables_keeps [where P = P]) simp_all
  then show ?thesis using reg by simp
qed

lemma applyRows_wf:
  assumes "applyRows rows New = (Inr (), t)" and "undotted rows"
  shows "wf_node (root t)"
proof (rule applyRows_keeps [OF assms(1)])
  have ok: "rows_ok rows" using applyRows_cases [OF assms(1)] by simp
  fix k p and t :: Tree assume "wf_node (root t)"
  moreover have "wf_node (buildInstanceTemplate (filter (\<lambda>r. row_parent r = Some p) rows))"
    using table_template_segs [OF ok assms(2)] by (intro wf_template) auto
  ultimately show "wf_node (root (snd (AddTable k (Some (buildInstanceTemplate (filter (\<lambda>r. row_parent r = Some p) rows))) t)))"
    by (rule wf_AddTable)
qed (auto simp: New_def wf_NewBranch NewLeaf_def intro!: wf_Mount)

text \<open>A value without a brace is mounted as it was checked.\<close>

definition settled :: "profileParam \<Rightarrow> bool" where
  "settled row \<longleftrightarrow> CHR ''{'' \<notin> set (pp_Value row)"

lemma no_brace_no_marker: "CHR ''{'' \<notin> set s \<Longrightarrow> \<not> Contains s (CHR ''{'' # m)"
  by (auto simp: Contains_iff)

lemma settled_values:
  assumes "settled row"
  shows "ReplaceAll (pp_Value row) ''{i}'' x = pp_Value row" and "samplePickPlaceholders (pp_Value row) = pp_Value row"
proof -
  note clean = no_brace_no_marker [of "pp_Value row", folded Index_None]
  show "ReplaceAll (pp_Value row) ''{i}'' x = pp_Value row"
    using assms no_brace_no_marker by (intro ReplaceAll_absent) (auto simp: settled_def)
  show "samplePickPlaceholders (pp_Value row) = pp_Value row"
    using assms clean by (simp add: samplePickPlaceholders_def sample_marker.simps settled_def)
qed

lemma settled_valid:
  assumes "\<not> is_err (check_row row)" and "settled row"
  shows "valid_Value (row_value row)" and "instance_value row n = row_value row"
  using assms settled_values [OF assms(2)]
  by (auto simp: check_row_def Let_def valid_Value_def row_value_def instance_value_def split: if_splits sum.splits)

lemma settled_declared:
  assumes "\<forall>row \<in> set rows. \<not> is_err (check_row row) \<and> settled row" and "(segs, v) \<in> set (declared rows)"
  shows "valid_Value v"
proof -
  from assms(2) obtain row where row: "row \<in> set rows" "(segs, v) \<in> set (row_leaves row)" by (auto simp: declared_def)
  then have "v = row_value row"
    using settled_valid(2) [of row] assms(1) by (auto simp: row_leaves_def split: sum.splits option.splits)
  with row(1) settled_valid(1) assms(1) show ?thesis by blast
qed

lemma good_template:
  assumes "\<forall>row \<in> set rows. valid_segs (template_segs row) \<and> valid_Value (row_value row)"
  shows "good_node (buildInstanceTemplate rows)"
proof -
  have leaf: "good_node (NewLeaf v)" if "valid_Value v" for v using that by (simp add: NewLeaf_def good_node_def)
  have "good_node (fold (\<lambda>row n. snd (mount_at '''' (template_segs row) (NewLeaf (row_value row)) n)) rows n)" if "good_node n" for n
    using assms that by (induction rows arbitrary: n) (auto intro!: good.mount_at_keeps leaf)
  then show ?thesis
    using template_mounts [of rows NewBranch] assms wf_NewBranch good.branch by (simp add: buildInstanceTemplate_def)
qed

section \<open>Properties\<close>


text \<open>C36: An accepted list of rows mounts exactly what it declares: a path reads a value if and only if a row
  declares this leaf, directly or as one of the instances of its table, and it reads the value the row
  gives, with the number of the instance in place of \<^verbatim>\<open>{i}\<close>.  The objects that can be added to are
  exactly the tables of the rows.\<close>

theorem applyRows_mounts_declared:
  assumes "applyRows rows New = (Inr (), t)" and "parsePath path = Inr segs"
  shows "(Get path t = Inr v \<longleftrightarrow> (segs, v) \<in> set (declared rows))
    \<and> (table_at (root t) segs \<noteq> None \<longleftrightarrow> (\<exists>row \<in> set rows. row_parent row = Some segs))"
proof -
  from applyRows_cases [OF assms(1)] have ok: "rows_ok rows" and lf: "leaf_at (root t) = map_of (declared rows)"
    and tb: "table_at (root t) q = Some tmpl \<longleftrightarrow> (\<exists>row \<in> set rows. row_parent row = Some q)
        \<and> tmpl = buildInstanceTemplate (filter (\<lambda>r. row_parent r = Some q) rows)" for q tmpl
    by simp_all
  have "distinct (map fst (declared rows))" using ok by (simp add: rows_ok_def)
  with assms(2) lf have "Get path t = Inr v \<longleftrightarrow> (segs, v) \<in> set (declared rows)"
    by (simp add: Get_Inr)
  moreover have "table_at (root t) segs \<noteq> None \<longleftrightarrow> (\<exists>row \<in> set rows. row_parent row = Some segs)"
    using tb [of segs] by blast
  ultimately show ?thesis ..
qed


lemma sorted_wrt_pick:
  "sorted_wrt R (concat (map g xs)) \<Longrightarrow> \<forall>x \<in> set xs. P x \<longrightarrow> f x \<in> set (g x) \<Longrightarrow> sorted_wrt R (map f (filter P xs))"
proof (induction xs)
  case (Cons x xs)
  then have "\<forall>y \<in> set (filter P xs). f y \<in> set (concat (map g xs))" by auto
  with Cons show ?case by (auto simp: sorted_wrt_append)
qed simp

lemma tails_apart:
  assumes ok: "rows_ok rows" and inst: "\<forall>row \<in> set rows. row_parent row = Some segs \<longrightarrow> 1 \<le> pp_Instances row"
  shows "sorted_wrt apart (map row_tail (filter (\<lambda>r. row_parent r = Some segs) rows))"
proof -
  have "map fst (declared rows) = concat (map (map fst \<circ> row_leaves) rows)" by (simp add: declared_def map_concat)
  moreover have "sorted_wrt apart (map fst (declared rows))"
    using ok unfolding pairwise_apart rows_ok_def by simp
  moreover have "segs @ Itoa 1 # row_tail row \<in> set ((map fst \<circ> row_leaves) row)" if "row \<in> set rows" "row_parent row = Some segs" for row
  proof -
    note c = concrete_leaf_of(1,2) [OF rows_ok_checked [OF ok that(1)] that(2)]
    have "leaf_of (concrete_row 1 row) \<in> set (row_leaves row)" unfolding c(1) using inst that by simp
    then have "(segs @ Itoa 1 # row_tail row, instance_value row 1) \<in> set (row_leaves row)" unfolding c(2) [OF zero_le_one] .
    then show ?thesis by force
  qed
  ultimately have "sorted_wrt apart (map (\<lambda>row. segs @ Itoa 1 # row_tail row) (filter (\<lambda>r. row_parent r = Some segs) rows))"
    by (intro sorted_wrt_pick [where g = "map fst \<circ> row_leaves"]) simp_all
  then show ?thesis by (simp add: sorted_wrt_map apart_def)
qed

lemma AddObject_table:
  assumes "wf_node (root t)" and "valid_segs segs" and "table_at (root t) segs = Some tmpl"
  obtains i t' where "AddObject (joinPath segs) t = (Inr i, t')" and "node_at (segs @ [Itoa i]) (root t') = Some (clone tmpl)"
proof -
  obtain n where n: "node_at segs (root t) = Some n" "table n = Some tmpl" using assms(3) by (auto simp: table_at_def split: option.splits)
  have "\<exists>i t'. AddObject (joinPath segs) t = (Inr i, t')"
    using n assms(2) by (simp add: AddObject_def parsePath_joinPath Let_def case_prod_unfold)
  then obtain i t' where add: "AddObject (joinPath segs) t = (Inr i, t')" by blast
  have nl: "\<not> isLeaf n" using wf_node_at [OF assms(1) n(1)] n(2) by (auto simp: wf_node_iff [of n])
  from AddObject_Inr [OF add] n assms(2) have "root t' = table_root segs (set_child (Itoa i) (clone tmpl) n) (root t)"
    by (auto simp: parsePath_joinPath)
  with table_root_node [OF n(1)] nl have "node_at (segs @ [Itoa i]) (root t') = Some (clone tmpl)"
    by (simp add: node_at_append set_child_def)
  with add that show thesis by blast
qed


section \<open>A profile\<close>

definition sample_row :: "string \<Rightarrow> Type \<Rightarrow> string \<Rightarrow> int option \<Rightarrow> profileParam" where
  "sample_row path ty v inst =
     applyDefaults \<lparr>rp_Path = path, rp_Type = Some ty, rp_Value = Some v, rp_Writable = Some True, rp_Instances = inst, rp_Generator = None\<rparr> ''p.yaml''"

definition sample_rows :: "profileParam list" where
  "sample_rows = [sample_row ''D.Name'' TypeString ''x'' None, sample_row ''D.T.{i}.Port'' TypeUnsignedInt ''80'' (Some 2)]"

lemma sample_loads: "applyRows sample_rows New = (Inr (), snd (applyRows sample_rows New))"
proof -
  have "fst (applyRows sample_rows New) = Inr ()" by code_simp
  then show ?thesis by (simp add: prod_eq_iff)
qed

lemma sample_paths:
  "parsePath ''D.T.2.Port'' = Inr [''D'', ''T'', ''2'', ''Port'']"
  "([''D'', ''T'', ''2'', ''Port''], \<lparr>VType = TypeUnsignedInt, Raw = ''80'', Writable = True\<rparr>) \<in> set (declared sample_rows)"
  "undotted sample_rows" "list_all settled sample_rows"
  "list_ex (\<lambda>row. row_parent row = Some [''D'', ''T'']) sample_rows"
  "list_all (\<lambda>row. row_parent row = Some [''D'', ''T''] \<longrightarrow> 1 \<le> pp_Instances row) sample_rows"
  by code_simp+

theorem applyRows_mounts_declared_witness:
  "Get ''D.T.2.Port'' (snd (applyRows sample_rows New)) = Inr \<lparr>VType = TypeUnsignedInt, Raw = ''80'', Writable = True\<rparr>"
  using applyRows_mounts_declared [OF sample_loads sample_paths(1)] sample_paths(2) by blast



text \<open>A path that ends in a dot is mounted like the path without it, but in the template of its table it
  becomes an object with a parameter that has no name.\<close>

lemma dotted_row_template:
  "fst (applyRows [sample_row ''D.T.{i}.Port.'' TypeUnsignedInt ''80'' (Some 1)] New) = Inr ()
   \<and> template_segs (sample_row ''D.T.{i}.Port.'' TypeUnsignedInt ''80'' (Some 1)) = [''Port'', '''']
   \<and> leaf_at (buildInstanceTemplate [sample_row ''D.T.{i}.Port.'' TypeUnsignedInt ''80'' (Some 1)]) [''Port''] = None"
  by code_simp

text \<open>The rows of a table without instances are not compared: a parameter declared twice is accepted and the
  second declaration is dropped.\<close>

lemma empty_table_unchecked:
  "fst (applyRows [sample_row ''D.T.{i}.Port'' TypeUnsignedInt ''80'' (Some 0), sample_row ''D.T.{i}.Port'' TypeString ''x'' (Some 0)] New) = Inr ()
   \<and> leaf_at (buildInstanceTemplate [sample_row ''D.T.{i}.Port'' TypeUnsignedInt ''80'' (Some 0), sample_row ''D.T.{i}.Port'' TypeString ''x'' (Some 0)]) [''Port'']
       = Some \<lparr>VType = TypeUnsignedInt, Raw = ''80'', Writable = True\<rparr>"
  by code_simp

end
