(* ===== verification/BulkDataModel.thy ===== *)
theory BulkDataModel
  imports ProfileTree
begin

text \<open>
  The bulk data objects of a CWMP profile (\<^verbatim>\<open>src/internal/paramtree/bulkdata.go\<close>): the checks on the
  \<^verbatim>\<open>bulkData:\<close> block, and the subtree the loader mounts for it, with its table of profiles.
\<close>

section \<open>Definitions\<close>

record BulkDataConfig =
  bd_Root :: string
  bd_Protocols :: string
  bd_EncodingTypes :: string
  bd_MinReportingInterval :: int
  bd_MaxNumberOfProfiles :: int
  bd_MaxNumberOfParameterReferences :: int
  bd_ParameterWildCardSupported :: bool

definition boolRaw :: "bool \<Rightarrow> string" where
  "boolRaw b = (if b then ''1'' else ''0'')"

type_synonym leaf_spec = "string \<times> Type \<times> string \<times> bool"

definition spec_value :: "leaf_spec \<Rightarrow> Value" where
  "spec_value = (\<lambda>(name, typ, value, writable). \<lparr>VType = typ, Raw = value, Writable = writable\<rparr>)"

fun attach_specs :: "leaf_spec list \<Rightarrow> Node \<Rightarrow> goerr + Node" where
  "attach_specs [] n = Inr n"
| "attach_specs (p # ps) n =
     (case Attach (fst p) (NewLeaf (spec_value p)) n of
        (Inl e, _) \<Rightarrow> Inl e
      | (Inr _, n') \<Rightarrow> attach_specs ps n')"

definition attach_node :: "string \<Rightarrow> Node \<Rightarrow> Node \<Rightarrow> goerr + Node" where
  "attach_node seg child n = (case Attach seg child n of (Inl e, _) \<Rightarrow> Inl e | (Inr _, n') \<Rightarrow> Inr n')"

definition http_leaves :: "leaf_spec list" where
  "http_leaves =
     [(''URL'', TypeString, '''', True), (''Username'', TypeString, '''', True), (''Password'', TypeString, '''', True),
      (''CompressionsSupported'', TypeString, ''GZIP,Compress,Deflate'', False), (''Compression'', TypeString, ''None'', True),
      (''MethodsSupported'', TypeString, ''POST,PUT'', False), (''Method'', TypeString, ''POST'', True),
      (''UseDateHeader'', TypeBoolean, ''1'', True), (''RetryEnable'', TypeBoolean, ''1'', True),
      (''RetryMinimumWaitInterval'', TypeUnsignedInt, ''5'', True), (''RetryIntervalMultiplier'', TypeUnsignedInt, ''2000'', True),
      (''RequestURIParameterNumberOfEntries'', TypeUnsignedInt, ''0'', False)]"

definition name_reference :: "leaf_spec list" where
  "name_reference = [(''Name'', TypeString, '''', True), (''Reference'', TypeString, '''', True)]"

definition bulkDataHTTPTemplate :: "goerr + Node" where
  "bulkDataHTTPTemplate =
     (case attach_specs http_leaves NewBranch of
        Inl e \<Rightarrow> Inl e
      | Inr http \<Rightarrow>
          (case attach_specs name_reference NewBranch of
             Inl e \<Rightarrow> Inl e
           | Inr uriParam \<Rightarrow> attach_node ''RequestURIParameter'' (NewTable uriParam) http))"

definition profile_leaves :: "leaf_spec list" where
  "profile_leaves =
     [(''Enable'', TypeBoolean, ''0'', True), (''Name'', TypeString, '''', True), (''NumberOfRetainedFailedReports'', TypeInt, ''0'', True),
      (''Protocol'', TypeString, '''', True), (''EncodingType'', TypeString, '''', True), (''ReportingInterval'', TypeUnsignedInt, ''86400'', True),
      (''TimeReference'', TypeDateTime, ''0001-01-01T00:00:00Z'', True), (''ParameterNumberOfEntries'', TypeUnsignedInt, ''0'', False),
      (''X_0000C5_Status'', TypeString, ''Disabled'', False)]"

definition json_leaves :: "leaf_spec list" where
  "json_leaves = [(''ReportFormat'', TypeString, ''ObjectHierarchy'', True), (''ReportTimestamp'', TypeString, ''Unix-Epoch'', True)]"

definition bulkDataProfileTemplate :: "goerr + Node" where
  "bulkDataProfileTemplate =
     (case attach_specs profile_leaves NewBranch of
        Inl e \<Rightarrow> Inl e
      | Inr profile \<Rightarrow>
          (case attach_specs json_leaves NewBranch of
             Inl e \<Rightarrow> Inl e
           | Inr jsonEncoding \<Rightarrow>
               (case attach_node ''JSONEncoding'' jsonEncoding profile of
                  Inl e \<Rightarrow> Inl e
                | Inr profile1 \<Rightarrow>
                    (case bulkDataHTTPTemplate of
                       Inl e \<Rightarrow> Inl e
                     | Inr http \<Rightarrow>
                         (case attach_node ''HTTP'' http profile1 of
                            Inl e \<Rightarrow> Inl e
                          | Inr profile2 \<Rightarrow>
                              (case attach_specs name_reference NewBranch of
                                 Inl e \<Rightarrow> Inl e
                               | Inr nameRef \<Rightarrow> attach_node ''Parameter'' (NewTable nameRef) profile2))))))"

fun mount_specs :: "string \<Rightarrow> leaf_spec list \<Rightarrow> Tree \<Rightarrow> (goerr + unit) \<times> Tree" where
  "mount_specs base [] t = (Inr (), t)"
| "mount_specs base (p # ps) t =
     (case Mount (base @ ''.'' @ fst p) (NewLeaf (spec_value p)) t of
        (Inl e, t') \<Rightarrow> (Inl e, t')
      | (Inr _, t') \<Rightarrow> mount_specs base ps t')"

definition bulk_leaves :: "BulkDataConfig \<Rightarrow> leaf_spec list" where
  "bulk_leaves cfg =
     [(''Enable'', TypeBoolean, ''0'', True), (''Status'', TypeString, ''Disabled'', False),
      (''MinReportingInterval'', TypeUnsignedInt, Itoa (bd_MinReportingInterval cfg), False),
      (''Protocols'', TypeString, bd_Protocols cfg, False), (''EncodingTypes'', TypeString, bd_EncodingTypes cfg, False),
      (''ParameterWildCardSupported'', TypeBoolean, boolRaw (bd_ParameterWildCardSupported cfg), False),
      (''MaxNumberOfProfiles'', TypeInt, Itoa (bd_MaxNumberOfProfiles cfg), False),
      (''MaxNumberOfParameterReferences'', TypeInt, Itoa (bd_MaxNumberOfParameterReferences cfg), False),
      (''ProfileNumberOfEntries'', TypeUnsignedInt, ''0'', False)]"

definition MountBulkData :: "Tree \<Rightarrow> BulkDataConfig \<Rightarrow> (goerr + unit) \<times> Tree" where
  "MountBulkData t cfg =
     (let root' = TrimSuffix (bd_Root cfg) ''.'' in
      if root' = '''' then (Inl (Errorf ''bulkData: root is empty'' []), t)
      else
        (let base = root' @ ''.BulkData'' in
         case Mount base NewBranch t of
           (Inl e, t1) \<Rightarrow> (Inl e, t1)
         | (Inr _, t1) \<Rightarrow>
             (case mount_specs base (bulk_leaves cfg) t1 of
                (Inl e, t2) \<Rightarrow> (Inl e, t2)
              | (Inr _, t2) \<Rightarrow>
                  (case bulkDataProfileTemplate of
                     Inl e \<Rightarrow> (Inl e, t2)
                   | Inr profile \<Rightarrow>
                       (case Mount (base @ ''.Profile'') NewBranch t2 of
                          (Inl e, t3) \<Rightarrow> (Inl e, t3)
                        | (Inr _, t3) \<Rightarrow> AddTable (base @ ''.Profile'') (Some profile) t3)))))"

definition validateBulkData :: "string \<Rightarrow> BulkDataConfig \<Rightarrow> goerr + BulkDataConfig" where
  "validateBulkData source cfg =
     (if bd_Root cfg \<noteq> ''InternetGatewayDevice'' \<and> bd_Root cfg \<noteq> ''Device'' then
        (if bd_Root cfg = '''' then Inl (Errorf ''%s: bulkData.root is required'' [ArgS source])
         else Inl (Errorf ''%s: bulkData.root %q is not a data model root'' [ArgS source, ArgS (bd_Root cfg)]))
      else if bd_Protocols cfg = '''' then Inl (Errorf ''%s: bulkData.protocols is required'' [ArgS source])
      else if bd_EncodingTypes cfg = '''' then Inl (Errorf ''%s: bulkData.encodingTypes is required'' [ArgS source])
      else if bd_MinReportingInterval cfg < 1 then Inl (Errorf ''%s: bulkData.minReportingInterval must be at least 1'' [ArgS source])
      else if bd_MaxNumberOfProfiles cfg = 0 \<or> bd_MaxNumberOfProfiles cfg < - 1 then
        Inl (Errorf ''%s: bulkData.maxNumberOfProfiles must be -1 or a positive count'' [ArgS source])
      else if bd_MaxNumberOfParameterReferences cfg = 0 \<or> bd_MaxNumberOfParameterReferences cfg < - 1 then
        Inl (Errorf ''%s: bulkData.maxNumberOfParameterReferences must be -1 or a positive count'' [ArgS source])
      else Inr cfg)"

end
