(* ===== verification/ProfileBlocks.thy ===== *)
theory ProfileBlocks
  imports FleetPools SoftwareModules BulkDataModel
begin

text \<open>
  The blocks of a profile next to its parameter rows (\<^verbatim>\<open>mergeFiles\<close> and the loaders in \<^verbatim>\<open>profile.go\<close>,
  \<^verbatim>\<open>diagnostic.go\<close>, \<^verbatim>\<open>linkfault.go\<close> and \<^verbatim>\<open>app.go\<close> of \<^verbatim>\<open>src/internal/paramtree\<close>).  A decoded file is a record;
  a block that is not declared is \<open>None\<close>, an absent list or text is empty, and a map is an association
  list.  \<^verbatim>\<open>time.ParseDuration\<close> is an argument, as in the checks of a generator, and a message leaves out
  the offending duration it prints back.  Where the source walks a
  map only to find an error, the model walks it in the order of the source text.
\<close>

section \<open>Configurations\<close>

record DeviceIDPaths =
  di_Manufacturer :: string
  di_OUI :: string
  di_ProductClass :: string
  di_SerialNumber :: string

record FirmwareConfig =
  fw_VersionPath :: string
  fw_ApplyDelay :: int
  fw_Fetch :: bool

record TransferFault =
  tf_Code :: int
  tf_String :: string

record TransferConfig =
  tr_DefaultDelay :: int
  tr_Faults :: "(string \<times> TransferFault) list"
  tr_Firmware :: "FirmwareConfig option"

record ConnectionRequestConfig =
  cr_Scheme :: string
  cr_Realm :: string
  cr_ThrottleWindow :: int
  cr_UsernameParameter :: string
  cr_PasswordParameter :: string

record PeriodicInformPaths =
  pi_Interval :: string
  pi_Enable :: string
  pi_Time :: string

record ACSCredentialPaths =
  ac_Username :: string
  ac_Password :: string

record EventScheduleConfig =
  es_RebootDelay :: int
  es_FactoryResetDelay :: int
  es_BootDelay :: int
  es_BootRamp :: int

record LinkFaultConfig =
  lf_Interface :: string
  lf_Duration :: int
  lf_From :: int
  lf_To :: int
  lf_Reboot :: bool

record DiagnosticConfig =
  dg_StatePath :: string
  dg_Trigger :: string
  dg_Complete :: string
  dg_Duration :: int
  dg_CountPath :: string
  dg_ResultCount :: int

record FleetConfig =
  fl_Count :: int
  fl_Offset :: int
  fl_SerialPattern :: string
  fl_Pools :: "(string \<times> FleetPool) list"

definition PeriodicInformPaths_IsZero :: "PeriodicInformPaths \<Rightarrow> bool" where
  "PeriodicInformPaths_IsZero p \<longleftrightarrow> pi_Interval p = '''' \<and> pi_Enable p = ''''"

definition ACSCredentialPaths_IsZero :: "ACSCredentialPaths \<Rightarrow> bool" where
  "ACSCredentialPaths_IsZero a \<longleftrightarrow> ac_Username a = '''' \<and> ac_Password a = ''''"

definition EventScheduleConfig_IsZero :: "EventScheduleConfig \<Rightarrow> bool" where
  "EventScheduleConfig_IsZero e \<longleftrightarrow> es_RebootDelay e = 0 \<and> es_FactoryResetDelay e = 0 \<and> es_BootDelay e = 0 \<and> es_BootRamp e = 0"

definition RequiresDaemon :: "EventScheduleConfig \<Rightarrow> bool" where
  "RequiresDaemon e \<longleftrightarrow> es_RebootDelay e > 0 \<or> es_FactoryResetDelay e > 0"

definition DeviceIDPaths_IsZero :: "DeviceIDPaths \<Rightarrow> bool" where
  "DeviceIDPaths_IsZero d \<longleftrightarrow> di_Manufacturer d = '''' \<and> di_OUI d = '''' \<and> di_ProductClass d = '''' \<and> di_SerialNumber d = ''''"

definition Applies :: "LinkFaultConfig \<Rightarrow> int \<Rightarrow> bool" where
  "Applies c inst \<longleftrightarrow> (if lf_From c = 0 \<and> lf_To c = 0 then True else lf_From c \<le> inst \<and> inst \<le> lf_To c)"

definition StatusPath :: "LinkFaultConfig \<Rightarrow> string" where
  "StatusPath c = lf_Interface c @ ''Status''"

definition LastChangePath :: "LinkFaultConfig \<Rightarrow> string" where
  "LastChangePath c = lf_Interface c @ ''LastChange''"

section \<open>The decoded file\<close>

record rawTransfer =
  rt_DefaultDelay :: string
  rt_Faults :: "(string \<times> TransferFault) list"
  rt_Firmware :: "(string \<times> string \<times> bool option) option"

record rawConnectionRequest =
  rc_Scheme :: string
  rc_Realm :: string
  rc_ThrottleWindow :: string
  rc_UsernameParameter :: string
  rc_PasswordParameter :: string

record rawEventSchedule =
  re_RebootDelay :: string
  re_FactoryResetDelay :: string
  re_BootDelay :: string
  re_BootRamp :: string

record rawLinkFault =
  rl_Interface :: string
  rl_Duration :: string
  rl_Instances :: string
  rl_Reboot :: bool

record rawDiagnostic =
  rd_StatePath :: string
  rd_Trigger :: string
  rd_Complete :: string
  rd_Duration :: string
  rd_CountPath :: string
  rd_ResultCount :: int

record rawSoftwareModules =
  rs_Path :: string
  rs_InstallDelay :: string
  rs_UninstallDelay :: string
  rs_Faults :: "(string \<times> DUFault) list"

record rawInformParameters =
  ri_Bootstrap :: "string list option"
  ri_Boot :: "string list option"
  ri_Periodic :: "string list option"
  ri_ValueChange :: "string list option"
  ri_ConnectionRequest :: "string list option"
  ri_TransferComplete :: "string list option"

record profile =
  pr_Parameters :: "rawProfileParam list"
  pr_Objects :: "rawObject list"
  pr_Groups :: "rawGroup list"
  pr_InformParameters :: "rawInformParameters option"
  pr_DeviceIDPaths :: "DeviceIDPaths option"
  pr_Transfer :: "rawTransfer option"
  pr_ConnectionRequest :: "rawConnectionRequest option"
  pr_PeriodicInformPaths :: "PeriodicInformPaths option"
  pr_ACSCredentialPaths :: "ACSCredentialPaths option"
  pr_DeferredParameters :: "string list"
  pr_Generators :: "rawGenerator list"
  pr_Fleet :: "FleetConfig option"
  pr_EventSchedule :: "rawEventSchedule option"
  pr_Diagnostics :: "rawDiagnostic list"
  pr_SoftwareModules :: "rawSoftwareModules option"
  pr_BulkData :: "BulkDataConfig option"
  pr_Faults :: "rawLinkFault option option"
  pr_App :: "App option"

record loadedFile =
  ld_path :: string
  ld_prof :: profile

record mergedConfig =
  mc_InformParams :: "(string \<times> string list \<times> string) list"
  mc_DeviceIDPaths :: DeviceIDPaths
  mc_Transfer :: TransferConfig
  mc_ConnectionRequest :: ConnectionRequestConfig
  mc_PeriodicInformPaths :: PeriodicInformPaths
  mc_ACSCredentialPaths :: ACSCredentialPaths
  mc_DeferredParameters :: "string list"
  mc_Generators :: "GeneratorConfig list"
  mc_Fleet :: FleetConfig
  mc_EventSchedule :: EventScheduleConfig
  mc_Diagnostics :: "DiagnosticConfig list"
  mc_SoftwareModules :: "SoftwareModulesConfig option"
  mc_LinkFault :: "LinkFaultConfig option"

section \<open>One block at a time\<close>

type_synonym duration_parser = "string \<Rightarrow> goerr + int"

definition loadErr :: "goerr \<Rightarrow> goerr" where
  "loadErr e = Wrap ''paramtree.LoadProfile'' KindInvalidArgument (Some e)"

text \<open>A block of which a profile has at most one: \<open>source\<close> is the file that declared it, empty before.\<close>

fun merge_one ::
  "string \<Rightarrow> (profile \<Rightarrow> 'r option) \<Rightarrow> (string \<Rightarrow> 'r \<Rightarrow> goerr + 'c) \<Rightarrow> loadedFile list \<Rightarrow> string \<times> 'c \<Rightarrow> goerr + string \<times> 'c" where
  "merge_one what block check [] s = Inr s"
| "merge_one what block check (lf # files) s =
     (case block (ld_prof lf) of
        None \<Rightarrow> merge_one what block check files s
      | Some raw \<Rightarrow>
          if fst s \<noteq> '''' then
            Inl (loadErr (Errorf (''%s and %s both declare '' @ what) [ArgS (fst s), ArgS (ld_path lf)]))
          else (case check (ld_path lf) raw of
                  Inl e \<Rightarrow> Inl (loadErr e)
                | Inr c \<Rightarrow> merge_one what block check files (ld_path lf, c)))"

text \<open>The checks on a leaf a block names.\<close>

definition require_leaf :: "string \<Rightarrow> string \<Rightarrow> string \<Rightarrow> Type \<Rightarrow> string \<Rightarrow> Tree \<Rightarrow> goerr option" where
  "require_leaf source field path typ want t =
     (case Get path t of
        Inl e \<Rightarrow> Some (Errorf (''%s: '' @ field @ '' references unknown path %q: %w'') [ArgS source, ArgS path, ArgW e])
      | Inr v \<Rightarrow>
          if VType v \<noteq> typ then
            Some (Errorf (''%s: '' @ field @ '' path %q must be %s, got %s'') [ArgS source, ArgS path, ArgS want, ArgS (VType v)])
          else if \<not> Writable v then Some (Errorf (''%s: '' @ field @ '' path %q must be writable'') [ArgS source, ArgS path])
          else None)"

definition require_duration :: "duration_parser \<Rightarrow> string \<Rightarrow> string \<Rightarrow> string \<Rightarrow> goerr + int" where
  "require_duration parse source field raw =
     (case parse raw of
        Inl e \<Rightarrow> Inl (Errorf (''%s: '' @ field @ '' %q: %w'') [ArgS source, ArgS raw, ArgW e])
      | Inr d \<Rightarrow>
          if d < 0 then Inl (Errorf (''%s: '' @ field @ '' must be >= 0'') [ArgS source]) else Inr d)"

definition informEntries :: "rawInformParameters \<Rightarrow> (string \<times> string \<times> string list option) list" where
  "informEntries ip =
     [(''bootstrap'', ''0 BOOTSTRAP'', ri_Bootstrap ip), (''boot'', ''1 BOOT'', ri_Boot ip), (''periodic'', ''2 PERIODIC'', ri_Periodic ip),
      (''valueChange'', ''4 VALUE CHANGE'', ri_ValueChange ip), (''connectionRequest'', ''6 CONNECTION REQUEST'', ri_ConnectionRequest ip),
      (''transferComplete'', ''7 TRANSFER COMPLETE'', ri_TransferComplete ip)]"

text \<open>The aggregate maps an event code to the paths and to the file that declared them.\<close>

fun merge_entries :: "string \<Rightarrow> (string \<times> string \<times> string list option) list \<Rightarrow> (string \<times> string list \<times> string) list \<Rightarrow>
    goerr + (string \<times> string list \<times> string) list" where
  "merge_entries path [] agg = Inr agg"
| "merge_entries path ((key, code, vals) # es) agg =
     (case vals of
        None \<Rightarrow> merge_entries path es agg
      | Some vs \<Rightarrow>
          (case map_of agg code of
             Some (_, prevSrc) \<Rightarrow> Inl (loadErr (Errorf ''%s and %s both declare informParameters.%s'' [ArgS prevSrc, ArgS path, ArgS key]))
           | None \<Rightarrow> merge_entries path es (AList.update code (vs, path) agg)))"

fun merge_informParameters :: "loadedFile list \<Rightarrow> (string \<times> string list \<times> string) list \<Rightarrow> goerr + (string \<times> string list \<times> string) list" where
  "merge_informParameters [] agg = Inr agg"
| "merge_informParameters (lf # files) agg =
     (case pr_InformParameters (ld_prof lf) of
        None \<Rightarrow> merge_informParameters files agg
      | Some ip \<Rightarrow>
          (case merge_entries (ld_path lf) (informEntries ip) agg of
             Inl e \<Rightarrow> Inl e
           | Inr agg' \<Rightarrow> merge_informParameters files agg'))"

definition check_deviceIdPaths :: "Tree \<Rightarrow> string \<Rightarrow> DeviceIDPaths \<Rightarrow> goerr + DeviceIDPaths" where
  "check_deviceIdPaths t source dp =
     (if di_Manufacturer dp = '''' \<or> di_OUI dp = '''' \<or> di_ProductClass dp = '''' \<or> di_SerialNumber dp = '''' then
        Inl (Errorf ''%s: deviceIdPaths must declare manufacturer, oui, productClass, and serialNumber'' [ArgS source])
      else case find (\<lambda>(f, p). is_err (Get p t))
             [(''manufacturer'', di_Manufacturer dp), (''oui'', di_OUI dp), (''productClass'', di_ProductClass dp), (''serialNumber'', di_SerialNumber dp)] of
        Some (f, p) \<Rightarrow>
          (case Get p t of
             Inl e \<Rightarrow> Inl (Errorf ''%s: deviceIdPaths.%s references unknown path %q: %w'' [ArgS source, ArgS f, ArgS p, ArgW e])
           | Inr _ \<Rightarrow> Inr dp)
      | None \<Rightarrow> Inr dp)"

definition defaultFirmwareApplyDelay :: int where
  "defaultFirmwareApplyDelay = 30000000000"

definition validateFirmware :: "duration_parser \<Rightarrow> Tree \<Rightarrow> string \<Rightarrow> string \<times> string \<times> bool option \<Rightarrow> goerr + FirmwareConfig" where
  "validateFirmware parse t source raw =
     (case raw of (versionPath, applyDelay, fetch) \<Rightarrow>
        if versionPath = '''' then
          Inl (Errorf ''%s: transfer.firmware.versionPath is required (no TR-181 / TR-098 default; supply the parameter-tree path explicitly)'' [ArgS source])
        else case Get versionPath t of
          Inl e \<Rightarrow> Inl (Errorf ''%s: transfer.firmware.versionPath references unknown path %q: %w'' [ArgS source, ArgS versionPath, ArgW e])
        | Inr v \<Rightarrow>
            if VType v \<noteq> TypeString then
              Inl (Errorf ''%s: transfer.firmware.versionPath path %q must be %s, got %s'' [ArgS source, ArgS versionPath, ArgS TypeString, ArgS (VType v)])
            else
              (case (if applyDelay = '''' then Inr defaultFirmwareApplyDelay else require_duration parse source ''transfer.firmware.applyDelay'' applyDelay) of
                 Inl e \<Rightarrow> Inl e
               | Inr d \<Rightarrow> Inr \<lparr>fw_VersionPath = versionPath, fw_ApplyDelay = d, fw_Fetch = (case fetch of None \<Rightarrow> True | Some b \<Rightarrow> b)\<rparr>))"

definition check_transfer :: "duration_parser \<Rightarrow> Tree \<Rightarrow> string \<Rightarrow> rawTransfer \<Rightarrow> goerr + TransferConfig" where
  "check_transfer parse t source tr =
     (case (if rt_DefaultDelay tr = '''' then Inr 0 else parse (rt_DefaultDelay tr)) of
        Inl e \<Rightarrow> Inl (Errorf ''%s: transfer.defaultDelay %q: %w'' [ArgS source, ArgS (rt_DefaultDelay tr), ArgW e])
      | Inr d \<Rightarrow>
          (case rt_Firmware tr of
             None \<Rightarrow> Inr \<lparr>tr_DefaultDelay = d, tr_Faults = rt_Faults tr, tr_Firmware = None\<rparr>
           | Some raw \<Rightarrow>
               (case validateFirmware parse t source raw of
                  Inl e \<Rightarrow> Inl e
                | Inr fw \<Rightarrow> Inr \<lparr>tr_DefaultDelay = d, tr_Faults = rt_Faults tr, tr_Firmware = Some fw\<rparr>)))"

definition ToLower :: "string \<Rightarrow> string" where
  "ToLower s = map to_lower s"

text \<open>The credentials a connection request is checked against must be writable strings of the tree.\<close>

definition check_cr_auth :: "Tree \<Rightarrow> string \<Rightarrow> ConnectionRequestConfig \<Rightarrow> goerr option" where
  "check_cr_auth t source cfg =
     (if cr_Realm cfg = '''' then Some (Errorf ''%s: connectionRequest.realm is required when scheme=%q'' [ArgS source, ArgS (cr_Scheme cfg)])
      else if cr_UsernameParameter cfg = '''' then
        Some (Errorf ''%s: connectionRequest.usernameParameter is required when scheme=%q (no TR-181 default; supply the parameter-tree path explicitly)''
                [ArgS source, ArgS (cr_Scheme cfg)])
      else if cr_PasswordParameter cfg = '''' then
        Some (Errorf ''%s: connectionRequest.passwordParameter is required when scheme=%q (no TR-181 default; supply the parameter-tree path explicitly)''
                [ArgS source, ArgS (cr_Scheme cfg)])
      else case require_leaf source ''connectionRequest.usernameParameter'' (cr_UsernameParameter cfg) TypeString ''a string leaf'' t of
        Some e \<Rightarrow> Some e
      | None \<Rightarrow> require_leaf source ''connectionRequest.passwordParameter'' (cr_PasswordParameter cfg) TypeString ''a string leaf'' t)"

definition check_connectionRequest :: "duration_parser \<Rightarrow> Tree \<Rightarrow> string \<Rightarrow> rawConnectionRequest \<Rightarrow> goerr + ConnectionRequestConfig" where
  "check_connectionRequest parse t source raw =
     (let scheme = ToLower (TrimSpace (rc_Scheme raw)) in
      if scheme \<noteq> '''' \<and> scheme \<noteq> ''basic'' \<and> scheme \<noteq> ''digest'' then
        Inl (Errorf ''%s: connectionRequest.scheme %q unsupported (want basic|digest|empty)'' [ArgS source, ArgS (rc_Scheme raw)])
      else case (if rc_ThrottleWindow raw = '''' then Inr 0 else require_duration parse source ''connectionRequest.throttleWindow'' (rc_ThrottleWindow raw)) of
        Inl e \<Rightarrow> Inl e
      | Inr d \<Rightarrow>
          (let cfg = \<lparr>cr_Scheme = scheme, cr_Realm = rc_Realm raw, cr_ThrottleWindow = d,
                      cr_UsernameParameter = rc_UsernameParameter raw, cr_PasswordParameter = rc_PasswordParameter raw\<rparr>
           in if scheme = '''' then Inr cfg
              else (case check_cr_auth t source cfg of Some e \<Rightarrow> Inl e | None \<Rightarrow> Inr cfg)))"

definition check_periodicInformPaths :: "Tree \<Rightarrow> string \<Rightarrow> PeriodicInformPaths \<Rightarrow> goerr + PeriodicInformPaths" where
  "check_periodicInformPaths t source raw =
     (if pi_Interval raw = '''' \<or> pi_Enable raw = '''' then
        Inl (Errorf ''%s: periodicInformPaths must declare both interval and enable (no TR-181 default; supply both parameter-tree paths explicitly)'' [ArgS source])
      else case require_leaf source ''periodicInformPaths.interval'' (pi_Interval raw) TypeUnsignedInt TypeUnsignedInt t of
        Some e \<Rightarrow> Inl e
      | None \<Rightarrow>
          (case require_leaf source ''periodicInformPaths.enable'' (pi_Enable raw) TypeBoolean TypeBoolean t of
             Some e \<Rightarrow> Inl e
           | None \<Rightarrow>
               if pi_Time raw = '''' then Inr raw
               else (case require_leaf source ''periodicInformPaths.time'' (pi_Time raw) TypeDateTime TypeDateTime t of
                       Some e \<Rightarrow> Inl e
                     | None \<Rightarrow> Inr raw)))"

definition check_acsCredentialPaths :: "Tree \<Rightarrow> string \<Rightarrow> ACSCredentialPaths \<Rightarrow> goerr + ACSCredentialPaths" where
  "check_acsCredentialPaths t source raw =
     (if ac_Username raw = '''' \<or> ac_Password raw = '''' then
        Inl (Errorf ''%s: acsCredentialPaths must declare both username and password'' [ArgS source])
      else case require_leaf source ''acsCredentialPaths.username'' (ac_Username raw) TypeString TypeString t of
        Some e \<Rightarrow> Inl e
      | None \<Rightarrow>
          (case require_leaf source ''acsCredentialPaths.password'' (ac_Password raw) TypeString TypeString t of
             Some e \<Rightarrow> Inl e
           | None \<Rightarrow> Inr raw))"

fun merge_paths :: "Tree \<Rightarrow> string \<Rightarrow> string list \<Rightarrow> string list \<Rightarrow> goerr + string list" where
  "merge_paths t source [] deferred = Inr deferred"
| "merge_paths t source (path # paths) deferred =
     (case Get path t of
        Inl e \<Rightarrow> Inl (loadErr (Errorf ''%s: deferredParameters references unknown path %q: %w'' [ArgS source, ArgS path, ArgW e]))
      | Inr v \<Rightarrow>
          if \<not> Writable v then Inl (loadErr (Errorf ''%s: deferredParameters path %q must be writable'' [ArgS source, ArgS path]))
          else merge_paths t source paths (if path \<in> set deferred then deferred else deferred @ [path]))"

fun merge_deferredParameters :: "Tree \<Rightarrow> loadedFile list \<Rightarrow> string list \<Rightarrow> goerr + string list" where
  "merge_deferredParameters t [] deferred = Inr deferred"
| "merge_deferredParameters t (lf # files) deferred =
     (case merge_paths t (ld_path lf) (pr_DeferredParameters (ld_prof lf)) deferred of
        Inl e \<Rightarrow> Inl e
      | Inr deferred' \<Rightarrow> merge_deferredParameters t files deferred')"

definition opt_duration :: "duration_parser \<Rightarrow> string \<Rightarrow> string \<Rightarrow> string \<Rightarrow> int \<Rightarrow> goerr + int" where
  "opt_duration parse source field raw dflt = (if raw = '''' then Inr dflt else require_duration parse source field raw)"

definition check_eventSchedule :: "duration_parser \<Rightarrow> string \<Rightarrow> rawEventSchedule \<Rightarrow> goerr + EventScheduleConfig" where
  "check_eventSchedule parse source raw =
     (case opt_duration parse source ''eventSchedule.rebootDelay'' (re_RebootDelay raw) 0 of
        Inl e \<Rightarrow> Inl e
      | Inr reboot \<Rightarrow>
          (case opt_duration parse source ''eventSchedule.factoryResetDelay'' (re_FactoryResetDelay raw) 0 of
             Inl e \<Rightarrow> Inl e
           | Inr reset \<Rightarrow>
               (case opt_duration parse source ''eventSchedule.bootDelay'' (re_BootDelay raw) 0 of
                  Inl e \<Rightarrow> Inl e
                | Inr boot \<Rightarrow>
                    (case opt_duration parse source ''eventSchedule.bootRamp'' (re_BootRamp raw) 0 of
                       Inl e \<Rightarrow> Inl e
                     | Inr ramp \<Rightarrow> Inr \<lparr>es_RebootDelay = reboot, es_FactoryResetDelay = reset, es_BootDelay = boot, es_BootRamp = ramp\<rparr>))))"

section \<open>The link fault\<close>

definition parseInstanceBand :: "string \<Rightarrow> goerr + int \<times> int" where
  "parseInstanceBand s0 =
     (let s = TrimSpace s0;
          (lo, hi, found) = (case Cut s CHR ''-'' of None \<Rightarrow> (s, '''', False) | Some (l, h) \<Rightarrow> (l, h, True))
      in case Atoi (TrimSpace lo) of
           None \<Rightarrow> Inl (Errorf ''not a range of instance numbers'' [])
         | Some from' \<Rightarrow>
             (case (if found then Atoi (TrimSpace hi) else Some from') of
                None \<Rightarrow> Inl (Errorf ''not a range of instance numbers'' [])
              | Some to \<Rightarrow>
                  if from' \<le> 0 then Inl (Errorf ''instances start at 1'' [])
                  else if to < from' then Inl (Errorf ''range ends before it starts'' [])
                  else Inr (from', to)))"

definition defaultLinkFaultDuration :: int where
  "defaultLinkFaultDuration = 120000000000"

definition parseLinkFault :: "duration_parser \<Rightarrow> Tree \<Rightarrow> string \<Rightarrow> rawLinkFault \<Rightarrow> goerr + LinkFaultConfig" where
  "parseLinkFault parse t source raw =
     (let where' = source @ '': faults.link''; iface0 = TrimSpace (rl_Interface raw) in
      if iface0 = '''' then Inl (Errorf ''%s: interface is required'' [ArgS where'])
      else
        (let iface = (if HasSuffix iface0 ''.'' then iface0 else iface0 @ ''.'');
             cfg = \<lparr>lf_Interface = iface, lf_Duration = defaultLinkFaultDuration, lf_From = 0, lf_To = 0, lf_Reboot = rl_Reboot raw\<rparr>
         in case Get (StatusPath cfg) t of
              Inl e \<Rightarrow> Inl (Errorf ''%s: interface %q has no Status leaf: %w'' [ArgS where', ArgS iface, ArgW e])
            | Inr _ \<Rightarrow>
                (case (if rl_Duration raw = '''' then Inr defaultLinkFaultDuration else parse (rl_Duration raw)) of
                   Inl e \<Rightarrow> Inl (Errorf ''%s: duration %q: %w'' [ArgS where', ArgS (rl_Duration raw), ArgW e])
                 | Inr d \<Rightarrow>
                     if d \<le> 0 then Inl (Errorf ''%s: duration must be positive'' [ArgS where'])
                     else if rl_Instances raw = '''' then Inr (cfg\<lparr>lf_Duration := d\<rparr>)
                     else (case parseInstanceBand (rl_Instances raw) of
                             Inl e \<Rightarrow> Inl (Errorf ''%s: instances %q: %w'' [ArgS where', ArgS (rl_Instances raw), ArgW e])
                           | Inr (from', to) \<Rightarrow> Inr (cfg\<lparr>lf_Duration := d, lf_From := from', lf_To := to\<rparr>)))))"

definition link_block :: "profile \<Rightarrow> rawLinkFault option" where
  "link_block p = (case pr_Faults p of None \<Rightarrow> None | Some link \<Rightarrow> link)"

section \<open>Diagnostics and generators\<close>

definition parseDiagnostic :: "duration_parser \<Rightarrow> Tree \<Rightarrow> string \<Rightarrow> rawDiagnostic \<Rightarrow> goerr + DiagnosticConfig" where
  "parseDiagnostic parse t where' raw =
     (if rd_StatePath raw = '''' then Inl (Errorf ''%s: statePath is required'' [ArgS where'])
      else case Get (rd_StatePath raw) t of
        Inl e \<Rightarrow> Inl (Errorf ''%s: statePath %q: %w'' [ArgS where', ArgS (rd_StatePath raw), ArgW e])
      | Inr _ \<Rightarrow>
          (let trigger = (if rd_Trigger raw = '''' then ''Requested'' else rd_Trigger raw);
               complete = (if rd_Complete raw = '''' then ''Complete'' else rd_Complete raw)
           in if trigger = complete then
                Inl (Errorf ''%s: trigger and complete are both %q, so a run could never be observed to finish'' [ArgS where', ArgS trigger])
              else case (if rd_Duration raw = '''' then Inr 5000000000 else parse (rd_Duration raw)) of
                Inl e \<Rightarrow> Inl (Errorf ''%s: duration %q: %w'' [ArgS where', ArgS (rd_Duration raw), ArgW e])
              | Inr d \<Rightarrow>
                  if d < 0 then Inl (Errorf ''%s: duration must not be negative'' [ArgS where'])
                  else
                    (case (if rd_CountPath raw = '''' then None
                           else case Get (rd_CountPath raw) t of
                             Inl e \<Rightarrow> Some (Errorf ''%s: countPath %q: %w'' [ArgS where', ArgS (rd_CountPath raw), ArgW e])
                           | Inr _ \<Rightarrow>
                               if rd_ResultCount raw < 0 then
                                 Some (Errorf ''%s: resultCount must not be negative, got %d'' [ArgS where', ArgI (rd_ResultCount raw)])
                               else None) of
                       Some e \<Rightarrow> Inl e
                     | None \<Rightarrow> Inr \<lparr>dg_StatePath = rd_StatePath raw, dg_Trigger = trigger, dg_Complete = complete, dg_Duration = d,
                                    dg_CountPath = rd_CountPath raw, dg_ResultCount = rd_ResultCount raw\<rparr>)))"

text \<open>The generators accepted so far, with the file that declared the path of each.\<close>

type_synonym 'c named = "'c list \<times> (string \<times> string) list"

fun merge_generators :: "duration_parser \<Rightarrow> Tree \<Rightarrow> string \<Rightarrow> nat \<Rightarrow> rawGenerator list \<Rightarrow> GeneratorConfig named \<Rightarrow> goerr + GeneratorConfig named" where
  "merge_generators parse t source i [] s = Inr s"
| "merge_generators parse t source i (raw # raws) s =
     (let where' = Sprintf ''%s: generators[%d] (path=%q)'' [source, show_nat i, rg_Path raw] in
      if rg_Path raw = '''' then Inl (loadErr (Errorf ''%s: path is required'' [ArgS where']))
      else case map_of (snd s) (rg_Path raw) of
        Some prevSrc \<Rightarrow> Inl (loadErr (Errorf ''%s: duplicate generator path; already declared in %s'' [ArgS where', ArgS prevSrc]))
      | None \<Rightarrow>
          (case validateGenerator parse t raw of
             Inl e \<Rightarrow> Inl (loadErr e)
           | Inr gen \<Rightarrow> merge_generators parse t source (Suc i) raws (fst s @ [gen], (rg_Path raw, source) # snd s)))"

fun merge_diagnostics :: "duration_parser \<Rightarrow> Tree \<Rightarrow> string \<Rightarrow> rawDiagnostic list \<Rightarrow> DiagnosticConfig named \<Rightarrow> goerr + DiagnosticConfig named" where
  "merge_diagnostics parse t source [] s = Inr s"
| "merge_diagnostics parse t source (raw # raws) s =
     (let where' = Sprintf ''%s: diagnostic %q'' [source, rd_StatePath raw] in
      case map_of (snd s) (rd_StatePath raw) of
        Some prevSrc \<Rightarrow> Inl (loadErr (Errorf ''%s: duplicate diagnostic statePath; already declared in %s'' [ArgS where', ArgS prevSrc]))
      | None \<Rightarrow>
          (case parseDiagnostic parse t where' raw of
             Inl e \<Rightarrow> Inl (loadErr e)
           | Inr diag \<Rightarrow> merge_diagnostics parse t source raws (fst s @ [diag], (rd_StatePath raw, source) # snd s)))"

fun merge_animations :: "duration_parser \<Rightarrow> Tree \<Rightarrow> loadedFile list \<Rightarrow> GeneratorConfig named \<times> DiagnosticConfig named \<Rightarrow>
    goerr + GeneratorConfig named \<times> DiagnosticConfig named" where
  "merge_animations parse t [] s = Inr s"
| "merge_animations parse t (lf # files) s =
     (case merge_generators parse t (ld_path lf) 0 (pr_Generators (ld_prof lf)) (fst s) of
        Inl e \<Rightarrow> Inl e
      | Inr gens \<Rightarrow>
          (case merge_diagnostics parse t (ld_path lf) (pr_Diagnostics (ld_prof lf)) (snd s) of
             Inl e \<Rightarrow> Inl e
           | Inr diags \<Rightarrow> merge_animations parse t files (gens, diags)))"

definition inline_generator :: "rawInlineGenerator \<Rightarrow> string \<Rightarrow> rawGenerator" where
  "inline_generator ig p =
     \<lparr>rg_Path = p, rg_Type = ig_Type ig, rg_Interval = ig_Interval ig, rg_Min = ig_Min ig, rg_Max = ig_Max ig, rg_Step = ig_Step ig,
      rg_Jitter = ig_Jitter ig, rg_StepMax = ig_StepMax ig, rg_Values = ig_Values ig, rg_Mode = ig_Mode ig\<rparr>"

fun merge_inline_paths :: "duration_parser \<Rightarrow> Tree \<Rightarrow> string \<Rightarrow> rawInlineGenerator \<Rightarrow> string list \<Rightarrow> GeneratorConfig named \<Rightarrow> goerr + GeneratorConfig named" where
  "merge_inline_paths parse t source ig [] s = Inr s"
| "merge_inline_paths parse t source ig (p # ps) s =
     (let where' = Sprintf ''%s: parameter (path=%q).generator'' [source, p] in
      case map_of (snd s) p of
        Some prevSrc \<Rightarrow> Inl (loadErr (Errorf ''%s: duplicate generator path; already declared in %s'' [ArgS where', ArgS prevSrc]))
      | None \<Rightarrow>
          (case validateGenerator parse t (inline_generator ig p) of
             Inl e \<Rightarrow> Inl (loadErr e)
           | Inr gen \<Rightarrow> merge_inline_paths parse t source ig ps (fst s @ [gen], (p, source) # snd s)))"

fun merge_inline :: "duration_parser \<Rightarrow> Tree \<Rightarrow> (rawProfileParam \<times> string) list \<Rightarrow> GeneratorConfig named \<Rightarrow> goerr + GeneratorConfig named" where
  "merge_inline parse t [] s = Inr s"
| "merge_inline parse t ((raw, source) # rs) s =
     (case rp_Generator raw of
        None \<Rightarrow> merge_inline parse t rs s
      | Some ig \<Rightarrow>
          (let instances = (case rp_Instances raw of Some n \<Rightarrow> n | None \<Rightarrow> 0) in
           if Contains (rp_Path raw) ''{i}'' \<and> instances < 1 then
             Inl (loadErr (Errorf ''%s: parameter (path=%q): inline generator on {i} path requires instances >= 1'' [ArgS source, ArgS (rp_Path raw)]))
           else
             (let paths = (if Contains (rp_Path raw) ''{i}'' then map (\<lambda>j. ReplaceAll (rp_Path raw) ''{i}'' (Itoa j)) [1..instances] else [rp_Path raw])
              in case merge_inline_paths parse t source ig paths s of
                   Inl e \<Rightarrow> Inl e
                 | Inr s' \<Rightarrow> merge_inline parse t rs s')))"

section \<open>The fleet\<close>

fun check_pools :: "string \<Rightarrow> (string \<times> FleetPool) list \<Rightarrow> goerr + (string \<times> FleetPool) list" where
  "check_pools source [] = Inr []"
| "check_pools source ((name, raw) # pools) =
     (case validateFleetPool name raw of
        Inl e \<Rightarrow> Inl (Errorf ''%s: fleet.pools[%q]: %w'' [ArgS source, ArgS name, ArgW e])
      | Inr pool \<Rightarrow>
          (case check_pools source pools of Inl e \<Rightarrow> Inl e | Inr rest \<Rightarrow> Inr ((name, pool) # rest)))"

definition check_fleet :: "string \<Rightarrow> FleetConfig \<Rightarrow> goerr + FleetConfig" where
  "check_fleet source raw =
     (if fl_Count raw < 0 then Inl (Errorf ''%s: fleet.count must be >= 0, got %d'' [ArgS source, ArgI (fl_Count raw)])
      else if fl_Offset raw < 0 then Inl (Errorf ''%s: fleet.offset must be >= 0, got %d'' [ArgS source, ArgI (fl_Offset raw)])
      else (case check_pools source (fl_Pools raw) of Inl e \<Rightarrow> Inl e | Inr pools \<Rightarrow> Inr (raw\<lparr>fl_Pools := pools\<rparr>)))"

definition noFleet :: FleetConfig where
  "noFleet = \<lparr>fl_Count = 0, fl_Offset = 0, fl_SerialPattern = '''', fl_Pools = []\<rparr>"

definition merge_fleet :: "loadedFile list \<Rightarrow> goerr + FleetConfig" where
  "merge_fleet files =
     (case merge_one ''fleet'' pr_Fleet check_fleet files ('''', noFleet) of
        Inl e \<Rightarrow> Inl e
      | Inr (source, cfg) \<Rightarrow>
          (let finalCount = (if fl_Count cfg = 0 then 1 else fl_Count cfg) in
           case ValidatePoolCapacity (fl_Pools cfg) (int64 (fl_Offset cfg + finalCount)) of
             Some e \<Rightarrow> Inl (loadErr (Errorf ''%s: %w'' [ArgS source, ArgW e]))
           | None \<Rightarrow> Inr (cfg\<lparr>fl_Count := finalCount,
                               fl_SerialPattern := (if fl_SerialPattern cfg = '''' then ''{base}-{i}'' else fl_SerialPattern cfg)\<rparr>)))"

section \<open>Bulk data and software modules\<close>

fun merge_bulkData :: "loadedFile list \<Rightarrow> string \<Rightarrow> Tree \<Rightarrow> (goerr + unit) \<times> Tree" where
  "merge_bulkData [] bdSource t = (Inr (), t)"
| "merge_bulkData (lf # files) bdSource t =
     (case pr_BulkData (ld_prof lf) of
        None \<Rightarrow> merge_bulkData files bdSource t
      | Some raw \<Rightarrow>
          if bdSource \<noteq> '''' then (Inl (loadErr (Errorf ''%s and %s both declare bulkData'' [ArgS bdSource, ArgS (ld_path lf)])), t)
          else (case validateBulkData (ld_path lf) raw of
                  Inl e \<Rightarrow> (Inl (loadErr e), t)
                | Inr cfg \<Rightarrow>
                    (case MountBulkData t cfg of
                       (Inl e, t') \<Rightarrow> (Inl (loadErr (Errorf ''%s: bulkData: %w'' [ArgS (ld_path lf), ArgW e])), t')
                     | (Inr _, t') \<Rightarrow> merge_bulkData files (ld_path lf) t')))"

definition SoftwareModuleFaultReasons :: "string list" where
  "SoftwareModuleFaultReasons = [''server-unreachable'', ''corrupt'', ''ee-mismatch'', ''resources-exceeded'']"

definition check_modules_tables :: "Tree \<Rightarrow> string \<Rightarrow> string \<Rightarrow> goerr option" where
  "check_modules_tables t source path =
     (case find (\<lambda>tbl. is_err (Children (path @ tbl) t)) [''ExecEnv.'', ''DeploymentUnit.'', ''ExecutionUnit.''] of
        Some tbl \<Rightarrow>
          (case Children (path @ tbl) t of
             Inl e \<Rightarrow> Some (Errorf ''%s: softwareModules.path %q has no %s table: %w'' [ArgS source, ArgS path, ArgS tbl, ArgW e])
           | Inr _ \<Rightarrow> None)
      | None \<Rightarrow>
          (case Children (path @ ''ExecEnv.'') t of
             Inr [] \<Rightarrow> Some (Errorf ''%s: softwareModules.path %q declares no %s{i}. instance; an install needs an execution environment''
                          [ArgS source, ArgS path, ArgS ''ExecEnv.''])
           | _ \<Rightarrow> None))"

definition validateSoftwareModules :: "duration_parser \<Rightarrow> Tree \<Rightarrow> string \<Rightarrow> rawSoftwareModules \<Rightarrow> goerr + SoftwareModulesConfig" where
  "validateSoftwareModules parse t source raw =
     (if rs_Path raw = '''' then
        Inl (Errorf ''%s: softwareModules.path is required (no TR-181 / TR-098 default; name the object explicitly)'' [ArgS source])
      else if \<not> HasSuffix (rs_Path raw) ''.'' then
        Inl (Errorf (''%s: softwareModules.path %q must end with '' @ [CHR 0x27] @ ''.'' @ [CHR 0x27]) [ArgS source, ArgS (rs_Path raw)])
      else case check_modules_tables t source (rs_Path raw) of
        Some e \<Rightarrow> Inl e
      | None \<Rightarrow>
          (case opt_duration parse source ''softwareModules.installDelay'' (rs_InstallDelay raw) 5000000000 of
             Inl e \<Rightarrow> Inl e
           | Inr inst \<Rightarrow>
               (case opt_duration parse source ''softwareModules.uninstallDelay'' (rs_UninstallDelay raw) 1000000000 of
                  Inl e \<Rightarrow> Inl e
                | Inr uninst \<Rightarrow>
                    (case find (\<lambda>(name, f). fa_Reason f \<notin> set SoftwareModuleFaultReasons) (rs_Faults raw) of
                       Some (name, f) \<Rightarrow>
                         Inl (Errorf ''%s: softwareModules.faults[%q].reason %q is not one of %s''
                                [ArgS source, ArgS name, ArgS (fa_Reason f), ArgS ''server-unreachable, corrupt, ee-mismatch, resources-exceeded''])
                     | None \<Rightarrow> Inr \<lparr>sm_Path = rs_Path raw, sm_InstallDelay = inst, sm_UninstallDelay = uninst, sm_Faults = rs_Faults raw\<rparr>))))"

section \<open>The merged profile\<close>

text \<open>Every step of \<^verbatim>\<open>mergeFiles\<close> ends the load at its first error.\<close>

definition and_then :: "goerr + 'a \<Rightarrow> ('a \<Rightarrow> goerr + 'b) \<Rightarrow> goerr + 'b" where
  "and_then r f = (case r of Inl e \<Rightarrow> Inl e | Inr x \<Rightarrow> f x)"

fun all_rows :: "loadedFile list \<Rightarrow> goerr + (rawProfileParam \<times> string) list" where
  "all_rows [] = Inr []"
| "all_rows (lf # files) =
     and_then (case expandObjects (pr_Objects (ld_prof lf)) (ld_path lf) of Inl e \<Rightarrow> Inl (loadErr e) | Inr rows \<Rightarrow> Inr rows) (\<lambda>expanded.
     and_then (case expandGroups (pr_Groups (ld_prof lf)) (ld_path lf) of Inl e \<Rightarrow> Inl (loadErr e) | Inr rows \<Rightarrow> Inr rows) (\<lambda>expandedG.
     and_then (all_rows files) (\<lambda>rest.
       Inr (map (\<lambda>raw. (raw, ld_path lf)) (pr_Parameters (ld_prof lf) @ expanded @ expandedG) @ rest))))"

definition merge_blocks :: "duration_parser \<Rightarrow> Tree \<Rightarrow> loadedFile list \<Rightarrow> (rawProfileParam \<times> string) list \<Rightarrow> goerr + mergedConfig" where
  "merge_blocks parse t files allRaw =
     and_then (merge_informParameters files []) (\<lambda>infParams.
     and_then (merge_one ''deviceIdPaths'' pr_DeviceIDPaths (check_deviceIdPaths t) files
                 ('''', \<lparr>di_Manufacturer = '''', di_OUI = '''', di_ProductClass = '''', di_SerialNumber = ''''\<rparr>)) (\<lambda>devIDPaths.
     and_then (merge_one ''transfer'' pr_Transfer (check_transfer parse t) files
                 ('''', \<lparr>tr_DefaultDelay = 0, tr_Faults = [], tr_Firmware = None\<rparr>)) (\<lambda>transferCfg.
     and_then (merge_one ''connectionRequest'' pr_ConnectionRequest (check_connectionRequest parse t) files
                 ('''', \<lparr>cr_Scheme = '''', cr_Realm = '''', cr_ThrottleWindow = 0, cr_UsernameParameter = '''', cr_PasswordParameter = ''''\<rparr>)) (\<lambda>crCfg.
     and_then (merge_one ''periodicInformPaths'' pr_PeriodicInformPaths (check_periodicInformPaths t) files
                 ('''', \<lparr>pi_Interval = '''', pi_Enable = '''', pi_Time = ''''\<rparr>)) (\<lambda>periodicCfg.
     and_then (merge_one ''acsCredentialPaths'' pr_ACSCredentialPaths (check_acsCredentialPaths t) files
                 ('''', \<lparr>ac_Username = '''', ac_Password = ''''\<rparr>)) (\<lambda>acsCredCfg.
     and_then (merge_deferredParameters t files []) (\<lambda>deferred.
     and_then (merge_one ''eventSchedule'' pr_EventSchedule (check_eventSchedule parse) files
                 ('''', \<lparr>es_RebootDelay = 0, es_FactoryResetDelay = 0, es_BootDelay = 0, es_BootRamp = 0\<rparr>)) (\<lambda>eventScheduleCfg.
     and_then (merge_one ''faults.link'' link_block (\<lambda>source raw. case parseLinkFault parse t source raw of Inl e \<Rightarrow> Inl e | Inr c \<Rightarrow> Inr (Some c)) files
                 ('''', None)) (\<lambda>linkFault.
     and_then (merge_animations parse t files (([], []), ([], []))) (\<lambda>(generators, diagnostics).
     and_then (merge_inline parse t allRaw generators) (\<lambda>generators'.
     and_then (merge_fleet files) (\<lambda>fleetCfg.
       Inr \<lparr>mc_InformParams = infParams, mc_DeviceIDPaths = snd devIDPaths, mc_Transfer = snd transferCfg, mc_ConnectionRequest = snd crCfg,
            mc_PeriodicInformPaths = snd periodicCfg, mc_ACSCredentialPaths = snd acsCredCfg, mc_DeferredParameters = deferred,
            mc_Generators = fst generators', mc_Fleet = fleetCfg, mc_EventSchedule = snd eventScheduleCfg, mc_Diagnostics = fst diagnostics,
            mc_SoftwareModules = None, mc_LinkFault = snd linkFault\<rparr>))))))))))))"

definition mergeFiles :: "duration_parser \<Rightarrow> Tree \<Rightarrow> loadedFile list \<Rightarrow> (goerr + mergedConfig) \<times> Tree" where
  "mergeFiles parse t files =
     (case all_rows files of
        Inl e \<Rightarrow> (Inl e, t)
      | Inr allRaw \<Rightarrow>
          (case applyRows (map (\<lambda>(raw, source). applyDefaults raw source) allRaw) t of
             (Inl e, t1) \<Rightarrow> (Inl e, t1)
           | (Inr _, t1) \<Rightarrow>
               (case merge_blocks parse t1 files allRaw of
                  Inl e \<Rightarrow> (Inl e, t1)
                | Inr mc \<Rightarrow>
                    (case merge_bulkData files '''' t1 of
                       (Inl e, t2) \<Rightarrow> (Inl e, t2)
                     | (Inr _, t2) \<Rightarrow>
                         (case merge_one ''softwareModules'' pr_SoftwareModules
                                 (\<lambda>source raw. case validateSoftwareModules parse t2 source raw of Inl e \<Rightarrow> Inl e | Inr c \<Rightarrow> Inr (Some c)) files ('''', None) of
                            Inl e \<Rightarrow> (Inl e, t2)
                          | Inr smCfg \<Rightarrow> (Inr (mc\<lparr>mc_SoftwareModules := snd smCfg\<rparr>), t2))))))"

section \<open>The loaders\<close>

definition rejectAppHeader :: "loadedFile list \<Rightarrow> goerr option" where
  "rejectAppHeader files =
     map_option (\<lambda>lf. loadErr (Errorf ''%s: app is an app manifest block; a profile does not declare one'' [ArgS (ld_path lf)]))
       (find (\<lambda>lf. pr_App (ld_prof lf) \<noteq> None) files)"

fun check_event_paths :: "Tree \<Rightarrow> string \<Rightarrow> string \<Rightarrow> string list \<Rightarrow> goerr option" where
  "check_event_paths t code src [] = None"
| "check_event_paths t code src (p # ps) =
     (case Get p t of
        Inl e \<Rightarrow> Some (loadErr (Errorf ''%s: informParameters event %q references unknown path %q: %w'' [ArgS src, ArgS code, ArgS p, ArgW e]))
      | Inr _ \<Rightarrow> check_event_paths t code src ps)"

fun crossCheckInformParameters :: "Tree \<Rightarrow> (string \<times> string list \<times> string) list \<Rightarrow> goerr option" where
  "crossCheckInformParameters t [] = None"
| "crossCheckInformParameters t ((code, paths, src) # agg) =
     (case check_event_paths t code src paths of
        Some e \<Rightarrow> Some e
      | None \<Rightarrow> crossCheckInformParameters t agg)"

record Profile =
  P_Tree :: Tree
  P_InformParameters :: "(string \<times> string list) list"
  P_Config :: mergedConfig

text \<open>Both loaders, on the decoded files: one for \<^verbatim>\<open>LoadProfileFromReader\<close>, the sorted files of the directory for
  \<^verbatim>\<open>loadProfileDir\<close>, which refuses a directory without any.  The fields both copy one by one from the merged
  configuration are kept together.\<close>

definition load_files :: "duration_parser \<Rightarrow> loadedFile list \<Rightarrow> goerr + Profile" where
  "load_files parse files =
     (case rejectAppHeader files of
        Some e \<Rightarrow> Inl e
      | None \<Rightarrow>
          (case mergeFiles parse New files of
             (Inl e, _) \<Rightarrow> Inl e
           | (Inr mc, t) \<Rightarrow>
               (case crossCheckInformParameters t (mc_InformParams mc) of
                  Some e \<Rightarrow> Inl e
                | None \<Rightarrow> Inr \<lparr>P_Tree = t, P_InformParameters = map (\<lambda>(code, paths, _). (code, paths)) (mc_InformParams mc), P_Config = mc\<rparr>)))"

definition LoadProfileFromReader :: "duration_parser \<Rightarrow> goerr + profile \<Rightarrow> string \<Rightarrow> goerr + Profile" where
  "LoadProfileFromReader parse decoded path =
     (case decoded of
        Inl e \<Rightarrow> Inl (loadErr (Errorf ''%s: %w'' [ArgS path, ArgW e]))
      | Inr prof \<Rightarrow> load_files parse [\<lparr>ld_path = path, ld_prof = prof\<rparr>])"

fun appNamePattern :: "string \<Rightarrow> bool" where
  "appNamePattern [] = False"
| "appNamePattern (c # cs) = ((is_letter c \<or> is_digit c) \<and> list_all (\<lambda>d. is_letter d \<or> is_digit d \<or> d \<in> set ''._-'') cs)"

definition profile_blocks :: "profile \<Rightarrow> (string \<times> bool) list" where
  "profile_blocks p =
     [(''informParameters'', pr_InformParameters p \<noteq> None), (''deviceIdPaths'', pr_DeviceIDPaths p \<noteq> None), (''transfer'', pr_Transfer p \<noteq> None),
      (''connectionRequest'', pr_ConnectionRequest p \<noteq> None), (''periodicInformPaths'', pr_PeriodicInformPaths p \<noteq> None),
      (''acsCredentialPaths'', pr_ACSCredentialPaths p \<noteq> None), (''deferredParameters'', pr_DeferredParameters p \<noteq> []), (''fleet'', pr_Fleet p \<noteq> None),
      (''eventSchedule'', pr_EventSchedule p \<noteq> None), (''diagnostics'', pr_Diagnostics p \<noteq> []), (''softwareModules'', pr_SoftwareModules p \<noteq> None),
      (''faults'', pr_Faults p \<noteq> None)]"

definition LoadAppManifest :: "duration_parser \<Rightarrow> goerr + profile \<Rightarrow> string \<Rightarrow> goerr + AppManifest" where
  "LoadAppManifest parse decoded source =
     (case decoded of
        Inl e \<Rightarrow> Inl (loadErr (Errorf ''%s: %w'' [ArgS source, ArgW e]))
      | Inr prof \<Rightarrow>
          (let invalid = (\<lambda>cause. Wrap ''paramtree.LoadAppManifest'' KindInvalidArgument (Some cause)) in
           case pr_App prof of
             None \<Rightarrow> Inl (invalid (Errorf ''%s: app block is required in a manifest'' [ArgS source]))
           | Some raw \<Rightarrow>
               if \<not> appNamePattern (app_Name raw) then
                 Inl (invalid (Errorf ''%s: app.name %q must match %s'' [ArgS source, ArgS (app_Name raw), ArgS ''^[A-Za-z0-9][A-Za-z0-9._-]*$'']))
               else if app_Version raw = '''' \<or> list_ex (\<lambda>c. c \<in> {CHR '' '', CHR 0x09, CHR 0x0A}) (app_Version raw) then
                 Inl (invalid (Errorf ''%s: app.version is required and carries no whitespace'' [ArgS source]))
               else case find snd (profile_blocks prof) of
                 Some (key, _) \<Rightarrow> Inl (invalid (Errorf ''%s: %s is a profile block, not valid in an app manifest'' [ArgS source, ArgS key]))
               | None \<Rightarrow>
                   (case mergeFiles parse New [\<lparr>ld_path = source, ld_prof = prof\<rparr>] of
                      (Inl e, _) \<Rightarrow> Inl e
                    | (Inr mc, t) \<Rightarrow>
                        if (case Children '''' t of Inl _ \<Rightarrow> True | Inr tops \<Rightarrow> tops = []) then
                          Inl (invalid (Errorf ''%s: a manifest declares the data model its execution unit provides; none found'' [ArgS source]))
                        else Inr \<lparr>mf_App = raw\<lparr>app_ExecutionUnit := if app_ExecutionUnit raw = '''' then app_Name raw else app_ExecutionUnit raw\<rparr>,
                                  mf_Tree = t, mf_Generators = mc_Generators mc\<rparr>)))"

end
