(* ===== verification/ProfileProps.thy ===== *)
theory ProfileProps
  imports ProfileBlocks ProfileTree
begin

text \<open>
  What a loaded profile promises: the paths its blocks name are in the tree, with the type and the access
  the rest of the simulator relies on; its generators can be built, one per path; its address pools reach
  every instance of the fleet.
\<close>

section \<open>Reading a merge\<close>

lemma and_then_Inr [simp]: "and_then r f = Inr y \<longleftrightarrow> (\<exists>x. r = Inr x \<and> f x = Inr y)"
  by (cases r) (simp_all add: and_then_def)

definition leaf_in :: "Tree \<Rightarrow> string \<Rightarrow> (Value \<Rightarrow> bool) \<Rightarrow> bool" where
  "leaf_in t path P = (case Get path t of Inr v \<Rightarrow> P v | Inl _ \<Rightarrow> False)"

lemma leaf_in_iff: "leaf_in t path P \<longleftrightarrow> (\<exists>v. Get path t = Inr v \<and> P v)"
  by (simp add: leaf_in_def split: sum.split)

lemma require_leaf_None:
  "require_leaf source field path typ want t = None \<longleftrightarrow> leaf_in t path (\<lambda>v. VType v = typ \<and> Writable v)"
  by (auto simp: require_leaf_def leaf_in_def split: sum.split)

lemma merge_one_Inr:
  "merge_one what block check files s = Inr s' \<Longrightarrow>
     snd s' = snd s \<or> (\<exists>lf \<in> set files. \<exists>raw. block (ld_prof lf) = Some raw \<and> check (ld_path lf) raw = Inr (snd s'))"
proof (induction files arbitrary: s)
  case (Cons lf files)
  show ?case
  proof (cases "block (ld_prof lf)")
    case None
    with Cons.prems Cons.IH [of s] show ?thesis by auto
  next
    case (Some raw)
    with Cons.prems obtain c where c: "check (ld_path lf) raw = Inr c" "merge_one what block check files (ld_path lf, c) = Inr s'"
      by (auto split: if_splits sum.splits)
    from Cons.IH [OF c(2)] c(1) Some show ?thesis by auto
  qed
qed simp

text \<open>A block holds what its check accepted, or it was declared nowhere.\<close>

lemma merge_one_holds:
  assumes "merge_one what block check files ('''', c0) = Inr s" and "P c0"
    and "\<And>source raw c. check source raw = Inr c \<Longrightarrow> P c"
  shows "P (snd s)"
  using merge_one_Inr [OF assms(1)] assms(2,3) by auto

section \<open>References\<close>

definition device_ids_ok :: "Tree \<Rightarrow> DeviceIDPaths \<Rightarrow> bool" where
  "device_ids_ok t d \<longleftrightarrow> DeviceIDPaths_IsZero d \<or>
     list_all (\<lambda>p. leaf_in t p (\<lambda>_. True)) [di_Manufacturer d, di_OUI d, di_ProductClass d, di_SerialNumber d]"

definition firmware_ok :: "Tree \<Rightarrow> TransferConfig \<Rightarrow> bool" where
  "firmware_ok t c \<longleftrightarrow> (case tr_Firmware c of
     None \<Rightarrow> True | Some fw \<Rightarrow> leaf_in t (fw_VersionPath fw) (\<lambda>v. VType v = TypeString) \<and> 0 \<le> fw_ApplyDelay fw)"

definition credentials_ok :: "Tree \<Rightarrow> ConnectionRequestConfig \<Rightarrow> bool" where
  "credentials_ok t c \<longleftrightarrow> cr_Scheme c = '''' \<or>
     (cr_Scheme c \<in> {''basic'', ''digest''} \<and> cr_Realm c \<noteq> ''''
      \<and> list_all (\<lambda>p. leaf_in t p (\<lambda>v. VType v = TypeString \<and> Writable v)) [cr_UsernameParameter c, cr_PasswordParameter c])"

definition periodic_ok :: "Tree \<Rightarrow> PeriodicInformPaths \<Rightarrow> bool" where
  "periodic_ok t c \<longleftrightarrow> PeriodicInformPaths_IsZero c \<or>
     (leaf_in t (pi_Interval c) (\<lambda>v. VType v = TypeUnsignedInt \<and> Writable v)
      \<and> leaf_in t (pi_Enable c) (\<lambda>v. VType v = TypeBoolean \<and> Writable v)
      \<and> (pi_Time c = '''' \<or> leaf_in t (pi_Time c) (\<lambda>v. VType v = TypeDateTime \<and> Writable v)))"

definition acs_ok :: "Tree \<Rightarrow> ACSCredentialPaths \<Rightarrow> bool" where
  "acs_ok t c \<longleftrightarrow> ACSCredentialPaths_IsZero c \<or>
     list_all (\<lambda>p. leaf_in t p (\<lambda>v. VType v = TypeString \<and> Writable v)) [ac_Username c, ac_Password c]"

definition link_ok :: "Tree \<Rightarrow> LinkFaultConfig option \<Rightarrow> bool" where
  "link_ok t c \<longleftrightarrow> (case c of None \<Rightarrow> True | Some lf \<Rightarrow> leaf_in t (StatusPath lf) (\<lambda>_. True) \<and> 0 < lf_Duration lf)"

definition diagnostic_ok :: "Tree \<Rightarrow> DiagnosticConfig \<Rightarrow> bool" where
  "diagnostic_ok t d \<longleftrightarrow> leaf_in t (dg_StatePath d) (\<lambda>_. True) \<and> dg_Trigger d \<noteq> dg_Complete d \<and> 0 \<le> dg_Duration d
     \<and> (dg_CountPath d = '''' \<or> leaf_in t (dg_CountPath d) (\<lambda>_. True) \<and> 0 \<le> dg_ResultCount d)"

definition software_modules_ok :: "Tree \<Rightarrow> SoftwareModulesConfig option \<Rightarrow> bool" where
  "software_modules_ok t c \<longleftrightarrow> (case c of
     None \<Rightarrow> True
   | Some sm \<Rightarrow> list_all (\<lambda>tbl. \<not> is_err (Children (sm_Path sm @ tbl) t)) [''ExecEnv.'', ''DeploymentUnit.'', ''ExecutionUnit.'']
       \<and> Children (sm_Path sm @ ''ExecEnv.'') t \<noteq> Inr [] \<and> 0 \<le> sm_InstallDelay sm \<and> 0 \<le> sm_UninstallDelay sm
       \<and> list_all (\<lambda>(name, f). fa_Reason f \<in> set SoftwareModuleFaultReasons) (sm_Faults sm))"

definition references_resolve :: "Profile \<Rightarrow> bool" where
  "references_resolve p \<longleftrightarrow>
     (let t = P_Tree p; mc = P_Config p in
      list_all (\<lambda>(code, paths). list_all (\<lambda>path. leaf_in t path (\<lambda>_. True)) paths) (P_InformParameters p)
      \<and> device_ids_ok t (mc_DeviceIDPaths mc) \<and> firmware_ok t (mc_Transfer mc) \<and> credentials_ok t (mc_ConnectionRequest mc)
      \<and> periodic_ok t (mc_PeriodicInformPaths mc) \<and> acs_ok t (mc_ACSCredentialPaths mc)
      \<and> list_all (\<lambda>path. leaf_in t path Writable) (mc_DeferredParameters mc)
      \<and> link_ok t (mc_LinkFault mc) \<and> list_all (diagnostic_ok t) (mc_Diagnostics mc)
      \<and> list_all (\<lambda>g. leaf_in t (gc_Path g) (\<lambda>_. True)) (mc_Generators mc) \<and> software_modules_ok t (mc_SoftwareModules mc))"

subsection \<open>Each check gives its part\<close>

lemma check_deviceIdPaths_ok: "check_deviceIdPaths t source dp = Inr c \<Longrightarrow> device_ids_ok t c"
  by (auto simp: check_deviceIdPaths_def device_ids_ok_def leaf_in_iff is_err_def find_None_iff
      split: if_splits option.splits sum.splits dest!: find_SomeD)

lemma require_duration_Inr: "require_duration parse source field raw = Inr d \<Longrightarrow> 0 \<le> d"
  by (auto simp: require_duration_def split: sum.splits if_splits)

lemma opt_duration_Inr: "opt_duration parse source field raw dflt = Inr d \<Longrightarrow> 0 \<le> dflt \<Longrightarrow> 0 \<le> d"
  by (auto simp: opt_duration_def dest: require_duration_Inr split: if_splits)

lemma validateFirmware_ok: "validateFirmware parse t source raw = Inr fw \<Longrightarrow> leaf_in t (fw_VersionPath fw) (\<lambda>v. VType v = TypeString) \<and> 0 \<le> fw_ApplyDelay fw"
  by (auto simp: validateFirmware_def leaf_in_iff defaultFirmwareApplyDelay_def dest: require_duration_Inr split: if_splits sum.splits prod.splits)

lemma check_transfer_ok: "check_transfer parse t source raw = Inr c \<Longrightarrow> firmware_ok t c"
  using validateFirmware_ok by (fastforce simp: check_transfer_def firmware_ok_def split: if_splits sum.splits option.splits)

lemma check_connectionRequest_ok: "check_connectionRequest parse t source raw = Inr c \<Longrightarrow> credentials_ok t c"
  by (auto simp: check_connectionRequest_def check_cr_auth_def credentials_ok_def require_leaf_None Let_def split: if_splits sum.splits option.splits)

lemma check_periodicInformPaths_ok: "check_periodicInformPaths t source raw = Inr c \<Longrightarrow> periodic_ok t c"
  by (auto simp: check_periodicInformPaths_def periodic_ok_def require_leaf_None split: if_splits option.splits)

lemma check_acsCredentialPaths_ok: "check_acsCredentialPaths t source raw = Inr c \<Longrightarrow> acs_ok t c"
  by (auto simp: check_acsCredentialPaths_def acs_ok_def require_leaf_None split: if_splits option.splits)

lemma merge_paths_writable:
  "merge_paths t source paths acc = Inr ps \<Longrightarrow> list_all (\<lambda>p. leaf_in t p Writable) acc \<Longrightarrow> list_all (\<lambda>p. leaf_in t p Writable) ps"
  by (induction t source paths acc rule: merge_paths.induct) (auto simp: leaf_in_iff split: sum.splits if_splits)

lemma merge_deferredParameters_writable:
  "merge_deferredParameters t files acc = Inr ps \<Longrightarrow> list_all (\<lambda>p. leaf_in t p Writable) acc \<Longrightarrow> list_all (\<lambda>p. leaf_in t p Writable) ps"
  by (induction t files acc rule: merge_deferredParameters.induct) (auto dest: merge_paths_writable split: sum.splits)

lemma parseLinkFault_ok: "parseLinkFault parse t source raw = Inr c \<Longrightarrow> link_ok t (Some c)"
  by (auto simp: parseLinkFault_def link_ok_def leaf_in_iff StatusPath_def Let_def split: if_splits sum.splits)

lemma parseDiagnostic_ok: "parseDiagnostic parse t source raw = Inr d \<Longrightarrow> diagnostic_ok t d"
  by (auto simp: parseDiagnostic_def diagnostic_ok_def leaf_in_iff Let_def split: if_splits sum.splits option.splits)

lemma merge_diagnostics_ok:
  "merge_diagnostics parse t source raws s = Inr s' \<Longrightarrow> list_all (diagnostic_ok t) (fst s) \<Longrightarrow> list_all (diagnostic_ok t) (fst s')"
  by (induction parse t source raws s rule: merge_diagnostics.induct)
    (auto simp: Let_def dest: parseDiagnostic_ok split: option.splits sum.splits)

lemma merge_animations_diagnostics:
  "merge_animations parse t files s = Inr s' \<Longrightarrow> list_all (diagnostic_ok t) (fst (snd s)) \<Longrightarrow> list_all (diagnostic_ok t) (fst (snd s'))"
  by (induction parse t files s rule: merge_animations.induct) (auto dest: merge_diagnostics_ok split: sum.splits)

subsection \<open>Generators\<close>

text \<open>The generators accepted so far: their paths are exactly those remembered with their file, each once,
  and each passed the checks of its entry.\<close>

definition generators_ok :: "duration_parser \<Rightarrow> Tree \<Rightarrow> GeneratorConfig named \<Rightarrow> bool" where
  "generators_ok parse t s \<longleftrightarrow> distinct (map gc_Path (fst s)) \<and> set (map gc_Path (fst s)) = fst ` set (snd s)
     \<and> (\<forall>cfg \<in> set (fst s). \<exists>raw. validateGenerator parse t raw = Inr cfg)"

lemma check_kind_path: "check_kind v raw cfg = Inr cfg' \<Longrightarrow> gc_Path cfg' = gc_Path cfg"
  by (auto simp: check_kind_def check_counter_def check_drift_def check_enum_def Let_def split: if_splits sum.splits option.splits)

lemma validateGenerator_path: "validateGenerator parse t raw = Inr cfg \<Longrightarrow> gc_Path cfg = rg_Path raw"
  by (auto simp: validateGenerator_def dest: check_kind_path split: if_splits sum.splits)

lemma validateGenerator_leaf: "validateGenerator parse t raw = Inr cfg \<Longrightarrow> leaf_in t (gc_Path cfg) (\<lambda>_. True)"
  using validateGenerator_path [of parse t raw cfg] by (auto simp: validateGenerator_def leaf_in_iff split: if_splits sum.splits)

lemma generators_ok_step:
  assumes "generators_ok parse t s" and "map_of (snd s) (rg_Path raw) = None" and "validateGenerator parse t raw = Inr gen"
  shows "generators_ok parse t (fst s @ [gen], (rg_Path raw, source) # snd s)"
  using assms validateGenerator_path [OF assms(3)] by (auto simp: generators_ok_def map_of_eq_None_iff)

lemma merge_generators_ok:
  "merge_generators parse t source i raws s = Inr s' \<Longrightarrow> generators_ok parse t s \<Longrightarrow> generators_ok parse t s'"
  by (induction parse t source i raws s rule: merge_generators.induct)
    (auto simp: Let_def intro: generators_ok_step split: if_splits option.splits sum.splits)

lemma merge_animations_generators:
  "merge_animations parse t files s = Inr s' \<Longrightarrow> generators_ok parse t (fst s) \<Longrightarrow> generators_ok parse t (fst s')"
  by (induction parse t files s rule: merge_animations.induct) (auto dest: merge_generators_ok split: sum.splits)

lemma merge_inline_paths_ok:
  "merge_inline_paths parse t source ig ps s = Inr s' \<Longrightarrow> generators_ok parse t s \<Longrightarrow> generators_ok parse t s'"
proof (induction parse t source ig ps s rule: merge_inline_paths.induct)
  case (2 parse t source ig p ps s)
  then obtain gen where g: "map_of (snd s) p = None" "validateGenerator parse t (inline_generator ig p) = Inr gen"
      "merge_inline_paths parse t source ig ps (fst s @ [gen], (p, source) # snd s) = Inr s'"
    by (auto simp: Let_def split: option.splits sum.splits)
  have "rg_Path (inline_generator ig p) = p" by (simp add: inline_generator_def)
  with generators_ok_step [OF 2(3), of "inline_generator ig p" gen source] g
  have "generators_ok parse t (fst s @ [gen], (p, source) # snd s)" by simp
  with 2(1) [OF refl g] show ?case by simp
qed simp

lemma merge_inline_ok: "merge_inline parse t rs s = Inr s' \<Longrightarrow> generators_ok parse t s \<Longrightarrow> generators_ok parse t s'"
proof (induction rs arbitrary: s)
  case (Cons r rs)
  obtain raw source where r: "r = (raw, source)" by (cases r)
  show ?case
  proof (cases "rp_Generator raw")
    case None
    with Cons r show ?thesis by simp
  next
    case (Some ig)
    with Cons.prems(1) obtain ps s1 where "merge_inline_paths parse t source ig ps s = Inr s1" "merge_inline parse t rs s1 = Inr s'"
      unfolding r by (auto simp: Let_def simp del: merge_inline_paths.simps split: if_splits sum.splits)
    with Cons merge_inline_paths_ok show ?thesis by blast
  qed
qed simp

subsection \<open>The blocks together\<close>

definition blocks_resolve :: "Tree \<Rightarrow> mergedConfig \<Rightarrow> bool" where
  "blocks_resolve t mc \<longleftrightarrow>
     device_ids_ok t (mc_DeviceIDPaths mc) \<and> firmware_ok t (mc_Transfer mc) \<and> credentials_ok t (mc_ConnectionRequest mc)
     \<and> periodic_ok t (mc_PeriodicInformPaths mc) \<and> acs_ok t (mc_ACSCredentialPaths mc)
     \<and> list_all (\<lambda>path. leaf_in t path Writable) (mc_DeferredParameters mc)
     \<and> link_ok t (mc_LinkFault mc) \<and> list_all (diagnostic_ok t) (mc_Diagnostics mc)
     \<and> list_all (\<lambda>g. leaf_in t (gc_Path g) (\<lambda>_. True)) (mc_Generators mc)"

lemma generators_ok_leaves: "generators_ok parse t s \<Longrightarrow> list_all (\<lambda>g. leaf_in t (gc_Path g) (\<lambda>_. True)) (fst s)"
  using validateGenerator_leaf by (auto simp: generators_ok_def list_all_iff)

lemma merge_blocks_steps:
  assumes "merge_blocks parse t files allRaw = Inr mc"
  obtains di tr cr pe ac li gd g where
    "merge_one ''deviceIdPaths'' pr_DeviceIDPaths (check_deviceIdPaths t) files
       ('''', \<lparr>di_Manufacturer = '''', di_OUI = '''', di_ProductClass = '''', di_SerialNumber = ''''\<rparr>) = Inr di" "mc_DeviceIDPaths mc = snd di"
    "merge_one ''transfer'' pr_Transfer (check_transfer parse t) files ('''', \<lparr>tr_DefaultDelay = 0, tr_Faults = [], tr_Firmware = None\<rparr>) = Inr tr"
    "mc_Transfer mc = snd tr"
    "merge_one ''connectionRequest'' pr_ConnectionRequest (check_connectionRequest parse t) files
       ('''', \<lparr>cr_Scheme = '''', cr_Realm = '''', cr_ThrottleWindow = 0, cr_UsernameParameter = '''', cr_PasswordParameter = ''''\<rparr>) = Inr cr"
    "mc_ConnectionRequest mc = snd cr"
    "merge_one ''periodicInformPaths'' pr_PeriodicInformPaths (check_periodicInformPaths t) files
       ('''', \<lparr>pi_Interval = '''', pi_Enable = '''', pi_Time = ''''\<rparr>) = Inr pe" "mc_PeriodicInformPaths mc = snd pe"
    "merge_one ''acsCredentialPaths'' pr_ACSCredentialPaths (check_acsCredentialPaths t) files ('''', \<lparr>ac_Username = '''', ac_Password = ''''\<rparr>) = Inr ac"
    "mc_ACSCredentialPaths mc = snd ac"
    "merge_deferredParameters t files [] = Inr (mc_DeferredParameters mc)"
    "merge_one ''faults.link'' link_block (\<lambda>source raw. case parseLinkFault parse t source raw of Inl e \<Rightarrow> Inl e | Inr c \<Rightarrow> Inr (Some c)) files
       ('''', None) = Inr li" "mc_LinkFault mc = snd li"
    "merge_animations parse t files (([], []), ([], [])) = Inr gd" "mc_Diagnostics mc = fst (snd gd)"
    "merge_inline parse t allRaw (fst gd) = Inr g" "mc_Generators mc = fst g"
    "merge_informParameters files [] = Inr (mc_InformParams mc)"
    "merge_fleet files = Inr (mc_Fleet mc)" "mc_SoftwareModules mc = None"
proof -
  from assms show thesis
    unfolding merge_blocks_def and_then_Inr
    apply (elim exE conjE)
    subgoal for ip di tr cr pe ac df es li gd
      apply (cases gd)
      apply (simp only: prod.case and_then_Inr)
      apply (elim exE conjE)
      apply (drule sym [of "Inr _"])
      apply (rule that)
      apply (assumption | simp)+
      done
    done
qed

lemma merge_blocks_generators:
  assumes "merge_blocks parse t files allRaw = Inr mc"
  shows "\<exists>sources. generators_ok parse t (mc_Generators mc, sources)"
proof (rule merge_blocks_steps [OF assms])
  fix gd g
  assume g: "merge_animations parse t files (([], []), ([], [])) = Inr gd" "merge_inline parse t allRaw (fst gd) = Inr g" "mc_Generators mc = fst g"
  have "generators_ok parse t ([], [])" by (simp add: generators_ok_def)
  then have "generators_ok parse t g" using merge_animations_generators [OF g(1)] merge_inline_ok [OF g(2)] by simp
  with g(3) show ?thesis by (metis prod.collapse)
qed

lemma merge_blocks_resolve:
  assumes "merge_blocks parse t files allRaw = Inr mc"
  shows "blocks_resolve t mc"
proof (rule merge_blocks_steps [OF assms], goal_cases)
  case (1 di tr cr pe ac li gd g)
  have "device_ids_ok t (mc_DeviceIDPaths mc)" "firmware_ok t (mc_Transfer mc)" "credentials_ok t (mc_ConnectionRequest mc)"
    using merge_one_holds [OF 1(1), of "device_ids_ok t", OF _ check_deviceIdPaths_ok] merge_one_holds [OF 1(3), of "firmware_ok t", OF _ check_transfer_ok]
      merge_one_holds [OF 1(5), of "credentials_ok t", OF _ check_connectionRequest_ok]
    by (simp_all add: 1 device_ids_ok_def DeviceIDPaths_IsZero_def firmware_ok_def credentials_ok_def)
  moreover have "periodic_ok t (mc_PeriodicInformPaths mc)" "acs_ok t (mc_ACSCredentialPaths mc)"
    using merge_one_holds [OF 1(7), of "periodic_ok t", OF _ check_periodicInformPaths_ok] merge_one_holds [OF 1(9), of "acs_ok t", OF _ check_acsCredentialPaths_ok]
    by (auto simp: 1 periodic_ok_def PeriodicInformPaths_IsZero_def acs_ok_def ACSCredentialPaths_IsZero_def)
  moreover have "list_all (\<lambda>path. leaf_in t path Writable) (mc_DeferredParameters mc)"
    using merge_deferredParameters_writable [OF 1(11)] by simp
  moreover have "link_ok t (mc_LinkFault mc)"
    unfolding 1(13) by (rule merge_one_holds [OF 1(12)]) (auto simp: link_ok_def [of t None] dest: parseLinkFault_ok split: sum.splits)
  moreover have "list_all (diagnostic_ok t) (mc_Diagnostics mc)"
    using merge_animations_diagnostics [OF 1(14)] by (simp add: 1)
  ultimately show ?case
    using merge_blocks_generators [OF assms] generators_ok_leaves by (fastforce simp: blocks_resolve_def)
qed

subsection \<open>Mounting keeps what is there\<close>

definition keeps_leaves :: "Tree \<Rightarrow> Tree \<Rightarrow> bool" where
  "keeps_leaves t t' \<longleftrightarrow> leaf_at (root t) \<subseteq>\<^sub>m leaf_at (root t')"

lemma keeps_leaves_trans: "keeps_leaves t t1 \<Longrightarrow> keeps_leaves t1 t2 \<Longrightarrow> keeps_leaves t t2"
  unfolding keeps_leaves_def by (rule map_le_trans)

lemma keeps_leaves_refl [simp]: "keeps_leaves t t"
  by (simp add: keeps_leaves_def)

lemma keeps_Get: "keeps_leaves t t' \<Longrightarrow> Get p t = Inr v \<Longrightarrow> Get p t' = Inr v"
  by (auto simp: keeps_leaves_def map_le_def Get_Inr dom_def)

lemma keeps_leaf_in: "keeps_leaves t t' \<Longrightarrow> leaf_in t p P \<Longrightarrow> leaf_in t' p P"
  by (auto simp: leaf_in_iff dest: keeps_Get)

lemma mount_at_keeps_leaves: "leaf_at parent q = Some v \<Longrightarrow> leaf_at (snd (mount_at path segs n parent)) q = Some v"
proof (induction path segs n parent arbitrary: q rule: mount_at.induct)
  case (2 path seg n parent)
  then show ?case by (cases q) (auto simp: set_children_reads isLeaf_def leaf_at_def)
next
  case (3 path seg seg2 rest n parent)
  show ?case
  proof (cases "isLeaf parent")
    case False
    define child where "child = (case map_of (children parent) seg of None \<Rightarrow> NewBranch | Some c \<Rightarrow> c)"
    obtain r child' where c: "mount_at path (seg2 # rest) n child = (r, child')" by fastforce
    have p': "snd (mount_at path (seg # seg2 # rest) n parent) = set_children (AList.update seg child' (children parent)) parent"
      using False c by (auto simp: child_def [symmetric] Let_def)
    show ?thesis
    proof (cases q)
      case Nil
      with 3(2) False show ?thesis by (simp add: leaf_at_def isLeaf_def)
    next
      case (Cons s q')
      have "s = seg \<Longrightarrow> leaf_at child q' = Some v" using child_reads [OF False child_def] 3(2) Cons by simp
      with 3(1) [OF False child_def, of q'] have "s = seg \<Longrightarrow> leaf_at child' q' = Some v" by (simp add: c)
      with 3(2) Cons False show ?thesis unfolding p' by (auto simp: set_children_reads)
    qed
  qed (use 3(2) in simp)
qed simp

lemma Mount_keeps_leaves: "keeps_leaves t (snd (Mount path n t))"
  by (auto simp: keeps_leaves_def map_le_def dom_def Mount_def case_prod_unfold Let_def mount_at_keeps_leaves split: sum.split)

lemma AddTable_keeps_leaves: "keeps_leaves t (snd (AddTable path (Some tmpl) t))"
proof (cases "parsePath path")
  case (Inr segs)
  obtain r t' where a: "AddTable path (Some tmpl) t = (r, t')" by fastforce
  then show ?thesis
    using AddTable_spec(2) [OF Inr a] AddTable_fails_same [of path "Some tmpl" t] by (cases r) (simp_all add: keeps_leaves_def)
qed (simp add: AddTable_def)

lemma keeps_leaves_case:
  assumes "keeps_leaves t (snd p)" and "\<And>x t'. keeps_leaves t t' \<Longrightarrow> keeps_leaves t (snd (f x t'))"
  shows "keeps_leaves t (snd (case p of (Inl e, t') \<Rightarrow> (Inl (h e), t') | (Inr x, t') \<Rightarrow> f x t'))"
  using assms by (auto split: prod.split sum.split)

lemma mount_specs_keeps_leaves: "keeps_leaves t (snd (mount_specs base ps t))"
proof (induction ps arbitrary: t)
  case (Cons p ps)
  then show ?case
    using Mount_keeps_leaves [of t "base @ ''.'' @ fst p" "NewLeaf (spec_value p)"]
    by (auto split: prod.splits sum.splits intro: keeps_leaves_trans)
qed simp

lemma MountBulkData_keeps_leaves: "keeps_leaves t (snd (MountBulkData t cfg))"
proof -
  note step = Mount_keeps_leaves mount_specs_keeps_leaves AddTable_keeps_leaves
  note later = step [THEN keeps_leaves_trans [rotated]]
  show ?thesis
    unfolding MountBulkData_def Let_def
    by (auto split: sum.split intro!: keeps_leaves_case step intro: later)
qed

lemma merge_bulkData_keeps_leaves: "keeps_leaves t (snd (merge_bulkData files src t))"
proof (induction files src t rule: merge_bulkData.induct)
  case (2 lf files src t)
  show ?case
  proof (cases "pr_BulkData (ld_prof lf)")
    case (Some raw)
    show ?thesis
    proof (cases "src = '''' \<and> (\<exists>cfg. validateBulkData (ld_path lf) raw = Inr cfg)")
      case True
      then obtain cfg where cfg: "src = ''''" "validateBulkData (ld_path lf) raw = Inr cfg" by blast
      obtain r t1 where m: "MountBulkData t cfg = (r, t1)" by fastforce
      have "keeps_leaves t t1" using MountBulkData_keeps_leaves [of t cfg] m by simp
      moreover have "r = Inr () \<Longrightarrow> keeps_leaves t1 (snd (merge_bulkData files (ld_path lf) t1))"
        using 2(2) [OF Some _ cfg(2)] cfg(1) m by simp
      ultimately show ?thesis using Some cfg m by (cases r) (auto intro: keeps_leaves_trans)
    qed (use Some in \<open>auto split: sum.split\<close>)
  qed (use 2 in simp)
qed simp

lemma blocks_resolve_mono:
  assumes "keeps_leaves t t'" and "blocks_resolve t mc"
  shows "blocks_resolve t' mc"
proof -
  note keep = keeps_leaf_in [OF assms(1)]
  have "device_ids_ok t c \<Longrightarrow> device_ids_ok t' c" "credentials_ok t cr \<Longrightarrow> credentials_ok t' cr" "acs_ok t ac \<Longrightarrow> acs_ok t' ac" for c cr ac
    using keep by (auto simp: device_ids_ok_def credentials_ok_def acs_ok_def)
  moreover have "firmware_ok t fw \<Longrightarrow> firmware_ok t' fw" "link_ok t lf \<Longrightarrow> link_ok t' lf" for fw lf
    using keep by (auto simp: firmware_ok_def link_ok_def split: option.splits)
  moreover have "periodic_ok t pe \<Longrightarrow> periodic_ok t' pe" for pe
    unfolding periodic_ok_def by (blast intro: keep)
  moreover have "diagnostic_ok t d \<Longrightarrow> diagnostic_ok t' d" for d
    unfolding diagnostic_ok_def by (blast intro: keep)
  ultimately show ?thesis
    using assms(2) keep unfolding blocks_resolve_def list_all_iff by blast
qed

lemma validateSoftwareModules_ok: "validateSoftwareModules parse t source raw = Inr c \<Longrightarrow> software_modules_ok t (Some c)"
proof -
  assume v: "validateSoftwareModules parse t source raw = Inr c"
  then have tabs: "check_modules_tables t source (rs_Path raw) = None" and path: "sm_Path c = rs_Path raw"
    and faults: "find (\<lambda>(name, f). fa_Reason f \<notin> set SoftwareModuleFaultReasons) (sm_Faults c) = None"
    and "0 \<le> sm_InstallDelay c" "0 \<le> sm_UninstallDelay c"
    using opt_duration_Inr by (fastforce simp: validateSoftwareModules_def split: if_splits option.splits sum.splits)+
  moreover have "list_all (\<lambda>tbl. \<not> is_err (Children (rs_Path raw @ tbl) t)) [''ExecEnv.'', ''DeploymentUnit.'', ''ExecutionUnit.'']"
      "Children (rs_Path raw @ ''ExecEnv.'') t \<noteq> Inr []"
    using tabs by (auto simp: check_modules_tables_def find_None_iff is_err_def split: option.splits sum.splits dest!: find_SomeD)
  ultimately show ?thesis by (auto simp: software_modules_ok_def find_None_iff list_all_iff)
qed

section \<open>Loading\<close>

lemma mergeFiles_steps:
  assumes "mergeFiles parse t files = (Inr mc, t2)"
  obtains allRaw t1 mc0 sm where "all_rows files = Inr allRaw" and "applyRows (map (\<lambda>(raw, source). applyDefaults raw source) allRaw) t = (Inr (), t1)"
    and "merge_blocks parse t1 files allRaw = Inr mc0" and "merge_bulkData files '''' t1 = (Inr (), t2)"
    and "merge_one ''softwareModules'' pr_SoftwareModules
           (\<lambda>source raw. case validateSoftwareModules parse t2 source raw of Inl e \<Rightarrow> Inl e | Inr c \<Rightarrow> Inr (Some c)) files ('''', None) = Inr sm"
    and "mc = mc0\<lparr>mc_SoftwareModules := snd sm\<rparr>"
  using assms by (auto simp: mergeFiles_def split: sum.splits prod.splits)

lemma mergeFiles_resolve:
  assumes "mergeFiles parse t files = (Inr mc, t2)"
  shows "blocks_resolve t2 mc \<and> software_modules_ok t2 (mc_SoftwareModules mc)"
proof (rule mergeFiles_steps [OF assms])
  fix allRaw t1 mc0 sm
  assume b: "merge_blocks parse t1 files allRaw = Inr mc0" "merge_bulkData files '''' t1 = (Inr (), t2)"
    and m: "merge_one ''softwareModules'' pr_SoftwareModules
       (\<lambda>source raw. case validateSoftwareModules parse t2 source raw of Inl e \<Rightarrow> Inl e | Inr c \<Rightarrow> Inr (Some c)) files ('''', None) = Inr sm"
    and mc: "mc = mc0\<lparr>mc_SoftwareModules := snd sm\<rparr>"
  have "keeps_leaves t1 t2" using merge_bulkData_keeps_leaves [of t1 files "''''"] b(2) by simp
  then have "blocks_resolve t2 mc0" using blocks_resolve_mono merge_blocks_resolve [OF b(1)] by blast
  moreover have "software_modules_ok t2 (snd sm)"
    by (rule merge_one_holds [OF m]) (auto simp: software_modules_ok_def [of t2 None] dest: validateSoftwareModules_ok split: sum.splits)
  ultimately show ?thesis by (simp add: mc blocks_resolve_def)
qed

lemma mergeFiles_generators:
  assumes "mergeFiles parse t files = (Inr mc, t2)"
  shows "distinct (map gc_Path (mc_Generators mc))
    \<and> (\<forall>cfg \<in> set (mc_Generators mc). \<exists>t1 raw. validateGenerator parse t1 raw = Inr cfg \<and> keeps_leaves t1 t2)"
proof (rule mergeFiles_steps [OF assms])
  fix allRaw t1 mc0 and sm :: "string \<times> SoftwareModulesConfig option"
  assume b: "merge_blocks parse t1 files allRaw = Inr mc0" "merge_bulkData files '''' t1 = (Inr (), t2)"
    and mc: "mc = mc0\<lparr>mc_SoftwareModules := snd sm\<rparr>"
  have "keeps_leaves t1 t2" using merge_bulkData_keeps_leaves [of t1 files "''''"] b(2) by simp
  with merge_blocks_generators [OF b(1)] show ?thesis by (simp add: mc generators_ok_def) blast
qed

lemma load_files_steps:
  assumes "load_files parse files = Inr p"
  obtains "mergeFiles parse New files = (Inr (P_Config p), P_Tree p)" and "crossCheckInformParameters (P_Tree p) (mc_InformParams (P_Config p)) = None"
    and "P_InformParameters p = map (\<lambda>(code, paths, _). (code, paths)) (mc_InformParams (P_Config p))"
  using assms by (auto simp: load_files_def split: option.splits sum.splits prod.splits)

lemma check_event_paths_None: "check_event_paths t code src ps = None \<longleftrightarrow> list_all (\<lambda>p. leaf_in t p (\<lambda>_. True)) ps"
  by (induction t code src ps rule: check_event_paths.induct) (auto simp: leaf_in_iff split: sum.splits)

lemma crossCheck_None:
  "crossCheckInformParameters t agg = None \<longleftrightarrow> list_all (\<lambda>(code, paths, src). list_all (\<lambda>p. leaf_in t p (\<lambda>_. True)) paths) agg"
proof (induction t agg rule: crossCheckInformParameters.induct)
  case (2 t code paths src agg)
  then show ?case using check_event_paths_None [of t code src paths] by (cases "check_event_paths t code src paths") simp_all
qed simp


text \<open>C39: The generators of a loaded profile can all be built: no two of them have the same path, and for each
  \<^verbatim>\<open>FromConfig\<close> gives a generator for its leaf, which is in the tree with the type the generator writes.\<close>

theorem loaded_generators_build:
  assumes "load_files parse files = Inr p"
  shows "distinct (map gc_Path (mc_Generators (P_Config p)))
    \<and> (\<forall>cfg \<in> set (mc_Generators (P_Config p)). \<exists>g v. FromConfig now cfg = Inr g \<and> gen_Path g = gc_Path cfg
         \<and> Get (gc_Path cfg) (P_Tree p) = Inr v \<and> writes_type g (VType v) \<and> 0 < gc_Interval cfg)"
proof (rule load_files_steps [OF assms])
  assume m: "mergeFiles parse New files = (Inr (P_Config p), P_Tree p)"
  have "\<exists>g v. FromConfig now cfg = Inr g \<and> gen_Path g = gc_Path cfg
         \<and> Get (gc_Path cfg) (P_Tree p) = Inr v \<and> writes_type g (VType v) \<and> 0 < gc_Interval cfg"
    if cfg: "cfg \<in> set (mc_Generators (P_Config p))" for cfg
  proof -
    obtain t1 raw where g: "validateGenerator parse t1 raw = Inr cfg" "keeps_leaves t1 (P_Tree p)"
      using bspec [OF mergeFiles_generators [OF m, THEN conjunct2] cfg] by (elim exE conjE)
    from validated_generator_builds [OF g(1), of now] obtain gen v where "FromConfig now cfg = Inr gen" "gen_Path gen = rg_Path raw"
        "Get (rg_Path raw) t1 = Inr v" "writes_type gen (VType v)" "0 < gc_Interval cfg" by blast
    then show ?thesis using validateGenerator_path [OF g(1)] keeps_Get [OF g(2)] by simp
  qed
  then show ?thesis using mergeFiles_generators [OF m, THEN conjunct1] by simp
qed

section \<open>A concrete profile\<close>

definition sample_param :: "string \<Rightarrow> string \<Rightarrow> string \<Rightarrow> rawProfileParam" where
  "sample_param path typ v = \<lparr>rp_Path = path, rp_Type = Some typ, rp_Value = Some v, rp_Writable = Some True, rp_Instances = None, rp_Generator = None\<rparr>"

definition sample_profile :: profile where
  "sample_profile =
     \<lparr>pr_Parameters = [sample_param ''D.Serial'' TypeString ''A1'', sample_param ''D.Interval'' TypeUnsignedInt ''300'',
        sample_param ''D.Enable'' TypeBoolean ''true'', sample_param ''D.Bytes'' TypeUnsignedInt ''0''],
      pr_Objects = [], pr_Groups = [], pr_InformParameters = Some \<lparr>ri_Bootstrap = None, ri_Boot = Some [''D.Serial''], ri_Periodic = None,
        ri_ValueChange = None, ri_ConnectionRequest = None, ri_TransferComplete = None\<rparr>,
      pr_DeviceIDPaths = None, pr_Transfer = None, pr_ConnectionRequest = None,
      pr_PeriodicInformPaths = Some \<lparr>pi_Interval = ''D.Interval'', pi_Enable = ''D.Enable'', pi_Time = ''''\<rparr>,
      pr_ACSCredentialPaths = None, pr_DeferredParameters = [''D.Serial''],
      pr_Generators = [\<lparr>rg_Path = ''D.Bytes'', rg_Type = ''counter'', rg_Interval = ''5s'', rg_Min = Some 0, rg_Max = Some 1000, rg_Step = Some 4,
        rg_Jitter = None, rg_StepMax = None, rg_Values = [], rg_Mode = ''''\<rparr>],
      pr_Fleet = Some \<lparr>fl_Count = 20, fl_Offset = 100, fl_SerialPattern = '''', fl_Pools = [(''wan'', \<lparr>fp_Type = ''ipv4'', fp_CIDR = ''10.0.0.0/24'', fp_Super = '''', fp_SubLen = 0\<rparr>)]\<rparr>,
      pr_EventSchedule = None, pr_Diagnostics = [], pr_SoftwareModules = None,
      pr_BulkData = Some \<lparr>bd_Root = ''Device'', bd_Protocols = ''HTTP'', bd_EncodingTypes = ''JSON'', bd_MinReportingInterval = 60, bd_MaxNumberOfProfiles = 5,
        bd_MaxNumberOfParameterReferences = 10, bd_ParameterWildCardSupported = True\<rparr>,
      pr_Faults = None, pr_App = None\<rparr>"

definition sample_files :: "loadedFile list" where
  "sample_files = [\<lparr>ld_path = ''profile.yaml'', ld_prof = sample_profile\<rparr>]"

lemma sample_profile_loads:
  obtains p where "load_files (\<lambda>_. Inr 5000000000) sample_files = Inr p"
proof -
  have "\<not> is_err (load_files (\<lambda>_. Inr 5000000000) sample_files)" by code_simp
  then show thesis using that by (auto simp: not_is_err_conv)
qed

lemma sample_profile_reads:
  "case load_files (\<lambda>_. Inr 5000000000) sample_files of Inr p \<Rightarrow> map gc_Path (mc_Generators (P_Config p)) = [''D.Bytes'']
     \<and> mc_Fleet (P_Config p) = \<lparr>fl_Count = 20, fl_Offset = 100, fl_SerialPattern = ''{base}-{i}'',
         fl_Pools = [(''wan'', \<lparr>fp_Type = ''ipv4'', fp_CIDR = ''10.0.0.0/24'', fp_Super = '''', fp_SubLen = 0\<rparr>)]\<rparr>
   | Inl e \<Rightarrow> False"
  by code_simp


theorem loaded_generators_build_witness:
  "\<exists>p g cfg v. load_files (\<lambda>_. Inr 5000000000) sample_files = Inr p \<and> mc_Generators (P_Config p) = [cfg] \<and> FromConfig 0 cfg = Inr g
     \<and> Get ''D.Bytes'' (P_Tree p) = Inr v \<and> writes_type g (VType v)"
proof (rule sample_profile_loads)
  fix p
  assume p: "load_files (\<lambda>_. Inr 5000000000) sample_files = Inr p"
  then obtain cfg where cfg: "mc_Generators (P_Config p) = [cfg]" "gc_Path cfg = ''D.Bytes''" using sample_profile_reads by auto
  from loaded_generators_build [OF p, of 0] p cfg show ?thesis by auto
qed

end
