(* ===== verification/FleetProps.thy ===== *)
theory FleetProps
  imports ProfileProps
begin

text \<open>
  The address pools of a fleet: a profile is only loaded when its pools reach every instance of the
  fleet, and an IPv4 pool gives every instance an address of its own inside its network.
\<close>

section \<open>Capacity\<close>

lemma ResolvePool_mono:
  assumes "ResolvePool p highest = Inr a" and "1 \<le> i" and "i \<le> highest"
  shows "\<exists>b. ResolvePool p i = Inr b"
  using assms
  by (auto simp: ResolvePool_def resolveIPv4_def resolveIPv6_def resolveIPv6Prefix_def Let_def split: if_splits option.splits Addr.splits)

lemma check_capacity_None: "check_capacity pools highest names = None \<Longrightarrow> name \<in> set names \<Longrightarrow> \<exists>a. ResolvePool (the (map_of pools name)) highest = Inr a"
  by (induction pools highest names rule: check_capacity.induct) (auto split: sum.splits)

lemma ValidatePoolCapacity_reach:
  assumes "ValidatePoolCapacity pools highest = None" and "map_of pools name = Some pool" and "1 \<le> i" and "i \<le> highest"
  shows "\<exists>a. ResolvePool pool i = Inr a"
proof -
  have "check_capacity pools highest (sortedPoolNames pools) = None" using assms(1,3,4) by (simp add: ValidatePoolCapacity_def)
  moreover have "name \<in> set (sortedPoolNames pools)" using map_of_SomeD [OF assms(2)] by (force simp: sortedPoolNames_def)
  ultimately have "\<exists>a. ResolvePool (the (map_of pools name)) highest = Inr a" by (rule check_capacity_None)
  then obtain a where "ResolvePool pool highest = Inr a" using assms(2) by auto
  with ResolvePool_mono assms(3,4) show ?thesis by blast
qed

lemma load_files_fleet:
  assumes "load_files parse files = Inr p"
  shows "merge_fleet files = Inr (mc_Fleet (P_Config p))"
proof (rule load_files_steps [OF assms])
  assume m: "mergeFiles parse New files = (Inr (P_Config p), P_Tree p)"
  show ?thesis
  proof (rule mergeFiles_steps [OF m])
    fix allRaw t1 mc0 and sm :: "string \<times> SoftwareModulesConfig option"
    assume "merge_blocks parse t1 files allRaw = Inr mc0" "P_Config p = mc0\<lparr>mc_SoftwareModules := snd sm\<rparr>"
    then show ?thesis by (auto elim: merge_blocks_steps)
  qed
qed

lemma check_fleet_bounds: "check_fleet source raw = Inr c \<Longrightarrow> 0 \<le> fl_Count c \<and> 0 \<le> fl_Offset c"
  by (auto simp: check_fleet_def split: if_splits sum.splits)

text \<open>C40: The pools of a loaded profile reach the whole fleet: for every instance up to the offset plus the count,
  those of the other shards below it included, every pool gives an address, as long as offset plus count
  is an integer of 64 bits.\<close>

theorem fleet_pools_reach:
  assumes "load_files parse files = Inr p" and "f = mc_Fleet (P_Config p)" and "fl_Offset f + fl_Count f < 2 ^ 63"
    and "map_of (fl_Pools f) name = Some pool" and "1 \<le> i" and "i \<le> fl_Offset f + fl_Count f"
  shows "1 \<le> fl_Count f \<and> (\<exists>a. ResolvePool pool i = Inr a)"
proof -
  have "merge_fleet files = Inr f" using load_files_fleet [OF assms(1)] assms(2) by simp
  then obtain source cfg where c: "merge_one ''fleet'' pr_Fleet check_fleet files ('''', noFleet) = Inr (source, cfg)"
    and f: "f = cfg\<lparr>fl_Count := (if fl_Count cfg = 0 then 1 else fl_Count cfg),
                     fl_SerialPattern := (if fl_SerialPattern cfg = '''' then ''{base}-{i}'' else fl_SerialPattern cfg)\<rparr>"
    and v: "ValidatePoolCapacity (fl_Pools cfg) (int64 (fl_Offset cfg + (if fl_Count cfg = 0 then 1 else fl_Count cfg))) = None"
    by (auto simp: merge_fleet_def Let_def split: sum.splits option.splits)
  have "0 \<le> fl_Count (snd (source, cfg)) \<and> 0 \<le> fl_Offset (snd (source, cfg))"
    by (rule merge_one_holds [OF c]) (simp_all add: noFleet_def check_fleet_bounds)
  then have count: "1 \<le> fl_Count f" "0 \<le> fl_Offset f" by (auto simp: f)
  have "int64 (fl_Offset f + fl_Count f) = fl_Offset f + fl_Count f" using count assms(3) by (simp add: int64_id)
  then have "ValidatePoolCapacity (fl_Pools f) (fl_Offset f + fl_Count f) = None" using v by (simp add: f)
  from ValidatePoolCapacity_reach [OF this assms(4-6)] count show ?thesis by blast
qed

section \<open>IPv4 addresses\<close>

lemma drop_bit_uint: "uint (drop_bit h w) = uint (w :: 'a::len word) div 2 ^ h"
  by (simp add: unsigned_drop_bit_eq take_bit_int_eq_self uint_bounded flip: drop_bit_eq_div)

text \<open>The address of an instance: the network, and the number of the instance in the bits below.\<close>

lemma uint_host:
  fixes w :: "'a::len word"
  assumes "0 \<le> i" and "i < 2 ^ h" and "h \<le> LENGTH('a)"
  shows "uint (push_bit h (drop_bit h w) + of_int i) = uint w div 2 ^ h * 2 ^ h + i"
proof -
  have small: "uint w div 2 ^ h * 2 ^ h + i < 2 ^ LENGTH('a)"
  proof -
    have "uint w div 2 ^ h < 2 ^ (LENGTH('a) - h)"
    proof -
      have "uint w < 2 ^ (LENGTH('a) - h) * 2 ^ h" using uint_bounded [of w] assms(3) by (simp flip: power_add)
      moreover have "uint w div 2 ^ h * 2 ^ h \<le> uint w" by (simp flip: minus_mod_eq_div_mult)
      ultimately show ?thesis by (metis le_less_trans mult_less_cancel_right_pos zero_less_numeral zero_less_power)
    qed
    then have "(uint w div 2 ^ h + 1) * 2 ^ h \<le> (2::int) ^ (LENGTH('a) - h) * 2 ^ h" by (intro mult_right_mono) simp_all
    moreover have "uint w div 2 ^ h * 2 ^ h + i < (uint w div 2 ^ h + 1) * 2 ^ h" using assms(2) by (simp add: algebra_simps)
    ultimately have "uint w div 2 ^ h * 2 ^ h + i < (2::int) ^ (LENGTH('a) - h) * 2 ^ h" by linarith
    then show ?thesis using assms(3) by (simp flip: power_add)
  qed
  have "push_bit h (drop_bit h w) + of_int i = word_of_int (uint w div 2 ^ h * 2 ^ h + i)"
    by (simp add: push_bit_eq_mult flip: drop_bit_uint)
  then have "uint (push_bit h (drop_bit h w) + of_int i) = take_bit LENGTH('a) (uint w div 2 ^ h * 2 ^ h + i)" by (simp only: uint_word_of_int_eq)
  also have "\<dots> = uint w div 2 ^ h * 2 ^ h + i" using small assms(1) by (intro take_bit_int_eq_self add_nonneg_nonneg) (simp_all add: pos_imp_zdiv_nonneg_iff)
  finally show ?thesis .
qed

lemma host_apart:
  fixes w :: "'a::len word"
  assumes "0 \<le> i" "i < 2 ^ h" "0 \<le> j" "j < 2 ^ h" "h \<le> LENGTH('a)" "i \<noteq> j"
  shows "push_bit h (drop_bit h w) + of_int i \<noteq> push_bit h (drop_bit h w) + of_int j"
  using uint_host [of i h w] uint_host [of j h w] assms by (metis add_left_cancel)

lemma host_in_network:
  fixes w :: "'a::len word"
  assumes "0 \<le> i" "i < 2 ^ h" "h \<le> LENGTH('a)"
  shows "drop_bit h (push_bit h (drop_bit h w) + of_int i) = drop_bit h w"
proof -
  have "uint (drop_bit h (push_bit h (drop_bit h w) + of_int i)) = uint (drop_bit h w)"
    using assms by (simp add: drop_bit_uint uint_host)
  then show ?thesis by (rule word_uint_eqI)
qed

lemma Itoa_nonneg: "0 \<le> k \<Longrightarrow> Itoa k = show_nat (nat k)"
  using Itoa_of_nat [of "nat k"] by simp

lemma bytes_value: "n = a * 256 + r0 \<Longrightarrow> a = b * 256 + r1 \<Longrightarrow> b = c * 256 + r2 \<Longrightarrow> n = c * 2 ^ 24 + r2 * 2 ^ 16 + r1 * 2 ^ 8 + (r0 :: int)"
  by simp

lemma uint_bytes:
  fixes u :: "32 word"
  shows "uint u = uint (drop_bit 24 u) mod 256 * 2 ^ 24 + uint (drop_bit 16 u) mod 256 * 2 ^ 16 + uint (drop_bit 8 u) mod 256 * 2 ^ 8
      + uint (drop_bit 0 u) mod 256"
proof -
  define n a b c where "n = uint u" and "a = n div 256" and "b = a div 256" and "c = b div 256"
  have n: "n = a * 256 + n mod 256" "a = b * 256 + a mod 256" "b = c * 256 + b mod 256"
    by (simp_all add: a_def b_def c_def div_mult_mod_eq)
  have "0 \<le> n" "n < 2 ^ 32" using uint_bounded [of u] by (simp_all add: n_def)
  with n have "0 \<le> c" "c < 256" by (simp_all add: a_def b_def c_def pos_imp_zdiv_nonneg_iff zdiv_zmult2_eq [symmetric])
  then have "c mod 256 = c" by simp
  moreover have "n div 2 ^ 8 = a" "n div 2 ^ 16 = b" "n div 2 ^ 24 = c" by (simp_all add: a_def b_def c_def zdiv_zmult2_eq [symmetric])
  moreover have "n = c * 2 ^ 24 + b mod 256 * 2 ^ 16 + a mod 256 * 2 ^ 8 + n mod 256" using n by (rule bytes_value)
  ultimately show ?thesis unfolding drop_bit_uint n_def [symmetric] by (simp only: power_0 div_by_1)
qed

lemma String4_inject: "String4 v = String4 w \<longleftrightarrow> v = w"
proof
  assume eq: "String4 v = String4 w"
  let ?f = "\<lambda>w::32 word. map (\<lambda>k. show_nat (nat (uint (drop_bit k w) mod 256))) [24, 16, 8, 0]"
  have "String4 u = join ''.'' (?f u)" for u by (simp add: String4_def Itoa_nonneg)
  then have "split_on CHR ''.'' (String4 u) = ?f u" for u
    by (simp only:) (rule split_on_join, auto dest!: show_nat_digits simp: is_digit_def)
  with eq have "?f v = ?f w" by metis
  then have q: "uint (drop_bit k v) mod 256 = uint (drop_bit k w) mod 256" if "k \<in> {24, 16, 8, 0}" for k using that by (auto simp: eq_nat_nat_iff)
  have "uint v = uint w"
    by (subst uint_bytes [of v], subst uint_bytes [of w]) (simp only: q insert_iff simp_thms)
  then show "v = w" by (rule word_uint_eqI)
qed simp

text \<open>An IPv4 pool keeps the instances of a fleet apart: the address of an instance lies in the network of
  the pool, and two instances never have the same address.\<close>

theorem ipv4_pool_addresses:
  assumes "1 \<le> i" and "resolveIPv4 cidr i = Inr a"
  shows "(\<exists>w bits addr. ParsePrefix cidr = Some (IP4 w, bits) \<and> a = String4 addr \<and> Masked4 addr bits = Masked4 w bits)
    \<and> (\<forall>j. 1 \<le> j \<and> resolveIPv4 cidr j = Inr a \<longrightarrow> j = i)"
proof -
  obtain w bits where p: "ParsePrefix cidr = Some (IP4 w, bits)"
    using assms(2) by (auto simp: resolveIPv4_def split: option.splits Addr.splits)
  let ?h = "32 - bits"
  have res: "if ?h = 0 then k = 1 \<and> b = String4 w else k < 2 ^ ?h \<and> b = String4 (Masked4 w bits + of_int k)"
    if "resolveIPv4 cidr k = Inr b" for k b
    using that p by (auto simp: resolveIPv4_def Let_def split: if_splits)
  note ri = res [OF assms(2)]
  show ?thesis
  proof (cases "?h = 0")
    case True
    then show ?thesis using ri p res by auto
  next
    case False
    define addr where "addr = Masked4 w bits + of_int i"
    have "Masked4 addr bits = Masked4 w bits"
      using host_in_network [of i ?h w] ri assms(1) False by (simp add: addr_def Masked4_def)
    moreover have "j = i" if "1 \<le> j" "resolveIPv4 cidr j = Inr a" for j
      using host_apart [of i ?h j w] res [OF that(2)] ri that(1) assms(1) False by (auto simp: String4_inject Masked4_def)
    ultimately show ?thesis using ri False p by (auto simp: addr_def)
  qed
qed

section \<open>A concrete fleet\<close>

theorem fleet_pools_reach_witness:
  "\<exists>p pool a. load_files (\<lambda>_. Inr 5000000000) sample_files = Inr p \<and> map_of (fl_Pools (mc_Fleet (P_Config p))) ''wan'' = Some pool \<and> ResolvePool pool 7 = Inr a"
proof (rule sample_profile_loads)
  fix p
  assume p: "load_files (\<lambda>_. Inr 5000000000) sample_files = Inr p"
  then have f: "mc_Fleet (P_Config p) = \<lparr>fl_Count = 20, fl_Offset = 100, fl_SerialPattern = ''{base}-{i}'',
      fl_Pools = [(''wan'', \<lparr>fp_Type = ''ipv4'', fp_CIDR = ''10.0.0.0/24'', fp_Super = '''', fp_SubLen = 0\<rparr>)]\<rparr>"
    using sample_profile_reads by simp
  from fleet_pools_reach [OF p refl, of "''wan''" _ 7] p f show ?thesis by auto
qed

theorem ipv4_pool_addresses_witness:
  "resolveIPv4 ''10.0.0.0/24'' 120 = Inr ''10.0.0.120'' \<and> resolveIPv4 ''10.0.0.0/24'' 121 \<noteq> Inr ''10.0.0.120''"
proof -
  have "resolveIPv4 ''10.0.0.0/24'' 120 = Inr ''10.0.0.120''" by code_simp
  moreover have "\<not> (1 \<le> (121::int) \<and> resolveIPv4 ''10.0.0.0/24'' 121 = Inr ''10.0.0.120'')"
    using ipv4_pool_addresses [OF _ calculation, THEN conjunct2, rule_format, of 121] by auto
  ultimately show ?thesis by simp
qed

end
