(* ===== verification/Spec2Isabelle.thy ===== *)
theory Spec2Isabelle
  imports ParamWalk ParamReach SessionRunner Scheduler UspOperate Stun GenScheduler ModuleInvariant FleetProps
begin

text \<open>
  A verification development for the CPE simulator: a Go program that plays a fleet of customer premises
  devices towards a CWMP auto configuration server (TR-069) and a USP controller (TR-369).  It follows the
  code package by package; the root collects the component theories.

  \<^bold>\<open>The program.\<close>  Each simulated CPE has a parameter tree, built from a profile.  The ACS reads and writes
  it in sessions: the CPE opens a session with an Inform that lists the events owed to the ACS, then
  answers the ACS's requests.  Triggers (boot, period, connection request over TCP or STUN, retry, value
  change) ask the session runner for a session; only one runs at a time and the others wait.  A USP agent
  serves the same tree over messages.  Generators write changing values, and the software module manager
  installs applications, whose data models it grafts into the tree.

  \<^bold>\<open>The theories and the code\<close> (file names below \<^verbatim>\<open>src/internal\<close> unless they start with \<^verbatim>\<open>cmd\<close>):

  \<^item> \<open>Prelude\<close>, \<open>GoTime\<close>, \<open>GoStrings\<close>, \<open>GoNet\<close>: the parts of Go's standard library that the code uses
    (\<^verbatim>\<open>strings\<close>, \<^verbatim>\<open>strconv\<close>, \<^verbatim>\<open>sort\<close>, \<^verbatim>\<open>time\<close>, \<^verbatim>\<open>net\<close>, \<^verbatim>\<open>net/netip\<close>), association lists for maps, sums for results
    with an error.  \<open>CpeErr\<close>: \<^verbatim>\<open>cpeerr\<close>, the typed errors.
  \<^item> \<open>ParamValue\<close>, \<open>ParamNode\<close>, \<open>ParamTree\<close>, \<open>ParamWalk\<close>, \<open>ParamTables\<close>, \<open>ParamGraft\<close>: \<^verbatim>\<open>paramtree\<close> (values, paths,
    nodes, get and set, batches, attributes, observers, enumeration, tables, grafting).  \<open>ParamReach\<close>: every
    operation as a step of a relation, and the shape and type invariant of all reachable trees.
    \<open>ParamRows\<close>, \<open>ParamFrames\<close>: what an operation leaves alone, for the clients of the tree.
  \<^item> \<open>ProfileRows\<close>, \<open>ProfileTree\<close>: the rows of a profile (\<^verbatim>\<open>paramtree/profile.go\<close>), their expansion and the tree they
    give.  \<open>ProfileBlocks\<close>, \<open>ProfileProps\<close>: all other blocks, \<^verbatim>\<open>mergeFiles\<close> and the loaders (\<^verbatim>\<open>profile.go\<close>, \<^verbatim>\<open>app.go\<close>,
    \<^verbatim>\<open>diagnostic.go\<close>, \<^verbatim>\<open>linkfault.go\<close>).  \<open>BulkDataModel\<close>: \<^verbatim>\<open>bulkdata.go\<close>.  \<open>FleetPools\<close>, \<open>FleetProps\<close>: \<^verbatim>\<open>fleet.go\<close>.
  \<^item> \<open>Wire\<close>, \<open>SoapDecoder\<close>, \<open>Inform\<close>: \<^verbatim>\<open>cwmp/soap\<close>, \<^verbatim>\<open>cwmp/inform\<close> and the bodies the CPE initiates.  \<open>EventTracker\<close>,
    \<open>Session\<close>, \<open>Retry\<close>: \<^verbatim>\<open>cwmp/eventtracker.go\<close>, \<^verbatim>\<open>session.go\<close>, \<^verbatim>\<open>retry.go\<close>, \<^verbatim>\<open>aftersession.go\<close>.  \<open>Requests\<close>, \<open>Handlers\<close>:
    \<^verbatim>\<open>cwmp/handlers\<close>; \<open>HandlerProps\<close>: what each promises.  \<open>SessionInvariant\<close>, \<open>CpeSession\<close>: a whole session
    with the handlers of \<^verbatim>\<open>cmd/cpe-sim/main.go\<close>.  \<open>RunSession\<close>: \<^verbatim>\<open>cwmp/runsession.go\<close>.  \<open>SessionRunner\<close>: the runner in
    \<^verbatim>\<open>cmd/cpe-sim/main.go\<close> as a step relation over all interleavings.  \<open>Scheduler\<close>: \<^verbatim>\<open>cwmp/scheduler\<close>.  \<open>Stun\<close>: \<^verbatim>\<open>cwmp/stun\<close>.
  \<^item> \<open>UspPath\<close>, \<open>UspNotify\<close>, \<open>UspHandlers\<close>, \<open>UspOperate\<close>: \<^verbatim>\<open>usp/agent\<close> (search paths, subscriptions, requests, asynchronous
    commands, the agent's loop).
  \<^item> \<open>Generators\<close>, \<open>GenScheduler\<close>: \<^verbatim>\<open>generators\<close>.  \<open>SoftwareModules\<close>, \<open>ModuleProps\<close>, \<open>ModuleFrames\<close>,
    \<open>ModuleInvariant\<close>: \<^verbatim>\<open>softwaremodules\<close> and \<^verbatim>\<open>cmd/cpe-sim/softwaremodules.go\<close>.

  A struct is a record, an enumeration a datatype, a method a function that returns the new state with its
  result.  What a mutex protects is one step.  An error is a value with its format text and cause, so that
  every early return is a branch; an operation returns the state also when it fails.

  \<^bold>\<open>What is shown.\<close>  Tree: reachable trees are well formed and well typed; a batch is all or nothing and equals
  its single writes; added and grafted objects are taken out without trace; a graft fails exactly on a
  conflict.  Profiles: which rows are accepted, that exactly the declared leaves and tables appear, that an
  added instance looks like the declared ones, that every reference of a block resolves, that generators can
  be built and pools reach the whole fleet.  Sessions: one at a time; a failed one loses nothing and is
  retried; a successful one delivers exactly what it announced; every request is answered; no request of an
  ACS damages the tree.  Scheduling: an enabled CPE has its tick, a registered generator is due, a round
  fires exactly what is due.  USP: requests report what they did, a failed Add is rolled back, a command
  runs once at a time, exactly the matching subscriptions are notified, search paths resolve as specified.
  STUN: a connection request is accepted once, messages decode to what was encoded.  Software modules: a
  failed install leaves no trace and units keep their own UUID in every sequence of operations.

  \<^bold>\<open>Interfaces\<close> are locales, interpreted on the model: \<open>cell_store\<close> (leaves and attributes of the tree),
  \<open>node_invariant\<close> (what every tree operation keeps), \<open>record_queue\<close> (the two queues of the tracker),
  \<open>session_invariant\<close> (what every handler keeps), \<open>agent_invariant\<close> (what the agent's operations keep),
  \<open>tick_contract\<close> (generators).

  \<^bold>\<open>Bounds, fuel and arguments.\<close>  Loops of the source are total functions with a termination proof.  Two take
  fuel: the enumeration of instances, with the height of the tree, and the collection of due generators,
  with the length of the queue plus one; theorems show that this is enough.  Counters and addresses are
  words, durations and the other integers are integers of 64 bits with the wrap-around written out.  Some
  statements assume fewer than two to the 62 rows of a table, or that offset plus count of a fleet does not
  overflow.  Arguments of the definitions: \<^verbatim>\<open>time.ParseDuration\<close>, SHA-1 and HMAC, random draws, clocks, the
  replies of the ACS, the manifest a URL yields, and the decoded YAML document.  Products and sums of
  floating-point numbers are rounded to 53 bits.  Texts of errors keep format and arguments.

  \<^bold>\<open>Not modelled:\<close> sockets and HTTP (\<^verbatim>\<open>cwmp/transport\<close>, \<^verbatim>\<open>cwmp/cr\<close>, \<^verbatim>\<open>firmwareimage\<close>, \<^verbatim>\<open>softwaremodules/fetch.go\<close>, the
  bulk data reporter of \<^verbatim>\<open>usp/agent\<close>), the MQTT transport and the protobuf codec, reading YAML and
  directories, flags, logging and the seeded random source (\<^verbatim>\<open>cpeconfig\<close>, \<^verbatim>\<open>cpelog\<close>, \<^verbatim>\<open>cperng\<close>), the timers of
  \<^verbatim>\<open>diagnostics\<close>, and the wiring of \<^verbatim>\<open>cmd/cpe-sim\<close> around goroutines and signals.  They are I/O or libraries; what
  the model needs of them is an argument or an event of a step relation.
\<close>

end
